(* ===== verification/Prelude.thy ===== *)
theory Prelude
  imports Main "HOL-Library.Word" "HOL-Library.Multiset"
begin

text \<open>
  Machine integers, fact collections and general lemmas shared by every component.

  The C types \<open>uint8_t\<close> .. \<open>uint64_t\<close> are words of that width. Signed values whose
  arithmetic stays far from the limits of their type (\<open>int\<close> counts, \<open>long\<close>
  scores, \<open>time_t\<close>) are mathematical integers; where the limit matters a theorem says
  so.
\<close>

unbundle bit_operations_syntax

type_synonym u8 = "8 word"
type_synonym u16 = "16 word"
type_synonym u32 = "32 word"
type_synonym u64 = "64 word"

named_theorems os_simps \<open>unfolding rules of the operating-system model\<close>
named_theorems step_defs \<open>definitions of the daemon's handlers\<close>

subsection \<open>Saturating counters\<close>

text \<open>\<open>if (x < UINT32_MAX) x++\<close>, the guard every session counter uses.\<close>

definition sat_inc :: "u32 \<Rightarrow> u32" where
  "sat_inc x = (if x < 0xFFFFFFFF then x + 1 else x)"

lemma unat_u32_le: "unat (x :: u32) \<le> 4294967295"
proof -
  have "unat x < 2 ^ LENGTH(32)"
    by (rule unsigned_less)
  then show ?thesis by simp
qed

lemma unat_sat_inc: "unat (sat_inc x) = min (unat x + 1) (2 ^ 32 - 1)"
proof (cases "x < 0xFFFFFFFF")
  case True
  then have "unat x < 4294967295"
    by (simp add: word_less_nat_alt)
  then show ?thesis
    using True by (simp add: sat_inc_def unat_word_ariths)
next
  case False
  then have "4294967295 \<le> unat x"
    by (simp add: word_less_nat_alt)
  moreover have "unat x \<le> 4294967295"
    using unat_u32_le [of x] by simp
  ultimately show ?thesis
    using False by (simp add: sat_inc_def)
qed

lemma sat_inc_ge [simp]: "x \<le> sat_inc x"
  using unat_u32_le [of x] by (simp add: word_le_nat_alt unat_sat_inc)

lemma sat_inc_pos [simp]: "0 < sat_inc x"
  by (simp add: word_less_nat_alt unat_sat_inc)

lemma sat_inc_nonzero [simp]: "sat_inc x \<noteq> 0"
  using sat_inc_pos [of x] by (metis less_irrefl)

subsection \<open>Lists used as C arrays\<close>

lemma nth_append_last [simp]: "(xs @ [x]) ! length xs = x"
  by simp

lemma list_update_split:
  "i < length xs \<Longrightarrow> xs[i := x] = take i xs @ x # drop (Suc i) xs"
  by (simp add: upd_conv_take_nth_drop)

lemma mset_list_update_new:
  "i < length xs \<Longrightarrow> mset (xs[i := x]) = mset xs - {#xs ! i#} + {#x#}"
  by (simp add: mset_update)

lemma distinct_nth_inj:
  "distinct xs \<Longrightarrow> i < length xs \<Longrightarrow> j < length xs \<Longrightarrow> xs ! i = xs ! j \<Longrightarrow> i = j"
  by (simp add: nth_eq_iff_index_eq)

lemma take_Suc_update [simp]:
  "i < length xs \<Longrightarrow> take (Suc i) (xs[i := x]) = take i xs @ [x]"
  by (simp add: take_Suc_conv_app_nth)

lemma sorted_nth_le:
  "sorted xs \<Longrightarrow> i \<le> j \<Longrightarrow> j < length xs \<Longrightarrow> xs ! i \<le> xs ! j"
  by (rule sorted_nth_mono)

text \<open>
  Equal keys of a sorted array are adjacent: what lies between two equal entries equals
  them.
\<close>

lemma sorted_between:
  assumes "sorted xs" and "i \<le> j" and "j \<le> k" and "k < length xs" and "xs ! i = xs ! k"
  shows "xs ! j = xs ! k"
proof -
  have "xs ! i \<le> xs ! j" "xs ! j \<le> xs ! k"
    using assms sorted_nth_mono [of xs i j] sorted_nth_mono [of xs j k] by auto
  with assms(5) show ?thesis by auto
qed

lemma length_filter_update:
  "i < length xs \<Longrightarrow>
     length (filter P (xs[i := x])) + (if P (xs ! i) then 1 else 0) =
     length (filter P xs) + (if P x then 1 else 0)"
proof (induction xs arbitrary: i)
  case (Cons y ys)
  show ?case
  proof (cases i)
    case (Suc k)
    with Cons.IH [of k] Cons.prems show ?thesis by auto
  qed auto
qed simp

lemma option_eqI: "(\<And>x. a = Some x \<longleftrightarrow> b = Some x) \<Longrightarrow> a = b"
  by (cases a; cases b) auto

text \<open>A search with a predicate that holds for at most one element.\<close>

lemma find_unique:
  assumes "\<And>i j. i < length xs \<Longrightarrow> j < length xs \<Longrightarrow> P (xs ! i) \<Longrightarrow> P (xs ! j) \<Longrightarrow> i = j"
  shows "List.find P xs = Some x \<longleftrightarrow> (\<exists>i < length xs. xs ! i = x \<and> P x)"
proof
  assume "\<exists>i < length xs. xs ! i = x \<and> P x"
  then obtain i where i: "i < length xs" "xs ! i = x" "P x" by blast
  then have "\<not> P (xs ! j)" if "j < i" for j using assms [of j i] that by auto
  with i show "List.find P xs = Some x" by (auto simp: find_Some_iff)
qed (auto simp: find_Some_iff)

subsection \<open>Bounded search over a C array\<close>

text \<open>
  \<open>first_index P xs\<close> is the loop \<open>for (i = 0; i < n; i++) if (P(xs[i])) ...\<close>: the
  least index whose element satisfies \<open>P\<close>, if there is one.
\<close>

fun first_index :: "('a \<Rightarrow> bool) \<Rightarrow> 'a list \<Rightarrow> nat option" where
  "first_index P [] = None"
| "first_index P (x # xs) = (if P x then Some 0 else map_option Suc (first_index P xs))"

lemma first_index_None: "first_index P xs = None \<longleftrightarrow> (\<forall>x \<in> set xs. \<not> P x)"
  by (induction xs) auto

lemma first_index_Some:
  "first_index P xs = Some i \<longleftrightarrow> i < length xs \<and> P (xs ! i) \<and> (\<forall>j < i. \<not> P (xs ! j))"
proof (induction xs arbitrary: i)
  case Nil
  then show ?case by simp
next
  case (Cons x xs)
  show ?case
  proof (cases i)
    case 0
    then show ?thesis by auto
  next
    case (Suc k)
    then show ?thesis
      using Cons.IH [of k] by (auto simp: All_less_Suc2)
  qed
qed

lemma first_index_append:
  "first_index P (xs @ ys) =
     (case first_index P xs of Some i \<Rightarrow> Some i
      | None \<Rightarrow> map_option (\<lambda>i. i + length xs) (first_index P ys))"
  by (induction xs) (auto split: option.splits simp: option.map_comp comp_def option.map_id0 [unfolded id_def])

end
