(* ===== verification/Cstring.thy ===== *)
theory Cstring
  imports Prelude "HOL-Library.Char_ord" "HOL-Library.Sublist"
begin

text \<open>
  The C string functions the sources call, over HOL strings (a \<open>string\<close> is a list of
  8-bit characters). A C string is the contents of its buffer up to the terminating NUL,
  so it holds no NUL itself; a pointer into a string is the suffix it points to.
\<close>

definition nul :: char where
  "nul = CHR 0x00"

definition newline :: char where
  "newline = CHR 0x0A"

definition cstr :: "string \<Rightarrow> bool" where
  "cstr s \<longleftrightarrow> nul \<notin> set s"

text \<open>A fixed-size buffer read as a C string: its bytes up to the first NUL.\<close>

definition cstr_of :: "string \<Rightarrow> string" where
  "cstr_of buf = takeWhile (\<lambda>c. c \<noteq> nul) buf"

lemma cstr_cstr_of [simp]: "cstr (cstr_of buf)"
  by (auto simp: cstr_def cstr_of_def dest: set_takeWhileD)

lemma cstr_of_id [simp]: "cstr s \<Longrightarrow> cstr_of s = s"
  by (simp add: cstr_def cstr_of_def) (metis takeWhile_eq_all_conv)

lemma length_cstr_of: "length (cstr_of buf) \<le> length buf"
  by (simp add: cstr_of_def length_takeWhile_le)

subsection \<open>snprintf\<close>

text \<open>\<open>snprintf(dst, n, "%s", s)\<close> with \<open>n > 0\<close> keeps at most \<open>n - 1\<close> characters.\<close>

definition snprintf_s :: "nat \<Rightarrow> string \<Rightarrow> string" where
  "snprintf_s n s = take (n - 1) s"

lemma snprintf_s_id [simp]: "length s < n \<Longrightarrow> snprintf_s n s = s"
  by (simp add: snprintf_s_def)

lemma length_snprintf_s: "0 < n \<Longrightarrow> length (snprintf_s n s) < n"
  by (simp add: snprintf_s_def)

lemma cstr_snprintf_s [simp]: "cstr s \<Longrightarrow> cstr (snprintf_s n s)"
  unfolding cstr_def snprintf_s_def by (meson in_set_takeD)

lemma cstr_append [simp]: "cstr (s @ t) \<longleftrightarrow> cstr s \<and> cstr t"
  by (auto simp: cstr_def)

lemma snprintf_s_Nil [simp]: "snprintf_s n [] = []"
  by (simp add: snprintf_s_def)

lemma snprintf_s_eq_Nil: "1 < n \<Longrightarrow> snprintf_s n s = [] \<longleftrightarrow> s = []"
  by (simp add: snprintf_s_def)

subsection \<open>Searching\<close>

text \<open>\<open>strchr\<close> and \<open>strrchr\<close>: the suffix that starts at the first, the last occurrence.\<close>

fun strchr :: "string \<Rightarrow> char \<Rightarrow> string option" where
  "strchr [] c = None"
| "strchr (x # xs) c = (if x = c then Some (x # xs) else strchr xs c)"

fun strrchr :: "string \<Rightarrow> char \<Rightarrow> string option" where
  "strrchr [] c = None"
| "strrchr (x # xs) c =
     (case strrchr xs c of Some p \<Rightarrow> Some p | None \<Rightarrow> if x = c then Some (x # xs) else None)"

fun strstr :: "string \<Rightarrow> string \<Rightarrow> string option" where
  "strstr [] needle = (if needle = [] then Some [] else None)"
| "strstr (x # xs) needle =
     (if prefix needle (x # xs) then Some (x # xs) else strstr xs needle)"

text \<open>\<open>strncmp(a, b, n) == 0\<close> and \<open>strcasecmp(a, b) == 0\<close> (C locale).\<close>

definition strncmp_eq :: "string \<Rightarrow> string \<Rightarrow> nat \<Rightarrow> bool" where
  "strncmp_eq a b n \<longleftrightarrow> take n a = take n b"

definition tolower :: "char \<Rightarrow> char" where
  "tolower c = (if 65 \<le> (of_char c :: nat) \<and> (of_char c :: nat) \<le> 90
                then char_of ((of_char c :: nat) + 32) else c)"

definition strcasecmp_eq :: "string \<Rightarrow> string \<Rightarrow> bool" where
  "strcasecmp_eq a b \<longleftrightarrow> map tolower a = map tolower b"

lemma strchr_None: "strchr s c = None \<longleftrightarrow> c \<notin> set s"
  by (induction s) auto

lemma strchr_Some:
  "strchr s c = Some p \<Longrightarrow> \<exists>a b. s = a @ p \<and> p = c # b \<and> c \<notin> set a"
proof (induction s)
  case (Cons x xs)
  then show ?case
    by (cases "x = c") (force, metis Cons_eq_appendI set_ConsD strchr.simps(2))
qed simp

lemma strchr_append:
  "strchr (a @ c # b) c = Some (c # b)" if "c \<notin> set a"
  using that by (induction a) auto

lemma strrchr_None: "strrchr s c = None \<longleftrightarrow> c \<notin> set s"
  by (induction s) (auto split: option.splits)

lemma strrchr_Some:
  "strrchr s c = Some p \<Longrightarrow> \<exists>a b. s = a @ p \<and> p = c # b \<and> c \<notin> set b"
proof (induction s)
  case (Cons x xs)
  show ?case
  proof (cases "strrchr xs c")
    case None
    with Cons.prems show ?thesis
      by (auto simp: strrchr_None split: if_splits)
  next
    case (Some q)
    with Cons obtain a b where "xs = a @ q" "q = c # b" "c \<notin> set b" "p = q"
      by auto
    then have "x # xs = (x # a) @ p \<and> p = c # b \<and> c \<notin> set b" by simp
    then show ?thesis by blast
  qed
qed simp

lemma strrchr_append: "strrchr (a @ c # b) c = Some (c # b)" if "c \<notin> set b"
proof (induction a)
  case Nil
  from that have "strrchr b c = None" by (simp add: strrchr_None)
  then show ?case by simp
qed simp

lemma strstr_Some:
  "strstr s n = Some p \<Longrightarrow> \<exists>a. s = a @ p \<and> prefix n p"
proof (induction s)
  case Nil
  then show ?case by (auto split: if_splits)
next
  case (Cons x xs)
  show ?case
  proof (cases "prefix n (x # xs)")
    case True
    with Cons.prems show ?thesis by auto
  next
    case False
    with Cons obtain a where "xs = a @ p" "prefix n p" by auto
    then have "x # xs = (x # a) @ p \<and> prefix n p" by simp
    then show ?thesis by blast
  qed
qed

lemma strstr_None: "strstr s n = None \<longleftrightarrow> \<not> sublist n s"
proof (induction s)
  case Nil
  then show ?case by simp
next
  case (Cons x xs)
  then show ?case by (auto simp: sublist_Cons_right)
qed

text \<open>The occurrence found is the first one.\<close>

lemma strstr_first:
  assumes "\<And>i. i < length a \<Longrightarrow> \<not> prefix n (drop i (a @ n @ b))"
  shows "strstr (a @ n @ b) n = Some (n @ b)"
  using assms
proof (induction a)
  case Nil
  show ?case
  proof (cases "n @ b")
    case (Cons c cs)
    then have "prefix n (c # cs)" by (metis prefixI)
    with Cons show ?thesis by simp
  qed simp
next
  case (Cons x a)
  have "\<not> prefix n ((x # a) @ n @ b)"
    using Cons.prems [of 0] by simp
  moreover have "strstr (a @ n @ b) n = Some (n @ b)"
    by (rule Cons.IH) (use Cons.prems [of "Suc i" for i] in auto)
  ultimately show ?case by simp
qed

lemma strcasecmp_eq_refl [simp]: "strcasecmp_eq a a"
  by (simp add: strcasecmp_eq_def)

subsection \<open>Decimal output\<close>

fun show_nat :: "nat \<Rightarrow> string" where
  "show_nat n =
     (if n < 10 then [char_of (48 + n)] else show_nat (n div 10) @ [char_of (48 + n mod 10)])"

declare show_nat.simps [simp del]

definition show_int :: "int \<Rightarrow> string" where
  "show_int i = (if i < 0 then ''-'' @ show_nat (nat (- i)) else show_nat (nat i))"

text \<open>\<open>%0<w>d\<close>: at least \<open>w\<close> characters, padded with zeros after the sign.\<close>

definition show_pad :: "nat \<Rightarrow> int \<Rightarrow> string" where
  "show_pad w i =
     (let digits = show_nat (nat \<bar>i\<bar>); sign = (if i < 0 then ''-'' else [])
      in sign @ replicate (w - length sign - length digits) CHR ''0'' @ digits)"

lemma show_nat_nonempty [simp]: "show_nat n \<noteq> []"
  by (subst show_nat.simps) simp

lemma show_nat_digits: "c \<in> set (show_nat n) \<Longrightarrow> 48 \<le> (of_char c :: nat) \<and> (of_char c :: nat) \<le> 57"
proof (induction n rule: show_nat.induct)
  case (1 n)
  have d: "(of_char (char_of (48 + m :: nat)) :: nat) = 48 + m" if "m < 10" for m
    using that by (simp add: of_char_of take_bit_eq_mod)
  show ?case
  proof (cases "n < 10")
    case True
    with 1(2) d [of n] show ?thesis by (subst (asm) show_nat.simps) auto
  next
    case False
    have "n mod 10 < 10" by simp
    with 1 False d [of "n mod 10"] show ?thesis by (subst (asm) show_nat.simps) auto
  qed
qed

lemma cstr_show_nat [simp]: "cstr (show_nat n)"
  using show_nat_digits [of nul n] by (auto simp: cstr_def nul_def)

lemma show_nat_no_newline: "newline \<notin> set (show_nat n)"
  using show_nat_digits [of newline n] by (auto simp: newline_def)

lemma show_pad_no_newline: "newline \<notin> set (show_pad w i)"
  using show_nat_no_newline by (auto simp: show_pad_def Let_def newline_def)

subsection \<open>Splitting a buffer into lines\<close>

text \<open>
  The loop \<open>while (p < end) { eol = memchr(p, '\n', end - p); ...; if (!eol) break;
  p = eol + 1; }\<close> that the blocked-file code repeats: the lines it visits, in order. A
  trailing newline starts no further line.
\<close>

function lines_of :: "string \<Rightarrow> string list" where
  "lines_of s =
     (if s = [] then []
      else takeWhile (\<lambda>c. c \<noteq> newline) s #
           (case dropWhile (\<lambda>c. c \<noteq> newline) s of
              [] \<Rightarrow> []
            | _ # rest \<Rightarrow> lines_of rest))"
  by pat_completeness auto
termination
proof (relation "measure length")
  fix s x rest
  assume "dropWhile (\<lambda>c. c \<noteq> newline) s = x # rest"
  then show "(rest, s) \<in> measure length"
    using length_dropWhile_le [of "\<lambda>c. c \<noteq> newline" s] by simp
qed simp

declare lines_of.simps [simp del]

lemma lines_of_Nil [simp]: "lines_of [] = []"
  by (subst lines_of.simps) simp

lemma lines_of_line [simp]:
  assumes "newline \<notin> set l"
  shows "lines_of (l @ newline # rest) = l # lines_of rest"
proof -
  have "takeWhile (\<lambda>c. c \<noteq> newline) (l @ newline # rest) = l"
    "dropWhile (\<lambda>c. c \<noteq> newline) (l @ newline # rest) = newline # rest"
    using assms by (induction l) auto
  then show ?thesis by (subst lines_of.simps) simp
qed

lemma lines_of_single: "newline \<notin> set l \<Longrightarrow> lines_of (l @ [newline]) = [l]"
  using lines_of_line [of l "[]"] by simp

lemma lines_of_last:
  assumes "newline \<notin> set l" and "l \<noteq> []"
  shows "lines_of l = [l]"
proof -
  have "takeWhile (\<lambda>c. c \<noteq> newline) l = l" "dropWhile (\<lambda>c. c \<noteq> newline) l = []"
    using assms(1) by (induction l) auto
  with assms(2) show ?thesis
    by (subst lines_of.simps) (simp del: dropWhile_eq_Nil_conv takeWhile_eq_all_conv)
qed

lemma lines_of_cases:
  obtains (nil) "s = []"
  | (last) "newline \<notin> set s" "s \<noteq> []"
  | (line) l rest where "s = l @ newline # rest" "newline \<notin> set l"
  by (metis split_list_first)

text \<open>Two buffers joined at a line boundary give the lines of both.\<close>

lemma lines_of_append_newline:
  "lines_of (a @ newline # b) = lines_of (a @ [newline]) @ lines_of b"
proof (induction "length a" arbitrary: a rule: less_induct)
  case less
  show ?case
  proof (cases "newline \<in> set a")
    case False
    then show ?thesis
      using lines_of_line [of a "[]"] by simp
  next
    case True
    then obtain l rest where a: "a = l @ newline # rest" "newline \<notin> set l"
      by (metis split_list_first)
    then have "lines_of (rest @ newline # b) = lines_of (rest @ [newline]) @ lines_of b"
      by (intro less) simp
    with a show ?thesis by simp
  qed
qed

lemma lines_of_no_newline: "l \<in> set (lines_of s) \<Longrightarrow> newline \<notin> set l"
proof (induction "length s" arbitrary: s rule: less_induct)
  case less
  show ?case
  proof (cases s rule: lines_of_cases)
    case (line k rest)
    have "newline \<notin> set l" if "l \<in> set (lines_of rest)"
      using that less.hyps [of rest] line by simp
    with line less.prems show ?thesis by auto
  qed (use less.prems in \<open>auto simp: lines_of_last\<close>)
qed

text \<open>The file an atomic rewrite produces: every line followed by a newline.\<close>

definition unlines :: "string list \<Rightarrow> string" where
  "unlines ls = concat (map (\<lambda>l. l @ [newline]) ls)"

lemma unlines_simps [simp]:
  "unlines [] = []"
  "unlines (l # ls) = l @ newline # unlines ls"
  "unlines (ls @ ms) = unlines ls @ unlines ms"
  by (simp_all add: unlines_def)

lemma lines_of_unlines: "\<forall>l \<in> set ls. newline \<notin> set l \<Longrightarrow> lines_of (unlines ls) = ls"
  by (induction ls) auto

end
