(* ===== verification/Rguard_Errors.thy ===== *)
theory Rguard_Errors
  imports Cstring
begin

text \<open>
  The error codes every component returns (\<open>src/common/rguard_errors.h\<close>, \<open>.c\<close>): the
  enumeration, its C values, and the message of a code.
\<close>

datatype rguard_error =
    RGUARD_OK | RGUARD_ERR_CONFIG | RGUARD_ERR_STORE | RGUARD_ERR_BACKUP | RGUARD_ERR_DB
  | RGUARD_ERR_IPC | RGUARD_ERR_SPACE | RGUARD_ERR_RESTORE | RGUARD_ERR_NOT_FOUND

fun error_code :: "rguard_error \<Rightarrow> int" where
  "error_code RGUARD_OK = 0"
| "error_code RGUARD_ERR_CONFIG = 1"
| "error_code RGUARD_ERR_STORE = 2"
| "error_code RGUARD_ERR_BACKUP = 3"
| "error_code RGUARD_ERR_DB = 4"
| "error_code RGUARD_ERR_IPC = 5"
| "error_code RGUARD_ERR_SPACE = 6"
| "error_code RGUARD_ERR_RESTORE = 7"
| "error_code RGUARD_ERR_NOT_FOUND = 8"

definition rguard_strerror :: "int \<Rightarrow> string" where
  "rguard_strerror err =
     (if err = 0 then ''ok''
      else if err = 1 then ''config error''
      else if err = 2 then ''store unavailable''
      else if err = 3 then ''backup failed''
      else if err = 4 then ''sqlite error''
      else if err = 5 then ''ipc error''
      else if err = 6 then ''out of space''
      else if err = 7 then ''restore failed''
      else if err = 8 then ''not found''
      else ''unknown error'')"

lemma error_code_inj: "error_code a = error_code b \<Longrightarrow> a = b"
  by (cases a; cases b) auto

lemma error_code_range: "0 \<le> error_code e \<and> error_code e \<le> 8"
  by (cases e) auto

end
