(* ===== verification/Rguard_Hash.thy ===== *)
theory Rguard_Hash
  imports Rguard_Errors
begin

text \<open>
  \<open>src/common/rguard_hash.h\<close>: the FNV-1a hash, the two binary searches over an array of
  strings sorted by hash, and the insertion sort \<open>SORT_BY_HASH\<close> that establishes the
  order. An array of strings is a list; the parallel array of hashes is a list of 64-bit
  words of the same length.
\<close>

subsection \<open>FNV-1a\<close>

fun fnv_loop :: "string \<Rightarrow> u64 \<Rightarrow> u64" where
  "fnv_loop [] h = h"
| "fnv_loop (c # cs) h = fnv_loop cs ((h XOR of_char c) * 1099511628211)"

definition rguard_fnv1a64 :: "string \<Rightarrow> u64" where
  "rguard_fnv1a64 buf = fnv_loop buf 14695981039346656037"

lemma fnv_loop_append: "fnv_loop (a @ b) h = fnv_loop b (fnv_loop a h)"
  by (induction a arbitrary: h) auto

subsection \<open>Binary search\<close>

text \<open>
  The neighbour walks of a hash hit: \<open>for (l = mid - 1; l >= 0 && hashes[l] == h; l--)\<close>
  and its mirror image. \<open>m\<close> is the confirmation of the two searches, a comparison of the
  key with a row.
\<close>

function walk_left :: "(string \<Rightarrow> bool) \<Rightarrow> u64 \<Rightarrow> u64 list \<Rightarrow> string list \<Rightarrow> int \<Rightarrow> bool" where
  "walk_left m h hashes rows l =
     (if 0 \<le> l \<and> hashes ! nat l = h then
        if m (rows ! nat l) then True else walk_left m h hashes rows (l - 1)
      else False)"
  by pat_completeness auto
termination
  by (relation "measure (\<lambda>(m, h, hashes, rows, l). nat (l + 1))") auto

function walk_right ::
  "(string \<Rightarrow> bool) \<Rightarrow> u64 \<Rightarrow> u64 list \<Rightarrow> string list \<Rightarrow> int \<Rightarrow> int \<Rightarrow> bool" where
  "walk_right m h hashes rows cnt r =
     (if r < cnt \<and> hashes ! nat r = h then
        if m (rows ! nat r) then True else walk_right m h hashes rows cnt (r + 1)
      else False)"
  by pat_completeness auto
termination
  by (relation "measure (\<lambda>(m, h, hashes, rows, cnt, r). nat (cnt - r))") auto

function search_loop ::
  "(string \<Rightarrow> bool) \<Rightarrow> u64 \<Rightarrow> u64 list \<Rightarrow> string list \<Rightarrow> int \<Rightarrow> int \<Rightarrow> int \<Rightarrow> bool" where
  "search_loop m h hashes rows cnt lo hi =
     (if lo \<le> hi then
        let mid = lo + (hi - lo) div 2 in
        if hashes ! nat mid < h then search_loop m h hashes rows cnt (mid + 1) hi
        else if hashes ! nat mid > h then search_loop m h hashes rows cnt lo (mid - 1)
        else if m (rows ! nat mid) then True
        else if walk_left m h hashes rows (mid - 1) then True
        else if walk_right m h hashes rows cnt (mid + 1) then True
        else False
      else False)"
  by pat_completeness auto
termination
  by (relation "measure (\<lambda>(m, h, hashes, rows, cnt, lo, hi). nat (hi - lo + 1))") auto

declare walk_left.simps [simp del] walk_right.simps [simp del] search_loop.simps [simp del]

definition rguard_hash_lookup :: "string \<Rightarrow> u64 list \<Rightarrow> string list \<Rightarrow> int \<Rightarrow> bool" where
  "rguard_hash_lookup key hashes rows cnt =
     (if cnt \<le> 0 \<or> key = [] then False
      else search_loop (\<lambda>s. key = s) (rguard_fnv1a64 key) hashes rows cnt 0 (cnt - 1))"

definition rguard_hash_lookup_len ::
  "string \<Rightarrow> nat \<Rightarrow> u64 list \<Rightarrow> string list \<Rightarrow> int \<Rightarrow> bool" where
  "rguard_hash_lookup_len key keylen hashes rows cnt =
     (if cnt \<le> 0 \<or> keylen = 0 then False
      else search_loop (\<lambda>s. length s = keylen \<and> take keylen key = take keylen s)
             (rguard_fnv1a64 (take keylen key)) hashes rows cnt 0 (cnt - 1))"

subsection \<open>The insertion sort\<close>

text \<open>
  \<open>sort_inner\<close> is the \<open>while\<close> loop of the macro, at \<open>_j = k - 1\<close>: rows with a
  larger hash move up by one, then the saved row drops into the hole. \<open>sort_outer\<close> is the
  \<open>for\<close> loop from \<open>_i\<close> up to \<open>_n\<close>.
\<close>

fun sort_inner :: "u64 \<Rightarrow> 'a \<Rightarrow> nat \<Rightarrow> u64 list \<Rightarrow> 'a list \<Rightarrow> u64 list \<times> 'a list" where
  "sort_inner h tmp 0 hs rows = (hs[0 := h], rows[0 := tmp])"
| "sort_inner h tmp (Suc j) hs rows =
     (if hs ! j > h
      then sort_inner h tmp j (hs[Suc j := hs ! j]) (rows[Suc j := rows ! j])
      else (hs[Suc j := h], rows[Suc j := tmp]))"

function sort_outer :: "nat \<Rightarrow> nat \<Rightarrow> u64 list \<Rightarrow> 'a list \<Rightarrow> u64 list \<times> 'a list" where
  "sort_outer i n hs rows =
     (if i < n then
        let (hs', rows') = sort_inner (hs ! i) (rows ! i) i hs rows in sort_outer (Suc i) n hs' rows'
      else (hs, rows))"
  by pat_completeness auto
termination
  by (relation "measure (\<lambda>(i, n, hs, rows). n - i)") auto

declare sort_outer.simps [simp del]

definition SORT_BY_HASH :: "u64 list \<Rightarrow> 'a list \<Rightarrow> nat \<Rightarrow> u64 list \<times> 'a list" where
  "SORT_BY_HASH hs rows cnt = sort_outer 1 cnt hs rows"

subsection \<open>What the walks and the search find\<close>

lemma walk_left_iff:
  assumes "l < int (length hashes)"
  shows "walk_left m h hashes rows l \<longleftrightarrow>
    (\<exists>i. int i \<le> l \<and> (\<forall>j. i \<le> j \<and> int j \<le> l \<longrightarrow> hashes ! j = h) \<and> m (rows ! i))"
    (is "?W l \<longleftrightarrow> ?E l")
  using assms
proof (induction "nat (l + 1)" arbitrary: l)
  case 0
  then show ?case by (subst walk_left.simps) auto
next
  case (Suc n)
  then have l: "0 \<le> l" "n = nat (l - 1 + 1)" by auto
  have IH: "?W (l - 1) \<longleftrightarrow> ?E (l - 1)"
    by (rule Suc.hyps(1)) (use l Suc.prems in auto)
  have split: "?E l \<longleftrightarrow> hashes ! nat l = h \<and> (m (rows ! nat l) \<or> ?E (l - 1))"
  proof
    assume "?E l"
    then obtain i where i: "int i \<le> l" "\<forall>j. i \<le> j \<and> int j \<le> l \<longrightarrow> hashes ! j = h" "m (rows ! i)"
      by blast
    then have "hashes ! nat l = h" using l(1) by (auto simp: le_nat_iff)
    moreover have "m (rows ! nat l) \<or> ?E (l - 1)"
    proof (cases "int i = l")
      case True
      then show ?thesis using i(3) by auto
    next
      case False
      with i have "int i \<le> l - 1" "\<forall>j. i \<le> j \<and> int j \<le> l - 1 \<longrightarrow> hashes ! j = h" by auto
      with i(3) show ?thesis by blast
    qed
    ultimately show "hashes ! nat l = h \<and> (m (rows ! nat l) \<or> ?E (l - 1))" ..
  next
    assume r: "hashes ! nat l = h \<and> (m (rows ! nat l) \<or> ?E (l - 1))"
    have eq: "j = nat l" if "int j \<le> l" "\<not> int j \<le> l - 1" for j
      using that by linarith
    from r show "?E l"
    proof (elim conjE disjE)
      assume "hashes ! nat l = h" "m (rows ! nat l)"
      then show ?thesis using l(1) eq by (intro exI [of _ "nat l"]) (auto dest: antisym)
    next
      assume hl: "hashes ! nat l = h" and "?E (l - 1)"
      then obtain i where i: "int i \<le> l - 1"
        "\<forall>j. i \<le> j \<and> int j \<le> l - 1 \<longrightarrow> hashes ! j = h" "m (rows ! i)" by blast
      have "hashes ! j = h" if "i \<le> j" "int j \<le> l" for j
        using i(2) that hl eq [of j] by (cases "int j \<le> l - 1") auto
      then show ?thesis using i by (intro exI [of _ i]) auto
    qed
  qed
  show ?case
    by (subst walk_left.simps) (use l split IH in auto)
qed

lemma walk_right_iff:
  assumes "0 \<le> r"
  shows "walk_right m h hashes rows cnt r \<longleftrightarrow>
    (\<exists>i. r \<le> int i \<and> int i < cnt \<and> (\<forall>j. r \<le> int j \<and> j \<le> i \<longrightarrow> hashes ! j = h) \<and> m (rows ! i))"
    (is "?W r \<longleftrightarrow> ?E r")
  using assms
proof (induction "nat (cnt - r)" arbitrary: r)
  case 0
  then show ?case by (subst walk_right.simps) auto
next
  case (Suc n)
  then have r: "r < cnt" "n = nat (cnt - (r + 1))" by auto
  have IH: "?W (r + 1) \<longleftrightarrow> ?E (r + 1)"
    by (rule Suc.hyps(1)) (use r Suc.prems in auto)
  have eq: "j = nat r" if "r \<le> int j" "\<not> r + 1 \<le> int j" for j
    using that by linarith
  have split: "?E r \<longleftrightarrow> hashes ! nat r = h \<and> (m (rows ! nat r) \<or> ?E (r + 1))"
  proof
    assume "?E r"
    then obtain i where i: "r \<le> int i" "int i < cnt"
      "\<forall>j. r \<le> int j \<and> j \<le> i \<longrightarrow> hashes ! j = h" "m (rows ! i)" by blast
    then have "hashes ! nat r = h" using Suc.prems by auto
    moreover have "m (rows ! nat r) \<or> ?E (r + 1)"
    proof (cases "r + 1 \<le> int i")
      case True
      have "\<forall>j. r + 1 \<le> int j \<and> j \<le> i \<longrightarrow> hashes ! j = h"
        using i(3) by auto
      with True i(2,4) show ?thesis by blast
    next
      case False
      with i(1) have "i = nat r" by (rule eq)
      with i(4) show ?thesis by simp
    qed
    ultimately show "hashes ! nat r = h \<and> (m (rows ! nat r) \<or> ?E (r + 1))" ..
  next
    assume a: "hashes ! nat r = h \<and> (m (rows ! nat r) \<or> ?E (r + 1))"
    then show "?E r"
    proof (elim conjE disjE)
      assume "hashes ! nat r = h" "m (rows ! nat r)"
      moreover have "j = nat r" if "r \<le> int j" "j \<le> nat r" for j
        using that by linarith
      ultimately show ?thesis using r(1) Suc.prems by (intro exI [of _ "nat r"]) auto
    next
      assume hr: "hashes ! nat r = h" and "?E (r + 1)"
      then obtain i where i: "r + 1 \<le> int i" "int i < cnt"
        "\<forall>j. r + 1 \<le> int j \<and> j \<le> i \<longrightarrow> hashes ! j = h" "m (rows ! i)" by blast
      have "hashes ! j = h" if "r \<le> int j" "j \<le> i" for j
        using i(3) that hr eq [of j] by (cases "r + 1 \<le> int j") auto
      then show ?thesis using i by (intro exI [of _ i]) auto
    qed
  qed
  show ?case
    by (subst walk_right.simps) (use r split IH in auto)
qed

text \<open>
  The search over a sorted array finds every entry with the wanted hash: the invariant of
  the loop is that all of them lie between \<open>lo\<close> and \<open>hi\<close>.
\<close>

lemma search_loop_iff:
  assumes "sorted hashes" and "cnt = int (length hashes)" and "0 \<le> lo" and "hi < cnt"
    and "\<And>i. i < length hashes \<Longrightarrow> hashes ! i = h \<Longrightarrow> lo \<le> int i \<and> int i \<le> hi"
  shows "search_loop m h hashes rows cnt lo hi \<longleftrightarrow>
    (\<exists>i < length hashes. hashes ! i = h \<and> m (rows ! i))"
  using assms(3-5)
proof (induction "nat (hi - lo + 1)" arbitrary: lo hi rule: less_induct)
  case less
  show ?case
  proof (cases "lo \<le> hi")
    case False
    with less.prems have "\<nexists>i. i < length hashes \<and> hashes ! i = h" by force
    with False show ?thesis by (subst search_loop.simps) auto
  next
    case True
    define mid where "mid = lo + (hi - lo) div 2"
    have mid: "lo \<le> mid" "mid \<le> hi" "0 \<le> mid" "nat mid < length hashes"
      using True less.prems(1,2) assms(2) by (auto simp: mid_def)
    consider (lt) "hashes ! nat mid < h" | (gt) "hashes ! nat mid > h" | (eq) "hashes ! nat mid = h"
      by force
    then show ?thesis
    proof cases
      case lt
      have "mid + 1 \<le> int i" if "i < length hashes" "hashes ! i = h" for i
      proof (rule ccontr)
        assume "\<not> mid + 1 \<le> int i"
        then have "i \<le> nat mid" by simp
        from assms(1) this mid(4) have "hashes ! i \<le> hashes ! nat mid" by (rule sorted_nth_le)
        with lt that show False by simp
      qed
      then have "search_loop m h hashes rows cnt (mid + 1) hi \<longleftrightarrow>
          (\<exists>i < length hashes. hashes ! i = h \<and> m (rows ! i))"
        by (intro less.hyps) (use mid less.prems in auto)
      with lt True show ?thesis by (subst search_loop.simps) (simp add: mid_def Let_def)
    next
      case gt
      have "int i \<le> mid - 1" if "i < length hashes" "hashes ! i = h" for i
      proof (rule ccontr)
        assume "\<not> int i \<le> mid - 1"
        then have "nat mid \<le> i" by simp
        from assms(1) this that(1) have "hashes ! nat mid \<le> hashes ! i" by (rule sorted_nth_le)
        with gt that show False by simp
      qed
      then have "search_loop m h hashes rows cnt lo (mid - 1) \<longleftrightarrow>
          (\<exists>i < length hashes. hashes ! i = h \<and> m (rows ! i))"
        by (intro less.hyps) (use mid less.prems in auto)
      with gt True show ?thesis by (subst search_loop.simps) (auto simp: mid_def Let_def)
    next
      case eq
      have left: "walk_left m h hashes rows (mid - 1) \<longleftrightarrow>
          (\<exists>i. int i < mid \<and> hashes ! i = h \<and> m (rows ! i))"
      proof -
        have run: "\<forall>j. i \<le> j \<and> int j \<le> mid - 1 \<longrightarrow> hashes ! j = h"
          if "int i < mid" "hashes ! i = h" for i
        proof (intro allI impI)
          fix j assume "i \<le> j \<and> int j \<le> mid - 1"
          then have "hashes ! j = hashes ! nat mid"
            using assms(1) mid that eq by (intro sorted_between [of hashes i j]) auto
          with eq show "hashes ! j = h" by simp
        qed
        have "walk_left m h hashes rows (mid - 1) \<longleftrightarrow>
            (\<exists>i. int i \<le> mid - 1 \<and> (\<forall>j. i \<le> j \<and> int j \<le> mid - 1 \<longrightarrow> hashes ! j = h) \<and> m (rows ! i))"
          by (rule walk_left_iff) (use mid in simp)
        also have "\<dots> \<longleftrightarrow> (\<exists>i. int i < mid \<and> hashes ! i = h \<and> m (rows ! i))"
          using run by (intro ex_cong1) (metis le_refl zle_diff1_eq)
        finally show ?thesis .
      qed
      have right: "walk_right m h hashes rows cnt (mid + 1) \<longleftrightarrow>
          (\<exists>i. mid < int i \<and> i < length hashes \<and> hashes ! i = h \<and> m (rows ! i))"
      proof -
        have run: "\<forall>j. mid + 1 \<le> int j \<and> j \<le> i \<longrightarrow> hashes ! j = h"
          if "mid < int i" "i < length hashes" "hashes ! i = h" for i
        proof (intro allI impI)
          fix j assume j: "mid + 1 \<le> int j \<and> j \<le> i"
          then have "hashes ! j = hashes ! i"
            using assms(1) mid that eq by (intro sorted_between [of hashes "nat mid" j]) auto
          with that show "hashes ! j = h" by simp
        qed
        have "walk_right m h hashes rows cnt (mid + 1) \<longleftrightarrow>
            (\<exists>i. mid + 1 \<le> int i \<and> int i < cnt \<and>
                 (\<forall>j. mid + 1 \<le> int j \<and> j \<le> i \<longrightarrow> hashes ! j = h) \<and> m (rows ! i))"
          by (rule walk_right_iff) (use mid in simp)
        also have "\<dots> \<longleftrightarrow> (\<exists>i. mid < int i \<and> i < length hashes \<and> hashes ! i = h \<and> m (rows ! i))"
          using run assms(2) by (intro ex_cong1) (metis le_refl of_nat_less_iff zless_imp_add1_zle add1_zle_eq)
        finally show ?thesis .
      qed
      have "search_loop m h hashes rows cnt lo hi \<longleftrightarrow>
          m (rows ! nat mid) \<or> walk_left m h hashes rows (mid - 1)
            \<or> walk_right m h hashes rows cnt (mid + 1)"
        using True eq by (subst search_loop.simps) (auto simp: mid_def Let_def)
      also have "\<dots> \<longleftrightarrow> (\<exists>i < length hashes. hashes ! i = h \<and> m (rows ! i))"
      proof -
        have "i = nat mid \<or> int i < mid \<or> mid < int i" for i by linarith
        moreover have "i < length hashes" if "int i < mid" for i using that mid by linarith
        ultimately show ?thesis unfolding left right using mid eq by metis
      qed
      finally show ?thesis .
    qed
  qed
qed

subsection \<open>The insertion sort is the stable sort by hash\<close>

text \<open>
  On the array of pairs, the inner loop inserts the saved row behind the last row of the
  sorted prefix whose hash is not larger.
\<close>

fun insert_left :: "u64 \<times> 'a \<Rightarrow> (u64 \<times> 'a) list \<Rightarrow> (u64 \<times> 'a) list" where
  "insert_left x [] = [x]"
| "insert_left x (y # ys) = (if fst y > fst x then y # insert_left x ys else x # y # ys)"

definition insert_right :: "u64 \<times> 'a \<Rightarrow> (u64 \<times> 'a) list \<Rightarrow> (u64 \<times> 'a) list" where
  "insert_right x ys = rev (insert_left x (rev ys))"

lemma insert_right_Nil [simp]: "insert_right x [] = [x]"
  by (simp add: insert_right_def)

lemma insert_right_snoc [simp]:
  "insert_right x (ys @ [y]) = (if fst y > fst x then insert_right x ys @ [y] else ys @ [y, x])"
  by (simp add: insert_right_def)

lemma length_insert_right [simp]: "length (insert_right x ys) = Suc (length ys)"
  by (induction ys rule: rev_induct) auto

lemma mset_insert_right [simp]: "mset (insert_right x ys) = add_mset x (mset ys)"
  by (induction ys rule: rev_induct) auto

lemma sorted_insert_right:
  "sorted (map fst ys) \<Longrightarrow> sorted (map fst (insert_right x ys))"
proof (induction ys rule: rev_induct)
  case (snoc y ys)
  have "set (insert_right x ys) = insert x (set ys)"
    by (metis mset_insert_right set_mset_add_mset_insert set_mset_mset)
  with snoc show ?case by (auto simp: sorted_append)
qed simp

lemma filter_insert_right:
  "sorted (map fst ys) \<Longrightarrow>
     filter (\<lambda>y. k = fst y) (insert_right x ys) = filter (\<lambda>y. k = fst y) (ys @ [x])"
  by (induction ys rule: rev_induct) (auto simp: sorted_append)

lemma sort_inner_insert:
  assumes "k < length hs" and "length rows = length hs"
  shows "sort_inner h t k hs rows =
    (let z = insert_right (h, t) (take k (zip hs rows)) @ drop (Suc k) (zip hs rows)
     in (map fst z, map snd z))"
  using assms
proof (induction k arbitrary: hs rows)
  case 0
  then show ?case
    by (cases hs; cases rows) (auto simp: Let_def)
next
  case (Suc j)
  then have j: "j < length hs" by simp
  have tk: "take (Suc j) (zip hs rows) = take j (zip hs rows) @ [(hs ! j, rows ! j)]"
    using Suc.prems by (simp add: take_Suc_conv_app_nth)
  show ?case
  proof (cases "hs ! j > h")
    case True
    have dr: "drop (Suc j) (zip (hs[Suc j := hs ! j]) (rows[Suc j := rows ! j])) =
        (hs ! j, rows ! j) # drop (Suc (Suc j)) (zip hs rows)"
      using Suc.prems by (simp add: drop_zip list_update_split)
    have tk': "take j (zip (hs[Suc j := hs ! j]) (rows[Suc j := rows ! j])) = take j (zip hs rows)"
      by (simp add: take_zip)
    show ?thesis
      using True Suc.IH [of "hs[Suc j := hs ! j]" "rows[Suc j := rows ! j]"] Suc.prems
      by (simp add: dr tk tk' Let_def)
  next
    case False
    have "zip hs rows = take (Suc j) (zip hs rows) @ drop (Suc j) (zip hs rows)" by simp
    then have "map fst (take (Suc j) (zip hs rows)) = take (Suc j) hs"
      "map snd (take (Suc j) (zip hs rows)) = take (Suc j) rows"
      "map fst (drop (Suc (Suc j)) (zip hs rows)) = drop (Suc (Suc j)) hs"
      "map snd (drop (Suc (Suc j)) (zip hs rows)) = drop (Suc (Suc j)) rows"
      using Suc.prems by (simp_all add: take_map [symmetric] drop_map [symmetric])
    with False Suc.prems tk show ?thesis
      by (simp add: Let_def list_update_split)
  qed
qed

lemma sort_outer_stable:
  assumes "length hs = n" and "length rows = n" and "sorted (map fst (take i (zip hs rows)))"
    and "sort_outer i n hs rows = (hs', rows')"
  shows "length hs' = n \<and> length rows' = n \<and> sorted hs' \<and>
    mset (zip hs' rows') = mset (zip hs rows) \<and>
    (\<forall>k. filter (\<lambda>y. k = fst y) (zip hs' rows') = filter (\<lambda>y. k = fst y) (zip hs rows))"
  using assms
proof (induction i n hs rows rule: sort_outer.induct)
  case (1 i n hs rows)
  show ?case
  proof (cases "i < n")
    case False
    with "1.prems" have "hs' = hs" "rows' = rows" by (simp_all add: sort_outer.simps [of i])
    with False "1.prems" show ?thesis by simp
  next
    case True
    define zs where "zs = zip hs rows"
    define z where "z = insert_right (hs ! i, rows ! i) (take i zs) @ drop (Suc i) zs"
    have zi: "zs = take i zs @ (hs ! i, rows ! i) # drop (Suc i) zs"
      using True "1.prems" by (simp add: zs_def id_take_nth_drop [symmetric] flip: nth_zip)
    have inner: "sort_inner (hs ! i) (rows ! i) i hs rows = (map fst z, map snd z)"
      using True "1.prems" by (simp add: sort_inner_insert z_def zs_def)
    have len: "length z = n"
      using True "1.prems" by (simp add: z_def zs_def)
    have tk: "take (Suc i) z = insert_right (hs ! i, rows ! i) (take i zs)"
      using True "1.prems" by (simp add: z_def zs_def)
    have srt: "sorted (map fst (take (Suc i) (zip (map fst z) (map snd z))))"
      using "1.prems"(3) by (simp add: zip_map_fst_snd tk sorted_insert_right zs_def)
    have ms: "mset z = mset zs"
      using arg_cong [OF zi, of mset] by (simp add: z_def)
    have fl: "filter (\<lambda>y. k = fst y) z = filter (\<lambda>y. k = fst y) zs" for k
      using "1.prems"(3) arg_cong [OF zi, of "filter (\<lambda>y. k = fst y)"]
      by (simp add: z_def filter_insert_right zs_def)
    have rec: "sort_outer (Suc i) n (map fst z) (map snd z) = (hs', rows')"
      using True inner "1.prems"(4) by (simp add: sort_outer.simps [of i])
    show ?thesis
      using "1.IH" [OF True inner [symmetric] refl _ _ srt rec] len ms fl
      by (simp add: zip_map_fst_snd zs_def)
  qed
qed

lemma SORT_BY_HASH_sort_key:
  assumes "length rows = length hs"
  shows "SORT_BY_HASH hs rows (length hs) =
    (map fst (sort_key fst (zip hs rows)), map snd (sort_key fst (zip hs rows)))"
proof -
  obtain hs' rows' where r: "SORT_BY_HASH hs rows (length hs) = (hs', rows')"
    by (metis surj_pair)
  have "sorted (map fst (take 1 (zip hs rows)))"
    by (cases "zip hs rows") auto
  from sort_outer_stable [OF refl assms this r [unfolded SORT_BY_HASH_def]]
  have s: "length hs' = length hs" "length rows' = length hs" "sorted hs'"
    "mset (zip hs' rows') = mset (zip hs rows)"
    "\<And>k. filter (\<lambda>y. k = fst y) (zip hs' rows') = filter (\<lambda>y. k = fst y) (zip hs rows)"
    by auto
  have "sort_key fst (zip hs rows) = zip hs' rows'"
    using s by (intro properties_for_sort_key) auto
  then show ?thesis using r s by simp
qed

subsection \<open>Exact-match lists\<close>

text \<open>
  What \<open>config_load\<close> builds from a list of strings, and the two look-ups on it. The
  clients (white-, black- and exception lists) only need the law of the interface
  \<open>exact_list\<close>: a look-up in a built list is membership.
\<close>

definition hash_mirror :: "u64 list \<Rightarrow> string list \<Rightarrow> bool" where
  "hash_mirror hs rows \<longleftrightarrow> sorted hs \<and> hs = map rguard_fnv1a64 rows"

lemma hash_mirror_length: "hash_mirror hs rows \<Longrightarrow> length hs = length rows"
  by (simp add: hash_mirror_def)

lemma sort_key_zip_mirror:
  assumes "\<And>x. x \<in> set zs \<Longrightarrow> fst x = f (snd x)"
  shows "map fst (sort_key fst zs) = map f (map snd (sort_key fst zs))"
  using assms by simp

lemma SORT_BY_HASH_map:
  assumes "SORT_BY_HASH (map f xs) xs (length xs) = (hs, rows)"
  shows "sorted hs" and "hs = map f rows" and "mset rows = mset xs"
proof -
  let ?zs = "zip (map f xs) xs"
  have eq: "hs = map fst (sort_key fst ?zs)" "rows = map snd (sort_key fst ?zs)"
    using assms SORT_BY_HASH_sort_key [of xs "map f xs"] by auto
  then show "sorted hs" by simp
  have "\<And>x. x \<in> set ?zs \<Longrightarrow> fst x = f (snd x)"
    by (auto simp: set_zip)
  then show "hs = map f rows"
    using sort_key_zip_mirror [of ?zs f] by (simp add: eq)
  have "mset rows = image_mset snd (mset ?zs)"
    by (simp add: eq)
  also have "\<dots> = mset xs"
    by (simp flip: mset_map)
  finally show "mset rows = mset xs" .
qed

lemma SORT_BY_HASH_mirror:
  assumes "SORT_BY_HASH (map rguard_fnv1a64 xs) xs (length xs) = (hs, rows)"
  shows "hash_mirror hs rows" and "mset rows = mset xs"
  using SORT_BY_HASH_map [OF assms] by (auto simp: hash_mirror_def)

lemma rguard_hash_lookup_iff:
  assumes "hash_mirror hs rows"
  shows "rguard_hash_lookup key hs rows (int (length rows)) \<longleftrightarrow> key \<noteq> [] \<and> key \<in> set rows"
proof (cases "rows = [] \<or> key = []")
  case True
  then show ?thesis by (auto simp: rguard_hash_lookup_def)
next
  case False
  have len: "length hs = length rows" using assms by (rule hash_mirror_length)
  have "search_loop (\<lambda>s. key = s) (rguard_fnv1a64 key) hs rows (int (length rows)) 0
      (int (length rows) - 1) \<longleftrightarrow> (\<exists>i < length hs. hs ! i = rguard_fnv1a64 key \<and> key = rows ! i)"
    by (rule search_loop_iff) (use assms len in \<open>auto simp: hash_mirror_def\<close>)
  also have "\<dots> \<longleftrightarrow> key \<in> set rows"
    using assms len by (auto simp: hash_mirror_def in_set_conv_nth)
  finally show ?thesis using False by (simp add: rguard_hash_lookup_def)
qed

lemma rguard_hash_lookup_len_iff:
  assumes "hash_mirror hs rows" and "n \<le> length key"
  shows "rguard_hash_lookup_len key n hs rows (int (length rows)) \<longleftrightarrow>
    n \<noteq> 0 \<and> take n key \<in> set rows"
proof (cases "rows = [] \<or> n = 0")
  case True
  then show ?thesis by (auto simp: rguard_hash_lookup_len_def)
next
  case False
  have len: "length hs = length rows" using assms(1) by (rule hash_mirror_length)
  let ?m = "\<lambda>s. length s = n \<and> take n key = take n s"
  have "search_loop ?m (rguard_fnv1a64 (take n key)) hs rows (int (length rows)) 0
      (int (length rows) - 1) \<longleftrightarrow>
      (\<exists>i < length hs. hs ! i = rguard_fnv1a64 (take n key) \<and> ?m (rows ! i))"
    by (rule search_loop_iff) (use assms len in \<open>auto simp: hash_mirror_def\<close>)
  also have "\<dots> \<longleftrightarrow> take n key \<in> set rows"
  proof
    assume "\<exists>i < length hs. hs ! i = rguard_fnv1a64 (take n key) \<and> ?m (rows ! i)"
    then obtain i where "i < length hs" "length (rows ! i) = n" "take n key = take n (rows ! i)"
      by blast
    then have "i < length rows" "take n key = rows ! i" using len by auto
    then show "take n key \<in> set rows" by (metis nth_mem)
  next
    assume "take n key \<in> set rows"
    then obtain i where "i < length rows" "rows ! i = take n key" by (auto simp: in_set_conv_nth)
    with assms len show "\<exists>i < length hs. hs ! i = rguard_fnv1a64 (take n key) \<and> ?m (rows ! i)"
      by (intro exI [of _ i]) (auto simp: hash_mirror_def)
  qed
  finally show ?thesis using False by (simp add: rguard_hash_lookup_len_def)
qed

type_synonym hash_list = "u64 list \<times> string list"

definition hash_list_build :: "string list \<Rightarrow> hash_list" where
  "hash_list_build xs = SORT_BY_HASH (map rguard_fnv1a64 xs) xs (length xs)"

definition hash_list_mem :: "hash_list \<Rightarrow> string \<Rightarrow> bool" where
  "hash_list_mem t key = rguard_hash_lookup key (fst t) (snd t) (int (length (snd t)))"

definition hash_list_mem_len :: "hash_list \<Rightarrow> string \<Rightarrow> nat \<Rightarrow> bool" where
  "hash_list_mem_len t key n = rguard_hash_lookup_len key n (fst t) (snd t) (int (length (snd t)))"

locale exact_list =
  fixes build :: "string list \<Rightarrow> 't"
    and mem :: "'t \<Rightarrow> string \<Rightarrow> bool"
  assumes mem_build: "mem (build xs) key \<longleftrightarrow> key \<noteq> [] \<and> key \<in> set xs"
begin

lemma mem_empty [simp]: "\<not> mem (build []) key"
  by (simp add: mem_build)

lemma mem_Nil [simp]: "\<not> mem (build xs) []"
  by (simp add: mem_build)

lemma mem_cong: "set xs = set ys \<Longrightarrow> mem (build xs) = mem (build ys)"
  by (rule ext) (simp add: mem_build)

end

locale prefix_list = exact_list build mem
  for build :: "string list \<Rightarrow> 't" and mem :: "'t \<Rightarrow> string \<Rightarrow> bool" +
  fixes mem_len :: "'t \<Rightarrow> string \<Rightarrow> nat \<Rightarrow> bool"
  assumes mem_len_build:
    "n \<le> length key \<Longrightarrow> mem_len (build xs) key n \<longleftrightarrow> mem (build xs) (take n key)"
begin

lemma mem_len_iff:
  "n \<le> length key \<Longrightarrow> mem_len (build xs) key n \<longleftrightarrow> take n key \<noteq> [] \<and> take n key \<in> set xs"
  by (simp add: mem_len_build mem_build)

lemma mem_len_full: "mem_len (build xs) key (length key) \<longleftrightarrow> mem (build xs) key"
  by (simp add: mem_len_build)

end

lemma hash_list_build_mirror:
  "hash_mirror (fst (hash_list_build xs)) (snd (hash_list_build xs))"
  "mset (snd (hash_list_build xs)) = mset xs"
  using SORT_BY_HASH_mirror [of xs "fst (hash_list_build xs)" "snd (hash_list_build xs)"]
  by (auto simp: hash_list_build_def)

interpretation hl: prefix_list hash_list_build hash_list_mem hash_list_mem_len
proof unfold_locales
  fix xs key
  have "set (snd (hash_list_build xs)) = set xs"
    by (metis hash_list_build_mirror(2) set_mset_mset)
  then show "hash_list_mem (hash_list_build xs) key \<longleftrightarrow> key \<noteq> [] \<and> key \<in> set xs"
    by (simp add: hash_list_mem_def rguard_hash_lookup_iff hash_list_build_mirror(1))
  fix n
  assume "n \<le> length key"
  then show "hash_list_mem_len (hash_list_build xs) key n \<longleftrightarrow>
      hash_list_mem (hash_list_build xs) (take n key)"
    by (auto simp: hash_list_mem_len_def hash_list_mem_def rguard_hash_lookup_iff
        rguard_hash_lookup_len_iff hash_list_build_mirror(1))
qed

subsection \<open>Properties\<close>

text \<open>
  The in-place insertion sort of the policy lists is a stable sort: the pair of arrays
  it leaves is the pair of columns of the rows sorted by hash, rows with equal hashes in
  their old order.
\<close>

theorem SORT_BY_HASH_stable_sort:
  assumes "length rows = length hs"
  shows "SORT_BY_HASH hs rows (length hs) =
    (map fst (sort_key fst (zip hs rows)), map snd (sort_key fst (zip hs rows)))"
  using assms by (rule SORT_BY_HASH_sort_key)

theorem SORT_BY_HASH_stable_sort_witness:
  "SORT_BY_HASH [7, 3, 7, 2] [''a'', ''b'', ''c'', ''d''] (length [7, 3, 7, 2 :: u64]) =
     ([2, 3, 7, 7], [''d'', ''b'', ''a'', ''c''])"
  by (subst SORT_BY_HASH_stable_sort) simp_all

text \<open>
  C22: A policy list answers membership: after the hash sort, the binary search with its
  neighbour walks finds exactly the non-empty strings that were loaded, also when entries
  repeat or hashes collide; and looking up the first \<open>n\<close> bytes of a path finds exactly the
  entries equal to that prefix.
\<close>

theorem hash_lookup_is_membership:
  assumes "n \<le> length path"
  shows "(hash_list_mem (hash_list_build xs) key \<longleftrightarrow> key \<noteq> [] \<and> key \<in> set xs) \<and>
    (hash_list_mem_len (hash_list_build xs) path n \<longleftrightarrow> take n path \<noteq> [] \<and> take n path \<in> set xs)"
  using hl.mem_build hl.mem_len_iff [OF assms] by blast

theorem hash_lookup_is_membership_witness:
  "hash_list_mem (hash_list_build [''/data'', ''/tmp'', ''/data'']) ''/tmp'' \<and>
   hash_list_mem_len (hash_list_build [''/data'', ''/tmp'', ''/data'']) ''/data/x.txt'' 5 \<and>
   \<not> hash_list_mem_len (hash_list_build [''/data'', ''/tmp'', ''/data'']) ''/data/x.txt'' 6"
proof -
  let ?xs = "[''/data'', ''/tmp'', ''/data'']"
  note five = hash_lookup_is_membership [of 5 "''/data/x.txt''" ?xs "''/tmp''"]
  note six = hash_lookup_is_membership [of 6 "''/data/x.txt''" ?xs "''/tmp''"]
  show ?thesis using five six by simp
qed

end
