(* ===== verification/Fangate.thy ===== *)
theory Fangate
  imports Rguard_Hash
begin

text \<open>
  \<open>src/daemon/gfrguardd_fangate.h\<close> and \<open>.c\<close>: the direct-mapped table of 1024 slots that lets
  one event per session, file and scoring window through. The mutex makes each call one step.
\<close>

definition FANGATE_BUCKETS :: nat where "FANGATE_BUCKETS = 1024"

record fangate_entry =
  g_key :: u64
  g_last :: int

definition fangate_init :: "fangate_entry list" where
  "fangate_init = replicate FANGATE_BUCKETS \<lparr>g_key = 0, g_last = 0\<rparr>"

definition fangate_reset :: "fangate_entry list \<Rightarrow> fangate_entry list" where
  "fangate_reset g = fangate_init"

definition gate_key :: "string \<Rightarrow> u64 \<Rightarrow> u64" where
  "gate_key session_key inode =
     (let key = rguard_fnv1a64 session_key XOR (inode * 0x9E3779B97F4A7C15)
      in if key = 0 then 1 else key)"

definition gate_slot :: "u64 \<Rightarrow> nat" where
  "gate_slot key = unat (key AND (of_nat FANGATE_BUCKETS - 1))"

definition fangate_allow ::
  "fangate_entry list \<Rightarrow> string option \<Rightarrow> u64 \<Rightarrow> int \<Rightarrow> int \<Rightarrow> bool \<times> fangate_entry list" where
  "fangate_allow g session_key inode now window_secs =
     (case session_key of
        None \<Rightarrow> (True, g)
      | Some sk \<Rightarrow>
          if window_secs \<le> 0 then (True, g)
          else
            let key = gate_key sk inode; e = g ! gate_slot key in
            if g_key e = key \<and> now - g_last e < window_secs then (False, g)
            else (True, g[gate_slot key := \<lparr>g_key = key, g_last = now\<rparr>]))"

subsection \<open>Runs of the gate\<close>

text \<open>
  A call has a session, an inode and a time; the history records them as they were passed in,
  with the gate's answer.
\<close>

record gate_event =
  ge_session :: string
  ge_inode :: u64
  ge_now :: int
  ge_allowed :: bool

fun gate_run :: "int \<Rightarrow> fangate_entry list \<Rightarrow> (string \<times> u64 \<times> int) list \<Rightarrow> gate_event list" where
  "gate_run window g [] = []"
| "gate_run window g ((sk, ino, t) # calls) =
     (let (ok, g') = fangate_allow g (Some sk) ino t window
      in \<lparr>ge_session = sk, ge_inode = ino, ge_now = t, ge_allowed = ok\<rparr> # gate_run window g' calls)"

abbreviation ge_key :: "gate_event \<Rightarrow> u64" where
  "ge_key e \<equiv> gate_key (ge_session e) (ge_inode e)"

lemma gate_key_nonzero [simp]: "gate_key sk ino \<noteq> 0"
  by (simp add: gate_key_def Let_def)

lemma gate_slot_less: "gate_slot key < FANGATE_BUCKETS"
proof -
  have "key AND 1023 \<le> 1023" by (rule word_and_le1)
  then have "unat (key AND 1023) \<le> 1023" by (simp add: word_le_nat_alt)
  then show ?thesis by (simp add: gate_slot_def FANGATE_BUCKETS_def)
qed

text \<open>
  The table after a history \<open>h\<close> of answers: each slot holds the last allowed event whose key
  falls into it.
\<close>

definition last_sent :: "gate_event list \<Rightarrow> nat \<Rightarrow> gate_event option" where
  "last_sent h b = List.find (\<lambda>e. ge_allowed e \<and> gate_slot (ge_key e) = b) (rev h)"

definition gate_inv :: "gate_event list \<Rightarrow> fangate_entry list \<Rightarrow> bool" where
  "gate_inv h g \<longleftrightarrow> length g = FANGATE_BUCKETS \<and>
     (\<forall>b < FANGATE_BUCKETS. case last_sent h b of
        None \<Rightarrow> g_key (g ! b) = 0
      | Some e \<Rightarrow> g_key (g ! b) = ge_key e \<and> g_last (g ! b) = ge_now e)"

definition gate_spec :: "int \<Rightarrow> gate_event list \<Rightarrow> u64 \<Rightarrow> int \<Rightarrow> bool" where
  "gate_spec window h key t \<longleftrightarrow>
     \<not> (\<exists>e. last_sent h (gate_slot key) = Some e \<and> ge_key e = key \<and> t - ge_now e < window)"

lemma gate_inv_init: "gate_inv [] fangate_init"
  by (simp add: gate_inv_def fangate_init_def last_sent_def)

lemma gate_step:
  assumes "gate_inv h g" and "0 < window"
  shows "fst (fangate_allow g (Some sk) ino t window) = gate_spec window h (gate_key sk ino) t"
    and "gate_inv (h @ [\<lparr>ge_session = sk, ge_inode = ino, ge_now = t,
           ge_allowed = fst (fangate_allow g (Some sk) ino t window)\<rparr>])
         (snd (fangate_allow g (Some sk) ino t window))"
proof -
  let ?k = "gate_key sk ino"
  let ?b = "gate_slot ?k"
  have b: "case last_sent h ?b of None \<Rightarrow> g_key (g ! ?b) = 0
      | Some e \<Rightarrow> g_key (g ! ?b) = ge_key e \<and> g_last (g ! ?b) = ge_now e"
    using assms(1) gate_slot_less by (simp add: gate_inv_def)
  show ok: "fst (fangate_allow g (Some sk) ino t window) = gate_spec window h ?k t"
    using b assms(2) by (auto simp: fangate_allow_def gate_spec_def Let_def split: option.splits)
  have ls: "last_sent (h @ [e]) b' =
      (if ge_allowed e \<and> gate_slot (ge_key e) = b' then Some e else last_sent h b')" for e b'
    by (simp add: last_sent_def)
  show "gate_inv (h @ [\<lparr>ge_session = sk, ge_inode = ino, ge_now = t, ge_allowed = fst (fangate_allow g (Some sk) ino t window)\<rparr>])
      (snd (fangate_allow g (Some sk) ino t window))"
    using assms gate_slot_less
    by (auto simp: gate_inv_def ls fangate_allow_def Let_def nth_list_update split: option.splits)
qed

lemma gate_run_spec:
  assumes "gate_inv h g" and "0 < window" and "k < length calls"
  shows "ge_allowed (gate_run window g calls ! k) \<longleftrightarrow>
    gate_spec window (h @ take k (gate_run window g calls)) (ge_key (gate_run window g calls ! k))
      (ge_now (gate_run window g calls ! k))"
  using assms
proof (induction calls arbitrary: h g k)
  case (Cons c calls)
  obtain sk ino t where c: "c = (sk, ino, t)" by (cases c)
  note st = gate_step [OF Cons.prems(1,2), of sk ino t]
  show ?case
  proof (cases k)
    case 0
    with st(1) c show ?thesis by (simp add: case_prod_beta)
  next
    case (Suc j)
    with Cons.IH [OF st(2) Cons.prems(2), of j] Cons.prems(3) c show ?thesis
      by (simp add: case_prod_beta)
  qed
qed simp

lemma length_gate_run [simp]: "length (gate_run window g calls) = length calls"
  by (induction calls arbitrary: g) (auto simp: case_prod_beta)

lemma last_sent_Some:
  assumes "last_sent h b = Some e"
  obtains j where "j < length h" "h ! j = e" "ge_allowed e" "gate_slot (ge_key e) = b"
    "\<forall>i < length h. j < i \<longrightarrow> \<not> (ge_allowed (h ! i) \<and> gate_slot (ge_key (h ! i)) = b)"
proof -
  from assms obtain i where i: "i < length h" "ge_allowed e \<and> gate_slot (ge_key e) = b" "rev h ! i = e"
    "\<forall>j < i. \<not> (ge_allowed (rev h ! j) \<and> gate_slot (ge_key (rev h ! j)) = b)"
    by (auto simp: last_sent_def find_Some_iff)
  show thesis
  proof (rule that [of "length h - 1 - i"])
    show "length h - 1 - i < length h" using i(1) by simp
    show "h ! (length h - 1 - i) = e" using i(1,3) by (simp add: rev_nth)
    show "ge_allowed e" "gate_slot (ge_key e) = b" using i(2) by auto
    show "\<forall>k < length h. length h - 1 - i < k \<longrightarrow> \<not> (ge_allowed (h ! k) \<and> gate_slot (ge_key (h ! k)) = b)"
    proof (intro allI impI)
      fix k assume k: "k < length h" "length h - 1 - i < k"
      then have "length h - 1 - k < i" using i(1) by linarith
      with i(4) have "\<not> (ge_allowed (rev h ! (length h - 1 - k)) \<and> gate_slot (ge_key (rev h ! (length h - 1 - k))) = b)"
        by blast
      moreover have "rev h ! (length h - 1 - k) = h ! k" using k(1) by (simp add: rev_nth)
      ultimately show "\<not> (ge_allowed (h ! k) \<and> gate_slot (ge_key (h ! k)) = b)" by simp
    qed
  qed
qed

lemma last_sent_latest:
  assumes "j < length h" and "ge_allowed (h ! j)" and "gate_slot (ge_key (h ! j)) = b"
    and "\<forall>i < length h. j < i \<longrightarrow> \<not> (ge_allowed (h ! i) \<and> gate_slot (ge_key (h ! i)) = b)"
  shows "last_sent h b = Some (h ! j)"
  unfolding last_sent_def find_Some_iff
proof (intro exI [of _ "length h - 1 - j"] conjI allI impI)
  show "length h - 1 - j < length (rev h)" using assms(1) by simp
  show "ge_allowed (rev h ! (length h - 1 - j))" "gate_slot (ge_key (rev h ! (length h - 1 - j))) = b"
    using assms(1-3) by (simp_all add: rev_nth)
  show "h ! j = rev h ! (length h - 1 - j)" using assms(1) by (simp add: rev_nth)
  fix i assume i: "i < length h - 1 - j"
  then have "rev h ! i = h ! (length h - 1 - i)" by (simp add: rev_nth)
  moreover have "j < length h - 1 - i" "length h - 1 - i < length h" using i by linarith+
  ultimately show "\<not> (ge_allowed (rev h ! i) \<and> gate_slot (ge_key (rev h ! i)) = b)"
    using assms(4) by simp
qed

lemma gate_suppresses_by_key:
  assumes "0 < window" and "k < length calls"
  shows "let es = gate_run window fangate_init calls in
    \<not> ge_allowed (es ! k) \<longleftrightarrow>
    (\<exists>j < k. ge_allowed (es ! j) \<and> ge_key (es ! j) = ge_key (es ! k) \<and>
       ge_now (es ! k) - ge_now (es ! j) < window \<and>
       (\<forall>i. j < i \<and> i < k \<and> ge_allowed (es ! i) \<longrightarrow>
          gate_slot (ge_key (es ! i)) \<noteq> gate_slot (ge_key (es ! k))))"
proof -
  let ?es = "gate_run window fangate_init calls"
  let ?h = "take k ?es"
  let ?b = "gate_slot (ge_key (?es ! k))"
  have len: "length ?h = k" using assms(2) by simp
  have nth: "?h ! i = ?es ! i" if "i < k" for i using that by simp
  have spec: "\<not> ge_allowed (?es ! k) \<longleftrightarrow>
      (\<exists>e. last_sent ?h ?b = Some e \<and> ge_key e = ge_key (?es ! k) \<and> ge_now (?es ! k) - ge_now e < window)"
    using gate_run_spec [OF gate_inv_init assms] unfolding gate_spec_def append_Nil by blast
  show ?thesis
    unfolding Let_def spec
  proof
    assume "\<exists>e. last_sent ?h ?b = Some e \<and> ge_key e = ge_key (?es ! k) \<and> ge_now (?es ! k) - ge_now e < window"
    then obtain e where e: "last_sent ?h ?b = Some e" "ge_key e = ge_key (?es ! k)"
      "ge_now (?es ! k) - ge_now e < window" by blast
    from last_sent_Some [OF e(1)] obtain j where "j < length ?h" "?h ! j = e" "ge_allowed e"
      "\<forall>i < length ?h. j < i \<longrightarrow> \<not> (ge_allowed (?h ! i) \<and> gate_slot (ge_key (?h ! i)) = ?b)" by blast
    with e(2,3) len nth show "\<exists>j < k. ge_allowed (?es ! j) \<and> ge_key (?es ! j) = ge_key (?es ! k) \<and>
       ge_now (?es ! k) - ge_now (?es ! j) < window \<and>
       (\<forall>i. j < i \<and> i < k \<and> ge_allowed (?es ! i) \<longrightarrow> gate_slot (ge_key (?es ! i)) \<noteq> ?b)"
      by (intro exI [of _ j]) auto
  next
    assume "\<exists>j < k. ge_allowed (?es ! j) \<and> ge_key (?es ! j) = ge_key (?es ! k) \<and>
       ge_now (?es ! k) - ge_now (?es ! j) < window \<and>
       (\<forall>i. j < i \<and> i < k \<and> ge_allowed (?es ! i) \<longrightarrow> gate_slot (ge_key (?es ! i)) \<noteq> ?b)"
    then obtain j where j: "j < k" "ge_allowed (?es ! j)" "ge_key (?es ! j) = ge_key (?es ! k)"
      "ge_now (?es ! k) - ge_now (?es ! j) < window"
      "\<forall>i. j < i \<and> i < k \<and> ge_allowed (?es ! i) \<longrightarrow> gate_slot (ge_key (?es ! i)) \<noteq> ?b" by blast
    have "last_sent ?h ?b = Some (?es ! j)"
      using last_sent_latest [of j ?h ?b] j len nth by auto
    with j show "\<exists>e. last_sent ?h ?b = Some e \<and> ge_key e = ge_key (?es ! k) \<and>
        ge_now (?es ! k) - ge_now e < window" by blast
  qed
qed

subsection \<open>What the key identifies\<close>

lemma golden_inverse: "(0x9E3779B97F4A7C15 :: u64) * 17428512612931826493 = 1"
  by simp

lemma golden_times_inj: "(i :: u64) * 0x9E3779B97F4A7C15 = j * 0x9E3779B97F4A7C15 \<longleftrightarrow> i = j"
proof
  assume "i * 0x9E3779B97F4A7C15 = j * 0x9E3779B97F4A7C15"
  then have "i * 0x9E3779B97F4A7C15 * 17428512612931826493 = j * 0x9E3779B97F4A7C15 * 17428512612931826493"
    by simp
  then show "i = j" by (simp only: mult.assoc golden_inverse mult_1_right)
qed simp

lemma xor_cancel: "(h :: u64) XOR a = h XOR b \<longleftrightarrow> a = b"
proof
  assume "h XOR a = h XOR b"
  then have "h XOR (h XOR a) = h XOR (h XOR b)" by simp
  then show "a = b" by (simp only: xor.assoc [symmetric] xor_self_eq xor.left_neutral)
qed simp

text \<open>
  Within a session the gate key tells files apart (only the key that would be zero is
  moved to one); but the key of one session's file is always also the key of some inode number
  of any other session.
\<close>

theorem gate_key_identifies:
  "(gate_key sk i = gate_key sk j \<longrightarrow> i = j \<or> gate_key sk i = 1) \<and>
   (\<exists>j'. gate_key sk' j' = gate_key sk i)"
proof
  let ?c = "0x9E3779B97F4A7C15 :: u64"
  show "gate_key sk i = gate_key sk j \<longrightarrow> i = j \<or> gate_key sk i = 1"
  proof (intro impI disjCI)
    assume eq: "gate_key sk i = gate_key sk j" and "gate_key sk i \<noteq> 1"
    then have "rguard_fnv1a64 sk XOR (i * ?c) = rguard_fnv1a64 sk XOR (j * ?c)"
      by (auto simp: gate_key_def Let_def split: if_splits)
    then show "i = j" by (simp only: xor_cancel golden_times_inj)
  qed
  let ?K = "gate_key sk i" and ?h = "rguard_fnv1a64 sk'"
  have "?h XOR (((?h XOR ?K) * 17428512612931826493) * ?c) = ?h XOR (?h XOR ?K)"
    by (simp only: mult.assoc mult.commute [of "17428512612931826493 :: u64"] golden_inverse mult_1_right)
  also have "\<dots> = ?K" by (simp only: xor.assoc [symmetric] xor_self_eq xor.left_neutral)
  finally have "gate_key sk' ((?h XOR ?K) * 17428512612931826493) = ?K"
    by (simp only: gate_key_def [of sk'] Let_def gate_key_nonzero if_False)
  then show "\<exists>j'. gate_key sk' j' = gate_key sk i" by blast
qed

theorem gate_key_identifies_witness:
  "\<exists>j. gate_key ''bob@10.0.0.7'' j = gate_key ''alice@10.0.0.9'' 7"
  using gate_key_identifies [of "''alice@10.0.0.9''" 7 8 "''bob@10.0.0.7''"] by auto

subsection \<open>What is suppressed\<close>

text \<open>
  The combination of a session's hash and an inode number, and the slot it goes to, as the
  documentation of the table has them: the value zero counts as one.
\<close>

definition event_hash :: "gate_event \<Rightarrow> u64" where
  "event_hash e = rguard_fnv1a64 (ge_session e) XOR (ge_inode e * 0x9E3779B97F4A7C15)"

definition event_bucket :: "gate_event \<Rightarrow> nat" where
  "event_bucket e = (if event_hash e = 0 then 1 else unat (event_hash e) mod 1024)"

definition same_event :: "gate_event \<Rightarrow> gate_event \<Rightarrow> bool" where
  "same_event e f \<longleftrightarrow> ge_session e = ge_session f \<and> ge_inode e = ge_inode f"

text \<open>Two events the gate mixes up: all 64 bits of two sessions' hashes clash, or one is the zero.\<close>

definition mixed_up :: "gate_event \<Rightarrow> gate_event \<Rightarrow> bool" where
  "mixed_up e f \<longleftrightarrow> (ge_session e \<noteq> ge_session f \<and> event_hash e = event_hash f) \<or>
     (event_hash e = 0 \<and> event_hash f = 1) \<or> (event_hash e = 1 \<and> event_hash f = 0)"

lemma event_hash_inj:
  assumes "event_hash e = event_hash f" and "ge_session e = ge_session f"
  shows "ge_inode e = ge_inode f"
  using assms golden_times_inj by (auto simp: event_hash_def xor_cancel)

lemma ge_key_hash: "ge_key e = (if event_hash e = 0 then 1 else event_hash e)"
  by (simp add: gate_key_def event_hash_def Let_def)

lemma ge_key_same: "ge_key e = ge_key f \<longleftrightarrow> same_event e f \<or> mixed_up e f"
proof
  assume k: "ge_key e = ge_key f"
  show "same_event e f \<or> mixed_up e f"
  proof (cases "event_hash e = event_hash f \<and> ge_session e = ge_session f")
    case True
    then show ?thesis using event_hash_inj [of e f] by (simp add: same_event_def)
  next
    case False
    with k show ?thesis by (auto simp: ge_key_hash mixed_up_def split: if_splits)
  qed
next
  assume "same_event e f \<or> mixed_up e f"
  then show "ge_key e = ge_key f"
  proof
    assume "same_event e f"
    then show ?thesis by (simp add: same_event_def)
  next
    assume "mixed_up e f"
    then show ?thesis by (auto simp: ge_key_hash mixed_up_def)
  qed
qed

lemma gate_slot_mod: "gate_slot key = unat key mod 1024"
proof -
  have "key AND (of_nat FANGATE_BUCKETS - 1) = key AND mask 10"
    by (simp add: FANGATE_BUCKETS_def mask_eq_exp_minus_1)
  also have "\<dots> = take_bit 10 key" by (simp add: take_bit_eq_mask)
  finally show ?thesis by (simp add: gate_slot_def unsigned_take_bit_eq take_bit_eq_mod unat_mod_distrib)
qed

lemma ge_key_bucket: "gate_slot (ge_key e) = event_bucket e"
  by (simp add: ge_key_hash gate_slot_mod event_bucket_def)

text \<open>
  C38: The gate suppresses an event exactly when the same file of the same session was let
  through less than one window ago and nothing else was let through the same slot since. There is
  one exception, which the theorem spells out: the gate compares 64-bit hashes and not the
  events, so an event of another session whose hash clashes with it in all 64 bits is taken for a
  repeat, as are the hashes zero and one for each other; a first event can then be suppressed.
  Two files of one session are not mixed up otherwise, and a clash of slots only lets more
  events through.
\<close>

theorem gate_suppresses_only_repeats:
  assumes "0 < window" and "k < length calls"
  shows "let es = gate_run window fangate_init calls in
    \<not> ge_allowed (es ! k) \<longleftrightarrow>
    (\<exists>j < k. ge_allowed (es ! j) \<and> (same_event (es ! j) (es ! k) \<or> mixed_up (es ! j) (es ! k)) \<and>
       ge_now (es ! k) - ge_now (es ! j) < window \<and>
       (\<forall>i. j < i \<and> i < k \<and> ge_allowed (es ! i) \<longrightarrow> event_bucket (es ! i) \<noteq> event_bucket (es ! k)))"
  using gate_suppresses_by_key [OF assms] unfolding ge_key_same ge_key_bucket .

theorem gate_suppresses_only_repeats_witness:
  "map ge_allowed (gate_run 10 fangate_init [(''a'', 1, 100), (''a'', 1, 105)]) = [True, False]"
proof -
  let ?calls = "[(''a'', 1, 100), (''a'', 1, 105)]"
  let ?es = "gate_run 10 fangate_init ?calls"
  have first: "ge_allowed (?es ! 0)"
    using gate_suppresses_only_repeats [of 10 0 ?calls] by (simp add: Let_def)
  moreover have "same_event (?es ! 0) (?es ! 1)" "ge_now (?es ! 1) - ge_now (?es ! 0) < 10"
    by (simp_all add: case_prod_beta same_event_def)
  ultimately have "\<not> ge_allowed (?es ! 1)"
    using gate_suppresses_only_repeats [of 10 1 ?calls] unfolding Let_def by fastforce
  with first show ?thesis by (simp add: case_prod_beta)
qed

end
