(* ===== verification/Rguard_Protocol.thy ===== *)
theory Rguard_Protocol
  imports Cstring
begin

text \<open>
  \<open>src/common/rguard_protocol.h\<close>: the session key, the constants of the wire protocol,
  the message of 4608 bytes and its memory layout. \<open>event_msg\<close> holds the fields of
  \<open>struct rguard_event_msg\<close>; a character array is the C string it holds. No code converts
  between the struct and the datagram: the programs send and receive its memory. \<open>msg_decode\<close>
  is how the struct's members read a buffer on the little-endian target, a string from the start
  of its array to the first NUL, beyond the array if there is none in it; \<open>msg_encode\<close> is the memory
  of a struct whose strings fit, the unused bytes of an array zero as the senders' \<open>memset\<close> leaves
  them.
\<close>

subsection \<open>Constants\<close>

definition RGUARD_PATH_MAX :: nat where "RGUARD_PATH_MAX = 4096"

definition RGUARD_MSG_FILE_EVENT :: u8 where "RGUARD_MSG_FILE_EVENT = 1"
definition RGUARD_MSG_VFS_CONNECT :: u8 where "RGUARD_MSG_VFS_CONNECT = 2"
definition RGUARD_MSG_VFS_DISCONNECT :: u8 where "RGUARD_MSG_VFS_DISCONNECT = 3"
definition RGUARD_MSG_VFS_BLOCKED :: u8 where "RGUARD_MSG_VFS_BLOCKED = 4"

definition RGUARD_SOURCE_SMB :: u8 where "RGUARD_SOURCE_SMB = 1"
definition RGUARD_SOURCE_CLOUD_SYNC :: u8 where "RGUARD_SOURCE_CLOUD_SYNC = 2"
definition RGUARD_SOURCE_FTP :: u8 where "RGUARD_SOURCE_FTP = 3"
definition RGUARD_SOURCE_HOST :: u8 where "RGUARD_SOURCE_HOST = 4"

definition RGUARD_OP_OPEN :: u8 where "RGUARD_OP_OPEN = 1"
definition RGUARD_OP_WRITE :: u8 where "RGUARD_OP_WRITE = 2"
definition RGUARD_OP_TRUNCATE :: u8 where "RGUARD_OP_TRUNCATE = 3"
definition RGUARD_OP_RENAME :: u8 where "RGUARD_OP_RENAME = 4"
definition RGUARD_OP_DELETE :: u8 where "RGUARD_OP_DELETE = 5"
definition RGUARD_OP_CLOSE :: u8 where "RGUARD_OP_CLOSE = 6"

definition RGUARD_FLAG_RISKY :: u16 where "RGUARD_FLAG_RISKY = 0x001"
definition RGUARD_FLAG_BACKED_UP :: u16 where "RGUARD_FLAG_BACKED_UP = 0x002"
definition RGUARD_FLAG_BACKUP_FAILED :: u16 where "RGUARD_FLAG_BACKUP_FAILED = 0x004"
definition RGUARD_FLAG_EXT_CHANGE :: u16 where "RGUARD_FLAG_EXT_CHANGE = 0x008"
definition RGUARD_FLAG_NEW_FILE :: u16 where "RGUARD_FLAG_NEW_FILE = 0x010"
definition RGUARD_FLAG_CONTENT_SAME :: u16 where "RGUARD_FLAG_CONTENT_SAME = 0x020"
definition RGUARD_FLAG_RANSOM_EXT :: u16 where "RGUARD_FLAG_RANSOM_EXT = 0x040"
definition RGUARD_FLAG_HIGH_ENTROPY :: u16 where "RGUARD_FLAG_HIGH_ENTROPY = 0x080"
definition RGUARD_FLAG_YARA_MATCH :: u16 where "RGUARD_FLAG_YARA_MATCH = 0x100"

definition RGUARD_MSG_SIZE :: nat where "RGUARD_MSG_SIZE = 4608"
definition RGUARD_PROTO_VERSION :: u8 where "RGUARD_PROTO_VERSION = 1"

lemmas op_defs = RGUARD_OP_OPEN_def RGUARD_OP_WRITE_def RGUARD_OP_TRUNCATE_def
  RGUARD_OP_RENAME_def RGUARD_OP_DELETE_def RGUARD_OP_CLOSE_def

lemmas source_defs = RGUARD_SOURCE_SMB_def RGUARD_SOURCE_CLOUD_SYNC_def RGUARD_SOURCE_FTP_def
  RGUARD_SOURCE_HOST_def

lemmas flag_defs = RGUARD_FLAG_RISKY_def RGUARD_FLAG_BACKED_UP_def RGUARD_FLAG_BACKUP_FAILED_def
  RGUARD_FLAG_EXT_CHANGE_def RGUARD_FLAG_NEW_FILE_def RGUARD_FLAG_CONTENT_SAME_def
  RGUARD_FLAG_RANSOM_EXT_def RGUARD_FLAG_HIGH_ENTROPY_def RGUARD_FLAG_YARA_MATCH_def

text \<open>\<open>flags & FLAG\<close> as a condition.\<close>

definition has_flag :: "u16 \<Rightarrow> u16 \<Rightarrow> bool" where
  "has_flag flags f \<longleftrightarrow> flags AND f \<noteq> 0"

subsection \<open>Session keys\<close>

definition rguard_make_session_key :: "nat \<Rightarrow> string option \<Rightarrow> string option \<Rightarrow> string" where
  "rguard_make_session_key outlen username client_ip =
     snprintf_s outlen
       ((case username of None \<Rightarrow> [] | Some u \<Rightarrow> u) @ ''@'' @
        (case client_ip of None \<Rightarrow> [] | Some c \<Rightarrow> c))"

lemma cstr_make_session_key:
  "cstr u \<Longrightarrow> cstr c \<Longrightarrow> cstr (rguard_make_session_key n (Some u) (Some c))"
  unfolding rguard_make_session_key_def by (rule cstr_snprintf_s) (simp add: cstr_def nul_def)

lemma make_session_key_wire:
  assumes "length u < 64" and "length c < 48"
  shows "rguard_make_session_key 128 (Some u) (Some c) = u @ ''@'' @ c"
  using assms by (simp add: rguard_make_session_key_def)

lemma split_last_eq:
  assumes "u @ x # c = u' @ x # c'" and "x \<notin> set c" and "x \<notin> set c'"
  shows "u = u' \<and> c = c'"
  using assms
proof (induction u arbitrary: u')
  case Nil
  then show ?case by (cases u') auto
next
  case (Cons y u)
  then show ?case by (cases u') auto
qed

text \<open>
  The key of a session identifies it: two messages whose user name and client address
  fit their wire fields get the same session key exactly if they carry the same user name and
  address, as long as no client address holds an at-sign (user names may). The 128 bytes of
  the key buffer never truncate such a key.
\<close>

theorem session_key_injective:
  assumes "length u < 64" and "length u' < 64" and "length c < 48" and "length c' < 48"
    and "CHR ''@'' \<notin> set c" and "CHR ''@'' \<notin> set c'"
  shows "rguard_make_session_key 128 (Some u) (Some c) =
    rguard_make_session_key 128 (Some u') (Some c') \<longleftrightarrow> u = u' \<and> c = c'"
  using split_last_eq [OF _ assms(5,6), of u u'] assms(1-4)
  by (auto simp: make_session_key_wire)

theorem session_key_injective_witness:
  "rguard_make_session_key 128 (Some ''bob@corp'') (Some ''10.0.0.7'') \<noteq>
   rguard_make_session_key 128 (Some ''bob'') (Some ''10.0.0.7'')"
  by (subst session_key_injective) simp_all

subsection \<open>The message\<close>

record event_msg =
  m_msg_type :: u8
  m_op_type :: u8
  m_flags :: u16
  m_timestamp :: u64
  m_inode :: u64
  m_file_size :: u64
  m_mtime :: u64
  m_file_uid :: u32
  m_file_gid :: u32
  m_file_mode :: u32
  m_username :: string
  m_client_ip :: string
  m_share_name :: string
  m_file_path :: string
  m_new_name :: string
  m_source_type :: u8
  m_proto_version :: u8

text \<open>The message after \<open>memset\<close>.\<close>

definition msg_zero :: event_msg where
  "msg_zero =
     \<lparr>m_msg_type = 0, m_op_type = 0, m_flags = 0, m_timestamp = 0, m_inode = 0, m_file_size = 0,
      m_mtime = 0, m_file_uid = 0, m_file_gid = 0, m_file_mode = 0, m_username = [],
      m_client_ip = [], m_share_name = [], m_file_path = [], m_new_name = [], m_source_type = 0,
      m_proto_version = 0\<rparr>"

text \<open>The layout the static assertions of the header fix: each field with its size.\<close>

definition msg_fields :: "(string \<times> nat) list" where
  "msg_fields =
    [(''msg_type'', 1), (''op_type'', 1), (''flags'', 2), (''timestamp'', 8), (''inode'', 8),
     (''file_size'', 8), (''mtime'', 8), (''file_uid'', 4), (''file_gid'', 4), (''file_mode'', 4),
     (''username'', 64), (''client_ip'', 48), (''share_name'', 64), (''file_path'', 4096),
     (''new_name'', 256), (''source_type'', 1), (''proto_version'', 1), (''_reserved'', 30)]"

fun offsetof :: "(string \<times> nat) list \<Rightarrow> string \<Rightarrow> nat option" where
  "offsetof [] f = None"
| "offsetof ((g, n) # fs) f = (if f = g then Some 0 else map_option (\<lambda>k. k + n) (offsetof fs f))"

definition msg_fits :: "event_msg \<Rightarrow> bool" where
  "msg_fits m \<longleftrightarrow>
     cstr (m_username m) \<and> length (m_username m) < 64 \<and>
     cstr (m_client_ip m) \<and> length (m_client_ip m) < 48 \<and>
     cstr (m_share_name m) \<and> length (m_share_name m) < 64 \<and>
     cstr (m_file_path m) \<and> length (m_file_path m) < 4096 \<and>
     cstr (m_new_name m) \<and> length (m_new_name m) < 256"

fun le_bytes :: "nat \<Rightarrow> nat \<Rightarrow> string" where
  "le_bytes 0 v = []"
| "le_bytes (Suc n) v = char_of (v mod 256) # le_bytes n (v div 256)"

fun le_nat :: "string \<Rightarrow> nat" where
  "le_nat [] = 0"
| "le_nat (c # cs) = of_char c + 256 * le_nat cs"

definition wire_str :: "nat \<Rightarrow> string \<Rightarrow> string" where
  "wire_str n s = s @ replicate (n - length s) nul"

definition msg_encode :: "event_msg \<Rightarrow> string" where
  "msg_encode m =
     le_bytes 1 (unat (m_msg_type m)) @ le_bytes 1 (unat (m_op_type m)) @
     le_bytes 2 (unat (m_flags m)) @ le_bytes 8 (unat (m_timestamp m)) @
     le_bytes 8 (unat (m_inode m)) @ le_bytes 8 (unat (m_file_size m)) @
     le_bytes 8 (unat (m_mtime m)) @ le_bytes 4 (unat (m_file_uid m)) @
     le_bytes 4 (unat (m_file_gid m)) @ le_bytes 4 (unat (m_file_mode m)) @
     wire_str 64 (m_username m) @ wire_str 48 (m_client_ip m) @ wire_str 64 (m_share_name m) @
     wire_str 4096 (m_file_path m) @ wire_str 256 (m_new_name m) @
     le_bytes 1 (unat (m_source_type m)) @ le_bytes 1 (unat (m_proto_version m)) @
     replicate 30 nul"

definition bytes_at :: "nat \<Rightarrow> nat \<Rightarrow> string \<Rightarrow> string" where
  "bytes_at off n buf = take n (drop off buf)"

text \<open>The C string that starts at an offset.\<close>

definition wire_field :: "nat \<Rightarrow> string \<Rightarrow> string" where
  "wire_field off buf = cstr_of (drop off buf)"

definition msg_decode :: "string \<Rightarrow> event_msg" where
  "msg_decode buf =
    \<lparr>m_msg_type = word_of_nat (le_nat (bytes_at 0 1 buf)),
     m_op_type = word_of_nat (le_nat (bytes_at 1 1 buf)),
     m_flags = word_of_nat (le_nat (bytes_at 2 2 buf)),
     m_timestamp = word_of_nat (le_nat (bytes_at 4 8 buf)),
     m_inode = word_of_nat (le_nat (bytes_at 12 8 buf)),
     m_file_size = word_of_nat (le_nat (bytes_at 20 8 buf)),
     m_mtime = word_of_nat (le_nat (bytes_at 28 8 buf)),
     m_file_uid = word_of_nat (le_nat (bytes_at 36 4 buf)),
     m_file_gid = word_of_nat (le_nat (bytes_at 40 4 buf)),
     m_file_mode = word_of_nat (le_nat (bytes_at 44 4 buf)),
     m_username = wire_field 48 buf,
     m_client_ip = wire_field 112 buf,
     m_share_name = wire_field 160 buf,
     m_file_path = wire_field 224 buf,
     m_new_name = wire_field 4320 buf,
     m_source_type = word_of_nat (le_nat (bytes_at 4576 1 buf)),
     m_proto_version = word_of_nat (le_nat (bytes_at 4577 1 buf))\<rparr>"

lemma length_le_bytes [simp]: "length (le_bytes n v) = n"
  by (induction n arbitrary: v) auto

lemma le_nat_le_bytes [simp]: "le_nat (le_bytes n v) = v mod 256 ^ n"
proof (induction n arbitrary: v)
  case (Suc n)
  have "v mod 256 ^ Suc n = 256 * (v div 256 mod 256 ^ n) + v mod 256"
    by (simp add: mod_mult2_eq)
  with Suc show ?case by (simp add: of_char_of take_bit_eq_mod)
qed simp

lemma length_wire_str [simp]: "length s < n \<Longrightarrow> length (wire_str n s) = n"
  by (simp add: wire_str_def)

lemma takeWhile_no_nul: "nul \<notin> set s \<Longrightarrow> takeWhile (\<lambda>c. c \<noteq> nul) (s @ nul # b) = s"
  by (induction s) auto

lemma cstr_of_wire_str:
  assumes "cstr s" and "length s < n"
  shows "cstr_of (wire_str n s @ b) = s" and "cstr_of (butlast (wire_str n s)) = s"
proof -
  obtain k where k: "n - length s = Suc k" using assms(2) by (metis Suc_diff_Suc)
  have nn: "nul \<notin> set s" using assms(1) by (simp add: cstr_def)
  have "wire_str n s @ b = s @ nul # (replicate k nul @ b)" by (simp add: wire_str_def k)
  with takeWhile_no_nul [OF nn] show "cstr_of (wire_str n s @ b) = s" by (simp add: cstr_of_def)
  have "wire_str n s = (s @ replicate k nul) @ [nul]" by (simp add: wire_str_def k replicate_append_same)
  then have "butlast (wire_str n s) = s @ replicate k nul" by (simp only: butlast_snoc)
  moreover have "takeWhile (\<lambda>c. c \<noteq> nul) (s @ replicate k nul) = s"
    using takeWhile_no_nul [OF nn] nn by (cases k) (auto simp: takeWhile_eq_all_conv)
  ultimately show "cstr_of (butlast (wire_str n s)) = s" by (simp add: cstr_of_def)
qed

lemma bytes_at_here: "length a = n \<Longrightarrow> bytes_at 0 n (a @ b) = a"
  by (simp add: bytes_at_def)

lemma bytes_at_skip: "length a \<le> off \<Longrightarrow> bytes_at off n (a @ b) = bytes_at (off - length a) n b"
  by (simp add: bytes_at_def)

lemmas slices = bytes_at_here bytes_at_skip

text \<open>
  The layout of the message is the one the header's static assertions demand: the
  fields follow each other without gaps at the asserted offsets, and their sizes add up to
  the 4608 bytes of a datagram.
\<close>

theorem msg_layout:
  "map (offsetof msg_fields \<circ> fst) msg_fields =
     map Some [0, 1, 2, 4, 12, 20, 28, 36, 40, 44, 48, 112, 160, 224, 4320, 4576, 4577, 4578] \<and>
   sum_list (map snd msg_fields) = RGUARD_MSG_SIZE"
  by (simp add: msg_fields_def RGUARD_MSG_SIZE_def)

lemma length_msg_encode: "msg_fits m \<Longrightarrow> length (msg_encode m) = RGUARD_MSG_SIZE"
  by (simp add: msg_encode_def msg_fits_def RGUARD_MSG_SIZE_def)

subsection \<open>The fields of a datagram\<close>

text \<open>The bytes of a field, where the header's static assertions put it.\<close>

definition wire_bytes :: "string \<Rightarrow> string \<Rightarrow> string" where
  "wire_bytes f buf =
     (case (offsetof msg_fields f, map_of msg_fields f) of
        (Some off, Some n) \<Rightarrow> bytes_at off n buf
      | _ \<Rightarrow> [])"

text \<open>
  What a message must be to be what a datagram says: every number is the one its field holds, and
  every string is the C string inside its own field, whose last byte does not count.
\<close>

definition wire_string :: "string \<Rightarrow> string \<Rightarrow> string" where
  "wire_string f buf = cstr_of (butlast (wire_bytes f buf))"

definition fields_of :: "string \<Rightarrow> event_msg \<Rightarrow> bool" where
  "fields_of buf m \<longleftrightarrow>
     unat (m_msg_type m) = le_nat (wire_bytes ''msg_type'' buf) \<and>
     unat (m_op_type m) = le_nat (wire_bytes ''op_type'' buf) \<and>
     unat (m_flags m) = le_nat (wire_bytes ''flags'' buf) \<and>
     unat (m_timestamp m) = le_nat (wire_bytes ''timestamp'' buf) \<and>
     unat (m_inode m) = le_nat (wire_bytes ''inode'' buf) \<and>
     unat (m_file_size m) = le_nat (wire_bytes ''file_size'' buf) \<and>
     unat (m_mtime m) = le_nat (wire_bytes ''mtime'' buf) \<and>
     unat (m_file_uid m) = le_nat (wire_bytes ''file_uid'' buf) \<and>
     unat (m_file_gid m) = le_nat (wire_bytes ''file_gid'' buf) \<and>
     unat (m_file_mode m) = le_nat (wire_bytes ''file_mode'' buf) \<and>
     m_username m = wire_string ''username'' buf \<and>
     m_client_ip m = wire_string ''client_ip'' buf \<and>
     m_share_name m = wire_string ''share_name'' buf \<and>
     m_file_path m = wire_string ''file_path'' buf \<and>
     m_new_name m = wire_string ''new_name'' buf \<and>
     unat (m_source_type m) = le_nat (wire_bytes ''source_type'' buf) \<and>
     unat (m_proto_version m) = le_nat (wire_bytes ''proto_version'' buf)"

lemma wire_bytes_at:
  "wire_bytes ''msg_type'' buf = bytes_at 0 1 buf" "wire_bytes ''op_type'' buf = bytes_at 1 1 buf"
  "wire_bytes ''flags'' buf = bytes_at 2 2 buf" "wire_bytes ''timestamp'' buf = bytes_at 4 8 buf"
  "wire_bytes ''inode'' buf = bytes_at 12 8 buf" "wire_bytes ''file_size'' buf = bytes_at 20 8 buf"
  "wire_bytes ''mtime'' buf = bytes_at 28 8 buf" "wire_bytes ''file_uid'' buf = bytes_at 36 4 buf"
  "wire_bytes ''file_gid'' buf = bytes_at 40 4 buf" "wire_bytes ''file_mode'' buf = bytes_at 44 4 buf"
  "wire_bytes ''username'' buf = bytes_at 48 64 buf" "wire_bytes ''client_ip'' buf = bytes_at 112 48 buf"
  "wire_bytes ''share_name'' buf = bytes_at 160 64 buf" "wire_bytes ''file_path'' buf = bytes_at 224 4096 buf"
  "wire_bytes ''new_name'' buf = bytes_at 4320 256 buf" "wire_bytes ''source_type'' buf = bytes_at 4576 1 buf"
  "wire_bytes ''proto_version'' buf = bytes_at 4577 1 buf"
  by (simp_all add: wire_bytes_def msg_fields_def flip: numeral_2_eq_2)

text \<open>A datagram determines the message.\<close>

lemma fields_of_unique: "fields_of buf m \<Longrightarrow> fields_of buf m' \<Longrightarrow> m = m'"
  by (cases m, cases m') (simp add: fields_of_def word_unat_eq_iff)

lemma digit_bound: "x < 256 \<Longrightarrow> n < y \<Longrightarrow> x + 256 * n < 256 * (y :: nat)"
  by linarith

lemma le_nat_bound: "le_nat cs < 256 ^ length cs"
proof (induction cs)
  case (Cons c cs)
  have "of_char c < (256 :: nat)" by simp
  from digit_bound [OF this Cons] show ?case by simp
qed simp

lemma unat_le_nat:
  assumes "LENGTH('a :: len) = 8 * n"
  shows "unat (word_of_nat (le_nat (bytes_at off n buf)) :: 'a word) = le_nat (bytes_at off n buf)"
proof -
  let ?b = "bytes_at off n buf"
  have "(256 :: nat) ^ length ?b \<le> 256 ^ n" by (rule power_increasing) (simp_all add: bytes_at_def)
  then have "le_nat ?b < 256 ^ n" using le_nat_bound [of ?b] by linarith
  moreover have "(256 :: nat) ^ n = 2 ^ LENGTH('a)" by (simp add: assms power_mult)
  ultimately show ?thesis by (simp add: unat_of_nat)
qed

lemmas unat_fields = unat_le_nat [where 'a = 8 and n = 1, simplified] unat_le_nat [where 'a = 16 and n = 2, simplified]
  unat_le_nat [where 'a = 32 and n = 4, simplified] unat_le_nat [where 'a = 64 and n = 8, simplified]

lemma wire_string_fits:
  assumes "fields_of buf m"
  shows "msg_fits m"
proof -
  have c: "cstr (wire_string f buf)" for f
    by (auto simp: wire_string_def cstr_of_def cstr_def dest: set_takeWhileD)
  have l: "length (wire_string f buf) < n" if "length (wire_bytes f buf) \<le> n" "0 < n" for f n
    using that length_takeWhile_le [of "\<lambda>c. c \<noteq> nul" "butlast (wire_bytes f buf)"]
    by (simp add: wire_string_def cstr_of_def)
  show ?thesis
    using assms c by (simp add: msg_fits_def fields_of_def l wire_bytes_at bytes_at_def)
qed

text \<open>The memory of a message whose strings fit is a datagram that says it.\<close>

lemma encode_fields:
  assumes "msg_fits m"
  shows "fields_of (msg_encode m) m"
proof -
  have fits: "length (m_username m) < 64" "length (m_client_ip m) < 48"
    "length (m_share_name m) < 64" "length (m_file_path m) < 4096" "length (m_new_name m) < 256"
    using assms by (auto simp: msg_fits_def)
  have b: "unat (a :: u8) < 256" "unat (b :: u16) < 65536" "unat (c :: u32) < 4294967296"
    "unat (d :: u64) < 18446744073709551616" for a b c d
    using unsigned_less [of a] unsigned_less [of b] unsigned_less [of c] unsigned_less [of d] by simp_all
  show ?thesis
    using assms unfolding fields_of_def wire_bytes_at wire_string_def msg_encode_def
    by (simp add: slices fits msg_fits_def b cstr_of_wire_str flip: One_nat_def)
qed

definition sample_msg :: event_msg where
  "sample_msg =
    \<lparr>m_msg_type = RGUARD_MSG_FILE_EVENT, m_op_type = RGUARD_OP_RENAME,
     m_flags = RGUARD_FLAG_RISKY OR RGUARD_FLAG_EXT_CHANGE, m_timestamp = 1700000000,
     m_inode = 77, m_file_size = 4096, m_mtime = 1600000000, m_file_uid = 1000,
     m_file_gid = 100, m_file_mode = 0x81A4, m_username = ''alice'', m_client_ip = ''10.0.0.7'',
     m_share_name = ''docs'', m_file_path = ''/mnt/docs/a.txt'', m_new_name = ''/mnt/docs/a.locked'',
     m_source_type = RGUARD_SOURCE_SMB, m_proto_version = RGUARD_PROTO_VERSION\<rparr>"

lemma sample_msg_fits: "msg_fits sample_msg"
  by (simp add: sample_msg_def msg_fits_def cstr_def nul_def)

end
