(* ===== verification/Inet.thy ===== *)
theory Inet
  imports Cstring "HOL-Library.Signed_Division"
begin

text \<open>
  The standard-library conversions the daemon applies to addresses: \<open>atoi\<close>, \<open>inet_aton\<close> and
  \<open>inet_pton\<close>, as the C library defines them, on host-order words. \<open>inet_pton\<close> accepts the
  strict dotted quad and the colon form; \<open>inet_aton\<close> also the short, octal and hexadecimal
  forms and trailing white space.
\<close>

definition digit_val :: "char \<Rightarrow> nat option" where
  "digit_val c = (let d = (of_char c :: nat) in if 48 \<le> d \<and> d \<le> 57 then Some (d - 48) else None)"

definition xdigit_val :: "char \<Rightarrow> nat option" where
  "xdigit_val c =
     (let d = (of_char c :: nat) in
      if 48 \<le> d \<and> d \<le> 57 then Some (d - 48)
      else if 97 \<le> d \<and> d \<le> 102 then Some (d - 87)
      else if 65 \<le> d \<and> d \<le> 70 then Some (d - 55) else None)"

definition is_space :: "char \<Rightarrow> bool" where
  "is_space c \<longleftrightarrow> (let d = (of_char c :: nat) in d = 32 \<or> (9 \<le> d \<and> d \<le> 13))"

text \<open>The longest run of digits below \<open>base\<close>: its value and what follows.\<close>

fun scan_digits :: "nat \<Rightarrow> nat \<Rightarrow> string \<Rightarrow> nat \<times> string" where
  "scan_digits base acc [] = (acc, [])"
| "scan_digits base acc (c # cs) =
     (case xdigit_val c of
        Some d \<Rightarrow> if d < base then scan_digits base (base * acc + d) cs else (acc, c # cs)
      | None \<Rightarrow> (acc, c # cs))"

text \<open>A decimal number is read back; padding with zeros does not change its value.\<close>

lemma scan_digits_append:
  assumes "\<forall>c \<in> set a. \<exists>d. xdigit_val c = Some d \<and> d < 10"
  shows "scan_digits 10 acc (a @ b) = scan_digits 10 (fst (scan_digits 10 acc a)) b"
  using assms by (induction a arbitrary: acc) auto

lemma xdigit_decimal: "n < 10 \<Longrightarrow> xdigit_val (char_of (48 + n)) = Some n"
  by (simp add: xdigit_val_def of_char_of take_bit_eq_mod Let_def)

lemma show_nat_decimal: "\<forall>c \<in> set (show_nat n). \<exists>d. xdigit_val c = Some d \<and> d < 10"
proof (induction n rule: show_nat.induct)
  case (1 n)
  show ?case
    using 1 xdigit_decimal [of n] xdigit_decimal [of "n mod 10"]
    by (subst show_nat.simps) (auto split: if_splits)
qed

lemma scan_show_nat: "fst (scan_digits 10 0 (show_nat n)) = n"
proof (induction n rule: show_nat.induct)
  case (1 n)
  show ?case
  proof (cases "n < 10")
    case True
    then show ?thesis using xdigit_decimal [of n] by (subst show_nat.simps) simp
  next
    case False
    have "n mod 10 < 10" by simp
    with False 1 xdigit_decimal [of "n mod 10"] show ?thesis
      by (subst show_nat.simps) (simp add: scan_digits_append show_nat_decimal)
  qed
qed

lemma scan_zeros: "scan_digits 10 0 (replicate k CHR ''0'' @ s) = scan_digits 10 0 s"
  by (induction k) (simp_all add: xdigit_val_def)

lemma zero_digit: "xdigit_val CHR ''0'' = Some 0"
  by (simp add: xdigit_val_def)

lemma length_show_nat: "n < 10 ^ Suc k \<Longrightarrow> length (show_nat n) \<le> Suc k"
proof (induction k arbitrary: n)
  case (Suc k)
  then have "n div 10 < 10 ^ Suc k" by simp
  with Suc.IH show ?case by (subst show_nat.simps) auto
qed (simp add: show_nat.simps)

text \<open>\<open>strtol(s, NULL, 10)\<close> clamped to \<open>long\<close>, then cut to \<open>int\<close>.\<close>

definition atoi :: "string \<Rightarrow> int" where
  "atoi s =
     (let t = dropWhile is_space s;
          neg = (case t of c # _ \<Rightarrow> c = CHR ''-'' | [] \<Rightarrow> False);
          u = (case t of c # r \<Rightarrow> if c = CHR ''-'' \<or> c = CHR ''+'' then r else t | [] \<Rightarrow> []);
          v = int (fst (scan_digits 10 0 u));
          l = (if neg then max (- v) (- (2 ^ 63)) else min v (2 ^ 63 - 1))
      in signed_take_bit 31 l)"

text \<open>\<open>strtoul(s, \<dots>, 0)\<close> on a string that starts with a digit.\<close>

definition strtoul0 :: "string \<Rightarrow> nat \<times> string" where
  "strtoul0 s =
     (if take 1 s = ''0'' then
        (if (take 1 (drop 1 s) = ''x'' \<or> take 1 (drop 1 s) = ''X'') \<and>
            (\<exists>y \<in> set (take 1 (drop 2 s)). xdigit_val y \<noteq> None)
         then scan_digits 16 0 (drop 2 s) else scan_digits 8 0 s)
      else scan_digits 10 0 s)"

text \<open>
  The parts before the last are bytes, at most three of them; the last fills the rest of
  the address.
\<close>

definition aton_value :: "nat list \<Rightarrow> nat \<Rightarrow> nat option" where
  "aton_value parts v =
     (if v > 2 ^ (8 * (4 - length parts)) - 1 then None
      else Some (v + sum_list (map2 (\<lambda>i p. p * 2 ^ (24 - 8 * i)) [0..<length parts] parts)))"

function aton_parts :: "nat list \<Rightarrow> string \<Rightarrow> nat option" where
  "aton_parts parts s =
     (if s = [] \<or> digit_val (hd s) = None then None
      else
        let (v, rest) = strtoul0 s in
        if v > 0xFFFFFFFF then None
        else if take 1 rest = ''.'' then
          (if length parts > 2 \<or> v > 255 then None else aton_parts (parts @ [v]) (tl rest))
        else if rest \<noteq> [] \<and> \<not> is_space (hd rest) then None
        else aton_value parts v)"
  by pat_completeness auto
termination
  by (relation "measure (\<lambda>(parts, s). 4 - length parts)") auto

definition inet_aton :: "string \<Rightarrow> u32 option" where
  "inet_aton s = map_option word_of_nat (aton_parts [] s)"

declare aton_parts.simps [simp del]

text \<open>\<open>inet_pton(AF_INET, s)\<close>: four decimal bytes, no leading zeros.\<close>

fun pton4_loop :: "nat list \<Rightarrow> nat \<Rightarrow> bool \<Rightarrow> string \<Rightarrow> nat list option" where
  "pton4_loop parts cur saw [] = (if saw \<and> length parts = 3 then Some (parts @ [cur]) else None)"
| "pton4_loop parts cur saw (c # cs) =
     (case digit_val c of
        Some d \<Rightarrow>
          if saw \<and> cur = 0 then None
          else if 10 * cur + d > 255 then None
          else pton4_loop parts (10 * cur + d) True cs
      | None \<Rightarrow>
          if c = CHR ''.'' \<and> saw \<and> length parts < 3
          then pton4_loop (parts @ [cur]) 0 False cs else None)"

definition inet_pton4 :: "string \<Rightarrow> nat list option" where
  "inet_pton4 s = pton4_loop [] 0 False s"

text \<open>
  \<open>inet_pton(AF_INET6, s)\<close>: groups of at most four hexadecimal digits, one double colon,
  an optional dotted quad in the last place. \<open>n\<close> counts the bytes written, \<open>gap\<close> whether
  the double colon was seen, \<open>digits\<close> and \<open>val\<close> the current group, \<open>tok\<close> the text since
  the group began.
\<close>

fun pton6_loop :: "nat \<Rightarrow> bool \<Rightarrow> nat \<Rightarrow> string \<Rightarrow> string \<Rightarrow> bool" where
  "pton6_loop n gap digits tok [] =
     (if digits > 0 then n + 2 \<le> 16 \<and> (if gap then n + 2 < 16 else n + 2 = 16)
      else (if gap then n < 16 else n = 16))"
| "pton6_loop n gap digits tok (c # cs) =
     (case xdigit_val c of
        Some d \<Rightarrow> if digits = 4 then False else pton6_loop n gap (digits + 1) tok cs
      | None \<Rightarrow>
          if c = CHR '':'' then
            (if digits = 0 then (if gap then False else pton6_loop n True 0 cs cs)
             else if cs = [] then False
             else if n + 2 > 16 then False
             else pton6_loop (n + 2) gap 0 cs cs)
          else if c = CHR ''.'' \<and> n + 4 \<le> 16 \<and> inet_pton4 tok \<noteq> None then
            (if gap then n + 4 < 16 else n + 4 = 16)
          else False)"

definition inet_pton6 :: "string \<Rightarrow> bool" where
  "inet_pton6 s =
     (if s = [] then False
      else if hd s = CHR '':'' then
        (if take 1 (tl s) = '':'' then pton6_loop 0 False 0 (tl s) (tl s) else False)
      else pton6_loop 0 False 0 s s)"

text \<open>The test of the daemon for a real address.\<close>

definition is_real_ip :: "string \<Rightarrow> bool" where
  "is_real_ip s \<longleftrightarrow> inet_pton4 s \<noteq> None \<or> inet_pton6 s"

lemma sample_real_ip: "is_real_ip ''10.0.0.9''"
  by (simp add: is_real_ip_def inet_pton4_def digit_val_def)

lemma is_real_ip_Nil [simp]: "\<not> is_real_ip []"
  by (simp add: is_real_ip_def inet_pton4_def inet_pton6_def)

text \<open>Addresses are made of digits, dots and colons: no separator of a file format occurs.\<close>

definition ip_char :: "char \<Rightarrow> bool" where
  "ip_char c \<longleftrightarrow> xdigit_val c \<noteq> None \<or> c = CHR '':'' \<or> c = CHR ''.''"

lemma ip_char_sep [simp]: "ip_char CHR '':''" "ip_char CHR ''.''"
  by (simp_all add: ip_char_def)

lemma digit_ip_char: "digit_val c = Some d \<Longrightarrow> ip_char c"
  by (auto simp: digit_val_def ip_char_def xdigit_val_def Let_def split: if_splits)

lemma pton4_chars: "pton4_loop parts cur saw s \<noteq> None \<Longrightarrow> \<forall>c \<in> set s. ip_char c"
proof (induction parts cur saw s rule: pton4_loop.induct)
  case (2 parts cur saw c cs)
  then show ?case
    by (cases "digit_val c") (auto simp: ip_char_def [of "CHR ''.''"] digit_ip_char split: if_splits)
qed simp

lemma pton6_chars:
  "pton6_loop n gap digits tok s \<Longrightarrow> \<exists>p. tok = p @ s \<Longrightarrow> \<forall>c \<in> set s. ip_char c"
proof (induction n gap digits tok s rule: pton6_loop.induct)
  case (2 n gap digits tok c cs)
  show ?case
  proof (cases "xdigit_val c")
    case (Some d)
    with "2.prems" have "digits \<noteq> 4" "pton6_loop n gap (digits + 1) tok cs"
      by (auto split: if_splits)
    with "2.IH"(3) [OF Some] "2.prems"(2) have "\<forall>x \<in> set cs. ip_char x" by auto
    with Some show ?thesis by (auto simp: ip_char_def [of c])
  next
    case None
    show ?thesis
    proof (cases "c = CHR '':''")
      case True
      with None "2.IH"(1) "2.IH"(2) "2.prems" show ?thesis
        by (auto simp: ip_char_def [of c] split: if_splits)
    next
      case False
      with None "2.prems" have "inet_pton4 tok \<noteq> None" by (auto split: if_splits)
      then have "\<forall>c \<in> set tok. ip_char c"
        using pton4_chars unfolding inet_pton4_def by blast
      with "2.prems"(2) show ?thesis by auto
    qed
  qed
qed simp

lemma real_ip_chars:
  assumes "is_real_ip s"
  shows "\<forall>c \<in> set s. ip_char c"
proof (cases "inet_pton4 s = None")
  case False
  then show ?thesis using pton4_chars unfolding inet_pton4_def by blast
next
  case True
  with assms have six: "inet_pton6 s" by (simp add: is_real_ip_def)
  then obtain c cs where s: "s = c # cs" by (cases s) (auto simp: inet_pton6_def)
  show ?thesis
  proof (cases "c = CHR '':''")
    case True
    with six s have "pton6_loop 0 False 0 cs cs" by (simp add: inet_pton6_def split: if_splits)
    from pton6_chars [OF this] s True show ?thesis by (auto simp: ip_char_def [of "CHR '':''"])
  next
    case False
    with six s have "pton6_loop 0 False 0 s s" by (simp add: inet_pton6_def split: if_splits)
    from pton6_chars [OF this] show ?thesis by auto
  qed
qed

lemma ip_char_plain [simp]:
  "\<not> ip_char newline" "\<not> ip_char nul" "\<not> ip_char CHR ''@''" "\<not> ip_char CHR ''/''"
  "\<not> ip_char CHR 0x0D"
  by (simp_all add: ip_char_def xdigit_val_def newline_def nul_def)

lemma real_ip_plain:
  assumes "is_real_ip s"
  shows "newline \<notin> set s" and "cstr s" and "CHR 0x0D \<notin> set s"
  using real_ip_chars [OF assms] by (auto simp: cstr_def dest: bspec)

end
