(* ===== verification/Rguard_Db.thy ===== *)
theory Rguard_Db
  imports Rguard_Errors Rguard_Protocol Inet
begin

text \<open>
  \<open>src/common/rguard_db.h\<close> and \<open>.c\<close>: the four tables and the statements on them. SQLite
  itself is the executor of the SQL text: a table is the list of its rows in the order of
  their keys, a statement that fails leaves the tables as they are. Whether the \<open>n\<close>-th
  statement of the connection succeeds is \<open>d_fate db n\<close>, an answer of the library. A
  \<open>NULL\<close> text is the empty string, as in the structs that carry the rows. A query that fails
  fails at its preparation.
\<close>

record pf_row =
  pf_id :: int
  pf_event_id :: string
  pf_original_path :: string
  pf_backup_path :: string
  pf_share_name :: string
  pf_username :: string
  pf_client_ip :: string
  pf_inode :: int
  pf_mtime :: int
  pf_file_size :: int
  pf_file_uid :: int
  pf_file_gid :: int
  pf_file_mode :: int
  pf_op_type :: int
  pf_protected_at :: string
  pf_restore_status :: string
  pf_restored_at :: string

record ev_row =
  ev_id :: int
  ev_event_id :: string
  ev_session_key :: string
  ev_username :: string
  ev_client_ip :: string
  ev_pname :: string
  ev_source_type :: int
  ev_started_at :: string
  ev_ended_at :: string
  ev_files_protected :: int
  ev_files_affected :: int
  ev_peak :: int
  ev_action :: string
  ev_status :: string

record cf_row =
  cf_id :: int
  cf_event_id :: string
  cf_path :: string
  cf_share_name :: string
  cf_username :: string
  cf_client_ip :: string
  cf_created_at :: string

record ct_row =
  ct_id :: int
  ct_event_id :: string
  ct_task :: string
  ct_expression :: string
  ct_command :: string
  ct_status :: string
  ct_disabled_at :: string
  ct_restored_at :: string

text \<open>The \<open>d_next\<close> fields are the next keys of the AUTOINCREMENT tables.\<close>

record database =
  d_files :: "pf_row list"
  d_events :: "ev_row list"
  d_created :: "cf_row list"
  d_tasks :: "ct_row list"
  d_next_pf :: int
  d_next_ev :: int
  d_next_cf :: int
  d_next_ct :: int
  d_fate :: "nat \<Rightarrow> bool"
  d_count :: nat

definition stmt_ok :: "database \<Rightarrow> bool" where
  "stmt_ok db = d_fate db (d_count db)"

definition tick :: "database \<Rightarrow> database" where
  "tick db = db\<lparr>d_count := d_count db + 1\<rparr>"

definition run_stmt :: "(database \<Rightarrow> database) \<Rightarrow> database \<Rightarrow> rguard_error \<times> database" where
  "run_stmt f db = (if stmt_ok db then (RGUARD_OK, tick (f db)) else (RGUARD_ERR_DB, tick db))"

subsection \<open>Protected files\<close>

definition or_default :: "string \<Rightarrow> string \<Rightarrow> string" where
  "or_default dflt s = (if s = [] then dflt else s)"

definition db_insert_protected_file :: "database \<Rightarrow> pf_row \<Rightarrow> rguard_error \<times> database" where
  "db_insert_protected_file db0 pf =
     run_stmt (\<lambda>db.
       if \<exists>r \<in> set (d_files db). pf_event_id r = pf_event_id pf \<and> pf_original_path r = pf_original_path pf
       then db
       else db\<lparr>d_files := d_files db @
                 [pf\<lparr>pf_id := d_next_pf db, pf_restore_status := or_default ''pending'' (pf_restore_status pf)\<rparr>],
               d_next_pf := d_next_pf db + 1\<rparr>) db0"

definition db_update_restore_status ::
  "database \<Rightarrow> int \<Rightarrow> string \<Rightarrow> string \<Rightarrow> rguard_error \<times> database" where
  "db_update_restore_status db0 rid status restored_at =
     run_stmt (\<lambda>db. db\<lparr>d_files := map (\<lambda>r. if pf_id r = rid
        then r\<lparr>pf_restore_status := status, pf_restored_at := restored_at\<rparr> else r) (d_files db)\<rparr>) db0"

text \<open>A row read back into the struct: the column \<open>op_type\<close> is not selected.\<close>

definition row_to_pf :: "pf_row \<Rightarrow> pf_row" where
  "row_to_pf r =
     r\<lparr>pf_event_id := snprintf_s 64 (pf_event_id r),
       pf_original_path := snprintf_s RGUARD_PATH_MAX (pf_original_path r),
       pf_backup_path := snprintf_s RGUARD_PATH_MAX (pf_backup_path r),
       pf_share_name := snprintf_s 64 (pf_share_name r),
       pf_username := snprintf_s 64 (pf_username r),
       pf_client_ip := snprintf_s 48 (pf_client_ip r),
       pf_op_type := 0,
       pf_protected_at := snprintf_s 40 (pf_protected_at r),
       pf_restore_status := snprintf_s 16 (pf_restore_status r),
       pf_restored_at := snprintf_s 40 (pf_restored_at r)\<rparr>"

text \<open>The rows a query hands to its callback; the callback loop is the caller's.\<close>

definition db_query_by_event :: "database \<Rightarrow> string \<Rightarrow> (rguard_error \<times> pf_row list) \<times> database" where
  "db_query_by_event db event_id =
     (if stmt_ok db
      then ((RGUARD_OK, map row_to_pf (filter (\<lambda>r. pf_event_id r = event_id) (d_files db))), tick db)
      else ((RGUARD_ERR_DB, []), tick db))"

definition db_query_by_path :: "database \<Rightarrow> string \<Rightarrow> (rguard_error \<times> pf_row list) \<times> database" where
  "db_query_by_path db path =
     (if stmt_ok db
      then ((RGUARD_OK, map row_to_pf (filter (\<lambda>r. pf_original_path r = path) (d_files db))), tick db)
      else ((RGUARD_ERR_DB, []), tick db))"

definition db_count_pending :: "database \<Rightarrow> (rguard_error \<times> int) \<times> database" where
  "db_count_pending db =
     (if stmt_ok db
      then ((RGUARD_OK, int (length (filter (\<lambda>r. pf_restore_status r = ''pending'') (d_files db)))), tick db)
      else ((RGUARD_ERR_DB, 0), tick db))"

text \<open>The byte-wise comparison of SQLite texts.\<close>

fun text_less :: "string \<Rightarrow> string \<Rightarrow> bool" where
  "text_less a [] = False"
| "text_less [] (b # bs) = True"
| "text_less (a # as) (b # bs) =
     ((of_char a :: nat) < of_char b \<or> (a = b \<and> text_less as bs))"

text \<open>\<open>cutoff\<close> is the value of \<open>datetime('now', 'localtime', '-N days')\<close>.\<close>

definition db_cleanup_restored ::
  "database \<Rightarrow> int \<Rightarrow> string \<Rightarrow> (rguard_error \<times> int) \<times> database" where
  "db_cleanup_restored db older_than_days cutoff =
     (if older_than_days < 0 then ((RGUARD_ERR_DB, 0), db)
      else if \<not> stmt_ok db then ((RGUARD_ERR_DB, 0), tick db)
      else
        let gone = (\<lambda>r. pf_restore_status r = ''restored'' \<and> pf_restored_at r \<noteq> [] \<and>
                        text_less (pf_restored_at r) cutoff)
        in ((RGUARD_OK, int (length (filter gone (d_files db)))),
            tick (db\<lparr>d_files := filter (\<lambda>r. \<not> gone r) (d_files db)\<rparr>)))"

subsection \<open>Events\<close>

definition event_row :: "int \<Rightarrow> ev_row \<Rightarrow> ev_row" where
  "event_row key ev =
     ev\<lparr>ev_id := key, ev_action := or_default ''none'' (ev_action ev),
        ev_status := or_default ''active'' (ev_status ev)\<rparr>"

definition db_insert_event :: "database \<Rightarrow> ev_row \<Rightarrow> rguard_error \<times> database" where
  "db_insert_event db0 ev =
     run_stmt (\<lambda>db.
       if \<exists>r \<in> set (d_events db). ev_event_id r = ev_event_id ev then db
       else db\<lparr>d_events := d_events db @ [event_row (d_next_ev db) ev],
               d_next_ev := d_next_ev db + 1\<rparr>) db0"

definition upsert_row :: "ev_row \<Rightarrow> ev_row \<Rightarrow> ev_row" where
  "upsert_row old new =
     old\<lparr>ev_session_key := ev_session_key new, ev_username := ev_username new,
         ev_client_ip := ev_client_ip new, ev_pname := ev_pname new,
         ev_source_type := (if ev_source_type new = 0 then ev_source_type old else ev_source_type new),
         ev_started_at := ev_started_at new,
         ev_ended_at := (if ev_ended_at new = [] then ev_ended_at old else ev_ended_at new),
         ev_files_protected := max (ev_files_protected old) (ev_files_protected new),
         ev_files_affected := max (ev_files_affected old) (ev_files_affected new),
         ev_peak := max (ev_peak old) (ev_peak new),
         ev_action := or_default ''none'' (ev_action new),
         ev_status := or_default ''active'' (ev_status new)\<rparr>"

definition db_upsert_event :: "database \<Rightarrow> ev_row \<Rightarrow> rguard_error \<times> database" where
  "db_upsert_event db0 ev =
     (if ev_event_id ev = [] then (RGUARD_ERR_DB, db0)
      else run_stmt (\<lambda>db.
       if \<exists>r \<in> set (d_events db). ev_event_id r = ev_event_id ev
       then db\<lparr>d_events := map (\<lambda>r. if ev_event_id r = ev_event_id ev then upsert_row r ev else r)
                             (d_events db)\<rparr>
       else db\<lparr>d_events := d_events db @ [event_row (d_next_ev db) ev],
               d_next_ev := d_next_ev db + 1\<rparr>) db0)"

text \<open>\<open>None\<close> and the empty text both bind \<open>NULL\<close>.\<close>

definition coalesce :: "string option \<Rightarrow> string \<Rightarrow> string" where
  "coalesce new old = (case new of None \<Rightarrow> old | Some s \<Rightarrow> if s = [] then old else s)"

definition db_update_event ::
  "database \<Rightarrow> string \<Rightarrow> int \<Rightarrow> int \<Rightarrow> int \<Rightarrow> string option \<Rightarrow> string option \<Rightarrow> string option \<Rightarrow>
   rguard_error \<times> database" where
  "db_update_event db0 event_id files_protected files_affected peak action status ended_at =
     run_stmt (\<lambda>db. db\<lparr>d_events := map (\<lambda>r. if ev_event_id r = event_id then
         r\<lparr>ev_files_protected := max (ev_files_protected r) files_protected,
           ev_files_affected := max (ev_files_affected r) files_affected,
           ev_peak := max (ev_peak r) peak,
           ev_action := coalesce action (ev_action r),
           ev_status := coalesce status (ev_status r),
           ev_ended_at := coalesce ended_at (ev_ended_at r)\<rparr> else r) (d_events db)\<rparr>) db0"

text \<open>\<open>CAST(text AS INTEGER)\<close>, and \<open>LIKE 'prefix-%'\<close> (which ignores the case of letters).\<close>

definition cast_integer :: "string \<Rightarrow> int" where
  "cast_integer s =
     (let t = dropWhile is_space s;
          neg = (t \<noteq> [] \<and> hd t = CHR ''-'');
          u = (if t \<noteq> [] \<and> (hd t = CHR ''-'' \<or> hd t = CHR ''+'') then tl t else t);
          v = int (fst (scan_digits 10 0 u))
      in if neg then max (- v) (- (2 ^ 63)) else min v (2 ^ 63 - 1))"

definition like_prefix :: "string \<Rightarrow> string \<Rightarrow> bool" where
  "like_prefix pfx s \<longleftrightarrow>
     map tolower (take (length pfx + 1) s) = map tolower (pfx @ ''-'')"

definition db_get_max_daily_seq :: "database \<Rightarrow> string \<Rightarrow> (rguard_error \<times> int option) \<times> database" where
  "db_get_max_daily_seq db date_prefix =
     (if CHR ''%'' \<in> set date_prefix \<or> CHR ''_'' \<in> set date_prefix then ((RGUARD_ERR_DB, None), db)
      else if \<not> stmt_ok db then ((RGUARD_ERR_DB, None), tick db)
      else
        let pfx = snprintf_s 32 (''evt-'' @ date_prefix);
            seqs = map (\<lambda>r. cast_integer (drop (length pfx + 1) (ev_event_id r)))
                     (filter (\<lambda>r. like_prefix pfx (ev_event_id r)) (d_events db))
        in ((RGUARD_OK, Some (if seqs = [] then 0 else signed_take_bit 31 (Max (set seqs)))), tick db))"

subsection \<open>Created files and cloud tasks\<close>

definition db_insert_created_file ::
  "database \<Rightarrow> string \<Rightarrow> string \<Rightarrow> string \<Rightarrow> string \<Rightarrow> string \<Rightarrow> string \<Rightarrow> rguard_error \<times> database" where
  "db_insert_created_file db0 event_id path share user ip created_at =
     run_stmt (\<lambda>db. db\<lparr>d_created := d_created db @
         [\<lparr>cf_id = d_next_cf db, cf_event_id = event_id, cf_path = path, cf_share_name = share,
           cf_username = user, cf_client_ip = ip, cf_created_at = created_at\<rparr>],
       d_next_cf := d_next_cf db + 1\<rparr>) db0"

definition db_query_created_by_event ::
  "database \<Rightarrow> string \<Rightarrow> (rguard_error \<times> (int \<times> string) list) \<times> database" where
  "db_query_created_by_event db event_id =
     (if stmt_ok db
      then ((RGUARD_OK, map (\<lambda>r. (cf_id r, cf_path r))
               (filter (\<lambda>r. cf_event_id r = event_id) (d_created db))), tick db)
      else ((RGUARD_ERR_DB, []), tick db))"

definition db_delete_created_file :: "database \<Rightarrow> int \<Rightarrow> rguard_error \<times> database" where
  "db_delete_created_file db0 rid =
     run_stmt (\<lambda>db. db\<lparr>d_created := filter (\<lambda>r. cf_id r \<noteq> rid) (d_created db)\<rparr>) db0"

definition db_save_cloud_task_config ::
  "database \<Rightarrow> string \<Rightarrow> string \<Rightarrow> string \<Rightarrow> string \<Rightarrow> string \<Rightarrow> rguard_error \<times> database" where
  "db_save_cloud_task_config db0 event_id task expression command disabled_at =
     run_stmt (\<lambda>db. db\<lparr>d_tasks := d_tasks db @
         [\<lparr>ct_id = d_next_ct db, ct_event_id = event_id, ct_task = task, ct_expression = expression,
           ct_command = command, ct_status = ''disabled'', ct_disabled_at = disabled_at,
           ct_restored_at = []\<rparr>],
       d_next_ct := d_next_ct db + 1\<rparr>) db0"

text \<open>The latest disabled configuration of the task: the row with the highest key.\<close>

definition db_get_cloud_task_config ::
  "database \<Rightarrow> string \<Rightarrow> nat \<Rightarrow> nat \<Rightarrow> (rguard_error \<times> string \<times> string) \<times> database" where
  "db_get_cloud_task_config db task elen clen =
     (if \<not> stmt_ok db then ((RGUARD_ERR_DB, [], []), tick db)
      else case filter (\<lambda>r. ct_task r = task \<and> ct_status r = ''disabled'') (rev (d_tasks db)) of
        [] \<Rightarrow> ((RGUARD_ERR_NOT_FOUND, [], []), tick db)
      | r # _ \<Rightarrow> ((RGUARD_OK, snprintf_s elen (ct_expression r), snprintf_s clen (ct_command r)), tick db))"

definition db_mark_cloud_task_restored :: "database \<Rightarrow> string \<Rightarrow> string \<Rightarrow> rguard_error \<times> database" where
  "db_mark_cloud_task_restored db0 task restored_at =
     run_stmt (\<lambda>db. db\<lparr>d_tasks := map (\<lambda>r. if ct_task r = task \<and> ct_status r = ''disabled''
        then r\<lparr>ct_status := ''restored'', ct_restored_at := restored_at\<rparr> else r) (d_tasks db)\<rparr>) db0"

subsection \<open>Invariants over any sequence of statements\<close>

definition db_inv :: "database \<Rightarrow> bool" where
  "db_inv db \<longleftrightarrow>
     distinct (map ev_event_id (d_events db)) \<and>
     distinct (map (\<lambda>r. (pf_event_id r, pf_original_path r)) (d_files db)) \<and>
     distinct (map pf_id (d_files db)) \<and> (\<forall>r \<in> set (d_files db). pf_id r < d_next_pf db)"

text \<open>One statement that changes the tables.\<close>

inductive db_step :: "database \<Rightarrow> database \<Rightarrow> bool" where
  insert_file: "db_step db (snd (db_insert_protected_file db pf))"
| restore_status: "db_step db (snd (db_update_restore_status db rid status at))"
| cleanup: "db_step db (snd (db_cleanup_restored db days cutoff))"
| insert_event: "db_step db (snd (db_insert_event db ev))"
| upsert_event: "db_step db (snd (db_upsert_event db ev))"
| update_event: "db_step db (snd (db_update_event db eid fp fa peak action status ended))"
| insert_created: "db_step db (snd (db_insert_created_file db eid path share user ip at))"
| delete_created: "db_step db (snd (db_delete_created_file db rid))"
| save_task: "db_step db (snd (db_save_cloud_task_config db eid task expression command at))"
| mark_task: "db_step db (snd (db_mark_cloud_task_restored db task at))"
| query: "db_step db (tick db)"

lemmas table_stmt_defs = db_insert_protected_file_def db_update_restore_status_def
  db_cleanup_restored_def db_insert_event_def db_upsert_event_def db_update_event_def
  db_insert_created_file_def db_delete_created_file_def db_save_cloud_task_config_def
  db_mark_cloud_task_restored_def run_stmt_def tick_def

lemma map_if_same:
  "(\<And>r. g (f r) = g r) \<Longrightarrow> map (\<lambda>r. g (if P r then f r else r)) xs = map g xs"
  by (induction xs) auto

lemma distinct_map_filter_inv: "distinct (map f xs) \<Longrightarrow> distinct (map f (filter P xs))"
  by (induction xs) auto

lemma upsert_row_key [simp]: "ev_event_id (upsert_row old new) = ev_event_id old"
  "ev_event_id (event_row k ev) = ev_event_id ev" "ev_id (upsert_row old new) = ev_id old"
  by (simp_all add: upsert_row_def event_row_def)

lemma db_step_inv: "db_step db db' \<Longrightarrow> db_inv db \<Longrightarrow> db_inv db'"
proof (induction rule: db_step.induct)
  case (insert_file db pf)
  then show ?case
    by (force simp: table_stmt_defs db_inv_def)
next
  case (cleanup db days cutoff)
  then show ?case
    by (auto simp: table_stmt_defs db_inv_def Let_def distinct_map_filter_inv)
next
  case (update_event db eid fp fa peak action status ended)
  then show ?case
    by (auto simp: table_stmt_defs db_inv_def comp_def if_distrib [of ev_event_id] cong: if_cong)
next
  case (upsert_event db ev)
  then show ?case
    by (auto simp: table_stmt_defs db_inv_def comp_def if_distrib [of ev_event_id] cong: if_cong)
qed (auto simp: table_stmt_defs db_inv_def comp_def if_distrib [of pf_id] if_distrib [of pf_event_id]
      if_distrib [of pf_original_path] cong: if_cong)

text \<open>\<open>ev_le r r'\<close>: the later row knows at least what the earlier one knew.\<close>

definition ev_le :: "ev_row \<Rightarrow> ev_row \<Rightarrow> bool" where
  "ev_le r r' \<longleftrightarrow>
     ev_event_id r' = ev_event_id r \<and> ev_id r' = ev_id r \<and>
     ev_files_protected r \<le> ev_files_protected r' \<and> ev_files_affected r \<le> ev_files_affected r' \<and>
     ev_peak r \<le> ev_peak r' \<and> (ev_source_type r \<noteq> 0 \<longrightarrow> ev_source_type r' \<noteq> 0) \<and>
     (ev_ended_at r \<noteq> [] \<longrightarrow> ev_ended_at r' \<noteq> [])"

lemma ev_le_refl [simp]: "ev_le r r"
  by (simp add: ev_le_def)

lemma ev_le_trans: "ev_le a b \<Longrightarrow> ev_le b c \<Longrightarrow> ev_le a c"
  by (auto simp: ev_le_def)

lemma ev_le_upsert [simp]: "ev_event_id r = ev_event_id ev \<Longrightarrow> ev_le r (upsert_row r ev)"
  by (auto simp: ev_le_def upsert_row_def)

lemma coalesce_nonempty: "old \<noteq> [] \<Longrightarrow> coalesce new old \<noteq> []"
  by (auto simp: coalesce_def split: option.splits)

text \<open>How a statement changes the two tables: rows are rewritten, dropped or appended.\<close>

lemma db_step_events:
  assumes "db_step db db'"
  shows "\<exists>f new. d_events db' = map f (d_events db) @ new \<and> (\<forall>r. ev_le r (f r))"
  using assms
proof (induction rule: db_step.induct)
  case (upsert_event db ev)
  show ?case
  proof (cases "stmt_ok db \<and> ev_event_id ev \<noteq> [] \<and> (\<exists>r \<in> set (d_events db). ev_event_id r = ev_event_id ev)")
    case True
    then show ?thesis
      by (intro exI [of _ "\<lambda>r. if ev_event_id r = ev_event_id ev then upsert_row r ev else r"]
          exI [of _ "[]"]) (simp add: table_stmt_defs)
  next
    case False
    then show ?thesis
      by (intro exI [of _ id]) (auto simp: table_stmt_defs)
  qed
next
  case (update_event db eid fp fa peak action status ended)
  show ?case
  proof (cases "stmt_ok db")
    case True
    then show ?thesis
      by (intro exI [of _ "\<lambda>r. if ev_event_id r = eid then
         r\<lparr>ev_files_protected := max (ev_files_protected r) fp,
           ev_files_affected := max (ev_files_affected r) fa, ev_peak := max (ev_peak r) peak,
           ev_action := coalesce action (ev_action r), ev_status := coalesce status (ev_status r),
           ev_ended_at := coalesce ended (ev_ended_at r)\<rparr> else r"] exI [of _ "[]"])
        (simp add: table_stmt_defs ev_le_def coalesce_nonempty)
  next
    case False
    then show ?thesis by (intro exI [of _ id]) (simp add: table_stmt_defs)
  qed
qed (intro exI [of _ id], simp add: table_stmt_defs Let_def)+

lemma db_step_files:
  assumes "db_step db db'"
  shows "\<exists>P f new. d_files db' = map f (filter P (d_files db)) @ new \<and>
    (\<forall>r. pf_id (f r) = pf_id r \<and> pf_backup_path (f r) = pf_backup_path r) \<and>
    (\<forall>r. P r \<or> pf_restore_status r = ''restored'')"
  using assms
proof (induction rule: db_step.induct)
  case (restore_status db rid status at)
  show ?case
  proof (cases "stmt_ok db")
    case True
    then show ?thesis
      by (intro exI [of _ "\<lambda>_. True"] exI [of _ "[]"] exI [of _ "\<lambda>r. if pf_id r = rid
          then r\<lparr>pf_restore_status := status, pf_restored_at := at\<rparr> else r"])
        (simp add: table_stmt_defs)
  next
    case False
    then show ?thesis
      by (intro exI [of _ "\<lambda>_. True"] exI [of _ id]) (simp add: table_stmt_defs)
  qed
next
  case (cleanup db days cutoff)
  show ?case
  proof (cases "stmt_ok db \<and> 0 \<le> days")
    case True
    then show ?thesis
      by (intro exI [of _ "\<lambda>r. \<not> (pf_restore_status r = ''restored'' \<and> pf_restored_at r \<noteq> [] \<and>
            text_less (pf_restored_at r) cutoff)"] exI [of _ id] exI [of _ "[]"])
        (simp add: table_stmt_defs Let_def)
  next
    case False
    then show ?thesis
      by (intro exI [of _ "\<lambda>_. True"] exI [of _ id]) (auto simp: table_stmt_defs)
  qed
qed (intro exI [of _ "\<lambda>_. True"] exI [of _ id], simp add: table_stmt_defs)+

lemma db_steps_events:
  "db_step\<^sup>*\<^sup>* db db' \<Longrightarrow> \<forall>r \<in> set (d_events db). \<exists>r' \<in> set (d_events db'). ev_le r r'"
proof (induction rule: rtranclp_induct)
  case (step y z)
  from db_step_events [OF step.hyps(2)] obtain f new
    where "d_events z = map f (d_events y) @ new" "\<forall>r. ev_le r (f r)" by blast
  then have "\<forall>r \<in> set (d_events y). \<exists>r' \<in> set (d_events z). ev_le r r'" by auto
  with step.IH show ?case by (meson ev_le_trans)
qed (blast intro: ev_le_refl)

lemma db_steps_inv: "db_step\<^sup>*\<^sup>* db db' \<Longrightarrow> db_inv db \<Longrightarrow> db_inv db'"
  by (induction rule: rtranclp_induct) (auto intro: db_step_inv)

text \<open>
  The event history only grows: over any sequence of statements, successful or not, every
  recorded event keeps its row, its counters and peak score never go down, a known channel is
  never forgotten and an end time never erased; event ids and the pairs of event and file stay
  unique.
\<close>

theorem event_history_monotone:
  assumes "db_step\<^sup>*\<^sup>* db db'" and "db_inv db" and "r \<in> set (d_events db)"
  shows "db_inv db' \<and> (\<exists>!r'. r' \<in> set (d_events db') \<and> ev_event_id r' = ev_event_id r) \<and>
    (\<exists>r' \<in> set (d_events db'). ev_le r r')"
proof -
  have inv: "db_inv db'" using db_steps_inv [OF assms(1,2)] .
  obtain r' where r': "r' \<in> set (d_events db')" "ev_le r r'"
    using db_steps_events [OF assms(1)] assms(3) by blast
  have id: "ev_event_id r' = ev_event_id r" using r'(2) by (simp add: ev_le_def)
  have inj: "inj_on ev_event_id (set (d_events db'))"
    using inv by (simp add: db_inv_def distinct_map)
  have "\<exists>!r'. r' \<in> set (d_events db') \<and> ev_event_id r' = ev_event_id r"
  proof (rule ex1I [of _ r'])
    show "r' \<in> set (d_events db') \<and> ev_event_id r' = ev_event_id r" using r'(1) id by simp
    show "x = r'" if "x \<in> set (d_events db') \<and> ev_event_id x = ev_event_id r" for x
      using inj_onD [OF inj, of x r'] that r'(1) id by simp
  qed
  with inv r' show ?thesis by blast
qed

definition db_empty :: database where
  "db_empty = \<lparr>d_files = [], d_events = [], d_created = [], d_tasks = [], d_next_pf = 1,
     d_next_ev = 1, d_next_cf = 1, d_next_ct = 1, d_fate = (\<lambda>_. True), d_count = 0\<rparr>"

definition sample_event :: ev_row where
  "sample_event = \<lparr>ev_id = 0, ev_event_id = ''evt-20240105-001'', ev_session_key = ''eve@10.0.0.9'',
     ev_username = ''eve'', ev_client_ip = ''10.0.0.9'', ev_pname = [], ev_source_type = 1,
     ev_started_at = ''2024-01-05T03:04:05'', ev_ended_at = [], ev_files_protected = 0,
     ev_files_affected = 7, ev_peak = 90, ev_action = [], ev_status = []\<rparr>"

theorem event_history_monotone_witness:
  "let db = snd (db_insert_event db_empty sample_event);
       db' = snd (db_upsert_event db (sample_event\<lparr>ev_source_type := 0, ev_peak := 3\<rparr>))
   in \<exists>r' \<in> set (d_events db'). ev_source_type r' \<noteq> 0 \<and> 90 \<le> ev_peak r'"
proof -
  let ?db = "snd (db_insert_event db_empty sample_event)"
  let ?db' = "snd (db_upsert_event ?db (sample_event\<lparr>ev_source_type := 0, ev_peak := 3\<rparr>))"
  have "db_inv db_empty" by (simp add: db_inv_def db_empty_def)
  then have "db_inv ?db" by (rule db_step_inv [OF db_step.insert_event])
  moreover have "event_row 1 sample_event \<in> set (d_events ?db)"
    by (simp add: table_stmt_defs db_empty_def stmt_ok_def)
  moreover have "db_step\<^sup>*\<^sup>* ?db ?db'" by (rule r_into_rtranclp) (rule db_step.upsert_event)
  ultimately have "\<exists>r' \<in> set (d_events ?db'). ev_le (event_row 1 sample_event) r'"
    using event_history_monotone by blast
  then show ?thesis
    by (auto simp: Let_def ev_le_def event_row_def sample_event_def)
qed

text \<open>
  The first backup of a file in an event is the one that is restored: recording another
  backup of the same file, encrypted by then, leaves the record as it is, and only the clean-up
  of restored records ever removes one.
\<close>

theorem first_backup_wins:
  assumes "r \<in> set (d_files db)" and "pf_event_id pf = pf_event_id r"
    and "pf_original_path pf = pf_original_path r"
  shows "d_files (snd (db_insert_protected_file db pf)) = d_files db \<and>
    (db_step db db' \<longrightarrow> pf_restore_status r = ''restored'' \<or>
       (\<exists>r' \<in> set (d_files db'). pf_id r' = pf_id r \<and> pf_backup_path r' = pf_backup_path r))"
proof
  show "d_files (snd (db_insert_protected_file db pf)) = d_files db"
    using assms by (auto simp: table_stmt_defs)
  show "db_step db db' \<longrightarrow> pf_restore_status r = ''restored'' \<or>
       (\<exists>r' \<in> set (d_files db'). pf_id r' = pf_id r \<and> pf_backup_path r' = pf_backup_path r)"
  proof
    assume "db_step db db'"
    from db_step_files [OF this] obtain P f new where
      "d_files db' = map f (filter P (d_files db)) @ new"
      "\<forall>r. pf_id (f r) = pf_id r \<and> pf_backup_path (f r) = pf_backup_path r"
      "P r \<or> pf_restore_status r = ''restored''" by blast
    with assms(1) show "pf_restore_status r = ''restored'' \<or>
       (\<exists>r' \<in> set (d_files db'). pf_id r' = pf_id r \<and> pf_backup_path r' = pf_backup_path r)"
      by auto
  qed
qed

definition sample_pf :: pf_row where
  "sample_pf = \<lparr>pf_id = 1, pf_event_id = ''evt-20240105-001'', pf_original_path = ''/mnt/docs/a.txt'',
     pf_backup_path = ''/store/backups/docs/a.txt'', pf_share_name = ''docs'', pf_username = ''eve'',
     pf_client_ip = ''10.0.0.9'', pf_inode = 7, pf_mtime = 0, pf_file_size = 12, pf_file_uid = 0,
     pf_file_gid = 0, pf_file_mode = 420, pf_op_type = 2, pf_protected_at = ''2024-01-05T03:04:05'',
     pf_restore_status = ''pending'', pf_restored_at = []\<rparr>"

theorem first_backup_wins_witness:
  "d_files (snd (db_insert_protected_file (db_empty\<lparr>d_files := [sample_pf], d_next_pf := 2\<rparr>)
     (sample_pf\<lparr>pf_backup_path := ''/elsewhere''\<rparr>))) = [sample_pf]"
  using first_backup_wins [of sample_pf "db_empty\<lparr>d_files := [sample_pf], d_next_pf := 2\<rparr>"
      "sample_pf\<lparr>pf_backup_path := ''/elsewhere''\<rparr>"]
  by simp

subsection \<open>Opening and closing\<close>

text \<open>
  What SQLite answers: whether the file can be opened, whether a handle was made even if not, whether the
  schema is there, whether the statement of the unique index could run. The columns later versions have
  added are there with their defaults; adding one again fails and is ignored.
\<close>

record open_answers =
  oa_open :: bool
  oa_handle :: bool
  oa_schema :: bool
  oa_index :: bool

text \<open>An index over rows is refused when two of them agree on its columns.\<close>

definition files_unique :: "database \<Rightarrow> bool" where
  "files_unique db \<longleftrightarrow> distinct (map (\<lambda>r. (pf_event_id r, pf_original_path r)) (d_files db))"

text \<open>
  The code, the connection and the handles that are open; \<open>stored\<close> are the tables of each file, empty ones
  for a file that is new.
\<close>

definition db_open ::
  "open_answers \<Rightarrow> string option \<Rightarrow> (string \<Rightarrow> database) \<Rightarrow> int \<Rightarrow> rguard_error \<times> database option \<times> int" where
  "db_open a db_path stored handles =
     (case db_path of
        None \<Rightarrow> (RGUARD_ERR_DB, None, handles)
      | Some path \<Rightarrow>
          if \<not> oa_open a then
            (let h = (if oa_handle a then handles + 1 else handles)
             in (RGUARD_ERR_DB, None, if oa_handle a then h - 1 else h))
          else
            let h = handles + 1 in
            if \<not> oa_schema a then (RGUARD_ERR_DB, None, h - 1)
            else if \<not> (oa_index a \<and> files_unique (stored path)) then (RGUARD_ERR_DB, None, h - 1)
            else (RGUARD_OK, Some (stored path), h))"

text \<open>A busy handle is given up and freed when its last statement ends.\<close>

definition db_close :: "bool \<Rightarrow> database option \<Rightarrow> int \<Rightarrow> rguard_error \<times> int" where
  "db_close busy db handles =
     (case db of
        None \<Rightarrow> (RGUARD_OK, handles)
      | Some _ \<Rightarrow> if busy then (RGUARD_ERR_DB, handles - 1) else (RGUARD_OK, handles - 1))"

text \<open>
  What the constraints of the tables guarantee in every version of the schema: keys are unique and were
  counted up, the events have different names. The pairs of event and path are not among them.
\<close>

definition tables_keyed :: "database \<Rightarrow> bool" where
  "tables_keyed db \<longleftrightarrow> distinct (map ev_event_id (d_events db)) \<and> distinct (map pf_id (d_files db)) \<and>
     (\<forall>r \<in> set (d_files db). pf_id r < d_next_pf db)"

lemma db_open_cases:
  assumes "db_open a path stored handles = (rc, db, handles')"
  obtains (opened) p where "path = Some p" "rc = RGUARD_OK" "db = Some (stored p)" "files_unique (stored p)"
      "handles' = handles + 1"
  | (refused) "rc = RGUARD_ERR_DB" "db = None" "handles' = handles"
  using assms by (auto simp: db_open_def Let_def split: option.splits if_splits)

text \<open>A database that opens meets the invariant of the statements.\<close>

lemma opened_inv: "tables_keyed db \<Longrightarrow> files_unique db \<Longrightarrow> db_inv db"
  by (simp add: tables_keyed_def files_unique_def db_inv_def)

end
