(* ===== verification/Rguard_Log.thy ===== *)
theory Rguard_Log
  imports Rguard_Protocol "HOL-Library.Signed_Division"
begin

text \<open>
  \<open>src/common/rguard_log.h\<close> and \<open>rguard_log.c\<close>: the logger's state (the open file, the
  component tag, the level), the escaping of user-controlled text, and the line a call
  writes. The formatted local time and the answers of \<open>stat\<close>, \<open>mkdir\<close> and \<open>fopen\<close> are
  arguments. Components record the calls they make as values of type \<open>log_call\<close>.
\<close>

definition LOG_DEBUG :: int where "LOG_DEBUG = 0"
definition LOG_INFO :: int where "LOG_INFO = 1"
definition LOG_WARN :: int where "LOG_WARN = 2"
definition LOG_ERROR :: int where "LOG_ERROR = 3"

lemmas log_level_defs = LOG_DEBUG_def LOG_INFO_def LOG_WARN_def LOG_ERROR_def

text \<open>A call \<open>rguard_log_write(level, event, session_key, detail)\<close>; \<open>None\<close> is a null pointer.\<close>

record log_call =
  l_level :: int
  l_event :: string
  l_session :: "string option"
  l_detail :: string

definition log_call :: "int \<Rightarrow> string \<Rightarrow> string option \<Rightarrow> string \<Rightarrow> log_call" where
  "log_call lv ev sk det = \<lparr>l_level = lv, l_event = ev, l_session = sk, l_detail = det\<rparr>"

subsection \<open>Escaping inside JSON strings\<close>

definition hx :: "nat \<Rightarrow> char" where
  "hx d = ''0123456789abcdef'' ! d"

definition json_escape_char :: "char \<Rightarrow> string" where
  "json_escape_char c =
     (if c = CHR 0x22 \<or> c = CHR 0x5C then [CHR 0x5C, c]
      else if (of_char c :: nat) < 0x20
      then [CHR 0x5C, CHR ''u'', CHR ''0'', CHR ''0'', hx (of_char c div 16), hx (of_char c mod 16)]
      else [c])"

fun json_escape_loop :: "nat \<Rightarrow> nat \<Rightarrow> string \<Rightarrow> string" where
  "json_escape_loop n o' [] = []"
| "json_escape_loop n o' (c # src) =
     (if o' + 7 < n
      then json_escape_char c @ json_escape_loop n (o' + length (json_escape_char c)) src
      else [])"

definition rguard_json_escape :: "nat \<Rightarrow> string \<Rightarrow> string" where
  "rguard_json_escape n src = json_escape_loop n 0 src"

text \<open>
  A reader of JSON string contents: the characters between the quotes of a string literal,
  with the escapes the writer uses. \<open>None\<close> is a syntax error, such as a bare quote or
  control character.
\<close>

definition hex_val :: "char \<Rightarrow> nat option" where
  "hex_val c =
     (let d = (of_char c :: nat) in
      if 48 \<le> d \<and> d \<le> 57 then Some (d - 48)
      else if 97 \<le> d \<and> d \<le> 102 then Some (d - 87) else None)"

fun json_unescape :: "string \<Rightarrow> string option" where
  "json_unescape [] = Some []"
| "json_unescape (c # cs) =
     (if c = CHR 0x22 \<or> (of_char c :: nat) < 0x20 then None
      else if c = CHR 0x5C then
        (case cs of
           e # cs' \<Rightarrow>
             if e = CHR 0x22 \<or> e = CHR 0x5C then map_option (Cons e) (json_unescape cs')
             else (case (e, cs') of
                 (CHR ''u'', CHR ''0'' # CHR ''0'' # a # b # cs'') \<Rightarrow>
                   (case (hex_val a, hex_val b) of
                      (Some x, Some y) \<Rightarrow> map_option (Cons (char_of (16 * x + y))) (json_unescape cs'')
                    | _ \<Rightarrow> None)
               | _ \<Rightarrow> None)
         | [] \<Rightarrow> None)
      else map_option (Cons c) (json_unescape cs))"

lemma hex_val_hx: "d < 16 \<Longrightarrow> hex_val (hx d) = Some d"
proof -
  have "\<forall>d \<in> set [0..<16]. hex_val (hx d) = Some d"
    by code_simp
  then show "d < 16 \<Longrightarrow> hex_val (hx d) = Some d" by simp
qed

lemma json_unescape_char:
  "json_unescape (json_escape_char c @ rest) = map_option (Cons c) (json_unescape rest)"
proof -
  have ctl: "char_of (of_char c div 16 * 16 + of_char c mod 16 :: nat) = c"
    by (simp only: div_mult_mod_eq) simp
  have "(of_char c :: nat) div 16 < 16" if "(of_char c :: nat) < 32" using that by simp
  then show ?thesis
    using ctl by (auto simp: json_escape_char_def hex_val_hx mult.commute split: list.splits)
qed

lemma length_json_escape_char: "length (json_escape_char c) \<le> 6"
  by (simp add: json_escape_char_def)

lemma json_escape_loop_shape:
  "\<exists>k \<le> length src. json_unescape (json_escape_loop n o' src) = Some (take k src) \<and>
     (o' < n \<longrightarrow> o' + length (json_escape_loop n o' src) < n) \<and>
     (o' + 6 * length src + 1 < n \<longrightarrow> k = length src)"
proof (induction src arbitrary: o')
  case (Cons c src)
  let ?e = "json_escape_char c"
  show ?case
  proof (cases "o' + 7 < n")
    case True
    from Cons.IH [of "o' + length ?e"] obtain k where k: "k \<le> length src"
      "json_unescape (json_escape_loop n (o' + length ?e) src) = Some (take k src)"
      "o' + length ?e < n \<longrightarrow> o' + length ?e + length (json_escape_loop n (o' + length ?e) src) < n"
      "o' + length ?e + 6 * length src + 1 < n \<longrightarrow> k = length src" by blast
    with True length_json_escape_char [of c] show ?thesis
      by (intro exI [of _ "Suc k"]) (auto simp: json_unescape_char)
  next
    case False
    then show ?thesis by (intro exI [of _ 0]) auto
  qed
qed simp

text \<open>
  Escaped text cannot break out of the JSON string it is embedded in: the result
  always fits the buffer, reads back as a prefix of the source (so it holds no bare quote,
  backslash or control character), and as the whole source when the buffer has six bytes
  per character to spare.
\<close>

theorem json_escape_safe:
  assumes "0 < n"
  shows "length (rguard_json_escape n src) < n \<and>
    (\<exists>k \<le> length src. json_unescape (rguard_json_escape n src) = Some (take k src) \<and>
       (6 * length src + 1 < n \<longrightarrow> k = length src))"
  using json_escape_loop_shape [of src n 0] assms by (auto simp: rguard_json_escape_def)

theorem json_escape_safe_witness:
  "length (rguard_json_escape 40 [CHR ''a'', CHR 0x22, newline]) < 40 \<and>
   json_unescape (rguard_json_escape 40 [CHR ''a'', CHR 0x22, newline]) =
     Some [CHR ''a'', CHR 0x22, newline]"
  using json_escape_safe [of 40 "[CHR ''a'', CHR 0x22, newline]"] by auto

subsection \<open>The log file\<close>

record log_state =
  g_fp :: "string option"
  g_component :: string
  g_level :: int

definition log_state0 :: log_state where
  "log_state0 = \<lparr>g_fp = None, g_component = ''rguard'', g_level = LOG_INFO\<rparr>"

definition log_level_str :: "int \<Rightarrow> string" where
  "log_level_str lvl =
     (if lvl = LOG_DEBUG then ''DEBUG''
      else if lvl = LOG_INFO then ''INFO''
      else if lvl = LOG_WARN then ''WARN''
      else if lvl = LOG_ERROR then ''ERROR''
      else ''INFO'')"

datatype mkdir_result = Mkdir_ok | Mkdir_eexist | Mkdir_fail

text \<open>Result and whether the directory was created.\<close>

definition log_ensure_dir :: "bool \<Rightarrow> mkdir_result \<Rightarrow> int \<times> bool" where
  "log_ensure_dir stat_ok mk =
     (if stat_ok then (0, False)
      else (case mk of Mkdir_ok \<Rightarrow> (0, True) | Mkdir_eexist \<Rightarrow> (0, False) | Mkdir_fail \<Rightarrow> (-1, False)))"

text \<open>The directory the file is in: nothing is created for a bare name or a file of the root.\<close>

definition log_dir :: "string \<Rightarrow> string option" where
  "log_dir path =
     (let dirbuf = snprintf_s RGUARD_PATH_MAX path in
      case strrchr dirbuf CHR ''/'' of
        None \<Rightarrow> None
      | Some slash \<Rightarrow>
          (let len = length dirbuf - length slash in
           if len = 0 then None else Some (take len dirbuf)))"

text \<open>
  The return code, the new state, and the directory created on the way, if any.
\<close>

definition rguard_log_init ::
  "(string \<Rightarrow> bool) \<Rightarrow> (string \<Rightarrow> mkdir_result) \<Rightarrow> (string \<Rightarrow> bool) \<Rightarrow>
   string option \<Rightarrow> string option \<Rightarrow> int \<Rightarrow> log_state \<Rightarrow> int \<times> log_state \<times> string option" where
  "rguard_log_init stat_ok mk fopen_ok log_path component level ls =
     (case log_path of
        None \<Rightarrow> (-1, ls, None)
      | Some path \<Rightarrow>
          if path = [] then (-1, ls, None)
          else
            let made = (case log_dir path of
                          None \<Rightarrow> None
                        | Some d \<Rightarrow> if snd (log_ensure_dir (stat_ok d) (mk d)) then Some d else None)
            in if \<not> fopen_ok path then (-1, ls\<lparr>g_fp := None\<rparr>, made)
               else
                 let comp = (case component of
                               Some c \<Rightarrow> if c = [] then g_component ls else snprintf_s 64 c
                             | None \<Rightarrow> g_component ls)
                 in (0, \<lparr>g_fp = Some path, g_component = comp, g_level = level\<rparr>, made))"

definition rguard_log_set_level :: "int \<Rightarrow> log_state \<Rightarrow> log_state" where
  "rguard_log_set_level level ls = ls\<lparr>g_level := level\<rparr>"

definition rguard_log_close :: "log_state \<Rightarrow> log_state" where
  "rguard_log_close ls = ls\<lparr>g_fp := None\<rparr>"

record tm =
  tm_year :: int
  tm_mon :: int
  tm_mday :: int
  tm_hour :: int
  tm_min :: int
  tm_sec :: int
  tm_yday :: int

definition iso8601_ms :: "tm \<Rightarrow> int \<Rightarrow> string" where
  "iso8601_ms t nsec =
     show_pad 4 ((tm_year t + 1900) smod 10000) @ ''-'' @ show_pad 2 ((tm_mon t + 1) smod 100) @ ''-'' @
     show_pad 2 (tm_mday t smod 100) @ ''T'' @ show_pad 2 (tm_hour t smod 100) @ '':'' @
     show_pad 2 (tm_min t smod 100) @ '':'' @ show_pad 2 (tm_sec t smod 100) @ ''.'' @
     show_pad 3 (nsec sdiv 1000000 smod 1000)"

fun escape_line_loop :: "nat \<Rightarrow> nat \<Rightarrow> string \<Rightarrow> string" where
  "escape_line_loop n o' [] = []"
| "escape_line_loop n o' (c # src) =
     (if o' + 3 < n
      then if c = newline then CHR 0x5C # CHR ''n'' # escape_line_loop n (o' + 2) src
           else if c = CHR 0x0D then CHR 0x5C # CHR ''r'' # escape_line_loop n (o' + 2) src
           else c # escape_line_loop n (o' + 1) src
      else [])"

definition escape_line :: "nat \<Rightarrow> string \<Rightarrow> string" where
  "escape_line n src = escape_line_loop n 0 src"

text \<open>
  The line of a call, and the stream it goes to: the open log file, or standard error.
\<close>

datatype log_sink = Log_file string | Log_stderr

definition log_line :: "log_state \<Rightarrow> tm \<Rightarrow> int \<Rightarrow> log_call \<Rightarrow> string" where
  "log_line ls t nsec lc =
     (let ts = snprintf_s 40 (iso8601_ms t nsec);
          ev = escape_line 128 (if l_event lc = [] then ''-'' else l_event lc);
          skey = escape_line 256
            (case l_session lc of None \<Rightarrow> ''-'' | Some s \<Rightarrow> if s = [] then ''-'' else s);
          det = escape_line 2048 (if l_detail lc = [] then ''{}'' else l_detail lc)
      in ts @ ''|'' @ log_level_str (l_level lc) @ ''|'' @ ev @ ''|'' @
         g_component ls @ ''|'' @ skey @ ''|'' @ det)"

definition rguard_log_write ::
  "log_state \<Rightarrow> tm \<Rightarrow> int \<Rightarrow> log_call \<Rightarrow> (log_sink \<times> string) option" where
  "rguard_log_write ls t nsec lc =
     (if l_level lc < g_level ls then None
      else Some (case g_fp ls of Some path \<Rightarrow> Log_file path | None \<Rightarrow> Log_stderr,
                 log_line ls t nsec lc @ [newline]))"

lemma escape_line_loop_safe:
  "newline \<notin> set (escape_line_loop n o' src) \<and> CHR 0x0D \<notin> set (escape_line_loop n o' src)"
  by (induction n o' src rule: escape_line_loop.induct) (auto simp: newline_def)

lemma escape_line_loop_length: "o' < n \<Longrightarrow> o' + length (escape_line_loop n o' src) < n"
proof (induction n o' src rule: escape_line_loop.induct)
  case (2 n o' c src)
  then show ?case by (cases "o' + 3 < n") auto
qed simp

lemma escape_line_id:
  "newline \<notin> set src \<Longrightarrow> CHR 0x0D \<notin> set src \<Longrightarrow> o' + length src + 2 < n \<Longrightarrow>
     escape_line_loop n o' src = src"
  by (induction n o' src rule: escape_line_loop.induct) auto

lemma escape_line_no_newline: "newline \<notin> set (escape_line n src)"
  using escape_line_loop_safe [of n 0 src] by (simp add: escape_line_def)

lemma log_line_no_newline:
  assumes "newline \<notin> set (g_component ls)"
  shows "newline \<notin> set (log_line ls t nsec lc)"
proof -
  have "newline \<notin> set (iso8601_ms t nsec)"
    using show_pad_no_newline by (simp add: iso8601_ms_def) (simp add: newline_def)
  then have "newline \<notin> set (snprintf_s 40 (iso8601_ms t nsec))"
    unfolding snprintf_s_def by (meson in_set_takeD)
  moreover have "newline \<notin> set (log_level_str (l_level lc))"
    by (simp add: log_level_str_def newline_def)
  moreover have "newline \<noteq> CHR ''|''" by (simp add: newline_def)
  ultimately show ?thesis
    using assms by (simp add: log_line_def Let_def escape_line_no_newline)
qed

text \<open>
  C23: A log call writes at most one line, whatever the user-controlled text: below the level
  it writes nothing, otherwise exactly one line that ends with its only newline. So no file
  name, address or task name can forge a log record.
\<close>

theorem log_write_one_line:
  assumes "newline \<notin> set (g_component ls)"
  shows "case rguard_log_write ls t nsec lc of
      None \<Rightarrow> l_level lc < g_level ls
    | Some (sink, text) \<Rightarrow> g_level ls \<le> l_level lc \<and>
        (\<exists>line. text = line @ [newline] \<and> newline \<notin> set line \<and> lines_of text = [line])"
  using log_line_no_newline [OF assms] lines_of_single
  by (auto simp: rguard_log_write_def)

theorem log_write_one_line_witness:
  "\<exists>line. case rguard_log_write log_state0 \<lparr>tm_year = 124, tm_mon = 0, tm_mday = 5, tm_hour = 3,
        tm_min = 4, tm_sec = 5, tm_yday = 4\<rparr> 0
        (log_call LOG_WARN ''HIT'' None (''a'' @ [newline] @ ''forged'')) of
      None \<Rightarrow> False
    | Some (sink, text) \<Rightarrow> lines_of text = [line]"
proof -
  have comp: "newline \<notin> set (g_component log_state0)"
    by (simp add: log_state0_def newline_def)
  show ?thesis
    using log_write_one_line [OF comp, where t = "\<lparr>tm_year = 124, tm_mon = 0, tm_mday = 5,
        tm_hour = 3, tm_min = 4, tm_sec = 5, tm_yday = 4\<rparr>" and nsec = 0
        and lc = "log_call LOG_WARN ''HIT'' None (''a'' @ [newline] @ ''forged'')"]
    by (auto simp: log_call_def log_state0_def log_level_defs split: option.splits prod.splits)
qed

end
