(* ===== verification/World.thy ===== *)
theory World
  imports Rguard_Db Rguard_Log
begin

text \<open>
  What the daemon's handlers act on besides their arguments: the files, the database, the log,
  the programs they start, and the answers of the operating system. The answers are streams
  fixed in advance: the \<open>n\<close>-th reading of the clock, the answers the \<open>n\<close>-th file operation
  meets. Every theorem therefore holds for any behaviour of the system the streams describe.
\<close>

subsection \<open>Reading and writing through system calls that may stop short\<close>

text \<open>An answer of \<open>read\<close> or \<open>write\<close>; when the list is used up the rest is done at once.\<close>

datatype io_step = Io_error | Io_intr | Io_bytes nat

record io_answers =
  a_lock_open :: bool
  a_flock :: bool
  a_open :: bool
  a_fstat :: bool
  a_reads :: "io_step list"
  a_tmp_open :: bool
  a_writes :: "io_step list"
  a_fsync :: bool
  a_close :: bool
  a_rename :: bool
  a_fork :: bool

fun read_loop :: "io_step list \<Rightarrow> string \<Rightarrow> string \<Rightarrow> string option" where
  "read_loop [] rest acc = Some (acc @ rest)"
| "read_loop (Io_error # as) rest acc = None"
| "read_loop (Io_intr # as) rest acc = read_loop as rest acc"
| "read_loop (Io_bytes n # as) rest acc =
     (if take n rest = [] then Some acc
      else if drop n rest = [] then Some (acc @ rest)
      else read_loop as (drop n rest) (acc @ take n rest))"

fun write_loop :: "io_step list \<Rightarrow> string \<Rightarrow> bool" where
  "write_loop as [] = True"
| "write_loop [] data = True"
| "write_loop (Io_error # as) data = False"
| "write_loop (Io_intr # as) data = write_loop as data"
| "write_loop (Io_bytes n # as) data = (if n = 0 then False else write_loop as (drop n data))"

text \<open>Reads that make progress deliver the whole file, however it is cut up.\<close>

lemma read_loop_whole:
  "Io_bytes 0 \<notin> set as \<Longrightarrow> read_loop as rest acc = Some out \<Longrightarrow> out = acc @ rest"
proof (induction as rest acc rule: read_loop.induct)
  case (4 n as rest acc)
  then show ?case by (auto split: if_splits)
qed auto

subsection \<open>The world\<close>

record world =
  w_files :: "string \<Rightarrow> string option"
  w_db :: database
  w_log :: "log_call list"
  w_spawned :: "string list list"
  w_local :: "int \<Rightarrow> tm"
  w_clock :: "nat \<Rightarrow> int"
  w_reads :: nat
  w_answers :: "nat \<Rightarrow> io_answers"
  w_ops :: nat

definition write_log :: "int \<Rightarrow> string \<Rightarrow> string option \<Rightarrow> string \<Rightarrow> world \<Rightarrow> world" where
  "write_log lv ev sk det w = w\<lparr>w_log := w_log w @ [log_call lv ev sk det]\<rparr>"

definition now :: "world \<Rightarrow> int" where
  "now w = w_clock w (w_reads w)"

definition tick_clock :: "world \<Rightarrow> world" where
  "tick_clock w = w\<lparr>w_reads := w_reads w + 1\<rparr>"

definition answers :: "world \<Rightarrow> io_answers" where
  "answers w = w_answers w (w_ops w)"

definition next_op :: "world \<Rightarrow> world" where
  "next_op w = w\<lparr>w_ops := w_ops w + 1\<rparr>"

text \<open>\<open>strftime\<close> with the formats the daemon uses, into buffers that hold them.\<close>

definition iso8601 :: "tm \<Rightarrow> string" where
  "iso8601 t =
     show_int (tm_year t + 1900) @ ''-'' @ show_pad 2 (tm_mon t + 1) @ ''-'' @ show_pad 2 (tm_mday t) @ ''T'' @
     show_pad 2 (tm_hour t) @ '':'' @ show_pad 2 (tm_min t) @ '':'' @ show_pad 2 (tm_sec t)"

definition yyyymmdd :: "tm \<Rightarrow> string" where
  "yyyymmdd t = show_int (tm_year t + 1900) @ show_pad 2 (tm_mon t + 1) @ show_pad 2 (tm_mday t)"

text \<open>\<open>iso8601_now\<close>: one reading of the clock.\<close>

definition iso8601_now :: "world \<Rightarrow> string \<times> world" where
  "iso8601_now w = (iso8601 (w_local w (now w)), tick_clock w)"

lemma world_frames [simp]:
  "w_files (write_log lv ev sk det w) = w_files w" "w_db (write_log lv ev sk det w) = w_db w"
  "w_spawned (write_log lv ev sk det w) = w_spawned w"
  "w_files (tick_clock w) = w_files w" "w_db (tick_clock w) = w_db w"
  "w_spawned (tick_clock w) = w_spawned w" "w_log (tick_clock w) = w_log w"
  "w_files (next_op w) = w_files w" "w_db (next_op w) = w_db w"
  "w_spawned (next_op w) = w_spawned w" "w_log (next_op w) = w_log w"
  "answers (write_log lv ev sk det w) = answers w" "answers (tick_clock w) = answers w"
  "w_log (write_log lv ev sk det w) = w_log w @ [log_call lv ev sk det]"
  by (simp_all add: write_log_def tick_clock_def next_op_def answers_def)

subsection \<open>A sample world\<close>

text \<open>A world in which every call succeeds, some of them in pieces, with one blocked address.\<close>

definition quiet_io :: io_answers where
  "quiet_io = \<lparr>a_lock_open = True, a_flock = True, a_open = True, a_fstat = True, a_reads = [Io_bytes 4],
     a_tmp_open = True, a_writes = [Io_intr, Io_bytes 5], a_fsync = True, a_close = True,
     a_rename = True, a_fork = True\<rparr>"

definition quiet_world :: world where
  "quiet_world = \<lparr>w_files = [''/run/blocked'' \<mapsto> ''10.0.0.8'' @ [newline]], w_db = db_empty,
     w_log = [], w_spawned = [],
     w_local = (\<lambda>_. \<lparr>tm_year = 124, tm_mon = 0, tm_mday = 5, tm_hour = 3, tm_min = 4, tm_sec = 5, tm_yday = 4\<rparr>),
     w_clock = (\<lambda>n. 1000 + int n), w_reads = 0, w_answers = (\<lambda>_. quiet_io), w_ops = 0\<rparr>"

end
