(* ===== verification/Rguard_Backup.thy ===== *)
theory Rguard_Backup
  imports World
begin

text \<open>
  \<open>src/common/rguard_backup.h\<close>: the copy of an open file, by reflink, then by
  \<open>copy_file_range\<close>, then by \<open>read\<close> and \<open>write\<close>. A file is its bytes; each system call's
  answer says how much it transferred. The two descriptors have positions of their own: the
  in-kernel copy works at explicit offsets and leaves them alone, \<open>read\<close> and \<open>write\<close> work at
  them and move them, \<open>lseek\<close> sets them. Where the caller left them is part of the answers. The
  bytes of the source do not change while it is copied; its length need not be the requested
  size.
\<close>

definition put_at :: "string \<Rightarrow> nat \<Rightarrow> string \<Rightarrow> string" where
  "put_at dst off d =
     take off (dst @ replicate (off - length dst) nul) @ d @ drop (off + length d) dst"

record copy_answers =
  c_src_at :: nat
  c_dst_at :: nat
  c_clone :: bool
  c_range :: "io_step list"
  c_seek_src :: bool
  c_seek_dst :: bool
  c_reads :: "io_step list"
  c_writes :: "io_step list"

text \<open>What one call of \<open>copy_file_range\<close> can transfer: the wanted chunk, up to the end of the file.\<close>

definition range_chunk :: "string \<Rightarrow> nat \<Rightarrow> nat \<Rightarrow> nat" where
  "range_chunk src sz copied =
     (let want = (if sz - copied < 2 ^ 20 then sz - copied else 2 ^ 20)
      in min want (length src - copied))"

lemma range_chunk_le: "range_chunk src sz t \<le> sz - t" "range_chunk src sz t \<le> length src - t"
  by (auto simp: range_chunk_def Let_def)

text \<open>
  Step 2: chunks of at most one megabyte, never past \<open>sz\<close>. The kernel advances \<open>off_in\<close> and
  \<open>off_out\<close> by what it returns, as the code advances \<open>total\<close>: the three are one number.
\<close>

function range_loop ::
  "io_step list \<Rightarrow> string \<Rightarrow> nat \<Rightarrow> nat \<Rightarrow> string \<Rightarrow> nat \<times> string" where
  "range_loop as src sz copied dst =
     (if copied < sz then
        let avail = range_chunk src sz copied
        in (case as of
              Io_error # _ \<Rightarrow> (copied, dst)
            | Io_intr # as' \<Rightarrow> range_loop as' src sz copied dst
            | Io_bytes k # as' \<Rightarrow>
                (let n = min k avail in
                 if n = 0 then (copied, dst)
                 else range_loop as' src sz (copied + n) (put_at dst copied (take n (drop copied src))))
            | [] \<Rightarrow>
                if avail = 0 then (copied, dst)
                else range_loop [] src sz (copied + avail) (put_at dst copied (take avail (drop copied src))))
      else (copied, dst))"
  by pat_completeness auto
termination
  by (relation "measure (\<lambda>(as, src, sz, copied, dst). (sz - copied) + length as)") auto

declare range_loop.simps [simp del]

text \<open>What one \<open>read\<close> can deliver into the buffer of 64 kilobytes: not limited by \<open>sz\<close>.\<close>

definition read_chunk :: "string \<Rightarrow> nat \<Rightarrow> nat" where
  "read_chunk src copied = min (64 * 1024) (length src - copied)"

text \<open>Step 3: the inner loop writes one buffer; an interrupted \<open>write\<close> fails the copy.\<close>

fun write_all :: "io_step list \<Rightarrow> string \<Rightarrow> nat \<Rightarrow> string \<Rightarrow> bool \<times> io_step list \<times> string" where
  "write_all as [] off dst = (True, as, dst)"
| "write_all [] data off dst = (True, [], put_at dst off data)"
| "write_all (Io_bytes k # as) data off dst =
     (if k = 0 then (False, as, dst)
      else write_all as (drop k data) (off + length (take k data)) (put_at dst off (take k data)))"
| "write_all (_ # as) data off dst = (False, as, dst)"

function rw_loop ::
  "io_step list \<Rightarrow> io_step list \<Rightarrow> string \<Rightarrow> nat \<Rightarrow> nat \<Rightarrow> nat \<Rightarrow> nat \<Rightarrow> string \<Rightarrow>
     bool \<times> nat \<times> string" where
  "rw_loop rs ws src sz copied src_at dst_at dst =
     (if copied < sz then
        let avail = read_chunk src src_at in
        (case rs of
           Io_error # _ \<Rightarrow> (True, copied, dst)
         | Io_intr # rs' \<Rightarrow> rw_loop rs' ws src sz copied src_at dst_at dst
         | Io_bytes k # rs' \<Rightarrow>
             (let n = min k avail in
              if n = 0 then (True, copied, dst)
              else case write_all ws (take n (drop src_at src)) dst_at dst of
                (ok, ws', dst') \<Rightarrow>
                  if ok then rw_loop rs' ws' src sz (copied + n) (src_at + n) (dst_at + n) dst'
                  else (False, copied, dst'))
         | [] \<Rightarrow>
             if avail = 0 then (True, copied, dst)
             else case write_all ws (take avail (drop src_at src)) dst_at dst of
               (ok, ws', dst') \<Rightarrow>
                 if ok then rw_loop [] ws' src sz (copied + avail) (src_at + avail) (dst_at + avail) dst'
                 else (False, copied, dst'))
      else (True, copied, dst))"
  by pat_completeness auto
termination
  by (relation "measure (\<lambda>(rs, ws, src, sz, copied, src_at, dst_at, dst). (sz - copied) + length rs)")
    (auto simp: read_chunk_def)

declare rw_loop.simps [simp del]

text \<open>\<open>lseek (fd, off, SEEK_SET)\<close>: whether it succeeds, and the position it leaves.\<close>

definition lseek_set :: "bool \<Rightarrow> nat \<Rightarrow> nat \<Rightarrow> bool \<times> nat" where
  "lseek_set ok off pos = (ok, if ok then off else pos)"

definition rguard_copy_fd :: "copy_answers \<Rightarrow> string \<Rightarrow> string \<Rightarrow> nat \<Rightarrow> int \<times> string" where
  "rguard_copy_fd a src dst sz =
     (if c_clone a then (0, put_at dst 0 src)
      else
        let (copied, dst1) = range_loop (c_range a) src sz 0 dst in
        if copied < sz then
          let (src_ok, src_at) = lseek_set (c_seek_src a) copied (c_src_at a) in
          if \<not> src_ok then (-1, dst1)
          else
            let (dst_ok, dst_at) = lseek_set (c_seek_dst a) copied (c_dst_at a) in
            if \<not> dst_ok then (-1, dst1)
            else
              let (ok, copied', dst2) =
                rw_loop (c_reads a) (c_writes a) src sz copied src_at dst_at dst1 in
              if \<not> ok then (-1, dst2) else (if copied' \<ge> sz then 0 else -1, dst2)
        else (if copied \<ge> sz then 0 else -1, dst1))"

subsection \<open>The copy is a prefix of the source\<close>

lemma put_at_prefix:
  "t \<le> length src \<Longrightarrow> put_at (take t src) t (take n (drop t src)) = take (t + n) src"
  by (simp add: put_at_def take_add)

lemma put_at_nil [simp]: "put_at [] 0 d = d"
  by (simp add: put_at_def)

text \<open>One step of the loop: it stops, skips an answer or copies some more bytes.\<close>

definition fits :: "string \<Rightarrow> nat \<Rightarrow> nat \<Rightarrow> bool" where
  "fits src sz t \<longleftrightarrow> t \<le> length src \<and> t \<le> sz"

lemma range_loop_prefix:
  assumes "fits src sz t"
  shows "\<exists>n. t \<le> n \<and> fits src sz n \<and> range_loop as src sz t (take t src) = (n, take n src)"
  using assms
proof (induction "(sz - t) + length as" arbitrary: as t rule: less_induct)
  case less
  let ?avail = "range_chunk src sz t"
  have stop: "\<exists>n. t \<le> n \<and> fits src sz n \<and> (t, take t src) = (n, take n src)"
    using less.prems by (intro exI [of _ t]) simp
  have more: "\<exists>n. t \<le> n \<and> fits src sz n \<and>
      range_loop bs src sz (t + m) (put_at (take t src) t (take m (drop t src))) = (n, take n src)"
    if "0 < m" "m \<le> ?avail" "t < sz" "length bs \<le> length as" for m bs
  proof -
    have m: "fits src sz (t + m)"
      using that(2,3) range_chunk_le [of src sz t] less.prems by (auto simp: fits_def)
    have "(sz - (t + m)) + length bs < (sz - t) + length as"
      using that range_chunk_le(1) [of src sz t] by linarith
    from less.hyps [OF this m] obtain n where n: "t + m \<le> n" "fits src sz n"
      "range_loop bs src sz (t + m) (take (t + m) src) = (n, take n src)" by blast
    moreover have "put_at (take t src) t (take m (drop t src)) = take (t + m) src"
      using put_at_prefix less.prems by (simp add: fits_def)
    ultimately show ?thesis by (intro exI [of _ n]) simp
  qed
  have skip: "\<exists>n. t \<le> n \<and> fits src sz n \<and> range_loop bs src sz t (take t src) = (n, take n src)"
    if "length bs < length as" for bs
    using less.hyps [of t bs] that less.prems by simp
  show ?case
  proof (cases "t < sz")
    case True
    show ?thesis
    proof (cases as)
      case Nil
      then show ?thesis
        using True stop more [of ?avail "[]"]
        by (subst range_loop.simps) (cases "?avail = 0", simp_all add: Let_def)
    next
      case (Cons a bs)
      show ?thesis
      proof (cases a)
        case Io_error
        with True Cons stop show ?thesis by (subst range_loop.simps) simp
      next
        case Io_intr
        with True Cons skip [of bs] show ?thesis by (subst range_loop.simps) simp
      next
        case (Io_bytes k)
        then show ?thesis
          using True Cons stop more [of "min k ?avail" bs]
          by (subst range_loop.simps) (cases "min k ?avail = 0", simp_all add: Let_def)
      qed
    qed
  qed (use stop in \<open>subst range_loop.simps, simp\<close>)
qed

lemma put_at_put_at:
  "off \<le> length dst \<Longrightarrow> put_at (put_at dst off a) (off + length a) b = put_at dst off (a @ b)"
  by (simp add: put_at_def add.assoc add.commute [of "length b"])

lemma write_all_put:
  "off \<le> length dst \<Longrightarrow> fst (write_all ws data off dst) \<Longrightarrow>
     snd (snd (write_all ws data off dst)) = put_at dst off data"
proof (induction ws data off dst rule: write_all.induct)
  case (1 as off dst)
  then show ?case by (simp add: put_at_def)
next
  case (3 k as d data off dst)
  let ?data = "d # data"
  from "3.prems" have k: "k \<noteq> 0" by (auto split: if_splits)
  have "off + length (take k ?data) \<le> length (put_at dst off (take k ?data))"
    using "3.prems"(1) by (auto simp: put_at_def)
  from "3.IH" [OF k this] "3.prems" k
  have "snd (snd (write_all (Io_bytes k # as) ?data off dst)) =
      put_at (put_at dst off (take k ?data)) (off + length (take k ?data)) (drop k ?data)"
    by simp
  also have "\<dots> = put_at dst off (take k ?data @ drop k ?data)"
    using "3.prems"(1) by (rule put_at_put_at)
  finally show ?case by simp
qed (auto simp: put_at_def)

lemma write_all_take:
  "t \<le> length src \<Longrightarrow> fst (write_all ws (take n (drop t src)) t (take t src)) \<Longrightarrow>
     snd (snd (write_all ws (take n (drop t src)) t (take t src))) = take (t + n) src"
  using write_all_put [of t "take t src"] put_at_prefix [of t src n] by simp

lemma rw_loop_prefix:
  assumes "t \<le> length src" and "t < sz + 65536"
  shows "fst (rw_loop rs ws src sz t t t (take t src)) \<Longrightarrow>
    \<exists>n. t \<le> n \<and> n \<le> length src \<and> n < sz + 65536 \<and>
      rw_loop rs ws src sz t t t (take t src) = (True, n, take n src)"
  using assms
proof (induction "(sz - t) + length rs" arbitrary: rs ws t rule: less_induct)
  case less
  let ?avail = "read_chunk src t"
  have stop: "\<exists>n. t \<le> n \<and> n \<le> length src \<and> n < sz + 65536 \<and> (True, t, take t src) = (True, n, take n src)"
    using less.prems by (intro exI [of _ t]) simp
  have more: "\<exists>n. t \<le> n \<and> n \<le> length src \<and> n < sz + 65536 \<and>
      rw_loop qs vs src sz (t + m) (t + m) (t + m) (take (t + m) src) = (True, n, take n src)"
    if "0 < m" "m \<le> ?avail" "t < sz" "length qs \<le> length rs"
      "fst (rw_loop qs vs src sz (t + m) (t + m) (t + m) (take (t + m) src))" for m qs vs
  proof -
    have "(sz - (t + m)) + length qs < (sz - t) + length rs" "t + m \<le> length src" "t + m < sz + 65536"
      using that less.prems by (auto simp: read_chunk_def)
    from less.hyps [OF this(1) that(5) this(2,3)] obtain n where "t + m \<le> n" "n \<le> length src"
      "n < sz + 65536" "rw_loop qs vs src sz (t + m) (t + m) (t + m) (take (t + m) src) = (True, n, take n src)"
      by blast
    then show ?thesis by (intro exI [of _ n]) simp
  qed
  have go: "\<exists>n. t \<le> n \<and> n \<le> length src \<and> n < sz + 65536 \<and>
      (case write_all ws (take m (drop t src)) t (take t src) of (ok, ws', dst') \<Rightarrow>
         if ok then rw_loop qs ws' src sz (t + m) (t + m) (t + m) dst' else (False, t, dst')) = (True, n, take n src)"
    if "0 < m" "m \<le> ?avail" "t < sz" "length qs \<le> length rs"
      "fst (case write_all ws (take m (drop t src)) t (take t src) of (ok, ws', dst') \<Rightarrow>
         if ok then rw_loop qs ws' src sz (t + m) (t + m) (t + m) dst' else (False, t, dst'))" for m qs
  proof -
    obtain ok ws' dst' where wa: "write_all ws (take m (drop t src)) t (take t src) = (ok, ws', dst')"
      by (cases "write_all ws (take m (drop t src)) t (take t src)")
    with that(5) have "ok" by (cases ok) auto
    with wa write_all_take [of t src ws m] less.prems(2) have "dst' = take (t + m) src" by simp
    with wa \<open>ok\<close> that more [of m qs ws'] show ?thesis by simp
  qed
  show ?case
  proof (cases "t < sz")
    case True
    show ?thesis
    proof (cases rs)
      case Nil
      then show ?thesis
        using True stop go [of ?avail "[]"] less.prems(1) rw_loop.simps [of rs ws src sz t t t "take t src"]
        by (cases "?avail = 0") (simp_all add: Let_def)
    next
      case (Cons a qs)
      show ?thesis
      proof (cases a)
        case Io_error
        with True Cons stop show ?thesis by (subst rw_loop.simps) simp
      next
        case Io_intr
        with True Cons less.hyps [of t qs ws] less.prems rw_loop.simps [of rs ws src sz t t t "take t src"]
        show ?thesis by simp
      next
        case (Io_bytes k)
        then show ?thesis
          using True Cons stop go [of "min k ?avail" qs] less.prems(1)
            rw_loop.simps [of rs ws src sz t t t "take t src"]
          by (cases "min k ?avail = 0") (simp_all add: Let_def)
      qed
    qed
  qed (use stop in \<open>subst rw_loop.simps, simp\<close>)
qed

lemma copy_fd_clone: "c_clone a \<Longrightarrow> rguard_copy_fd a src [] sz = (0, src)"
  by (simp add: rguard_copy_fd_def)

lemma copy_fd_effect:
  assumes "fst (rguard_copy_fd a src [] sz) = 0"
  shows "(if c_clone a then snd (rguard_copy_fd a src [] sz) = src
    else \<exists>n. sz \<le> n \<and> n < sz + 65536 \<and> n \<le> length src \<and>
      snd (rguard_copy_fd a src [] sz) = take n src \<and>
      (fst (range_loop (c_range a) src sz 0 []) = sz \<longrightarrow>
         snd (rguard_copy_fd a src [] sz) = take sz src))"
proof (cases "c_clone a")
  case False
  have "fits src sz 0" by (simp add: fits_def)
  from range_loop_prefix [OF this, of "c_range a"] obtain m where m: "fits src sz m"
    "range_loop (c_range a) src sz 0 [] = (m, take m src)" by auto
  show ?thesis
  proof (cases "m < sz")
    case True
    let ?r = "rw_loop (c_reads a) (c_writes a) src sz m m m (take m src)"
    have eq: "rguard_copy_fd a src [] sz =
      (if \<not> c_seek_src a then (-1, take m src) else if \<not> c_seek_dst a then (-1, take m src)
       else if \<not> fst ?r then (-1, snd (snd ?r)) else (if fst (snd ?r) \<ge> sz then 0 else -1, snd (snd ?r)))"
      using False m(2) True by (simp add: rguard_copy_fd_def lseek_set_def case_prod_beta)
    with assms have ok: "fst ?r" "fst (snd ?r) \<ge> sz" "c_seek_src a" "c_seek_dst a"
      by (auto split: if_splits)
    from rw_loop_prefix [OF _ _ ok(1)] m(1) True obtain n where
      "n \<le> length src" "n < sz + 65536" "?r = (True, n, take n src)" by (auto simp: fits_def)
    with False eq ok m True show ?thesis by (auto intro: exI [of _ n])
  next
    case ge: False
    with m(1) have "m = sz" "sz \<le> length src" by (auto simp: fits_def)
    with False m show ?thesis by (auto simp: rguard_copy_fd_def)
  qed
qed (simp add: rguard_copy_fd_def)

subsection \<open>The copy gets through\<close>

text \<open>Both \<open>lseek\<close> calls succeed, no \<open>read\<close> and no \<open>write\<close> fails; they may be short or interrupted.\<close>

definition fallback_works :: "copy_answers \<Rightarrow> bool" where
  "fallback_works a \<longleftrightarrow> c_seek_src a \<and> c_seek_dst a \<and>
     Io_error \<notin> set (c_reads a) \<and> Io_bytes 0 \<notin> set (c_reads a) \<and>
     Io_error \<notin> set (c_writes a) \<and> Io_intr \<notin> set (c_writes a) \<and> Io_bytes 0 \<notin> set (c_writes a)"

lemma write_all_done:
  assumes "Io_error \<notin> set ws" "Io_intr \<notin> set ws" "Io_bytes 0 \<notin> set ws"
  shows "fst (write_all ws data off dst) \<and> set (fst (snd (write_all ws data off dst))) \<subseteq> set ws"
  using assms by (induction ws data off dst rule: write_all.induct) auto

lemma rw_loop_done:
  assumes "Io_error \<notin> set rs" "Io_bytes 0 \<notin> set rs"
    and "Io_error \<notin> set ws" "Io_intr \<notin> set ws" "Io_bytes 0 \<notin> set ws"
    and "sz \<le> length src"
  shows "fst (rw_loop rs ws src sz t t d dst) \<and> sz \<le> fst (snd (rw_loop rs ws src sz t t d dst))"
  using assms
proof (induction "(sz - t) + length rs" arbitrary: rs ws t d dst rule: less_induct)
  case less
  let ?avail = "read_chunk src t"
  show ?case
  proof (cases "t < sz")
    case True
    with less.prems(6) have av: "0 < ?avail" by (simp add: read_chunk_def)
    have go: "fst r \<and> sz \<le> fst (snd r)"
      if "r = (case write_all ws (take m (drop t src)) d dst of (ok, ws', dst') \<Rightarrow>
            if ok then rw_loop qs ws' src sz (t + m) (t + m) (d + m) dst' else (False, t, dst'))"
        "0 < m" "length qs \<le> length rs" "set qs \<subseteq> set rs" for r m qs
    proof -
      obtain ok ws' dst' where wa: "write_all ws (take m (drop t src)) d dst = (ok, ws', dst')"
        by (cases "write_all ws (take m (drop t src)) d dst")
      with write_all_done [OF less.prems(3-5), of "take m (drop t src)" d dst]
      have ok: "ok" "set ws' \<subseteq> set ws" by auto
      have "(sz - (t + m)) + length qs < (sz - t) + length rs" using that True by linarith
      from less.hyps [OF this] ok(2) less.prems that(4)
      have "fst (rw_loop qs ws' src sz (t + m) (t + m) (d + m) dst') \<and>
          sz \<le> fst (snd (rw_loop qs ws' src sz (t + m) (t + m) (d + m) dst'))" by blast
      with that(1) wa ok(1) show ?thesis by simp
    qed
    show ?thesis
    proof (cases rs)
      case Nil
      then show ?thesis
        using True av go [OF refl, of ?avail "[]"] by (subst (1 2) rw_loop.simps) (simp add: Let_def)
    next
      case (Cons a qs)
      show ?thesis
      proof (cases a)
        case Io_error
        with Cons less.prems(1) show ?thesis by simp
      next
        case Io_intr
        with True Cons less.hyps [of t qs ws d dst] less.prems show ?thesis
          by (subst (1 2) rw_loop.simps) simp
      next
        case (Io_bytes k)
        with Cons less.prems(2) have "0 < min k ?avail" using av by (cases k) auto
        moreover have "set qs \<subseteq> set rs" "length qs \<le> length rs" using Cons by auto
        ultimately show ?thesis
          using True Cons Io_bytes go [OF refl, of "min k ?avail" qs]
          by (subst (1 2) rw_loop.simps) (simp add: Let_def)
      qed
    qed
  qed (subst (1 2) rw_loop.simps, simp)
qed

lemma copy_fd_done:
  assumes "fallback_works a" and "sz \<le> length src"
  shows "fst (rguard_copy_fd a src dst sz) = 0"
proof (cases "range_loop (c_range a) src sz 0 dst")
  case (Pair n dst1)
  have "fst (rw_loop (c_reads a) (c_writes a) src sz n n n dst1) \<and>
      sz \<le> fst (snd (rw_loop (c_reads a) (c_writes a) src sz n n n dst1))"
    using assms by (intro rw_loop_done) (auto simp: fallback_works_def)
  with Pair assms(1) show ?thesis
    by (auto simp: rguard_copy_fd_def lseek_set_def fallback_works_def case_prod_beta)
qed

text \<open>
  C39: A reported copy is a copy, wherever the caller left the positions of the two descriptors
  and however far the in-kernel copy got. When the file system clones the file, the target is the
  whole source as it is and the copy is reported as complete whatever size was asked for, also
  when the source is shorter than that by now. Otherwise a copy that is reported as complete into
  an empty target leaves a prefix of the source there that reaches the requested size, and no
  foreign bytes; it is the requested size exactly when the in-kernel copy got there, while the
  fall-back through \<open>read\<close> and \<open>write\<close> may go past it, by less than its buffer, when the file has
  grown. And the copy gets through: if the source has the requested size, both seeks work and no
  \<open>read\<close> or \<open>write\<close> fails, it is reported as complete, with short and interrupted calls and
  whatever \<open>copy_file_range\<close> answers.
\<close>

theorem copy_fd_is_prefix:
  "(c_clone a \<longrightarrow> rguard_copy_fd a src [] sz = (0, src)) \<and>
   (\<not> c_clone a \<and> fst (rguard_copy_fd a src [] sz) = 0 \<longrightarrow>
      (\<exists>n. sz \<le> n \<and> n < sz + 65536 \<and> n \<le> length src \<and>
        snd (rguard_copy_fd a src [] sz) = take n src \<and>
        (fst (range_loop (c_range a) src sz 0 []) = sz \<longrightarrow>
           snd (rguard_copy_fd a src [] sz) = take sz src))) \<and>
   (fallback_works a \<and> sz \<le> length src \<longrightarrow> fst (rguard_copy_fd a src [] sz) = 0)"
  using copy_fd_effect [of a src sz] copy_fd_done [of a sz src "[]"] copy_fd_clone [of a src sz]
  by (cases "c_clone a") simp_all

theorem copy_fd_is_prefix_witness:
  "snd (rguard_copy_fd \<lparr>c_src_at = 3, c_dst_at = 7, c_clone = False, c_range = [Io_bytes 2, Io_error],
      c_seek_src = True, c_seek_dst = True, c_reads = [Io_intr], c_writes = [Io_bytes 1]\<rparr> ''grown'' [] 4) \<in>
     {take n ''grown'' |n. 4 \<le> n}"
proof -
  let ?a = "\<lparr>c_src_at = 3, c_dst_at = 7, c_clone = False, c_range = [Io_bytes 2, Io_error],
      c_seek_src = True, c_seek_dst = True, c_reads = [Io_intr], c_writes = [Io_bytes 1]\<rparr>"
  have "fallback_works ?a" by (simp add: fallback_works_def)
  with copy_fd_is_prefix [of ?a "''grown''" 4]
  obtain n where "4 \<le> n" "snd (rguard_copy_fd ?a ''grown'' [] 4) = take n ''grown''" by auto
  then show ?thesis by blast
qed

end
