(* ===== verification/Cjson.thy ===== *)
theory Cjson
  imports Complex_Main Cstring
begin

text \<open>
  The JSON values the configuration code walks, with the accessors and edits it uses
  (\<open>src/common/cJSON.c\<close>). A node is a value of \<open>cjson\<close>; a pointer to a child
  is the child, and an edit through such a pointer is written back by \<open>json_replace\<close>. The
  parser and the printer are arguments of the definitions that call them, and \<open>Cjson_Text\<close> models them. A
  number is the rational value of its finite double.
\<close>

datatype cjson =
    CNull | CFalse | CTrue
  | CNumber rat
  | CString string
  | CArray "cjson list"
  | CObject "(string \<times> cjson) list"

definition INT_MAX :: int where "INT_MAX = 2147483647"
definition INT_MIN :: int where "INT_MIN = -2147483648"

text \<open>The \<open>valueint\<close> of a number: its double truncated to \<open>int\<close>, saturating.\<close>

definition json_valueint :: "rat \<Rightarrow> int" where
  "json_valueint d =
     (if d \<ge> of_int INT_MAX then INT_MAX
      else if d \<le> of_int INT_MIN then INT_MIN
      else if d \<ge> 0 then \<lfloor>d\<rfloor> else \<lceil>d\<rceil>)"

lemma json_valueint_range: "INT_MIN \<le> json_valueint d \<and> json_valueint d \<le> INT_MAX"
  by (auto simp: json_valueint_def INT_MAX_def INT_MIN_def le_floor_iff floor_le_iff ceiling_le_iff
      le_ceiling_iff)

lemma json_valueint_of_int [simp]:
  "INT_MIN \<le> i \<Longrightarrow> i \<le> INT_MAX \<Longrightarrow> json_valueint (of_int i) = i"
  by (auto simp: json_valueint_def INT_MAX_def INT_MIN_def)

definition case_insensitive_eq :: "string \<Rightarrow> string \<Rightarrow> bool" where
  "case_insensitive_eq a b \<longleftrightarrow> map tolower a = map tolower b"

fun find_item :: "string \<Rightarrow> (string \<times> cjson) list \<Rightarrow> cjson option" where
  "find_item name [] = None"
| "find_item name ((k, v) # kvs) =
     (if case_insensitive_eq name k then Some v else find_item name kvs)"

text \<open>Only the members of an object have names.\<close>

fun cJSON_GetObjectItem :: "cjson \<Rightarrow> string \<Rightarrow> cjson option" where
  "cJSON_GetObjectItem (CObject kvs) name = find_item name kvs"
| "cJSON_GetObjectItem _ name = None"

text \<open>The elements \<open>cJSON_GetArrayItem(a, 0)\<close>, \<open>1\<close>, ... of a non-null array node.\<close>

fun cJSON_items :: "cjson \<Rightarrow> cjson list" where
  "cJSON_items (CArray xs) = xs"
| "cJSON_items (CObject kvs) = map snd kvs"
| "cJSON_items _ = []"

definition cJSON_GetArraySize :: "cjson \<Rightarrow> int" where
  "cJSON_GetArraySize j = int (length (cJSON_items j))"

fun cJSON_IsObject :: "cjson option \<Rightarrow> bool" where
  "cJSON_IsObject (Some (CObject _)) = True"
| "cJSON_IsObject _ = False"

fun cJSON_IsArray :: "cjson option \<Rightarrow> bool" where
  "cJSON_IsArray (Some (CArray _)) = True"
| "cJSON_IsArray _ = False"

fun cJSON_IsTrue :: "cjson option \<Rightarrow> bool" where
  "cJSON_IsTrue (Some CTrue) = True"
| "cJSON_IsTrue _ = False"

text \<open>The string of a string node, \<open>None\<close> when the node is no string.\<close>

fun json_string :: "cjson option \<Rightarrow> string option" where
  "json_string (Some (CString s)) = Some s"
| "json_string _ = None"

subsection \<open>Edits\<close>

fun delete_item :: "string \<Rightarrow> (string \<times> cjson) list \<Rightarrow> (string \<times> cjson) list" where
  "delete_item name [] = []"
| "delete_item name ((k, v) # kvs) =
     (if case_insensitive_eq name k then kvs else (k, v) # delete_item name kvs)"

fun cJSON_DeleteItemFromObject :: "cjson \<Rightarrow> string \<Rightarrow> cjson" where
  "cJSON_DeleteItemFromObject (CObject kvs) name = CObject (delete_item name kvs)"
| "cJSON_DeleteItemFromObject j name = j"

text \<open>
  A new member goes to the tail of the child list; an array prints it as an element, a
  scalar does not print its children at all.
\<close>

fun cJSON_AddItemToObject :: "cjson \<Rightarrow> string \<Rightarrow> cjson \<Rightarrow> cjson" where
  "cJSON_AddItemToObject (CObject kvs) name v = CObject (kvs @ [(name, v)])"
| "cJSON_AddItemToObject (CArray xs) name v = CArray (xs @ [v])"
| "cJSON_AddItemToObject j name v = j"

fun replace_item :: "string \<Rightarrow> cjson \<Rightarrow> (string \<times> cjson) list \<Rightarrow> (string \<times> cjson) list" where
  "replace_item name new [] = []"
| "replace_item name new ((k, v) # kvs) =
     (if case_insensitive_eq name k then (k, new) # kvs else (k, v) # replace_item name new kvs)"

fun json_replace :: "cjson \<Rightarrow> string \<Rightarrow> cjson \<Rightarrow> cjson" where
  "json_replace (CObject kvs) name new = CObject (replace_item name new kvs)"
| "json_replace j name new = j"

definition cJSON_DeleteItemFromArray :: "cjson list \<Rightarrow> nat \<Rightarrow> cjson list" where
  "cJSON_DeleteItemFromArray xs i = take i xs @ drop (Suc i) xs"

lemma case_insensitive_refl [simp]: "case_insensitive_eq a a"
  by (simp add: case_insensitive_eq_def)

lemma find_replace_same [simp]:
  "find_item name (replace_item name new kvs) = map_option (\<lambda>_. new) (find_item name kvs)"
  by (induction kvs rule: find_item.induct) auto

lemma find_item_append:
  "find_item name (kvs @ ms) = (case find_item name kvs of Some v \<Rightarrow> Some v | None \<Rightarrow> find_item name ms)"
  by (induction kvs rule: find_item.induct) auto

lemma find_replace_other:
  "\<not> case_insensitive_eq name name' \<Longrightarrow> find_item name' (replace_item name new kvs) = find_item name' kvs"
  by (induction kvs rule: find_item.induct) (auto simp: case_insensitive_eq_def)

lemma find_delete_other:
  "\<not> case_insensitive_eq name name' \<Longrightarrow> find_item name' (delete_item name kvs) = find_item name' kvs"
  by (induction kvs rule: find_item.induct) (auto simp: case_insensitive_eq_def)

end
