(* ===== verification/Rguard_Config.thy ===== *)
theory Rguard_Config
  imports Cjson Rguard_Hash Rguard_Protocol Inet
begin

text \<open>
  \<open>src/common/rguard_config.h\<close> and \<open>.c\<close>: the policy, how it is loaded from a JSON file and
  validated, and how a blocked address is written back to the file. An array of the policy
  with its count is the list of its used entries, the array of hashes beside it the list of
  their hashes. The file system is a record of answers, the JSON parser and printer are
  arguments; messages on standard error are not modelled.
\<close>

subsection \<open>The policy\<close>

definition RGUARD_WHITELIST_MAX :: nat where "RGUARD_WHITELIST_MAX = 64"
definition RGUARD_BLACKLIST_AUTO_MAX :: nat where "RGUARD_BLACKLIST_AUTO_MAX = 64"
definition RGUARD_USER_LEN :: nat where "RGUARD_USER_LEN = 64"
definition RGUARD_IP_LEN :: nat where "RGUARD_IP_LEN = 48"
definition RGUARD_EXCEPTION_MAX :: nat where "RGUARD_EXCEPTION_MAX = 64"
definition RGUARD_EXCEPTION_PATH_LEN :: nat where "RGUARD_EXCEPTION_PATH_LEN = 2048"
definition RGUARD_RANSOM_EXT_MAX :: nat where "RGUARD_RANSOM_EXT_MAX = 128"
definition RGUARD_RANSOM_EXT_LEN :: nat where "RGUARD_RANSOM_EXT_LEN = 32"
definition RGUARD_PROTECT_EXT_MAX :: nat where "RGUARD_PROTECT_EXT_MAX = 128"
definition RGUARD_PROTECT_EXT_LEN :: nat where "RGUARD_PROTECT_EXT_LEN = 32"
definition RGUARD_PROTECT_EXT_HSIZE :: nat where "RGUARD_PROTECT_EXT_HSIZE = 257"
definition RGUARD_MONITOR_MAX :: nat where "RGUARD_MONITOR_MAX = 8"
definition RGUARD_MONITOR_PATH_LEN :: nat where "RGUARD_MONITOR_PATH_LEN = 4096"

lemmas config_limits = RGUARD_WHITELIST_MAX_def RGUARD_BLACKLIST_AUTO_MAX_def RGUARD_USER_LEN_def
  RGUARD_IP_LEN_def RGUARD_EXCEPTION_MAX_def RGUARD_EXCEPTION_PATH_LEN_def
  RGUARD_RANSOM_EXT_MAX_def RGUARD_RANSOM_EXT_LEN_def RGUARD_PROTECT_EXT_MAX_def
  RGUARD_PROTECT_EXT_LEN_def RGUARD_PROTECT_EXT_HSIZE_def RGUARD_MONITOR_MAX_def
  RGUARD_MONITOR_PATH_LEN_def

record rguard_weights =
  w_modified :: int
  w_rename :: int
  w_delete :: int
  w_dirs :: int
  w_ext_change :: int
  w_ransom_ext :: int
  w_high_entropy :: int
  w_yara_match :: int

record rguard_thresholds =
  th_warn :: int
  th_high :: int
  th_critical :: int

record rguard_scoring =
  sc_window_short :: int
  sc_window_long :: int
  sc_cloud_window_short :: int
  sc_cloud_window_long :: int
  sc_weights :: rguard_weights
  sc_thresholds :: rguard_thresholds
  sc_entropy_threshold :: rat
  sc_entropy_enabled :: bool
  sc_yara_enabled :: bool

record rguard_whitelist =
  wl_users :: "string list"
  wl_user_hashes :: "u64 list"
  wl_ips :: "string list"
  wl_ip_hashes :: "u64 list"

record rguard_bl_ip =
  b_ip :: string
  b_auto_add :: bool

record rguard_blacklist =
  bl_users :: "string list"
  bl_user_hashes :: "u64 list"
  bl_ips :: "rguard_bl_ip list"
  bl_ip_hashes :: "u64 list"
  bl_auto_ips :: "rguard_bl_ip list"

record rguard_exceptions =
  ex_files :: "string list"
  ex_file_hashes :: "u64 list"
  ex_folders :: "string list"
  ex_folder_hashes :: "u64 list"

record rguard_space =
  sp_max_usage_percent :: int
  sp_cleanup_days :: int

record rguard_auto_restore =
  ar_enabled :: bool
  ar_delay_seconds :: int

record rguard_protection =
  pr_enabled :: bool
  pr_smb :: bool
  pr_cloud_sync :: bool
  pr_ftp :: bool
  pr_host :: bool

record rguard_file_extensions =
  fe_all :: bool
  fe_manual :: "string list"
  fe_manual_hashes :: "u64 list"

record rguard_policy =
  p_store_path :: string
  p_log_path :: string
  p_log_level :: string
  p_mode :: string
  p_scoring_config :: string
  p_ransom_extensions_config :: string
  p_ransom_exts :: "string list"
  p_scoring :: rguard_scoring
  p_exceptions :: rguard_exceptions
  p_whitelist :: rguard_whitelist
  p_blacklist :: rguard_blacklist
  p_space :: rguard_space
  p_auto_restore :: rguard_auto_restore
  p_protection :: rguard_protection
  p_file_ext :: rguard_file_extensions
  p_ftp_paths :: "string list"
  p_cloud_paths :: "string list"
  p_local_paths :: "string list"

definition apply_defaults :: rguard_policy where
  "apply_defaults =
    \<lparr>p_store_path = ''/var/lib/gf2000/rguard-store'', p_log_path = ''/var/log/gfrguard'',
     p_log_level = ''info'', p_mode = ''strict'', p_scoring_config = [],
     p_ransom_extensions_config = [], p_ransom_exts = [],
     p_scoring =
       \<lparr>sc_window_short = 10, sc_window_long = 30, sc_cloud_window_short = 60,
        sc_cloud_window_long = 180,
        sc_weights = \<lparr>w_modified = 3, w_rename = 4, w_delete = 3, w_dirs = 5, w_ext_change = 5,
          w_ransom_ext = 20, w_high_entropy = 8, w_yara_match = 40\<rparr>,
        sc_thresholds = \<lparr>th_warn = 30, th_high = 60, th_critical = 80\<rparr>,
        sc_entropy_threshold = 7, sc_entropy_enabled = True, sc_yara_enabled = True\<rparr>,
     p_exceptions = \<lparr>ex_files = [], ex_file_hashes = [], ex_folders = [], ex_folder_hashes = []\<rparr>,
     p_whitelist = \<lparr>wl_users = [], wl_user_hashes = [], wl_ips = [], wl_ip_hashes = []\<rparr>,
     p_blacklist = \<lparr>bl_users = [], bl_user_hashes = [], bl_ips = [], bl_ip_hashes = [],
       bl_auto_ips = []\<rparr>,
     p_space = \<lparr>sp_max_usage_percent = 80, sp_cleanup_days = 30\<rparr>,
     p_auto_restore = \<lparr>ar_enabled = True, ar_delay_seconds = 3\<rparr>,
     p_protection = \<lparr>pr_enabled = True, pr_smb = True, pr_cloud_sync = True, pr_ftp = True,
       pr_host = True\<rparr>,
     p_file_ext = \<lparr>fe_all = True, fe_manual = [],
       fe_manual_hashes = replicate RGUARD_PROTECT_EXT_HSIZE 0\<rparr>,
     p_ftp_paths = [], p_cloud_paths = [], p_local_paths = []\<rparr>"

subsection \<open>Reading the file\<close>

datatype file_kind = Regular_file | Directory | Other_file

text \<open>
  \<open>os_read\<close> gives the contents of a file that can be opened and read, \<open>os_stat\<close> the kind
  of an existing path, \<open>os_writable\<close> the answer of \<open>access(path, W_OK)\<close>.
\<close>

record config_os =
  os_read :: "string \<Rightarrow> string option"
  os_stat :: "string \<Rightarrow> file_kind option"
  os_writable :: "string \<Rightarrow> bool"

definition read_file :: "config_os \<Rightarrow> string \<Rightarrow> string option" where
  "read_file os path =
     (case os_read os path of
        None \<Rightarrow> None
      | Some text \<Rightarrow> if length text > 4 * 1024 * 1024 then None else Some text)"

definition dir_writable :: "config_os \<Rightarrow> string \<Rightarrow> int" where
  "dir_writable os path =
     (case os_stat os path of
        None \<Rightarrow> -1
      | Some k \<Rightarrow> if k \<noteq> Directory then -1 else if os_writable os path then 0 else -1)"

definition copy_string :: "nat \<Rightarrow> cjson option \<Rightarrow> string \<Rightarrow> string" where
  "copy_string dstlen node dst =
     (case json_string node of Some s \<Rightarrow> snprintf_s dstlen s | None \<Rightarrow> dst)"

fun copy_int :: "cjson option \<Rightarrow> int \<Rightarrow> int" where
  "copy_int (Some (CNumber d)) dst = json_valueint d"
| "copy_int _ dst = dst"

fun copy_double :: "cjson option \<Rightarrow> rat \<Rightarrow> rat" where
  "copy_double (Some (CNumber d)) dst = d"
| "copy_double _ dst = dst"

fun copy_bool :: "cjson option \<Rightarrow> bool \<Rightarrow> bool" where
  "copy_bool (Some CTrue) dst = True"
| "copy_bool (Some CFalse) dst = False"
| "copy_bool _ dst = dst"

definition if_object :: "cjson option \<Rightarrow> (cjson \<Rightarrow> 'a \<Rightarrow> 'a) \<Rightarrow> 'a \<Rightarrow> 'a" where
  "if_object node f x =
     (case node of Some j \<Rightarrow> if cJSON_IsObject node then f j x else x | None \<Rightarrow> x)"

text \<open>
  The copy loop \<open>for (i = 0; i < n && cnt < MAX; i++)\<close>: the entries an element yields, at
  most \<open>mx\<close> of them.
\<close>

fun load_list :: "nat \<Rightarrow> (cjson \<Rightarrow> 'a option) \<Rightarrow> cjson list \<Rightarrow> nat \<Rightarrow> 'a list" where
  "load_list mx f [] cnt = []"
| "load_list mx f (e # es) cnt =
     (if cnt < mx then
        (case f e of
           Some x \<Rightarrow> x # load_list mx f es (cnt + 1)
         | None \<Rightarrow> load_list mx f es cnt)
      else [])"

definition load_array :: "nat \<Rightarrow> (cjson \<Rightarrow> 'a option) \<Rightarrow> cjson option \<Rightarrow> 'a list \<Rightarrow> 'a list" where
  "load_array mx f node old =
     (case node of Some (CArray xs) \<Rightarrow> load_list mx f xs 0 | _ \<Rightarrow> old)"

definition load_string :: "nat \<Rightarrow> cjson \<Rightarrow> string option" where
  "load_string n e = map_option (snprintf_s n) (json_string (Some e))"

definition load_nonempty :: "nat \<Rightarrow> cjson \<Rightarrow> string option" where
  "load_nonempty n e =
     (case json_string (Some e) of
        Some s \<Rightarrow> if s = [] then None else Some (snprintf_s n s)
      | None \<Rightarrow> None)"

lemma load_list_take:
  "load_list mx f es cnt = take (mx - cnt) (List.map_filter f es)"
  by (induction mx f es cnt rule: load_list.induct)
    (auto simp: map_filter_simps take_Cons' Suc_diff_Suc split: option.splits)

lemma length_load_array:
  "length old \<le> mx \<Longrightarrow> length (load_array mx f node old) \<le> mx"
  by (auto simp: load_array_def load_list_take split: option.splits cjson.splits)

subsection \<open>Loading the policy\<close>

abbreviation item :: "cjson \<Rightarrow> string \<Rightarrow> cjson option" where
  "item \<equiv> cJSON_GetObjectItem"

definition load_strings :: "cjson \<Rightarrow> rguard_policy \<Rightarrow> rguard_policy" where
  "load_strings doc p =
     p\<lparr>p_store_path := copy_string 256 (item doc ''store_path'') (p_store_path p),
       p_log_path := copy_string 256 (item doc ''log_path'') (p_log_path p),
       p_log_level := copy_string 16 (item doc ''log_level'') (p_log_level p),
       p_mode := copy_string 16 (item doc ''mode'') (p_mode p),
       p_scoring_config := copy_string 256 (item doc ''scoring_config'') (p_scoring_config p)\<rparr>"

text \<open>The scoring object: the external file when it parses, else the inline object.\<close>

definition scoring_node ::
  "config_os \<Rightarrow> (string \<Rightarrow> cjson option) \<Rightarrow> cjson \<Rightarrow> rguard_policy \<Rightarrow> cjson option" where
  "scoring_node os parse doc p =
     (let ext = (if p_scoring_config p \<noteq> []
                 then (case read_file os (p_scoring_config p) of
                         Some t \<Rightarrow> parse (cstr_of t) | None \<Rightarrow> None)
                 else None)
      in case ext of Some j \<Rightarrow> Some j | None \<Rightarrow> item doc ''scoring'')"

definition load_weights :: "cjson \<Rightarrow> rguard_weights \<Rightarrow> rguard_weights" where
  "load_weights w wt =
     \<lparr>w_modified = copy_int (item w ''modified'') (w_modified wt),
      w_rename = copy_int (item w ''rename'') (w_rename wt),
      w_delete = copy_int (item w ''delete'') (w_delete wt),
      w_dirs = copy_int (item w ''dirs'') (w_dirs wt),
      w_ext_change = copy_int (item w ''ext_change'') (w_ext_change wt),
      w_ransom_ext = copy_int (item w ''ransom_ext'') (w_ransom_ext wt),
      w_high_entropy = copy_int (item w ''high_entropy'') (w_high_entropy wt),
      w_yara_match = copy_int (item w ''yara_match'') (w_yara_match wt)\<rparr>"

definition load_thresholds :: "cjson \<Rightarrow> rguard_thresholds \<Rightarrow> rguard_thresholds" where
  "load_thresholds t th =
     \<lparr>th_warn = copy_int (item t ''warn'') (th_warn th),
      th_high = copy_int (item t ''high'') (th_high th),
      th_critical = copy_int (item t ''critical'') (th_critical th)\<rparr>"

definition load_cloud_windows :: "cjson \<Rightarrow> rguard_scoring \<Rightarrow> rguard_scoring" where
  "load_cloud_windows cs sc =
     sc\<lparr>sc_cloud_window_short := copy_int (item cs ''window_short'') (sc_cloud_window_short sc),
        sc_cloud_window_long := copy_int (item cs ''window_long'') (sc_cloud_window_long sc)\<rparr>"

definition load_scoring :: "cjson \<Rightarrow> rguard_scoring \<Rightarrow> rguard_scoring" where
  "load_scoring j sc =
     (let sc1 = sc\<lparr>sc_window_short := copy_int (item j ''window_short'') (sc_window_short sc),
                   sc_window_long := copy_int (item j ''window_long'') (sc_window_long sc)\<rparr>;
          sc2 = if_object (item j ''cloud_sync'') load_cloud_windows sc1
      in sc2\<lparr>sc_weights := if_object (item j ''weights'') load_weights (sc_weights sc2),
             sc_thresholds := if_object (item j ''thresholds'') load_thresholds (sc_thresholds sc2),
             sc_entropy_threshold := copy_double (item j ''entropy_threshold'') (sc_entropy_threshold sc2),
             sc_entropy_enabled := copy_bool (item j ''entropy_enabled'') (sc_entropy_enabled sc2),
             sc_yara_enabled := copy_bool (item j ''yara_enabled'') (sc_yara_enabled sc2)\<rparr>)"

definition load_whitelist :: "cjson \<Rightarrow> rguard_whitelist \<Rightarrow> rguard_whitelist" where
  "load_whitelist wl w =
     w\<lparr>wl_users := load_array RGUARD_WHITELIST_MAX (load_string RGUARD_USER_LEN) (item wl ''users'') (wl_users w),
       wl_ips := load_array RGUARD_WHITELIST_MAX (load_string RGUARD_IP_LEN) (item wl ''ips'') (wl_ips w)\<rparr>"

text \<open>A string, or an object with the member \<open>ip\<close> and the flag \<open>auto_add\<close>.\<close>

definition load_bl_ip :: "cjson \<Rightarrow> rguard_bl_ip option" where
  "load_bl_ip e =
     (case json_string (Some e) of
        Some s \<Rightarrow> Some \<lparr>b_ip = snprintf_s RGUARD_IP_LEN s, b_auto_add = False\<rparr>
      | None \<Rightarrow>
          if cJSON_IsObject (Some e) then
            (case json_string (item e ''ip'') of
               Some s \<Rightarrow> Some \<lparr>b_ip = snprintf_s RGUARD_IP_LEN s,
                                b_auto_add = cJSON_IsTrue (item e ''auto_add'')\<rparr>
             | None \<Rightarrow> None)
          else None)"

definition load_blacklist :: "cjson \<Rightarrow> rguard_blacklist \<Rightarrow> rguard_blacklist" where
  "load_blacklist bl b =
     b\<lparr>bl_users := load_array RGUARD_WHITELIST_MAX (load_string RGUARD_USER_LEN) (item bl ''users'') (bl_users b),
       bl_ips := load_array RGUARD_WHITELIST_MAX load_bl_ip (item bl ''ips'') (bl_ips b)\<rparr>"

definition load_exceptions :: "cjson \<Rightarrow> rguard_exceptions \<Rightarrow> rguard_exceptions" where
  "load_exceptions ex e =
     e\<lparr>ex_files := load_array RGUARD_EXCEPTION_MAX (load_string RGUARD_EXCEPTION_PATH_LEN)
         (item ex ''files'') (ex_files e),
       ex_folders := load_array RGUARD_EXCEPTION_MAX (load_string RGUARD_EXCEPTION_PATH_LEN)
         (item ex ''folders'') (ex_folders e)\<rparr>"

text \<open>The extensions of the external file, else those of the inline array.\<close>

definition load_ransom_exts ::
  "config_os \<Rightarrow> (string \<Rightarrow> cjson option) \<Rightarrow> cjson \<Rightarrow> rguard_policy \<Rightarrow> rguard_policy" where
  "load_ransom_exts os parse doc p =
     (let cfg = copy_string 256 (item doc ''ransom_extensions_config'') (p_ransom_extensions_config p);
          rroot = (if cfg \<noteq> []
                   then (case read_file os cfg of Some t \<Rightarrow> parse (cstr_of t) | None \<Rightarrow> None)
                   else None);
          ld = load_array RGUARD_RANSOM_EXT_MAX (load_nonempty RGUARD_RANSOM_EXT_LEN);
          exts = (case rroot of Some r \<Rightarrow> ld (item r ''extensions'') (p_ransom_exts p)
                  | None \<Rightarrow> p_ransom_exts p);
          exts' = (if exts = [] then ld (item doc ''ransom_extensions'') exts else exts)
      in p\<lparr>p_ransom_extensions_config := cfg, p_ransom_exts := exts'\<rparr>)"

definition load_space :: "cjson \<Rightarrow> rguard_space \<Rightarrow> rguard_space" where
  "load_space sp s =
     \<lparr>sp_max_usage_percent = copy_int (item sp ''max_usage_percent'') (sp_max_usage_percent s),
      sp_cleanup_days = copy_int (item sp ''cleanup_days'') (sp_cleanup_days s)\<rparr>"

definition load_auto_restore :: "cjson \<Rightarrow> rguard_auto_restore \<Rightarrow> rguard_auto_restore" where
  "load_auto_restore ar a =
     \<lparr>ar_enabled = copy_bool (item ar ''enabled'') (ar_enabled a),
      ar_delay_seconds = copy_int (item ar ''delay_seconds'') (ar_delay_seconds a)\<rparr>"

definition load_protection :: "cjson \<Rightarrow> rguard_protection \<Rightarrow> rguard_protection" where
  "load_protection pr q =
     \<lparr>pr_enabled = copy_bool (item pr ''enabled'') (pr_enabled q),
      pr_smb = copy_bool (item pr ''smb'') (pr_smb q),
      pr_cloud_sync = copy_bool (item pr ''cloud_sync'') (pr_cloud_sync q),
      pr_ftp = copy_bool (item pr ''ftp'') (pr_ftp q),
      pr_host = copy_bool (item pr ''host'') (pr_host q)\<rparr>"

definition load_file_ext :: "cjson \<Rightarrow> rguard_file_extensions \<Rightarrow> rguard_file_extensions" where
  "load_file_ext fe f =
     f\<lparr>fe_all := copy_bool (item fe ''all'') (fe_all f),
       fe_manual := load_array RGUARD_PROTECT_EXT_MAX (load_nonempty RGUARD_PROTECT_EXT_LEN)
         (item fe ''manual'') (fe_manual f)\<rparr>"

definition load_monitor_paths :: "cjson \<Rightarrow> rguard_policy \<Rightarrow> rguard_policy" where
  "load_monitor_paths mp p =
     (let ld = load_array RGUARD_MONITOR_MAX (load_string RGUARD_MONITOR_PATH_LEN)
      in p\<lparr>p_ftp_paths := ld (item mp ''ftp'') (p_ftp_paths p),
           p_cloud_paths := ld (item mp ''cloud_sync'') (p_cloud_paths p),
           p_local_paths := ld (item mp ''local'') (p_local_paths p)\<rparr>)"

text \<open>
  The open-addressing set of extension hashes. The probing loop has no bound of its own: a
  probe that never returns is \<open>None\<close>.
\<close>

partial_function (option) ext_probe :: "u64 list \<Rightarrow> u64 \<Rightarrow> nat \<Rightarrow> nat option" where
  "ext_probe slots h idx =
     (if slots ! idx \<noteq> 0 then
        (if slots ! idx = h then Some idx
         else ext_probe slots h ((idx + 1) mod RGUARD_PROTECT_EXT_HSIZE))
      else Some idx)"

definition ext_hash :: "string \<Rightarrow> u64" where
  "ext_hash s = (let h = rguard_fnv1a64 s in if h = 0 then 1 else h)"

fun ext_insert_all :: "string list \<Rightarrow> u64 list \<Rightarrow> u64 list option" where
  "ext_insert_all [] slots = Some slots"
| "ext_insert_all (e # es) slots =
     (let h = ext_hash e in
      case ext_probe slots h (unat (h mod of_nat RGUARD_PROTECT_EXT_HSIZE)) of
        Some idx \<Rightarrow> ext_insert_all es (slots[idx := h])
      | None \<Rightarrow> None)"

definition build_ext_set :: "rguard_file_extensions \<Rightarrow> rguard_file_extensions option" where
  "build_ext_set f =
     (if \<not> fe_all f \<and> fe_manual f \<noteq> []
      then map_option (\<lambda>slots. f\<lparr>fe_manual_hashes := slots\<rparr>)
             (ext_insert_all (fe_manual f) (replicate RGUARD_PROTECT_EXT_HSIZE 0))
      else Some f)"

text \<open>Hashing and sorting the exact-match lists.\<close>

definition hash_lists :: "rguard_policy \<Rightarrow> rguard_policy" where
  "hash_lists p =
     (let ex = p_exceptions p; wl = p_whitelist p; bl = p_blacklist p;
          (fh, fs) = SORT_BY_HASH (map rguard_fnv1a64 (ex_files ex)) (ex_files ex) (length (ex_files ex));
          (dh, ds) = SORT_BY_HASH (map rguard_fnv1a64 (ex_folders ex)) (ex_folders ex) (length (ex_folders ex));
          (uh, us) = SORT_BY_HASH (map rguard_fnv1a64 (wl_users wl)) (wl_users wl) (length (wl_users wl));
          (ih, is) = SORT_BY_HASH (map rguard_fnv1a64 (wl_ips wl)) (wl_ips wl) (length (wl_ips wl));
          (buh, bus) = SORT_BY_HASH (map rguard_fnv1a64 (bl_users bl)) (bl_users bl) (length (bl_users bl));
          (bih, bis) = SORT_BY_HASH (map (rguard_fnv1a64 \<circ> b_ip) (bl_ips bl)) (bl_ips bl) (length (bl_ips bl))
      in p\<lparr>p_exceptions := \<lparr>ex_files = fs, ex_file_hashes = fh, ex_folders = ds, ex_folder_hashes = dh\<rparr>,
           p_whitelist := \<lparr>wl_users = us, wl_user_hashes = uh, wl_ips = is, wl_ip_hashes = ih\<rparr>,
           p_blacklist := \<lparr>bl_users = bus, bl_user_hashes = buh, bl_ips = bis, bl_ip_hashes = bih,
             bl_auto_ips = bl_auto_ips bl\<rparr>\<rparr>)"

definition log_path_ok :: "config_os \<Rightarrow> string \<Rightarrow> bool" where
  "log_path_ok os path =
     (if path = [] then True
      else case os_stat os path of
        None \<Rightarrow>
          (let tmp = snprintf_s 256 path in
           case strrchr tmp CHR ''/'' of
             None \<Rightarrow> True
           | Some slash \<Rightarrow>
               (let n = length tmp - length slash in
                if n = 0 then True else dir_writable os (take n tmp) = 0))
      | Some k \<Rightarrow> k = Directory \<and> os_writable os path)"

definition thresholds_ok :: "rguard_thresholds \<Rightarrow> bool" where
  "thresholds_ok t \<longleftrightarrow>
     (let w = th_warn t; h = th_high t; c = th_critical t in 1 \<le> w \<and> w < h \<and> h < c \<and> c \<le> 100)"

definition weights_ok :: "rguard_weights \<Rightarrow> bool" where
  "weights_ok w \<longleftrightarrow>
     \<not> (w_modified w < 0 \<or> w_rename w < 0 \<or> w_delete w < 0 \<or> w_dirs w < 0 \<or> w_ext_change w < 0 \<or>
        w_ransom_ext w < 0 \<or> w_high_entropy w < 0 \<or> w_yara_match w < 0)"

definition policy_validate :: "config_os \<Rightarrow> rguard_policy \<Rightarrow> rguard_error" where
  "policy_validate os p =
     (let sc = p_scoring p in
      if dir_writable os (p_store_path p) \<noteq> 0 then RGUARD_ERR_CONFIG
      else if \<not> log_path_ok os (p_log_path p) then RGUARD_ERR_CONFIG
      else if \<not> thresholds_ok (sc_thresholds sc) then RGUARD_ERR_CONFIG
      else if p_mode p \<noteq> ''strict'' \<and> p_mode p \<noteq> ''permissive'' then RGUARD_ERR_CONFIG
      else if \<not> weights_ok (sc_weights sc) then RGUARD_ERR_CONFIG
      else if sc_window_short sc \<le> 0 \<or> sc_window_long sc \<le> 0 \<or>
              sc_cloud_window_short sc \<le> 0 \<or> sc_cloud_window_long sc \<le> 0 then RGUARD_ERR_CONFIG
      else if sc_entropy_threshold sc < 0 \<or> sc_entropy_threshold sc > 8 then RGUARD_ERR_CONFIG
      else if sp_max_usage_percent (p_space p) \<le> 0 \<or> sp_max_usage_percent (p_space p) > 100
      then RGUARD_ERR_CONFIG
      else if sp_cleanup_days (p_space p) \<le> 0 then RGUARD_ERR_CONFIG
      else if ar_delay_seconds (p_auto_restore p) < 0 then RGUARD_ERR_CONFIG
      else RGUARD_OK)"

definition load_root ::
  "config_os \<Rightarrow> (string \<Rightarrow> cjson option) \<Rightarrow> cjson \<Rightarrow> rguard_policy \<Rightarrow> rguard_policy" where
  "load_root os parse doc p0 =
     (let p1 = load_strings doc p0;
          p2 = p1\<lparr>p_scoring := if_object (scoring_node os parse doc p1) load_scoring (p_scoring p1)\<rparr>;
          p3 = p2\<lparr>p_whitelist := if_object (item doc ''whitelist'') load_whitelist (p_whitelist p2)\<rparr>;
          p4 = p3\<lparr>p_blacklist := if_object (item doc ''blacklist'') load_blacklist (p_blacklist p3)\<rparr>;
          p5 = p4\<lparr>p_exceptions := if_object (item doc ''exceptions'') load_exceptions (p_exceptions p4)\<rparr>;
          p6 = load_ransom_exts os parse doc p5
      in p6\<lparr>p_space := if_object (item doc ''space'') load_space (p_space p6),
            p_auto_restore := if_object (item doc ''auto_restore'') load_auto_restore (p_auto_restore p6),
            p_protection := if_object (item doc ''protection'') load_protection (p_protection p6),
            p_file_ext := if_object (item doc ''file_extensions'') load_file_ext (p_file_ext p6)\<rparr>)"

text \<open>The code and the policy left in \<open>*out\<close>; \<open>None\<close> if the call never returns.\<close>

definition config_load ::
  "config_os \<Rightarrow> (string \<Rightarrow> cjson option) \<Rightarrow> string \<Rightarrow> (rguard_error \<times> rguard_policy) option" where
  "config_load os parse path =
     (case read_file os path of
        None \<Rightarrow> Some (RGUARD_ERR_CONFIG, apply_defaults)
      | Some text \<Rightarrow>
          (case parse (cstr_of text) of
             None \<Rightarrow> Some (RGUARD_ERR_CONFIG, apply_defaults)
           | Some doc \<Rightarrow>
               (let p = load_root os parse doc apply_defaults in
                case build_ext_set (p_file_ext p) of
                  None \<Rightarrow> None
                | Some fe \<Rightarrow>
                    (let p' = hash_lists (if_object (item doc ''monitor_path'') load_monitor_paths
                                            (p\<lparr>p_file_ext := fe\<rparr>))
                     in Some (policy_validate os p', p')))))"

subsection \<open>The extension set\<close>

definition free_slots :: "u64 list \<Rightarrow> nat" where
  "free_slots slots = length (filter (\<lambda>h. h = 0) slots)"

lemma ext_probe_finds:
  assumes "slots ! ((idx + k) mod RGUARD_PROTECT_EXT_HSIZE) = 0" and "idx < RGUARD_PROTECT_EXT_HSIZE"
  shows "\<exists>j < RGUARD_PROTECT_EXT_HSIZE. ext_probe slots h idx = Some j \<and> (slots ! j = 0 \<or> slots ! j = h)"
  using assms
proof (induction k arbitrary: idx)
  case 0
  then show ?case by (subst ext_probe.simps) auto
next
  case (Suc k)
  let ?next = "(idx + 1) mod RGUARD_PROTECT_EXT_HSIZE"
  have "slots ! ((?next + k) mod RGUARD_PROTECT_EXT_HSIZE) = 0"
    using Suc.prems(1) by (simp add: mod_simps)
  moreover have "?next < RGUARD_PROTECT_EXT_HSIZE" by (simp add: config_limits)
  ultimately obtain j where "j < RGUARD_PROTECT_EXT_HSIZE" "ext_probe slots h ?next = Some j"
    "slots ! j = 0 \<or> slots ! j = h"
    using Suc.IH by blast
  then show ?case using Suc.prems(2) by (subst ext_probe.simps) auto
qed

lemma ext_probe_free:
  assumes "length slots = RGUARD_PROTECT_EXT_HSIZE" and "free_slots slots > 0"
    and "idx < RGUARD_PROTECT_EXT_HSIZE"
  shows "\<exists>j < RGUARD_PROTECT_EXT_HSIZE. ext_probe slots h idx = Some j \<and> (slots ! j = 0 \<or> slots ! j = h)"
proof -
  from assms(2) obtain i where i: "i < length slots" "slots ! i = 0"
    by (auto simp: free_slots_def filter_empty_conv in_set_conv_nth)
  then have "(idx + (i + RGUARD_PROTECT_EXT_HSIZE - idx)) mod RGUARD_PROTECT_EXT_HSIZE = i"
    using assms(1,3) by simp
  with i(2) have "slots ! ((idx + (i + RGUARD_PROTECT_EXT_HSIZE - idx)) mod RGUARD_PROTECT_EXT_HSIZE) = 0"
    by simp
  then show ?thesis by (rule ext_probe_finds) (rule assms(3))
qed

lemma ext_hash_nonzero [simp]: "ext_hash s \<noteq> 0"
  by (simp add: ext_hash_def Let_def)

lemma ext_insert_all_total:
  assumes "length slots = RGUARD_PROTECT_EXT_HSIZE" and "length es < free_slots slots"
  shows "\<exists>slots'. ext_insert_all es slots = Some slots' \<and> length slots' = RGUARD_PROTECT_EXT_HSIZE \<and>
    set slots' - {0} = (set slots - {0}) \<union> ext_hash ` set es"
  using assms
proof (induction es arbitrary: slots)
  case (Cons e es)
  let ?h = "ext_hash e" and ?i = "unat (ext_hash e mod of_nat RGUARD_PROTECT_EXT_HSIZE)"
  have "?i < RGUARD_PROTECT_EXT_HSIZE"
    by (simp add: config_limits unat_mod)
  with ext_probe_free [OF Cons.prems(1), of ?i ?h] Cons.prems(2)
  obtain j where j: "j < RGUARD_PROTECT_EXT_HSIZE" "ext_probe slots ?h ?i = Some j"
    "slots ! j = 0 \<or> slots ! j = ?h" by auto
  let ?slots = "slots[j := ?h]"
  have jl: "j < length slots" using j(1) Cons.prems(1) by simp
  have free: "free_slots slots \<le> Suc (free_slots ?slots)"
    using length_filter_update [OF jl, of "\<lambda>h. h = 0" ?h]
    by (auto simp: free_slots_def split: if_splits)
  have "set ?slots - {0} = insert ?h (set slots - {0})"
  proof (cases "slots ! j = ?h")
    case True
    with jl have "?slots = slots" "?h \<in> set slots" by (auto simp: list_update_same_conv dest: nth_mem)
    then show ?thesis by auto
  next
    case False
    with j(3) have z: "slots ! j = 0" by simp
    have "set slots = set (take j slots) \<union> {0} \<union> set (drop (Suc j) slots)"
      by (subst id_take_nth_drop [OF jl]) (auto simp: z)
    moreover have "set ?slots = set (take j slots) \<union> {?h} \<union> set (drop (Suc j) slots)"
      using jl by (simp add: list_update_split)
    ultimately show ?thesis by auto
  qed
  moreover obtain slots' where "ext_insert_all es ?slots = Some slots'"
    "length slots' = RGUARD_PROTECT_EXT_HSIZE"
    "set slots' - {0} = (set ?slots - {0}) \<union> ext_hash ` set es"
    using Cons.IH [of ?slots] Cons.prems free by auto
  ultimately show ?case using j(2) by (auto simp: Let_def)
qed simp

text \<open>
  C26: The set of protected extensions is built in bounded time and holds exactly the hashes
  of the extensions: although the probing loop has no bound of its own, with at most 128
  entries in 257 slots every insertion returns.
\<close>

theorem ext_set_exact:
  assumes "length (fe_manual f) \<le> RGUARD_PROTECT_EXT_MAX" and "\<not> fe_all f" and "fe_manual f \<noteq> []"
  shows "\<exists>f'. build_ext_set f = Some f' \<and> fe_manual f' = fe_manual f \<and>
    length (fe_manual_hashes f') = RGUARD_PROTECT_EXT_HSIZE \<and>
    set (fe_manual_hashes f') - {0} = ext_hash ` set (fe_manual f)"
  using ext_insert_all_total [of "replicate RGUARD_PROTECT_EXT_HSIZE 0" "fe_manual f"] assms
  by (auto simp: build_ext_set_def free_slots_def config_limits)

theorem ext_set_exact_witness:
  "\<exists>f'. build_ext_set \<lparr>fe_all = False, fe_manual = [''.doc'', ''.xls'', ''.doc''], fe_manual_hashes = []\<rparr>
      = Some f' \<and> set (fe_manual_hashes f') - {0} = {ext_hash ''.doc'', ext_hash ''.xls''}"
proof -
  let ?f = "\<lparr>fe_all = False, fe_manual = [''.doc'', ''.xls'', ''.doc''], fe_manual_hashes = []\<rparr>"
  have "length (fe_manual ?f) \<le> RGUARD_PROTECT_EXT_MAX" "\<not> fe_all ?f" "fe_manual ?f \<noteq> []"
    by (simp_all add: config_limits)
  from ext_set_exact [OF this] show ?thesis by auto
qed

subsection \<open>What a loaded policy satisfies\<close>

definition strs_fit :: "nat \<Rightarrow> nat \<Rightarrow> string list \<Rightarrow> bool" where
  "strs_fit mx n xs \<longleftrightarrow> length xs \<le> mx \<and> (\<forall>s \<in> set xs. length s < n)"

definition lists_fit :: "rguard_policy \<Rightarrow> bool" where
  "lists_fit p \<longleftrightarrow>
     strs_fit RGUARD_WHITELIST_MAX RGUARD_USER_LEN (wl_users (p_whitelist p)) \<and>
     strs_fit RGUARD_WHITELIST_MAX RGUARD_IP_LEN (wl_ips (p_whitelist p)) \<and>
     strs_fit RGUARD_WHITELIST_MAX RGUARD_USER_LEN (bl_users (p_blacklist p)) \<and>
     strs_fit RGUARD_WHITELIST_MAX RGUARD_IP_LEN (map b_ip (bl_ips (p_blacklist p))) \<and>
     strs_fit RGUARD_EXCEPTION_MAX RGUARD_EXCEPTION_PATH_LEN (ex_files (p_exceptions p)) \<and>
     strs_fit RGUARD_EXCEPTION_MAX RGUARD_EXCEPTION_PATH_LEN (ex_folders (p_exceptions p)) \<and>
     strs_fit RGUARD_RANSOM_EXT_MAX RGUARD_RANSOM_EXT_LEN (p_ransom_exts p) \<and>
     strs_fit RGUARD_PROTECT_EXT_MAX RGUARD_PROTECT_EXT_LEN (fe_manual (p_file_ext p)) \<and>
     strs_fit RGUARD_MONITOR_MAX RGUARD_MONITOR_PATH_LEN (p_ftp_paths p) \<and>
     strs_fit RGUARD_MONITOR_MAX RGUARD_MONITOR_PATH_LEN (p_cloud_paths p) \<and>
     strs_fit RGUARD_MONITOR_MAX RGUARD_MONITOR_PATH_LEN (p_local_paths p)"

definition mirrors_ok :: "rguard_policy \<Rightarrow> bool" where
  "mirrors_ok p \<longleftrightarrow>
     hash_mirror (ex_file_hashes (p_exceptions p)) (ex_files (p_exceptions p)) \<and>
     hash_mirror (ex_folder_hashes (p_exceptions p)) (ex_folders (p_exceptions p)) \<and>
     hash_mirror (wl_user_hashes (p_whitelist p)) (wl_users (p_whitelist p)) \<and>
     hash_mirror (wl_ip_hashes (p_whitelist p)) (wl_ips (p_whitelist p)) \<and>
     hash_mirror (bl_user_hashes (p_blacklist p)) (bl_users (p_blacklist p)) \<and>
     hash_mirror (bl_ip_hashes (p_blacklist p)) (map b_ip (bl_ips (p_blacklist p)))"

definition ranges_ok :: "rguard_policy \<Rightarrow> bool" where
  "ranges_ok p \<longleftrightarrow>
     (let sc = p_scoring p; th = sc_thresholds sc; w = sc_weights sc in
      1 \<le> th_warn th \<and> th_warn th < th_high th \<and> th_high th < th_critical th \<and> th_critical th \<le> 100 \<and>
      0 \<le> w_modified w \<and> 0 \<le> w_rename w \<and> 0 \<le> w_delete w \<and> 0 \<le> w_dirs w \<and> 0 \<le> w_ext_change w \<and>
      0 \<le> w_ransom_ext w \<and> 0 \<le> w_high_entropy w \<and> 0 \<le> w_yara_match w \<and>
      0 < sc_window_short sc \<and> 0 < sc_window_long sc \<and>
      0 < sc_cloud_window_short sc \<and> 0 < sc_cloud_window_long sc \<and>
      0 \<le> sc_entropy_threshold sc \<and> sc_entropy_threshold sc \<le> 8 \<and>
      0 < sp_max_usage_percent (p_space p) \<and> sp_max_usage_percent (p_space p) \<le> 100 \<and>
      0 < sp_cleanup_days (p_space p) \<and> 0 \<le> ar_delay_seconds (p_auto_restore p) \<and>
      p_mode p \<in> {''strict'', ''permissive''})"

lemma validate_ranges: "policy_validate os p = RGUARD_OK \<Longrightarrow> ranges_ok p"
  by (auto simp: policy_validate_def ranges_ok_def thresholds_ok_def weights_ok_def Let_def
      split: if_splits)

lemma load_string_fits: "load_string n e = Some s \<Longrightarrow> 0 < n \<Longrightarrow> length s < n"
  by (auto simp: load_string_def length_snprintf_s)

lemma load_nonempty_fits: "load_nonempty n e = Some s \<Longrightarrow> 0 < n \<Longrightarrow> length s < n"
  by (auto simp: load_nonempty_def length_snprintf_s split: option.splits if_splits)

lemma load_bl_ip_fits: "load_bl_ip e = Some b \<Longrightarrow> length (b_ip b) < RGUARD_IP_LEN"
  by (auto simp: load_bl_ip_def length_snprintf_s config_limits split: option.splits if_splits)

lemma set_map_filter_Some: "x \<in> set (List.map_filter f es) \<longleftrightarrow> (\<exists>e \<in> set es. f e = Some x)"
  by (induction es) (auto simp: map_filter_simps split: option.splits)

lemma load_array_fits:
  assumes "strs_fit mx n (map g old)" and "\<And>e x. f e = Some x \<Longrightarrow> length (g x) < n"
  shows "strs_fit mx n (map g (load_array mx f node old))"
  using assms set_map_filter_Some [of _ f]
  by (fastforce simp: load_array_def load_list_take strs_fit_def split: option.splits cjson.splits
      dest: in_set_takeD)

lemmas load_array_fits_id = load_array_fits [where g = id, simplified]

lemma if_object_inv: "P x \<Longrightarrow> (\<And>j y. P y \<Longrightarrow> P (f j y)) \<Longrightarrow> P (if_object node f x)"
  by (simp add: if_object_def split: option.splits)

named_theorems fits_intros \<open>lists that fit their arrays\<close>

lemma load_strings_fit [fits_intros]:
  "strs_fit mx n old \<Longrightarrow> 0 < n \<Longrightarrow> strs_fit mx n (load_array mx (load_string n) node old)"
  by (rule load_array_fits_id) (auto intro: load_string_fits)

lemma load_nonempties_fit [fits_intros]:
  "strs_fit mx n old \<Longrightarrow> 0 < n \<Longrightarrow> strs_fit mx n (load_array mx (load_nonempty n) node old)"
  by (rule load_array_fits_id) (auto intro: load_nonempty_fits)

lemma load_bl_ips_fit [fits_intros]:
  "strs_fit mx RGUARD_IP_LEN (map b_ip old) \<Longrightarrow>
     strs_fit mx RGUARD_IP_LEN (map b_ip (load_array mx load_bl_ip node old))"
  by (rule load_array_fits) (auto intro: load_bl_ip_fits)

lemma limits_pos [simp]:
  "0 < RGUARD_USER_LEN" "0 < RGUARD_IP_LEN" "0 < RGUARD_EXCEPTION_PATH_LEN" "0 < RGUARD_RANSOM_EXT_LEN"
  "0 < RGUARD_PROTECT_EXT_LEN" "0 < RGUARD_MONITOR_PATH_LEN"
  by (simp_all add: config_limits)

lemma load_whitelist_fit [fits_intros]:
  "strs_fit RGUARD_WHITELIST_MAX RGUARD_USER_LEN (wl_users w) \<Longrightarrow>
     strs_fit RGUARD_WHITELIST_MAX RGUARD_USER_LEN (wl_users (if_object node load_whitelist w))"
  "strs_fit RGUARD_WHITELIST_MAX RGUARD_IP_LEN (wl_ips w) \<Longrightarrow>
     strs_fit RGUARD_WHITELIST_MAX RGUARD_IP_LEN (wl_ips (if_object node load_whitelist w))"
  by (erule if_object_inv, simp add: load_whitelist_def fits_intros)+

lemma load_blacklist_fit [fits_intros]:
  "strs_fit RGUARD_WHITELIST_MAX RGUARD_USER_LEN (bl_users b) \<Longrightarrow>
     strs_fit RGUARD_WHITELIST_MAX RGUARD_USER_LEN (bl_users (if_object node load_blacklist b))"
  "strs_fit RGUARD_WHITELIST_MAX RGUARD_IP_LEN (map b_ip (bl_ips b)) \<Longrightarrow>
     strs_fit RGUARD_WHITELIST_MAX RGUARD_IP_LEN (map b_ip (bl_ips (if_object node load_blacklist b)))"
  by (erule if_object_inv, simp add: load_blacklist_def fits_intros)+

lemma load_exceptions_fit [fits_intros]:
  "strs_fit RGUARD_EXCEPTION_MAX RGUARD_EXCEPTION_PATH_LEN (ex_files e) \<Longrightarrow>
     strs_fit RGUARD_EXCEPTION_MAX RGUARD_EXCEPTION_PATH_LEN (ex_files (if_object node load_exceptions e))"
  "strs_fit RGUARD_EXCEPTION_MAX RGUARD_EXCEPTION_PATH_LEN (ex_folders e) \<Longrightarrow>
     strs_fit RGUARD_EXCEPTION_MAX RGUARD_EXCEPTION_PATH_LEN (ex_folders (if_object node load_exceptions e))"
  by (erule if_object_inv, simp add: load_exceptions_def fits_intros)+

lemma load_file_ext_fit [fits_intros]:
  "strs_fit RGUARD_PROTECT_EXT_MAX RGUARD_PROTECT_EXT_LEN (fe_manual e) \<Longrightarrow>
     strs_fit RGUARD_PROTECT_EXT_MAX RGUARD_PROTECT_EXT_LEN (fe_manual (if_object node load_file_ext e))"
  by (erule if_object_inv) (simp add: load_file_ext_def fits_intros)

lemma load_monitor_fit:
  "lists_fit p \<Longrightarrow> lists_fit (if_object node load_monitor_paths p)"
  by (erule if_object_inv) (simp add: load_monitor_paths_def lists_fit_def fits_intros Let_def)

lemma strs_fit_Nil [simp]: "strs_fit mx n []"
  by (simp add: strs_fit_def)

lemma load_ransom_fit:
  "lists_fit p \<Longrightarrow> lists_fit (load_ransom_exts os parse doc p)"
  by (simp add: load_ransom_exts_def lists_fit_def Let_def fits_intros split: option.splits)

lemma load_root_fit:
  assumes "lists_fit p"
  shows "lists_fit (load_root os parse doc p)"
proof -
  define p5 where "p5 = (let p1 = load_strings doc p;
          p2 = p1\<lparr>p_scoring := if_object (scoring_node os parse doc p1) load_scoring (p_scoring p1)\<rparr>;
          p3 = p2\<lparr>p_whitelist := if_object (item doc ''whitelist'') load_whitelist (p_whitelist p2)\<rparr>;
          p4 = p3\<lparr>p_blacklist := if_object (item doc ''blacklist'') load_blacklist (p_blacklist p3)\<rparr>
      in p4\<lparr>p_exceptions := if_object (item doc ''exceptions'') load_exceptions (p_exceptions p4)\<rparr>)"
  have "lists_fit p5"
    using assms by (simp add: p5_def Let_def lists_fit_def load_strings_def fits_intros)
  then have "lists_fit (load_ransom_exts os parse doc p5)" by (rule load_ransom_fit)
  then show ?thesis
    unfolding load_root_def Let_def p5_def
    by (simp add: lists_fit_def fits_intros)
qed

lemma defaults_fit: "lists_fit apply_defaults"
  by (simp add: lists_fit_def apply_defaults_def strs_fit_def)

lemma strs_fit_mset: "mset xs = mset ys \<Longrightarrow> strs_fit mx n xs = strs_fit mx n ys"
  by (metis strs_fit_def mset_eq_setD mset_eq_length)

lemma hash_lists_ok:
  "mirrors_ok (hash_lists p) \<and> (lists_fit (hash_lists p) \<longleftrightarrow> lists_fit p)"
proof -
  let ?sort = "\<lambda>xs. SORT_BY_HASH (map rguard_fnv1a64 xs) xs (length xs)"
  let ?bips = "bl_ips (p_blacklist p)"
  have m: "hash_mirror (fst (?sort xs)) (snd (?sort xs))" "mset (snd (?sort xs)) = mset xs" for xs
    using SORT_BY_HASH_mirror [of xs "fst (?sort xs)" "snd (?sort xs)"] by auto
  let ?b = "SORT_BY_HASH (map (rguard_fnv1a64 \<circ> b_ip) ?bips) ?bips (length ?bips)"
  have "?b = (fst ?b, snd ?b)" by simp
  note sorted_b = SORT_BY_HASH_map [OF this]
  then have b: "hash_mirror (fst ?b) (map b_ip (snd ?b))"
    "mset (map b_ip (snd ?b)) = mset (map b_ip ?bips)"
    by (simp_all add: hash_mirror_def)
  have "mirrors_ok (hash_lists p)"
    using m b by (simp add: mirrors_ok_def hash_lists_def Let_def case_prod_beta)
  moreover have "lists_fit (hash_lists p) \<longleftrightarrow> lists_fit p"
    using m(2) b(2) by (simp add: lists_fit_def hash_lists_def Let_def case_prod_beta
        strs_fit_mset [OF m(2)] strs_fit_mset [OF b(2)])
  ultimately show ?thesis by blast
qed

lemma build_ext_set_total:
  assumes "length (fe_manual f) \<le> RGUARD_PROTECT_EXT_MAX"
  shows "\<exists>f'. build_ext_set f = Some f' \<and> fe_manual f' = fe_manual f \<and> fe_all f' = fe_all f"
  using ext_insert_all_total [of "replicate RGUARD_PROTECT_EXT_HSIZE 0" "fe_manual f"] assms
  by (auto simp: build_ext_set_def free_slots_def config_limits)

lemma config_load_cases:
  obtains (fail) "config_load os parse path = Some (RGUARD_ERR_CONFIG, apply_defaults)"
  | (loaded) p where "config_load os parse path = Some (policy_validate os (hash_lists p), hash_lists p)"
      "lists_fit p"
proof (cases "read_file os path")
  case (Some content)
  show ?thesis
  proof (cases "parse (cstr_of content)")
    case doc: (Some doc)
    let ?p = "load_root os parse doc apply_defaults"
    have fit: "lists_fit ?p" by (rule load_root_fit) (rule defaults_fit)
    then have "length (fe_manual (p_file_ext ?p)) \<le> RGUARD_PROTECT_EXT_MAX"
      by (simp add: lists_fit_def strs_fit_def)
    from build_ext_set_total [OF this] obtain fe where fe: "build_ext_set (p_file_ext ?p) = Some fe"
      "fe_manual fe = fe_manual (p_file_ext ?p)" by blast
    let ?q = "if_object (item doc ''monitor_path'') load_monitor_paths (?p\<lparr>p_file_ext := fe\<rparr>)"
    have "lists_fit ?q"
      using fit fe(2) by (intro load_monitor_fit) (simp add: lists_fit_def)
    moreover have "config_load os parse path = Some (policy_validate os (hash_lists ?q), hash_lists ?q)"
      using Some doc fe(1) by (simp add: config_load_def Let_def)
    ultimately show ?thesis by (rule loaded [rotated])
  qed (use Some fail in \<open>simp add: config_load_def\<close>)
qed (use fail in \<open>simp add: config_load_def\<close>)

text \<open>
  C27: Loading a policy always returns, and a policy it accepts is sound: the thresholds are
  ordered in 1..100, weights are not negative, windows, percentages, days and delays are in
  range, every list fits its array, and the hash arrays are sorted and mirror their lists, as
  the binary searches need. On any other outcome the code is the configuration error.
\<close>

theorem config_load_sound:
  "\<exists>code p. config_load os parse path = Some (code, p) \<and> code \<in> {RGUARD_OK, RGUARD_ERR_CONFIG} \<and>
     lists_fit p \<and> mirrors_ok p \<and> (code \<noteq> RGUARD_OK \<or> ranges_ok p)"
proof (cases rule: config_load_cases [of os parse path])
  case fail
  moreover have "mirrors_ok apply_defaults"
    by (simp add: mirrors_ok_def apply_defaults_def hash_mirror_def)
  ultimately show ?thesis using defaults_fit by auto
next
  case (loaded p)
  have "policy_validate os (hash_lists p) \<in> {RGUARD_OK, RGUARD_ERR_CONFIG}"
    by (simp add: policy_validate_def Let_def)
  with loaded hash_lists_ok [of p] validate_ranges [of os "hash_lists p"] show ?thesis by auto
qed

theorem config_load_sound_witness:
  "\<exists>code p. config_load \<lparr>os_read = (\<lambda>_. Some ''{}''), os_stat = (\<lambda>_. Some Directory), os_writable = (\<lambda>_. True)\<rparr>
       (\<lambda>_. Some (CObject [])) ''/etc/policy.json'' = Some (code, p) \<and> lists_fit p \<and> mirrors_ok p"
  using config_load_sound [of "\<lparr>os_read = (\<lambda>_. Some ''{}''), os_stat = (\<lambda>_. Some Directory), os_writable = (\<lambda>_. True)\<rparr>"
      "\<lambda>_. Some (CObject [])" "''/etc/policy.json''"] by blast

subsection \<open>Persisting a blocked address\<close>

text \<open>The address of an entry of \<open>blacklist.ips\<close>, and whether the daemon added it.\<close>

definition entry_ip :: "cjson \<Rightarrow> string option" where
  "entry_ip e =
     (case json_string (Some e) of
        Some s \<Rightarrow> Some s
      | None \<Rightarrow> if cJSON_IsObject (Some e) then json_string (item e ''ip'') else None)"

definition entry_auto :: "cjson \<Rightarrow> bool" where
  "entry_auto e \<longleftrightarrow> cJSON_IsObject (Some e) \<and> cJSON_IsTrue (item e ''auto_add'')"

text \<open>The scan for duplicates: \<open>None\<close> on a duplicate, else the auto count and the first auto entry.\<close>

fun persist_scan :: "string \<Rightarrow> cjson list \<Rightarrow> nat \<Rightarrow> nat \<Rightarrow> nat option \<Rightarrow> (nat \<times> nat option) option" where
  "persist_scan ip [] idx auto_count first = Some (auto_count, first)"
| "persist_scan ip (e # es) idx auto_count first =
     (if entry_ip e = Some ip then None
      else if entry_auto e
      then persist_scan ip es (idx + 1) (auto_count + 1) (if first = None then Some idx else first)
      else persist_scan ip es (idx + 1) auto_count first)"

definition auto_entry :: "string \<Rightarrow> cjson" where
  "auto_entry ip = CObject [(''ip'', CString ip), (''auto_add'', CTrue)]"

definition persist_entries :: "string \<Rightarrow> cjson list \<Rightarrow> cjson list option" where
  "persist_entries ip ips =
     (case persist_scan ip ips 0 0 None of
        None \<Rightarrow> None
      | Some (auto_count, first) \<Rightarrow>
          (let ips' = (case first of
                         Some i \<Rightarrow> if auto_count \<ge> RGUARD_BLACKLIST_AUTO_MAX
                                    then cJSON_DeleteItemFromArray ips i else ips
                       | None \<Rightarrow> ips)
           in Some (ips' @ [auto_entry ip])))"

text \<open>
  A member of the wanted kind is edited in place; one of another kind is deleted and a new
  one added at the tail.
\<close>

definition put_member :: "(cjson option \<Rightarrow> bool) \<Rightarrow> cjson \<Rightarrow> string \<Rightarrow> cjson \<Rightarrow> cjson" where
  "put_member ok j name v =
     (if ok (item j name) then json_replace j name v
      else cJSON_AddItemToObject
             (if item j name \<noteq> None then cJSON_DeleteItemFromObject j name else j) name v)"

definition doc_blacklist :: "cjson \<Rightarrow> cjson" where
  "doc_blacklist doc =
     (case item doc ''blacklist'' of Some (CObject kvs) \<Rightarrow> CObject kvs | _ \<Rightarrow> CObject [])"

definition doc_ips :: "cjson \<Rightarrow> cjson list" where
  "doc_ips doc = (case item (doc_blacklist doc) ''ips'' of Some (CArray xs) \<Rightarrow> xs | _ \<Rightarrow> [])"

definition persist_doc :: "string \<Rightarrow> cjson \<Rightarrow> cjson option" where
  "persist_doc ip doc =
     map_option (\<lambda>xs. put_member cJSON_IsObject doc ''blacklist''
                        (put_member cJSON_IsArray (doc_blacklist doc) ''ips'' (CArray xs)))
       (persist_entries ip (doc_ips doc))"

record persist_os =
  po_fopen :: bool
  po_write :: bool
  po_fclose :: bool
  po_rename :: bool

text \<open>The code, and the new contents of the policy file if it was replaced.\<close>

definition config_persist_blacklist_ip ::
  "config_os \<Rightarrow> persist_os \<Rightarrow> (string \<Rightarrow> cjson option) \<Rightarrow> (cjson \<Rightarrow> string option) \<Rightarrow> string \<Rightarrow> string \<Rightarrow>
   rguard_error \<times> string option" where
  "config_persist_blacklist_ip os po parse print path ip =
     (if ip = [] then (RGUARD_ERR_CONFIG, None)
      else if \<not> is_real_ip ip then (RGUARD_OK, None)
      else case read_file os path of
        None \<Rightarrow> (RGUARD_ERR_CONFIG, None)
      | Some content \<Rightarrow>
          (case parse (cstr_of content) of
             None \<Rightarrow> (RGUARD_ERR_CONFIG, None)
           | Some doc \<Rightarrow>
               (case persist_doc ip doc of
                  None \<Rightarrow> (RGUARD_OK, None)
                | Some doc' \<Rightarrow>
                    (case print doc' of
                       None \<Rightarrow> (RGUARD_ERR_CONFIG, None)
                     | Some out \<Rightarrow>
                         if \<not> po_fopen po then (RGUARD_ERR_CONFIG, None)
                         else if po_write po \<and> po_fclose po \<and> po_rename po
                         then (RGUARD_OK, Some (out @ [newline]))
                         else (RGUARD_ERR_CONFIG, None)))))"

lemma persist_scan_None:
  "persist_scan ip es idx n first = None \<longleftrightarrow> (\<exists>e \<in> set es. entry_ip e = Some ip)"
  by (induction ip es idx n first rule: persist_scan.induct) auto

lemma persist_scan_Some:
  "persist_scan ip es idx n first = Some (m, f) \<Longrightarrow>
     m = n + length (filter entry_auto es) \<and>
     f = (case first of Some i \<Rightarrow> Some i
          | None \<Rightarrow> map_option (\<lambda>k. k + idx) (first_index entry_auto es))"
proof (induction ip es idx n first rule: persist_scan.induct)
  case (2 ip e es idx n first)
  then show ?case
    by (cases first; cases "entry_auto e") (auto simp: option.map_comp comp_def split: if_splits)
qed (auto split: option.splits)

lemma entry_auto_new [simp]: "entry_auto (auto_entry ip)" "entry_ip (auto_entry ip) = Some ip"
  by (simp_all add: entry_auto_def auto_entry_def entry_ip_def case_insensitive_eq_def tolower_def)

lemma delete_first_filter:
  assumes "first_index P xs = Some i"
  shows "filter P (cJSON_DeleteItemFromArray xs i) = tl (filter P xs)"
    and "filter (\<lambda>x. \<not> P x) (cJSON_DeleteItemFromArray xs i) = filter (\<lambda>x. \<not> P x) xs"
proof -
  have i: "i < length xs" "P (xs ! i)" "\<forall>j < i. \<not> P (xs ! j)"
    using assms by (auto simp: first_index_Some)
  have split: "xs = take i xs @ xs ! i # drop (Suc i) xs" using i(1) by (rule id_take_nth_drop)
  have none: "filter P (take i xs) = []"
    using i by (auto simp: filter_empty_conv in_set_conv_nth)
  have "filter P xs = xs ! i # filter P (drop (Suc i) xs)"
    by (subst split) (simp add: none i(2) del: drop_Suc take_Suc)
  then show "filter P (cJSON_DeleteItemFromArray xs i) = tl (filter P xs)"
    by (simp add: cJSON_DeleteItemFromArray_def none)
  have "filter (\<lambda>x. \<not> P x) xs = filter (\<lambda>x. \<not> P x) (take i xs) @ filter (\<lambda>x. \<not> P x) (drop (Suc i) xs)"
    by (subst (1) split) (simp add: i(2) del: drop_Suc take_Suc)
  then show "filter (\<lambda>x. \<not> P x) (cJSON_DeleteItemFromArray xs i) = filter (\<lambda>x. \<not> P x) xs"
    by (simp add: cJSON_DeleteItemFromArray_def)
qed

lemma persist_entries_filters:
  assumes "persist_entries ip xs = Some ys"
  shows "filter (\<lambda>e. \<not> entry_auto e) ys = filter (\<lambda>e. \<not> entry_auto e) xs"
    and "filter entry_auto ys =
      (if length (filter entry_auto xs) \<ge> RGUARD_BLACKLIST_AUTO_MAX then tl (filter entry_auto xs)
       else filter entry_auto xs) @ [auto_entry ip]"
proof -
  from assms obtain m f where scan: "persist_scan ip xs 0 0 None = Some (m, f)"
    and ys: "ys = (case f of Some i \<Rightarrow> if m \<ge> RGUARD_BLACKLIST_AUTO_MAX
        then cJSON_DeleteItemFromArray xs i else xs | None \<Rightarrow> xs) @ [auto_entry ip]"
    by (auto simp: persist_entries_def Let_def split: option.splits)
  from persist_scan_Some [OF scan] have mf: "m = length (filter entry_auto xs)"
    "f = first_index entry_auto xs"
    by (simp_all add: option.map_id0 [unfolded id_def] option.map_ident)
  show "filter (\<lambda>e. \<not> entry_auto e) ys = filter (\<lambda>e. \<not> entry_auto e) xs"
    using delete_first_filter(2) [of entry_auto xs] by (auto simp: ys mf split: option.splits)
  show "filter entry_auto ys =
      (if length (filter entry_auto xs) \<ge> RGUARD_BLACKLIST_AUTO_MAX then tl (filter entry_auto xs)
       else filter entry_auto xs) @ [auto_entry ip]"
  proof (cases "first_index entry_auto xs")
    case None
    then have "filter entry_auto xs = []" by (simp add: first_index_None filter_empty_conv)
    with None show ?thesis by (simp add: ys mf)
  next
    case (Some i)
    with delete_first_filter(1) [OF Some] show ?thesis by (simp add: ys mf)
  qed
qed

lemma put_member_item:
  assumes "ok (item (CObject kvs) name) \<or> item (CObject kvs) name = None" and "\<not> ok None"
  shows "item (put_member ok (CObject kvs) name v) name = Some v"
    and "\<not> case_insensitive_eq name other \<Longrightarrow>
      item (put_member ok (CObject kvs) name v) other = item (CObject kvs) other"
proof -
  show "item (put_member ok (CObject kvs) name v) name = Some v"
    using assms by (cases "find_item name kvs") (auto simp: put_member_def find_item_append)
  show "item (put_member ok (CObject kvs) name v) other = item (CObject kvs) other"
    if "\<not> case_insensitive_eq name other"
  proof -
    have "\<not> case_insensitive_eq other name" using that by (simp add: case_insensitive_eq_def)
    then show ?thesis
      using that by (auto simp: put_member_def find_item_append find_replace_other
          find_delete_other split: option.splits)
  qed
qed

definition doc_regular :: "cjson \<Rightarrow> bool" where
  "doc_regular doc \<longleftrightarrow>
     (\<exists>kvs. doc = CObject kvs) \<and>
     (cJSON_IsObject (item doc ''blacklist'') \<or> item doc ''blacklist'' = None) \<and>
     (cJSON_IsArray (item (doc_blacklist doc) ''ips'') \<or> item (doc_blacklist doc) ''ips'' = None)"

lemma persist_doc_ips:
  assumes "doc_regular doc" and "persist_doc ip doc = Some doc'"
  shows "persist_entries ip (doc_ips doc) = Some (doc_ips doc')"
    and "\<not> case_insensitive_eq ''blacklist'' other \<Longrightarrow> item doc' other = item doc other"
proof -
  obtain kvs where doc: "doc = CObject kvs" using assms(1) by (auto simp: doc_regular_def)
  have "\<exists>bkvs. doc_blacklist doc = CObject bkvs"
    by (simp add: doc_blacklist_def split: option.split cjson.split)
  then obtain bkvs where bl: "doc_blacklist doc = CObject bkvs" by blast
  obtain xs where xs: "persist_entries ip (doc_ips doc) = Some xs"
    and doc': "doc' = put_member cJSON_IsObject doc ''blacklist''
      (put_member cJSON_IsArray (doc_blacklist doc) ''ips'' (CArray xs))"
    using assms(2) by (auto simp: persist_doc_def)
  let ?bl = "put_member cJSON_IsArray (doc_blacklist doc) ''ips'' (CArray xs)"
  have ips: "item ?bl ''ips'' = Some (CArray xs)"
    using put_member_item(1) [of cJSON_IsArray bkvs "''ips''"] assms(1) bl
    by (auto simp: doc_regular_def)
  have top: "item doc' ''blacklist'' = Some ?bl"
    using put_member_item(1) [of cJSON_IsObject kvs "''blacklist''"] assms(1) doc
    by (auto simp: doc_regular_def doc')
  have "\<exists>m. ?bl = CObject m"
    by (simp add: bl put_member_def)
  with top have "doc_blacklist doc' = ?bl" by (auto simp: doc_blacklist_def)
  with ips have "doc_ips doc' = xs" by (simp add: doc_ips_def)
  with xs show "persist_entries ip (doc_ips doc) = Some (doc_ips doc')" by simp
  show "item doc' other = item doc other" if "\<not> case_insensitive_eq ''blacklist'' other"
    using put_member_item(2) [of cJSON_IsObject kvs "''blacklist''" other] assms(1) doc that
    by (auto simp: doc_regular_def doc')
qed

text \<open>
  C28: Persisting a blocked address never touches what the administrator wrote: the entries
  without the auto flag keep their order, every other member of the policy keeps its value, and
  the auto entries are a queue of at most 64, the oldest leaving first. An address already
  listed is not added again.
\<close>

theorem persist_keeps_admin_entries:
  assumes "doc_regular doc" and "persist_doc ip doc = Some doc'"
  shows "(\<forall>e \<in> set (doc_ips doc). entry_ip e \<noteq> Some ip) \<and>
    filter (\<lambda>e. \<not> entry_auto e) (doc_ips doc') = filter (\<lambda>e. \<not> entry_auto e) (doc_ips doc) \<and>
    filter entry_auto (doc_ips doc') =
      (if length (filter entry_auto (doc_ips doc)) \<ge> RGUARD_BLACKLIST_AUTO_MAX
       then tl (filter entry_auto (doc_ips doc)) else filter entry_auto (doc_ips doc)) @ [auto_entry ip] \<and>
    (\<forall>name. case_insensitive_eq ''blacklist'' name \<or> item doc' name = item doc name)"
proof -
  note e = persist_doc_ips [OF assms]
  have "persist_scan ip (doc_ips doc) 0 0 None \<noteq> None"
    using e(1) by (auto simp: persist_entries_def split: option.splits)
  then have "\<forall>x \<in> set (doc_ips doc). entry_ip x \<noteq> Some ip"
    by (simp add: persist_scan_None)
  then show ?thesis using persist_entries_filters [OF e(1)] e(2) by blast
qed

definition sample_doc :: cjson where
  "sample_doc = CObject [(''mode'', CString ''strict''),
     (''blacklist'', CObject [(''ips'', CArray [CString ''10.0.0.1'', auto_entry ''10.0.0.2''])])]"

theorem persist_keeps_admin_entries_witness:
  "\<exists>doc'. persist_doc ''10.0.0.3'' sample_doc = Some doc' \<and>
     filter (\<lambda>e. \<not> entry_auto e) (doc_ips doc') = [CString ''10.0.0.1''] \<and>
     filter entry_auto (doc_ips doc') = [auto_entry ''10.0.0.2'', auto_entry ''10.0.0.3'']"
proof -
  have ips: "doc_blacklist sample_doc = CObject [(''ips'', CArray [CString ''10.0.0.1'', auto_entry ''10.0.0.2''])]"
    "doc_ips sample_doc = [CString ''10.0.0.1'', auto_entry ''10.0.0.2'']"
    by (simp_all add: sample_doc_def doc_blacklist_def doc_ips_def case_insensitive_eq_def tolower_def)
  have reg: "doc_regular sample_doc"
    unfolding doc_regular_def ips
    by (simp add: sample_doc_def case_insensitive_eq_def tolower_def)
  have "persist_entries ''10.0.0.3'' (doc_ips sample_doc) \<noteq> None"
    by (simp add: ips persist_entries_def entry_ip_def auto_entry_def case_insensitive_eq_def tolower_def
        entry_auto_def)
  then obtain doc' where p: "persist_doc ''10.0.0.3'' sample_doc = Some doc'"
    by (auto simp: persist_doc_def)
  have plain: "\<not> entry_auto (CString ''10.0.0.1'')" by (simp add: entry_auto_def)
  from persist_keeps_admin_entries [OF reg p] p show ?thesis
    by (auto simp: ips plain config_limits)
qed

text \<open>
  C34: A persisted verdict can be lost on the next load: the file keeps up to 64 auto entries
  beside the manual ones, but the loader reads only the first 64 entries of the list, so when
  they are taken, the address appended by the daemon is dropped and the reloaded policy does not
  block it.
\<close>

theorem persisted_entry_lost_on_reload:
  assumes "persist_entries ip xs = Some ys"
    and "length (filter entry_auto xs) < RGUARD_BLACKLIST_AUTO_MAX"
    and "RGUARD_WHITELIST_MAX \<le> length (List.map_filter load_bl_ip xs)"
    and "\<forall>e \<in> set xs. \<forall>s. entry_ip e = Some s \<longrightarrow> length s < RGUARD_IP_LEN"
  shows "ip \<notin> set (map b_ip (load_array RGUARD_WHITELIST_MAX load_bl_ip (Some (CArray ys)) []))"
proof -
  from assms(1) obtain m f where scan: "persist_scan ip xs 0 0 None = Some (m, f)"
    and ys: "ys = (case f of Some i \<Rightarrow> if m \<ge> RGUARD_BLACKLIST_AUTO_MAX
        then cJSON_DeleteItemFromArray xs i else xs | None \<Rightarrow> xs) @ [auto_entry ip]"
    by (auto simp: persist_entries_def Let_def split: option.splits)
  have "m = length (filter entry_auto xs)" using persist_scan_Some [OF scan] by simp
  then have "ys = xs @ [auto_entry ip]" using assms(2) by (simp add: ys split: option.splits)
  then have "load_array RGUARD_WHITELIST_MAX load_bl_ip (Some (CArray ys)) [] =
      take RGUARD_WHITELIST_MAX (List.map_filter load_bl_ip xs)"
    using assms(3) by (simp add: load_array_def load_list_take map_filter_def)
  moreover have "b_ip b \<noteq> ip" if mem: "b \<in> set (List.map_filter load_bl_ip xs)" for b
  proof -
    obtain e where e: "load_bl_ip e = Some b" "e \<in> set xs"
      using mem unfolding set_map_filter_Some by blast
    have "entry_ip e = Some (b_ip b)"
      using e assms(4) by (auto simp: load_bl_ip_def entry_ip_def split: option.splits if_splits)
    moreover have "entry_ip e \<noteq> Some ip"
      using scan e(2) persist_scan_None [of ip xs 0 0 None] by auto
    ultimately show ?thesis by auto
  qed
  ultimately show ?thesis
    by (auto dest!: in_set_takeD)
qed

theorem persisted_entry_lost_on_reload_witness:
  "\<exists>ys. persist_entries ''10.9.9.9'' (replicate 64 (CString ''10.0.0.1'')) = Some ys \<and>
     ''10.9.9.9'' \<notin> set (map b_ip (load_array RGUARD_WHITELIST_MAX load_bl_ip (Some (CArray ys)) []))"
proof -
  let ?xs = "replicate 64 (CString ''10.0.0.1'')"
  have "persist_scan ''10.9.9.9'' ?xs 0 0 None \<noteq> None"
    by (simp add: persist_scan_None entry_ip_def)
  then obtain ys where ys: "persist_entries ''10.9.9.9'' ?xs = Some ys"
    by (auto simp: persist_entries_def)
  have "length (filter entry_auto ?xs) < RGUARD_BLACKLIST_AUTO_MAX"
    by (simp add: entry_auto_def config_limits)
  moreover have "RGUARD_WHITELIST_MAX \<le> length (List.map_filter load_bl_ip ?xs)"
    by (simp add: map_filter_def load_bl_ip_def config_limits)
  moreover have "\<forall>e \<in> set ?xs. \<forall>s. entry_ip e = Some s \<longrightarrow> length s < RGUARD_IP_LEN"
    by (simp add: entry_ip_def config_limits)
  ultimately show ?thesis using persisted_entry_lost_on_reload [OF ys] ys by blast
qed

end
