(* ===== verification/Session_Table.thy ===== *)
theory Session_Table
  imports Rguard_Log Rguard_Hash
begin

text \<open>
  \<open>src/daemon/gfrguardd_session.h\<close> and \<open>.c\<close>: one record per session with its counters,
  and the open-addressing table of 1024 buckets that finds it. A pointer into the table is
  the index of its bucket; \<open>time(NULL)\<close> is an argument. The hashes of the touched
  directories are the fixed array of 256 words with its fill count.
\<close>

subsection \<open>The session record\<close>

definition SESSION_KEY_LEN :: nat where "SESSION_KEY_LEN = 128"
definition DIR_SET_MAX :: nat where "DIR_SET_MAX = 256"
definition SESSION_BUCKETS :: nat where "SESSION_BUCKETS = 1024"

definition RISK_NORMAL :: int where "RISK_NORMAL = 0"
definition RISK_SUSPICIOUS :: int where "RISK_SUSPICIOUS = 1"
definition RISK_HIGH :: int where "RISK_HIGH = 2"
definition RISK_CRITICAL :: int where "RISK_CRITICAL = 3"

lemmas risk_defs = RISK_NORMAL_def RISK_SUSPICIOUS_def RISK_HIGH_def RISK_CRITICAL_def
lemmas session_limits = SESSION_KEY_LEN_def DIR_SET_MAX_def SESSION_BUCKETS_def

record session_state =
  s_key :: string
  s_modified :: u32
  s_rename :: u32
  s_delete :: u32
  s_touched_dirs :: u32
  s_ext_change :: u32
  s_ransom_ext :: u32
  s_high_entropy :: u32
  s_yara_match :: u32
  s_content_same :: u32
  s_risk_score :: u32
  s_risk_level :: int
  s_window_10s :: int
  s_window_30s :: int
  s_blocked :: bool
  s_last_seen :: int
  s_event_id :: string
  s_total_events :: u64
  s_dir_hashes :: "u64 list"
  s_dir_count :: nat
  s_in_use :: bool

definition session_zero :: session_state where
  "session_zero =
    \<lparr>s_key = [], s_modified = 0, s_rename = 0, s_delete = 0, s_touched_dirs = 0,
     s_ext_change = 0, s_ransom_ext = 0, s_high_entropy = 0, s_yara_match = 0,
     s_content_same = 0, s_risk_score = 0, s_risk_level = 0, s_window_10s = 0,
     s_window_30s = 0, s_blocked = False, s_last_seen = 0, s_event_id = [],
     s_total_events = 0, s_dir_hashes = replicate DIR_SET_MAX 0, s_dir_count = 0,
     s_in_use = False\<rparr>"

record session_table =
  t_buckets :: "session_state list"
  t_count :: int

definition session_table_init :: session_table where
  "session_table_init = \<lparr>t_buckets = replicate SESSION_BUCKETS session_zero, t_count = 0\<rparr>"

definition session_cleanup :: "session_table \<Rightarrow> session_table" where
  "session_cleanup t = session_table_init"

subsection \<open>Finding or creating a session\<close>

definition probe_idx :: "u64 \<Rightarrow> nat \<Rightarrow> nat" where
  "probe_idx h p = unat ((h + of_nat p) mod of_nat SESSION_BUCKETS)"

text \<open>The first bucket of the probe sequence that is free or holds the key.\<close>

function probe_loop :: "session_state list \<Rightarrow> u64 \<Rightarrow> string \<Rightarrow> nat \<Rightarrow> nat option" where
  "probe_loop bs h key p =
     (if p < SESSION_BUCKETS then
        let s = bs ! probe_idx h p in
        if \<not> s_in_use s then Some (probe_idx h p)
        else if s_key s = key then Some (probe_idx h p)
        else probe_loop bs h key (p + 1)
      else None)"
  by pat_completeness auto
termination
  by (relation "measure (\<lambda>(bs, h, key, p). SESSION_BUCKETS - p)") auto

declare probe_loop.simps [simp del]

text \<open>The scan for the least recently active session that is not blocked.\<close>

fun oldest_scan :: "session_state list \<Rightarrow> nat \<Rightarrow> (nat \<times> session_state) option \<Rightarrow>
    (nat \<times> session_state) option" where
  "oldest_scan [] i oldest = oldest"
| "oldest_scan (s # ss) i oldest =
     (if \<not> s_in_use s \<or> s_blocked s then oldest_scan ss (Suc i) oldest
      else
        (case oldest of
           None \<Rightarrow> oldest_scan ss (Suc i) (Some (i, s))
         | Some (k, o') \<Rightarrow>
             if s_last_seen s < s_last_seen o' then oldest_scan ss (Suc i) (Some (i, s))
             else oldest_scan ss (Suc i) oldest))"

definition new_session :: "string \<Rightarrow> int \<Rightarrow> session_state" where
  "new_session key now =
     session_zero\<lparr>s_key := snprintf_s SESSION_KEY_LEN key, s_in_use := True, s_last_seen := now\<rparr>"

definition session_find_or_create ::
  "session_table \<Rightarrow> string \<Rightarrow> int \<Rightarrow> nat option \<times> session_table \<times> log_call list" where
  "session_find_or_create t key now =
     (let h = rguard_fnv1a64 key; bs = t_buckets t in
      case probe_loop bs h key 0 of
        Some idx \<Rightarrow>
          if \<not> s_in_use (bs ! idx)
          then (Some idx, \<lparr>t_buckets = bs[idx := new_session key now], t_count = t_count t + 1\<rparr>, [])
          else (Some idx, t\<lparr>t_buckets := bs[idx := (bs ! idx)\<lparr>s_last_seen := now\<rparr>]\<rparr>, [])
      | None \<Rightarrow>
          (case oldest_scan bs 0 None of
             None \<Rightarrow> (None, t, [log_call LOG_WARN ''SESSION_TABLE_FULL'' (Some key)
                 ''{\"reason\":\"all slots blocked, new session dropped\"}''])
           | Some (k, victim) \<Rightarrow>
               (Some k, t\<lparr>t_buckets := bs[k := new_session key now]\<rparr>,
                [log_call LOG_WARN ''SESSION_EVICT'' (Some (s_key victim))
                   ''{\"reason\":\"table full, evicting least recently active\"}''])))"

subsection \<open>Windows and counters\<close>

definition session_check_window :: "session_state \<Rightarrow> int \<Rightarrow> int \<Rightarrow> int \<Rightarrow> session_state" where
  "session_check_window s0 now window_short window_long =
     (let s1 = (if s_window_10s s0 = 0 then s0\<lparr>s_window_10s := now\<rparr> else s0);
          s2 = (if s_window_30s s1 = 0 then s1\<lparr>s_window_30s := now\<rparr> else s1);
          s3 = (if now - s_window_10s s2 \<ge> window_short
                then s2\<lparr>s_modified := 0, s_rename := 0, s_delete := 0, s_ext_change := 0,
                        s_ransom_ext := 0, s_high_entropy := 0, s_yara_match := 0,
                        s_content_same := 0, s_window_10s := now\<rparr>
                else s2)
      in if now - s_window_30s s3 \<ge> window_long
         then s3\<lparr>s_touched_dirs := 0, s_dir_count := 0,
                 s_dir_hashes := replicate DIR_SET_MAX 0, s_window_30s := now,
                 s_event_id := [], s_risk_level := RISK_NORMAL, s_risk_score := 0\<rparr>
         else s3)"

definition dir_seen :: "session_state \<Rightarrow> u64 \<Rightarrow> bool" where
  "dir_seen s hash = list_ex (\<lambda>h. h = hash) (take (s_dir_count s) (s_dir_hashes s))"

definition dir_add :: "session_state \<Rightarrow> u64 \<Rightarrow> session_state" where
  "dir_add s hash =
     (if s_dir_count s \<ge> DIR_SET_MAX then s
      else s\<lparr>s_dir_hashes := (s_dir_hashes s)[s_dir_count s := hash],
             s_dir_count := s_dir_count s + 1, s_touched_dirs := sat_inc (s_touched_dirs s)\<rparr>)"

definition session_op_counters :: "session_state \<Rightarrow> u8 \<Rightarrow> u16 \<Rightarrow> session_state" where
  "session_op_counters s op flags =
     (if op = RGUARD_OP_OPEN \<or> op = RGUARD_OP_WRITE \<or> op = RGUARD_OP_TRUNCATE then
        (let s1 = (if has_flag flags RGUARD_FLAG_RISKY
                   then s\<lparr>s_modified := sat_inc (s_modified s)\<rparr> else s)
         in if has_flag flags RGUARD_FLAG_RANSOM_EXT
            then s1\<lparr>s_ransom_ext := sat_inc (s_ransom_ext s1)\<rparr> else s1)
      else if op = RGUARD_OP_RENAME then
        (let s1 = s\<lparr>s_rename := sat_inc (s_rename s)\<rparr>;
             s2 = (if has_flag flags RGUARD_FLAG_EXT_CHANGE
                   then s1\<lparr>s_ext_change := sat_inc (s_ext_change s1)\<rparr> else s1)
         in if has_flag flags RGUARD_FLAG_RANSOM_EXT
            then s2\<lparr>s_ransom_ext := sat_inc (s_ransom_ext s2)\<rparr> else s2)
      else if op = RGUARD_OP_DELETE then s\<lparr>s_delete := sat_inc (s_delete s)\<rparr>
      else if op = RGUARD_OP_CLOSE then
        (if has_flag flags RGUARD_FLAG_CONTENT_SAME \<and> s_modified s > 0
         then s\<lparr>s_modified := s_modified s - 1, s_content_same := sat_inc (s_content_same s)\<rparr>
         else s)
      else s)"

definition session_update :: "session_state \<Rightarrow> u8 \<Rightarrow> u16 \<Rightarrow> u64 \<Rightarrow> session_state" where
  "session_update s op flags dir_hash =
     (let s1 = session_op_counters s op flags;
          s2 = (if has_flag flags RGUARD_FLAG_HIGH_ENTROPY
                then s1\<lparr>s_high_entropy := sat_inc (s_high_entropy s1)\<rparr> else s1);
          s3 = (if has_flag flags RGUARD_FLAG_YARA_MATCH
                then s2\<lparr>s_yara_match := sat_inc (s_yara_match s2)\<rparr> else s2);
          s4 = (if dir_hash \<noteq> 0 \<and> \<not> dir_seen s3 dir_hash then dir_add s3 dir_hash else s3)
      in s4\<lparr>s_total_events := s_total_events s4 + 1\<rparr>)"

subsection \<open>The probe sequence\<close>

lemma probe_idx_eq:
  assumes "p < SESSION_BUCKETS"
  shows "probe_idx h p = (unat h + p) mod SESSION_BUCKETS"
proof -
  have p: "unat (of_nat p :: u64) = p"
    using assms by (simp add: session_limits unat_of_nat)
  have "probe_idx h p = ((unat h + p) mod 2 ^ 64) mod 1024"
    by (simp add: probe_idx_def session_limits unat_mod unat_word_ariths p)
  also have "\<dots> = (unat h + p) mod 1024"
    by (rule mod_mod_cancel) simp
  finally show ?thesis by (simp add: session_limits)
qed

lemma probe_idx_less: "p < SESSION_BUCKETS \<Longrightarrow> probe_idx h p < SESSION_BUCKETS"
  by (simp add: probe_idx_eq session_limits)

lemma probe_idx_surj:
  assumes "i < SESSION_BUCKETS"
  shows "\<exists>p < SESSION_BUCKETS. probe_idx h p = i"
proof -
  define p where "p = (i + (1024 - unat h mod 1024)) mod 1024"
  have p: "p < SESSION_BUCKETS" by (simp add: p_def session_limits)
  have "(unat h + p) mod 1024 = (unat h + (i + (1024 - unat h mod 1024))) mod 1024"
    by (simp add: p_def mod_add_right_eq)
  also have "unat h + (i + (1024 - unat h mod 1024)) = i + 1024 * (unat h div 1024 + 1)"
  proof -
    define q r where "q = unat h div 1024" and "r = unat h mod 1024"
    have "unat h = q * 1024 + r" "r < 1024" by (simp_all add: q_def r_def)
    then show ?thesis unfolding r_def [symmetric] q_def [symmetric] by simp
  qed
  also have "\<dots> mod 1024 = i mod 1024"
    by (rule mod_mult_self2)
  finally have "(unat h + p) mod 1024 = i" using assms by (simp add: session_limits)
  with p show ?thesis by (auto simp: probe_idx_eq session_limits)
qed

definition probe_hit :: "session_state list \<Rightarrow> string \<Rightarrow> nat \<Rightarrow> bool" where
  "probe_hit bs key i \<longleftrightarrow> \<not> s_in_use (bs ! i) \<or> s_key (bs ! i) = key"

lemma probe_loop_Some:
  "probe_loop bs h key p = Some i \<Longrightarrow>
     \<exists>r < SESSION_BUCKETS. p \<le> r \<and> i = probe_idx h r \<and> probe_hit bs key i \<and>
       (\<forall>q. p \<le> q \<and> q < r \<longrightarrow> \<not> probe_hit bs key (probe_idx h q))"
proof (induction bs h key p rule: probe_loop.induct)
  case (1 bs h key p)
  show ?case
  proof (cases "p < SESSION_BUCKETS \<and> \<not> probe_hit bs key (probe_idx h p)")
    case True
    with "1.prems" have "probe_loop bs h key (p + 1) = Some i"
      by (subst (asm) probe_loop.simps) (auto simp: probe_hit_def Let_def)
    with "1.IH" True obtain r where r: "r < SESSION_BUCKETS" "p + 1 \<le> r" "i = probe_idx h r"
      "probe_hit bs key i" "\<forall>q. p + 1 \<le> q \<and> q < r \<longrightarrow> \<not> probe_hit bs key (probe_idx h q)"
      by (auto simp: probe_hit_def)
    have "\<not> probe_hit bs key (probe_idx h q)" if "p \<le> q" "q < r" for q
      using that r(5) True by (cases "q = p") auto
    with r show ?thesis by (intro exI [of _ r]) auto
  next
    case False
    with "1.prems" show ?thesis
      by (subst (asm) probe_loop.simps)
        (auto simp: probe_hit_def Let_def split: if_splits intro!: exI [of _ p])
  qed
qed

lemma probe_loop_None:
  "probe_loop bs h key p = None \<Longrightarrow> p \<le> q \<Longrightarrow> q < SESSION_BUCKETS \<Longrightarrow>
     \<not> probe_hit bs key (probe_idx h q)"
proof (induction bs h key p rule: probe_loop.induct)
  case (1 bs h key p)
  from "1.prems" have hit: "\<not> probe_hit bs key (probe_idx h p)"
    and rest: "probe_loop bs h key (p + 1) = None"
    by (simp_all add: probe_loop.simps [of bs h key p] probe_hit_def Let_def split: if_splits)
  show ?case
  proof (cases "q = p")
    case False
    with "1.IH" [OF _ refl _ _ rest] "1.prems" hit show ?thesis
      by (auto simp: probe_hit_def)
  qed (use hit in simp)
qed

subsection \<open>The invariant of the table, and its contents as a map\<close>

definition probe_chain :: "session_state list \<Rightarrow> string \<Rightarrow> nat \<Rightarrow> bool" where
  "probe_chain bs key i \<longleftrightarrow>
     (\<exists>r < SESSION_BUCKETS. probe_idx (rguard_fnv1a64 key) r = i \<and>
        (\<forall>q < r. s_in_use (bs ! probe_idx (rguard_fnv1a64 key) q)))"

definition table_inv :: "session_table \<Rightarrow> bool" where
  "table_inv t \<longleftrightarrow>
     (let bs = t_buckets t in
      length bs = SESSION_BUCKETS \<and>
      t_count t = int (length (filter s_in_use bs)) \<and>
      (\<forall>i < SESSION_BUCKETS. s_in_use (bs ! i) \<longrightarrow>
         length (s_key (bs ! i)) < SESSION_KEY_LEN \<and> probe_chain bs (s_key (bs ! i)) i) \<and>
      (\<forall>i < SESSION_BUCKETS. \<forall>j < SESSION_BUCKETS. s_in_use (bs ! i) \<longrightarrow> s_in_use (bs ! j) \<longrightarrow>
         s_key (bs ! i) = s_key (bs ! j) \<longrightarrow> i = j))"

definition session_lookup :: "session_table \<Rightarrow> string \<Rightarrow> session_state option" where
  "session_lookup t key = List.find (\<lambda>s. s_in_use s \<and> s_key s = key) (t_buckets t)"

lemma table_invD:
  assumes "table_inv t"
  shows "length (t_buckets t) = SESSION_BUCKETS"
    and "t_count t = int (length (filter s_in_use (t_buckets t)))"
    and "\<And>i. i < SESSION_BUCKETS \<Longrightarrow> s_in_use (t_buckets t ! i) \<Longrightarrow>
      length (s_key (t_buckets t ! i)) < SESSION_KEY_LEN"
    and "\<And>i. i < SESSION_BUCKETS \<Longrightarrow> s_in_use (t_buckets t ! i) \<Longrightarrow>
      probe_chain (t_buckets t) (s_key (t_buckets t ! i)) i"
    and "\<And>i j. i < SESSION_BUCKETS \<Longrightarrow> j < SESSION_BUCKETS \<Longrightarrow> s_in_use (t_buckets t ! i) \<Longrightarrow>
      s_in_use (t_buckets t ! j) \<Longrightarrow> s_key (t_buckets t ! i) = s_key (t_buckets t ! j) \<Longrightarrow> i = j"
  using assms by (auto simp: table_inv_def Let_def)

lemma session_lookup_Some:
  assumes "table_inv t"
  shows "session_lookup t key = Some s \<longleftrightarrow>
    (\<exists>i < SESSION_BUCKETS. t_buckets t ! i = s \<and> s_in_use s \<and> s_key s = key)"
  unfolding session_lookup_def
  by (subst find_unique) (use table_invD [OF assms] in auto)

lemma session_lookup_None:
  assumes "table_inv t"
  shows "session_lookup t key = None \<longleftrightarrow>
    (\<forall>i < SESSION_BUCKETS. s_in_use (t_buckets t ! i) \<longrightarrow> s_key (t_buckets t ! i) \<noteq> key)"
  using table_invD(1) [OF assms]
  by (auto simp: session_lookup_def find_None_iff in_set_conv_nth)

lemma probe_chain_mono:
  "probe_chain bs key i \<Longrightarrow> (\<And>j. s_in_use (bs ! j) \<Longrightarrow> s_in_use (bs' ! j)) \<Longrightarrow> probe_chain bs' key i"
  unfolding probe_chain_def by blast

lemma session_init_inv: "table_inv session_table_init"
  by (simp add: table_inv_def session_table_init_def session_zero_def)

lemma session_init_empty: "session_lookup session_table_init key = None"
  by (simp add: session_lookup_None session_init_inv)
    (simp add: session_table_init_def session_zero_def)

text \<open>Writing a used record into a bucket keeps the invariant and updates the map.\<close>

lemma table_write:
  assumes inv: "table_inv t" and i: "i < SESSION_BUCKETS"
    and new: "s_in_use s" "length (s_key s) < SESSION_KEY_LEN"
    and chain: "probe_chain (t_buckets t) (s_key s) i"
    and fresh: "\<And>j. j < SESSION_BUCKETS \<Longrightarrow> j \<noteq> i \<Longrightarrow> s_in_use (t_buckets t ! j) \<Longrightarrow>
      s_key (t_buckets t ! j) \<noteq> s_key s"
    and cnt: "n = t_count t + (if s_in_use (t_buckets t ! i) then 0 else 1)"
  shows "table_inv \<lparr>t_buckets = (t_buckets t)[i := s], t_count = n\<rparr>" (is "table_inv ?t")
    and "session_lookup \<lparr>t_buckets = (t_buckets t)[i := s], t_count = n\<rparr> =
      (session_lookup t)(s_key (t_buckets t ! i) :=
         (if s_in_use (t_buckets t ! i) then None
          else session_lookup t (s_key (t_buckets t ! i))), s_key s \<mapsto> s)"
proof -
  note d = table_invD [OF inv]
  have len: "i < length (t_buckets t)" using i d(1) by simp
  have mono: "s_in_use ((t_buckets t)[i := s] ! j)" if "s_in_use (t_buckets t ! j)" for j
    using that new(1) len by (cases "j = i") auto
  have keys: "length (s_key ((t_buckets t)[i := s] ! j)) < SESSION_KEY_LEN \<and>
      probe_chain ((t_buckets t)[i := s]) (s_key ((t_buckets t)[i := s] ! j)) j"
    if "j < SESSION_BUCKETS" "s_in_use ((t_buckets t)[i := s] ! j)" for j
    using that new(2) len chain d(3,4) [of j] probe_chain_mono [OF _ mono] by (cases "j = i") auto
  have uniq: "j = k" if "j < SESSION_BUCKETS" "k < SESSION_BUCKETS"
    "s_in_use ((t_buckets t)[i := s] ! j)" "s_in_use ((t_buckets t)[i := s] ! k)"
    "s_key ((t_buckets t)[i := s] ! j) = s_key ((t_buckets t)[i := s] ! k)" for j k
    using that fresh [of j] fresh [of k] d(5) [of j k] len by (cases "j = i"; cases "k = i") auto
  have "n = int (length (filter s_in_use ((t_buckets t)[i := s])))"
    using length_filter_update [OF len, of s_in_use s] new(1) cnt d(2) by (auto split: if_splits)
  with keys uniq show inv': "table_inv ?t"
    unfolding table_inv_def Let_def using d(1) by (simp del: nth_list_update)
  show "session_lookup ?t = (session_lookup t)(s_key (t_buckets t ! i) :=
         (if s_in_use (t_buckets t ! i) then None
          else session_lookup t (s_key (t_buckets t ! i))), s_key s \<mapsto> s)" (is "_ = ?m")
  proof
    fix k
    have at: "session_lookup ?t k = Some x \<longleftrightarrow>
        (k = s_key s \<and> x = s) \<or> (\<exists>j < SESSION_BUCKETS. j \<noteq> i \<and> t_buckets t ! j = x \<and> s_in_use x \<and> s_key x = k)"
      for x
      using i len new(1) by (subst session_lookup_Some [OF inv']) (auto simp: nth_list_update)
    show "session_lookup ?t k = ?m k"
    proof (rule option_eqI)
      fix x
      consider (new) "k = s_key s"
        | (old) "k \<noteq> s_key s" "s_in_use (t_buckets t ! i)" "k = s_key (t_buckets t ! i)"
        | (other) "k \<noteq> s_key s" "s_in_use (t_buckets t ! i) \<longrightarrow> k \<noteq> s_key (t_buckets t ! i)"
        by blast
      then show "session_lookup ?t k = Some x \<longleftrightarrow> ?m k = Some x"
      proof cases
        case new
        then show ?thesis unfolding at using fresh by auto
      next
        case old
        then show ?thesis unfolding at using d(5) i by auto
      next
        case other
        then have "?m k = session_lookup t k" by auto
        with other show ?thesis
          unfolding at by (auto simp: session_lookup_Some [OF inv])
      qed
    qed
  qed
qed

subsection \<open>What find-or-create does to the map\<close>

definition evictable :: "session_state \<Rightarrow> bool" where
  "evictable s \<longleftrightarrow> s_in_use s \<and> \<not> s_blocked s"

lemma oldest_scan_spec:
  assumes "bs = pre @ ss"
    and "case old of None \<Rightarrow> \<forall>s \<in> set pre. \<not> evictable s
      | Some (k, v) \<Rightarrow> k < length pre \<and> bs ! k = v \<and> evictable v \<and>
          (\<forall>s \<in> set pre. evictable s \<longrightarrow> s_last_seen v \<le> s_last_seen s)"
  shows "case oldest_scan ss (length pre) old of None \<Rightarrow> \<forall>s \<in> set bs. \<not> evictable s
      | Some (k, v) \<Rightarrow> k < length bs \<and> bs ! k = v \<and> evictable v \<and>
          (\<forall>s \<in> set bs. evictable s \<longrightarrow> s_last_seen v \<le> s_last_seen s)"
  using assms
proof (induction ss arbitrary: pre old)
  case Nil
  then show ?case by auto
next
  case (Cons s ss)
  define old' where "old' = (if \<not> s_in_use s \<or> s_blocked s then old
    else case old of None \<Rightarrow> Some (length pre, s)
      | Some (k, v) \<Rightarrow> if s_last_seen s < s_last_seen v then Some (length pre, s) else old)"
  have step: "oldest_scan (s # ss) (length pre) old = oldest_scan ss (length (pre @ [s])) old'"
    by (auto simp: old'_def split: option.splits)
  have "case old' of None \<Rightarrow> \<forall>x \<in> set (pre @ [s]). \<not> evictable x
      | Some (k, v) \<Rightarrow> k < length (pre @ [s]) \<and> bs ! k = v \<and> evictable v \<and>
          (\<forall>x \<in> set (pre @ [s]). evictable x \<longrightarrow> s_last_seen v \<le> s_last_seen x)"
    using Cons.prems
    by (auto simp: old'_def evictable_def split: option.splits if_splits)
  with Cons.IH [of "pre @ [s]" old'] Cons.prems(1) show ?case
    unfolding step by simp
qed

lemma oldest_scan_None: "oldest_scan bs 0 None = None \<longleftrightarrow> (\<forall>s \<in> set bs. \<not> evictable s)"
  using oldest_scan_spec [of bs "[]" bs None] by (auto split: option.splits)

lemma oldest_scan_Some:
  "oldest_scan bs 0 None = Some (k, v) \<Longrightarrow> k < length bs \<and> bs ! k = v \<and> evictable v \<and>
     (\<forall>s \<in> set bs. evictable s \<longrightarrow> s_last_seen v \<le> s_last_seen s)"
  using oldest_scan_spec [of bs "[]" bs None] by simp

definition table_full :: "session_table \<Rightarrow> bool" where
  "table_full t \<longleftrightarrow> (\<forall>s \<in> set (t_buckets t). s_in_use s)"

lemma table_full_nth:
  "table_inv t \<Longrightarrow> table_full t \<longleftrightarrow> (\<forall>i < SESSION_BUCKETS. s_in_use (t_buckets t ! i))"
  by (auto simp: table_full_def all_set_conv_all_nth table_invD(1))

lemma new_session_simps [simp]:
  "s_in_use (new_session key now)"
  "length key < SESSION_KEY_LEN \<Longrightarrow> s_key (new_session key now) = key"
  "\<not> s_blocked (new_session key now)"
  "s_event_id (new_session key now) = []"
  by (simp_all add: new_session_def session_zero_def)

lemma lookup_upd_self:
  "session_lookup t k = None \<Longrightarrow> (session_lookup t)(k := None) = session_lookup t"
  by auto

text \<open>The key is in the table: its session is found and touched.\<close>

lemma find_present:
  assumes inv: "table_inv t" and key: "session_lookup t key = Some s"
  shows "\<exists>i < SESSION_BUCKETS. t_buckets t ! i = s \<and>
    session_find_or_create t key now =
      (Some i, t\<lparr>t_buckets := (t_buckets t)[i := s\<lparr>s_last_seen := now\<rparr>]\<rparr>, [])"
proof -
  note d = table_invD [OF inv]
  obtain i where i: "i < SESSION_BUCKETS" "t_buckets t ! i = s" "s_in_use s" "s_key s = key"
    using key by (auto simp: session_lookup_Some [OF inv])
  then have "probe_chain (t_buckets t) key i" using d(4) [of i] by auto
  then obtain r where r: "r < SESSION_BUCKETS" "probe_idx (rguard_fnv1a64 key) r = i"
    "\<forall>q < r. s_in_use (t_buckets t ! probe_idx (rguard_fnv1a64 key) q)"
    unfolding probe_chain_def by blast
  have hit: "probe_hit (t_buckets t) key i" using i by (simp add: probe_hit_def)
  have "probe_loop (t_buckets t) (rguard_fnv1a64 key) key 0 = Some i"
  proof (cases "probe_loop (t_buckets t) (rguard_fnv1a64 key) key 0")
    case None
    from probe_loop_None [OF this, of r] r hit show ?thesis by simp
  next
    case (Some j)
    from probe_loop_Some [OF this] obtain r' where r': "r' < SESSION_BUCKETS"
      "j = probe_idx (rguard_fnv1a64 key) r'" "probe_hit (t_buckets t) key j"
      "\<forall>q < r'. \<not> probe_hit (t_buckets t) key (probe_idx (rguard_fnv1a64 key) q)" by auto
    have "r' \<le> r" using r' r hit by (metis not_le)
    then have "s_in_use (t_buckets t ! j)" using r r' i by (cases "r' = r") auto
    with r'(3) have "s_key (t_buckets t ! j) = key" by (simp add: probe_hit_def)
    with d(5) [of j i] i r'(1,2) \<open>s_in_use (t_buckets t ! j)\<close> have "j = i"
      by (simp add: probe_idx_less)
    with Some show ?thesis by simp
  qed
  with i show ?thesis
    by (auto simp: session_find_or_create_def Let_def)
qed

text \<open>A new key in a table with a free bucket goes into the first free bucket of its chain.\<close>

lemma find_create:
  assumes inv: "table_inv t" and key: "session_lookup t key = None" and free: "\<not> table_full t"
  shows "\<exists>i < SESSION_BUCKETS. \<not> s_in_use (t_buckets t ! i) \<and> probe_chain (t_buckets t) key i \<and>
    session_find_or_create t key now =
      (Some i, \<lparr>t_buckets = (t_buckets t)[i := new_session key now], t_count = t_count t + 1\<rparr>, [])"
proof -
  from free obtain j where j: "j < SESSION_BUCKETS" "\<not> s_in_use (t_buckets t ! j)"
    by (auto simp: table_full_nth [OF inv])
  from probe_idx_surj [OF j(1)] obtain p where p: "p < SESSION_BUCKETS"
    "probe_idx (rguard_fnv1a64 key) p = j" by blast
  have absent: "s_in_use (t_buckets t ! i) \<longrightarrow> s_key (t_buckets t ! i) \<noteq> key"
    if "i < SESSION_BUCKETS" for i
    using key that by (simp add: session_lookup_None [OF inv])
  have "probe_loop (t_buckets t) (rguard_fnv1a64 key) key 0 \<noteq> None"
    using probe_loop_None [of _ _ key 0 p] p j by (auto simp: probe_hit_def)
  then obtain i where i: "probe_loop (t_buckets t) (rguard_fnv1a64 key) key 0 = Some i" by blast
  from probe_loop_Some [OF this] obtain r where r: "r < SESSION_BUCKETS"
    "i = probe_idx (rguard_fnv1a64 key) r" "probe_hit (t_buckets t) key i"
    "\<forall>q < r. \<not> probe_hit (t_buckets t) key (probe_idx (rguard_fnv1a64 key) q)" by auto
  then have "i < SESSION_BUCKETS" by (simp add: probe_idx_less)
  moreover from this have "\<not> s_in_use (t_buckets t ! i)"
    using absent r(3) by (auto simp: probe_hit_def)
  moreover have "probe_chain (t_buckets t) key i"
    using r unfolding probe_chain_def by (auto simp: probe_hit_def)
  ultimately show ?thesis
    using i by (auto simp: session_find_or_create_def Let_def)
qed

lemma find_full_probe:
  assumes inv: "table_inv t" and key: "session_lookup t key = None" and full: "table_full t"
  shows "probe_loop (t_buckets t) (rguard_fnv1a64 key) key 0 = None"
proof (rule ccontr)
  assume "probe_loop (t_buckets t) (rguard_fnv1a64 key) key 0 \<noteq> None"
  then obtain i where "probe_loop (t_buckets t) (rguard_fnv1a64 key) key 0 = Some i" by blast
  from probe_loop_Some [OF this] have "i < SESSION_BUCKETS" "probe_hit (t_buckets t) key i"
    by (auto simp: probe_idx_less)
  with full key show False
    by (auto simp: table_full_nth [OF inv] session_lookup_None [OF inv] probe_hit_def)
qed

lemma full_chain:
  "table_inv t \<Longrightarrow> table_full t \<Longrightarrow> i < SESSION_BUCKETS \<Longrightarrow> probe_chain (t_buckets t) key i"
  using probe_idx_surj [of i "rguard_fnv1a64 key"]
  unfolding probe_chain_def by (fastforce simp: table_full_nth probe_idx_less)

text \<open>What a session table promises, on the map from keys to sessions.\<close>

definition oldest_unblocked :: "(string \<rightharpoonup> session_state) \<Rightarrow> string \<Rightarrow> session_state \<Rightarrow> bool" where
  "oldest_unblocked m k s \<longleftrightarrow> m k = Some s \<and> \<not> s_blocked s \<and>
     (\<forall>k' s'. m k' = Some s' \<and> \<not> s_blocked s' \<longrightarrow> s_last_seen s \<le> s_last_seen s')"

definition acquire_spec ::
  "(string \<rightharpoonup> session_state) \<Rightarrow> bool \<Rightarrow> string \<Rightarrow> int \<Rightarrow> (string \<rightharpoonup> session_state) \<Rightarrow> bool" where
  "acquire_spec m full key now m' \<longleftrightarrow>
     (case m key of
        Some s \<Rightarrow> m' = m(key \<mapsto> s\<lparr>s_last_seen := now\<rparr>)
      | None \<Rightarrow>
          if \<not> full then m' = m(key \<mapsto> new_session key now)
          else (\<exists>k s. oldest_unblocked m k s \<and> m' = m(k := None, key \<mapsto> new_session key now)) \<or>
               ((\<forall>k s. m k = Some s \<longrightarrow> s_blocked s) \<and> m' = m))"

definition session_put :: "session_table \<Rightarrow> nat \<Rightarrow> session_state \<Rightarrow> session_table" where
  "session_put t i s = t\<lparr>t_buckets := (t_buckets t)[i := s]\<rparr>"

definition session_at :: "session_table \<Rightarrow> nat \<Rightarrow> session_state" where
  "session_at t i = t_buckets t ! i"

lemma lookup_at:
  assumes "table_inv t" and "i < SESSION_BUCKETS" and "s_in_use (t_buckets t ! i)"
  shows "session_lookup t (s_key (t_buckets t ! i)) = Some (t_buckets t ! i)"
  using assms by (auto simp: session_lookup_Some [OF assms(1)])

lemma session_put_lookup:
  assumes inv: "table_inv t" and i: "i < SESSION_BUCKETS" "s_in_use (t_buckets t ! i)"
    and s: "s_in_use s" "s_key s = s_key (t_buckets t ! i)"
  shows "table_inv (session_put t i s) \<and>
    session_lookup (session_put t i s) = (session_lookup t)(s_key s \<mapsto> s)"
proof -
  note d = table_invD [OF inv]
  have eq: "session_put t i s = \<lparr>t_buckets = (t_buckets t)[i := s], t_count = t_count t\<rparr>"
    by (simp add: session_put_def)
  have fresh: "s_key (t_buckets t ! j) \<noteq> s_key s"
    if "j < SESSION_BUCKETS" "j \<noteq> i" "s_in_use (t_buckets t ! j)" for j
    using d(5) [of j i] that i s by auto
  have "length (s_key s) < SESSION_KEY_LEN" "probe_chain (t_buckets t) (s_key s) i"
    using d(3,4) [OF i] s by auto
  from table_write [OF inv i(1) s(1) this fresh refl] show ?thesis
    unfolding eq using i(2) s by simp
qed

lemma lookup_mem: "session_lookup t k = Some s \<Longrightarrow> s \<in> set (t_buckets t)"
  by (auto simp: session_lookup_def find_Some_iff)

lemma lookup_in_use: "session_lookup t k = Some s \<Longrightarrow> s_in_use s \<and> s_key s = k"
  by (auto simp: session_lookup_def find_Some_iff)

lemma acquire_present:
  assumes inv: "table_inv t" and key: "session_lookup t key = Some s"
    and r: "session_find_or_create t key now = (r, t', lg)"
  shows "table_inv t' \<and> session_lookup t' = (session_lookup t)(key \<mapsto> s\<lparr>s_last_seen := now\<rparr>) \<and>
    (\<exists>i < SESSION_BUCKETS. r = Some i \<and> session_at t' i = s\<lparr>s_last_seen := now\<rparr>)"
proof -
  from find_present [OF inv key, of now] obtain i where i: "i < SESSION_BUCKETS"
    "t_buckets t ! i = s" "r = Some i" "t' = session_put t i (s\<lparr>s_last_seen := now\<rparr>)"
    using r by (auto simp: session_put_def)
  moreover have "s_in_use s" "s_key s = key" using lookup_in_use [OF key] by auto
  ultimately show ?thesis
    using session_put_lookup [OF inv i(1), of "s\<lparr>s_last_seen := now\<rparr>"] table_invD(1) [OF inv]
    by (auto simp: session_at_def session_put_def)
qed

lemma acquire_new:
  assumes inv: "table_inv t" and key: "session_lookup t key = None" "length key < SESSION_KEY_LEN"
    and free: "\<not> table_full t"
    and r: "session_find_or_create t key now = (r, t', lg)"
  shows "table_inv t' \<and> session_lookup t' = (session_lookup t)(key \<mapsto> new_session key now) \<and>
    (\<exists>i < SESSION_BUCKETS. r = Some i \<and> session_at t' i = new_session key now)"
proof -
  from find_create [OF inv key(1) free, of now] obtain i where i: "i < SESSION_BUCKETS"
    "\<not> s_in_use (t_buckets t ! i)" "probe_chain (t_buckets t) key i" "r = Some i"
    "t' = \<lparr>t_buckets = (t_buckets t)[i := new_session key now], t_count = t_count t + 1\<rparr>"
    using r by auto
  have "s_key (t_buckets t ! j) \<noteq> key" if "j < SESSION_BUCKETS" "s_in_use (t_buckets t ! j)" for j
    using key(1) that by (simp add: session_lookup_None [OF inv])
  then show ?thesis
    using table_write [OF inv i(1), of "new_session key now" "t_count t + 1"] i key
      table_invD(1) [OF inv] by (auto simp: session_at_def)
qed

lemma acquire_evict:
  assumes inv: "table_inv t" and key: "session_lookup t key = None" "length key < SESSION_KEY_LEN"
    and full: "table_full t" and r: "session_find_or_create t key now = (r, t', lg)"
    and victim: "oldest_scan (t_buckets t) 0 None = Some (k, v)"
  shows "table_inv t' \<and> oldest_unblocked (session_lookup t) (s_key v) v \<and>
    session_lookup t' = (session_lookup t)(s_key v := None, key \<mapsto> new_session key now) \<and>
    (\<exists>i < SESSION_BUCKETS. r = Some i \<and> session_at t' i = new_session key now)"
proof -
  note d = table_invD [OF inv]
  from oldest_scan_Some [OF victim] have k: "k < SESSION_BUCKETS" "t_buckets t ! k = v"
    "evictable v" "\<forall>s \<in> set (t_buckets t). evictable s \<longrightarrow> s_last_seen v \<le> s_last_seen s"
    using d(1) by auto
  have r': "r = Some k" "t' = \<lparr>t_buckets = (t_buckets t)[k := new_session key now], t_count = t_count t\<rparr>"
    using r victim find_full_probe [OF inv key(1) full]
    by (auto simp: session_find_or_create_def Let_def)
  have "s_key (t_buckets t ! j) \<noteq> key" if "j < SESSION_BUCKETS" "s_in_use (t_buckets t ! j)" for j
    using key(1) that by (simp add: session_lookup_None [OF inv])
  then have "table_inv t' \<and>
      session_lookup t' = (session_lookup t)(s_key v := None, key \<mapsto> new_session key now)"
    using table_write [OF inv k(1), of "new_session key now" "t_count t"] k key
      full_chain [OF inv full k(1)] by (auto simp: r' evictable_def)
  moreover have "s_last_seen v \<le> s_last_seen s'"
    if "session_lookup t k' = Some s'" "\<not> s_blocked s'" for k' s'
    using k(4) lookup_mem [OF that(1)] lookup_in_use [OF that(1)] that(2)
    by (simp add: evictable_def)
  with k lookup_at [OF inv k(1)] have "oldest_unblocked (session_lookup t) (s_key v) v"
    unfolding oldest_unblocked_def evictable_def by blast
  ultimately show ?thesis using k(1) r' d(1) by (simp add: session_at_def)
qed

lemma acquire_dropped:
  assumes inv: "table_inv t" and key: "session_lookup t key = None" and full: "table_full t"
    and r: "session_find_or_create t key now = (r, t', lg)"
    and none: "oldest_scan (t_buckets t) 0 None = None"
  shows "r = None \<and> t' = t \<and> (\<forall>k s. session_lookup t k = Some s \<longrightarrow> s_blocked s)"
  using r none find_full_probe [OF inv key full] lookup_mem lookup_in_use
  by (fastforce simp: session_find_or_create_def Let_def oldest_scan_None evictable_def)

lemma acquire_refines:
  assumes "table_inv t" and "length key < SESSION_KEY_LEN"
    and "session_find_or_create t key now = (r, t', lg)"
  shows "table_inv t' \<and>
    acquire_spec (session_lookup t) (table_full t) key now (session_lookup t') \<and>
    (case r of None \<Rightarrow> session_lookup t' key = None
     | Some i \<Rightarrow> i < SESSION_BUCKETS \<and> session_lookup t' key = Some (session_at t' i))"
proof (cases "session_lookup t key")
  case (Some s)
  from acquire_present [OF assms(1) Some assms(3)] show ?thesis
    by (auto simp: acquire_spec_def Some)
next
  case None
  show ?thesis
  proof (cases "table_full t")
    case False
    from acquire_new [OF assms(1) None assms(2) False assms(3)] show ?thesis
      by (auto simp: acquire_spec_def None False)
  next
    case True
    show ?thesis
    proof (cases "oldest_scan (t_buckets t) 0 None")
      case none: None
      from acquire_dropped [OF assms(1) None True assms(3) none] assms(1) None True show ?thesis
        by (auto simp: acquire_spec_def)
    next
      case (Some kv)
      then obtain k v where "oldest_scan (t_buckets t) 0 None = Some (k, v)"
        by (cases kv) auto
      from acquire_evict [OF assms(1) None assms(2) True assms(3) this] None True show ?thesis
        by (auto simp: acquire_spec_def)
    qed
  qed
qed

text \<open>
  C24: The table of buckets implements a map from keys to sessions: find-or-create touches the
  session of a present key, adds a zeroed one while a bucket is free, and in a full table
  replaces the least recently active session that is not blocked; it gives up, changing
  nothing, exactly when all 1024 sessions are blocked. The bucket it returns holds the
  session of the key, and the invariant of the probe sequences is kept.
\<close>

theorem find_or_create_refines_map:
  assumes "table_inv t" and "length key < SESSION_KEY_LEN"
    and "session_find_or_create t key now = (r, t', lg)"
  shows "table_inv t' \<and>
    acquire_spec (session_lookup t) (table_full t) key now (session_lookup t') \<and>
    (case r of None \<Rightarrow> session_lookup t' key = None
     | Some i \<Rightarrow> i < SESSION_BUCKETS \<and> session_lookup t' key = Some (session_at t' i))"
  using assms by (rule acquire_refines)

theorem find_or_create_refines_map_witness:
  "\<exists>r t' lg. session_find_or_create session_table_init ''eve@10.0.0.9'' 100 = (r, t', lg) \<and>
     session_lookup t' = [''eve@10.0.0.9'' \<mapsto> new_session ''eve@10.0.0.9'' 100]"
proof -
  obtain r t' lg where r: "session_find_or_create session_table_init ''eve@10.0.0.9'' 100 = (r, t', lg)"
    by (metis prod_cases3)
  have "\<not> table_full session_table_init"
    by (simp add: table_full_def session_table_init_def session_zero_def session_limits)
  moreover have "length ''eve@10.0.0.9'' < SESSION_KEY_LEN" by (simp add: session_limits)
  moreover have "session_lookup session_table_init = Map.empty"
    using session_init_empty by (intro ext) simp
  ultimately show ?thesis
    using find_or_create_refines_map [OF session_init_inv _ r] r
    by (auto simp: acquire_spec_def)
qed

subsection \<open>The interface of the session store\<close>

text \<open>
  The daemon only relies on these laws: what acquiring a session does to the map, and that
  writing a session back through its handle updates the map at its key.
\<close>

definition valid_handle :: "session_table \<Rightarrow> nat \<Rightarrow> bool" where
  "valid_handle t i \<longleftrightarrow> i < SESSION_BUCKETS \<and> s_in_use (t_buckets t ! i)"

fun acquire_all ::
  "('t \<Rightarrow> string \<Rightarrow> int \<Rightarrow> nat option \<times> 't \<times> log_call list) \<Rightarrow> 't \<Rightarrow> (string \<times> int) list \<Rightarrow> 't" where
  "acquire_all acquire t [] = t"
| "acquire_all acquire t ((key, now) # reqs) =
     acquire_all acquire (fst (snd (acquire t key now))) reqs"

locale session_store =
  fixes inv :: "'t \<Rightarrow> bool"
    and lookup :: "'t \<Rightarrow> string \<Rightarrow> session_state option"
    and full :: "'t \<Rightarrow> bool"
    and acquire :: "'t \<Rightarrow> string \<Rightarrow> int \<Rightarrow> nat option \<times> 't \<times> log_call list"
    and handle :: "'t \<Rightarrow> nat \<Rightarrow> bool"
    and get :: "'t \<Rightarrow> nat \<Rightarrow> session_state"
    and put :: "'t \<Rightarrow> nat \<Rightarrow> session_state \<Rightarrow> 't"
  assumes acquire_inv:
    "inv t \<Longrightarrow> length key < SESSION_KEY_LEN \<Longrightarrow> acquire t key now = (r, t', lg) \<Longrightarrow> inv t'"
    and acquire_map:
    "inv t \<Longrightarrow> length key < SESSION_KEY_LEN \<Longrightarrow> acquire t key now = (r, t', lg) \<Longrightarrow>
       acquire_spec (lookup t) (full t) key now (lookup t')"
    and acquire_none:
    "inv t \<Longrightarrow> length key < SESSION_KEY_LEN \<Longrightarrow> acquire t key now = (None, t', lg) \<Longrightarrow>
       lookup t' key = None"
    and acquire_handle:
    "inv t \<Longrightarrow> length key < SESSION_KEY_LEN \<Longrightarrow> acquire t key now = (Some i, t', lg) \<Longrightarrow>
       handle t' i \<and> lookup t' key = Some (get t' i)"
    and lookup_key: "lookup t key = Some s \<Longrightarrow> s_in_use s \<and> s_key s = key"
    and put_inv:
    "inv t \<Longrightarrow> handle t i \<Longrightarrow> s_in_use s \<Longrightarrow> s_key s = s_key (get t i) \<Longrightarrow> inv (put t i s)"
    and put_map:
    "inv t \<Longrightarrow> handle t i \<Longrightarrow> s_in_use s \<Longrightarrow> s_key s = s_key (get t i) \<Longrightarrow>
       lookup (put t i s) = (lookup t)(s_key s \<mapsto> s)"
begin

lemma acquire_keeps_blocked:
  assumes "inv t" and "length key < SESSION_KEY_LEN" and "acquire t key now = (r, t', lg)"
    and "lookup t k = Some s" and "s_blocked s"
  shows "lookup t' k = Some (if k = key then s\<lparr>s_last_seen := now\<rparr> else s)"
  using acquire_map [OF assms(1-3)] assms(4,5)
  by (auto simp: acquire_spec_def oldest_unblocked_def split: option.splits if_splits)

lemma acquire_all_keeps_blocked:
  assumes "inv t" and "\<And>key now. (key, now) \<in> set reqs \<Longrightarrow> length key < SESSION_KEY_LEN"
    and "lookup t k = Some s" and "s_blocked s"
  shows "inv (acquire_all acquire t reqs) \<and>
    (\<exists>ls. lookup (acquire_all acquire t reqs) k = Some (s\<lparr>s_last_seen := ls\<rparr>))"
  using assms
proof (induction reqs arbitrary: t s)
  case Nil
  have "s = s\<lparr>s_last_seen := s_last_seen s\<rparr>" by simp
  with Nil.prems(1,3) show ?case by (metis acquire_all.simps(1))
next
  case (Cons req reqs)
  obtain key now where req: "req = (key, now)" by fastforce
  obtain r t' lg where a: "acquire t key now = (r, t', lg)" by (metis prod_cases3)
  have key: "length key < SESSION_KEY_LEN" using Cons.prems(2) req by auto
  have "inv t'" using acquire_inv [OF Cons.prems(1) key a] .
  moreover define s' where "s' = (if k = key then s\<lparr>s_last_seen := now\<rparr> else s)"
  moreover have "lookup t' k = Some s'"
    using acquire_keeps_blocked [OF Cons.prems(1) key a Cons.prems(3,4)] by (simp add: s'_def)
  moreover have "s_blocked s'" using Cons.prems(4) by (simp add: s'_def)
  moreover have "acquire_all acquire t (req # reqs) = acquire_all acquire t' reqs"
    using a req by simp
  ultimately obtain ls where "inv (acquire_all acquire t (req # reqs))"
    "lookup (acquire_all acquire t (req # reqs)) k = Some (s'\<lparr>s_last_seen := ls\<rparr>)"
    using Cons.IH [of t' s'] Cons.prems(2) by auto
  moreover have "s'\<lparr>s_last_seen := ls\<rparr> = s\<lparr>s_last_seen := ls\<rparr>" by (simp add: s'_def)
  ultimately show ?case by auto
qed

end

interpretation st: session_store table_inv session_lookup table_full session_find_or_create
  valid_handle session_at session_put
proof unfold_locales
  fix t key now i t' lg
  assume a: "table_inv t" "length key < SESSION_KEY_LEN"
    "session_find_or_create t key now = (Some i, t', lg)"
  have "i < SESSION_BUCKETS" "session_lookup t' key = Some (session_at t' i)"
    using acquire_refines [OF a] by auto
  then show "valid_handle t' i \<and> session_lookup t' key = Some (session_at t' i)"
    using lookup_in_use [of t' key] by (simp add: valid_handle_def session_at_def)
qed (use acquire_refines session_put_lookup lookup_in_use in
     \<open>fastforce simp: valid_handle_def session_at_def\<close>)+

text \<open>
  C25: A blocked session is never lost: whatever sessions are looked up or created after it,
  in any number, it stays in the table with everything but its time stamp unchanged, so the
  deny signal of the channels lasts until the daemon restarts.
\<close>

theorem blocked_session_survives:
  assumes "table_inv t" and "session_lookup t k = Some s" and "s_blocked s"
    and "\<forall>req \<in> set reqs. length (fst req) < SESSION_KEY_LEN"
  shows "\<exists>ls. session_lookup (acquire_all session_find_or_create t reqs) k =
    Some (s\<lparr>s_last_seen := ls\<rparr>)"
proof -
  have "length key < SESSION_KEY_LEN" if "(key, now) \<in> set reqs" for key now
    using assms(4) that by fastforce
  then show ?thesis
    using st.acquire_all_keeps_blocked [OF assms(1) _ assms(2,3), of reqs] by blast
qed

theorem blocked_session_survives_witness:
  "\<exists>t s ls. session_lookup t ''eve@10.0.0.9'' = Some s \<and> s_blocked s \<and>
     session_lookup (acquire_all session_find_or_create t [(''bob@10.0.0.1'', 7), (''al@10.0.0.2'', 8)])
       ''eve@10.0.0.9'' = Some (s\<lparr>s_last_seen := ls\<rparr>)"
proof -
  let ?k = "''eve@10.0.0.9''"
  obtain r t lg where r: "session_find_or_create session_table_init ?k 5 = (r, t, lg)"
    by (metis prod_cases3)
  have len: "length ?k < SESSION_KEY_LEN" by (simp add: session_limits)
  have "\<not> table_full session_table_init"
    by (simp add: table_full_def session_table_init_def session_zero_def session_limits)
  with acquire_new [OF session_init_inv session_init_empty len _ r]
  obtain i where i: "i < SESSION_BUCKETS" "session_at t i = new_session ?k 5" and inv: "table_inv t"
    by auto
  let ?s = "(session_at t i)\<lparr>s_blocked := True\<rparr>"
  have put: "table_inv (session_put t i ?s)"
    "session_lookup (session_put t i ?s) ?k = Some ?s"
    using session_put_lookup [OF inv i(1), of ?s] i len by (auto simp: session_at_def)
  moreover have "s_blocked ?s" by simp
  moreover have "\<forall>req \<in> set [(''bob@10.0.0.1'', 7 :: int), (''al@10.0.0.2'', 8)].
      length (fst req) < SESSION_KEY_LEN"
    by (simp add: session_limits)
  ultimately show ?thesis
    using blocked_session_survives [of "session_put t i ?s" ?k ?s] by blast
qed

subsection \<open>Windows and counters\<close>

definition window_expired :: "int \<Rightarrow> int \<Rightarrow> int \<Rightarrow> bool" where
  "window_expired start now window \<longleftrightarrow> now - (if start = 0 then now else start) \<ge> window"

definition short_counters :: "session_state \<Rightarrow> u32 list" where
  "short_counters s =
     [s_modified s, s_rename s, s_delete s, s_ext_change s, s_ransom_ext s, s_high_entropy s,
      s_yara_match s, s_content_same s]"

text \<open>
  Sliding the windows resets what the windows count and nothing else: the eight activity
  counters go to zero exactly when the short window has run out, the directory set, the
  event id and the risk exactly when the long one has; identity, the block, the time stamp and
  the event total are never touched.
\<close>

theorem check_window_behaviour:
  "let s' = session_check_window s now ws wl;
       short = window_expired (s_window_10s s) now ws;
       long = window_expired (s_window_30s s) now wl
   in s_key s' = s_key s \<and> s_in_use s' = s_in_use s \<and> s_blocked s' = s_blocked s \<and>
      s_last_seen s' = s_last_seen s \<and> s_total_events s' = s_total_events s \<and>
      short_counters s' = (if short then replicate 8 0 else short_counters s) \<and>
      (s_touched_dirs s', s_dir_count s', s_event_id s', s_risk_level s', s_risk_score s') =
        (if long then (0, 0, [], RISK_NORMAL, 0)
         else (s_touched_dirs s, s_dir_count s, s_event_id s, s_risk_level s, s_risk_score s)) \<and>
      s_window_10s s' = (if short \<or> s_window_10s s = 0 then now else s_window_10s s) \<and>
      s_window_30s s' = (if long \<or> s_window_30s s = 0 then now else s_window_30s s)"
  by (simp add: session_check_window_def window_expired_def short_counters_def eval_nat_numeral Let_def)

definition dir_set :: "session_state \<Rightarrow> u64 set" where
  "dir_set s = set (take (s_dir_count s) (s_dir_hashes s))"

definition dir_inv :: "session_state \<Rightarrow> bool" where
  "dir_inv s \<longleftrightarrow>
     length (s_dir_hashes s) = DIR_SET_MAX \<and> s_dir_count s \<le> DIR_SET_MAX \<and>
     distinct (take (s_dir_count s) (s_dir_hashes s)) \<and> 0 \<notin> dir_set s \<and>
     unat (s_touched_dirs s) = s_dir_count s"

lemma dir_inv_card: "dir_inv s \<Longrightarrow> card (dir_set s) = s_dir_count s"
  by (simp add: dir_inv_def dir_set_def distinct_card)

lemma dir_seen_iff: "dir_seen s h \<longleftrightarrow> h \<in> dir_set s"
  by (auto simp: dir_seen_def dir_set_def list_ex_iff)

lemma dir_add_spec:
  assumes "dir_inv s" and "h \<notin> dir_set s" and "h \<noteq> 0"
  shows "dir_inv (dir_add s h) \<and>
    dir_set (dir_add s h) = (if s_dir_count s < DIR_SET_MAX then insert h (dir_set s) else dir_set s)"
  using assms by (auto simp: dir_add_def dir_inv_def dir_set_def unat_sat_inc session_limits)

lemma op_counters_dirs [simp]:
  "s_dir_hashes (session_op_counters s op flags) = s_dir_hashes s"
  "s_dir_count (session_op_counters s op flags) = s_dir_count s"
  "s_touched_dirs (session_op_counters s op flags) = s_touched_dirs s"
  by (simp_all add: session_op_counters_def Let_def)

lemma session_update_dirs:
  assumes "dir_inv s"
  shows "dir_inv (session_update s op flags h) \<and>
    dir_set (session_update s op flags h) =
      (if h \<noteq> 0 \<and> s_dir_count s < DIR_SET_MAX then insert h (dir_set s) else dir_set s)"
proof -
  define s3 where "s3 = (let s1 = session_op_counters s op flags;
          s2 = (if has_flag flags RGUARD_FLAG_HIGH_ENTROPY
                then s1\<lparr>s_high_entropy := sat_inc (s_high_entropy s1)\<rparr> else s1)
      in (if has_flag flags RGUARD_FLAG_YARA_MATCH
          then s2\<lparr>s_yara_match := sat_inc (s_yara_match s2)\<rparr> else s2))"
  define s4 where "s4 = (if h \<noteq> 0 \<and> \<not> dir_seen s3 h then dir_add s3 h else s3)"
  have upd: "session_update s op flags h = s4\<lparr>s_total_events := s_total_events s4 + 1\<rparr>"
    by (simp add: session_update_def s4_def s3_def Let_def)
  have same: "dir_inv (t\<lparr>s_total_events := n\<rparr>) = dir_inv t"
    "dir_set (t\<lparr>s_total_events := n\<rparr>) = dir_set t" for t n
    by (simp_all add: dir_inv_def dir_set_def)
  have s3: "dir_inv s3" "dir_set s3 = dir_set s" "s_dir_count s3 = s_dir_count s"
    using assms by (simp_all add: s3_def dir_inv_def dir_set_def Let_def)
  have "dir_inv s4 \<and> dir_set s4 =
      (if h \<noteq> 0 \<and> s_dir_count s < DIR_SET_MAX then insert h (dir_set s) else dir_set s)"
    using s3 dir_add_spec [OF s3(1), of h] by (auto simp: s4_def dir_seen_iff)
  then show ?thesis by (simp add: upd same)
qed

fun session_run :: "session_state \<Rightarrow> (u8 \<times> u16 \<times> u64) list \<Rightarrow> session_state" where
  "session_run s [] = s"
| "session_run s ((op, flags, h) # es) = session_run (session_update s op flags h) es"

lemma session_run_dirs:
  assumes "dir_inv s" and "finite A"
    and "dir_set s = A \<or> (s_dir_count s = DIR_SET_MAX \<and> dir_set s \<subseteq> A)"
  shows "dir_inv (session_run s es) \<and>
    (let B = A \<union> ((snd \<circ> snd) ` set es - {0}); s' = session_run s es
     in dir_set s' = B \<or> (s_dir_count s' = DIR_SET_MAX \<and> dir_set s' \<subseteq> B))"
  using assms
proof (induction s es arbitrary: A rule: session_run.induct)
  case (2 s op flags h es)
  let ?s = "session_update s op flags h"
  let ?A = "A \<union> ({h} - {0})"
  have step: "dir_inv ?s" "dir_set ?s =
      (if h \<noteq> 0 \<and> s_dir_count s < DIR_SET_MAX then insert h (dir_set s) else dir_set s)"
    using session_update_dirs [OF "2.prems"(1)] by auto
  have cnt: "card (dir_set s) = s_dir_count s" "card (dir_set ?s) = s_dir_count ?s"
    "s_dir_count s \<le> DIR_SET_MAX"
    using "2.prems"(1) step(1) by (auto simp: dir_inv_card) (simp add: dir_inv_def)
  have "dir_set ?s = ?A \<or> (s_dir_count ?s = DIR_SET_MAX \<and> dir_set ?s \<subseteq> ?A)"
    using "2.prems"(3) step(2) cnt by (cases "h \<noteq> 0 \<and> s_dir_count s < DIR_SET_MAX") auto
  from "2.IH" [OF step(1) _ this] "2.prems"(2)
  have "dir_inv (session_run s ((op, flags, h) # es)) \<and>
    (let B = ?A \<union> ((snd \<circ> snd) ` set es - {0}); s' = session_run s ((op, flags, h) # es)
     in dir_set s' = B \<or> (s_dir_count s' = DIR_SET_MAX \<and> dir_set s' \<subseteq> B))"
    by simp
  moreover have "?A \<union> ((snd \<circ> snd) ` set es - {0}) =
      A \<union> ((snd \<circ> snd) ` set ((op, flags, h) # es) - {0})"
    by auto
  ultimately show ?case by (simp only:)
qed (simp add: Let_def)

text \<open>
  The number of touched directories the scorer reads is exact: after any run of events
  from a fresh window it is the number of distinct directories the events named (a zero hash
  names none), capped at the 256 slots of the set, and the set never holds a directory twice.
\<close>

theorem touched_dirs_exact:
  assumes "dir_inv s" and "s_dir_count s = 0"
  shows "dir_inv (session_run s es) \<and>
    unat (s_touched_dirs (session_run s es)) =
      min DIR_SET_MAX (card ((snd \<circ> snd) ` set es - {0}))"
proof -
  let ?s = "session_run s es" and ?B = "(snd \<circ> snd) ` set es - {0}"
  have "dir_set s = {}" using assms(2) by (simp add: dir_set_def)
  then have run: "dir_inv ?s" "dir_set ?s = ?B \<or> (s_dir_count ?s = DIR_SET_MAX \<and> dir_set ?s \<subseteq> ?B)"
    using session_run_dirs [OF assms(1), of "{}" es] by (auto simp: Let_def)
  have cnt: "card (dir_set ?s) = s_dir_count ?s" "s_dir_count ?s \<le> DIR_SET_MAX"
    "unat (s_touched_dirs ?s) = s_dir_count ?s"
    using run(1) by (auto simp: dir_inv_card) (auto simp: dir_inv_def)
  have "card (dir_set ?s) \<le> card ?B" using run(2) by (auto intro!: card_mono)
  with run cnt show ?thesis by auto
qed

theorem touched_dirs_exact_witness:
  "unat (s_touched_dirs (session_run session_zero
     [(RGUARD_OP_OPEN, RGUARD_FLAG_RISKY, 11), (RGUARD_OP_DELETE, 0, 12), (RGUARD_OP_CLOSE, 0, 11),
      (RGUARD_OP_OPEN, 0, 0)])) = 2"
proof -
  have "dir_inv session_zero"
    by (simp add: dir_inv_def dir_set_def session_zero_def)
  moreover have "s_dir_count session_zero = 0" by (simp add: session_zero_def)
  ultimately show ?thesis
    using touched_dirs_exact [of session_zero
      "[(RGUARD_OP_OPEN, RGUARD_FLAG_RISKY, 11), (RGUARD_OP_DELETE, 0, 12), (RGUARD_OP_CLOSE, 0, 11),
        (RGUARD_OP_OPEN, 0, 0)]"]
    by (simp add: session_limits insert_Diff_if card_insert_if)
qed

end
