(* ===== verification/Scorer.thy ===== *)
theory Scorer
  imports Rguard_Config Session_Table
begin

text \<open>
  \<open>src/daemon/gfrguardd_scorer.c\<close>: the risk score of a session, the white-, black- and
  exception lists, and the automatic blacklist. Addresses are host-order words: masking and
  comparing network-order words after \<open>htonl\<close> gives the same answers.
\<close>

subsection \<open>Address patterns\<close>

definition is_cidr :: "string \<Rightarrow> bool" where
  "is_cidr s \<longleftrightarrow> strchr s CHR ''/'' \<noteq> None"

definition is_ip_range :: "string \<Rightarrow> bool" where
  "is_ip_range s \<longleftrightarrow> strchr s CHR ''-'' \<noteq> None"

definition ip_in_cidr :: "string \<Rightarrow> string \<Rightarrow> bool" where
  "ip_in_cidr ip cidr =
     (let buf = take 63 cidr in
      case strchr buf CHR ''/'' of
        None \<Rightarrow> False
      | Some slash \<Rightarrow>
          (let net_s = take (length buf - length slash) buf; pfx = atoi (tl slash) in
           if pfx < 0 \<or> pfx > 32 then False
           else case inet_aton net_s of
             None \<Rightarrow> False
           | Some net \<Rightarrow>
               (case inet_aton ip of
                  None \<Rightarrow> False
                | Some addr \<Rightarrow>
                    (let mask = (if pfx = 0 then 0 else NOT (push_bit (32 - nat pfx) 1 - 1 :: u32))
                     in addr AND mask = net AND mask))))"

definition ip_in_range :: "string \<Rightarrow> string \<Rightarrow> bool" where
  "ip_in_range ip rng =
     (let buf = take 63 rng in
      case strchr buf CHR ''-'' of
        None \<Rightarrow> False
      | Some dash \<Rightarrow>
          (case (inet_aton (take (length buf - length dash) buf), inet_aton (tl dash), inet_aton ip) of
             (Some a_start, Some a_end, Some ip_val) \<Rightarrow>
               (let (start_val, end_val) = (if a_start > a_end then (a_end, a_start) else (a_start, a_end))
                in ip_val \<ge> start_val \<and> ip_val \<le> end_val)
           | _ \<Rightarrow> False))"

subsection \<open>The score\<close>

definition clamp100 :: "int \<Rightarrow> int" where
  "clamp100 v = (if v < 0 then 0 else if v > 100 then 100 else v)"

definition raw_score :: "session_state \<Rightarrow> rguard_weights \<Rightarrow> int" where
  "raw_score s w =
     int (unat (s_modified s)) * w_modified w + int (unat (s_rename s)) * w_rename w +
     int (unat (s_delete s)) * w_delete w + int (unat (s_touched_dirs s)) * w_dirs w +
     int (unat (s_ext_change s)) * w_ext_change w + int (unat (s_ransom_ext s)) * w_ransom_ext w +
     (if s_high_entropy s \<noteq> 0 then 1 else 0) * w_high_entropy w +
     (if s_yara_match s \<noteq> 0 then 1 else 0) * w_yara_match w"

definition content_same_cap :: "session_state \<Rightarrow> rguard_policy \<Rightarrow> int \<Rightarrow> int" where
  "content_same_cap s p score =
     (let total_writes = s_modified s + s_content_same s in
      if total_writes > 0 \<and> s_content_same s > 0 then
        (let pct_same = (s_content_same s * 100) div total_writes in
         if pct_same \<ge> 80 then 0
         else if pct_same \<ge> 50 then
           (let cap = th_warn (sc_thresholds (p_scoring p)) - 1 in if score > cap then cap else score)
         else score)
      else score)"

definition delete_only :: "session_state \<Rightarrow> bool" where
  "delete_only s \<longleftrightarrow>
     s_modified s = 0 \<and> s_rename s = 0 \<and> s_ext_change s = 0 \<and> s_ransom_ext s = 0 \<and>
     s_high_entropy s = 0 \<and> s_yara_match s = 0 \<and> s_delete s > 0"

definition score_dims :: "session_state \<Rightarrow> nat" where
  "score_dims s =
     (if s_modified s > 0 then 1 else 0) + (if s_rename s > 0 then 1 else 0) +
     (if s_delete s > 0 then 1 else 0) + (if s_touched_dirs s > 0 then 1 else 0) +
     (if s_ext_change s > 0 then 1 else 0)"

definition score_level :: "rguard_thresholds \<Rightarrow> u32 \<Rightarrow> int" where
  "score_level t rs =
     (if sint rs \<ge> th_critical t then RISK_CRITICAL
      else if sint rs \<ge> th_high t then RISK_HIGH
      else if sint rs \<ge> th_warn t then RISK_SUSPICIOUS
      else RISK_NORMAL)"

definition scorer_calculate :: "session_state \<Rightarrow> rguard_policy \<Rightarrow> session_state" where
  "scorer_calculate s p =
     (let t = sc_thresholds (p_scoring p);
          score = content_same_cap s p (raw_score s (sc_weights (p_scoring p)));
          rs1 = word_of_int (clamp100 score) :: u32;
          rs2 = (if delete_only s then (if rs1 > 60 then 60 else rs1) else rs1);
          evidence = (s_ransom_ext s > 0);
          cap = th_critical t - 1;
          rs3 = (if score_dims s = 1 \<and> \<not> evidence
                 then (if int (unat rs2) > cap then word_of_int cap else rs2) else rs2)
      in s\<lparr>s_risk_score := rs3, s_risk_level := score_level t rs3\<rparr>)"

subsection \<open>White and black lists\<close>

definition entry_matches :: "string \<Rightarrow> string \<Rightarrow> bool" where
  "entry_matches client_ip entry =
     (if is_cidr entry then ip_in_cidr client_ip entry
      else if is_ip_range entry then ip_in_range client_ip entry
      else False)"

definition scorer_is_whitelisted ::
  "rguard_policy \<Rightarrow> string option \<Rightarrow> string option \<Rightarrow> bool" where
  "scorer_is_whitelisted p username client_ip =
     (let wl = p_whitelist p in
      if (case username of None \<Rightarrow> False
          | Some u \<Rightarrow> rguard_hash_lookup u (wl_user_hashes wl) (wl_users wl) (int (length (wl_users wl))))
      then True
      else case client_ip of
        None \<Rightarrow> False
      | Some ip \<Rightarrow>
          if rguard_hash_lookup ip (wl_ip_hashes wl) (wl_ips wl) (int (length (wl_ips wl))) then True
          else list_ex (entry_matches ip) (wl_ips wl))"

definition auto_matches :: "string \<Rightarrow> string \<Rightarrow> bool" where
  "auto_matches client_ip entry =
     (if entry = [] then False
      else if client_ip = entry then True
      else if is_cidr entry \<and> ip_in_cidr client_ip entry then True
      else is_ip_range entry \<and> ip_in_range client_ip entry)"

definition scorer_is_blacklisted ::
  "rguard_policy \<Rightarrow> string option \<Rightarrow> string option \<Rightarrow> bool" where
  "scorer_is_blacklisted p username client_ip =
     (let bl = p_blacklist p in
      if (case username of None \<Rightarrow> False
          | Some u \<Rightarrow> rguard_hash_lookup u (bl_user_hashes bl) (bl_users bl) (int (length (bl_users bl))))
      then True
      else case client_ip of
        None \<Rightarrow> False
      | Some ip \<Rightarrow>
          if rguard_hash_lookup ip (bl_ip_hashes bl) (map b_ip (bl_ips bl)) (int (length (bl_ips bl)))
          then True
          else if list_ex (\<lambda>e. entry_matches ip (b_ip e)) (bl_ips bl) then True
          else list_ex (\<lambda>e. auto_matches ip (b_ip e)) (bl_auto_ips bl))"

subsection \<open>Exceptions\<close>

definition suffix_match :: "string \<Rightarrow> string \<Rightarrow> bool" where
  "suffix_match file_path ef =
     (let fplen = length file_path; eflen = length ef in
      if eflen = 0 \<or> fplen \<le> eflen then False
      else if file_path ! (fplen - eflen - 1) \<noteq> CHR ''/'' then False
      else drop (fplen - eflen) file_path = ef)"

fun back_up :: "string \<Rightarrow> nat \<Rightarrow> nat" where
  "back_up path 0 = 0"
| "back_up path (Suc c) = (if path ! Suc c \<noteq> CHR ''/'' then back_up path c else Suc c)"

lemma back_up_le: "back_up path c \<le> c"
  by (induction path c rule: back_up.induct) auto

lemma back_up_less: "0 < c \<Longrightarrow> path ! c \<noteq> CHR ''/'' \<Longrightarrow> back_up path c < c"
  using back_up_le [of path] by (cases c) (auto simp: less_Suc_eq_le)

text \<open>The walk over the path itself and its parent directories, the cursor an index.\<close>

function folder_walk :: "rguard_exceptions \<Rightarrow> string \<Rightarrow> nat \<Rightarrow> bool" where
  "folder_walk ex path cursor =
     (if cursor > 0 then
        if cursor \<noteq> length path \<and> path ! cursor \<noteq> CHR ''/'' then folder_walk ex path (back_up path cursor)
        else if rguard_hash_lookup_len path cursor (ex_folder_hashes ex) (ex_folders ex)
                  (int (length (ex_folders ex)))
        then True
        else folder_walk ex path (back_up path (cursor - 1))
      else False)"
  by pat_completeness auto
termination
  by (relation "measure (\<lambda>(ex, path, cursor). cursor)")
    (auto simp: back_up_less intro: le_less_trans [OF back_up_le])

declare folder_walk.simps [simp del]

definition scorer_is_excepted :: "rguard_policy \<Rightarrow> string \<Rightarrow> bool" where
  "scorer_is_excepted p file_path =
     (let ex = p_exceptions p in
      if file_path = [] then False
      else if rguard_hash_lookup file_path (ex_file_hashes ex) (ex_files ex) (int (length (ex_files ex)))
      then True
      else if list_ex (suffix_match file_path) (ex_files ex) then True
      else if ex_folders ex \<noteq> [] then folder_walk ex file_path (length file_path)
      else False)"

subsection \<open>The automatic blacklist\<close>

definition scorer_blacklist_auto_add :: "rguard_policy \<Rightarrow> string \<Rightarrow> rguard_policy" where
  "scorer_blacklist_auto_add p client_ip =
     (let bl = p_blacklist p in
      if client_ip = [] then p
      else if \<not> is_real_ip client_ip then p
      else if list_ex (\<lambda>e. b_ip e = client_ip) (bl_ips bl) then p
      else if list_ex (\<lambda>e. b_ip e = client_ip) (bl_auto_ips bl) then p
      else
        let autos = (if length (bl_auto_ips bl) \<ge> RGUARD_BLACKLIST_AUTO_MAX
                     then take (RGUARD_BLACKLIST_AUTO_MAX - 1) (drop 1 (bl_auto_ips bl))
                     else bl_auto_ips bl)
        in p\<lparr>p_blacklist := bl\<lparr>bl_auto_ips :=
               autos @ [\<lparr>b_ip = snprintf_s RGUARD_IP_LEN client_ip, b_auto_add = True\<rparr>]\<rparr>\<rparr>)"

subsection \<open>Bounds of the score\<close>

lemma clamp100_range: "0 \<le> clamp100 v \<and> clamp100 v \<le> 100"
  by (simp add: clamp100_def)

lemma small_score:
  assumes "0 \<le> v" and "v \<le> 100"
  shows "unat (word_of_int v :: u32) = nat v" and "sint (word_of_int v :: u32) = v"
    and "uint (word_of_int v :: u32) = v"
proof -
  have "take_bit 32 v = v" using assms by (simp add: take_bit_int_eq_self)
  then show "unat (word_of_int v :: u32) = nat v" "uint (word_of_int v :: u32) = v"
    using assms(1) by (simp_all add: unsigned_of_int)
  have "signed_take_bit 31 v = v" using assms by (simp add: signed_take_bit_int_eq_self)
  then show "sint (word_of_int v :: u32) = v" by (simp add: signed_of_int)
qed

text \<open>The score as a number: the clamped sum with the two caps applied.\<close>

definition capped_score :: "session_state \<Rightarrow> rguard_policy \<Rightarrow> int" where
  "capped_score s p =
     (let v = clamp100 (content_same_cap s p (raw_score s (sc_weights (p_scoring p))));
          d = (if delete_only s then min v 60 else v)
      in if score_dims s = 1 \<and> s_ransom_ext s = 0
         then min d (th_critical (sc_thresholds (p_scoring p)) - 1) else d)"

lemma capped_score_range:
  assumes "ranges_ok p"
  shows "0 \<le> capped_score s p \<and> capped_score s p \<le> 100"
  using assms clamp100_range by (auto simp: capped_score_def ranges_ok_def Let_def min_def)

lemma scorer_calculate_capped:
  assumes "ranges_ok p"
  shows "s_risk_score (scorer_calculate s p) = word_of_int (capped_score s p)"
    and "s_risk_level (scorer_calculate s p) =
      score_level (sc_thresholds (p_scoring p)) (word_of_int (capped_score s p))"
proof -
  define v where "v = clamp100 (content_same_cap s p (raw_score s (sc_weights (p_scoring p))))"
  have v: "0 \<le> v" "v \<le> 100" using clamp100_range by (simp_all add: v_def)
  have c: "1 \<le> th_critical (sc_thresholds (p_scoring p))"
    using assms by (auto simp: ranges_ok_def Let_def)
  have gt60: "(word_of_int v :: u32) > 60 \<longleftrightarrow> v > 60"
    using v by (auto simp: word_less_nat_alt small_score)
  have "(if delete_only s then if (word_of_int v :: u32) > 60 then 60 else word_of_int v
      else word_of_int v) = (word_of_int (if delete_only s then min v 60 else v) :: u32)"
    unfolding gt60 by (auto simp: min_def)
  moreover define d where "d = (if delete_only s then min v 60 else v)"
  moreover have "0 \<le> d" "d \<le> 100" using v by (auto simp: d_def)
  moreover have "(s_ransom_ext s > 0) = (s_ransom_ext s \<noteq> 0)"
    by (simp add: word_gt_0)
  ultimately have "s_risk_score (scorer_calculate s p) = word_of_int (capped_score s p) \<and>
      s_risk_level (scorer_calculate s p) =
        score_level (sc_thresholds (p_scoring p)) (word_of_int (capped_score s p))"
    using c unfolding scorer_calculate_def capped_score_def Let_def v_def [symmetric] d_def [symmetric]
    by (auto simp: small_score min_def)
  then show "s_risk_score (scorer_calculate s p) = word_of_int (capped_score s p)"
    and "s_risk_level (scorer_calculate s p) =
      score_level (sc_thresholds (p_scoring p)) (word_of_int (capped_score s p))" by auto
qed

lemma score_level_eq:
  assumes "0 \<le> v" and "v \<le> 100"
  shows "score_level t (word_of_int v) =
    (if v \<ge> th_critical t then RISK_CRITICAL else if v \<ge> th_high t then RISK_HIGH
     else if v \<ge> th_warn t then RISK_SUSPICIOUS else RISK_NORMAL)"
  by (simp add: score_level_def small_score [OF assms])

text \<open>
  The score of a session under a loaded policy is a number from 0 to 100, and the level
  follows from it by the three thresholds alone.
\<close>

theorem score_bounded:
  assumes "ranges_ok p"
  shows "let s' = scorer_calculate s p; t = sc_thresholds (p_scoring p); v = int (unat (s_risk_score s'))
    in v \<le> 100 \<and> (s_risk_level s' = RISK_CRITICAL \<longleftrightarrow> th_critical t \<le> v) \<and>
       (s_risk_level s' = RISK_HIGH \<longleftrightarrow> th_high t \<le> v \<and> v < th_critical t) \<and>
       (s_risk_level s' = RISK_SUSPICIOUS \<longleftrightarrow> th_warn t \<le> v \<and> v < th_high t) \<and>
       (s_risk_level s' = RISK_NORMAL \<longleftrightarrow> v < th_warn t)"
proof -
  have "th_warn (sc_thresholds (p_scoring p)) < th_high (sc_thresholds (p_scoring p))"
    "th_high (sc_thresholds (p_scoring p)) < th_critical (sc_thresholds (p_scoring p))"
    using assms by (auto simp: ranges_ok_def Let_def)
  with capped_score_range [OF assms, of s] show ?thesis
    by (auto simp: scorer_calculate_capped [OF assms] Let_def small_score score_level_eq risk_defs)
qed

lemma defaults_ranges: "ranges_ok apply_defaults"
  by (simp add: ranges_ok_def apply_defaults_def)

theorem score_bounded_witness:
  "let v = int (unat (s_risk_score (scorer_calculate
       (session_zero\<lparr>s_modified := 40, s_touched_dirs := 9\<rparr>) apply_defaults))) in v \<le> 100"
  using score_bounded [OF defaults_ranges, of "session_zero\<lparr>s_modified := 40, s_touched_dirs := 9\<rparr>"]
  by (simp add: Let_def)

text \<open>
  C35: One behavioural dimension alone does not block: a session without a YARA hit that only
  modified, only renamed, only deleted, only spread over directories or only changed extensions,
  with no known ransomware extension seen, stays below CRITICAL, whatever the counts and weights.
  YARA hits do not change that, against the requirements and the scorer's own tests, which want any
  hit to make the session CRITICAL; the code follows its comment and the architecture, where a hit
  only adds its weight and does not lift the limit of a single dimension.
\<close>

theorem single_dimension_not_critical:
  assumes "ranges_ok p" and "score_dims s = 1" and "s_ransom_ext s = 0" and "s_yara_match s = 0"
  shows "s_risk_level (scorer_calculate s p) \<noteq> RISK_CRITICAL \<and>
    s_risk_level (scorer_calculate (s\<lparr>s_yara_match := hits\<rparr>) p) \<noteq> RISK_CRITICAL"
proof -
  have "s_risk_level (scorer_calculate s' p) \<noteq> RISK_CRITICAL" if "score_dims s' = 1" "s_ransom_ext s' = 0" for s'
    using that assms(1) capped_score_range [OF assms(1), of s']
    by (auto simp: scorer_calculate_capped [OF assms(1)] score_level_eq risk_defs capped_score_def Let_def)
  from this [of s] this [of "s\<lparr>s_yara_match := hits\<rparr>"] assms(2,3) show ?thesis
    by (simp add: score_dims_def)
qed

theorem single_dimension_not_critical_witness:
  "s_risk_level (scorer_calculate (session_zero\<lparr>s_modified := 100000\<rparr>) apply_defaults) \<noteq> RISK_CRITICAL \<and>
   s_risk_level (scorer_calculate (session_zero\<lparr>s_modified := 1, s_yara_match := 1\<rparr>) apply_defaults) \<noteq> RISK_CRITICAL"
  using single_dimension_not_critical [OF defaults_ranges, of "session_zero\<lparr>s_modified := 100000\<rparr>" 0]
    single_dimension_not_critical [OF defaults_ranges, of "session_zero\<lparr>s_modified := 1\<rparr>" 1]
  by (simp add: score_dims_def session_zero_def)

text \<open>
  A bulk copy of identical content is not an attack: when at least four fifths of the
  writes of the window left the content unchanged, the score is zero and the level NORMAL, as long
  as the percentage computation does not overflow its 32 bits.
\<close>

theorem content_same_suppresses:
  assumes "ranges_ok p"
    and "unat (s_modified s) + unat (s_content_same s) < 2 ^ 32"
    and "unat (s_content_same s) * 100 < 2 ^ 32"
    and "0 < unat (s_content_same s)"
    and "80 * (unat (s_modified s) + unat (s_content_same s)) \<le> unat (s_content_same s) * 100"
  shows "s_risk_score (scorer_calculate s p) = 0 \<and> s_risk_level (scorer_calculate s p) = RISK_NORMAL"
proof -
  let ?m = "unat (s_modified s)" and ?c = "unat (s_content_same s)"
  have tot: "unat (s_modified s + s_content_same s) = ?m + ?c"
    using assms(2) by (simp add: unat_word_ariths)
  have mul: "unat (s_content_same s * 100) = ?c * 100"
    using assms(3) by (simp add: unat_word_ariths)
  have "80 \<le> (?c * 100) div (?m + ?c)"
    using assms(4,5) by (subst less_eq_div_iff_mult_less_eq) auto
  then have "(80 :: u32) \<le> (s_content_same s * 100) div (s_modified s + s_content_same s)"
    by (simp add: word_le_nat_alt unat_div tot mul)
  moreover have "s_modified s + s_content_same s > 0" "s_content_same s > 0"
    using assms(4) by (auto simp: word_less_nat_alt tot)
  ultimately have "content_same_cap s p r = 0" for r
    by (simp add: content_same_cap_def Let_def)
  moreover have "1 \<le> th_warn (sc_thresholds (p_scoring p))" "1 \<le> th_critical (sc_thresholds (p_scoring p))"
    "1 \<le> th_high (sc_thresholds (p_scoring p))"
    using assms(1) by (auto simp: ranges_ok_def Let_def)
  ultimately have "capped_score s p = 0"
    by (auto simp: capped_score_def clamp100_def Let_def)
  with \<open>1 \<le> th_warn _\<close> \<open>1 \<le> th_critical _\<close> \<open>1 \<le> th_high _\<close> show ?thesis
    by (simp add: scorer_calculate_capped [OF assms(1)] score_level_def risk_defs)
qed

theorem content_same_suppresses_witness:
  "s_risk_score (scorer_calculate
     (session_zero\<lparr>s_modified := 20, s_content_same := 80, s_touched_dirs := 30\<rparr>) apply_defaults) = 0"
  using content_same_suppresses [OF defaults_ranges,
      of "session_zero\<lparr>s_modified := 20, s_content_same := 80, s_touched_dirs := 30\<rparr>"]
  by (simp add: session_zero_def)

text \<open>
  Deletions alone score at most 60, but 60 need not be below the critical threshold: under
  a policy whose critical threshold is at most 60, which the loader accepts, a session that
  only deleted files in several directories still becomes CRITICAL.
\<close>

theorem delete_only_capped_not_below_critical:
  assumes "ranges_ok p" and "delete_only s"
  shows "int (unat (s_risk_score (scorer_calculate s p))) \<le> 60 \<and>
    (s_touched_dirs s \<noteq> 0 \<and> th_critical (sc_thresholds (p_scoring p)) \<le> 60 \<and>
       60 \<le> content_same_cap s p (raw_score s (sc_weights (p_scoring p))) \<longrightarrow>
     s_risk_level (scorer_calculate s p) = RISK_CRITICAL)"
proof -
  have "capped_score s p \<le> 60"
    using assms(2) by (auto simp: capped_score_def Let_def min_def)
  moreover have "score_dims s = 2" if "s_touched_dirs s \<noteq> 0"
    using assms(2) that by (auto simp: delete_only_def score_dims_def word_gt_0)
  ultimately show ?thesis
    using capped_score_range [OF assms(1), of s] assms(2)
      score_level_eq [of 60 "sc_thresholds (p_scoring p)"]
    by (auto simp: scorer_calculate_capped [OF assms(1)] small_score score_level_eq capped_score_def
        clamp100_def Let_def)
qed

definition low_critical_policy :: rguard_policy where
  "low_critical_policy = apply_defaults\<lparr>p_scoring := (p_scoring apply_defaults)
     \<lparr>sc_thresholds := \<lparr>th_warn = 20, th_high = 40, th_critical = 60\<rparr>\<rparr>\<rparr>"

theorem delete_only_capped_not_below_critical_witness:
  "s_risk_level (scorer_calculate (session_zero\<lparr>s_delete := 30, s_touched_dirs := 4\<rparr>)
     low_critical_policy) = RISK_CRITICAL"
proof -
  have "ranges_ok low_critical_policy"
    by (simp add: ranges_ok_def low_critical_policy_def apply_defaults_def)
  moreover have "delete_only (session_zero\<lparr>s_delete := 30, s_touched_dirs := 4\<rparr>)"
    by (simp add: delete_only_def session_zero_def)
  ultimately show ?thesis
    using delete_only_capped_not_below_critical
        [of low_critical_policy "session_zero\<lparr>s_delete := 30, s_touched_dirs := 4\<rparr>"]
    by (simp add: low_critical_policy_def apply_defaults_def session_zero_def content_same_cap_def
        raw_score_def)
qed

subsection \<open>The lists\<close>

lemma cidr_mask_eq:
  fixes a b :: u32
  assumes "n \<le> 32"
  shows "(a AND NOT (push_bit n 1 - 1) = b AND NOT (push_bit n 1 - 1)) \<longleftrightarrow> drop_bit n a = drop_bit n b"
proof -
  have m: "(push_bit n 1 - 1 :: u32) = mask n"
    by (simp add: mask_eq_exp_minus_1 push_bit_eq_mult)
  have bits: "bit (x AND NOT (mask n)) i = (bit x i \<and> n \<le> i)" for x :: u32 and i
    by (auto simp: bit_simps dest: bit_imp_le_length)
  show ?thesis unfolding m
  proof
    assume eq: "a AND NOT (mask n) = b AND NOT (mask n)"
    show "drop_bit n a = drop_bit n b"
    proof (rule bit_eqI)
      fix i
      show "bit (drop_bit n a) i = bit (drop_bit n b) i"
        using arg_cong [OF eq, of "\<lambda>x. bit x (n + i)"] bits by (simp add: bit_drop_bit_eq)
    qed
  next
    assume eq: "drop_bit n a = drop_bit n b"
    show "a AND NOT (mask n) = b AND NOT (mask n)"
    proof (rule bit_eqI)
      fix i
      show "bit (a AND NOT (mask n)) i = bit (b AND NOT (mask n)) i"
        using arg_cong [OF eq, of "\<lambda>x. bit x (i - n)"] bits by (auto simp: bit_drop_bit_eq)
    qed
  qed
qed

text \<open>
  A CIDR entry of prefix length \<open>k\<close> matches exactly the addresses that agree with its
  network address on the first \<open>k\<close> bits (all of them for \<open>k = 0\<close>), and an address range
  matches exactly the addresses between its bounds, in whichever order they are written.
\<close>

theorem ip_patterns_meaning:
  assumes "CHR ''/'' \<notin> set net" and "length net + length k < 63" and "atoi k = int n" and "n \<le> 32"
    and "inet_aton net = Some w" and "CHR ''-'' \<notin> set lo" and "length lo + length hi < 63"
    and "inet_aton lo = Some x" and "inet_aton hi = Some y" and "inet_aton ip = Some v"
  shows "(ip_in_cidr ip (net @ ''/'' @ k) \<longleftrightarrow> drop_bit (32 - n) v = drop_bit (32 - n) w) \<and>
    (ip_in_range ip (lo @ ''-'' @ hi) \<longleftrightarrow> min x y \<le> v \<and> v \<le> max x y)"
proof
  have buf: "take 63 (net @ ''/'' @ k) = net @ CHR ''/'' # k" using assms(2) by simp
  have sl: "strchr (net @ CHR ''/'' # k) CHR ''/'' = Some (CHR ''/'' # k)"
    by (rule strchr_append) (rule assms(1))
  have zero: "drop_bit 32 (z :: u32) = 0" for z
    by (rule bit_eqI) (auto simp: bit_drop_bit_eq dest: bit_imp_le_length)
  show "ip_in_cidr ip (net @ ''/'' @ k) \<longleftrightarrow> drop_bit (32 - n) v = drop_bit (32 - n) w"
    unfolding ip_in_cidr_def buf Let_def using assms(3-5,10) cidr_mask_eq [of "32 - n" v w]
    by (simp add: sl zero)
  have buf': "take 63 (lo @ ''-'' @ hi) = lo @ CHR ''-'' # hi" using assms(7) by simp
  have sl': "strchr (lo @ CHR ''-'' # hi) CHR ''-'' = Some (CHR ''-'' # hi)"
    by (rule strchr_append) (rule assms(6))
  show "ip_in_range ip (lo @ ''-'' @ hi) \<longleftrightarrow> min x y \<le> v \<and> v \<le> max x y"
    unfolding ip_in_range_def buf' Let_def using assms(8-10)
    by (auto simp: sl' min_def max_def)
qed

lemmas inet_simps = inet_aton_def aton_parts.simps strtoul0_def digit_val_def xdigit_val_def
  aton_value_def is_space_def upt_conv_Cons

theorem ip_patterns_meaning_witness:
  "ip_in_cidr ''10.1.7.9'' ''10.1.0.0/16'' \<and> \<not> ip_in_range ''10.1.7.9'' ''10.0.0.9-10.0.0.1''"
proof -
  have "CHR ''/'' \<notin> set ''10.1.0.0''" "length ''10.1.0.0'' + length ''16'' < 63"
    "CHR ''-'' \<notin> set ''10.0.0.9''" "length ''10.0.0.9'' + length ''10.0.0.1'' < 63" "(16 :: nat) \<le> 32"
    by simp_all
  moreover have "atoi ''16'' = int 16"
    by (simp add: atoi_def is_space_def xdigit_val_def)
  moreover have "inet_aton ''10.1.0.0'' = Some 0x0A010000" "inet_aton ''10.0.0.9'' = Some 0x0A000009"
    "inet_aton ''10.0.0.1'' = Some 0x0A000001" "inet_aton ''10.1.7.9'' = Some 0x0A010709"
    by (simp_all add: inet_simps)
  ultimately show ?thesis
    using ip_patterns_meaning [of "''10.1.0.0''" "''16''" 16 "0x0A010000" "''10.0.0.9''" "''10.0.0.1''"
        "0x0A000009" "0x0A000001" "''10.1.7.9''" "0x0A010709"]
    by simp
qed

text \<open>What the lists mean, on the sets of their entries.\<close>

definition whitelist_spec :: "rguard_policy \<Rightarrow> string \<Rightarrow> string \<Rightarrow> bool" where
  "whitelist_spec p u ip \<longleftrightarrow>
     (u \<noteq> [] \<and> u \<in> set (wl_users (p_whitelist p))) \<or>
     (ip \<noteq> [] \<and> ip \<in> set (wl_ips (p_whitelist p))) \<or>
     (\<exists>e \<in> set (wl_ips (p_whitelist p)). entry_matches ip e)"

definition blacklist_spec :: "rguard_policy \<Rightarrow> string \<Rightarrow> string \<Rightarrow> bool" where
  "blacklist_spec p u ip \<longleftrightarrow>
     (u \<noteq> [] \<and> u \<in> set (bl_users (p_blacklist p))) \<or>
     (\<exists>e \<in> b_ip ` set (bl_ips (p_blacklist p)). (ip \<noteq> [] \<and> e = ip) \<or> entry_matches ip e) \<or>
     (\<exists>e \<in> b_ip ` set (bl_auto_ips (p_blacklist p)). auto_matches ip e)"

lemma whitelisted_iff:
  "mirrors_ok p \<Longrightarrow> scorer_is_whitelisted p (Some u) (Some ip) = whitelist_spec p u ip"
  by (auto simp: mirrors_ok_def scorer_is_whitelisted_def whitelist_spec_def rguard_hash_lookup_iff
      list_ex_iff Let_def)

lemma blacklisted_iff:
  assumes "mirrors_ok p"
  shows "scorer_is_blacklisted p (Some u) (Some ip) = blacklist_spec p u ip"
    and "scorer_is_blacklisted p None (Some ip) = blacklist_spec p [] ip"
proof -
  let ?bl = "p_blacklist p"
  have u: "rguard_hash_lookup u (bl_user_hashes ?bl) (bl_users ?bl) (int (length (bl_users ?bl))) =
      (u \<noteq> [] \<and> u \<in> set (bl_users ?bl))"
    using assms by (simp add: mirrors_ok_def rguard_hash_lookup_iff)
  have i: "rguard_hash_lookup ip (bl_ip_hashes ?bl) (map b_ip (bl_ips ?bl)) (int (length (bl_ips ?bl))) =
      (ip \<noteq> [] \<and> ip \<in> b_ip ` set (bl_ips ?bl))"
    using assms rguard_hash_lookup_iff [of "bl_ip_hashes ?bl" "map b_ip (bl_ips ?bl)" ip]
    by (simp add: mirrors_ok_def)
  show "scorer_is_blacklisted p (Some u) (Some ip) = blacklist_spec p u ip"
    by (auto simp: scorer_is_blacklisted_def blacklist_spec_def list_ex_iff Let_def u i)
  show "scorer_is_blacklisted p None (Some ip) = blacklist_spec p [] ip"
    by (auto simp: scorer_is_blacklisted_def blacklist_spec_def list_ex_iff Let_def i)
qed

text \<open>An exception: the file itself, a file below a slash, or a listed folder above the file.\<close>

definition exception_spec :: "rguard_policy \<Rightarrow> string \<Rightarrow> bool" where
  "exception_spec p path \<longleftrightarrow> path \<noteq> [] \<and>
     (path \<in> set (ex_files (p_exceptions p)) \<or>
      (\<exists>ef \<in> set (ex_files (p_exceptions p)). ef \<noteq> [] \<and> (\<exists>a. path = a @ ''/'' @ ef)) \<or>
      (\<exists>d \<in> set (ex_folders (p_exceptions p)). d \<noteq> [] \<and> (path = d \<or> (\<exists>rest. path = d @ ''/'' @ rest))))"

lemma suffix_match_iff: "suffix_match path ef \<longleftrightarrow> ef \<noteq> [] \<and> (\<exists>a. path = a @ ''/'' @ ef)"
proof
  assume m: "suffix_match path ef"
  let ?n = "length path - length ef - 1"
  have len: "length ef < length path" "ef \<noteq> []" and sl: "path ! ?n = CHR ''/''"
    and d: "drop (length path - length ef) path = ef"
    using m by (auto simp: suffix_match_def Let_def split: if_splits)
  have "path = take ?n path @ path ! ?n # drop (Suc ?n) path"
    by (rule id_take_nth_drop) (use len in simp)
  moreover have "Suc ?n = length path - length ef" using len by simp
  ultimately have "path = take ?n path @ ''/'' @ ef" using sl d by simp
  with len show "ef \<noteq> [] \<and> (\<exists>a. path = a @ ''/'' @ ef)" by blast
qed (auto simp: suffix_match_def Let_def nth_append)

definition folder_candidate :: "rguard_exceptions \<Rightarrow> string \<Rightarrow> nat \<Rightarrow> bool" where
  "folder_candidate ex path n \<longleftrightarrow>
     0 < n \<and> n \<le> length path \<and> (n = length path \<or> path ! n = CHR ''/'') \<and> take n path \<in> set (ex_folders ex)"

lemma back_up_skips:
  "n \<le> c \<Longrightarrow> back_up path c < n \<Longrightarrow> path ! n \<noteq> CHR ''/''"
proof (induction path c rule: back_up.induct)
  case (2 path c)
  then show ?case by (cases "n = Suc c") (auto split: if_splits)
qed simp

lemma folder_walk_iff:
  assumes "hash_mirror (ex_folder_hashes ex) (ex_folders ex)" and "cursor \<le> length path"
  shows "folder_walk ex path cursor \<longleftrightarrow> (\<exists>n \<le> cursor. folder_candidate ex path n)"
  using assms
proof (induction ex path cursor rule: folder_walk.induct)
  case (1 ex path cursor)
  show ?case
  proof (cases "cursor = 0")
    case True
    then show ?thesis by (simp add: folder_walk.simps [of ex path] folder_candidate_def)
  next
    case False
    have le: "back_up path c \<le> c" for c by (rule back_up_le)
    have skip: "(\<exists>n \<le> c. folder_candidate ex path n) = (\<exists>n \<le> back_up path c. folder_candidate ex path n)"
      if "c < length path" for c
    proof
      assume "\<exists>n \<le> c. folder_candidate ex path n"
      then obtain n where n: "n \<le> c" "folder_candidate ex path n" by blast
      then have "path ! n = CHR ''/''" using that by (auto simp: folder_candidate_def)
      then have "n \<le> back_up path c" using back_up_skips [OF n(1)] by (meson not_le)
      with n(2) show "\<exists>n \<le> back_up path c. folder_candidate ex path n" by blast
    qed (use le [of c] in \<open>meson le_trans\<close>)
    show ?thesis
    proof (cases "cursor \<noteq> length path \<and> path ! cursor \<noteq> CHR ''/''")
      case True
      with False "1.IH"(1) "1.prems" le [of cursor] have
        "folder_walk ex path (back_up path cursor) =
           (\<exists>n \<le> back_up path cursor. folder_candidate ex path n)" by auto
      then show ?thesis
        using True False skip [of cursor] "1.prems"(2) by (subst folder_walk.simps) auto
    next
      case at: False
      let ?hit = "rguard_hash_lookup_len path cursor (ex_folder_hashes ex) (ex_folders ex)
                  (int (length (ex_folders ex)))"
      have hit: "?hit = folder_candidate ex path cursor"
        using "1.prems" at False by (auto simp: rguard_hash_lookup_len_iff folder_candidate_def)
      have "folder_walk ex path (back_up path (cursor - 1)) =
           (\<exists>n \<le> back_up path (cursor - 1). folder_candidate ex path n)" if "\<not> ?hit"
        using "1.IH"(2) [OF _ at that] False "1.prems" le [of "cursor - 1"] by auto
      then have "folder_walk ex path (back_up path (cursor - 1)) =
           (\<exists>n \<le> cursor - 1. folder_candidate ex path n)" if "\<not> ?hit"
        using skip [of "cursor - 1"] "1.prems"(2) False that by simp
      moreover have "(\<exists>n \<le> cursor. folder_candidate ex path n) =
          (folder_candidate ex path cursor \<or> (\<exists>n \<le> cursor - 1. folder_candidate ex path n))"
        using False by (metis One_nat_def Suc_pred le_Suc_eq le_refl neq0_conv)
      ultimately show ?thesis
        using at False hit by (subst folder_walk.simps) auto
    qed
  qed
qed

lemma folder_candidates:
  "(\<exists>n \<le> length path. folder_candidate ex path n) \<longleftrightarrow>
     (\<exists>d \<in> set (ex_folders ex). d \<noteq> [] \<and> (path = d \<or> (\<exists>rest. path = d @ ''/'' @ rest)))"
proof
  assume "\<exists>n \<le> length path. folder_candidate ex path n"
  then obtain n where n: "0 < n" "n \<le> length path" "n = length path \<or> path ! n = CHR ''/''"
    "take n path \<in> set (ex_folders ex)" by (auto simp: folder_candidate_def)
  have "path = take n path @ CHR ''/'' # drop (Suc n) path" if "n \<noteq> length path"
    using n that id_take_nth_drop [of n path] by simp
  with n show "\<exists>d \<in> set (ex_folders ex). d \<noteq> [] \<and> (path = d \<or> (\<exists>rest. path = d @ ''/'' @ rest))"
    by (intro bexI [of _ "take n path"]) (cases "n = length path"; auto)+
next
  assume "\<exists>d \<in> set (ex_folders ex). d \<noteq> [] \<and> (path = d \<or> (\<exists>rest. path = d @ ''/'' @ rest))"
  then obtain d where "d \<in> set (ex_folders ex)" "d \<noteq> []" "path = d \<or> (\<exists>rest. path = d @ ''/'' @ rest)"
    by blast
  then show "\<exists>n \<le> length path. folder_candidate ex path n"
    by (intro exI [of _ "length d"]) (auto simp: folder_candidate_def)
qed

lemma excepted_iff:
  assumes "mirrors_ok p"
  shows "scorer_is_excepted p path = exception_spec p path"
  using assms folder_walk_iff [of "p_exceptions p" "length path" path]
  by (auto simp: mirrors_ok_def scorer_is_excepted_def exception_spec_def rguard_hash_lookup_iff
      list_ex_iff suffix_match_iff folder_candidates Let_def simp del: append_Cons)

text \<open>
  The list decisions are what the policy says: under a loaded policy the hash searches
  and scans together accept a session exactly if its user or address is listed or its address
  matches a pattern, and except a path exactly if it is listed, ends in a listed name at a path
  boundary, or lies in a listed folder.
\<close>

theorem list_decisions_exact:
  assumes "mirrors_ok p"
  shows "scorer_is_whitelisted p (Some u) (Some ip) = whitelist_spec p u ip \<and>
    scorer_is_blacklisted p (Some u) (Some ip) = blacklist_spec p u ip \<and>
    scorer_is_excepted p path = exception_spec p path"
  using whitelisted_iff [OF assms] blacklisted_iff [OF assms] excepted_iff [OF assms] by blast

definition list_policy :: rguard_policy where
  "list_policy = apply_defaults
    \<lparr>p_exceptions := \<lparr>ex_files = [''b.txt''], ex_file_hashes = [rguard_fnv1a64 ''b.txt''],
       ex_folders = [''/srv/tmp''], ex_folder_hashes = [rguard_fnv1a64 ''/srv/tmp'']\<rparr>,
     p_whitelist := \<lparr>wl_users = [''backup''], wl_user_hashes = [rguard_fnv1a64 ''backup''],
       wl_ips = [], wl_ip_hashes = []\<rparr>\<rparr>"

theorem list_decisions_exact_witness:
  "scorer_is_excepted list_policy ''/srv/tmp/x/y.doc'' \<and> scorer_is_excepted list_policy ''/a/b.txt'' \<and>
   \<not> scorer_is_excepted list_policy ''/a/ab.txt'' \<and>
   scorer_is_whitelisted list_policy (Some ''backup'') (Some ''10.0.0.1'') \<and>
   \<not> scorer_is_blacklisted list_policy (Some ''backup'') (Some ''10.0.0.1'')"
proof -
  have m: "mirrors_ok list_policy"
    by (simp add: mirrors_ok_def list_policy_def apply_defaults_def hash_mirror_def)
  have "exception_spec list_policy ''/srv/tmp/x/y.doc''"
    by (simp add: exception_spec_def list_policy_def)
  moreover have "exception_spec list_policy ''/a/b.txt''"
    by (auto simp: exception_spec_def list_policy_def intro!: exI [of _ "''/a''"])
  moreover have "\<not> exception_spec list_policy ''/a/ab.txt''"
    by (auto simp: exception_spec_def list_policy_def append_eq_Cons_conv)
  moreover have "whitelist_spec list_policy ''backup'' ''10.0.0.1''"
    by (simp add: whitelist_spec_def list_policy_def)
  moreover have "\<not> blacklist_spec list_policy ''backup'' ''10.0.0.1''"
    by (simp add: blacklist_spec_def list_policy_def apply_defaults_def)
  ultimately show ?thesis
    using list_decisions_exact [OF m] by blast
qed

subsection \<open>The automatic blacklist\<close>

definition auto_inv :: "rguard_policy \<Rightarrow> bool" where
  "auto_inv p \<longleftrightarrow>
     length (bl_auto_ips (p_blacklist p)) \<le> RGUARD_BLACKLIST_AUTO_MAX \<and>
     distinct (map b_ip (bl_auto_ips (p_blacklist p)))"

lemma auto_add_mirrors: "mirrors_ok (scorer_blacklist_auto_add p ip) = mirrors_ok p"
  by (simp add: scorer_blacklist_auto_add_def mirrors_ok_def Let_def)

lemma auto_add_manual [simp]:
  "bl_ips (p_blacklist (scorer_blacklist_auto_add p ip)) = bl_ips (p_blacklist p)"
  "bl_users (p_blacklist (scorer_blacklist_auto_add p ip)) = bl_users (p_blacklist p)"
  "p_scoring (scorer_blacklist_auto_add p ip) = p_scoring p"
  by (simp_all add: scorer_blacklist_auto_add_def Let_def)

lemma auto_add_new:
  assumes "is_real_ip ip" and "length ip < RGUARD_IP_LEN"
    and "ip \<notin> b_ip ` set (bl_ips (p_blacklist p))" and "ip \<notin> b_ip ` set (bl_auto_ips (p_blacklist p))"
    and "length (bl_auto_ips (p_blacklist p)) \<le> RGUARD_BLACKLIST_AUTO_MAX"
  shows "bl_auto_ips (p_blacklist (scorer_blacklist_auto_add p ip)) =
    (if length (bl_auto_ips (p_blacklist p)) = RGUARD_BLACKLIST_AUTO_MAX
     then tl (bl_auto_ips (p_blacklist p)) else bl_auto_ips (p_blacklist p)) @
    [\<lparr>b_ip = ip, b_auto_add = True\<rparr>]"
proof -
  have "ip \<noteq> []" using assms(1) by auto
  moreover have "take (RGUARD_BLACKLIST_AUTO_MAX - 1) (drop 1 xs) = tl xs"
    if "length xs = RGUARD_BLACKLIST_AUTO_MAX" for xs :: "rguard_bl_ip list"
    using that by (simp add: drop_Suc)
  ultimately show ?thesis
    using assms by (auto simp: scorer_blacklist_auto_add_def Let_def list_ex_iff)
qed

lemma auto_add_known:
  assumes "\<not> is_real_ip ip \<or> ip \<in> b_ip ` set (bl_ips (p_blacklist p)) \<or>
      ip \<in> b_ip ` set (bl_auto_ips (p_blacklist p))"
  shows "scorer_blacklist_auto_add p ip = p"
  using assms by (auto simp: scorer_blacklist_auto_add_def Let_def list_ex_iff)

lemma auto_add_effect:
  assumes "mirrors_ok p" and "auto_inv p" and "length ip < RGUARD_IP_LEN"
  shows "auto_inv (scorer_blacklist_auto_add p ip) \<and>
    (if is_real_ip ip then scorer_is_blacklisted (scorer_blacklist_auto_add p ip) None (Some ip)
     else scorer_blacklist_auto_add p ip = p) \<and>
    bl_ips (p_blacklist (scorer_blacklist_auto_add p ip)) = bl_ips (p_blacklist p) \<and>
    set (drop 1 (bl_auto_ips (p_blacklist p))) \<subseteq>
      set (bl_auto_ips (p_blacklist (scorer_blacklist_auto_add p ip)))"
proof -
  let ?p = "scorer_blacklist_auto_add p ip"
  let ?old = "bl_auto_ips (p_blacklist p)"
  consider (known) "\<not> is_real_ip ip \<or> ip \<in> b_ip ` set (bl_ips (p_blacklist p)) \<or> ip \<in> b_ip ` set ?old"
    | (new) "is_real_ip ip" "ip \<notin> b_ip ` set (bl_ips (p_blacklist p))" "ip \<notin> b_ip ` set ?old"
    by blast
  then show ?thesis
  proof cases
    case known
    then have "?p = p" by (rule auto_add_known)
    moreover have "blacklist_spec p [] ip" if "is_real_ip ip"
    proof -
      from that have "ip \<noteq> []" by auto
      then have "auto_matches ip ip" by (simp add: auto_matches_def)
      with known that \<open>ip \<noteq> []\<close> show ?thesis unfolding blacklist_spec_def by blast
    qed
    ultimately show ?thesis
      using assms(1,2) by (auto simp: blacklisted_iff dest: in_set_dropD)
  next
    case new
    have m: "mirrors_ok ?p" using assms(1) by (simp add: auto_add_mirrors)
    have autos: "bl_auto_ips (p_blacklist ?p) =
        (if length ?old = RGUARD_BLACKLIST_AUTO_MAX then tl ?old else ?old) @ [\<lparr>b_ip = ip, b_auto_add = True\<rparr>]"
      using new assms(2,3) by (intro auto_add_new) (auto simp: auto_inv_def)
    have tl: "set (tl xs) \<subseteq> set xs" "distinct (map b_ip xs) \<Longrightarrow> distinct (map b_ip (tl xs))"
      for xs :: "rguard_bl_ip list"
      by (cases xs; auto)+
    have "auto_inv ?p"
      using assms(2) new(3) tl [of ?old]
      by (auto simp: auto_inv_def autos config_limits)
    moreover have "ip \<noteq> []" using new(1) by auto
    then have "blacklist_spec ?p [] ip"
      by (auto simp: blacklist_spec_def auto_matches_def autos)
    ultimately show ?thesis
      using new(1) m tl(1) [of ?old] by (auto simp: blacklisted_iff autos drop_Suc)
  qed
qed

text \<open>
  Adding an attacker to the automatic blacklist works and stays bounded: a real address is
  blacklisted afterwards, a placeholder of another channel changes nothing, the manual lists
  are never touched, the list keeps at most 64 distinct addresses and gives up the oldest.
\<close>

theorem auto_add_blacklists:
  assumes "mirrors_ok p" and "auto_inv p" and "length ip < RGUARD_IP_LEN"
  shows "auto_inv (scorer_blacklist_auto_add p ip) \<and>
    (if is_real_ip ip then scorer_is_blacklisted (scorer_blacklist_auto_add p ip) None (Some ip)
     else scorer_blacklist_auto_add p ip = p) \<and>
    bl_ips (p_blacklist (scorer_blacklist_auto_add p ip)) = bl_ips (p_blacklist p) \<and>
    set (drop 1 (bl_auto_ips (p_blacklist p))) \<subseteq>
      set (bl_auto_ips (p_blacklist (scorer_blacklist_auto_add p ip)))"
  using assms by (rule auto_add_effect)

theorem auto_add_blacklists_witness:
  "scorer_is_blacklisted (scorer_blacklist_auto_add apply_defaults ''10.0.0.7'') None (Some ''10.0.0.7'') \<and>
   scorer_blacklist_auto_add apply_defaults ''local:77'' = apply_defaults"
proof -
  have "mirrors_ok apply_defaults" "auto_inv apply_defaults"
    by (simp_all add: mirrors_ok_def auto_inv_def apply_defaults_def hash_mirror_def)
  moreover have "is_real_ip ''10.0.0.7''"
    by (simp add: is_real_ip_def inet_pton4_def digit_val_def)
  moreover have "\<not> is_real_ip ''local:77''"
    by (simp add: is_real_ip_def inet_pton4_def inet_pton6_def digit_val_def xdigit_val_def)
  moreover have "length ''10.0.0.7'' < RGUARD_IP_LEN" "length ''local:77'' < RGUARD_IP_LEN"
    by (simp_all add: config_limits)
  ultimately show ?thesis
    using auto_add_blacklists [of apply_defaults "''10.0.0.7''"]
      auto_add_blacklists [of apply_defaults "''local:77''"] by simp
qed

end
