(* ===== verification/Rguard_Proc.thy ===== *)
theory Rguard_Proc
  imports Prelude
begin

text \<open>
  \<open>src/common/rguard_proc.h\<close>: waiting for a helper program with a time limit. The \<open>n\<close>-th
  answer of \<open>waitpid(pid, status, WNOHANG)\<close> is a stream; the loop as written ends only when
  the stream lets it, so it is a partial function.
\<close>

datatype wait_answer = Reaped | Running | Wait_intr | Wait_error

text \<open>The result of a wait: its return value, whether the child was killed, the time slept (ms).\<close>

record wait_result =
  wr_rc :: int
  wr_killed :: bool
  wr_waited :: int

partial_function (option) wait_loop ::
  "(nat \<Rightarrow> wait_answer) \<Rightarrow> int \<Rightarrow> nat \<Rightarrow> int \<Rightarrow> wait_result option" where
  "wait_loop ans timeout_ms n waited =
     (case ans n of
        Reaped \<Rightarrow> Some \<lparr>wr_rc = 0, wr_killed = False, wr_waited = waited\<rparr>
      | Wait_intr \<Rightarrow> wait_loop ans timeout_ms (n + 1) waited
      | Wait_error \<Rightarrow> Some \<lparr>wr_rc = -1, wr_killed = False, wr_waited = waited\<rparr>
      | Running \<Rightarrow>
          if waited \<ge> timeout_ms
          then Some \<lparr>wr_rc = -1, wr_killed = True, wr_waited = waited\<rparr>
          else wait_loop ans timeout_ms (n + 1) (waited + 10))"

definition rguard_wait_timeout :: "(nat \<Rightarrow> wait_answer) \<Rightarrow> int \<Rightarrow> wait_result option" where
  "rguard_wait_timeout ans timeout_ms = wait_loop ans timeout_ms 0 0"

lemma wait_loop_simps:
  "ans n = Reaped \<Longrightarrow> wait_loop ans t n w = Some \<lparr>wr_rc = 0, wr_killed = False, wr_waited = w\<rparr>"
  "ans n = Wait_intr \<Longrightarrow> wait_loop ans t n w = wait_loop ans t (n + 1) w"
  "ans n = Wait_error \<Longrightarrow> wait_loop ans t n w = Some \<lparr>wr_rc = -1, wr_killed = False, wr_waited = w\<rparr>"
  "ans n = Running \<Longrightarrow> t \<le> w \<Longrightarrow> wait_loop ans t n w = Some \<lparr>wr_rc = -1, wr_killed = True, wr_waited = w\<rparr>"
  "ans n = Running \<Longrightarrow> w < t \<Longrightarrow> wait_loop ans t n w = wait_loop ans t (n + 1) (w + 10)"
  by (subst wait_loop.simps, simp)+

text \<open>
  Each uninterrupted answer ends the loop or uses up ten milliseconds of the limit; interrupts
  in between are skipped as long as they are not for ever.
\<close>

lemma wait_loop_skip:
  assumes "\<exists>k \<ge> n. ans k \<noteq> Wait_intr"
  shows "\<exists>k \<ge> n. ans k \<noteq> Wait_intr \<and> wait_loop ans t n w = wait_loop ans t k w"
proof -
  obtain k where "k \<ge> n" "ans k \<noteq> Wait_intr" using assms by blast
  then show ?thesis
  proof (induction "k - n" arbitrary: n)
    case 0
    then show ?case by auto
  next
    case (Suc d)
    show ?case
    proof (cases "ans n = Wait_intr")
      case True
      with Suc have "n \<noteq> k" by auto
      with Suc.prems Suc.hyps(2) have "d = k - (n + 1)" "n + 1 \<le> k" by auto
      from Suc.hyps(1) [OF this] Suc.prems(2) obtain j
        where "n + 1 \<le> j" "ans j \<noteq> Wait_intr" "wait_loop ans t (n + 1) w = wait_loop ans t j w"
        by blast
      then show ?thesis
        using wait_loop_simps(2) [where n = n and ans = ans and t = t and w = w] True by (intro exI [of _ j]) auto
    qed auto
  qed
qed

definition wait_sound :: "(nat \<Rightarrow> wait_answer) \<Rightarrow> int \<Rightarrow> int \<Rightarrow> wait_result \<Rightarrow> bool" where
  "wait_sound ans t w r \<longleftrightarrow> w \<le> wr_waited r \<and> wr_waited r \<le> max w (t + 9) \<and>
     (wr_rc r = 0 \<longrightarrow> (\<exists>k. ans k = Reaped)) \<and>
     (wr_killed r \<longrightarrow> t \<le> wr_waited r \<and> wr_rc r = -1)"

lemma wait_loop_ends:
  assumes "\<forall>n. \<exists>k \<ge> n. ans k \<noteq> Wait_intr"
  shows "\<exists>r. wait_loop ans t n w = Some r \<and> wait_sound ans t w r"
proof (induction "nat (t - w)" arbitrary: n w rule: less_induct)
  case less
  obtain k where k: "ans k \<noteq> Wait_intr" "wait_loop ans t n w = wait_loop ans t k w"
    using wait_loop_skip [of n ans t w] assms by blast
  show ?case
  proof (cases "ans k = Running \<and> w < t")
    case True
    then have "nat (t - (w + 10)) < nat (t - w)" by auto
    from less [OF this, of "k + 1"] obtain r where
      "wait_loop ans t (k + 1) (w + 10) = Some r" "wait_sound ans t (w + 10) r" by blast
    with True k show ?thesis
      by (auto simp: wait_loop_simps wait_sound_def)
  next
    case False
    with k show ?thesis
      by (cases "ans k") (auto simp: wait_loop_simps wait_sound_def)
  qed
qed

text \<open>
  Waiting for a helper program ends: unless every call of \<open>waitpid\<close> is interrupted from
  some point on, the wait returns after sleeping less than ten milliseconds more than its
  limit; a child that outlives the limit is killed, and success is only reported for a child
  that was reaped.
\<close>

theorem wait_timeout_ends:
  assumes "\<forall>n. \<exists>k \<ge> n. ans k \<noteq> Wait_intr" and "0 \<le> timeout_ms"
  shows "\<exists>r. rguard_wait_timeout ans timeout_ms = Some r \<and>
    0 \<le> wr_waited r \<and> wr_waited r < timeout_ms + 10 \<and>
    (wr_killed r \<longrightarrow> timeout_ms \<le> wr_waited r \<and> wr_rc r = -1) \<and>
    (wr_rc r = 0 \<longrightarrow> (\<exists>k. ans k = Reaped))"
  using wait_loop_ends [OF assms(1), of timeout_ms 0 0] assms(2)
  by (auto simp: rguard_wait_timeout_def wait_sound_def)

theorem wait_timeout_ends_witness:
  "\<exists>r. rguard_wait_timeout (\<lambda>n. if even n then Wait_intr else Running) 5000 = Some r \<and>
     wr_waited r < 5010"
proof -
  have "\<forall>n :: nat. \<exists>k \<ge> n. (if even k then Wait_intr else Running) \<noteq> Wait_intr"
  proof
    fix n :: nat
    show "\<exists>k \<ge> n. (if even k then Wait_intr else Running) \<noteq> Wait_intr"
      by (rule exI [of _ "2 * n + 1"]) simp
  qed
  from wait_timeout_ends [OF this, of 5000] show ?thesis by auto
qed

end
