(* ===== verification/Blocker.thy ===== *)
theory Blocker
  imports World Rguard_Config Rguard_Proc
begin

text \<open>
  \<open>src/daemon/gfrguardd_blocker.h\<close> and \<open>.c\<close>: the blocked file, one address per line, which
  the VFS module reads to refuse connections. Each operation holds the lock while it reads and
  rewrites the file, so it is one step on the world; the answers of the system calls it makes
  are the world's next ones.
\<close>

definition lock_path :: "string \<Rightarrow> string" where
  "lock_path path = snprintf_s RGUARD_PATH_MAX (path @ ''.lock'')"

definition tmp_path :: "string \<Rightarrow> string" where
  "tmp_path path = snprintf_s RGUARD_PATH_MAX (path @ ''.tmp'')"

definition blocked_lock :: "string \<Rightarrow> world \<Rightarrow> bool \<times> world" where
  "blocked_lock path w =
     (if \<not> a_lock_open (answers w) then (False, w)
      else (a_flock (answers w),
            w\<lparr>w_files := (w_files w)(lock_path path \<mapsto>
                (case w_files w (lock_path path) of None \<Rightarrow> [] | Some s \<Rightarrow> s))\<rparr>))"

text \<open>\<open>None\<close>: the read failed; \<open>Some None\<close>: there is no file.\<close>

definition read_file_text :: "string \<Rightarrow> world \<Rightarrow> string option option" where
  "read_file_text path w =
     (if \<not> a_open (answers w) then None
      else case w_files w path of
        None \<Rightarrow> Some None
      | Some data \<Rightarrow>
          if \<not> a_fstat (answers w) then None
          else map_option Some (read_loop (a_reads (answers w)) data []))"

definition write_atomic :: "string \<Rightarrow> string \<Rightarrow> world \<Rightarrow> bool \<times> world" where
  "write_atomic path data w =
     (let a = answers w; gone = w\<lparr>w_files := (w_files w)(tmp_path path := None)\<rparr> in
      if \<not> a_tmp_open a then (False, w)
      else if \<not> write_loop (a_writes a) data then (False, gone)
      else if \<not> a_fsync a then (False, gone)
      else if \<not> a_close a then (False, gone)
      else if \<not> a_rename a then (False, gone)
      else (True, w\<lparr>w_files := (w_files w)(tmp_path path := None, path \<mapsto> data)\<rparr>))"

definition line_exists :: "string option \<Rightarrow> string \<Rightarrow> bool" where
  "line_exists content key =
     (case content of None \<Rightarrow> False | Some c \<Rightarrow> list_ex (\<lambda>l. l = key) (lines_of c))"

definition valid_client_ip :: "string option \<Rightarrow> bool" where
  "valid_client_ip ip = (case ip of None \<Rightarrow> False | Some s \<Rightarrow> s \<noteq> [] \<and> is_real_ip s)"

text \<open>The buffer with the address appended, on a line of its own.\<close>

definition append_ip :: "string \<Rightarrow> string \<Rightarrow> string" where
  "append_ip content ip =
     content @ (if content \<noteq> [] \<and> last content \<noteq> newline then [newline] else []) @ ip @ [newline]"

definition block_ip :: "string \<Rightarrow> string \<Rightarrow> world \<Rightarrow> bool \<times> world" where
  "block_ip path ip w0 =
     (let (locked, w) = blocked_lock path w0 in
      if \<not> locked then (False, next_op w)
      else case read_file_text path w of
        None \<Rightarrow> (False, next_op w)
      | Some content \<Rightarrow>
          if \<not> line_exists content ip then
            (let (ok, w') = write_atomic path
                (append_ip (case content of None \<Rightarrow> [] | Some c \<Rightarrow> c) ip) w
             in (ok, next_op w'))
          else (True, next_op w))"

definition close_share :: "string \<Rightarrow> world \<Rightarrow> world" where
  "close_share share w =
     (if a_fork (answers w)
      then next_op (w\<lparr>w_spawned := w_spawned w @ [[''smbcontrol'', ''smbd'', ''close-share'', share]]\<rparr>)
      else next_op (write_log LOG_ERROR ''BLOCKER_FORK_FAILED'' None ''{\"helper\":\"smbcontrol\"}'' w))"

definition blocker_execute ::
  "world \<Rightarrow> string \<Rightarrow> string option \<Rightarrow> string \<Rightarrow> string \<Rightarrow> string \<Rightarrow> int \<times> world" where
  "blocker_execute w0 blocked_path client_ip event_id share_name status =
     (let (ok, w1) = (if valid_client_ip client_ip then block_ip blocked_path (the client_ip) w0 else (True, w0))
      in if \<not> ok then (-1, w1)
      else
        let w2 = (if share_name \<noteq> [] then close_share share_name w1 else w1);
            w3 = (if event_id \<noteq> [] then
                    (let (ts, w') = iso8601_now w2
                     in w'\<lparr>w_db := snd (db_update_event (w_db w') event_id 0 0 0 (Some ''blocked'')
                            (Some (or_default ''blocked'' status)) (Some ts))\<rparr>)
                  else w2)
        in (0, w3))"

subsection \<open>Rebuilding and unblocking\<close>

definition plain_entry :: "string \<Rightarrow> bool" where
  "plain_entry s \<longleftrightarrow> s \<noteq> [] \<and> strchr s CHR ''/'' = None \<and> strchr s CHR ''-'' = None"

fun sync_entries :: "rguard_bl_ip list \<Rightarrow> string \<Rightarrow> string" where
  "sync_entries [] buf = buf"
| "sync_entries (e # es) buf =
     (if plain_entry (b_ip e) then sync_entries es (buf @ b_ip e @ [newline]) else sync_entries es buf)"

definition blocker_sync_blacklist :: "string \<Rightarrow> rguard_blacklist \<Rightarrow> world \<Rightarrow> world" where
  "blocker_sync_blacklist blocked_path bl w0 =
     (let buf = sync_entries (bl_auto_ips bl) (sync_entries (bl_ips bl) []);
          (locked, w) = blocked_lock blocked_path w0
      in if locked then next_op (snd (write_atomic blocked_path buf w)) else next_op w)"

fun drop_lines :: "string list \<Rightarrow> string \<Rightarrow> string \<Rightarrow> bool \<Rightarrow> string \<times> bool" where
  "drop_lines [] ip out found = (out, found)"
| "drop_lines (l # ls) ip out found =
     (if l = ip then drop_lines ls ip out True else drop_lines ls ip (out @ l @ [newline]) found)"

definition blocker_unblock :: "string \<Rightarrow> string \<Rightarrow> world \<Rightarrow> int \<times> world" where
  "blocker_unblock blocked_path ip w0 =
     (let (locked, w) = blocked_lock blocked_path w0 in
      if \<not> locked then (-1, next_op w)
      else case read_file_text blocked_path w of
        None \<Rightarrow> (-1, next_op w)
      | Some None \<Rightarrow> (1, next_op w)
      | Some (Some content) \<Rightarrow>
          (let (out, found) = drop_lines (lines_of content) ip [] False in
           if \<not> found then (1, next_op w)
           else
             let (ok, w') = write_atomic blocked_path out w
             in (if ok then 0 else -1, next_op w')))"

subsection \<open>The lines of the blocked file\<close>

definition blocked_lines :: "string \<Rightarrow> world \<Rightarrow> string list" where
  "blocked_lines path w = (case w_files w path of None \<Rightarrow> [] | Some s \<Rightarrow> lines_of s)"

text \<open>Reads make progress; the lock and temporary files are other files.\<close>

definition sane_reads :: "world \<Rightarrow> bool" where
  "sane_reads w \<longleftrightarrow> (\<forall>n. Io_bytes 0 \<notin> set (a_reads (w_answers w n)))"

definition short_path :: "string \<Rightarrow> bool" where
  "short_path path \<longleftrightarrow> length path + 5 < RGUARD_PATH_MAX"

lemma side_paths [simp]:
  "short_path path \<Longrightarrow> lock_path path \<noteq> path" "short_path path \<Longrightarrow> tmp_path path \<noteq> path"
  "short_path path \<Longrightarrow> path \<noteq> lock_path path" "short_path path \<Longrightarrow> path \<noteq> tmp_path path"
  by (auto simp: short_path_def lock_path_def tmp_path_def)

lemma blocked_lock_frame:
  assumes "short_path path"
  shows "blocked_lines path (snd (blocked_lock path w)) = blocked_lines path w"
    and "w_files (snd (blocked_lock path w)) path = w_files w path"
    and "w_answers (snd (blocked_lock path w)) = w_answers w"
    and "answers (snd (blocked_lock path w)) = answers w"
  using assms by (auto simp: blocked_lock_def blocked_lines_def answers_def)

lemma write_atomic_effect:
  assumes "short_path path"
  shows "w_files (snd (write_atomic path data w)) path =
      (if fst (write_atomic path data w) then Some data else w_files w path)"
    and "w_answers (snd (write_atomic path data w)) = w_answers w"
  using assms by (auto simp: write_atomic_def Let_def)

lemma read_file_text_whole:
  assumes "sane_reads w" and "read_file_text path w = Some content"
  shows "content = w_files w path"
proof -
  have "Io_bytes 0 \<notin> set (a_reads (answers w))"
    using assms(1) by (simp add: sane_reads_def answers_def)
  then show ?thesis
    using assms(2) read_loop_whole
    by (fastforce simp: read_file_text_def split: if_splits option.splits)
qed

lemma line_exists_iff: "line_exists (w_files w path) ip \<longleftrightarrow> ip \<in> set (blocked_lines path w)"
  by (auto simp: line_exists_def blocked_lines_def list_ex_iff split: option.splits)

lemma lines_of_append_ip:
  assumes "newline \<notin> set ip"
  shows "lines_of (append_ip content ip) = lines_of content @ [ip]"
proof (cases "content = [] \<or> last content = newline")
  case True
  then show ?thesis
  proof
    assume "last content = newline"
    show ?thesis
    proof (cases "content = []")
      case False
      then obtain c where "content = c @ [newline]"
        using \<open>last content = newline\<close> by (metis append_butlast_last_id)
      then show ?thesis
        using lines_of_append_newline [of c "ip @ [newline]"] lines_of_single [OF assms]
        by (simp add: append_ip_def)
    qed (use assms in \<open>simp add: append_ip_def lines_of_single\<close>)
  qed (use assms in \<open>simp add: append_ip_def lines_of_single\<close>)
next
  case False
  have "lines_of (content @ [newline]) = lines_of content" if "content \<noteq> []" "last content \<noteq> newline" for content
    using that
  proof (induction "length content" arbitrary: content rule: less_induct)
    case less
    then show ?case
    proof (cases content rule: lines_of_cases)
      case (line l rest)
      with less.prems have "rest \<noteq> []" "last rest \<noteq> newline" by (auto split: if_splits)
      with less.hyps [of rest] line show ?thesis by simp
    qed (auto simp: lines_of_last lines_of_single)
  qed
  with False lines_of_append_newline [of content "ip @ [newline]"] lines_of_single [OF assms]
  show ?thesis by (simp add: append_ip_def)
qed

lemma drop_lines_eq:
  "drop_lines ls ip out found = (out @ unlines (filter (\<lambda>l. l \<noteq> ip) ls), found \<or> ip \<in> set ls)"
  by (induction ls ip out found rule: drop_lines.induct) auto

lemma sync_entries_eq:
  "sync_entries es buf = buf @ unlines (filter plain_entry (map b_ip es))"
  by (induction es buf rule: sync_entries.induct) auto

subsection \<open>What each operation does to the lines\<close>

lemma block_ip_effect:
  assumes "short_path path" and "sane_reads w" and "newline \<notin> set ip"
  shows "blocked_lines path (snd (block_ip path ip w)) =
      (if fst (block_ip path ip w) \<and> ip \<notin> set (blocked_lines path w)
       then blocked_lines path w @ [ip] else blocked_lines path w)"
    and "w_answers (snd (block_ip path ip w)) = w_answers w"
    and "w_db (snd (block_ip path ip w)) = w_db w"
    and "w_spawned (snd (block_ip path ip w)) = w_spawned w"
proof -
  let ?w = "snd (blocked_lock path w)"
  note fr = blocked_lock_frame [OF assms(1), of w]
  have sane: "sane_reads ?w" using assms(2) fr(3) by (simp add: sane_reads_def)
  have fdb: "w_db ?w = w_db w" "w_spawned ?w = w_spawned w" "w_db (snd (write_atomic path d ?w)) = w_db ?w"
    "w_spawned (snd (write_atomic path d ?w)) = w_spawned ?w" for d
    by (auto simp: blocked_lock_def write_atomic_def Let_def)
  note we = write_atomic_effect [OF assms(1), of _ ?w]
  show "blocked_lines path (snd (block_ip path ip w)) =
      (if fst (block_ip path ip w) \<and> ip \<notin> set (blocked_lines path w)
       then blocked_lines path w @ [ip] else blocked_lines path w)"
  proof (cases "fst (blocked_lock path w) \<and> read_file_text path ?w \<noteq> None")
    case True
    then obtain content where rd: "read_file_text path ?w = Some content" by auto
    from read_file_text_whole [OF sane rd] fr(2) have content: "content = w_files w path" by simp
    have ls: "lines_of (case content of None \<Rightarrow> [] | Some c \<Rightarrow> c) = blocked_lines path w"
      by (simp add: content blocked_lines_def split: option.splits)
    show ?thesis
      using True rd fr(1) we(1) lines_of_append_ip [OF assms(3)] ls
      by (auto simp: block_ip_def case_prod_beta Let_def content line_exists_iff blocked_lines_def
          next_op_def)
  next
    case False
    then show ?thesis
      using fr(1) by (auto simp: block_ip_def case_prod_beta Let_def blocked_lines_def next_op_def)
  qed
  show "w_answers (snd (block_ip path ip w)) = w_answers w"
    using fr(3) we(2) by (auto simp: block_ip_def case_prod_beta Let_def next_op_def split: option.splits)
  show "w_db (snd (block_ip path ip w)) = w_db w" "w_spawned (snd (block_ip path ip w)) = w_spawned w"
    using fdb by (auto simp: block_ip_def case_prod_beta Let_def next_op_def split: option.splits)
qed

lemma close_share_frame [simp]:
  "w_files (close_share share w) = w_files w" "w_answers (close_share share w) = w_answers w"
  "w_db (close_share share w) = w_db w"
  by (simp_all add: close_share_def next_op_def write_log_def)

lemma execute_files:
  "w_files (snd (blocker_execute w path ip ev share st)) =
     w_files (if valid_client_ip ip then snd (block_ip path (the ip) w) else w)"
  "w_answers (snd (blocker_execute w path ip ev share st)) =
     w_answers (if valid_client_ip ip then snd (block_ip path (the ip) w) else w)"
  "fst (blocker_execute w path ip ev share st) =
     (if valid_client_ip ip \<and> \<not> fst (block_ip path (the ip) w) then -1 else 0)"
  by (auto simp: blocker_execute_def case_prod_beta Let_def iso8601_now_def tick_clock_def)

lemma block_ip_frame:
  "w_ops (snd (block_ip path ip w)) = w_ops w + 1" "w_log (snd (block_ip path ip w)) = w_log w"
  by (auto simp: block_ip_def blocked_lock_def write_atomic_def case_prod_beta Let_def next_op_def
      split: option.splits)

lemma close_share_effect:
  "w_spawned (close_share share w) = w_spawned w @
     (if a_fork (answers w) then [[''smbcontrol'', ''smbd'', ''close-share'', share]] else [])"
  "w_log (close_share share w) = w_log w @
     (if a_fork (answers w) then []
      else [log_call LOG_ERROR ''BLOCKER_FORK_FAILED'' None ''{\"helper\":\"smbcontrol\"}''])"
  by (simp_all add: close_share_def)

text \<open>The last two steps of \<open>blocker_execute\<close>, which do not change its result.\<close>

definition execute_rest :: "string \<Rightarrow> string \<Rightarrow> string \<Rightarrow> world \<Rightarrow> world" where
  "execute_rest event_id share_name status w =
     (let w' = (if share_name \<noteq> [] then close_share share_name w else w) in
      if event_id = [] then w'
      else (tick_clock w')\<lparr>w_db := snd (db_update_event (w_db w') event_id 0 0 0 (Some ''blocked'')
             (Some (or_default ''blocked'' status)) (Some (iso8601 (w_local w' (now w')))))\<rparr>)"

lemma execute_ok:
  assumes "fst (blocker_execute w path client ev share st) = 0"
  shows "snd (blocker_execute w path client ev share st) = execute_rest ev share st
    (if valid_client_ip client then snd (block_ip path (the client) w) else w)"
  using assms
  by (auto simp: blocker_execute_def execute_rest_def case_prod_beta Let_def iso8601_now_def
      split: if_splits)

lemma execute_rest_effect:
  "w_spawned (execute_rest ev share st w) = w_spawned w @
     (if share \<noteq> [] \<and> a_fork (answers w) then [[''smbcontrol'', ''smbd'', ''close-share'', share]] else [])"
  "w_log (execute_rest ev share st w) = w_log w @
     (if share \<noteq> [] \<and> \<not> a_fork (answers w)
      then [log_call LOG_ERROR ''BLOCKER_FORK_FAILED'' None ''{\"helper\":\"smbcontrol\"}''] else [])"
  "\<exists>ts. w_db (execute_rest ev share st w) = (if ev = [] then w_db w
     else snd (db_update_event (w_db w) ev 0 0 0 (Some ''blocked'') (Some (or_default ''blocked'' st)) (Some ts)))"
  by (auto simp: execute_rest_def Let_def close_share_effect)

lemma blocked_event_row:
  assumes "stmt_ok db" and "r \<in> set (d_events (snd (db_update_event db ev 0 0 0 (Some ''blocked'')
      (Some (or_default ''blocked'' st)) (Some ts))))" and "ev_event_id r = ev"
  shows "ev_action r = ''blocked'' \<and> ev_status r = or_default ''blocked'' st"
proof -
  from assms(1,2) obtain q where "q \<in> set (d_events db)" and r: "r = (if ev_event_id q = ev then
      q\<lparr>ev_files_protected := max (ev_files_protected q) 0,
        ev_files_affected := max (ev_files_affected q) 0, ev_peak := max (ev_peak q) 0,
        ev_action := coalesce (Some ''blocked'') (ev_action q),
        ev_status := coalesce (Some (or_default ''blocked'' st)) (ev_status q),
        ev_ended_at := coalesce (Some ts) (ev_ended_at q)\<rparr> else q)"
    unfolding db_update_event_def run_stmt_def tick_def by auto
  have "ev_event_id q = ev"
  proof (rule ccontr)
    assume "ev_event_id q \<noteq> ev"
    with r assms(3) show False by simp
  qed
  with r show ?thesis by (simp add: coalesce_def or_default_def)
qed

lemma unblock_effect:
  assumes "short_path path" and "sane_reads w"
  shows "blocked_lines path (snd (blocker_unblock path ip w)) =
      (if fst (blocker_unblock path ip w) = 0 then filter (\<lambda>l. l \<noteq> ip) (blocked_lines path w)
       else blocked_lines path w)"
    and "fst (blocker_unblock path ip w) = 0 \<Longrightarrow> ip \<in> set (blocked_lines path w)"
    and "fst (blocker_unblock path ip w) = 1 \<Longrightarrow> ip \<notin> set (blocked_lines path w)"
    and "w_answers (snd (blocker_unblock path ip w)) = w_answers w"
proof -
  let ?w = "snd (blocked_lock path w)"
  note fr = blocked_lock_frame [OF assms(1), of w]
  have sane: "sane_reads ?w" using assms(2) fr(3) by (simp add: sane_reads_def)
  note we = write_atomic_effect [OF assms(1), of _ ?w]
  have rt: "content = w_files w path" if "read_file_text path ?w = Some content" for content
    using read_file_text_whole [OF sane that] fr(2) by simp
  have filt: "lines_of (unlines (filter (\<lambda>l. l \<noteq> ip) (lines_of c))) = filter (\<lambda>l. l \<noteq> ip) (lines_of c)" for c
    by (rule lines_of_unlines) (auto dest: lines_of_no_newline)
  note defs = blocker_unblock_def case_prod_beta Let_def drop_lines_eq blocked_lines_def next_op_def
  show "blocked_lines path (snd (blocker_unblock path ip w)) =
      (if fst (blocker_unblock path ip w) = 0 then filter (\<lambda>l. l \<noteq> ip) (blocked_lines path w)
       else blocked_lines path w)"
    using fr(2) we(1) rt filt by (auto simp: defs split: option.splits)
  show "fst (blocker_unblock path ip w) = 0 \<Longrightarrow> ip \<in> set (blocked_lines path w)"
    "fst (blocker_unblock path ip w) = 1 \<Longrightarrow> ip \<notin> set (blocked_lines path w)"
    using rt by (auto simp: defs split: option.splits if_splits)
  show "w_answers (snd (blocker_unblock path ip w)) = w_answers w"
    using fr(3) we(2) by (auto simp: defs split: option.splits)
qed

lemma sync_effect:
  assumes "short_path path" and "a_lock_open (answers w)" and "a_flock (answers w)"
    and "\<forall>e \<in> set (bl_ips bl @ bl_auto_ips bl). newline \<notin> set (b_ip e)"
  shows "blocked_lines path (blocker_sync_blacklist path bl w) =
      filter plain_entry (map b_ip (bl_ips bl @ bl_auto_ips bl)) \<or>
    w_files (blocker_sync_blacklist path bl w) path = w_files w path"
proof -
  let ?w = "snd (blocked_lock path w)"
  let ?ls = "filter plain_entry (map b_ip (bl_ips bl @ bl_auto_ips bl))"
  note fr = blocked_lock_frame [OF assms(1), of w]
  have "lines_of (unlines ?ls) = ?ls"
    by (rule lines_of_unlines) (use assms(4) in auto)
  then show ?thesis
    using write_atomic_effect(1) [OF assms(1), of _ ?w] fr(2)
    by (auto simp: blocker_sync_blacklist_def case_prod_beta Let_def sync_entries_eq blocked_lines_def
        next_op_def)
qed

text \<open>Answers under which every system call succeeds, however short the transfers.\<close>

definition good_io :: "io_answers \<Rightarrow> bool" where
  "good_io a \<longleftrightarrow> a_lock_open a \<and> a_flock a \<and> a_open a \<and> a_fstat a \<and> a_tmp_open a \<and> a_fsync a \<and>
     a_close a \<and> a_rename a \<and>
     Io_error \<notin> set (a_reads a) \<and> Io_error \<notin> set (a_writes a) \<and> Io_bytes 0 \<notin> set (a_writes a)"

lemma write_loop_good: "Io_error \<notin> set as \<Longrightarrow> Io_bytes 0 \<notin> set as \<Longrightarrow> write_loop as data"
  by (induction as data rule: write_loop.induct) auto

lemma read_loop_good: "Io_error \<notin> set as \<Longrightarrow> \<exists>out. read_loop as rest acc = Some out"
  by (induction as rest acc rule: read_loop.induct) auto

lemma write_atomic_good: "good_io (answers w) \<Longrightarrow> fst (write_atomic path data w)"
  by (auto simp: write_atomic_def good_io_def Let_def write_loop_good)

lemma read_file_good: "good_io (answers w) \<Longrightarrow> read_file_text path w \<noteq> None"
  by (auto simp: read_file_text_def good_io_def read_loop_good split: option.splits)

lemma block_ip_good:
  assumes "short_path path" and "good_io (answers w)"
  shows "fst (block_ip path ip w)"
proof -
  have good: "good_io (answers (snd (blocked_lock path w)))"
    using assms by (simp add: blocked_lock_frame)
  from assms(2) have "fst (blocked_lock path w)" by (simp add: blocked_lock_def good_io_def)
  with read_file_good [OF good, of path] write_atomic_good [OF good] show ?thesis
    by (auto simp: block_ip_def case_prod_beta Let_def)
qed

lemma unblock_good:
  assumes "short_path path" and "good_io (answers w)"
  shows "fst (blocker_unblock path ip w) \<noteq> -1"
proof -
  have good: "good_io (answers (snd (blocked_lock path w)))"
    using assms by (simp add: blocked_lock_frame)
  from assms(2) have "fst (blocked_lock path w)" by (simp add: blocked_lock_def good_io_def)
  with read_file_good [OF good, of path] write_atomic_good [OF good] show ?thesis
    by (auto simp: blocker_unblock_def case_prod_beta Let_def split: option.splits)
qed

lemma sync_good:
  assumes "short_path path" and "good_io (answers w)"
  shows "w_files (blocker_sync_blacklist path bl w) path =
    Some (unlines (filter plain_entry (map b_ip (bl_ips bl @ bl_auto_ips bl))))"
proof -
  have good: "good_io (answers (snd (blocked_lock path w)))"
    using assms by (simp add: blocked_lock_frame)
  from assms(2) have "fst (blocked_lock path w)" by (simp add: blocked_lock_def good_io_def)
  with write_atomic_good [OF good] write_atomic_effect(1) [OF assms(1)] show ?thesis
    by (simp add: blocker_sync_blacklist_def case_prod_beta Let_def sync_entries_eq next_op_def)
qed

subsection \<open>The contract of the blocked file\<close>

datatype blocked_request = Block string | Unblock string

text \<open>
  A sequence of requests, with the outcome of each: for an unblocking, whether the address is
  gone for sure.
\<close>

fun run_requests ::
  "(string \<Rightarrow> 's \<Rightarrow> int \<times> 's) \<Rightarrow> (string \<Rightarrow> 's \<Rightarrow> int \<times> 's) \<Rightarrow> blocked_request list \<Rightarrow> 's \<Rightarrow>
   (blocked_request \<times> bool) list \<times> 's" where
  "run_requests add remove [] s = ([], s)"
| "run_requests add remove (Block ip # rs) s =
     (let (rc, s') = add ip s; (outs, s'') = run_requests add remove rs s'
      in ((Block ip, rc = 0) # outs, s''))"
| "run_requests add remove (Unblock ip # rs) s =
     (let (rc, s') = remove ip s; (outs, s'') = run_requests add remove rs s'
      in ((Unblock ip, rc \<noteq> -1) # outs, s''))"

text \<open>What the outcomes promise about an address: the last successful request that names it.\<close>

fun listed_after :: "string \<Rightarrow> bool \<Rightarrow> (blocked_request \<times> bool) list \<Rightarrow> bool" where
  "listed_after ip b [] = b"
| "listed_after ip b ((Block x, ok) # outs) = listed_after ip (if ok \<and> x = ip then True else b) outs"
| "listed_after ip b ((Unblock x, ok) # outs) = listed_after ip (if ok \<and> x = ip then False else b) outs"

locale blocked_store =
  fixes add :: "string \<Rightarrow> 's \<Rightarrow> int \<times> 's"
    and remove :: "string \<Rightarrow> 's \<Rightarrow> int \<times> 's"
    and entries :: "'s \<Rightarrow> string list"
    and usable :: "'s \<Rightarrow> bool"
    and address :: "string \<Rightarrow> bool"
  assumes add_entries: "usable s \<Longrightarrow> address ip \<Longrightarrow> entries (snd (add ip s)) =
      (if fst (add ip s) = 0 \<and> ip \<notin> set (entries s) then entries s @ [ip] else entries s)"
    and add_usable: "usable s \<Longrightarrow> address ip \<Longrightarrow> usable (snd (add ip s))"
    and remove_entries: "usable s \<Longrightarrow> entries (snd (remove ip s)) =
      (if fst (remove ip s) = 0 then filter (\<lambda>l. l \<noteq> ip) (entries s) else entries s)"
    and remove_known: "usable s \<Longrightarrow> fst (remove ip s) \<noteq> -1 \<Longrightarrow> fst (remove ip s) \<noteq> 0 \<Longrightarrow> ip \<notin> set (entries s)"
    and remove_usable: "usable s \<Longrightarrow> usable (snd (remove ip s))"
begin

lemma history:
  assumes "usable s" and "\<forall>ip. Block ip \<in> set rs \<longrightarrow> address ip"
  shows "ip \<in> set (entries (snd (run_requests add remove rs s))) \<longleftrightarrow>
      listed_after ip (ip \<in> set (entries s)) (fst (run_requests add remove rs s))"
    and "distinct (entries s) \<Longrightarrow> distinct (entries (snd (run_requests add remove rs s)))"
  using assms
proof (induction rs arbitrary: s)
  case (Cons r rs)
  {
    case 1
    show ?case
    proof (cases r)
      case (Block x)
      with 1 have u: "usable (snd (add x s))" "\<forall>ip. Block ip \<in> set rs \<longrightarrow> address ip" "address x"
        by (auto intro: add_usable)
      with Block add_entries [OF 1(1) u(3)] Cons.IH(1) [OF u(1,2)] show ?thesis
        by (auto simp: case_prod_beta Let_def)
    next
      case (Unblock x)
      with 1 have u: "usable (snd (remove x s))" "\<forall>ip. Block ip \<in> set rs \<longrightarrow> address ip"
        by (auto intro: remove_usable)
      with Unblock remove_entries [OF 1(1), of x] remove_known [OF 1(1), of x] Cons.IH(1) [OF u]
      show ?thesis by (auto simp: case_prod_beta Let_def)
    qed
  next
    case 2
    show ?case
    proof (cases r)
      case (Block x)
      with 2 have u: "usable (snd (add x s))" "\<forall>ip. Block ip \<in> set rs \<longrightarrow> address ip" "address x"
        by (auto intro: add_usable)
      with Block 2 add_entries [OF 2(2) u(3)] Cons.IH(2) [OF _ u(1,2)] show ?thesis
        by (auto simp: case_prod_beta Let_def)
    next
      case (Unblock x)
      with 2 have u: "usable (snd (remove x s))" "\<forall>ip. Block ip \<in> set rs \<longrightarrow> address ip"
        by (auto intro: remove_usable)
      with Unblock 2 remove_entries [OF 2(2), of x] Cons.IH(2) [OF _ u] show ?thesis
        by (auto simp: case_prod_beta Let_def)
    qed
  }
qed simp_all

end

lemma valid_real_ip: "valid_client_ip (Some ip) \<longleftrightarrow> is_real_ip ip"
  by (auto simp: valid_client_ip_def)

interpretation bf: blocked_store
  "\<lambda>ip w. blocker_execute w path (Some ip) event_id share status"
  "blocker_unblock path" "blocked_lines path" "\<lambda>w. short_path path \<and> sane_reads w" is_real_ip
  for path event_id share status
proof
  fix w ip
  let ?ex = "blocker_execute w path (Some ip) event_id share status"
  assume a: "short_path path \<and> sane_reads w" "is_real_ip ip"
  note b = block_ip_effect [of path w ip, OF _ _ real_ip_plain(1) [OF a(2)]]
  show "blocked_lines path (snd ?ex) =
     (if fst ?ex = 0 \<and> ip \<notin> set (blocked_lines path w) then blocked_lines path w @ [ip]
      else blocked_lines path w)"
    using a b(1) by (simp add: blocked_lines_def execute_files valid_real_ip)
  show "short_path path \<and> sane_reads (snd ?ex)"
    using a b(2) by (simp add: sane_reads_def execute_files valid_real_ip)
next
  fix w ip
  assume a: "short_path path \<and> sane_reads w"
  note u = unblock_effect [of path w ip]
  show "blocked_lines path (snd (blocker_unblock path ip w)) =
     (if fst (blocker_unblock path ip w) = 0 then filter (\<lambda>l. l \<noteq> ip) (blocked_lines path w)
      else blocked_lines path w)"
    using a u(1) by simp
  show "short_path path \<and> sane_reads (snd (blocker_unblock path ip w))"
    using a u(4) by (simp add: sane_reads_def)
  assume "fst (blocker_unblock path ip w) \<noteq> -1" "fst (blocker_unblock path ip w) \<noteq> 0"
  moreover have "fst (blocker_unblock path ip w) \<in> {-1, 0, 1}"
    by (auto simp: blocker_unblock_def case_prod_beta Let_def split: option.splits)
  ultimately show "ip \<notin> set (blocked_lines path w)"
    using a u(3) by auto
qed

subsection \<open>Properties\<close>

text \<open>
  C36: What blocking a client does and what its result tells. A non-zero result means that the
  address of a real client could not be listed, for instance because the existing file cannot be
  read: the blocked file, the database, the log and the running programs are as they were. A zero
  result means that the address of a real client is in the file, behind the lines that were there
  and not twice; the placeholder of another channel changes no file. It does not mean that the
  rest succeeded: the helper that closes the share is started exactly when a share is named and
  the fork succeeds, and the failed fork is only logged; the event, if one is named, is marked as
  blocked exactly when the database takes the statement, and no row changes otherwise. When the
  system calls on the file succeed, the result is zero.
\<close>

theorem blocker_execute_effect:
  assumes "short_path path" and "sane_reads w"
  shows "let (rc, w') = blocker_execute w path (Some ip) event_id share status;
      forks = a_fork (w_answers w (w_ops w + (if is_real_ip ip then 1 else 0))) in
    (rc \<noteq> 0 \<longrightarrow> rc = -1 \<and> is_real_ip ip \<and> w_files w' path = w_files w path \<and> w_db w' = w_db w \<and>
       w_spawned w' = w_spawned w \<and> w_log w' = w_log w) \<and>
    (rc = 0 \<longrightarrow> blocked_lines path w' =
         (if is_real_ip ip \<and> ip \<notin> set (blocked_lines path w)
          then blocked_lines path w @ [ip] else blocked_lines path w) \<and>
       (\<not> is_real_ip ip \<longrightarrow> w_files w' = w_files w) \<and>
       w_spawned w' = w_spawned w @
         (if share \<noteq> [] \<and> forks then [[''smbcontrol'', ''smbd'', ''close-share'', share]] else []) \<and>
       w_log w' = w_log w @
         (if share \<noteq> [] \<and> \<not> forks
          then [log_call LOG_ERROR ''BLOCKER_FORK_FAILED'' None ''{\"helper\":\"smbcontrol\"}''] else []) \<and>
       (stmt_ok (w_db w) \<and> event_id \<noteq> [] \<longrightarrow>
          (\<forall>r \<in> set (d_events (w_db w')). ev_event_id r = event_id \<longrightarrow>
             ev_action r = ''blocked'' \<and> ev_status r = or_default ''blocked'' status)) \<and>
       (\<not> stmt_ok (w_db w) \<or> event_id = [] \<longrightarrow> d_events (w_db w') = d_events (w_db w))) \<and>
    (good_io (answers w) \<longrightarrow> rc = 0)"
proof -
  let ?ex = "blocker_execute w path (Some ip) event_id share status"
  let ?w1 = "if is_real_ip ip then snd (block_ip path ip w) else w"
  let ?forks = "a_fork (w_answers w (w_ops w + (if is_real_ip ip then 1 else 0)))"
  have plain: "newline \<notin> set ip" if "is_real_ip ip" using real_ip_plain(1) [OF that] .
  have fail: "w_files (snd (block_ip path ip w)) path = w_files w path" if "\<not> fst (block_ip path ip w)"
    using that blocked_lock_frame(2) [OF assms(1), of w]
      write_atomic_effect(1) [OF assms(1), of _ "snd (blocked_lock path w)"]
    by (auto simp: block_ip_def case_prod_beta Let_def next_op_def split: option.splits if_splits)
  have w1: "w_db ?w1 = w_db w" "w_spawned ?w1 = w_spawned w" "w_log ?w1 = w_log w"
    "a_fork (answers ?w1) = ?forks"
    using block_ip_effect(2-4) [OF assms plain] block_ip_frame [of path ip w] by (auto simp: answers_def)
  have part1: "fst ?ex \<noteq> 0 \<longrightarrow> fst ?ex = -1 \<and> is_real_ip ip \<and> w_files (snd ?ex) path = w_files w path \<and>
      w_db (snd ?ex) = w_db w \<and> w_spawned (snd ?ex) = w_spawned w \<and> w_log (snd ?ex) = w_log w"
  proof
    assume "fst ?ex \<noteq> 0"
    then have c: "fst ?ex = -1 \<and> is_real_ip ip \<and> \<not> fst (block_ip path ip w)"
      by (simp add: execute_files valid_real_ip split: if_splits)
    then have "snd ?ex = snd (block_ip path ip w)"
      by (simp add: blocker_execute_def valid_real_ip case_prod_beta)
    with c fail w1 show "fst ?ex = -1 \<and> is_real_ip ip \<and> w_files (snd ?ex) path = w_files w path \<and>
      w_db (snd ?ex) = w_db w \<and> w_spawned (snd ?ex) = w_spawned w \<and> w_log (snd ?ex) = w_log w" by simp
  qed
  have part2: "blocked_lines path (snd ?ex) =
       (if is_real_ip ip \<and> ip \<notin> set (blocked_lines path w)
        then blocked_lines path w @ [ip] else blocked_lines path w)" if "fst ?ex = 0"
    using that block_ip_effect(1) [OF assms plain]
    by (simp add: blocked_lines_def execute_files valid_real_ip split: if_splits)
  have part3: "\<not> is_real_ip ip \<longrightarrow> w_files (snd ?ex) = w_files w"
    by (simp add: execute_files valid_real_ip)
  have part4: "good_io (answers w) \<longrightarrow> fst ?ex = 0"
    using block_ip_good [OF assms(1), of w ip] by (simp add: execute_files valid_real_ip)
  have rest: "snd ?ex = execute_rest event_id share status ?w1" if "fst ?ex = 0"
    using execute_ok [OF that] by (simp add: valid_real_ip)
  have part5: "w_spawned (snd ?ex) = w_spawned w @
         (if share \<noteq> [] \<and> ?forks then [[''smbcontrol'', ''smbd'', ''close-share'', share]] else [])"
    "w_log (snd ?ex) = w_log w @
         (if share \<noteq> [] \<and> \<not> ?forks
          then [log_call LOG_ERROR ''BLOCKER_FORK_FAILED'' None ''{\"helper\":\"smbcontrol\"}''] else [])"
    if "fst ?ex = 0"
    using execute_rest_effect(1,2) [of event_id share status ?w1] w1
    unfolding rest [OF that] by simp_all
  have part6: "stmt_ok (w_db w) \<and> event_id \<noteq> [] \<longrightarrow>
      (\<forall>r \<in> set (d_events (w_db (snd ?ex))). ev_event_id r = event_id \<longrightarrow>
         ev_action r = ''blocked'' \<and> ev_status r = or_default ''blocked'' status)"
    "\<not> stmt_ok (w_db w) \<or> event_id = [] \<longrightarrow> d_events (w_db (snd ?ex)) = d_events (w_db w)"
    if ok: "fst ?ex = 0"
  proof -
    obtain ts where ts: "w_db (snd ?ex) = (if event_id = [] then w_db w else snd (db_update_event (w_db w)
        event_id 0 0 0 (Some ''blocked'') (Some (or_default ''blocked'' status)) (Some ts)))"
      using execute_rest_effect(3) [of event_id share status ?w1] unfolding w1(1) rest [OF ok] by blast
    show "stmt_ok (w_db w) \<and> event_id \<noteq> [] \<longrightarrow>
      (\<forall>r \<in> set (d_events (w_db (snd ?ex))). ev_event_id r = event_id \<longrightarrow>
         ev_action r = ''blocked'' \<and> ev_status r = or_default ''blocked'' status)"
      using ts blocked_event_row [of "w_db w" _ event_id status ts] by auto
    show "\<not> stmt_ok (w_db w) \<or> event_id = [] \<longrightarrow> d_events (w_db (snd ?ex)) = d_events (w_db w)"
      using ts by (auto simp: db_update_event_def run_stmt_def tick_def)
  qed
  from part1 part2 part3 part4 part5 part6 show ?thesis
    unfolding case_prod_beta Let_def by blast
qed

lemma quiet_simps [simp]: "sane_reads quiet_world" "short_path ''/run/blocked''" "good_io quiet_io"
  "answers quiet_world = quiet_io"
  "blocked_lines ''/run/blocked'' quiet_world = [''10.0.0.8'']"
  by (simp_all add: sane_reads_def quiet_world_def quiet_io_def short_path_def RGUARD_PATH_MAX_def
      good_io_def answers_def blocked_lines_def lines_of_single
      lines_of_single [of "''10.0.0.8''", unfolded newline_def, simplified] newline_def)

lemma quiet_fork: "a_fork (w_answers quiet_world n)" "w_spawned quiet_world = []"
  by (simp_all add: quiet_world_def quiet_io_def)

theorem blocker_execute_effect_witness:
  "let w' = snd (blocker_execute quiet_world ''/run/blocked'' (Some ''10.0.0.9'') ''evt-1'' ''docs''
       ''blocked_ransom'') in
     blocked_lines ''/run/blocked'' w' = [''10.0.0.8'', ''10.0.0.9''] \<and>
     w_spawned w' = [[''smbcontrol'', ''smbd'', ''close-share'', ''docs'']]"
  using blocker_execute_effect [of "''/run/blocked''" quiet_world "''10.0.0.9''" "''evt-1''" "''docs''"
      "''blocked_ransom''"] sample_real_ip
  by (simp add: case_prod_beta Let_def quiet_fork)

text \<open>
  C37: The blocked file is the set of addresses the requests ask for: after any sequence of
  blocking and unblocking requests, failed ones included, an address is in the file exactly
  when the last successful request that names it was a blocking, or there was none and it was
  in the file before; and no address is ever listed twice.
\<close>

theorem blocked_file_history:
  assumes "short_path path" and "sane_reads w" and "\<forall>ip. Block ip \<in> set rs \<longrightarrow> is_real_ip ip"
  shows "let (outs, w') = run_requests (\<lambda>ip w. blocker_execute w path (Some ip) event_id share status)
      (blocker_unblock path) rs w in
    (\<forall>ip. ip \<in> set (blocked_lines path w') \<longleftrightarrow> listed_after ip (ip \<in> set (blocked_lines path w)) outs) \<and>
    (distinct (blocked_lines path w) \<longrightarrow> distinct (blocked_lines path w'))"
  using assms by (simp add: case_prod_beta bf.history)

theorem blocked_file_history_witness:
  "distinct (blocked_lines ''/run/blocked'' (snd (run_requests
     (\<lambda>ip w. blocker_execute w ''/run/blocked'' (Some ip) ''evt-1'' [] [])
     (blocker_unblock ''/run/blocked'') [Block ''10.0.0.9'', Unblock ''10.0.0.8''] quiet_world)))"
  using blocked_file_history [of "''/run/blocked''" quiet_world
      "[Block ''10.0.0.9'', Unblock ''10.0.0.8'']" "''evt-1''" "[]" "[]"] sample_real_ip
  by (auto simp: case_prod_beta)

text \<open>
  A rebuild writes exactly the plain addresses of the manual and automatic lists, in order.
  A client that was blocked because its address lies in a CIDR or range entry, or for its user
  name, is not among them: its line, and with it the refusal of its connections, is dropped.
\<close>

theorem sync_rebuilds_from_lists:
  assumes "short_path path" and "good_io (answers w)"
    and "\<forall>e \<in> set (bl_ips bl @ bl_auto_ips bl). newline \<notin> set (b_ip e)"
  shows "blocked_lines path (blocker_sync_blacklist path bl w) =
      filter plain_entry (map b_ip (bl_ips bl @ bl_auto_ips bl)) \<and>
    (\<forall>ip. ip \<notin> b_ip ` set (bl_ips bl @ bl_auto_ips bl) \<longrightarrow>
       ip \<notin> set (blocked_lines path (blocker_sync_blacklist path bl w)))"
proof -
  let ?ls = "filter plain_entry (map b_ip (bl_ips bl @ bl_auto_ips bl))"
  have "lines_of (unlines ?ls) = ?ls"
    by (rule lines_of_unlines) (use assms(3) in auto)
  then have "blocked_lines path (blocker_sync_blacklist path bl w) = ?ls"
    using sync_good [OF assms(1,2), of bl] by (simp add: blocked_lines_def)
  then show ?thesis by auto
qed

definition range_blacklist :: rguard_blacklist where
  "range_blacklist = \<lparr>bl_users = [], bl_user_hashes = [],
     bl_ips = [\<lparr>b_ip = ''10.0.0.0/24'', b_auto_add = False\<rparr>], bl_ip_hashes = [],
     bl_auto_ips = [\<lparr>b_ip = ''10.9.9.9'', b_auto_add = True\<rparr>]\<rparr>"

theorem sync_rebuilds_from_lists_witness:
  "''10.0.0.8'' \<in> set (blocked_lines ''/run/blocked'' quiet_world) \<and>
   blocked_lines ''/run/blocked'' (blocker_sync_blacklist ''/run/blocked'' range_blacklist quiet_world) =
     [''10.9.9.9'']"
  using sync_rebuilds_from_lists [of "''/run/blocked''" quiet_world range_blacklist]
  by (simp add: range_blacklist_def newline_def plain_entry_def)

end
