(* ===== verification/Entropy.thy ===== *)
theory Entropy
  imports World Complex_Main
begin

text \<open>
  \<open>src/daemon/gfrguardd_entropy.h\<close> and \<open>.c\<close>: the byte entropy of the first bytes of a file.
  The floating-point result is the real number it approximates; rounding is left out.
\<close>

definition ENTROPY_SAMPLE_SIZE :: nat where "ENTROPY_SAMPLE_SIZE = 8192"

text \<open>The bytes the loop reads: a failed, interrupted or empty \<open>read\<close> ends it.\<close>

function sample_loop :: "io_step list \<Rightarrow> string \<Rightarrow> nat \<Rightarrow> string \<Rightarrow> string" where
  "sample_loop as rest want acc =
     (if 0 < want then
        let to_read = min 8192 want in
        (case as of
           Io_error # _ \<Rightarrow> acc
         | Io_intr # _ \<Rightarrow> acc
         | Io_bytes k # as' \<Rightarrow>
             (let d = take (min k to_read) rest in
              if d = [] then acc else sample_loop as' (drop (length d) rest) (want - length d) (acc @ d))
         | [] \<Rightarrow>
             (let d = take to_read rest in
              if d = [] then acc else sample_loop [] (drop (length d) rest) (want - length d) (acc @ d)))
      else acc)"
  by pat_completeness auto
termination
  by (relation "measure (\<lambda>(as, rest, want, acc). want)") auto

declare sample_loop.simps [simp del]

definition freq :: "string \<Rightarrow> nat \<Rightarrow> nat" where
  "freq s i = length (filter (\<lambda>c. of_char c = i) s)"

fun entropy_sum :: "string \<Rightarrow> nat list \<Rightarrow> real \<Rightarrow> real" where
  "entropy_sum s [] e = e"
| "entropy_sum s (i # is) e =
     (if freq s i = 0 then entropy_sum s is e
      else let p = real (freq s i) / real (length s) in entropy_sum s is (e - p * log 2 p))"

text \<open>
  \<open>file\<close> is the content of the path if it opens as a regular file; \<open>path\<close> says whether the
  pointer is set.
\<close>

definition entropy_compute_file :: "bool \<Rightarrow> string option \<Rightarrow> io_step list \<Rightarrow> nat \<Rightarrow> real" where
  "entropy_compute_file path file reads sample_bytes =
     (if \<not> path \<or> sample_bytes = 0 then -1
      else case file of
        None \<Rightarrow> -1
      | Some content \<Rightarrow>
          (let s = sample_loop reads content sample_bytes [] in
           if s = [] then 0 else entropy_sum s [0..<256] 0))"

definition entropy_is_suspicious :: "real \<Rightarrow> real \<Rightarrow> bool" where
  "entropy_is_suspicious entropy threshold = (if entropy < 0 then False else entropy \<ge> threshold)"

subsection \<open>The sample\<close>

lemma sample_loop_prefix:
  "\<exists>n \<le> want. sample_loop as rest want acc = acc @ take n rest"
proof (induction want arbitrary: as rest acc rule: less_induct)
  case (less want)
  have stop: "\<exists>n \<le> want. acc = acc @ take n rest" by (rule exI [of _ 0]) simp
  have more: "\<exists>n \<le> want. sample_loop bs (drop (length d) rest) (want - length d) (acc @ d) = acc @ take n rest"
    if "d = take k rest" "d \<noteq> []" "k \<le> want" for d k bs
  proof -
    have len: "0 < length d" "length d \<le> want" using that by auto
    then have "want - length d < want" by linarith
    from less.IH [OF this, of bs "drop (length d) rest" "acc @ d"] obtain m
      where m: "m \<le> want - length d" "sample_loop bs (drop (length d) rest) (want - length d) (acc @ d) =
        (acc @ d) @ take m (drop (length d) rest)" by blast
    have "d @ take m (drop (length d) rest) = take (length d + m) rest"
      using that(1) by (simp add: take_add min_def)
    with m len(2) show ?thesis by (intro exI [of _ "length d + m"]) simp
  qed
  show ?case
  proof (cases "0 < want")
    case True
    note eq = sample_loop.simps [of as rest want acc]
    show ?thesis
    proof (cases as)
      case Nil
      let ?d = "take (min 8192 want) rest"
      have "sample_loop as rest want acc = (if ?d = [] then acc
          else sample_loop [] (drop (length ?d) rest) (want - length ?d) (acc @ ?d))"
        using eq True Nil by (simp only: Let_def list.case if_True)
      with stop more [OF refl, of "min 8192 want" "[]"] show ?thesis by (cases "?d = []") simp_all
    next
      case (Cons a bs)
      show ?thesis
      proof (cases a)
        case (Io_bytes k)
        let ?d = "take (min k (min 8192 want)) rest"
        have "sample_loop as rest want acc = (if ?d = [] then acc
            else sample_loop bs (drop (length ?d) rest) (want - length ?d) (acc @ ?d))"
          using eq True Cons Io_bytes by (simp only: Let_def list.case io_step.case if_True)
        with stop more [OF refl, of "min k (min 8192 want)" bs] show ?thesis
          by (cases "?d = []") simp_all
      qed (use eq True Cons stop in simp_all)
    qed
  qed (use stop sample_loop.simps [of as rest want acc] in simp)
qed

subsection \<open>Bounds of the entropy\<close>

definition byte_values :: "nat set" where "byte_values = {..<256}"

lemma byte_values [simp]: "finite byte_values" "card byte_values = 256" "i \<in> byte_values \<longleftrightarrow> i < 256"
  by (simp_all add: byte_values_def)

definition share_of :: "string \<Rightarrow> nat \<Rightarrow> real" where
  "share_of s i = real (freq s i) / real (length s)"

definition info :: "real \<Rightarrow> real" where
  "info p = (if p = 0 then 0 else - (p * log 2 p))"

lemma entropy_sum_eq:
  "s \<noteq> [] \<Longrightarrow> entropy_sum s is e = e + sum_list (map (\<lambda>i. info (share_of s i)) is)"
  by (induction s "is" e rule: entropy_sum.induct) (auto simp: Let_def info_def share_of_def)

lemma char_code: "(of_char c :: nat) < 256"
  using range_nat_of_char by (metis atLeastLessThan_iff rangeI)

lemma freq_total: "(\<Sum>i \<in> byte_values. freq s i) = length s"
proof (induction s)
  case (Cons c s)
  have "(\<Sum>i \<in> byte_values. freq (c # s) i) = (\<Sum>i \<in> byte_values. freq s i + (if i = of_char c then 1 else 0))"
    by (rule sum.cong) (auto simp: freq_def)
  also have "\<dots> = length s + 1"
    using Cons char_code [of c] by (simp add: sum.distrib)
  finally show ?case by simp
qed (simp add: freq_def)

lemma share_total: "s \<noteq> [] \<Longrightarrow> (\<Sum>i \<in> byte_values. share_of s i) = 1"
  using freq_total [of s]
  by (simp add: share_of_def flip: sum_divide_distrib of_nat_sum)

lemma share_range: "s \<noteq> [] \<Longrightarrow> 0 \<le> share_of s i \<and> share_of s i \<le> 1"
  by (simp add: share_of_def freq_def)

lemma info_nonneg: "0 \<le> p \<Longrightarrow> p \<le> 1 \<Longrightarrow> 0 \<le> info p"
  by (auto simp: info_def mult_nonneg_nonpos)

lemma info_zero: "0 \<le> p \<Longrightarrow> p \<le> 1 \<Longrightarrow> info p = 0 \<Longrightarrow> p = 0 \<or> p = 1"
  by (auto simp: info_def log_def split: if_splits)

lemma info_upper:
  assumes "0 \<le> p"
  shows "info p * ln 2 \<le> p * ln 256 + 1 / 256 - p"
proof (cases "p = 0")
  case False
  with assms have p: "0 < p" by simp
  have "ln (1 / (256 * p)) \<le> 1 / (256 * p) - 1"
    using p by (intro ln_le_minus_one) simp
  then have "p * ln (1 / (256 * p)) \<le> p * (1 / (256 * p) - 1)"
    using p by (simp only: mult_le_cancel_left_pos)
  also have "\<dots> = 1 / 256 - p" using p by (simp add: field_simps)
  finally have "p * ln (1 / (256 * p)) \<le> 1 / 256 - p" .
  moreover have "ln (1 / (256 * p)) = - ln 256 - ln p"
    using p by (simp add: ln_div ln_mult)
  ultimately have "p * (- ln 256 - ln p) \<le> 1 / 256 - p" by simp
  moreover have "info p * ln 2 = - (p * ln p)"
    using p by (simp add: info_def log_def)
  ultimately show ?thesis by (simp add: right_diff_distrib)
qed (simp add: info_def)

lemma ln_256: "ln 256 = 8 * ln (2 :: real)"
proof -
  have "ln ((2 :: real) ^ 8) = 8 * ln 2" by (subst ln_realpow) simp_all
  then show ?thesis by simp
qed

definition sample_entropy :: "string \<Rightarrow> real" where
  "sample_entropy s = (\<Sum>i \<in> byte_values. info (share_of s i))"

lemma entropy_upper:
  assumes "s \<noteq> []"
  shows "sample_entropy s \<le> 8"
proof -
  have "sample_entropy s * ln 2 = (\<Sum>i \<in> byte_values. info (share_of s i) * ln 2)"
    by (simp add: sample_entropy_def sum_distrib_right)
  also have "\<dots> \<le> (\<Sum>i \<in> byte_values. share_of s i * ln 256 + 1 / 256 - share_of s i)"
    by (rule sum_mono) (use assms share_range info_upper in blast)
  also have "\<dots> = (\<Sum>i \<in> byte_values. share_of s i) * ln 256 + 1 - (\<Sum>i \<in> byte_values. share_of s i)"
    by (simp add: sum.distrib sum_subtractf sum_distrib_right)
  also have "\<dots> = 8 * ln 2" using share_total [OF assms] by (simp add: ln_256)
  finally show ?thesis by simp
qed

lemma entropy_nonneg: "s \<noteq> [] \<Longrightarrow> 0 \<le> sample_entropy s"
  unfolding sample_entropy_def by (rule sum_nonneg) (use share_range info_nonneg in blast)

lemma share_zero: "s \<noteq> [] \<Longrightarrow> share_of s i = 0 \<longleftrightarrow> (\<forall>c \<in> set s. of_char c \<noteq> i)"
  by (auto simp: share_of_def freq_def filter_empty_conv)

lemma freq_full: "freq s i = length s \<longleftrightarrow> (\<forall>c \<in> set s. of_char c = i)"
proof (induction s)
  case (Cons c s)
  have "length (filter (\<lambda>c. of_char c = i) s) \<noteq> Suc (length s)"
    using length_filter_le [of "\<lambda>c. of_char c = i" s] by linarith
  with Cons show ?case by (auto simp: freq_def)
qed (simp add: freq_def)

lemma share_one: "s \<noteq> [] \<Longrightarrow> share_of s i = 1 \<longleftrightarrow> (\<forall>c \<in> set s. of_char c = i)"
  using freq_full [of s i] by (simp add: share_of_def eq_commute [of "length s"])

lemma entropy_zero_iff:
  assumes "s \<noteq> []"
  shows "sample_entropy s = 0 \<longleftrightarrow> (\<forall>a \<in> set s. \<forall>b \<in> set s. a = b)"
proof
  assume "sample_entropy s = 0"
  moreover have "0 \<le> info (share_of s i)" for i using share_range [OF assms] info_nonneg by blast
  ultimately have z: "info (share_of s i) = 0" if "i < 256" for i
    using that sum_nonneg_eq_0_iff [of byte_values "\<lambda>i. info (share_of s i)"]
    by (simp add: sample_entropy_def)
  show "\<forall>a \<in> set s. \<forall>b \<in> set s. a = b"
  proof (intro ballI)
    fix a b assume ab: "a \<in> set s" "b \<in> set s"
    have "info (share_of s (of_char a)) = 0" using z char_code by blast
    moreover have "share_of s (of_char a) \<noteq> 0" using share_zero [OF assms] ab(1) by blast
    ultimately have "share_of s (of_char a) = 1"
      using info_zero share_range [OF assms] by blast
    with share_one [OF assms] ab(2) have "(of_char b :: nat) = of_char a" by blast
    then show "a = b" by simp
  qed
next
  assume same: "\<forall>a \<in> set s. \<forall>b \<in> set s. a = b"
  have "info (share_of s i) = 0" for i
  proof (cases "share_of s i = 0")
    case False
    with share_zero [OF assms] obtain c where "c \<in> set s" "of_char c = i" by blast
    have "\<forall>d \<in> set s. of_char d = i"
    proof
      fix d assume "d \<in> set s"
      with same \<open>c \<in> set s\<close> have "d = c" by blast
      with \<open>of_char c = i\<close> show "of_char d = i" by simp
    qed
    then have "share_of s i = 1" using share_one [OF assms] by blast
    then show ?thesis by (simp add: info_def)
  qed (simp add: info_def)
  then show "sample_entropy s = 0" unfolding sample_entropy_def by (intro sum.neutral ballI)
qed

lemma entropy_uniform:
  assumes "s \<noteq> []" and "\<forall>i < 256. 256 * freq s i = length s"
  shows "sample_entropy s = 8"
proof -
  have "share_of s i = 1 / 256" if "i < 256" for i
  proof -
    from assms(2) that have "256 * real (freq s i) = real (length s)"
      by (metis of_nat_mult of_nat_numeral)
    with assms(1) show ?thesis by (simp add: share_of_def field_simps)
  qed
  moreover have "info (1 / 256) = 8 / 256"
    using ln_256 by (simp add: info_def log_def ln_div)
  ultimately have "info (share_of s i) = 8 / 256" if "i \<in> byte_values" for i
    using that by (metis byte_values(3))
  then have "sample_entropy s = (\<Sum>i \<in> byte_values. 8 / 256)"
    unfolding sample_entropy_def by (rule sum.cong [OF refl])
  then show ?thesis by simp
qed

lemma compute_file_eq:
  assumes "0 < n"
  shows "\<exists>k \<le> n. entropy_compute_file True (Some content) reads n =
    (if take k content = [] then 0 else sample_entropy (take k content))"
proof -
  obtain k where "k \<le> n" "sample_loop reads content n [] = take k content"
    using sample_loop_prefix [of n reads content "[]"] by auto
  moreover have "(\<Sum>i \<in> byte_values. f i) = sum_list (map f [0..<256])" for f :: "nat \<Rightarrow> real"
    unfolding byte_values_def interv_sum_list_conv_sum_set_nat atLeast_upt atLeast0LessThan ..
  ultimately show ?thesis
    using assms
    by (intro exI [of _ k]) (simp add: entropy_compute_file_def sample_entropy_def entropy_sum_eq Let_def)
qed

text \<open>
  The entropy of a readable file is between zero and eight bits per byte, whatever the
  reads deliver; it is zero exactly when all bytes of the sample are the same and eight when
  every byte value occurs equally often. A file that cannot be read is never suspicious, for
  any threshold.
\<close>

theorem entropy_range:
  assumes "0 < n"
  shows "(\<exists>k \<le> n. let h = entropy_compute_file True (Some content) reads n; s = take k content in
      0 \<le> h \<and> h \<le> 8 \<and> (h = 0 \<longleftrightarrow> (\<forall>a \<in> set s. \<forall>b \<in> set s. a = b)) \<and>
      (s \<noteq> [] \<and> (\<forall>i < 256. 256 * freq s i = length s) \<longrightarrow> h = 8)) \<and>
    \<not> entropy_is_suspicious (entropy_compute_file True None reads n) threshold"
proof
  obtain k where "k \<le> n" "entropy_compute_file True (Some content) reads n =
      (if take k content = [] then 0 else sample_entropy (take k content))"
    using compute_file_eq [OF assms] by blast
  then show "\<exists>k \<le> n. let h = entropy_compute_file True (Some content) reads n; s = take k content in
      0 \<le> h \<and> h \<le> 8 \<and> (h = 0 \<longleftrightarrow> (\<forall>a \<in> set s. \<forall>b \<in> set s. a = b)) \<and>
      (s \<noteq> [] \<and> (\<forall>i < 256. 256 * freq s i = length s) \<longrightarrow> h = 8)"
    using entropy_nonneg [of "take k content"] entropy_upper [of "take k content"]
      entropy_zero_iff [of "take k content"] entropy_uniform [of "take k content"]
    by (intro exI [of _ k]) (cases "take k content = []", auto simp: Let_def)
qed (simp add: entropy_compute_file_def entropy_is_suspicious_def)

theorem entropy_range_witness:
  "0 \<le> entropy_compute_file True (Some ''aaab'') [Io_bytes 3] ENTROPY_SAMPLE_SIZE"
  using entropy_range [of ENTROPY_SAMPLE_SIZE "''aaab''" "[Io_bytes 3]" 7]
  by (auto simp: ENTROPY_SAMPLE_SIZE_def Let_def)

end
