(* ===== verification/Upkeep.thy ===== *)
theory Upkeep
  imports World Rguard_Config
begin

text \<open>
  \<open>src/daemon/gfrguardd_space.c\<close> and \<open>gfrguardd_restore.c\<close>: the check of the store's disk
  usage, and starting and reaping the automatic restore programs. The answers of \<open>statvfs\<close>,
  \<open>fork\<close> and \<open>waitpid\<close> are arguments.
\<close>

subsection \<open>Disk usage\<close>

text \<open>\<open>statvfs\<close>: the numbers of blocks and of available blocks.\<close>

definition used_percent :: "(u64 \<times> u64) option \<Rightarrow> int option" where
  "used_percent vs =
     (case vs of
        None \<Rightarrow> None
      | Some (blocks, avail) \<Rightarrow>
          if blocks = 0 then Some 0
          else Some (signed_take_bit 31 (uint (((blocks - avail) * 100) div blocks))))"

definition space_check ::
  "world \<Rightarrow> rguard_policy \<Rightarrow> (u64 \<times> u64) option \<Rightarrow> (u64 \<times> u64) option \<Rightarrow> string \<Rightarrow> int \<times> world" where
  "space_check w p before after cutoff =
     (if p_store_path p = [] then (0, w)
      else case used_percent before of
        None \<Rightarrow> (-1, w)
      | Some used_pct \<Rightarrow>
          if used_pct \<le> sp_max_usage_percent (p_space p) then (0, w)
          else
            let ((rc, n), db') = db_cleanup_restored (w_db w) (sp_cleanup_days (p_space p)) cutoff;
                deleted = (if rc = RGUARD_OK then n else 0);
                w1 = w\<lparr>w_db := db'\<rparr>
            in (case used_percent after of
                  None \<Rightarrow> (-1, w1)
                | Some after_pct \<Rightarrow>
                    let limit = sp_max_usage_percent (p_space p);
                        detail = snprintf_s 160 (''{\"used_pct\":'' @ show_int used_pct @
                          '',\"after_cleanup_pct\":'' @ show_int after_pct @ '',\"limit\":'' @ show_int limit @
                          '',\"deleted\":'' @ show_int deleted @ ''}'')
                    in (if after_pct > limit then -1 else 0,
                        write_log (if after_pct > limit then LOG_WARN else LOG_INFO) ''SPACE_WARNING'' None
                          detail w1)))"

text \<open>On answers a file system gives, the percentage is the exact quotient.\<close>

lemma used_percent_exact:
  assumes "avail \<le> blocks" and "0 < blocks" and "uint blocks < 2 ^ 57"
  shows "used_percent (Some (blocks, avail)) =
    Some ((100 * (uint blocks - uint avail)) div uint blocks)"
proof -
  have le: "uint avail \<le> uint blocks" using assms(1) by (simp add: word_le_def)
  have pos: "0 < uint blocks" using assms(2) by (simp add: word_less_def)
  have small: "uint blocks < 144115188075855872" using assms(3) by simp
  let ?d = "uint blocks - uint avail"
  have d: "0 \<le> ?d" "?d < 144115188075855872"
    using le small uint_ge_0 [of avail] by linarith+
  then have d': "?d < 18446744073709551616" "?d * 100 < 18446744073709551616"
    by simp_all
  have sub: "uint (blocks - avail) = ?d"
    using d(1) d'(1) by (simp add: uint_word_ariths mod_pos_pos_trivial)
  have mult: "uint ((blocks - avail) * 100) = ?d * 100"
    unfolding uint_word_ariths(3) sub using d(1) d' by (simp add: mod_pos_pos_trivial)
  let ?q = "((uint blocks - uint avail) * 100) div uint blocks"
  have q: "0 \<le> ?q" "?q \<le> 100"
    using le pos uint_ge_0 [of avail] zdiv_mono1 [of "(uint blocks - uint avail) * 100" "100 * uint blocks" "uint blocks"]
    by (auto simp: pos_imp_zdiv_nonneg_iff)
  have "uint (((blocks - avail) * 100) div blocks) = ?q"
    by (simp only: uint_div mult)
  moreover have "signed_take_bit 31 ?q = ?q"
    using q by (simp add: signed_take_bit_int_eq_self)
  ultimately show ?thesis
    using assms(2) by (auto simp: used_percent_def mult.commute)
qed

text \<open>
  The store is cleaned up exactly when its usage is above the limit, and the result tells
  the caller whether it still is after the clean-up: on the numbers a file system reports, the
  percentages are the exact quotients, below the limit nothing changes, and above it one
  clean-up statement runs and one line is logged.
\<close>

theorem space_check_outcome:
  assumes "b1 \<noteq> 0" and "a1 \<le> b1" and "uint b1 < 2 ^ 57" and "b2 \<noteq> 0" and "a2 \<le> b2" and "uint b2 < 2 ^ 57"
    and "p_store_path p \<noteq> []"
  shows "let limit = sp_max_usage_percent (p_space p);
      used = (100 * (uint b1 - uint a1)) div uint b1; left = (100 * (uint b2 - uint a2)) div uint b2;
      (rc, w') = space_check w p (Some (b1, a1)) (Some (b2, a2)) cutoff
    in (if used \<le> limit then rc = 0 \<and> w' = w
        else (rc = -1 \<longleftrightarrow> left > limit) \<and> (rc = 0 \<longleftrightarrow> left \<le> limit) \<and>
          w_db w' = snd (db_cleanup_restored (w_db w) (sp_cleanup_days (p_space p)) cutoff) \<and>
          length (w_log w') = length (w_log w) + 1 \<and>
          l_level (last (w_log w')) = (if left > limit then LOG_WARN else LOG_INFO))"
proof -
  have "0 < b1" "0 < b2" using assms(1,4) by (simp_all add: word_gt_0)
  then have "used_percent (Some (b1, a1)) = Some ((100 * (uint b1 - uint a1)) div uint b1)"
    "used_percent (Some (b2, a2)) = Some ((100 * (uint b2 - uint a2)) div uint b2)"
    using assms used_percent_exact by blast+
  then show ?thesis
    using assms(7) by (simp add: space_check_def case_prod_beta Let_def log_call_def)
qed

theorem space_check_outcome_witness:
  "fst (space_check quiet_world apply_defaults (Some (1000, 50)) (Some (1000, 300)) []) = 0 \<and>
   fst (space_check quiet_world apply_defaults (Some (1000, 50)) (Some (1000, 60)) []) = -1"
  using space_check_outcome [of 1000 50 1000 300 apply_defaults quiet_world "[]"]
    space_check_outcome [of 1000 50 1000 60 apply_defaults quiet_world "[]"]
  by (simp add: apply_defaults_def case_prod_beta Let_def)

subsection \<open>Automatic restore\<close>

text \<open>\<open>g_restore_pids\<close>: the process numbers of the running restores, at most sixteen.\<close>

definition RESTORE_PIDS_MAX :: nat where "RESTORE_PIDS_MAX = 16"

definition restore_trigger_auto ::
  "rguard_policy \<Rightarrow> string \<Rightarrow> int option \<Rightarrow> int list \<Rightarrow> world \<Rightarrow> int \<times> int list \<times> world" where
  "restore_trigger_auto p event_id fork pids w =
     (if \<not> ar_enabled (p_auto_restore p) then (0, pids, w)
      else if event_id = [] then (-1, pids, w)
      else
        let detail = snprintf_s 256 (''{\"event_id\":\"'' @ event_id @ ''\",\"delay_seconds\":'' @
              show_int (ar_delay_seconds (p_auto_restore p)) @ ''}'');
            w1 = write_log LOG_INFO ''AUTO_RESTORE_STARTED'' None detail w
        in (case fork of
              None \<Rightarrow> (-1, pids, write_log LOG_ERROR ''AUTO_RESTORE_FAILED'' None ''{\"reason\":\"fork failed\"}'' w1)
            | Some pid \<Rightarrow>
                (0, if length pids < RESTORE_PIDS_MAX then pids @ [pid] else pids,
                 w1\<lparr>w_spawned := w_spawned w1 @
                    [[''gfrguard-recover'', ''restore'', ''--event'', event_id, ''--auto'']]\<rparr>)))"

text \<open>The slot of the reaped process takes the last entry.\<close>

definition drop_pid :: "int list \<Rightarrow> nat \<Rightarrow> int list" where
  "drop_pid pids i = butlast (pids[i := last pids])"

text \<open>The reaped children: process number and exit code, \<open>None\<close> if it did not exit by itself.\<close>

definition reap_log :: "int \<Rightarrow> int option \<Rightarrow> world \<Rightarrow> world" where
  "reap_log pid status w =
     (let code = (case status of Some c \<Rightarrow> c | None \<Rightarrow> -1);
          detail = snprintf_s 128 (''{\"pid\":'' @ show_int pid @ '',\"exit_code\":'' @ show_int code @ ''}'')
      in if code = 0 then write_log LOG_INFO ''AUTO_RESTORE_COMPLETED'' None detail w
         else write_log LOG_ERROR ''AUTO_RESTORE_FAILED'' None detail w)"

fun restore_reap_children :: "(int \<times> int option) list \<Rightarrow> int list \<Rightarrow> world \<Rightarrow> int list \<times> world" where
  "restore_reap_children [] pids w = (pids, w)"
| "restore_reap_children ((pid, status) # reaped) pids w =
     (case first_index (\<lambda>q. q = pid) pids of
        None \<Rightarrow> restore_reap_children reaped pids w
      | Some i \<Rightarrow> restore_reap_children reaped (drop_pid pids i) (reap_log pid status w))"

lemma reap_log_event [simp]:
  "map l_event (w_log (reap_log pid status w)) = map l_event (w_log w) @
     [if status = Some 0 then ''AUTO_RESTORE_COMPLETED'' else ''AUTO_RESTORE_FAILED'']"
  by (cases status) (simp_all add: reap_log_def log_call_def)

lemma mset_drop_pid:
  assumes "i < length pids"
  shows "mset (drop_pid pids i) = mset pids - {#pids ! i#}"
proof -
  have ne: "pids \<noteq> []" using assms by auto
  have last: "last pids = pids ! (length pids - 1)" by (rule last_conv_nth [OF ne])
  let ?q = "pids[i := last pids]"
  have q: "?q \<noteq> []" using ne by simp
  have "last ?q = last pids"
    using ne assms by (simp add: last_conv_nth nth_list_update)
  moreover have "mset ?q = mset (butlast ?q) + {#last ?q#}"
    using append_butlast_last_id [OF q] by (metis mset_append mset_single_iff_right)
  ultimately have "mset (butlast ?q) = mset ?q - {#last pids#}" by simp
  also have "\<dots> = mset pids - {#pids ! i#}"
    using assms by (simp add: mset_update)
  finally show ?thesis by (simp add: drop_pid_def)
qed

lemma drop_pid_distinct:
  "distinct pids \<Longrightarrow> i < length pids \<Longrightarrow> distinct (drop_pid pids i) \<and> set (drop_pid pids i) = set pids - {pids ! i}"
proof -
  assume d: "distinct pids" and i: "i < length pids"
  note m = mset_drop_pid [OF i]
  have "mset (drop_pid pids i) = mset (remove1 (pids ! i) pids)" using m by simp
  then show ?thesis
    using d by (metis distinct_remove1 mset_eq_imp_distinct_iff mset_eq_setD set_remove1_eq)
qed

lemma reap_effect:
  assumes "distinct pids"
  shows "set (fst (restore_reap_children reaped pids w)) = set pids - set (map fst reaped)"
    and "distinct (fst (restore_reap_children reaped pids w))"
    and "distinct (map fst reaped) \<Longrightarrow>
      map l_event (w_log (snd (restore_reap_children reaped pids w))) = map l_event (w_log w) @
        map (\<lambda>(pid, st). if st = Some 0 then ''AUTO_RESTORE_COMPLETED'' else ''AUTO_RESTORE_FAILED'')
          (filter (\<lambda>(pid, st). pid \<in> set pids) reaped)"
  using assms
proof (induction reaped arbitrary: pids w)
  case (Cons r reaped)
  obtain pid status where r: "r = (pid, status)" by (cases r)
  define ev where "ev = (if status = Some 0 then ''AUTO_RESTORE_COMPLETED'' else ''AUTO_RESTORE_FAILED'')"
  have ours: "map l_event (w_log (reap_log pid status w)) = map l_event (w_log w) @ [ev] \<and>
      restore_reap_children (r # reaped) pids w =
        restore_reap_children reaped (drop_pid pids i) (reap_log pid status w)"
    if "first_index (\<lambda>q. q = pid) pids = Some i" for i pids w
    using that by (simp add: r ev_def)
  have foreign: "restore_reap_children (r # reaped) pids w = restore_reap_children reaped pids w"
    if "pid \<notin> set pids" for pids w
    using that first_index_None [of "\<lambda>q. q = pid" pids] by (auto simp: r)
  have known: "\<exists>i. first_index (\<lambda>q. q = pid) pids = Some i \<and> i < length pids \<and> pids ! i = pid"
    if "pid \<in> set pids" for pids
    using that first_index_None [of "\<lambda>q. q = pid" pids] by (cases "first_index (\<lambda>q. q = pid) pids")
      (auto simp: first_index_Some)
  {
    case 1
    show ?case
    proof (cases "pid \<in> set pids")
      case True
      with known obtain i where i: "first_index (\<lambda>q. q = pid) pids = Some i" "i < length pids" "pids ! i = pid"
        by blast
      with ours [OF i(1), of w] drop_pid_distinct [OF 1 i(2)] Cons.IH(1) [of "drop_pid pids i"] show ?thesis
        by (auto simp: r)
    qed (use foreign Cons.IH(1) [OF 1] r in auto)
  next
    case 2
    show ?case
    proof (cases "pid \<in> set pids")
      case True
      with known obtain i where i: "first_index (\<lambda>q. q = pid) pids = Some i" "i < length pids" "pids ! i = pid"
        by blast
      with ours [OF i(1), of w] drop_pid_distinct [OF 2 i(2)] Cons.IH(2) [of "drop_pid pids i"] show ?thesis
        by auto
    qed (use foreign Cons.IH(2) [OF 2] in auto)
  next
    case 3
    have dr: "distinct (map fst reaped)" "pid \<notin> fst ` set reaped" using 3(1) r by auto
    show ?case
    proof (cases "pid \<in> set pids")
      case True
      with known obtain i where i: "first_index (\<lambda>q. q = pid) pids = Some i" "i < length pids" "pids ! i = pid"
        by blast
      note w' = conjunct1 [OF ours [OF i(1), of w]] conjunct2 [OF ours [OF i(1), of w]]
      have dd: "distinct (drop_pid pids i)" "set (drop_pid pids i) = set pids - {pid}"
        using drop_pid_distinct [OF 3(2) i(2)] i(3) by auto
      have "filter (\<lambda>(q, st). q \<in> set (drop_pid pids i)) reaped = filter (\<lambda>(q, st). q \<in> set pids) reaped"
        using dd(2) dr(2) by (intro filter_cong) force+
      with Cons.IH(3) [OF dr(1) dd(1), of "reap_log pid status w"] w' True show ?thesis by (simp add: r ev_def)
    next
      case False
      with foreign Cons.IH(3) [OF dr(1) 3(2), of w] show ?thesis by (simp add: r)
    qed
  }
qed simp_all

text \<open>
  Every automatic restore that was started and is being watched is reported once, as
  completed exactly when its program exited with zero, and then no longer watched; children of
  other parts of the daemon are never reported. At most sixteen are watched: a restore started
  beyond that runs unreported.
\<close>

theorem restore_accounting:
  assumes "distinct pids" and "distinct (map fst reaped)"
  shows "(let (pids', w') = restore_reap_children reaped pids w in
      distinct pids' \<and> set pids' = set pids - fst ` set reaped \<and>
      map l_event (w_log w') = map l_event (w_log w) @
        map (\<lambda>(pid, st). if st = Some 0 then ''AUTO_RESTORE_COMPLETED'' else ''AUTO_RESTORE_FAILED'')
          (filter (\<lambda>(pid, st). pid \<in> set pids) reaped)) \<and>
    (let (rc, pids', w') = restore_trigger_auto p event_id (Some pid) pids w in
      rc = 0 \<and> ar_enabled (p_auto_restore p) \<longrightarrow>
        (pid \<in> set pids' \<longleftrightarrow> pid \<in> set pids \<or> length pids < RESTORE_PIDS_MAX) \<and>
        last (w_spawned w') = [''gfrguard-recover'', ''restore'', ''--event'', event_id, ''--auto''])"
  using reap_effect [OF assms(1), of reaped w] assms(2)
  by (simp add: case_prod_beta restore_trigger_auto_def Let_def)

theorem restore_accounting_witness:
  "set (fst (restore_reap_children [(7, Some 0), (9, None)] [5, 7, 8] quiet_world)) = {5, 8}"
  using restore_accounting [of "[5, 7, 8]" "[(7, Some 0), (9, None)]" quiet_world] by (auto simp: case_prod_beta)

end
