(* ===== verification/Yara.thy ===== *)
theory Yara
  imports World Rguard_Config
begin

text \<open>
  \<open>src/daemon/gfrguardd_yara.h\<close> and \<open>.c\<close>: loading the rule files of a directory tree into the
  engine, scanning a file, and reloading. libyara itself is a parameter: whether a file
  compiles, and which rules match a file. The directory tree may contain cycles through
  symbolic links; the depth limit ends the recursion.
\<close>

definition YARA_RULES_DIR :: string where "YARA_RULES_DIR = ''/etc/gf2000/yara-rules''"
definition YARA_MAX_DEPTH :: nat where "YARA_MAX_DEPTH = 8"
definition YARA_MAX_FILES :: nat where "YARA_MAX_FILES = 512"

datatype yara_message = Rule_matching "string option" | Other_message
datatype yara_rc = Scan_success | Scan_timeout | Scan_failed

text \<open>
  The file system and libyara as the engine sees them: \<open>None\<close> for a directory that does not
  open, a path that has no status, a compiler or file that does not open.
\<close>

record yara_env =
  y_readdir :: "string \<Rightarrow> string list option"
  y_stat :: "string \<Rightarrow> (file_kind \<times> nat \<times> nat) option"
  y_test :: "string \<Rightarrow> int option"
  y_add :: "string \<Rightarrow> int option"
  y_initialize :: bool
  y_compiler :: bool
  y_get_rules :: bool
  y_open :: "string \<Rightarrow> bool"
  y_scan :: "string list \<Rightarrow> string \<Rightarrow> yara_rc \<times> yara_message list"

text \<open>The state of a load: the files seen, the files added to the compiler, the log.\<close>

record yara_load =
  yl_seen :: "(nat \<times> nat) list"
  yl_added :: "string list"
  yl_log :: "log_call list"

definition ends_with :: "string \<Rightarrow> string \<Rightarrow> bool" where
  "ends_with name suf \<longleftrightarrow> length suf < length name \<and> drop (length name - length suf) name = suf"

definition rule_name :: "string \<Rightarrow> bool" where
  "rule_name name \<longleftrightarrow> ends_with name ''.yar'' \<or> ends_with name ''.yara''"

definition rule_detail :: "string \<Rightarrow> int \<Rightarrow> string \<Rightarrow> string" where
  "rule_detail full errors action =
     snprintf_s 512 (''{\"file\":\"'' @ take 450 full @ ''\",\"errors\":'' @ show_int errors @
       '',\"action\":\"'' @ action @ ''\"}'')"

text \<open>One regular rule file: \<open>None\<close> aborts the load.\<close>

definition load_file :: "yara_env \<Rightarrow> string \<Rightarrow> nat \<times> nat \<Rightarrow> yara_load \<Rightarrow> nat option \<times> yara_load" where
  "load_file ye full ident st =
     (if list_ex (\<lambda>s. s = ident) (yl_seen st) then (Some 0, st)
      else
        let st1 = (if length (yl_seen st) < YARA_MAX_FILES
                   then st\<lparr>yl_seen := yl_seen st @ [ident]\<rparr> else st)
        in case y_test ye full of
             None \<Rightarrow> (Some 0, st1)
           | Some errors \<Rightarrow>
               if errors > 0 then
                 (Some 0, st1\<lparr>yl_log := yl_log st1 @
                    [log_call LOG_WARN ''YARA_SKIP_FILE'' None (rule_detail full errors ''skipped'')]\<rparr>)
               else case y_add ye full of
                 None \<Rightarrow> (Some 0, st1)
               | Some errors2 \<Rightarrow>
                   if errors2 > 0 then
                     (None, st1\<lparr>yl_log := yl_log st1 @
                        [log_call LOG_ERROR ''YARA_LOAD_ABORTED'' None (rule_detail full errors2 ''load_aborted'')]\<rparr>)
                   else (Some 1, st1\<lparr>yl_added := yl_added st1 @ [full]\<rparr>))"

text \<open>The loop over the names of one directory.\<close>

function load_names ::
  "yara_env \<Rightarrow> string \<Rightarrow> nat \<Rightarrow> string list \<Rightarrow> nat \<Rightarrow> yara_load \<Rightarrow> nat option \<times> yara_load" where
  "load_names ye path depth [] loaded st = (Some loaded, st)"
| "load_names ye path depth (name # names) loaded st =
     (if take 1 name = ''.'' then load_names ye path depth names loaded st
      else
        let full = snprintf_s RGUARD_PATH_MAX (path @ ''/'' @ name) in
        case y_stat ye full of
          None \<Rightarrow> load_names ye path depth names loaded st
        | Some (kind, ident) \<Rightarrow>
            if kind = Directory then
              (let (r, st') =
                 (if depth + 1 > YARA_MAX_DEPTH then (Some 0, st)
                  else case y_readdir ye full of
                    None \<Rightarrow> (Some 0, st)
                  | Some ms \<Rightarrow> load_names ye full (depth + 1) ms 0 st)
               in case r of
                    None \<Rightarrow> (None, st')
                  | Some k \<Rightarrow> load_names ye path depth names (loaded + k) st')
            else if \<not> rule_name name then load_names ye path depth names loaded st
            else if kind \<noteq> Regular_file then load_names ye path depth names loaded st
            else (case load_file ye full ident st of
                    (None, st') \<Rightarrow> (None, st')
                  | (Some k, st') \<Rightarrow> load_names ye path depth names (loaded + k) st'))"
  by pat_completeness auto
termination
  by (relation "(\<lambda>(ye, path, depth, names, loaded, st). YARA_MAX_DEPTH - depth) <*mlex*>
      measure (\<lambda>(ye, path, depth, names, loaded, st). length names)")
    (auto simp: wf_mlex mlex_less mlex_leq intro!: mlex_less)

definition load_rules_recursive ::
  "yara_env \<Rightarrow> string \<Rightarrow> nat \<Rightarrow> yara_load \<Rightarrow> nat option \<times> yara_load" where
  "load_rules_recursive ye path depth st =
     (if depth > YARA_MAX_DEPTH then (Some 0, st)
      else case y_readdir ye path of
        None \<Rightarrow> (Some 0, st)
      | Some names \<Rightarrow> load_names ye path depth names 0 st)"

subsection \<open>The engine\<close>

text \<open>\<open>g_rules\<close>, as the rule files compiled into it, and \<open>g_active\<close>.\<close>

record yara_engine =
  g_rules :: "string list option"
  g_active :: bool

definition yara_engine0 :: yara_engine where
  "yara_engine0 = \<lparr>g_rules = None, g_active = False\<rparr>"

definition yara_engine_init_clean ::
  "yara_env \<Rightarrow> string \<Rightarrow> yara_engine \<Rightarrow> int \<times> yara_engine \<times> log_call list" where
  "yara_engine_init_clean ye rules_dir e =
     (if \<not> y_initialize ye then (-1, e, [])
      else if \<not> y_compiler ye then (-1, e, [])
      else
        let (r, st) = load_rules_recursive ye rules_dir 0 \<lparr>yl_seen = [], yl_added = [], yl_log = []\<rparr>
        in case r of
             None \<Rightarrow> (-1, e, yl_log st @ [log_call LOG_ERROR ''YARA_INIT_FAILED'' None
                 ''{\"reason\":\"compiler poisoned by late add failure\"}''])
           | Some n \<Rightarrow>
               if n = 0 then (0, e, yl_log st @ [log_call LOG_WARN ''YARA_NO_RULES'' None
                 ''{\"reason\":\"all files have errors\"}''])
               else if \<not> y_get_rules ye then (-1, e, yl_log st)
               else (0, \<lparr>g_rules = Some (yl_added st), g_active = True\<rparr>,
                     yl_log st @ [log_call LOG_INFO ''YARA_ENGINE_READY'' None
                       (snprintf_s 128 (''{\"rules_loaded\":'' @ show_nat n @ '',\"mode\":\"clean\"}''))]))"

definition yara_engine_init ::
  "yara_env \<Rightarrow> string option \<Rightarrow> yara_engine \<Rightarrow> int \<times> yara_engine \<times> log_call list" where
  "yara_engine_init ye rules_dir e =
     (let dir = (case rules_dir of None \<Rightarrow> YARA_RULES_DIR | Some d \<Rightarrow> d);
          (rc, e', ls) = yara_engine_init_clean ye dir e
      in (rc, e', log_call LOG_DEBUG ''YARA_INIT_START'' None
                    (snprintf_s 256 (''{\"rules_dir\":\"'' @ take 200 dir @ ''\"}'')) # ls))"

text \<open>\<open>struct scan_ctx\<close>; the callback says whether to abort the scan.\<close>

record scan_ctx =
  sx_matched :: bool
  sx_rule_name :: string

definition yara_callback :: "yara_message \<Rightarrow> scan_ctx \<Rightarrow> bool \<times> scan_ctx" where
  "yara_callback msg ctx =
     (case msg of
        Rule_matching ident \<Rightarrow>
          (True, ctx\<lparr>sx_matched := True,
             sx_rule_name := (case ident of None \<Rightarrow> sx_rule_name ctx | Some s \<Rightarrow> snprintf_s 256 s)\<rparr>)
      | Other_message \<Rightarrow> (False, ctx))"

fun run_callbacks :: "yara_message list \<Rightarrow> scan_ctx \<Rightarrow> scan_ctx" where
  "run_callbacks [] ctx = ctx"
| "run_callbacks (m # ms) ctx =
     (let (abort, ctx') = yara_callback m ctx in if abort then ctx' else run_callbacks ms ctx')"

text \<open>The result and, when a rule matched, what is copied to \<open>matched_rule\<close>.\<close>

definition yara_scan_file ::
  "yara_env \<Rightarrow> yara_engine \<Rightarrow> string option \<Rightarrow> nat \<Rightarrow> int \<times> string option" where
  "yara_scan_file ye e path len =
     (if \<not> g_active e \<or> g_rules e = None then (0, None)
      else case path of
        None \<Rightarrow> (-1, None)
      | Some p \<Rightarrow>
          if \<not> y_open ye p then (-1, None)
          else
            let (rc, msgs) = y_scan ye (the (g_rules e)) p;
                ctx = run_callbacks msgs \<lparr>sx_matched = False, sx_rule_name = []\<rparr>
            in if rc \<noteq> Scan_success \<and> rc \<noteq> Scan_timeout then (-1, None)
               else (if sx_matched ctx then 1 else 0,
                     if sx_matched ctx \<and> len > 0 then Some (snprintf_s len (sx_rule_name ctx)) else None))"

definition yara_engine_active :: "yara_engine \<Rightarrow> bool" where
  "yara_engine_active e = g_active e"

definition yara_engine_destroy :: "yara_engine \<Rightarrow> yara_engine" where
  "yara_engine_destroy e = e\<lparr>g_rules := None, g_active := False\<rparr>"

definition yara_engine_reload ::
  "yara_env \<Rightarrow> string option \<Rightarrow> yara_engine \<Rightarrow> int \<times> yara_engine \<times> log_call list" where
  "yara_engine_reload ye rules_dir e =
     (let (rc, e', ls) = yara_engine_init ye rules_dir (e\<lparr>g_rules := None, g_active := False\<rparr>)
      in (rc, e', [log_call LOG_INFO ''YARA_RELOAD_START'' None ''{}''] @ ls @
           [if rc = 0 \<and> g_active e' then log_call LOG_INFO ''YARA_RELOAD_OK'' None ''{}''
            else if rc = 0 then log_call LOG_WARN ''YARA_RELOAD_NORULES'' None
                   ''{\"msg\":\"reload OK but no rules loaded\"}''
            else log_call LOG_ERROR ''YARA_RELOAD_FAILED'' None ''{}'']))"

subsection \<open>What a load adds\<close>

definition ident_of :: "yara_env \<Rightarrow> string \<Rightarrow> nat \<times> nat" where
  "ident_of ye f = (case y_stat ye f of Some (k, i) \<Rightarrow> i | None \<Rightarrow> (0, 0))"

definition clean_rule :: "yara_env \<Rightarrow> string \<Rightarrow> bool" where
  "clean_rule ye f \<longleftrightarrow> (\<exists>i. y_stat ye f = Some (Regular_file, i)) \<and>
     (\<exists>e \<le> 0. y_test ye f = Some e) \<and> (\<exists>e \<le> 0. y_add ye f = Some e)"

definition load_inv :: "yara_env \<Rightarrow> yara_load \<Rightarrow> bool" where
  "load_inv ye st \<longleftrightarrow>
     (\<forall>f \<in> set (yl_added st). clean_rule ye f) \<and> length (yl_seen st) \<le> YARA_MAX_FILES \<and>
     (length (yl_seen st) < YARA_MAX_FILES \<longrightarrow>
        distinct (map (ident_of ye) (yl_added st)) \<and> ident_of ye ` set (yl_added st) \<subseteq> set (yl_seen st))"

definition load_ok :: "yara_env \<Rightarrow> nat \<Rightarrow> yara_load \<Rightarrow> nat option \<times> yara_load \<Rightarrow> bool" where
  "load_ok ye loaded st res \<longleftrightarrow> load_inv ye (snd res) \<and>
     (\<forall>n. fst res = Some n \<longrightarrow> n + length (yl_added st) = loaded + length (yl_added (snd res)))"

lemma load_file_ok:
  assumes "load_inv ye st" and "y_stat ye full = Some (Regular_file, ident)"
  shows "load_ok ye 0 st (load_file ye full ident st)"
proof -
  have id: "ident_of ye full = ident" using assms(2) by (simp add: ident_of_def)
  show ?thesis
    using assms id
    by (auto simp: load_ok_def load_file_def load_inv_def list_ex_iff clean_rule_def Let_def
        split: option.splits)
qed

lemma load_ok_trans:
  "load_ok ye 0 st (Some k, st') \<Longrightarrow> load_ok ye (loaded + k) st' res \<Longrightarrow> load_ok ye loaded st res"
  by (auto simp: load_ok_def)

lemma load_ok_refl: "load_inv ye st \<Longrightarrow> load_ok ye loaded st (Some loaded, st)"
  by (simp add: load_ok_def)

lemma load_ok_None: "load_ok ye 0 st (None, st') \<Longrightarrow> load_ok ye loaded st (None, st')"
  by (simp add: load_ok_def)

lemma load_ok_inv: "load_ok ye loaded st (r, st') \<Longrightarrow> load_inv ye st'"
  by (simp add: load_ok_def)

lemma load_names_ok: "load_inv ye st \<Longrightarrow> load_ok ye loaded st (load_names ye path depth names loaded st)"
proof (induction ye path depth names loaded st rule: load_names.induct)
  case (1 ye path depth loaded st)
  then show ?case by (simp add: load_ok_refl)
next
  case (2 ye path depth name names loaded st)
  let ?full = "snprintf_s RGUARD_PATH_MAX (path @ ''/'' @ name)"
  show ?case
  proof (cases "take 1 name = ''.'' \<or> y_stat ye ?full = None")
    case True
    with "2.IH"(1,2) "2.prems" show ?thesis by (auto simp: Let_def)
  next
    case False
    then obtain kind ident where st: "y_stat ye ?full = Some (kind, ident)" and dot: "take 1 name \<noteq> ''.''"
      by auto
    show ?thesis
    proof (cases "kind = Directory")
      case True
      let ?sub = "if depth + 1 > YARA_MAX_DEPTH then (Some 0, st)
         else case y_readdir ye ?full of None \<Rightarrow> (Some 0, st)
            | Some ms \<Rightarrow> load_names ye ?full (depth + 1) ms 0 st"
      have sub: "load_ok ye 0 st ?sub"
        using "2.IH"(3) [OF dot refl st refl True] "2.prems" load_ok_refl
        by (simp split: option.splits)
      obtain r st' where r: "?sub = (r, st')" by (cases ?sub)
      have eq: "load_names ye path depth (name # names) loaded st =
          (case r of None \<Rightarrow> (None, st') | Some k \<Rightarrow> load_names ye path depth names (loaded + k) st')"
        using dot st True r by (simp only: load_names.simps Let_def if_False option.case prod.case if_True simp_thms)
      show ?thesis
      proof (cases r)
        case None
        with eq sub r load_ok_None show ?thesis by simp
      next
        case (Some k)
        have "load_ok ye (loaded + k) st' (load_names ye path depth names (loaded + k) st')"
          by (rule "2.IH"(4) [OF dot refl st refl True r [symmetric] refl Some])
            (use sub r load_ok_inv in force)
        with eq sub r Some load_ok_trans show ?thesis by simp
      qed
    next
      case notdir: False
      show ?thesis
      proof (cases "rule_name name \<and> kind = Regular_file")
        case True
        with st have st': "y_stat ye ?full = Some (Regular_file, ident)" by simp
        note f = load_file_ok [OF "2.prems" st']
        obtain r st'' where r: "load_file ye ?full ident st = (r, st'')" by (cases "load_file ye ?full ident st")
        show ?thesis
        proof (cases r)
          case None
          with dot st' True r f load_ok_None show ?thesis by (simp add: Let_def)
        next
          case (Some k)
          have "load_ok ye (loaded + k) st'' (load_names ye path depth names (loaded + k) st'')"
            using "2.IH"(7) [OF dot refl st refl notdir] True r Some f load_ok_inv by fastforce
          with dot st' True r Some f load_ok_trans show ?thesis by (simp add: Let_def)
        qed
      next
        case False
        with "2.IH"(5,6) [OF dot refl st refl notdir] "2.prems" dot st notdir show ?thesis
          by (auto simp: Let_def)
      qed
    qed
  qed
qed

lemma load_recursive_ok:
  assumes "load_inv ye st"
  shows "load_ok ye 0 st (load_rules_recursive ye path depth st)"
  using assms load_names_ok load_ok_refl
  by (simp add: load_rules_recursive_def split: option.splits)

text \<open>
  C40: A load returns on any directory tree, cyclic links included, and the engine it activates
  holds only regular rule files that compiled without errors, as many as it reports, none of
  them twice as long as at most 511 distinct files were met. The engine is active exactly when
  it has rules; a failed load or reload leaves it without.
\<close>

theorem yara_load_sound:
  "let (rc, e, ls) = yara_engine_reload ye rules_dir e0 in
     (g_active e \<longleftrightarrow> g_rules e \<noteq> None) \<and> (rc \<noteq> 0 \<longrightarrow> rc = -1 \<and> \<not> g_active e) \<and>
     (\<forall>fs. g_rules e = Some fs \<longrightarrow> fs \<noteq> [] \<and> (\<forall>f \<in> set fs. clean_rule ye f) \<and>
        (let (r, st) = load_rules_recursive ye (case rules_dir of None \<Rightarrow> YARA_RULES_DIR | Some d \<Rightarrow> d) 0
             \<lparr>yl_seen = [], yl_added = [], yl_log = []\<rparr>
         in r = Some (length fs) \<and> fs = yl_added st \<and>
            (length (yl_seen st) < YARA_MAX_FILES \<longrightarrow> distinct (map (ident_of ye) fs))))"
proof -
  let ?st0 = "\<lparr>yl_seen = [], yl_added = [], yl_log = []\<rparr>"
  let ?dir = "case rules_dir of None \<Rightarrow> YARA_RULES_DIR | Some d \<Rightarrow> d"
  obtain r st where l: "load_rules_recursive ye ?dir 0 ?st0 = (r, st)"
    by (cases "load_rules_recursive ye ?dir 0 ?st0")
  have "load_inv ye ?st0" by (simp add: load_inv_def)
  from load_recursive_ok [OF this, of ?dir 0] l have ok: "load_inv ye st"
    "\<forall>n. r = Some n \<longrightarrow> n = length (yl_added st)" by (simp_all add: load_ok_def)
  then have inv: "\<forall>f \<in> set (yl_added st). clean_rule ye f"
    "length (yl_seen st) < YARA_MAX_FILES \<longrightarrow> distinct (map (ident_of ye) (yl_added st))"
    by (simp_all add: load_inv_def)
  show ?thesis
    using ok(2) inv
    by (auto simp: yara_engine_reload_def yara_engine_init_def yara_engine_init_clean_def l Let_def
        split: option.splits)
qed

definition sample_yara_env :: yara_env where
  "sample_yara_env = \<lparr>y_readdir = (\<lambda>p. Some [''a.yar'', ''loop'']),
     y_stat = (\<lambda>p. if strrchr p CHR ''/'' = Some ''/a.yar'' then Some (Regular_file, 1, 7)
       else Some (Directory, 1, 8)),
     y_test = (\<lambda>_. Some 0), y_add = (\<lambda>_. Some 0), y_initialize = True, y_compiler = True,
     y_get_rules = True, y_open = (\<lambda>_. True), y_scan = (\<lambda>_ _. (Scan_success, []))\<rparr>"

theorem yara_load_sound_witness:
  "let (rc, e, ls) = yara_engine_reload sample_yara_env (Some ''/r'') yara_engine0
   in g_active e \<longleftrightarrow> g_rules e \<noteq> None"
  using yara_load_sound [of sample_yara_env "Some ''/r''" yara_engine0]
  by (simp add: Let_def case_prod_beta)

lemma run_callbacks_matched:
  "sx_matched (run_callbacks ms ctx) \<longleftrightarrow> sx_matched ctx \<or> (\<exists>r. Rule_matching r \<in> set ms)"
  by (induction ms arbitrary: ctx) (auto simp: yara_callback_def split: yara_message.splits)

lemma run_callbacks_first:
  assumes "\<exists>r. Rule_matching r \<in> set ms"
  shows "\<exists>pre r post. ms = pre @ Rule_matching r # post \<and> set pre \<subseteq> {Other_message} \<and>
    sx_rule_name (run_callbacks ms ctx) = (case r of None \<Rightarrow> sx_rule_name ctx | Some s \<Rightarrow> snprintf_s 256 s)"
  using assms
proof (induction ms)
  case (Cons m ms)
  show ?case
  proof (cases m)
    case (Rule_matching r)
    then show ?thesis
      by (intro exI [of _ "[]"] exI [of _ r] exI [of _ ms]) (simp add: yara_callback_def split: option.splits)
  next
    case Other_message
    with Cons obtain pre r post where "ms = pre @ Rule_matching r # post" "set pre \<subseteq> {Other_message}"
      "sx_rule_name (run_callbacks ms ctx) = (case r of None \<Rightarrow> sx_rule_name ctx | Some s \<Rightarrow> snprintf_s 256 s)"
      by auto
    with Other_message show ?thesis
      by (intro exI [of _ "m # pre"] exI [of _ r] exI [of _ post]) (simp add: yara_callback_def)
  qed
qed simp

text \<open>
  A scan reports a match exactly when the engine is active, the path is a regular file and
  libyara names a matching rule before it fails; the name it hands out is the first matching
  rule's, cut to the caller's buffer. An inactive engine reports no match, not an error.
\<close>

theorem yara_scan_sound:
  "(fst (yara_scan_file ye e (Some p) len) = 1 \<longleftrightarrow>
      g_active e \<and> g_rules e \<noteq> None \<and> y_open ye p \<and> fst (y_scan ye (the (g_rules e)) p) \<noteq> Scan_failed \<and>
      (\<exists>r. Rule_matching r \<in> set (snd (y_scan ye (the (g_rules e)) p)))) \<and>
   (\<forall>name. snd (yara_scan_file ye e (Some p) len) = Some name \<longrightarrow>
      fst (yara_scan_file ye e (Some p) len) = 1 \<and> length name < len \<and>
      (\<exists>pre r post. snd (y_scan ye (the (g_rules e)) p) = pre @ Rule_matching r # post \<and>
         set pre \<subseteq> {Other_message} \<and>
         name = snprintf_s len (case r of None \<Rightarrow> [] | Some s \<Rightarrow> snprintf_s 256 s))) \<and>
   (\<not> g_active e \<longrightarrow> yara_scan_file ye e (Some p) len = (0, None))"
proof -
  let ?ms = "snd (y_scan ye (the (g_rules e)) p)"
  let ?ctx = "run_callbacks ?ms \<lparr>sx_matched = False, sx_rule_name = []\<rparr>"
  have eq: "yara_scan_file ye e (Some p) len =
      (if \<not> g_active e \<or> g_rules e = None then (0, None)
       else if \<not> y_open ye p \<or> fst (y_scan ye (the (g_rules e)) p) = Scan_failed then (-1, None)
       else (if sx_matched ?ctx then 1 else 0,
             if sx_matched ?ctx \<and> len > 0 then Some (snprintf_s len (sx_rule_name ?ctx)) else None))"
    by (cases "fst (y_scan ye (the (g_rules e)) p)")
      (simp_all add: yara_scan_file_def case_prod_beta Let_def)
  have m: "sx_matched ?ctx \<longleftrightarrow> (\<exists>r. Rule_matching r \<in> set ?ms)"
    by (simp add: run_callbacks_matched)
  have n: "\<exists>pre r post. ?ms = pre @ Rule_matching r # post \<and> set pre \<subseteq> {Other_message} \<and>
      sx_rule_name ?ctx = (case r of None \<Rightarrow> [] | Some s \<Rightarrow> snprintf_s 256 s)" if "sx_matched ?ctx"
    using run_callbacks_first [of ?ms "\<lparr>sx_matched = False, sx_rule_name = []\<rparr>", unfolded scan_ctx.simps]
      that m by simp
  show ?thesis
  proof (intro conjI allI impI)
    fix name assume some: "snd (yara_scan_file ye e (Some p) len) = Some name"
    then have c: "sx_matched ?ctx" "0 < len" "name = snprintf_s len (sx_rule_name ?ctx)"
      by (simp_all add: eq split: if_splits)
    show "fst (yara_scan_file ye e (Some p) len) = 1" using some by (simp add: eq split: if_splits)
    show "length name < len" using c(2,3) by (simp add: length_snprintf_s)
    show "\<exists>pre r post. ?ms = pre @ Rule_matching r # post \<and> set pre \<subseteq> {Other_message} \<and>
         name = snprintf_s len (case r of None \<Rightarrow> [] | Some s \<Rightarrow> snprintf_s 256 s)"
      using n [OF c(1)] c(3) by metis
  qed (auto simp: eq m)
qed

theorem yara_scan_sound_witness:
  "yara_scan_file sample_yara_env yara_engine0 (Some ''/etc/passwd'') 10 = (0, None)"
  using yara_scan_sound [of sample_yara_env yara_engine0 "''/etc/passwd''" 10] by (simp add: yara_engine0_def)

end
