(* ===== verification/Daemon_Main.thy ===== *)
theory Daemon_Main
  imports Scorer Blocker Entropy Upkeep Yara
begin

text \<open>
  \<open>src/daemon/gfrguardd_main.c\<close>: the handling of one event message, from the gates to the
  block, and what surrounds it: receiving datagrams, reloading the policy, the event ids. The
  state is what \<open>main\<close> keeps in its variables and the modules in theirs; the answers of the
  system are the streams of the world and the fields of \<open>daemon_env\<close>. A handler that returns
  early is a value \<open>Inl\<close>, one that goes on is \<open>Inr\<close>.
\<close>

subsection \<open>State and answers\<close>

record daemon =
  dm_table :: session_table
  dm_policy :: rguard_policy
  dm_seq :: int
  dm_anchor :: int
  dm_world :: world
  dm_pids :: "int list"
  dm_engine :: yara_engine

text \<open>
  \<open>de_config_path\<close> is \<open>g_config_path\<close>; \<open>de_regular\<close> whether a path opens as a regular file,
  \<open>de_readable\<close> whether the policy reader can open it; \<open>de_fork\<close> and \<open>de_persist\<close> the answers the restore and the policy writer meet;
  \<open>de_parse\<close> and \<open>de_print\<close> are cJSON's.
\<close>

record daemon_env =
  de_config_path :: "string option"
  de_readable :: "string \<Rightarrow> bool"
  de_stat :: "string \<Rightarrow> file_kind option"
  de_writable :: "string \<Rightarrow> bool"
  de_parse :: "string \<Rightarrow> cjson option"
  de_print :: "cjson \<Rightarrow> string option"
  de_persist :: persist_os
  de_fork :: "int option"
  de_yara :: yara_env
  de_regular :: "string \<Rightarrow> bool"
  de_reads :: "io_step list"

definition config_os_of :: "daemon_env \<Rightarrow> world \<Rightarrow> config_os" where
  "config_os_of env w =
     \<lparr>os_read = (\<lambda>p. if de_readable env p then w_files w p else None),
      os_stat = de_stat env, os_writable = de_writable env\<rparr>"

definition BLOCKED_PATH :: string where "BLOCKED_PATH = ''/run/gfrguardd/blocked''"
definition EVENT_ID_LEN :: nat where "EVENT_ID_LEN = 32"

definition on_world :: "(world \<Rightarrow> world) \<Rightarrow> daemon \<Rightarrow> daemon" where
  "on_world f d = d\<lparr>dm_world := f (dm_world d)\<rparr>"

definition log_d :: "int \<Rightarrow> string \<Rightarrow> string option \<Rightarrow> string \<Rightarrow> daemon \<Rightarrow> daemon" where
  "log_d lv ev sk det = on_world (write_log lv ev sk det)"

definition parse_log_level :: "string option \<Rightarrow> int" where
  "parse_log_level s =
     (case s of
        None \<Rightarrow> LOG_INFO
      | Some l \<Rightarrow>
          if l = ''debug'' then LOG_DEBUG else if l = ''info'' then LOG_INFO
          else if l = ''warn'' then LOG_WARN else if l = ''error'' then LOG_ERROR else LOG_INFO)"

definition level_str :: "int \<Rightarrow> string" where
  "level_str l =
     (if l = RISK_CRITICAL then ''CRITICAL'' else if l = RISK_HIGH then ''HIGH''
      else if l = RISK_SUSPICIOUS then ''SUSPICIOUS'' else ''NORMAL'')"

text \<open>The clock is read once; a failed query leaves the seed at zero.\<close>

definition make_event_id :: "nat \<Rightarrow> daemon \<Rightarrow> string \<times> daemon" where
  "make_event_id n d =
     (let w = dm_world d;
          t = now w; tm = w_local w t; date = yyyymmdd tm;
          d1 = on_world tick_clock d;
          anchor = w_local w (dm_anchor d);
          d2 = (if tm_year anchor \<noteq> tm_year tm \<or> tm_yday anchor \<noteq> tm_yday tm then
                  (let ((rc, seq), db') = db_get_max_daily_seq (w_db (dm_world d1)) date
                   in on_world (\<lambda>w. w\<lparr>w_db := db'\<rparr>)
                        (d1\<lparr>dm_seq := (case seq of Some v \<Rightarrow> v | None \<Rightarrow> 0), dm_anchor := t\<rparr>))
                else d1);
          d3 = d2\<lparr>dm_seq := dm_seq d2 + 1\<rparr>
      in (snprintf_s n (''evt-'' @ date @ ''-'' @ show_pad 3 (dm_seq d3)), d3))"

text \<open>The lookup reads the clock; its log lines go to the daemon's log.\<close>

definition find_session :: "string \<Rightarrow> daemon \<Rightarrow> nat option \<times> daemon" where
  "find_session skey d =
     (let t = now (dm_world d);
          (idx, table, logs) = session_find_or_create (dm_table d) skey t
      in (idx, d\<lparr>dm_table := table,
                 dm_world := (tick_clock (dm_world d))\<lparr>w_log := w_log (dm_world d) @ logs\<rparr>\<rparr>))"

text \<open>A handler runs on the bucket the lookup returns, if it returns one.\<close>

definition with_session :: "string \<Rightarrow> (nat \<Rightarrow> daemon \<Rightarrow> daemon) \<Rightarrow> daemon \<Rightarrow> daemon" where
  "with_session skey h d =
     (case find_session skey d of (None, d') \<Rightarrow> d' | (Some i, d') \<Rightarrow> h i d')"

definition the_session :: "nat \<Rightarrow> daemon \<Rightarrow> session_state" where
  "the_session i d = session_at (dm_table d) i"

definition set_session :: "nat \<Rightarrow> session_state \<Rightarrow> daemon \<Rightarrow> daemon" where
  "set_session i s d = d\<lparr>dm_table := session_put (dm_table d) i s\<rparr>"

text \<open>\<open>src_type\<close>: no source type is SMB.\<close>

definition src_type :: "event_msg \<Rightarrow> u8" where
  "src_type msg = (if m_source_type msg \<noteq> 0 then m_source_type msg else RGUARD_SOURCE_SMB)"

text \<open>The record of an event of this message, as the three places that build one fill it.\<close>

definition event_record ::
  "string \<Rightarrow> string \<Rightarrow> event_msg \<Rightarrow> string \<Rightarrow> string \<Rightarrow> string \<Rightarrow> string \<Rightarrow> ev_row" where
  "event_record event_id skey msg started action status pname =
     \<lparr>ev_id = 0, ev_event_id = snprintf_s 64 event_id, ev_session_key = snprintf_s 128 skey,
      ev_username = snprintf_s 64 (m_username msg), ev_client_ip = snprintf_s 48 (m_client_ip msg),
      ev_pname = snprintf_s 64 pname, ev_source_type = uint (src_type msg),
      ev_started_at = snprintf_s 40 started, ev_ended_at = [], ev_files_protected = 0,
      ev_files_affected = 0, ev_peak = 0, ev_action = snprintf_s 32 action,
      ev_status = snprintf_s 32 status\<rparr>"

definition upsert_d :: "ev_row \<Rightarrow> daemon \<Rightarrow> daemon" where
  "upsert_d ev = on_world (\<lambda>w. w\<lparr>w_db := snd (db_upsert_event (w_db w) ev)\<rparr>)"

definition stamp :: "daemon \<Rightarrow> string \<times> daemon" where
  "stamp d = (let (ts, w) = iso8601_now (dm_world d) in (ts, d\<lparr>dm_world := w\<rparr>))"

definition give_event_id :: "nat \<Rightarrow> daemon \<Rightarrow> daemon" where
  "give_event_id i d =
     (let (eid, d') = make_event_id EVENT_ID_LEN d
      in set_session i ((the_session i d')\<lparr>s_event_id := eid\<rparr>) d')"

subsection \<open>A refusal reported by the VFS module\<close>

definition vfs_event :: "event_msg \<Rightarrow> string \<Rightarrow> nat \<Rightarrow> daemon \<Rightarrow> daemon" where
  "vfs_event msg skey i d =
     (let d3 = (if s_event_id (the_session i d) = [] then give_event_id i d else d)
      in if s_event_id (the_session i d3) \<noteq> [] then
           (let (ts, d4) = stamp d3
            in upsert_d (event_record (s_event_id (the_session i d4)) skey msg ts ''blocked''
                           ''blocked_ip'' []) d4)
         else d3)"

definition vfs_blocked :: "event_msg \<Rightarrow> string \<Rightarrow> daemon \<Rightarrow> daemon" where
  "vfs_blocked msg skey d =
     with_session skey (vfs_event msg skey)
       (log_d LOG_WARN ''VFS_BLOCKED'' (Some skey)
          (snprintf_s 512 (''{\"reason\":\"blocked_ip\",\"share\":\"'' @ take 60 (m_share_name msg) @ ''\"}'')) d)"

subsection \<open>The gates\<close>

text \<open>The switch of a message's channel, and the reason the log gives.\<close>

definition channel_switch :: "rguard_policy \<Rightarrow> u8 \<Rightarrow> bool \<times> string" where
  "channel_switch p src =
     (let pr = p_protection p in
      if src = RGUARD_SOURCE_SMB then (pr_smb pr, ''smb_sub_switch'')
      else if src = RGUARD_SOURCE_CLOUD_SYNC then (pr_cloud_sync pr, ''cloud_sub_switch'')
      else if src = RGUARD_SOURCE_FTP then (pr_ftp pr, ''ftp_sub_switch'')
      else if src = RGUARD_SOURCE_HOST then (pr_host pr, ''host_sub_switch'')
      else (pr_smb pr, ''smb_sub_switch(legacy)''))"

definition protection_gate :: "event_msg \<Rightarrow> string \<Rightarrow> daemon \<Rightarrow> daemon + daemon" where
  "protection_gate msg skey d =
     (if \<not> pr_enabled (p_protection (dm_policy d))
      then Inl (log_d LOG_DEBUG ''PROTECTION_OFF'' (Some skey) ''{\"reason\":\"master_switch\"}'' d)
      else
        let (on, reason) = channel_switch (dm_policy d) (m_source_type msg)
        in if \<not> on
           then Inl (log_d LOG_DEBUG ''PROTECTION_OFF'' (Some skey) (''{\"reason\":\"'' @ reason @ ''\"}'') d)
           else Inr d)"

definition ext_matches :: "rguard_file_extensions \<Rightarrow> string \<Rightarrow> bool" where
  "ext_matches fe path =
     (case strrchr path CHR ''.'' of
        None \<Rightarrow> False
      | Some ext \<Rightarrow> list_ex (\<lambda>e. strcasecmp_eq ext e) (fe_manual fe))"

definition extension_gate :: "event_msg \<Rightarrow> string \<Rightarrow> daemon \<Rightarrow> daemon + daemon" where
  "extension_gate msg skey d =
     (let fe = p_file_ext (dm_policy d); path = m_file_path msg in
      if \<not> fe_all fe \<and> path \<noteq> [] \<and> \<not> ext_matches fe path
      then Inl (log_d LOG_DEBUG ''EXT_FILTER_SKIP'' (Some skey)
             (snprintf_s 512 (''{\"path\":\"'' @ take 200 path @ ''\",\"ext\":\"'' @
                (case strrchr path CHR ''.'' of None \<Rightarrow> ''(none)'' | Some ext \<Rightarrow> ext) @ ''\"}'')) d)
      else Inr d)"

text \<open>\<open>{"op":%u,"path":"%.<n>s"\<close>, the start of several details.\<close>

definition op_path_detail :: "event_msg \<Rightarrow> nat \<Rightarrow> string" where
  "op_path_detail msg n =
     ''{\"op\":'' @ show_nat (unat (m_op_type msg)) @ '',\"path\":\"'' @ take n (m_file_path msg) @ ''\"''"

definition exception_gate :: "event_msg \<Rightarrow> string \<Rightarrow> daemon \<Rightarrow> daemon + daemon" where
  "exception_gate msg skey d =
     (if scorer_is_excepted (dm_policy d) (m_file_path msg)
      then Inl (log_d LOG_DEBUG ''EXCEPTION_BYPASS'' (Some skey) (snprintf_s 512 (op_path_detail msg 400 @ ''}'')) d)
      else Inr d)"

definition whitelist_gate :: "event_msg \<Rightarrow> string \<Rightarrow> daemon \<Rightarrow> daemon + daemon" where
  "whitelist_gate msg skey d =
     (if scorer_is_whitelisted (dm_policy d) (Some (m_username msg)) (Some (m_client_ip msg))
      then Inl (log_d LOG_DEBUG ''WHITELIST_BYPASS'' (Some skey) (snprintf_s 256 (op_path_detail msg 200 @ ''}'')) d)
      else Inr d)"

text \<open>The address handed to the blocker: only SMB and FTP sessions have one.\<close>

definition block_address :: "event_msg \<Rightarrow> string option" where
  "block_address msg =
     (if m_source_type msg = RGUARD_SOURCE_SMB \<or> m_source_type msg = RGUARD_SOURCE_FTP
      then Some (m_client_ip msg) else None)"

definition run_blocker :: "event_msg \<Rightarrow> nat \<Rightarrow> string \<Rightarrow> daemon \<Rightarrow> int \<times> daemon" where
  "run_blocker msg i status d =
     (let (rc, w) = blocker_execute (dm_world d) BLOCKED_PATH (block_address msg)
                      (s_event_id (the_session i d)) (m_share_name msg) status
      in (rc, d\<lparr>dm_world := w\<rparr>))"

text \<open>The event of a blacklisted session that has none yet.\<close>

definition blacklist_event :: "event_msg \<Rightarrow> string \<Rightarrow> string \<Rightarrow> nat \<Rightarrow> daemon \<Rightarrow> daemon" where
  "blacklist_event msg skey status i d =
     (if s_event_id (the_session i d) = [] then
        (let (ts, d') = stamp (give_event_id i d)
         in upsert_d (event_record (s_event_id (the_session i d')) skey msg ts ''blocked'' status []) d')
      else d)"

text \<open>The mark is set first and taken back when the block has not landed.\<close>

definition try_block :: "event_msg \<Rightarrow> string \<Rightarrow> string \<Rightarrow> nat \<Rightarrow> daemon \<Rightarrow> daemon" where
  "try_block msg skey status i d =
     (let d4 = set_session i ((the_session i d)\<lparr>s_blocked := True\<rparr>) d;
          (rc, d5) = run_blocker msg i status d4
      in if rc \<noteq> 0 then
           log_d LOG_ERROR ''BLOCK_FAILED'' (Some skey) ''{}''
             (set_session i ((the_session i d5)\<lparr>s_blocked := False\<rparr>) d5)
         else d5)"

definition blacklist_session :: "event_msg \<Rightarrow> string \<Rightarrow> string \<Rightarrow> nat \<Rightarrow> daemon \<Rightarrow> daemon" where
  "blacklist_session msg skey status i d =
     (if s_blocked (the_session i d) then d
      else try_block msg skey status i (blacklist_event msg skey status i d))"

definition blacklist_status :: "rguard_policy \<Rightarrow> event_msg \<Rightarrow> string" where
  "blacklist_status p msg =
     (if scorer_is_blacklisted p None (Some (m_client_ip msg)) then ''blocked_ip'' else ''blocked_user'')"

definition blacklist_block :: "event_msg \<Rightarrow> string \<Rightarrow> daemon \<Rightarrow> daemon" where
  "blacklist_block msg skey d =
     (let status = blacklist_status (dm_policy d) msg in
      with_session skey (blacklist_session msg skey status)
        (log_d LOG_WARN ''BLACKLIST_BLOCK'' (Some skey)
           (snprintf_s 256 (op_path_detail msg 200 @ '',\"reason\":\"'' @ status @ ''\"}'')) d))"

definition blacklist_gate :: "event_msg \<Rightarrow> string \<Rightarrow> daemon \<Rightarrow> daemon + daemon" where
  "blacklist_gate msg skey d =
     (if scorer_is_blacklisted (dm_policy d) (Some (m_username msg)) (Some (m_client_ip msg))
      then Inl (blacklist_block msg skey d) else Inr d)"

subsection \<open>Event and backup records\<close>

definition event_start :: "event_msg \<Rightarrow> string \<Rightarrow> nat \<Rightarrow> daemon \<Rightarrow> daemon" where
  "event_start msg skey i d0 =
     (if s_event_id (the_session i d0) \<noteq> [] then d0
      else
        let (ts, d) = stamp (give_event_id i d0);
            pname = (if m_source_type msg = RGUARD_SOURCE_HOST then m_username msg else []);
            ev = event_record (s_event_id (the_session i d)) skey msg ts ''none'' ''active'' pname
        in on_world (\<lambda>w. w\<lparr>w_db := snd (db_insert_event (w_db w) ev)\<rparr>) d)"

text \<open>The part of the path after the share, as the daemon guesses it.\<close>

definition backup_rel :: "string \<Rightarrow> string \<Rightarrow> string" where
  "backup_rel share fp =
     (let needle = snprintf_s 128 (''/'' @ share @ ''/'') in
      case strstr fp needle of
        Some pos \<Rightarrow> drop (length needle) pos
      | None \<Rightarrow>
          if strncmp_eq fp share (length share) \<and> take 1 (drop (length share) fp) = ''/''
          then drop (length share + 1) fp else fp)"

definition record_path :: "rguard_policy \<Rightarrow> event_msg \<Rightarrow> string" where
  "record_path p msg =
     p_store_path p @ ''/backups/'' @ m_share_name msg @ ''/'' @ backup_rel (m_share_name msg) (m_file_path msg)"

definition protected_record :: "event_msg \<Rightarrow> string \<Rightarrow> string \<Rightarrow> string \<Rightarrow> pf_row" where
  "protected_record msg event_id path ts =
     \<lparr>pf_id = 0, pf_event_id = snprintf_s 64 event_id,
      pf_original_path = snprintf_s RGUARD_PATH_MAX (m_file_path msg), pf_backup_path = path,
      pf_share_name = snprintf_s 64 (m_share_name msg), pf_username = snprintf_s 64 (m_username msg),
      pf_client_ip = snprintf_s 48 (m_client_ip msg), pf_inode = sint (m_inode msg),
      pf_mtime = sint (m_mtime msg), pf_file_size = sint (m_file_size msg),
      pf_file_uid = sint (m_file_uid msg), pf_file_gid = sint (m_file_gid msg),
      pf_file_mode = sint (m_file_mode msg), pf_op_type = uint (m_op_type msg),
      pf_protected_at = snprintf_s 40 ts, pf_restore_status = ''pending'', pf_restored_at = []\<rparr>"

definition backup_ops :: "u8 set" where
  "backup_ops = {RGUARD_OP_OPEN, RGUARD_OP_WRITE, RGUARD_OP_TRUNCATE, RGUARD_OP_DELETE}"

definition backup_record :: "event_msg \<Rightarrow> string \<Rightarrow> nat \<Rightarrow> daemon \<Rightarrow> daemon" where
  "backup_record msg skey i d =
     (let eid = s_event_id (the_session i d) in
      if has_flag (m_flags msg) RGUARD_FLAG_BACKED_UP \<and> m_op_type msg \<in> backup_ops then
        (let path = record_path (dm_policy d) msg in
         if length path \<ge> RGUARD_PATH_MAX then
           log_d LOG_WARN ''BACKUP_PATH_TRUNCATED'' (Some skey)
             (snprintf_s 300 (''{\"path\":\"'' @ take 250 (m_file_path msg) @ ''\"}'')) d
         else
           let (ts, d1) = stamp d;
               (rc, db') = db_insert_protected_file (w_db (dm_world d1)) (protected_record msg eid path ts);
               d2 = on_world (\<lambda>w. w\<lparr>w_db := db'\<rparr>) d1
           in if rc = RGUARD_OK then
                log_d LOG_INFO ''BACKUP_SUCCESS'' (Some skey)
                  (snprintf_s 600 (''{\"event_id\":\"'' @ eid @ ''\",\"path\":\"'' @ take 200 (m_file_path msg) @
                     ''\",\"share\":\"'' @ take 60 (m_share_name msg) @ ''\"}'')) d2
              else d2)
      else if has_flag (m_flags msg) RGUARD_FLAG_BACKUP_FAILED then
        log_d LOG_ERROR ''BACKUP_FAILED'' (Some skey)
          (snprintf_s 600 (''{\"event_id\":\"'' @ eid @ ''\",\"path\":\"'' @ take 200 (m_file_path msg) @ ''\"}'')) d
      else d)"

definition risky_log :: "event_msg \<Rightarrow> string \<Rightarrow> daemon \<Rightarrow> daemon" where
  "risky_log msg skey d =
     (if has_flag (m_flags msg) RGUARD_FLAG_RISKY \<and> m_file_path msg \<noteq> [] then
        log_d LOG_INFO ''RISK_HIT'' (Some skey)
          (snprintf_s 600 (''{\"path\":\"'' @ take 200 (m_file_path msg) @ ''\",\"op\":'' @
             show_nat (unat (m_op_type msg)) @ ''}'')) d
      else d)"

subsection \<open>Content analysis\<close>

definition ransom_ext :: "rguard_policy \<Rightarrow> string \<Rightarrow> bool" where
  "ransom_ext p ext = list_ex (\<lambda>e. ext = e) (p_ransom_exts p)"

text \<open>A rename: the source and the target extension.\<close>

definition rename_flags :: "rguard_policy \<Rightarrow> event_msg \<Rightarrow> u16 \<Rightarrow> u16" where
  "rename_flags p msg flags =
     (if m_op_type msg = RGUARD_OP_RENAME \<and> m_file_path msg \<noteq> [] \<and> m_new_name msg \<noteq> [] then
        (let src = strrchr (m_file_path msg) CHR ''.''; dst = strrchr (m_new_name msg) CHR ''.'' in
         if src \<noteq> dst then
           (let flags' = flags OR RGUARD_FLAG_EXT_CHANGE in
            case dst of
              Some ext \<Rightarrow> if ransom_ext p ext then flags' OR RGUARD_FLAG_RANSOM_EXT else flags'
            | None \<Rightarrow> flags')
         else flags)
      else flags)"

definition new_file_flags :: "rguard_policy \<Rightarrow> event_msg \<Rightarrow> u16 \<Rightarrow> u16" where
  "new_file_flags p msg flags =
     (if has_flag (m_flags msg) RGUARD_FLAG_NEW_FILE \<and> m_file_path msg \<noteq> [] then
        (case strrchr (m_file_path msg) CHR ''.'' of
           Some ext \<Rightarrow> if ransom_ext p ext then flags OR RGUARD_FLAG_RANSOM_EXT else flags
         | None \<Rightarrow> flags)
      else flags)"

text \<open>\<open>%.<n>f\<close>: the nearest decimal, ties to even.\<close>

definition round_even :: "real \<Rightarrow> int" where
  "round_even x =
     (let f = \<lfloor>x\<rfloor>; r = x - of_int f in
      if r < 1 / 2 then f else if r > 1 / 2 then f + 1 else if even f then f else f + 1)"

definition show_fixed :: "nat \<Rightarrow> real \<Rightarrow> string" where
  "show_fixed n x =
     (let k = round_even (\<bar>x\<bar> * 10 ^ n) in
      (if x < 0 then ''-'' else []) @ show_int (k div 10 ^ n) @ ''.'' @ show_pad n (k mod 10 ^ n))"

definition entropy_step :: "daemon_env \<Rightarrow> event_msg \<Rightarrow> string \<Rightarrow> nat \<Rightarrow> u16 \<Rightarrow> daemon \<Rightarrow> u16 \<times> daemon" where
  "entropy_step env msg skey i flags d =
     (let sc = p_scoring (dm_policy d) in
      if sc_entropy_enabled sc \<and> m_file_path msg \<noteq> [] \<and> s_high_entropy (the_session i d) = 0 \<and>
         has_flag (m_flags msg) RGUARD_FLAG_BACKED_UP \<and>
         m_op_type msg \<in> {RGUARD_OP_OPEN, RGUARD_OP_WRITE, RGUARD_OP_TRUNCATE} then
        (let file = (if de_regular env (m_file_path msg) then w_files (dm_world d) (m_file_path msg) else None);
             ent = entropy_compute_file True file (de_reads env) ENTROPY_SAMPLE_SIZE;
             threshold = of_rat (sc_entropy_threshold sc)
         in if entropy_is_suspicious ent threshold then
              (flags OR RGUARD_FLAG_HIGH_ENTROPY,
               log_d LOG_WARN ''HIGH_ENTROPY'' (Some skey)
                 (snprintf_s 600 (''{\"path\":\"'' @ take 200 (m_file_path msg) @ ''\",\"entropy\":'' @
                    show_fixed 2 ent @ '',\"threshold\":'' @ show_fixed 1 threshold @ ''}'')) d)
            else (flags, d))
      else (flags, d))"

definition yara_step :: "daemon_env \<Rightarrow> event_msg \<Rightarrow> string \<Rightarrow> nat \<Rightarrow> u16 \<Rightarrow> daemon \<Rightarrow> u16 \<times> daemon" where
  "yara_step env msg skey i flags d =
     (if sc_yara_enabled (p_scoring (dm_policy d)) \<and> m_file_path msg \<noteq> [] \<and>
         yara_engine_active (dm_engine d) \<and> m_op_type msg = RGUARD_OP_CLOSE \<and>
         s_yara_match (the_session i d) = 0 then
        (let (yr, rule) = yara_scan_file (de_yara env) (dm_engine d) (Some (m_file_path msg)) 256 in
         if yr = 1 then
           (flags OR RGUARD_FLAG_YARA_MATCH,
            log_d LOG_WARN ''YARA_MATCH'' (Some skey)
              (snprintf_s 600 (''{\"path\":\"'' @ take 200 (m_file_path msg) @ ''\",\"rule\":\"'' @
                 take 100 (case rule of Some r \<Rightarrow> r | None \<Rightarrow> []) @ ''\"}'')) d)
         else (flags, d))
      else (flags, d))"

definition dir_hash :: "event_msg \<Rightarrow> u64" where
  "dir_hash msg =
     (case strrchr (m_file_path msg) CHR ''/'' of
        None \<Rightarrow> 0
      | Some slash \<Rightarrow>
          let dl = length (m_file_path msg) - length slash
          in if dl > 0 then rguard_fnv1a64 (take dl (m_file_path msg)) else 0)"

definition windows :: "rguard_policy \<Rightarrow> event_msg \<Rightarrow> int \<times> int" where
  "windows p msg =
     (let sc = p_scoring p in
      if m_source_type msg = RGUARD_SOURCE_CLOUD_SYNC then
        (if sc_cloud_window_short sc > 0 then sc_cloud_window_short sc else sc_window_short sc,
         if sc_cloud_window_long sc > 0 then sc_cloud_window_long sc else sc_window_long sc)
      else (sc_window_short sc, sc_window_long sc))"

definition defer_score :: "event_msg \<Rightarrow> u16 \<Rightarrow> bool" where
  "defer_score msg flags \<longleftrightarrow>
     m_op_type msg \<in> {RGUARD_OP_OPEN, RGUARD_OP_WRITE, RGUARD_OP_TRUNCATE} \<and>
     \<not> has_flag flags (RGUARD_FLAG_RANSOM_EXT OR RGUARD_FLAG_HIGH_ENTROPY OR RGUARD_FLAG_YARA_MATCH)"

subsection \<open>Scoring and blocking\<close>

definition score_step :: "event_msg \<Rightarrow> string \<Rightarrow> nat \<Rightarrow> u16 \<Rightarrow> daemon \<Rightarrow> daemon" where
  "score_step msg skey i flags d0 =
     (let p = dm_policy d0; t = now (dm_world d0);
          (win_s, win_l) = windows p msg;
          s1 = session_check_window (the_session i d0) t win_s win_l;
          s2 = session_update s1 (m_op_type msg) flags (dir_hash msg);
          s3 = (if defer_score msg flags then s2 else scorer_calculate s2 p);
          d1 = set_session i s3 (on_world tick_clock d0);
          d2 = on_world (\<lambda>w. w\<lparr>w_db := snd (db_update_event (w_db w) (s_event_id s3) 0
                  (sint (s_total_events s3)) (sint (s_risk_score s3)) None None None)\<rparr>) d1
      in if s_risk_level s3 \<ge> RISK_SUSPICIOUS \<and> s_risk_level s3 > s_risk_level s2 then
           log_d LOG_WARN ''SCORE_ESCALATION'' (Some skey)
             (snprintf_s 256 (''{\"event_id\":\"'' @ s_event_id s3 @ ''\",\"score\":'' @
                show_nat (unat (s_risk_score s3)) @ '',\"level\":\"'' @ level_str (s_risk_level s3) @ ''\"}'')) d2
         else d2)"

definition created_step :: "event_msg \<Rightarrow> nat \<Rightarrow> daemon \<Rightarrow> daemon" where
  "created_step msg i d =
     (if has_flag (m_flags msg) RGUARD_FLAG_NEW_FILE \<and> m_file_path msg \<noteq> [] then
        (let (ts, d1) = stamp d
         in on_world (\<lambda>w. w\<lparr>w_db := snd (db_insert_created_file (w_db w) (s_event_id (the_session i d1))
               (m_file_path msg) (m_share_name msg) (m_username msg) (m_client_ip msg) ts)\<rparr>) d1)
      else d)"

text \<open>Writing the verdict into the policy file.\<close>

definition persist_verdict :: "daemon_env \<Rightarrow> event_msg \<Rightarrow> string \<Rightarrow> daemon \<Rightarrow> daemon" where
  "persist_verdict env msg skey d =
     (case de_config_path env of
        None \<Rightarrow> d
      | Some path \<Rightarrow>
          let (rc, out) = config_persist_blacklist_ip (config_os_of env (dm_world d)) (de_persist env)
                            (de_parse env) (de_print env) path (m_client_ip msg);
              d1 = (case out of None \<Rightarrow> d
                    | Some content \<Rightarrow> on_world (\<lambda>w. w\<lparr>w_files := (w_files w)(path \<mapsto> content)\<rparr>) d)
          in if rc \<noteq> RGUARD_OK then
               log_d LOG_WARN ''AUTO_BL_PERSIST_FAILED'' (Some skey)
                 ''{\"msg\":\"in-memory entry still active\"}'' d1
             else d1)"

definition trigger_restore :: "daemon_env \<Rightarrow> nat \<Rightarrow> daemon \<Rightarrow> daemon" where
  "trigger_restore env i d =
     (let (rc, pids, w) = restore_trigger_auto (dm_policy d) (s_event_id (the_session i d)) (de_fork env)
                            (dm_pids d) (dm_world d)
      in d\<lparr>dm_pids := pids, dm_world := w\<rparr>)"

definition block_step :: "daemon_env \<Rightarrow> event_msg \<Rightarrow> string \<Rightarrow> nat \<Rightarrow> daemon \<Rightarrow> daemon" where
  "block_step env msg skey i d0 =
     (if s_risk_level (the_session i d0) = RISK_CRITICAL \<and> \<not> s_blocked (the_session i d0) then
        (let (rc, d1) = run_blocker msg i ''blocked_ransom'' d0 in
         if rc = 0 then
           (let s = (the_session i d1)\<lparr>s_blocked := True\<rparr>;
                d2 = log_d LOG_WARN ''BLOCK_EXECUTED'' (Some skey)
                       (snprintf_s 256 (''{\"event_id\":\"'' @ s_event_id s @ ''\",\"score\":'' @
                          show_nat (unat (s_risk_score s)) @ ''}'')) (set_session i s d1);
                d3 = d2\<lparr>dm_policy := scorer_blacklist_auto_add (dm_policy d2) (m_client_ip msg)\<rparr>;
                d4 = persist_verdict env msg skey d3;
                d5 = on_world (blocker_sync_blacklist BLOCKED_PATH (p_blacklist (dm_policy d4))) d4
            in trigger_restore env i d5)
         else log_d LOG_ERROR ''BLOCK_FAILED'' (Some skey) ''{}'' d1)
      else d0)"

subsection \<open>A message\<close>

text \<open>\<open>0x%04x\<close>\<close>

definition show_hex4 :: "u16 \<Rightarrow> string" where
  "show_hex4 f = (let n = unat f in
     ''0x'' @ [hx (n div 4096), hx (n div 256 mod 16), hx (n div 16 mod 16), hx (n mod 16)])"

definition receive_log :: "event_msg \<Rightarrow> string \<Rightarrow> daemon \<Rightarrow> daemon" where
  "receive_log msg skey d =
     log_d LOG_DEBUG ''MSG_RECV'' (Some skey)
       (snprintf_s 600 (''{\"op\":'' @ show_nat (unat (m_op_type msg)) @ '',\"flags\":'' @ show_hex4 (m_flags msg) @
          '',\"path\":\"'' @ take 300 (m_file_path msg) @ ''\",\"new_name\":\"'' @ take 100 (m_new_name msg) @
          ''\",\"share\":\"'' @ take 60 (m_share_name msg) @ ''\"}'')) d"

fun run_gates :: "(daemon \<Rightarrow> daemon + daemon) list \<Rightarrow> daemon \<Rightarrow> daemon + daemon" where
  "run_gates [] d = Inr d"
| "run_gates (g # gs) d = (case g d of Inl d' \<Rightarrow> Inl d' | Inr d' \<Rightarrow> run_gates gs d')"

definition gates :: "event_msg \<Rightarrow> string \<Rightarrow> (daemon \<Rightarrow> daemon + daemon) list" where
  "gates msg skey =
     [protection_gate msg skey, extension_gate msg skey, exception_gate msg skey,
      whitelist_gate msg skey, blacklist_gate msg skey]"

text \<open>What follows the gates, on the session in bucket \<open>i\<close>.\<close>

definition rate_session :: "daemon_env \<Rightarrow> event_msg \<Rightarrow> string \<Rightarrow> nat \<Rightarrow> daemon \<Rightarrow> daemon" where
  "rate_session env msg skey i d0 =
     (let d1 = risky_log msg skey (backup_record msg skey i (event_start msg skey i d0));
          f0 = new_file_flags (dm_policy d1) msg (rename_flags (dm_policy d1) msg (m_flags msg));
          (f1, d2) = entropy_step env msg skey i f0 d1;
          (f2, d3) = yara_step env msg skey i f1 d2
      in created_step msg i (score_step msg skey i f2 d3))"

definition assess :: "daemon_env \<Rightarrow> event_msg \<Rightarrow> string \<Rightarrow> nat \<Rightarrow> daemon \<Rightarrow> daemon" where
  "assess env msg skey i d = block_step env msg skey i (rate_session env msg skey i d)"

definition process_msg :: "daemon_env \<Rightarrow> event_msg \<Rightarrow> daemon \<Rightarrow> daemon" where
  "process_msg env msg d0 =
     (let skey = rguard_make_session_key SESSION_KEY_LEN (Some (m_username msg)) (Some (m_client_ip msg)) in
      if m_msg_type msg = RGUARD_MSG_VFS_BLOCKED then vfs_blocked msg skey d0
      else case run_gates (gates msg skey) (receive_log msg skey d0) of
        Inl d \<Rightarrow> d
      | Inr d \<Rightarrow> with_session skey (assess env msg skey) d)"

text \<open>
  One datagram of the socket; \<open>logged\<close> is the static flag of the version warning. The last byte of
  each character array is set to NUL before anything reads the strings: without it a string would
  go on into the fields behind it.
\<close>

definition terminate_fields :: "string \<Rightarrow> string" where
  "terminate_fields buf =
     buf[48 + 64 - 1 := nul, 112 + 48 - 1 := nul, 160 + 64 - 1 := nul, 224 + 4096 - 1 := nul,
         4320 + 256 - 1 := nul]"

definition receive_datagram :: "daemon_env \<Rightarrow> string \<Rightarrow> bool \<times> daemon \<Rightarrow> bool \<times> daemon" where
  "receive_datagram env bytes st =
     (let (logged, d) = st in
      if length bytes \<noteq> RGUARD_MSG_SIZE then (logged, d)
      else
        let msg = msg_decode bytes in
        if m_proto_version msg > RGUARD_PROTO_VERSION then
          (if logged then (True, d)
           else (True, log_d LOG_WARN ''PROTO_VERSION_DROP'' None
                  (snprintf_s 80 (''{\"peer_version\":'' @ show_nat (unat (m_proto_version msg)) @
                     '',\"daemon_version\":'' @ show_nat (unat RGUARD_PROTO_VERSION) @ ''}'')) d))
        else (logged, process_msg env (msg_decode (terminate_fields bytes)) d))"

subsection \<open>What the receiver reads\<close>

lemma terminated_bytes:
  assumes "\<And>i. i < n \<Longrightarrow> off + i \<notin> {111, 159, 223, 4319, 4575}"
  shows "bytes_at off n (terminate_fields buf) = bytes_at off n buf"
proof (rule nth_equalityI)
  fix i assume "i < length (bytes_at off n (terminate_fields buf))"
  then have "i < n" "off + i < length buf" by (auto simp: bytes_at_def terminate_fields_def)
  then show "bytes_at off n (terminate_fields buf) ! i = bytes_at off n buf ! i"
    using assms [of i] by (simp add: bytes_at_def terminate_fields_def)
qed (simp add: bytes_at_def terminate_fields_def)

lemma terminated_string:
  assumes "length buf = RGUARD_MSG_SIZE" and "off + n < 4608" and "off + n \<in> {111, 159, 223, 4319, 4575}"
    and "\<And>i. i < n \<Longrightarrow> off + i \<notin> {111, 159, 223, 4319, 4575}"
  shows "wire_field off (terminate_fields buf) = cstr_of (butlast (bytes_at off (Suc n) buf))"
proof -
  let ?t = "terminate_fields buf"
  have len: "length ?t = 4608" using assms(1) by (simp add: terminate_fields_def RGUARD_MSG_SIZE_def)
  have nul: "?t ! (off + n) = nul"
    using assms(1,3) by (auto simp: terminate_fields_def RGUARD_MSG_SIZE_def)
  have tb: "take n (drop off ?t) = bytes_at off n buf"
    using terminated_bytes [OF assms(4), where buf = buf] by (simp only: bytes_at_def)
  have "n < length (drop off ?t)" "drop off ?t ! n = nul" using assms(2) len nul by simp_all
  from id_take_nth_drop [OF this(1)] this(2) tb
  have "drop off ?t = bytes_at off n buf @ nul # drop (Suc n) (drop off ?t)" by argo
  moreover have "butlast (bytes_at off (Suc n) buf) = bytes_at off n buf"
    using assms(1,2) by (simp add: bytes_at_def butlast_take RGUARD_MSG_SIZE_def)
  moreover have "takeWhile (\<lambda>c. c \<noteq> nul) (a @ nul # b) = takeWhile (\<lambda>c. c \<noteq> nul) a" for a b
    by (induction a) auto
  ultimately show ?thesis unfolding wire_field_def cstr_of_def by metis
qed

lemma decode_terminated:
  assumes "length buf = RGUARD_MSG_SIZE"
  shows "fields_of buf (msg_decode (terminate_fields buf))"
proof -
  note str = terminated_string [OF assms]
  have "wire_field 48 (terminate_fields buf) = wire_string ''username'' buf"
    using str [of 48 63] by (simp add: wire_string_def wire_bytes_at)
  moreover have "wire_field 112 (terminate_fields buf) = wire_string ''client_ip'' buf"
    using str [of 112 47] by (simp add: wire_string_def wire_bytes_at)
  moreover have "wire_field 160 (terminate_fields buf) = wire_string ''share_name'' buf"
    using str [of 160 63] by (simp add: wire_string_def wire_bytes_at)
  moreover have "wire_field 224 (terminate_fields buf) = wire_string ''file_path'' buf"
    using str [of 224 4095] by (simp add: wire_string_def wire_bytes_at)
  moreover have "wire_field 4320 (terminate_fields buf) = wire_string ''new_name'' buf"
    using str [of 4320 255] by (simp add: wire_string_def wire_bytes_at)
  ultimately show ?thesis
    unfolding fields_of_def msg_decode_def wire_bytes_at
    by (simp add: terminated_bytes unat_fields)
qed

lemma version_of_bytes:
  "m_proto_version (msg_decode buf) > RGUARD_PROTO_VERSION \<longleftrightarrow> 1 < le_nat (wire_bytes ''proto_version'' buf)"
  by (simp add: msg_decode_def wire_bytes_at RGUARD_PROTO_VERSION_def word_less_nat_alt unat_fields)

lemma receive_fields:
  assumes "length bytes = RGUARD_MSG_SIZE" and "fields_of bytes m" and "m_proto_version m \<le> RGUARD_PROTO_VERSION"
  shows "receive_datagram env bytes (logged, d) = (logged, process_msg env m d)"
proof -
  have "msg_decode (terminate_fields bytes) = m"
    using fields_of_unique [OF decode_terminated [OF assms(1)] assms(2)] .
  moreover have "\<not> 1 < le_nat (wire_bytes ''proto_version'' bytes)"
    using assms(2,3) by (simp add: fields_of_def RGUARD_PROTO_VERSION_def word_le_nat_alt)
  ultimately show ?thesis using assms(1) version_of_bytes [of bytes] by (simp add: receive_datagram_def Let_def)
qed


text \<open>A datagram with a user name of 64 bytes and no NUL: the name that is read has 63.\<close>

definition long_name_datagram :: string where
  "long_name_datagram = replicate 48 nul @ replicate 64 CHR ''u'' @ replicate (4608 - 112) nul"


end
