(* ===== verification/Daemon_Props.thy ===== *)
theory Daemon_Props
  imports Daemon_Main
begin

text \<open>
  What the handlers of \<open>gfrguardd_main.c\<close> keep: the invariants of the session table, the
  policy and the database, every blocked session, and the history of the database; and what a
  message does on the way through the gates.
\<close>

subsection \<open>The invariant of the daemon\<close>

definition daemon_inv :: "daemon \<Rightarrow> bool" where
  "daemon_inv d \<longleftrightarrow> table_inv (dm_table d) \<and> mirrors_ok (dm_policy d) \<and> auto_inv (dm_policy d) \<and>
     db_inv (w_db (dm_world d))"

text \<open>Every blocked session of the first table is a blocked session of the second.\<close>

definition keeps_blocked :: "session_table \<Rightarrow> session_table \<Rightarrow> bool" where
  "keeps_blocked t t' \<longleftrightarrow> (\<forall>k s. session_lookup t k = Some s \<and> s_blocked s \<longrightarrow>
     (\<exists>s'. session_lookup t' k = Some s' \<and> s_blocked s'))"

lemma keeps_blocked_refl [simp]: "keeps_blocked t t"
  by (auto simp: keeps_blocked_def)

lemma keeps_blocked_trans: "keeps_blocked a b \<Longrightarrow> keeps_blocked b c \<Longrightarrow> keeps_blocked a c"
  unfolding keeps_blocked_def by meson

text \<open>The database moves by its statements; what the system will answer, the clock included, is not the daemon's.\<close>

definition world_step :: "world \<Rightarrow> world \<Rightarrow> bool" where
  "world_step w w' \<longleftrightarrow> db_step\<^sup>*\<^sup>* (w_db w) (w_db w') \<and> w_answers w' = w_answers w \<and>
     w_clock w' = w_clock w"

lemma world_step_refl [simp, intro]: "world_step w w"
  by (simp add: world_step_def)

lemma world_step_trans: "world_step a b \<Longrightarrow> world_step b c \<Longrightarrow> world_step a c"
  by (auto simp: world_step_def)

lemma world_step_same [simp]:
  "w_db w' = w_db w \<Longrightarrow> w_answers w' = w_answers w \<Longrightarrow> w_clock w' = w_clock w \<Longrightarrow> world_step w w'"
  by (simp add: world_step_def)

lemma answers_frames [simp]:
  "w_answers (write_log lv ev sk det w) = w_answers w" "w_answers (tick_clock w) = w_answers w"
  "w_answers (next_op w) = w_answers w"
  "w_clock (write_log lv ev sk det w) = w_clock w" "w_clock (tick_clock w) = w_clock w"
  "w_clock (next_op w) = w_clock w" "w_clock (close_share sh w) = w_clock w"
  by (simp_all add: write_log_def tick_clock_def next_op_def close_share_def)

lemma world_step_inv: "world_step w w' \<Longrightarrow> db_inv (w_db w) \<Longrightarrow> db_inv (w_db w')"
  by (auto simp: world_step_def intro: db_steps_inv)

lemma world_step_stmt: "db_step (w_db w) db' \<Longrightarrow> world_step w (w\<lparr>w_db := db'\<rparr>)"
  by (simp add: world_step_def r_into_rtranclp)

text \<open>Steps that leave the sessions, the policy and the engine alone.\<close>

definition quiet :: "daemon \<Rightarrow> daemon \<Rightarrow> bool" where
  "quiet d d' \<longleftrightarrow> dm_table d' = dm_table d \<and> dm_policy d' = dm_policy d \<and> dm_engine d' = dm_engine d \<and>
     world_step (dm_world d) (dm_world d')"

lemma quiet_refl [simp, intro]: "quiet d d"
  by (simp add: quiet_def)

lemma quiet_trans: "quiet a b \<Longrightarrow> quiet b c \<Longrightarrow> quiet a c"
  by (auto simp: quiet_def intro: world_step_trans)

lemma quiet_on_world: "world_step (dm_world d) (f (dm_world d)) \<Longrightarrow> quiet d (on_world f d)"
  by (simp add: quiet_def on_world_def)

lemma quiet_stmt:
  "db_step (w_db (dm_world d)) db' \<Longrightarrow> quiet d (on_world (\<lambda>w. w\<lparr>w_db := db'\<rparr>) d)"
  by (simp add: quiet_def on_world_def world_step_stmt)

lemma quiet_log [simp, intro]: "quiet d (log_d lv ev sk det d)"
  by (simp add: log_d_def quiet_on_world)

lemma quiet_stamp [simp, intro]: "quiet d (snd (stamp d))"
  by (simp add: stamp_def iso8601_now_def quiet_def tick_clock_def)

lemma quiet_upsert [simp, intro]: "quiet d (upsert_d row d)"
  by (simp add: upsert_d_def on_world_def quiet_def world_step_stmt db_step.upsert_event)

text \<open>The accessors see through quiet steps.\<close>

lemma quiet_frames [simp]:
  "dm_table (log_d lv ev sk det d) = dm_table d" "dm_policy (log_d lv ev sk det d) = dm_policy d"
  "dm_table (snd (stamp d)) = dm_table d" "dm_policy (snd (stamp d)) = dm_policy d"
  "dm_table (upsert_d row d) = dm_table d" "dm_policy (upsert_d row d) = dm_policy d"
  "dm_table (on_world f d) = dm_table d" "dm_policy (on_world f d) = dm_policy d"
  "dm_engine (on_world f d) = dm_engine d" "dm_world (on_world f d) = f (dm_world d)"
  "the_session i (log_d lv ev sk det d) = the_session i d"
  "the_session i (snd (stamp d)) = the_session i d"
  "the_session i (on_world f d) = the_session i d" "the_session i (upsert_d row d) = the_session i d"
  by (simp_all add: log_d_def on_world_def stamp_def upsert_d_def case_prod_beta the_session_def)

lemma execute_world_step: "world_step w (snd (blocker_execute w path ip ev share st))"
proof -
  have same: "w_db (snd (block_ip path x w)) = w_db w" "w_answers (snd (block_ip path x w)) = w_answers w"
    "w_clock (snd (block_ip path x w)) = w_clock w" for x
    by (auto simp: block_ip_def blocked_lock_def write_atomic_def case_prod_beta Let_def split: option.splits)
  have stmt: "world_step w (v\<lparr>w_db := snd (db_update_event (w_db w) a b c d e f g)\<rparr>)"
    if "w_answers v = w_answers w" "w_clock v = w_clock w" for v a b c d e f g
    using that by (simp add: world_step_def r_into_rtranclp db_step.update_event)
  show ?thesis
    by (auto simp: blocker_execute_def case_prod_beta Let_def iso8601_now_def same intro: stmt)
qed

lemma quiet_run_blocker [simp, intro]: "quiet d (snd (run_blocker msg i st d))"
  by (simp add: run_blocker_def case_prod_beta quiet_def execute_world_step)

lemma quiet_risky [simp, intro]: "quiet d (risky_log msg skey d)"
  by (simp add: risky_log_def)

lemma quiet_receive_log [simp, intro]: "quiet d (receive_log msg skey d)"
  by (simp add: receive_log_def)

lemma quiet_backup [simp, intro]: "quiet d (backup_record msg skey i d)"
proof -
  let ?d1 = "snd (stamp d)"
  have "quiet ?d1 (on_world (\<lambda>w. w\<lparr>w_db := snd (db_insert_protected_file (w_db (dm_world ?d1)) pf)\<rparr>) ?d1)" for pf
    by (rule quiet_stmt) (rule db_step.insert_file)
  then have ins: "quiet d (on_world (\<lambda>w. w\<lparr>w_db := snd (db_insert_protected_file (w_db (dm_world ?d1)) pf)\<rparr>) ?d1)" for pf
    by (rule quiet_trans [OF quiet_stamp])
  then have "quiet d (log_d lv ev sk det
      (on_world (\<lambda>w. w\<lparr>w_db := snd (db_insert_protected_file (w_db (dm_world ?d1)) pf)\<rparr>) ?d1))" for lv ev sk det pf
    by (rule quiet_trans [OF _ quiet_log])
  with ins show ?thesis
    by (simp add: backup_record_def case_prod_beta Let_def)
qed

lemma quiet_entropy [simp, intro]: "quiet d (snd (entropy_step env msg skey i f d))"
  by (simp add: entropy_step_def Let_def)

lemma quiet_yara [simp, intro]: "quiet d (snd (yara_step env msg skey i f d))"
  by (simp add: yara_step_def Let_def case_prod_beta)

lemma quiet_created [simp, intro]: "quiet d (created_step msg i d)"
proof -
  let ?d1 = "snd (stamp d)"
  have "quiet ?d1 (on_world (\<lambda>w. w\<lparr>w_db := snd (db_insert_created_file (w_db w) a b c e f g)\<rparr>) ?d1)" for a b c e f g
    by (simp add: quiet_def on_world_def world_step_stmt db_step.insert_created)
  from quiet_trans [OF quiet_stamp this] show ?thesis
    by (simp add: created_step_def case_prod_beta)
qed

lemma quiet_persist [simp, intro]: "quiet d (persist_verdict env msg skey d)"
  by (auto simp: persist_verdict_def case_prod_beta Let_def quiet_def on_world_def log_d_def
      split: option.splits)

lemma quiet_restore [simp, intro]: "quiet d (trigger_restore env i d)"
  by (auto simp: trigger_restore_def restore_trigger_auto_def case_prod_beta Let_def quiet_def
      split: option.splits)

lemma quiet_sync [simp, intro]: "quiet d (on_world (blocker_sync_blacklist path bl) d)"
  by (rule quiet_on_world)
    (simp add: blocker_sync_blacklist_def blocked_lock_def write_atomic_def case_prod_beta Let_def)

lemma max_seq_tick: "snd (db_get_max_daily_seq db date) = db \<or> snd (db_get_max_daily_seq db date) = tick db"
  by (simp add: db_get_max_daily_seq_def Let_def)

lemma quiet_make_id [simp, intro]: "quiet d (snd (make_event_id n d))"
proof -
  have "db_step\<^sup>*\<^sup>* db (snd (db_get_max_daily_seq db date))" for db date
    using max_seq_tick [of db date] db_step.query [of db] by (auto intro: r_into_rtranclp)
  then show ?thesis
    by (simp add: make_event_id_def Let_def case_prod_beta quiet_def on_world_def tick_clock_def world_step_def)
qed

lemma make_id_frame [simp]:
  "dm_table (snd (make_event_id n d)) = dm_table d" "dm_policy (snd (make_event_id n d)) = dm_policy d"
  "the_session i (snd (make_event_id n d)) = the_session i d"
  using quiet_make_id [of d n] by (simp_all add: quiet_def the_session_def)

subsection \<open>Steps on one session\<close>

definition handle_inv :: "nat \<Rightarrow> daemon \<Rightarrow> bool" where
  "handle_inv i d \<longleftrightarrow> daemon_inv d \<and> valid_handle (dm_table d) i"

text \<open>A step on the session in bucket \<open>i\<close> that keeps everything the daemon relies on.\<close>

definition safe :: "nat \<Rightarrow> daemon \<Rightarrow> daemon \<Rightarrow> bool" where
  "safe i d d' \<longleftrightarrow> (handle_inv i d \<longrightarrow> handle_inv i d' \<and>
     s_key (the_session i d') = s_key (the_session i d) \<and>
     keeps_blocked (dm_table d) (dm_table d') \<and>
     world_step (dm_world d) (dm_world d'))"

lemma safe_refl [simp, intro]: "safe i d d"
  by (simp add: safe_def)

lemma safe_trans: "safe i a b \<Longrightarrow> safe i b c \<Longrightarrow> safe i a c"
  by (auto simp: safe_def intro: keeps_blocked_trans world_step_trans)

lemma quiet_inv: "quiet d d' \<Longrightarrow> daemon_inv d \<Longrightarrow> daemon_inv d'"
  by (auto simp: quiet_def daemon_inv_def intro: world_step_inv)

lemma quiet_safe: "quiet d d' \<Longrightarrow> safe i d d'"
  using quiet_inv [of d d'] by (auto simp: safe_def handle_inv_def quiet_def the_session_def)

lemmas safe_quiet = safe_trans [OF quiet_safe]

lemma the_session_in_use: "handle_inv i d \<Longrightarrow> s_in_use (the_session i d)"
  by (simp add: handle_inv_def valid_handle_def the_session_def session_at_def)

lemma session_at_put [simp]:
  "table_inv t \<Longrightarrow> valid_handle t i \<Longrightarrow> session_at (session_put t i s) i = s"
  by (simp add: session_at_def session_put_def valid_handle_def table_invD(1))

lemma valid_put: "table_inv t \<Longrightarrow> valid_handle t i \<Longrightarrow> s_in_use s \<Longrightarrow> valid_handle (session_put t i s) i"
  by (simp add: session_put_def valid_handle_def table_invD(1))

lemma put_keeps_blocked:
  assumes "table_inv t" and "valid_handle t i" and "s_in_use s" and "s_key s = s_key (session_at t i)"
    and "s_blocked (session_at t i) \<longrightarrow> s_blocked s"
  shows "keeps_blocked t (session_put t i s)"
proof -
  have map: "session_lookup (session_put t i s) = (session_lookup t)(s_key s \<mapsto> s)"
    by (rule st.put_map) (use assms in auto)
  have "session_lookup t (s_key s) = Some (session_at t i)"
    using lookup_at [of t i] assms(1,2,4) by (simp add: valid_handle_def session_at_def)
  then show ?thesis
    using assms(5) by (auto simp: keeps_blocked_def map)
qed

lemma safe_set:
  assumes "s_in_use (the_session i d) \<Longrightarrow> s_in_use s" and "s_key s = s_key (the_session i d)"
    and "s_blocked (the_session i d) \<longrightarrow> s_blocked s"
  shows "safe i d (set_session i s d)"
  unfolding safe_def
proof
  assume h: "handle_inv i d"
  then have t: "table_inv (dm_table d)" "valid_handle (dm_table d) i"
    by (auto simp: handle_inv_def daemon_inv_def)
  note iu = assms(1) [OF the_session_in_use [OF h]]
  have key: "s_key s = s_key (session_at (dm_table d) i)" using assms(2) by (simp add: the_session_def)
  have "table_inv (session_put (dm_table d) i s)" by (rule st.put_inv [OF t iu key])
  moreover note valid_put [OF t iu]
  moreover have "keeps_blocked (dm_table d) (session_put (dm_table d) i s)"
    by (rule put_keeps_blocked [OF t iu key]) (use assms(3) in \<open>simp add: the_session_def\<close>)
  ultimately show "handle_inv i (set_session i s d) \<and>
      s_key (the_session i (set_session i s d)) = s_key (the_session i d) \<and>
      keeps_blocked (dm_table d) (dm_table (set_session i s d)) \<and>
      world_step (dm_world d) (dm_world (set_session i s d))"
    using h t key by (simp add: handle_inv_def daemon_inv_def set_session_def the_session_def)
qed

lemma safe_give_id [simp, intro]: "safe i d (give_event_id i d)"
proof -
  let ?d = "snd (make_event_id EVENT_ID_LEN d)"
  have "safe i ?d (set_session i ((the_session i ?d)\<lparr>s_event_id := e\<rparr>) ?d)" for e
    by (rule safe_set) auto
  then have "safe i ?d (set_session i ((the_session i d)\<lparr>s_event_id := e\<rparr>) ?d)" for e by simp
  from safe_quiet [OF quiet_make_id this] show ?thesis
    by (simp add: give_event_id_def case_prod_beta)
qed

lemma safe_event_start [simp, intro]: "safe i d (event_start msg skey i d)"
proof -
  let ?d = "snd (stamp (give_event_id i d))"
  have "quiet ?d (on_world (\<lambda>w. w\<lparr>w_db := snd (db_insert_event (w_db w) row)\<rparr>) ?d)" for row
    by (simp add: quiet_def on_world_def world_step_stmt db_step.insert_event)
  then have "quiet (give_event_id i d) (on_world (\<lambda>w. w\<lparr>w_db := snd (db_insert_event (w_db w) row)\<rparr>) ?d)" for row
    by (rule quiet_trans [OF quiet_stamp])
  from safe_trans [OF safe_give_id quiet_safe [OF this]] show ?thesis
    by (simp add: event_start_def case_prod_beta Let_def)
qed

lemma check_window_frame [simp]:
  "s_key (session_check_window s t a b) = s_key s" "s_in_use (session_check_window s t a b) = s_in_use s"
  "s_blocked (session_check_window s t a b) = s_blocked s"
  by (simp_all add: session_check_window_def Let_def)

lemma op_counters_frame [simp]:
  "s_key (session_op_counters s op f) = s_key s" "s_in_use (session_op_counters s op f) = s_in_use s"
  "s_blocked (session_op_counters s op f) = s_blocked s"
  by (simp_all add: session_op_counters_def Let_def)

lemma session_update_frame [simp]:
  "s_key (session_update s op f h) = s_key s" "s_in_use (session_update s op f h) = s_in_use s"
  "s_blocked (session_update s op f h) = s_blocked s"
  by (simp_all add: session_update_def Let_def dir_add_def)

lemma scorer_frame [simp]:
  "s_key (scorer_calculate s p) = s_key s" "s_in_use (scorer_calculate s p) = s_in_use s"
  "s_blocked (scorer_calculate s p) = s_blocked s"
  by (simp_all add: scorer_calculate_def Let_def)

text \<open>The session after its windows, counters and score are brought up to date.\<close>

definition rated :: "event_msg \<Rightarrow> nat \<Rightarrow> u16 \<Rightarrow> daemon \<Rightarrow> session_state" where
  "rated msg i flags d =
     (let (ws, wl) = windows (dm_policy d) msg;
          s2 = session_update (session_check_window (the_session i d) (now (dm_world d)) ws wl)
                 (m_op_type msg) flags (dir_hash msg)
      in if defer_score msg flags then s2 else scorer_calculate s2 (dm_policy d))"

lemma rated_frame [simp]:
  "s_key (rated msg i f d) = s_key (the_session i d)" "s_in_use (rated msg i f d) = s_in_use (the_session i d)"
  "s_blocked (rated msg i f d) = s_blocked (the_session i d)"
  by (simp_all add: rated_def case_prod_beta Let_def)

lemma score_step_quiet:
  "\<exists>d1. quiet (set_session i (rated msg i f d) (on_world tick_clock d)) d1 \<and> score_step msg skey i f d = d1"
proof -
  let ?d = "set_session i (rated msg i f d) (on_world tick_clock d)"
  have q: "quiet ?d (on_world (\<lambda>w. w\<lparr>w_db := snd (db_update_event (w_db w) a b c g h k l)\<rparr>) ?d)" for a b c g h k l
    by (simp add: quiet_def on_world_def world_step_stmt db_step.update_event)
  from q quiet_trans [OF q quiet_log] show ?thesis
    by (simp add: score_step_def case_prod_beta Let_def rated_def split del: if_split)
       (simp split: if_split)
qed

lemma safe_score [simp, intro]: "safe i d (score_step msg skey i f d)"
proof -
  have tick: "quiet d (on_world tick_clock d)" by (rule quiet_on_world) simp
  have "safe i (on_world tick_clock d) (set_session i (rated msg i f d) (on_world tick_clock d))"
    by (rule safe_set) (simp_all add: the_session_def)
  with score_step_quiet [of i msg f d skey] show ?thesis
    by (metis safe_quiet [OF tick] safe_trans quiet_safe)
qed

lemma safe_auto_add:
  assumes "length ip < RGUARD_IP_LEN"
  shows "safe i d (d\<lparr>dm_policy := scorer_blacklist_auto_add (dm_policy d) ip\<rparr>)"
  using auto_add_effect [OF _ _ assms, of "dm_policy d"] auto_add_mirrors [of "dm_policy d" ip]
  by (simp add: safe_def handle_inv_def daemon_inv_def the_session_def)

text \<open>What happens once the blocker has succeeded.\<close>

definition after_block :: "daemon_env \<Rightarrow> event_msg \<Rightarrow> string \<Rightarrow> nat \<Rightarrow> string \<Rightarrow> daemon \<Rightarrow> daemon" where
  "after_block env msg skey i det d1 =
     (let d2 = log_d LOG_WARN ''BLOCK_EXECUTED'' (Some skey) det
                 (set_session i ((the_session i d1)\<lparr>s_blocked := True\<rparr>) d1);
          d3 = d2\<lparr>dm_policy := scorer_blacklist_auto_add (dm_policy d2) (m_client_ip msg)\<rparr>;
          d4 = persist_verdict env msg skey d3
      in trigger_restore env i (on_world (blocker_sync_blacklist BLOCKED_PATH (p_blacklist (dm_policy d4))) d4))"

lemma block_step_eq:
  "\<exists>det. block_step env msg skey i d =
     (if s_risk_level (the_session i d) = RISK_CRITICAL \<and> \<not> s_blocked (the_session i d) then
        (let (rc, d1) = run_blocker msg i ''blocked_ransom'' d in
         if rc = 0 then after_block env msg skey i det d1
         else log_d LOG_ERROR ''BLOCK_FAILED'' (Some skey) ''{}'' d1)
      else d)"
  by (auto simp: block_step_def after_block_def Let_def case_prod_beta)

lemma safe_after_block:
  assumes "length (m_client_ip msg) < RGUARD_IP_LEN"
  shows "safe i d (after_block env msg skey i det d)"
proof -
  let ?d1 = "set_session i ((the_session i d)\<lparr>s_blocked := True\<rparr>) d"
  let ?d2 = "log_d LOG_WARN ''BLOCK_EXECUTED'' (Some skey) det ?d1"
  let ?d3 = "?d2\<lparr>dm_policy := scorer_blacklist_auto_add (dm_policy ?d2) (m_client_ip msg)\<rparr>"
  let ?d4 = "persist_verdict env msg skey ?d3"
  have "safe i d ?d1" by (rule safe_set) simp_all
  moreover have "safe i ?d1 ?d2" by (rule quiet_safe) simp
  moreover have "safe i ?d2 ?d3" by (rule safe_auto_add [OF assms])
  moreover have "quiet ?d3 (trigger_restore env i (on_world (blocker_sync_blacklist BLOCKED_PATH (p_blacklist (dm_policy ?d4))) ?d4))"
    by (rule quiet_trans [OF quiet_persist quiet_trans [OF quiet_sync quiet_restore]])
  ultimately show ?thesis
    unfolding after_block_def Let_def by (meson safe_trans quiet_safe)
qed

lemma safe_block_step:
  assumes "length (m_client_ip msg) < RGUARD_IP_LEN"
  shows "safe i d (block_step env msg skey i d)"
proof -
  obtain det where eq: "block_step env msg skey i d =
     (if s_risk_level (the_session i d) = RISK_CRITICAL \<and> \<not> s_blocked (the_session i d) then
        (let (rc, d1) = run_blocker msg i ''blocked_ransom'' d in
         if rc = 0 then after_block env msg skey i det d1
         else log_d LOG_ERROR ''BLOCK_FAILED'' (Some skey) ''{}'' d1)
      else d)"
    using block_step_eq by blast
  have q: "quiet d (snd (run_blocker msg i ''blocked_ransom'' d))" by simp
  show ?thesis
    unfolding eq case_prod_beta Let_def
    using safe_quiet [OF q safe_after_block [OF assms]] safe_quiet [OF q quiet_safe [OF quiet_log]]
    by simp
qed

lemma blocked_set:
  "s_blocked s = s_blocked (the_session i d) \<Longrightarrow>
    s_blocked (the_session i (set_session i s d)) = s_blocked (the_session i d)"
  by (cases "i < length (t_buckets (dm_table d))")
    (simp_all add: set_session_def the_session_def session_at_def session_put_def list_update_beyond not_less)

lemma blocked_give_id [simp]: "s_blocked (the_session i (give_event_id i d)) = s_blocked (the_session i d)"
  using blocked_set [of _ i "snd (make_event_id EVENT_ID_LEN d)"]
  by (simp add: give_event_id_def case_prod_beta)

lemma quiet_session: "quiet d d' \<Longrightarrow> the_session i d' = the_session i d"
  by (simp add: quiet_def the_session_def)

lemma blocked_score [simp]: "s_blocked (the_session i (score_step msg skey i f d)) = s_blocked (the_session i d)"
  using score_step_quiet [of i msg f d skey] blocked_set [of "rated msg i f d" i "on_world tick_clock d"]
  by (auto dest: quiet_session [of _ _ i])

text \<open>Rating keeps what a safe step keeps and never touches the mark.\<close>

lemma rate_effect:
  "safe i d (rate_session env msg skey i d) \<and>
    s_blocked (the_session i (rate_session env msg skey i d)) = s_blocked (the_session i d)"
proof -
  let ?d1 = "risky_log msg skey (backup_record msg skey i (event_start msg skey i d))"
  let ?f0 = "new_file_flags (dm_policy ?d1) msg (rename_flags (dm_policy ?d1) msg (m_flags msg))"
  let ?e = "entropy_step env msg skey i ?f0 ?d1"
  let ?y = "yara_step env msg skey i (fst ?e) (snd ?e)"
  let ?s = "score_step msg skey i (fst ?y) (snd ?y)"
  have q1: "quiet (event_start msg skey i d) ?d1" by (rule quiet_trans [OF quiet_backup quiet_risky])
  have q2: "quiet ?d1 (snd ?y)" by (rule quiet_trans [OF quiet_entropy quiet_yara])
  have q3: "quiet ?s (created_step msg i ?s)" by simp
  have "safe i d ?s"
    by (rule safe_trans [OF safe_event_start]) (rule safe_trans [OF quiet_safe [OF quiet_trans [OF q1 q2]] safe_score])
  then have "safe i d (created_step msg i ?s)" by (rule safe_trans [OF _ quiet_safe [OF q3]])
  moreover have "s_blocked (the_session i (event_start msg skey i d)) = s_blocked (the_session i d)"
    by (simp add: event_start_def case_prod_beta Let_def)
  ultimately show ?thesis
    using quiet_session [OF q1, of i] quiet_session [OF q2, of i] quiet_session [OF q3, of i]
    by (simp add: rate_session_def Let_def case_prod_beta)
qed

lemma safe_assess:
  assumes "length (m_client_ip msg) < RGUARD_IP_LEN"
  shows "safe i d (assess env msg skey i d)"
  unfolding assess_def
  using safe_trans [OF rate_effect [THEN conjunct1] safe_block_step [OF assms]] .

lemma safe_vfs_event: "safe i d (vfs_event msg skey i d)"
proof -
  let ?d3 = "if s_event_id (the_session i d) = [] then give_event_id i d else d"
  have a: "safe i d ?d3" by simp
  have "quiet ?d3 (upsert_d row (snd (stamp ?d3)))" for row by (rule quiet_trans [OF quiet_stamp quiet_upsert])
  from safe_trans [OF a quiet_safe [OF this]] a show ?thesis
    by (simp add: vfs_event_def Let_def case_prod_beta del: quiet_frames)
qed

text \<open>Marking a session blocked and taking it back when the blocker fails.\<close>

lemma put_put [simp]: "session_put (session_put t i a) i b = session_put t i b"
  by (simp add: session_put_def)

lemma safe_try_block:
  assumes "\<not> s_blocked (the_session i d)"
  shows "safe i d (try_block msg skey status i d)"
proof -
  let ?d4 = "set_session i ((the_session i d)\<lparr>s_blocked := True\<rparr>) d"
  let ?d5 = "snd (run_blocker msg i status ?d4)"
  have q: "quiet ?d4 ?d5" by simp
  have s4: "safe i d ?d4" by (rule safe_set) simp_all
  note good = safe_trans [OF s4 quiet_safe [OF q]]
  let ?d6 = "set_session i ((the_session i ?d5)\<lparr>s_blocked := False\<rparr>) ?d5"
  have bad: "safe i d ?d6"
    unfolding safe_def
  proof
    assume h: "handle_inv i d"
    then have t: "table_inv (dm_table d)" "valid_handle (dm_table d) i"
      by (auto simp: handle_inv_def daemon_inv_def)
    have s5: "the_session i ?d5 = (the_session i d)\<lparr>s_blocked := True\<rparr>"
      using q t by (simp add: quiet_def the_session_def set_session_def)
    have "dm_table ?d6 = session_put (dm_table d) i ((the_session i d)\<lparr>s_blocked := False\<rparr>)"
      using q s5 by (simp add: quiet_def set_session_def)
    moreover have "dm_policy ?d6 = dm_policy d" "world_step (dm_world d) (dm_world ?d6)"
      using q by (simp_all add: quiet_def set_session_def)
    moreover have "safe i (d\<lparr>dm_world := dm_world ?d6\<rparr>)
        (set_session i ((the_session i d)\<lparr>s_blocked := False\<rparr>) (d\<lparr>dm_world := dm_world ?d6\<rparr>))"
      by (rule safe_set) (use assms in \<open>simp_all add: the_session_def\<close>)
    moreover have "handle_inv i (d\<lparr>dm_world := dm_world ?d6\<rparr>)"
      using h q by (auto simp: handle_inv_def daemon_inv_def quiet_def set_session_def intro: world_step_inv)
    ultimately show "handle_inv i ?d6 \<and> s_key (the_session i ?d6) = s_key (the_session i d) \<and>
       keeps_blocked (dm_table d) (dm_table ?d6) \<and> world_step (dm_world d) (dm_world ?d6)"
      by (simp add: safe_def handle_inv_def daemon_inv_def set_session_def the_session_def)
  qed
  show ?thesis
    unfolding try_block_def Let_def case_prod_beta
    using good safe_trans [OF bad quiet_safe [OF quiet_log]] by simp
qed

subsection \<open>A whole message\<close>

text \<open>What every handler keeps: the invariant, the blocked sessions, the database's history.\<close>

definition sound_step :: "daemon \<Rightarrow> daemon \<Rightarrow> bool" where
  "sound_step d d' \<longleftrightarrow> (daemon_inv d \<longrightarrow> daemon_inv d' \<and> keeps_blocked (dm_table d) (dm_table d') \<and>
     world_step (dm_world d) (dm_world d'))"

lemma sound_refl [simp, intro]: "sound_step d d"
  by (simp add: sound_step_def)

lemma sound_trans: "sound_step a b \<Longrightarrow> sound_step b c \<Longrightarrow> sound_step a c"
  by (auto simp: sound_step_def intro: keeps_blocked_trans world_step_trans)

lemma quiet_sound: "quiet d d' \<Longrightarrow> sound_step d d'"
  using quiet_inv [of d d'] by (auto simp: sound_step_def quiet_def)

lemma skey_short: "length (rguard_make_session_key SESSION_KEY_LEN u ip) < SESSION_KEY_LEN"
  using length_snprintf_s [of 128]
  by (auto simp: rguard_make_session_key_def SESSION_KEY_LEN_def split: option.splits)

lemma find_session_effect:
  assumes inv: "daemon_inv d" and key: "length skey < SESSION_KEY_LEN"
    and f: "find_session skey d = (idx, d')"
  shows "sound_step d d' \<and> (\<forall>i. idx = Some i \<longrightarrow>
    handle_inv i d' \<and> session_lookup (dm_table d') skey = Some (the_session i d'))"
proof -
  obtain t' lg where a: "session_find_or_create (dm_table d) skey (now (dm_world d)) = (idx, t', lg)"
    and d': "dm_table d' = t'" "dm_policy d' = dm_policy d" "w_db (dm_world d') = w_db (dm_world d)"
      "w_answers (dm_world d') = w_answers (dm_world d)" "w_clock (dm_world d') = w_clock (dm_world d)"
    using f by (cases "session_find_or_create (dm_table d) skey (now (dm_world d))")
      (auto simp: find_session_def Let_def)
  have t: "table_inv (dm_table d)" using inv by (simp add: daemon_inv_def)
  have inv': "daemon_inv d'"
    using inv d' st.acquire_inv [OF t key a] by (simp add: daemon_inv_def)
  have "keeps_blocked (dm_table d) (dm_table d')"
    using st.acquire_keeps_blocked [OF t key a] by (auto simp: keeps_blocked_def d')
  moreover have "handle_inv i d' \<and> session_lookup (dm_table d') skey = Some (the_session i d')"
    if "idx = Some i" for i
    using st.acquire_handle [OF t key, of _ i t' lg] a inv' that by (simp add: handle_inv_def the_session_def d')
  ultimately show ?thesis
    using inv' d' by (simp add: sound_step_def)
qed

text \<open>A handler that looks its session up first is sound if it is safe on the session.\<close>

lemma sound_session:
  assumes "length skey < SESSION_KEY_LEN" and "\<And>i d'. safe i d' (h i d')"
  shows "sound_step d (with_session skey h d)"
proof (cases "daemon_inv d")
  case True
  obtain idx d' where f: "find_session skey d = (idx, d')" by fastforce
  note e = find_session_effect [OF True assms(1) f]
  show ?thesis
  proof (cases idx)
    case (Some i)
    with e assms(2) [of i d'] have "sound_step d d'" "sound_step d' (h i d')"
      by (auto simp: sound_step_def safe_def handle_inv_def)
    from sound_trans [OF this] show ?thesis by (simp add: with_session_def f Some)
  qed (use e f in \<open>simp add: with_session_def\<close>)
qed (simp add: sound_step_def)

lemma safe_blacklist_event: "safe i d (blacklist_event msg skey status i d)"
proof -
  have "quiet (give_event_id i d) (upsert_d row (snd (stamp (give_event_id i d))))" for row
    by (rule quiet_trans [OF quiet_stamp quiet_upsert])
  from safe_trans [OF safe_give_id quiet_safe [OF this]] show ?thesis
    by (simp add: blacklist_event_def case_prod_beta del: quiet_frames)
qed

lemma safe_blacklist_session: "safe i d (blacklist_session msg skey status i d)"
  using safe_trans [OF safe_blacklist_event safe_try_block] blocked_give_id
  by (simp add: blacklist_session_def blacklist_event_def case_prod_beta split: if_splits)

lemma sound_vfs: "length skey < SESSION_KEY_LEN \<Longrightarrow> sound_step d (vfs_blocked msg skey d)"
  unfolding vfs_blocked_def
  by (rule sound_trans [OF quiet_sound [OF quiet_log] sound_session [OF _ safe_vfs_event]])

lemma sound_blacklist: "length skey < SESSION_KEY_LEN \<Longrightarrow> sound_step d (blacklist_block msg skey d)"
  unfolding blacklist_block_def Let_def
  by (rule sound_trans [OF quiet_sound [OF quiet_log] sound_session [OF _ safe_blacklist_session]])

text \<open>The gates either log and stop, or hand the unchanged state on.\<close>

lemmas gate_defs = protection_gate_def extension_gate_def exception_gate_def whitelist_gate_def
  blacklist_gate_def

definition only_logs :: "string \<Rightarrow> daemon \<Rightarrow> daemon + daemon \<Rightarrow> bool" where
  "only_logs skey d r \<longleftrightarrow> (\<exists>ev det. r = Inl (log_d LOG_DEBUG ev (Some skey) det d))"

lemma only_logsI [simp, intro]: "only_logs skey d (Inl (log_d LOG_DEBUG ev (Some skey) det d))"
  unfolding only_logs_def by blast

lemma only_logs_Inr: "\<not> only_logs skey d (Inr e)"
  by (simp add: only_logs_def)

lemma run_gates_out:
  assumes "\<And>g. g \<in> set gs \<Longrightarrow> g d = Inr d \<or> only_logs skey d (g d) \<or> g d = Inl e"
  shows "run_gates gs d = Inr d \<or> only_logs skey d (run_gates gs d) \<or> run_gates gs d = Inl e"
  using assms
proof (induction gs)
  case (Cons g gs)
  have "run_gates gs d = Inr d \<or> only_logs skey d (run_gates gs d) \<or> run_gates gs d = Inl e"
    by (rule Cons.IH) (rule Cons.prems, simp)
  with Cons.prems [OF list.set_intros(1)] show ?case
    by (cases "g d") (auto simp: only_logs_Inr)
qed simp

lemma gates_out:
  "run_gates (gates msg skey) d = Inr d \<or> only_logs skey d (run_gates (gates msg skey) d) \<or>
    run_gates (gates msg skey) d = Inl (blacklist_block msg skey d)"
  by (rule run_gates_out) (auto simp: gates_def gate_defs Let_def case_prod_beta)

lemma only_logs_sound: "only_logs skey d (Inl d') \<Longrightarrow> sound_step d d'"
  by (auto simp: only_logs_def intro: quiet_sound)

lemma sound_process:
  assumes "length (m_client_ip msg) < RGUARD_IP_LEN"
  shows "sound_step d (process_msg env msg d)"
proof -
  let ?k = "rguard_make_session_key SESSION_KEY_LEN (Some (m_username msg)) (Some (m_client_ip msg))"
  let ?r = "receive_log msg ?k d"
  have key: "length ?k < SESSION_KEY_LEN" by (rule skey_short)
  have log: "sound_step d ?r" by (rule quiet_sound) simp
  have "sound_step ?r (case run_gates (gates msg ?k) ?r of
      Inl d \<Rightarrow> d | Inr d \<Rightarrow> with_session ?k (assess env msg ?k) d)"
    using gates_out [of msg ?k ?r] sound_blacklist [OF key] sound_session [OF key safe_assess [OF assms]]
    by (auto simp: only_logs_def intro: quiet_sound)
  from sound_trans [OF log this] show ?thesis
    using sound_vfs [OF key] by (simp add: process_msg_def Let_def)
qed

lemma sound_datagram: "sound_step (snd st) (snd (receive_datagram env bytes st))"
proof -
  have "length (m_client_ip (msg_decode (terminate_fields bytes))) < RGUARD_IP_LEN"
    if "length bytes = RGUARD_MSG_SIZE"
    using wire_string_fits [OF decode_terminated [OF that]] by (simp add: msg_fits_def RGUARD_IP_LEN_def)
  from sound_process [OF this] show ?thesis
    by (auto simp: receive_datagram_def case_prod_beta Let_def intro: quiet_sound)
qed

end
