(* ===== verification/Daemon_Outcomes.thy ===== *)
theory Daemon_Outcomes
  imports Daemon_Props
begin

text \<open>
  What a message comes to: nothing but log lines when a gate stops it, a block when its session
  is critical or its client blacklisted; and what any run of messages keeps.
\<close>

subsection \<open>Any run of datagrams\<close>

fun receive_all :: "(daemon_env \<times> string) list \<Rightarrow> bool \<times> daemon \<Rightarrow> bool \<times> daemon" where
  "receive_all [] st = st"
| "receive_all ((env, bytes) # ms) st = receive_all ms (receive_datagram env bytes st)"

lemma sound_all: "sound_step (snd st) (snd (receive_all ms st))"
  by (induction ms st rule: receive_all.induct) (auto intro: sound_trans [OF sound_datagram])

text \<open>A daemon that has just started, with the default policy, in a world where every call succeeds.\<close>

definition sample_daemon :: daemon where
  "sample_daemon = \<lparr>dm_table = session_table_init, dm_policy = apply_defaults, dm_seq = 0, dm_anchor = 0,
     dm_world = quiet_world, dm_pids = [], dm_engine = yara_engine0\<rparr>"

definition sample_env :: daemon_env where
  "sample_env = \<lparr>de_config_path = None, de_readable = (\<lambda>_. False), de_stat = (\<lambda>_. None),
     de_writable = (\<lambda>_. False), de_parse = (\<lambda>_. None), de_print = (\<lambda>_. None),
     de_persist = \<lparr>po_fopen = True, po_write = True, po_fclose = True, po_rename = True\<rparr>,
     de_fork = Some 42, de_yara = sample_yara_env, de_regular = (\<lambda>_. False), de_reads = []\<rparr>"

lemma apply_defaults_sound [simp]: "mirrors_ok apply_defaults" "auto_inv apply_defaults"
  by (simp_all add: mirrors_ok_def auto_inv_def apply_defaults_def hash_mirror_def)

lemma sample_daemon_inv: "daemon_inv sample_daemon"
  by (simp add: daemon_inv_def sample_daemon_def session_init_inv quiet_world_def db_inv_def db_empty_def)

text \<open>
  Whatever arrives on the event socket, of any length and content and under any answers of
  the system, the daemon keeps its session table, policy and database well formed, changes the
  database only by its statements, and every session that was blocked stays in the table,
  blocked.
\<close>

theorem daemon_history:
  assumes "daemon_inv d" and "receive_all ms (logged, d) = (logged', d')"
  shows "daemon_inv d' \<and> db_step\<^sup>*\<^sup>* (w_db (dm_world d)) (w_db (dm_world d')) \<and>
    (\<forall>k s. session_lookup (dm_table d) k = Some s \<and> s_blocked s \<longrightarrow>
       (\<exists>s'. session_lookup (dm_table d') k = Some s' \<and> s_blocked s'))"
  using sound_all [of "(logged, d)" ms] assms
  by (auto simp: sound_step_def keeps_blocked_def world_step_def)

theorem daemon_history_witness:
  "daemon_inv (snd (receive_all [(sample_env, msg_encode sample_msg), (sample_env, ''junk'')]
     (False, sample_daemon)))"
  using daemon_history [OF sample_daemon_inv surjective_pairing] by blast

subsection \<open>A message the gates stop\<close>

text \<open>The reasons for which a message is let pass without assessment.\<close>

definition exempt :: "rguard_policy \<Rightarrow> event_msg \<Rightarrow> bool" where
  "exempt p msg \<longleftrightarrow>
     \<not> pr_enabled (p_protection p) \<or> \<not> fst (channel_switch p (m_source_type msg)) \<or>
     (\<not> fe_all (p_file_ext p) \<and> m_file_path msg \<noteq> [] \<and> \<not> ext_matches (p_file_ext p) (m_file_path msg)) \<or>
     scorer_is_excepted p (m_file_path msg) \<or>
     scorer_is_whitelisted p (Some (m_username msg)) (Some (m_client_ip msg))"

definition msg_key :: "event_msg \<Rightarrow> string" where
  "msg_key msg = rguard_make_session_key SESSION_KEY_LEN (Some (m_username msg)) (Some (m_client_ip msg))"

lemma process_file_event:
  "m_msg_type msg \<noteq> RGUARD_MSG_VFS_BLOCKED \<Longrightarrow> process_msg env msg d =
     (case run_gates (gates msg (msg_key msg)) (receive_log msg (msg_key msg) d) of
        Inl d \<Rightarrow> d | Inr d \<Rightarrow> with_session (msg_key msg) (assess env msg (msg_key msg)) d)"
  unfolding process_msg_def msg_key_def Let_def by simp

lemma gates_cases:
  "only_logs k d (run_gates (gates msg k) d) \<and> exempt (dm_policy d) msg \<or>
   \<not> exempt (dm_policy d) msg \<and> run_gates (gates msg k) d =
     (if scorer_is_blacklisted (dm_policy d) (Some (m_username msg)) (Some (m_client_ip msg))
      then Inl (blacklist_block msg k d) else Inr d)"
  by (simp add: gates_def gate_defs exempt_def Let_def case_prod_beta)

lemma receive_log_policy [simp]:
  "dm_policy (receive_log msg k d) = dm_policy d" "dm_table (receive_log msg k d) = dm_table d"
  by (simp_all add: receive_log_def)

lemma log_twice:
  "\<exists>calls. length calls = 2 \<and> log_d l1 e1 k1 t1 (log_d l2 e2 k2 t2 d) =
     d\<lparr>dm_world := (dm_world d)\<lparr>w_log := w_log (dm_world d) @ calls\<rparr>\<rparr>"
  by (rule exI [of _ "[log_call l2 e2 k2 t2, log_call l1 e1 k1 t1]"])
    (simp add: log_d_def on_world_def write_log_def)

text \<open>
  A message the policy exempts (protection or its channel switched off, an extension that
  is not watched, an excepted path, a whitelisted user or client) changes nothing but the log:
  exactly two lines are written, and no session, event, backup record, policy entry or file is
  touched. The whitelist wins over the blacklist.
\<close>

theorem exempt_message_only_logs:
  assumes "m_msg_type msg \<noteq> RGUARD_MSG_VFS_BLOCKED" and "exempt (dm_policy d) msg"
  shows "\<exists>calls. length calls = 2 \<and>
    process_msg env msg d = d\<lparr>dm_world := (dm_world d)\<lparr>w_log := w_log (dm_world d) @ calls\<rparr>\<rparr>"
proof -
  have "only_logs (msg_key msg) (receive_log msg (msg_key msg) d)
      (run_gates (gates msg (msg_key msg)) (receive_log msg (msg_key msg) d))"
    using gates_cases [of "msg_key msg" "receive_log msg (msg_key msg) d" msg] assms(2) by simp
  then obtain ev det where "run_gates (gates msg (msg_key msg)) (receive_log msg (msg_key msg) d) =
      Inl (log_d LOG_DEBUG ev (Some (msg_key msg)) det (receive_log msg (msg_key msg) d))"
    unfolding only_logs_def by blast
  with process_file_event [OF assms(1), of env d]
  have "process_msg env msg d = log_d LOG_DEBUG ev (Some (msg_key msg)) det (receive_log msg (msg_key msg) d)"
    by simp
  then show ?thesis
    unfolding receive_log_def by (simp only: log_twice)
qed

theorem exempt_message_only_logs_witness:
  "\<exists>calls. length calls = 2 \<and> process_msg sample_env sample_msg
       (sample_daemon\<lparr>dm_policy := apply_defaults\<lparr>p_protection := (p_protection apply_defaults)\<lparr>pr_smb := False\<rparr>\<rparr>\<rparr>) =
     sample_daemon\<lparr>dm_policy := apply_defaults\<lparr>p_protection := (p_protection apply_defaults)\<lparr>pr_smb := False\<rparr>\<rparr>,
       dm_world := quiet_world\<lparr>w_log := w_log quiet_world @ calls\<rparr>\<rparr>"
  using exempt_message_only_logs [of sample_msg "sample_daemon\<lparr>dm_policy := apply_defaults\<lparr>p_protection :=
      (p_protection apply_defaults)\<lparr>pr_smb := False\<rparr>\<rparr>\<rparr>" sample_env]
  by (simp add: exempt_def channel_switch_def sample_msg_def sample_daemon_def source_defs
      RGUARD_MSG_VFS_BLOCKED_def RGUARD_MSG_FILE_EVENT_def)

subsection \<open>A critical session\<close>

lemma handle_lookup:
  "handle_inv i d \<Longrightarrow> session_lookup (dm_table d) (s_key (the_session i d)) = Some (the_session i d)"
  using lookup_at [of "dm_table d" i]
  by (simp add: handle_inv_def daemon_inv_def valid_handle_def the_session_def session_at_def)

text \<open>A safe handler leaves its session under the key it was found by.\<close>

lemma safe_lookup:
  assumes "safe i d d'" and "handle_inv i d" and "session_lookup (dm_table d) k = Some (the_session i d)"
  shows "session_lookup (dm_table d') k = Some (the_session i d')"
proof -
  have "s_key (the_session i d) = k" using st.lookup_key [OF assms(3)] by simp
  then show ?thesis
    using assms(1,2) handle_lookup [of i d'] by (simp add: safe_def)
qed

lemma auto_add_member:
  assumes "auto_inv p" and "length ip < RGUARD_IP_LEN" and "is_real_ip ip"
  shows "ip \<in> b_ip ` set (bl_ips (p_blacklist (scorer_blacklist_auto_add p ip)) @
    bl_auto_ips (p_blacklist (scorer_blacklist_auto_add p ip)))"
proof (cases "ip \<in> b_ip ` set (bl_ips (p_blacklist p)) \<or> ip \<in> b_ip ` set (bl_auto_ips (p_blacklist p))")
  case True
  then show ?thesis by (auto simp: auto_add_known)
next
  case False
  then show ?thesis
    using assms by (simp add: auto_add_new auto_inv_def)
qed

lemma real_ip_entry: "is_real_ip ip \<Longrightarrow> plain_entry ip"
proof -
  have "\<not> ip_char CHR ''/''" "\<not> ip_char CHR ''-''"
    by (simp_all add: ip_char_def xdigit_val_def)
  moreover assume "is_real_ip ip"
  ultimately show ?thesis
    using real_ip_chars [of ip] by (auto simp: plain_entry_def strchr_None)
qed

lemma entry_is_line:
  assumes "ip \<in> set ls" and "newline \<notin> set ip"
  shows "ip \<in> set (lines_of (unlines ls))"
  using assms(1)
proof (induction ls)
  case (Cons x xs)
  have "lines_of (unlines (x # xs)) = lines_of (x @ [newline]) @ lines_of (unlines xs)"
    using lines_of_append_newline [of x "unlines xs"] by (simp add: unlines_def)
  with Cons assms(2) show ?case by (auto simp: lines_of_single)
qed simp

lemma restore_files [simp]: "w_files (dm_world (trigger_restore env i d)) = w_files (dm_world d)"
  by (auto simp: trigger_restore_def restore_trigger_auto_def case_prod_beta Let_def split: option.splits)

lemma blocked_path_short [simp]: "short_path BLOCKED_PATH"
  by (simp add: short_path_def BLOCKED_PATH_def RGUARD_PATH_MAX_def)

lemma quiet_world_step: "quiet d d' \<Longrightarrow> world_step (dm_world d) (dm_world d')"
  by (simp add: quiet_def)

lemma after_block_effect:
  fixes env :: daemon_env and skey det :: string
  assumes "handle_inv i d" and "length (m_client_ip msg) < RGUARD_IP_LEN"
    and "\<forall>n. good_io (w_answers (dm_world d) n)"
  defines "d' \<equiv> after_block env msg skey i det d"
  shows "s_blocked (the_session i d') \<and> the_session i d' = (the_session i d)\<lparr>s_blocked := True\<rparr> \<and>
    (is_real_ip (m_client_ip msg) \<longrightarrow>
      m_client_ip msg \<in> set (blocked_lines BLOCKED_PATH (dm_world d')) \<and>
      scorer_is_blacklisted (dm_policy d') None (Some (m_client_ip msg)))"
proof -
  let ?ip = "m_client_ip msg"
  let ?d1 = "set_session i ((the_session i d)\<lparr>s_blocked := True\<rparr>) d"
  let ?d2 = "log_d LOG_WARN ''BLOCK_EXECUTED'' (Some skey) det ?d1"
  let ?d3 = "?d2\<lparr>dm_policy := scorer_blacklist_auto_add (dm_policy ?d2) ?ip\<rparr>"
  let ?d4 = "persist_verdict env msg skey ?d3"
  let ?d5 = "on_world (blocker_sync_blacklist BLOCKED_PATH (p_blacklist (dm_policy ?d4))) ?d4"
  have d': "d' = trigger_restore env i ?d5"
    by (simp add: d'_def after_block_def Let_def)
  have t: "table_inv (dm_table d)" "valid_handle (dm_table d) i"
    and p: "mirrors_ok (dm_policy d)" "auto_inv (dm_policy d)"
    using assms(1) by (auto simp: handle_inv_def daemon_inv_def)
  have q4: "quiet ?d3 ?d4" and q: "quiet ?d3 d'"
    unfolding d' by (rule quiet_persist) (rule quiet_trans [OF quiet_persist quiet_trans [OF quiet_sync quiet_restore]])
  have pol: "dm_policy d' = scorer_blacklist_auto_add (dm_policy d) ?ip" "dm_policy ?d4 = dm_policy d'"
    using q q4 by (simp_all add: quiet_def set_session_def)
  have tab: "dm_table d' = session_put (dm_table d) i ((the_session i d)\<lparr>s_blocked := True\<rparr>)"
    using q by (simp add: quiet_def set_session_def)
  then have s': "the_session i d' = (the_session i d)\<lparr>s_blocked := True\<rparr>"
    using t by (simp add: the_session_def)
  have "w_answers (dm_world ?d4) = w_answers (dm_world d)"
    using q4 by (simp add: quiet_def world_step_def set_session_def log_d_def)
  then have "good_io (answers (dm_world ?d4))"
    using assms(3) by (simp add: answers_def)
  note sync = sync_good [OF blocked_path_short this, of "p_blacklist (dm_policy ?d4)"]
  let ?ls = "filter plain_entry (map b_ip (bl_ips (p_blacklist (dm_policy d')) @ bl_auto_ips (p_blacklist (dm_policy d'))))"
  have lines: "blocked_lines BLOCKED_PATH (dm_world d') = lines_of (unlines ?ls)"
    using sync pol(2) by (simp add: blocked_lines_def d')
  show ?thesis
  proof (intro conjI impI)
    assume ip: "is_real_ip ?ip"
    have "?ip \<in> set ?ls"
      using auto_add_member [OF p(2) assms(2) ip] real_ip_entry [OF ip] by (auto simp: pol)
    from entry_is_line [OF this real_ip_plain(1) [OF ip]]
    show "?ip \<in> set (blocked_lines BLOCKED_PATH (dm_world d'))" by (simp add: lines)
    show "scorer_is_blacklisted (dm_policy d') None (Some ?ip)"
      using auto_add_effect [OF p assms(2)] ip by (simp add: pol)
  qed (simp_all add: s')
qed

text \<open>Blocking does not touch the rating.\<close>

lemma block_step_level:
  assumes "handle_inv i d" and "length (m_client_ip msg) < RGUARD_IP_LEN"
    and "\<forall>n. good_io (w_answers (dm_world d) n)"
  shows "s_risk_level (the_session i (block_step env msg skey i d)) = s_risk_level (the_session i d)"
proof -
  let ?r = "run_blocker msg i ''blocked_ransom'' d"
  obtain det where eq: "block_step env msg skey i d =
     (if s_risk_level (the_session i d) = RISK_CRITICAL \<and> \<not> s_blocked (the_session i d) then
        (let (rc, d1) = ?r in
         if rc = 0 then after_block env msg skey i det d1
         else log_d LOG_ERROR ''BLOCK_FAILED'' (Some skey) ''{}'' d1)
      else d)"
    using block_step_eq by blast
  have q: "quiet d (snd ?r)" by simp
  have h: "handle_inv i (snd ?r)"
    using quiet_safe [OF q, of i] assms(1) by (simp add: safe_def)
  have "\<forall>n. good_io (w_answers (dm_world (snd ?r)) n)"
    using quiet_world_step [OF q] assms(3) by (simp add: world_step_def)
  from after_block_effect [OF h assms(2) this, of env skey det]
  have "s_risk_level (the_session i (after_block env msg skey i det (snd ?r))) = s_risk_level (the_session i (snd ?r))"
    by simp
  then show ?thesis
    unfolding eq case_prod_beta Let_def using quiet_session [OF q, of i] by simp
qed

lemma block_step_effect:
  assumes "handle_inv i d" and "length (m_client_ip msg) < RGUARD_IP_LEN"
    and "\<forall>n. good_io (w_answers (dm_world d) n)"
  shows "(s_blocked (the_session i (block_step env msg skey i d)) \<longleftrightarrow>
      s_blocked (the_session i d) \<or> s_risk_level (the_session i (block_step env msg skey i d)) = RISK_CRITICAL) \<and>
    (s_blocked (the_session i (block_step env msg skey i d)) \<and> \<not> s_blocked (the_session i d) \<and>
       is_real_ip (m_client_ip msg) \<longrightarrow>
      m_client_ip msg \<in> set (blocked_lines BLOCKED_PATH (dm_world (block_step env msg skey i d))) \<and>
      scorer_is_blacklisted (dm_policy (block_step env msg skey i d)) None (Some (m_client_ip msg)))"
proof -
  let ?r = "run_blocker msg i ''blocked_ransom'' d"
  obtain det where eq: "block_step env msg skey i d =
     (if s_risk_level (the_session i d) = RISK_CRITICAL \<and> \<not> s_blocked (the_session i d) then
        (let (rc, d1) = ?r in
         if rc = 0 then after_block env msg skey i det d1
         else log_d LOG_ERROR ''BLOCK_FAILED'' (Some skey) ''{}'' d1)
      else d)"
    using block_step_eq by blast
  have q: "quiet d (snd ?r)" by simp
  have ok: "fst ?r = 0"
    using block_ip_good [OF blocked_path_short, of "dm_world d"] assms(3)
    by (simp add: run_blocker_def case_prod_beta execute_files answers_def)
  have "handle_inv i (snd ?r)"
    using quiet_safe [OF q, of i] assms(1) by (simp add: safe_def)
  moreover have "\<forall>n. good_io (w_answers (dm_world (snd ?r)) n)"
    using quiet_world_step [OF q] assms(3) by (simp add: world_step_def)
  ultimately have eff: "s_blocked (the_session i (after_block env msg skey i det (snd ?r))) \<and>
    the_session i (after_block env msg skey i det (snd ?r)) = (the_session i (snd ?r))\<lparr>s_blocked := True\<rparr> \<and>
    (is_real_ip (m_client_ip msg) \<longrightarrow>
      m_client_ip msg \<in> set (blocked_lines BLOCKED_PATH (dm_world (after_block env msg skey i det (snd ?r)))) \<and>
      scorer_is_blacklisted (dm_policy (after_block env msg skey i det (snd ?r))) None (Some (m_client_ip msg)))"
    using after_block_effect [OF _ assms(2)] by blast
  show ?thesis
  proof (cases "s_risk_level (the_session i d) = RISK_CRITICAL \<and> \<not> s_blocked (the_session i d)")
    case True
    then have "block_step env msg skey i d = after_block env msg skey i det (snd ?r)"
      using eq ok by (simp add: case_prod_beta)
    with eff True quiet_session [OF q, of i] show ?thesis by simp
  next
    case False
    then have "block_step env msg skey i d = d" using eq by (simp only: if_False if_not_P)
    with False show ?thesis by auto
  qed
qed

subsection \<open>The session of a message\<close>

definition was_blocked :: "daemon \<Rightarrow> string \<Rightarrow> bool" where
  "was_blocked d k \<longleftrightarrow> (\<exists>s. session_lookup (dm_table d) k = Some s \<and> s_blocked s)"

lemma find_session_frame:
  "find_session k d = (r, d') \<Longrightarrow> dm_policy d' = dm_policy d \<and> w_files (dm_world d') = w_files (dm_world d) \<and>
    w_answers (dm_world d') = w_answers (dm_world d)"
  by (cases "session_find_or_create (dm_table d) k (now (dm_world d))") (auto simp: find_session_def Let_def)

lemma find_session_blocked:
  assumes inv: "daemon_inv d" and key: "length k < SESSION_KEY_LEN" and f: "find_session k d = (r, d')"
  shows "was_blocked d' k = was_blocked d k" and "r = None \<Longrightarrow> session_lookup (dm_table d') k = None"
proof -
  obtain lg where a: "session_find_or_create (dm_table d) k (now (dm_world d)) = (r, dm_table d', lg)"
    using f by (cases "session_find_or_create (dm_table d) k (now (dm_world d))")
      (auto simp: find_session_def Let_def)
  have t: "table_inv (dm_table d)" using inv by (simp add: daemon_inv_def)
  note spec = st.acquire_map [OF t key a]
  then show "was_blocked d' k = was_blocked d k"
    by (auto simp: was_blocked_def acquire_spec_def new_session_def session_zero_def split: option.splits if_splits)
  show "r = None \<Longrightarrow> session_lookup (dm_table d') k = None"
    using st.acquire_none [OF t key] a by blast
qed

lemma with_session_cases:
  assumes inv: "daemon_inv d" and key: "length k < SESSION_KEY_LEN" and safe: "\<And>i d'. safe i d' (h i d')"
  obtains (none) "session_lookup (dm_table (with_session k h d)) k = None"
      "w_files (dm_world (with_session k h d)) = w_files (dm_world d)"
  | (some) i d1 where "with_session k h d = h i d1" "handle_inv i d1"
      "s_blocked (the_session i d1) \<longleftrightarrow> was_blocked d k" "dm_policy d1 = dm_policy d"
      "w_files (dm_world d1) = w_files (dm_world d)" "w_answers (dm_world d1) = w_answers (dm_world d)"
      "session_lookup (dm_table (h i d1)) k = Some (the_session i (h i d1))"
proof -
  obtain r d1 where f: "find_session k d = (r, d1)" by fastforce
  note b = find_session_blocked [OF inv key f] and fr = find_session_frame [OF f]
    and e = find_session_effect [OF inv key f]
  show thesis
  proof (cases r)
    case None
    with f fr b(2) show thesis by (intro none) (simp_all add: with_session_def)
  next
    case (Some i)
    with e have h: "handle_inv i d1" and lk: "session_lookup (dm_table d1) k = Some (the_session i d1)" by auto
    note safe_lookup [OF safe [of i d1] h lk]
    moreover have "s_blocked (the_session i d1) \<longleftrightarrow> was_blocked d k"
      using b(1) lk by (simp add: was_blocked_def)
    ultimately show thesis
      using h fr Some f by (intro some [of i d1]) (simp_all add: with_session_def)
  qed
qed

lemma msg_key_short: "length (msg_key msg) < SESSION_KEY_LEN"
  by (simp add: msg_key_def skey_short)

lemma receive_log_frame [simp]:
  "w_files (dm_world (receive_log msg k d)) = w_files (dm_world d)"
  "w_answers (dm_world (receive_log msg k d)) = w_answers (dm_world d)"
  "daemon_inv (receive_log msg k d) = daemon_inv d" "was_blocked (receive_log msg k d) k = was_blocked d k"
  by (simp_all add: receive_log_def log_d_def daemon_inv_def was_blocked_def on_world_def)

lemma sample_room: "\<not> table_full (dm_table sample_daemon)"
  by (simp add: sample_daemon_def table_full_def session_table_init_def session_zero_def session_limits)

lemma critical_session_effect:
  assumes "daemon_inv d" and "length (m_client_ip msg) < RGUARD_IP_LEN"
    and "\<forall>n. good_io (w_answers (dm_world d) n)"
    and "m_msg_type msg \<noteq> RGUARD_MSG_VFS_BLOCKED" and "\<not> exempt (dm_policy d) msg"
    and "\<not> scorer_is_blacklisted (dm_policy d) (Some (m_username msg)) (Some (m_client_ip msg))"
    and "session_lookup (dm_table (process_msg env msg d)) (msg_key msg) = Some s"
  shows "(s_blocked s \<longleftrightarrow> was_blocked d (msg_key msg) \<or> s_risk_level s = RISK_CRITICAL) \<and>
    (s_blocked s \<and> \<not> was_blocked d (msg_key msg) \<and> is_real_ip (m_client_ip msg) \<longrightarrow>
       m_client_ip msg \<in> set (blocked_lines BLOCKED_PATH (dm_world (process_msg env msg d))) \<and>
       scorer_is_blacklisted (dm_policy (process_msg env msg d)) None (Some (m_client_ip msg)))"
proof -
  let ?k = "msg_key msg"
  let ?d = "receive_log msg ?k d"
  let ?h = "assess env msg ?k"
  have inv: "daemon_inv ?d" using assms(1) by simp
  have "run_gates (gates msg ?k) ?d = Inr ?d"
    using gates_cases [of ?k ?d msg] assms(5,6) by simp
  then have eq: "process_msg env msg d = with_session ?k ?h ?d"
    by (simp add: process_file_event [OF assms(4)])
  show ?thesis
    using inv msg_key_short [of msg] safe_assess [OF assms(2)]
  proof (cases rule: with_session_cases [where h = ?h])
    case none
    with assms(7) eq show ?thesis by simp
  next
    case (some i d1)
    let ?e = "rate_session env msg ?k i d1"
    have re: "safe i d1 ?e" "s_blocked (the_session i ?e) = s_blocked (the_session i d1)"
      using rate_effect [of i d1 env msg ?k] by auto
    have h: "handle_inv i ?e" using re(1) some(2) by (simp add: safe_def)
    have "w_answers (dm_world ?e) = w_answers (dm_world d)"
      using re(1) some(2,6) by (simp add: safe_def world_step_def)
    then have io: "\<forall>n. good_io (w_answers (dm_world ?e) n)" using assms(3) by simp
    have fin: "process_msg env msg d = block_step env msg ?k i ?e"
      using eq some(1) by (simp add: assess_def)
    have s: "s = the_session i (block_step env msg ?k i ?e)"
      using assms(7) some(7) fin by (simp add: assess_def)
    show ?thesis
      using block_step_effect [OF h assms(2) io, of env ?k] 
      unfolding fin s re(2) some(3) receive_log_frame(4) .
  qed
qed

text \<open>
  C6: A critical session does not stay unblocked: when the system calls succeed, then after any
  message that is assessed the session is blocked exactly when it was before or its risk is now
  critical; and when the message is the one that blocks it and the client has a real address,
  that address is in the blocked file the deny decisions are taken from and on the blacklist of
  the policy.
\<close>

theorem critical_session_blocked:
  assumes "daemon_inv d" and "length (m_client_ip msg) < RGUARD_IP_LEN"
    and "\<forall>n. good_io (w_answers (dm_world d) n)"
    and "m_msg_type msg \<noteq> RGUARD_MSG_VFS_BLOCKED" and "\<not> exempt (dm_policy d) msg"
    and "\<not> scorer_is_blacklisted (dm_policy d) (Some (m_username msg)) (Some (m_client_ip msg))"
    and "session_lookup (dm_table (process_msg env msg d)) (msg_key msg) = Some s"
  shows "(s_blocked s \<longleftrightarrow> was_blocked d (msg_key msg) \<or> s_risk_level s = RISK_CRITICAL) \<and>
    (s_blocked s \<and> \<not> was_blocked d (msg_key msg) \<and> is_real_ip (m_client_ip msg) \<longrightarrow>
       m_client_ip msg \<in> set (blocked_lines BLOCKED_PATH (dm_world (process_msg env msg d))) \<and>
       scorer_is_blacklisted (dm_policy (process_msg env msg d)) None (Some (m_client_ip msg)))"
  using assms by (rule critical_session_effect)

lemma sample_policy_facts:
  "\<not> exempt apply_defaults sample_msg" "\<not> scorer_is_blacklisted apply_defaults (Some u) (Some ip)"
  by (simp_all add: exempt_def channel_switch_def whitelisted_iff excepted_iff blacklisted_iff
      whitelist_spec_def exception_spec_def blacklist_spec_def)
    (simp_all add: apply_defaults_def sample_msg_def source_defs)

text \<open>With room in the table the session of an assessed message exists afterwards.\<close>

lemma find_session_room:
  assumes inv: "daemon_inv d" and room: "\<not> table_full (dm_table d)" and key: "length k < SESSION_KEY_LEN"
  obtains i d1 where "find_session k d = (Some i, d1)"
proof -
  obtain r d1 where f: "find_session k d = (r, d1)" by fastforce
  obtain lg where a: "session_find_or_create (dm_table d) k (now (dm_world d)) = (r, dm_table d1, lg)"
    using f by (cases "session_find_or_create (dm_table d) k (now (dm_world d))")
      (auto simp: find_session_def Let_def)
  have t: "table_inv (dm_table d)" using inv by (simp add: daemon_inv_def)
  have "session_lookup (dm_table d1) k \<noteq> None"
    using st.acquire_map [OF t key a] room by (auto simp: acquire_spec_def split: option.splits)
  with find_session_blocked(2) [OF inv key f] obtain i where "r = Some i" by auto
  with f that show thesis by simp
qed

lemma session_exists:
  assumes inv: "daemon_inv d" and room: "\<not> table_full (dm_table d)" and key: "length k < SESSION_KEY_LEN"
    and safe: "\<And>i d'. safe i d' (h i d')"
  shows "\<exists>s. session_lookup (dm_table (with_session k h d)) k = Some s"
proof -
  obtain i d1 where f: "find_session k d = (Some i, d1)" by (rule find_session_room [OF inv room key])
  with find_session_effect [OF inv key f] safe_lookup [OF safe [of i d1]] show ?thesis
    by (auto simp: with_session_def)
qed

theorem critical_session_blocked_witness:
  "\<exists>s. session_lookup (dm_table (process_msg sample_env sample_msg sample_daemon)) (msg_key sample_msg) = Some s \<and>
     (s_blocked s \<longleftrightarrow> s_risk_level s = RISK_CRITICAL)"
proof -
  let ?d = "receive_log sample_msg (msg_key sample_msg) sample_daemon"
  have fields: "dm_policy sample_daemon = apply_defaults" "dm_world sample_daemon = quiet_world"
    "dm_table sample_daemon = session_table_init" by (simp_all add: sample_daemon_def)
  have file_event: "m_msg_type sample_msg \<noteq> RGUARD_MSG_VFS_BLOCKED"
    by (simp add: sample_msg_def RGUARD_MSG_VFS_BLOCKED_def RGUARD_MSG_FILE_EVENT_def)
  have len: "length (m_client_ip sample_msg) < RGUARD_IP_LEN" by (simp add: sample_msg_def RGUARD_IP_LEN_def)
  have io: "\<forall>n. good_io (w_answers (dm_world sample_daemon) n)" by (simp add: fields quiet_world_def)
  have ne: "\<not> exempt (dm_policy sample_daemon) sample_msg"
    "\<not> scorer_is_blacklisted (dm_policy sample_daemon) (Some (m_username sample_msg)) (Some (m_client_ip sample_msg))"
    by (simp_all add: fields sample_policy_facts)
  have "run_gates (gates sample_msg (msg_key sample_msg)) ?d = Inr ?d"
    using gates_cases [of "msg_key sample_msg" ?d sample_msg] ne by simp
  then have run: "process_msg sample_env sample_msg sample_daemon =
      with_session (msg_key sample_msg) (assess sample_env sample_msg (msg_key sample_msg)) ?d"
    by (simp add: process_file_event [OF file_event])
  have room: "\<not> table_full (dm_table ?d)" using sample_room by simp
  have inv: "daemon_inv ?d" by (simp add: sample_daemon_inv)
  have "\<exists>s. session_lookup (dm_table (process_msg sample_env sample_msg sample_daemon)) (msg_key sample_msg) = Some s"
    unfolding run by (rule session_exists [OF inv room msg_key_short safe_assess [OF len]])
  then obtain s where s: "session_lookup (dm_table (process_msg sample_env sample_msg sample_daemon))
      (msg_key sample_msg) = Some s" ..
  have nb: "\<not> was_blocked sample_daemon (msg_key sample_msg)"
    by (simp add: was_blocked_def fields session_init_empty)
  have "s_blocked s \<longleftrightarrow> was_blocked sample_daemon (msg_key sample_msg) \<or> s_risk_level s = RISK_CRITICAL"
    by (rule critical_session_blocked [OF sample_daemon_inv len io file_event ne s, THEN conjunct1])
  with nb have "s_blocked s \<longleftrightarrow> s_risk_level s = RISK_CRITICAL" by (simp only: simp_thms)
  with s show ?thesis by (intro exI conjI)
qed

subsection \<open>A blacklisted client\<close>

text \<open>Whether the message names a channel whose clients have an address.\<close>

definition addressed :: "event_msg \<Rightarrow> bool" where
  "addressed msg \<longleftrightarrow> m_source_type msg = RGUARD_SOURCE_SMB \<or> m_source_type msg = RGUARD_SOURCE_FTP"

lemma block_address_eq: "block_address msg = (if addressed msg then Some (m_client_ip msg) else None)"
  by (simp add: block_address_def addressed_def)

lemma give_id_files [simp]: "w_files (dm_world (give_event_id i d)) = w_files (dm_world d)"
  by (simp add: give_event_id_def make_event_id_def case_prod_beta Let_def set_session_def tick_clock_def)

lemma blacklist_event_files [simp]:
  "w_files (dm_world (blacklist_event msg k st i d)) = w_files (dm_world d)"
  "s_blocked (the_session i (blacklist_event msg k st i d)) = s_blocked (the_session i d)"
  by (simp_all add: blacklist_event_def case_prod_beta upsert_d_def stamp_def iso8601_now_def tick_clock_def
      the_session_def [of _ "_\<lparr>dm_world := _\<rparr>"] flip: the_session_def)

lemma try_block_effect:
  assumes "handle_inv i d" and "\<forall>n. good_io (w_answers (dm_world d) n)"
  shows "s_blocked (the_session i (try_block msg k st i d)) \<and>
    (if addressed msg \<and> is_real_ip (m_client_ip msg)
     then sane_reads (dm_world d) \<longrightarrow>
       m_client_ip msg \<in> set (blocked_lines BLOCKED_PATH (dm_world (try_block msg k st i d)))
     else w_files (dm_world (try_block msg k st i d)) = w_files (dm_world d))"
proof -
  let ?d4 = "set_session i ((the_session i d)\<lparr>s_blocked := True\<rparr>) d"
  let ?r = "run_blocker msg i st ?d4"
  have w4: "dm_world ?d4 = dm_world d" by (simp add: set_session_def)
  have q: "quiet ?d4 (snd ?r)" by simp
  have ok: "fst ?r = 0"
    using block_ip_good [OF blocked_path_short, of "dm_world d"] assms(2)
    by (simp add: run_blocker_def case_prod_beta execute_files answers_def w4)
  then have eq: "try_block msg k st i d = snd ?r"
    by (simp add: try_block_def case_prod_beta Let_def)
  have t: "table_inv (dm_table d)" "valid_handle (dm_table d) i"
    using assms(1) by (auto simp: handle_inv_def daemon_inv_def)
  have "the_session i (snd ?r) = (the_session i d)\<lparr>s_blocked := True\<rparr>"
    using quiet_session [OF q, of i] t by (simp add: set_session_def the_session_def)
  moreover have "m_client_ip msg \<in> set (blocked_lines BLOCKED_PATH (dm_world (snd ?r)))"
    if "addressed msg" and ip: "is_real_ip (m_client_ip msg)" and "sane_reads (dm_world d)"
  proof -
    have "fst (block_ip BLOCKED_PATH (m_client_ip msg) (dm_world d))"
      using block_ip_good [OF blocked_path_short] assms(2) by (simp add: answers_def)
    with block_ip_effect(1) [OF blocked_path_short that(3) real_ip_plain(1) [OF ip]] that
    show ?thesis
      by (simp add: run_blocker_def case_prod_beta block_address_eq blocked_lines_def execute_files
          valid_real_ip w4 split: if_splits)
  qed
  moreover have "w_files (dm_world (snd ?r)) = w_files (dm_world d)"
    if "\<not> (addressed msg \<and> is_real_ip (m_client_ip msg))"
    using that by (auto simp: run_blocker_def case_prod_beta block_address_eq execute_files valid_real_ip w4
        valid_client_ip_def)
  ultimately show ?thesis by (simp add: eq)
qed

text \<open>
  A blacklisted client is blocked at its next message: its session, if the table has room for
  it, is marked blocked, and for an SMB or FTP session with a real address the address is in the
  blocked file, while for every other source, a source type of 0 from an old VFS module
  included, no file changes although the session counts as blocked from then on.
\<close>

theorem blacklisted_client_outcome:
  assumes "daemon_inv d" and "sane_reads (dm_world d)" and "\<forall>n. good_io (w_answers (dm_world d) n)"
    and "m_msg_type msg \<noteq> RGUARD_MSG_VFS_BLOCKED" and "\<not> exempt (dm_policy d) msg"
    and "scorer_is_blacklisted (dm_policy d) (Some (m_username msg)) (Some (m_client_ip msg))"
    and "process_msg env msg d = d'"
  shows "(\<forall>s. session_lookup (dm_table d') (msg_key msg) = Some s \<longrightarrow> s_blocked s) \<and>
    (if addressed msg \<and> is_real_ip (m_client_ip msg) \<and> \<not> was_blocked d (msg_key msg)
     then session_lookup (dm_table d') (msg_key msg) \<noteq> None \<longrightarrow>
       m_client_ip msg \<in> set (blocked_lines BLOCKED_PATH (dm_world d'))
     else w_files (dm_world d') = w_files (dm_world d))"
proof -
  let ?k = "msg_key msg"
  let ?d = "receive_log msg ?k d"
  let ?st = "blacklist_status (dm_policy d) msg"
  let ?h = "blacklist_session msg ?k ?st"
  obtain det where run: "process_msg env msg d =
      with_session ?k ?h (log_d LOG_WARN ''BLACKLIST_BLOCK'' (Some ?k) det ?d)"
    using gates_cases [of ?k ?d msg] assms(5,6)
    by (simp add: process_file_event [OF assms(4)] blacklist_block_def Let_def)
  let ?d1 = "log_d LOG_WARN ''BLACKLIST_BLOCK'' (Some ?k) det ?d"
  have frame: "daemon_inv ?d1" "was_blocked ?d1 ?k = was_blocked d ?k"
    "w_files (dm_world ?d1) = w_files (dm_world d)" "w_answers (dm_world ?d1) = w_answers (dm_world d)"
    using assms(1) receive_log_frame [of msg ?k d]
    by (simp_all add: log_d_def daemon_inv_def was_blocked_def on_world_def)
  show ?thesis
    using frame(1) msg_key_short [of msg] safe_blacklist_session
  proof (cases rule: with_session_cases [where h = ?h])
    case none
    with assms(7) run frame(3) show ?thesis by simp
  next
    case (some i e)
    let ?e = "blacklist_event msg ?k ?st i e"
    have d': "d' = ?h i e" using run some(1) assms(7) by simp
    have lk: "session_lookup (dm_table d') ?k = Some (the_session i d')" using some(7) by (simp add: d')
    show ?thesis
    proof (cases "s_blocked (the_session i e)")
      case True
      then show ?thesis
        using some(3,5) frame d' lk by (simp add: blacklist_session_def)
    next
      case False
      have "safe i e ?e" by (rule safe_blacklist_event)
      then have h: "handle_inv i ?e" and w: "w_answers (dm_world ?e) = w_answers (dm_world d)"
        using some(2,6) frame(4) by (auto simp: safe_def world_step_def)
      have "\<forall>n. good_io (w_answers (dm_world ?e) n)" "sane_reads (dm_world ?e)"
        using w assms(2,3) by (simp_all add: sane_reads_def)
      with try_block_effect [OF h, of msg ?k ?st] show ?thesis
        using False some(3,5) frame d' lk by (auto simp: blacklist_session_def)
    qed
  qed
qed

definition listed_policy :: rguard_policy where
  "listed_policy = apply_defaults\<lparr>p_blacklist := (p_blacklist apply_defaults)
     \<lparr>bl_auto_ips := [\<lparr>b_ip = ''10.0.0.7'', b_auto_add = True\<rparr>]\<rparr>\<rparr>"

definition legacy_msg :: event_msg where
  "legacy_msg = sample_msg\<lparr>m_source_type := 0\<rparr>"

lemma listed_facts:
  "mirrors_ok listed_policy" "auto_inv listed_policy" "\<not> exempt listed_policy legacy_msg"
  "scorer_is_blacklisted listed_policy (Some (m_username legacy_msg)) (Some (m_client_ip legacy_msg))"
proof -
  show m: "mirrors_ok listed_policy"
    by (simp add: mirrors_ok_def listed_policy_def apply_defaults_def hash_mirror_def)
  show "auto_inv listed_policy"
    by (simp add: auto_inv_def listed_policy_def config_limits)
  show "\<not> exempt listed_policy legacy_msg"
    by (simp add: exempt_def channel_switch_def whitelisted_iff [OF m] excepted_iff [OF m]
        whitelist_spec_def exception_spec_def)
      (simp add: listed_policy_def apply_defaults_def legacy_msg_def sample_msg_def source_defs)
  show "scorer_is_blacklisted listed_policy (Some (m_username legacy_msg)) (Some (m_client_ip legacy_msg))"
    by (simp add: blacklisted_iff [OF m] blacklist_spec_def)
      (simp add: listed_policy_def legacy_msg_def sample_msg_def auto_matches_def)
qed

theorem blacklisted_client_outcome_witness:
  "w_files (dm_world (process_msg sample_env legacy_msg (sample_daemon\<lparr>dm_policy := listed_policy\<rparr>))) =
     w_files quiet_world"
proof -
  let ?d = "sample_daemon\<lparr>dm_policy := listed_policy\<rparr>"
  have fields: "dm_policy ?d = listed_policy" "dm_world ?d = quiet_world" by (simp_all add: sample_daemon_def)
  have inv: "daemon_inv ?d" using sample_daemon_inv listed_facts by (simp add: daemon_inv_def)
  have file_event: "m_msg_type legacy_msg \<noteq> RGUARD_MSG_VFS_BLOCKED"
    by (simp add: legacy_msg_def sample_msg_def RGUARD_MSG_VFS_BLOCKED_def RGUARD_MSG_FILE_EVENT_def)
  have na: "\<not> addressed legacy_msg" by (simp add: addressed_def legacy_msg_def source_defs)
  have io: "sane_reads (dm_world ?d)" "\<forall>n. good_io (w_answers (dm_world ?d) n)"
    unfolding fields by (simp_all add: quiet_world_def [THEN arg_cong [of _ _ w_answers]])
  have pol: "\<not> exempt (dm_policy ?d) legacy_msg"
    "scorer_is_blacklisted (dm_policy ?d) (Some (m_username legacy_msg)) (Some (m_client_ip legacy_msg))"
    unfolding fields by (rule listed_facts)+
  have "w_files (dm_world (process_msg sample_env legacy_msg ?d)) = w_files (dm_world ?d)"
    using blacklisted_client_outcome [OF inv io file_event pol refl, THEN conjunct2] na by (simp only: simp_thms if_False)
  then show ?thesis by (simp only: fields)
qed

end
