(* ===== verification/Daemon_Events.thy ===== *)
theory Daemon_Events
  imports Daemon_Outcomes
begin

text \<open>
  The event a session belongs to: what happens to it when the session's long window ends in the
  middle of a message, and when the ids of new events are new.
\<close>

subsection \<open>A session outliving its window\<close>

text \<open>Whether the long window of the session is over when the message is rated.\<close>

definition long_window_over :: "event_msg \<Rightarrow> nat \<Rightarrow> daemon \<Rightarrow> bool" where
  "long_window_over msg i d \<longleftrightarrow>
     s_window_30s (the_session i d) \<noteq> 0 \<and>
     now (dm_world d) - s_window_30s (the_session i d) \<ge> snd (windows (dm_policy d) msg)"

lemma event_id_frame [simp]:
  "s_event_id (session_update s op f h) = s_event_id s" "s_event_id (scorer_calculate s p) = s_event_id s"
  by (simp_all add: session_update_def session_op_counters_def dir_add_def scorer_calculate_def Let_def)

lemma rated_expired: "long_window_over msg i d \<Longrightarrow> s_event_id (rated msg i f d) = []"
  by (simp add: rated_def long_window_over_def case_prod_beta Let_def session_check_window_def)

lemma run_stmt_fate: "d_fate (snd (run_stmt f db)) = d_fate (f db) \<or> d_fate (snd (run_stmt f db)) = d_fate db"
  by (simp add: run_stmt_def tick_def)

lemma update_event_fate [simp]: "d_fate (snd (db_update_event db a b c d e f g)) = d_fate db"
  by (simp add: db_update_event_def run_stmt_def tick_def)

lemma insert_created_row:
  "stmt_ok db \<Longrightarrow> \<exists>n. d_created (snd (db_insert_created_file db eid path share user ip ts)) =
     d_created db @ [\<lparr>cf_id = n, cf_event_id = eid, cf_path = path, cf_share_name = share,
       cf_username = user, cf_client_ip = ip, cf_created_at = ts\<rparr>]"
  by (auto simp: db_insert_created_file_def run_stmt_def tick_def)

lemma score_step_fate [simp]: "d_fate (w_db (dm_world (score_step msg k i f d))) = d_fate (w_db (dm_world d))"
  by (simp add: score_step_def case_prod_beta Let_def log_d_def set_session_def)

lemma session_set [simp]: "handle_inv i d \<Longrightarrow> the_session i (set_session i s d) = s"
  by (simp add: handle_inv_def daemon_inv_def the_session_def set_session_def)

lemma handle_on_world [simp]:
  "w_db (f (dm_world d)) = w_db (dm_world d) \<Longrightarrow> handle_inv i (on_world f d) = handle_inv i d"
  by (simp add: handle_inv_def daemon_inv_def)

lemma score_step_session:
  "handle_inv i d \<Longrightarrow> the_session i (score_step msg k i f d) = rated msg i f d"
  using score_step_quiet [of i msg f d k] by (auto dest: quiet_session [of _ _ i])

text \<open>
  A file created by the message during which the long window of its session ends belongs to
  no event: the window check clears the session's event id after the event was opened and before
  the file is recorded, so the file is stored under the empty id, which no restore of an event
  ever asks for.
\<close>

theorem expired_window_orphans_file:
  assumes "handle_inv i d" and "long_window_over msg i d" and "\<forall>n. d_fate (w_db (dm_world d)) n"
    and "has_flag (m_flags msg) RGUARD_FLAG_NEW_FILE" and "m_file_path msg \<noteq> []"
    and "d' = created_step msg i (score_step msg k i f d)"
  shows "s_event_id (the_session i d') = [] \<and>
    (\<exists>row \<in> set (d_created (w_db (dm_world d'))). cf_event_id row = [] \<and> cf_path row = m_file_path msg)"
proof -
  let ?s = "score_step msg k i f d"
  have id: "s_event_id (the_session i ?s) = []"
    using score_step_session [OF assms(1)] rated_expired [OF assms(2)] by simp
  moreover have "the_session i d' = the_session i ?s"
    using quiet_session [OF quiet_created [of ?s msg i], of i] assms(6) by simp
  moreover have "stmt_ok (w_db (dm_world (snd (stamp ?s))))"
    using assms(3) by (simp add: stmt_ok_def stamp_def iso8601_now_def)
  from insert_created_row [OF this, of "[]" "m_file_path msg" "m_share_name msg" "m_username msg"
      "m_client_ip msg" "fst (stamp ?s)"] assms(4,5,6) id
  have "\<exists>row \<in> set (d_created (w_db (dm_world d'))). cf_event_id row = [] \<and> cf_path row = m_file_path msg"
    by (auto simp: created_step_def case_prod_beta)
  ultimately show ?thesis by simp
qed

definition new_file_msg :: event_msg where
  "new_file_msg = sample_msg\<lparr>m_flags := RGUARD_FLAG_NEW_FILE\<rparr>"

theorem expired_window_orphans_file_witness:
  "\<exists>i d. let d' = created_step new_file_msg i (score_step new_file_msg [] i 0 d) in
     s_event_id (the_session i d') = [] \<and>
     (\<exists>row \<in> set (d_created (w_db (dm_world d'))). cf_event_id row = [] \<and> cf_path row = ''/mnt/docs/a.txt'')"
proof -
  have key: "length ''eve@10.0.0.9'' < SESSION_KEY_LEN" by (simp add: session_limits)
  obtain i d1 where f: "find_session ''eve@10.0.0.9'' sample_daemon = (Some i, d1)"
    by (rule find_session_room [OF sample_daemon_inv sample_room key])
  have h1: "handle_inv i d1" using find_session_effect [OF sample_daemon_inv key f] by blast
  let ?d = "set_session i ((the_session i d1)\<lparr>s_window_30s := 1\<rparr>) d1"
  have "safe i d1 ?d" by (rule safe_set) simp_all
  then have h: "handle_inv i ?d" using h1 by (simp add: safe_def)
  obtain lg where w: "dm_world d1 = (tick_clock quiet_world)\<lparr>w_log := lg\<rparr>" and p: "dm_policy d1 = apply_defaults"
    using f by (cases "session_find_or_create (dm_table sample_daemon) ''eve@10.0.0.9'' (now (dm_world sample_daemon))")
      (auto simp: find_session_def Let_def sample_daemon_def)
  have "now (dm_world ?d) = 1001"
    by (simp add: set_session_def w now_def tick_clock_def quiet_world_def)
  moreover have "snd (windows (dm_policy ?d) new_file_msg) = 30"
    by (simp add: set_session_def p windows_def apply_defaults_def new_file_msg_def sample_msg_def source_defs)
  ultimately have over: "long_window_over new_file_msg i ?d"
    using h1 by (simp add: long_window_over_def)
  have fate: "\<forall>n. d_fate (w_db (dm_world ?d)) n"
    by (simp add: set_session_def w quiet_world_def db_empty_def)
  have flag: "has_flag (m_flags new_file_msg) RGUARD_FLAG_NEW_FILE" "m_file_path new_file_msg \<noteq> []"
    by (simp_all add: new_file_msg_def sample_msg_def has_flag_def flag_defs)
  have path: "m_file_path new_file_msg = ''/mnt/docs/a.txt''" by (simp add: new_file_msg_def sample_msg_def)
  show ?thesis
    unfolding Let_def using expired_window_orphans_file [OF h over fate flag refl, of "[]" 0] unfolding path by blast
qed

subsection \<open>Event ids\<close>

lemma cast_show_pad:
  assumes "0 \<le> v" and "v < 2 ^ 63"
  shows "cast_integer (show_pad w v) = v"
proof -
  have dec: "\<forall>c \<in> set (show_pad w v). \<exists>d. xdigit_val c = Some d \<and> d < 10"
    using show_nat_decimal [of "nat v"] assms(1) zero_digit by (auto simp: show_pad_def Let_def)
  have ne: "show_pad w v \<noteq> []" by (simp add: show_pad_def Let_def)
  then have hd: "hd (show_pad w v) \<in> set (show_pad w v)" by simp
  have sign: "\<not> is_space (hd (show_pad w v))" "hd (show_pad w v) \<noteq> CHR ''-''" "hd (show_pad w v) \<noteq> CHR ''+''"
    using bspec [OF dec hd] by (auto simp: is_space_def xdigit_val_def Let_def split: if_splits)
  have "dropWhile is_space (show_pad w v) = show_pad w v"
    using ne sign(1) by (cases "show_pad w v") auto
  moreover have "fst (scan_digits 10 0 (show_pad w v)) = nat v"
    using assms(1) by (simp add: show_pad_def Let_def scan_zeros scan_show_nat)
  ultimately show ?thesis
    using assms sign ne by (simp add: cast_integer_def Let_def)
qed

text \<open>The sequence numbers of a day's events in the database, and that the counter is past them.\<close>

definition day_seqs :: "database \<Rightarrow> string \<Rightarrow> int list" where
  "day_seqs db date =
     map (\<lambda>r. cast_integer (drop (length (''evt-'' @ date) + 1) (ev_event_id r)))
       (filter (\<lambda>r. like_prefix (''evt-'' @ date) (ev_event_id r)) (d_events db))"

definition today :: "daemon \<Rightarrow> string" where
  "today d = yyyymmdd (w_local (dm_world d) (now (dm_world d)))"

definition same_day :: "daemon \<Rightarrow> bool" where
  "same_day d \<longleftrightarrow>
     (let a = w_local (dm_world d) (dm_anchor d); b = w_local (dm_world d) (now (dm_world d))
      in tm_year a = tm_year b \<and> tm_yday a = tm_yday b)"

definition plain_date :: "string \<Rightarrow> bool" where
  "plain_date s \<longleftrightarrow> CHR ''%'' \<notin> set s \<and> CHR ''_'' \<notin> set s \<and> length s < 12"

lemma max_seq_eq:
  assumes "plain_date date" and "stmt_ok db" and "\<forall>v \<in> set (day_seqs db date). 0 \<le> v \<and> v < 2 ^ 31 - 1"
  shows "\<exists>m. fst (db_get_max_daily_seq db date) = (RGUARD_OK, Some m) \<and> 0 \<le> m \<and> m < 2 ^ 31 - 1 \<and>
    (\<forall>v \<in> set (day_seqs db date). v \<le> m)"
proof -
  let ?S = "day_seqs db date"
  let ?m = "if ?S = [] then 0 else signed_take_bit 31 (Max (set ?S))"
  have len: "snprintf_s 32 (''evt-'' @ date) = ''evt-'' @ date"
    using assms(1) by (simp add: plain_date_def)
  have q: "fst (db_get_max_daily_seq db date) = (RGUARD_OK, Some ?m)"
    using assms(1,2) len by (simp add: db_get_max_daily_seq_def plain_date_def day_seqs_def Let_def)
  show ?thesis
  proof (cases "?S = []")
    case False
    then have mx: "Max (set ?S) \<in> set ?S" by simp
    with assms(3) have "0 \<le> Max (set ?S)" "Max (set ?S) < 2 ^ 31" by auto
    then have "?m = Max (set ?S)"
      using False by (simp add: signed_take_bit_eq_if_positive signed_take_bit_int_eq_self_iff)
    with q False mx assms(3) show ?thesis by auto
  qed (use q in simp)
qed

text \<open>The counter is past every id of the day, unless a new day makes the daemon ask the database.\<close>

definition seq_known :: "daemon \<Rightarrow> bool" where
  "seq_known d \<longleftrightarrow> (same_day d \<longrightarrow> 0 \<le> dm_seq d \<and> (\<forall>v \<in> set (day_seqs (w_db (dm_world d)) (today d)). v \<le> dm_seq d))"

definition numbered_id :: "string \<Rightarrow> int \<Rightarrow> string" where
  "numbered_id date n = ''evt-'' @ date @ ''-'' @ show_pad 3 n"

lemma numbered_id_seq:
  assumes "0 \<le> n" and "n < 2 ^ 63" and "ev_event_id r = numbered_id date n" and "r \<in> set (d_events db)"
  shows "n \<in> set (day_seqs db date)"
proof -
  have "like_prefix (''evt-'' @ date) (ev_event_id r)"
    "drop (length (''evt-'' @ date) + 1) (ev_event_id r) = show_pad 3 n"
    by (simp_all add: assms(3) numbered_id_def like_prefix_def)
  with cast_show_pad [OF assms(1,2), of 3] assms(4) show ?thesis
    unfolding day_seqs_def by (auto intro!: image_eqI [of _ _ r])
qed

lemma make_event_id_eq:
  "make_event_id n d =
     (let d1 = on_world tick_clock d;
          (rq, db') = db_get_max_daily_seq (w_db (dm_world d)) (today d);
          base = (if same_day d then dm_seq d else case snd rq of Some v \<Rightarrow> v | None \<Rightarrow> 0);
          d2 = (if same_day d then d1
                else on_world (\<lambda>w. w\<lparr>w_db := db'\<rparr>) (d1\<lparr>dm_anchor := now (dm_world d)\<rparr>))
      in (snprintf_s n (numbered_id (today d) (base + 1)), d2\<lparr>dm_seq := base + 1\<rparr>))"
  by (auto simp: make_event_id_def same_day_def today_def numbered_id_def Let_def case_prod_beta on_world_def tick_clock_def)

lemma numbered_id_fits:
  assumes "plain_date date" and "0 \<le> n" and "n < 2 ^ 31"
  shows "snprintf_s EVENT_ID_LEN (numbered_id date n) = numbered_id date n"
proof -
  have "nat n < 10 ^ Suc 9" using assms(2,3) by simp
  from length_show_nat [OF this] assms(1,2) show ?thesis
    by (intro snprintf_s_id) (simp add: numbered_id_def show_pad_def Let_def plain_date_def EVENT_ID_LEN_def, arith)
qed

text \<open>
  A new event gets an id no event of the database has, as long as the question for the
  day's highest number succeeds and the numbers of the day stay below the range of int: on a
  new day and after a restart the counter is taken from the database, on the same day it goes
  on; and the counter is past every number of the day afterwards. When the question fails on a
  new day the failure is ignored and the first number of the day is given out, in use or not.
\<close>

theorem event_id_fresh:
  assumes "plain_date (today d)" and "seq_known d" and "same_day d \<longrightarrow> dm_seq d < 2 ^ 31 - 1"
    and "\<forall>v \<in> set (day_seqs (w_db (dm_world d)) (today d)). 0 \<le> v \<and> v < 2 ^ 31 - 1"
    and "make_event_id EVENT_ID_LEN d = (eid, d')"
  shows "if same_day d \<or> stmt_ok (w_db (dm_world d)) then
      eid = numbered_id (today d) (dm_seq d') \<and>
      eid \<notin> ev_event_id ` set (d_events (w_db (dm_world d))) \<and>
      (\<forall>v \<in> set (day_seqs (w_db (dm_world d)) (today d)). v < dm_seq d')
    else eid = numbered_id (today d) 1"
proof (cases "same_day d \<or> stmt_ok (w_db (dm_world d))")
  case True
  let ?db = "w_db (dm_world d)"
  obtain base where base: "dm_seq d' = base + 1" "eid = snprintf_s EVENT_ID_LEN (numbered_id (today d) (base + 1))"
    "0 \<le> base" "base < 2 ^ 31 - 1" "\<forall>v \<in> set (day_seqs ?db (today d)). v \<le> base"
  proof (cases "same_day d")
    case True
    with assms(2,3,5) that [of "dm_seq d"] show thesis
      by (auto simp: make_event_id_eq seq_known_def Let_def case_prod_beta)
  next
    case False
    with True max_seq_eq [OF assms(1) _ assms(4)] assms(5) that show thesis
      by (auto simp: make_event_id_eq Let_def case_prod_beta)
  qed
  have fits: "eid = numbered_id (today d) (base + 1)"
    using numbered_id_fits [OF assms(1), of "base + 1"] base(2,3,4) by simp
  have new: "eid \<notin> ev_event_id ` set (d_events ?db)"
  proof
    assume "eid \<in> ev_event_id ` set (d_events ?db)"
    then obtain r where "r \<in> set (d_events ?db)" "ev_event_id r = eid" by auto
    with numbered_id_seq [of "base + 1" r "today d" ?db] base(3,4) fits
    have "base + 1 \<in> set (day_seqs ?db (today d))" by simp
    with base(5) show False by auto
  qed
  with True base fits new show ?thesis by auto
next
  case False
  with numbered_id_fits [OF assms(1), of 1] assms(5) show ?thesis
    by (auto simp: make_event_id_eq Let_def case_prod_beta db_get_max_daily_seq_def)
qed

theorem event_id_fresh_witness:
  "fst (make_event_id EVENT_ID_LEN (sample_daemon\<lparr>dm_seq := 7\<rparr>)) = numbered_id ''20240105'' 8"
proof -
  let ?d = "sample_daemon\<lparr>dm_seq := 7\<rparr>"
  have same: "same_day ?d" by (simp add: same_day_def sample_daemon_def quiet_world_def)
  have date: "today ?d = ''20240105''"
    by (simp add: today_def sample_daemon_def quiet_world_def yyyymmdd_def show_int_def show_pad_def show_nat.simps
        char_of_def bit_0)
  have none: "day_seqs (w_db (dm_world ?d)) (today ?d) = []"
    by (simp add: day_seqs_def sample_daemon_def quiet_world_def db_empty_def)
  have "eid = numbered_id (today ?d) (dm_seq d')" if "make_event_id EVENT_ID_LEN ?d = (eid, d')" for eid d'
    using event_id_fresh [OF _ _ _ _ that] same none by (simp add: plain_date_def date seq_known_def)
  moreover have "dm_seq (snd (make_event_id EVENT_ID_LEN ?d)) = 8"
    by (simp add: make_event_id_eq same Let_def case_prod_beta)
  ultimately show ?thesis by (metis date prod.collapse)
qed

end
