(* ===== verification/Vfs.thy ===== *)
theory Vfs
  imports Rguard_Backup Rguard_Protocol Rguard_Hash
begin

text \<open>
  \<open>src/vfs/vfs_gfrguard.c\<close>: the Samba module, one share connection. Its state is the
  configuration with the cached blocked list, the per-file extensions, what the file system
  holds, the datagrams that reached the daemon's socket and the calls handed to the next module.
  The next module is Samba's: a parameter that answers a call and changes the files. The answers
  of the system calls of one callback are a record; \<open>v_files p\<close> is what a lookup of the path
  \<open>p\<close> that follows links finds. Debug output is left out.
\<close>

subsection \<open>State and answers\<close>

record vnode =
  n_regular :: bool
  n_data :: string
  n_ino :: u64
  n_mtime :: int
  n_mtime_ns :: int
  n_uid :: u32
  n_gid :: u32
  n_mode :: u32

type_synonym files = "string \<Rightarrow> vnode option"

record gfrguard_config =
  gc_protect :: bool
  gc_mode :: int
  gc_store_path :: string
  gc_socket_path :: string
  gc_sock_fd :: bool
  gc_blocked_path :: string
  gc_blocked_mtime :: int
  gc_blocked_mtime_ns :: int
  gc_blocked_content :: "string option"

definition GFR_MODE_STRICT :: int where "GFR_MODE_STRICT = 0"
definition GFR_MODE_PERMISSIVE :: int where "GFR_MODE_PERMISSIVE = 1"
definition BLOCKED_PATH_DEFAULT :: string where "BLOCKED_PATH_DEFAULT = ''/run/gfrguardd/blocked''"
definition GFR_CONTENT_COMPARE_MAX :: nat where "GFR_CONTENT_COMPARE_MAX = 64 * 1024 * 1024"
definition RGUARD_SESSION_KEY_LEN :: nat where "RGUARD_SESSION_KEY_LEN = 128"
definition RGUARD_SHARE_MAX :: nat where "RGUARD_SHARE_MAX = 64"

record rguard_file_state =
  fs_is_risky :: bool
  fs_backup_done :: bool
  fs_backup_failed :: bool
  fs_event_sent :: bool
  fs_session_key :: string
  fs_share_name :: string
  fs_relative_path :: string
  fs_backup_path :: string

text \<open>What the module reads of the connection: \<open>None\<close> for a null pointer on the way.\<close>

record smb_conn =
  sc_unix_name :: "string option"
  sc_remote_host :: "string option"
  sc_service :: "string option"
  sc_connectpath :: string

datatype vfs_call =
    Next_connect string string
  | Next_disconnect
  | Next_openat nat string u32
  | Next_pwrite nat string int
  | Next_ftruncate nat int
  | Next_renameat string string
  | Next_unlinkat string int
  | Next_mkdirat string u32
  | Next_close nat

datatype send_step = Sent | Send_again | Send_failed

datatype create_result = Created | Raced vnode | Create_failed

record vfs_answers =
  va_time :: int
  va_sends :: "send_step list"
  va_blocked_stat :: bool
  va_blocked_open :: bool
  va_alloc :: bool
  va_blocked_read :: io_step
  va_hidden :: "string \<Rightarrow> bool"
  va_mkdir :: "string \<Rightarrow> bool"
  va_dir_node :: vnode
  va_src_open :: bool
  va_src_fstat :: bool
  va_create :: create_result
  va_new_ino :: u64
  va_copy :: copy_answers
  va_extension :: bool
  va_compare_open :: bool
  va_reads_backup :: "io_step list"
  va_reads_current :: "io_step list"
  va_last_read :: io_step

record vfs =
  v_cfg :: "gfrguard_config option"
  v_conn :: smb_conn
  v_files :: files
  v_ext :: "nat \<Rightarrow> rguard_file_state option"
  v_sent :: "event_msg list"
  v_next :: "vfs_call list"

text \<open>A callback's result is its value and \<open>errno\<close>.\<close>

type_synonym vfs_result = "int \<times> int"

type_synonym next_module = "vfs_call \<Rightarrow> files \<Rightarrow> vfs_result \<times> files"

definition EACCES :: int where "EACCES = 13"
definition ENOSPC :: int where "ENOSPC = 28"
definition ENOMEM :: int where "ENOMEM = 12"

definition call_next :: "next_module \<Rightarrow> vfs_call \<Rightarrow> vfs \<Rightarrow> vfs_result \<times> vfs" where
  "call_next nx c v =
     (let (r, fs) = nx c (v_files v) in (r, v\<lparr>v_files := fs, v_next := v_next v @ [c]\<rparr>))"

subsection \<open>The connection\<close>

definition session_user :: "smb_conn \<Rightarrow> string" where
  "session_user c = (case sc_unix_name c of Some u \<Rightarrow> if u \<noteq> [] then u else ''unknown'' | None \<Rightarrow> ''unknown'')"

definition session_ip :: "smb_conn \<Rightarrow> string" where
  "session_ip c = (case sc_remote_host c of Some h \<Rightarrow> h | None \<Rightarrow> ''0.0.0.0'')"

definition share_name_of :: "smb_conn \<Rightarrow> string" where
  "share_name_of c = (case sc_service c of Some s \<Rightarrow> s | None \<Rightarrow> ''unknown'')"

definition session_key_of :: "smb_conn \<Rightarrow> string" where
  "session_key_of c = rguard_make_session_key RGUARD_SESSION_KEY_LEN (Some (session_user c)) (Some (session_ip c))"

text \<open>The prefixes before each slash, then the whole path.\<close>

fun mkdir_all :: "vfs_answers \<Rightarrow> string list \<Rightarrow> files \<Rightarrow> bool \<times> files" where
  "mkdir_all a [] fs = (True, fs)"
| "mkdir_all a (p # ps) fs =
     (if fs p \<noteq> None then mkdir_all a ps fs
      else if va_mkdir a p then mkdir_all a ps (fs(p \<mapsto> va_dir_node a))
      else (False, fs))"

definition mkdir_p :: "vfs_answers \<Rightarrow> string \<Rightarrow> files \<Rightarrow> bool \<times> files" where
  "mkdir_p a path fs =
     (let buf = snprintf_s RGUARD_PATH_MAX path
      in mkdir_all a ([take i buf. i \<leftarrow> [1..<length buf], buf ! i = CHR ''/''] @ [buf]) fs)"

subsection \<open>The blocked list\<close>

definition refresh_blocked_cache :: "vfs_answers \<Rightarrow> files \<Rightarrow> gfrguard_config \<Rightarrow> gfrguard_config" where
  "refresh_blocked_cache a fs cfg =
     (case (if va_blocked_stat a then fs (gc_blocked_path cfg) else None) of
        None \<Rightarrow> cfg\<lparr>gc_blocked_content := None, gc_blocked_mtime := 0\<rparr>
      | Some n \<Rightarrow>
          if n_mtime n = gc_blocked_mtime cfg \<and> n_mtime_ns n = gc_blocked_mtime_ns cfg \<and>
             gc_blocked_content cfg \<noteq> None then cfg
          else if \<not> va_blocked_open a then cfg
          else if \<not> va_alloc a then cfg
          else case va_blocked_read a of
            Io_bytes k \<Rightarrow> cfg\<lparr>gc_blocked_content := Some (take k (n_data n)),
                              gc_blocked_mtime := n_mtime n, gc_blocked_mtime_ns := n_mtime_ns n\<rparr>
          | _ \<Rightarrow> cfg)"

text \<open>\<open>sendto\<close>, tried again while the socket is full.\<close>

fun send_loop :: "nat \<Rightarrow> send_step list \<Rightarrow> bool" where
  "send_loop 0 as = False"
| "send_loop (Suc n) [] = True"
| "send_loop (Suc n) (Sent # as) = True"
| "send_loop (Suc n) (Send_again # as) = send_loop n as"
| "send_loop (Suc n) (Send_failed # as) = False"

text \<open>The fields both kinds of messages share.\<close>

definition msg_from :: "vfs_answers \<Rightarrow> smb_conn \<Rightarrow> u8 \<Rightarrow> event_msg" where
  "msg_from a c ty =
     msg_zero\<lparr>m_msg_type := ty, m_proto_version := RGUARD_PROTO_VERSION,
       m_source_type := RGUARD_SOURCE_SMB, m_timestamp := of_int (va_time a),
       m_username := snprintf_s 64 (session_user c), m_client_ip := snprintf_s 48 (session_ip c),
       m_share_name := snprintf_s 64 (share_name_of c)\<rparr>"

definition send_blocked_notify :: "vfs_answers \<Rightarrow> gfrguard_config \<Rightarrow> vfs \<Rightarrow> vfs" where
  "send_blocked_notify a cfg v =
     (if gc_sock_fd cfg \<and> send_loop 1 (va_sends a)
      then v\<lparr>v_sent := v_sent v @ [msg_from a (v_conn v) RGUARD_MSG_VFS_BLOCKED]\<rparr> else v)"

text \<open>The lines between newlines, a last one without newline included.\<close>

function scan_blocked :: "string \<Rightarrow> string \<Rightarrow> bool" where
  "scan_blocked ip p =
     (if p = [] then False
      else if takeWhile (\<lambda>c. c \<noteq> newline) p = ip then True
      else case dropWhile (\<lambda>c. c \<noteq> newline) p of
        [] \<Rightarrow> False
      | _ # rest \<Rightarrow> scan_blocked ip rest)"
  by pat_completeness auto
termination
proof (relation "measure (length \<circ> snd)")
  fix ip p :: string and x rest
  assume "dropWhile (\<lambda>c. c \<noteq> newline) p = x # rest"
  then have "length (x # rest) \<le> length p" by (metis length_dropWhile_le)
  then show "((ip, rest), ip, p) \<in> measure (length \<circ> snd)" by simp
qed simp

declare scan_blocked.simps [simp del]

definition is_blocked :: "vfs_answers \<Rightarrow> gfrguard_config \<Rightarrow> vfs \<Rightarrow> bool \<times> vfs" where
  "is_blocked a cfg0 v0 =
     (let cfg = refresh_blocked_cache a (v_files v0) cfg0;
          v = v0\<lparr>v_cfg := Some cfg\<rparr>;
          ip = session_ip (v_conn v)
      in case gc_blocked_content cfg of
           None \<Rightarrow> (False, v)
         | Some content \<Rightarrow>
             if content = [] \<or> ip = [] then (False, v)
             else if scan_blocked ip content then (True, send_blocked_notify a cfg v)
             else (False, v))"

subsection \<open>Events\<close>

text \<open>\<open>init_daemon_socket\<close>: 108 bytes of \<open>sun_path\<close>.\<close>

definition init_daemon_socket :: "bool \<Rightarrow> gfrguard_config \<Rightarrow> int \<times> gfrguard_config" where
  "init_daemon_socket socket_ok cfg =
     (if \<not> socket_ok then (-1, cfg\<lparr>gc_sock_fd := False\<rparr>)
      else if length (gc_socket_path cfg) \<ge> 108 then (-1, cfg\<lparr>gc_sock_fd := False\<rparr>)
      else (0, cfg\<lparr>gc_sock_fd := True\<rparr>))"

definition event_of ::
  "vfs_answers \<Rightarrow> smb_conn \<Rightarrow> u8 \<Rightarrow> u16 \<Rightarrow> string option \<Rightarrow> string option \<Rightarrow> vnode option \<Rightarrow> event_msg" where
  "event_of a c op flags rel new_name st =
     (let m0 = (msg_from a c RGUARD_MSG_FILE_EVENT)\<lparr>m_op_type := op, m_flags := flags\<rparr>;
          m1 = (case st of
                  None \<Rightarrow> m0
                | Some n \<Rightarrow> m0\<lparr>m_inode := n_ino n, m_file_size := of_nat (length (n_data n)),
                    m_mtime := of_int (n_mtime n), m_file_uid := n_uid n, m_file_gid := n_gid n,
                    m_file_mode := n_mode n\<rparr>);
          m2 = (case rel of
                  None \<Rightarrow> m1
                | Some p \<Rightarrow> m1\<lparr>m_file_path := snprintf_s 4096 (sc_connectpath c @ ''/'' @ p)\<rparr>)
      in case new_name of None \<Rightarrow> m2 | Some n \<Rightarrow> m2\<lparr>m_new_name := snprintf_s 256 n\<rparr>)"

definition send_event ::
  "vfs_answers \<Rightarrow> gfrguard_config \<Rightarrow> u8 \<Rightarrow> u16 \<Rightarrow> string option \<Rightarrow> string option \<Rightarrow> vnode option \<Rightarrow> vfs \<Rightarrow> vfs" where
  "send_event a cfg op flags rel new_name st v =
     (if gc_sock_fd cfg \<and> send_loop 3 (va_sends a)
      then v\<lparr>v_sent := v_sent v @ [event_of a (v_conn v) op flags rel new_name st]\<rparr> else v)"

subsection \<open>Backups\<close>

definition compute_backup_path :: "gfrguard_config \<Rightarrow> string \<Rightarrow> string \<Rightarrow> string option" where
  "compute_backup_path cfg share rel =
     (if rel = [] then None
      else
        let path = gc_store_path cfg @ ''/backups/'' @ share @ ''/'' @ rel
        in if length path < RGUARD_PATH_MAX then Some path else None)"

text \<open>\<open>stat\<close> as the connected user.\<close>

definition user_stat :: "vfs_answers \<Rightarrow> files \<Rightarrow> string \<Rightarrow> vnode option" where
  "user_stat a fs path = (if va_hidden a path then None else fs path)"

text \<open>The backup: a new file of root with the times of the source.\<close>

definition backup_node :: "vfs_answers \<Rightarrow> vnode \<Rightarrow> string \<Rightarrow> vnode" where
  "backup_node a src bytes =
     \<lparr>n_regular = True, n_data = bytes, n_ino = va_new_ino a, n_mtime = n_mtime src, n_mtime_ns = 0,
      n_uid = 0, n_gid = 0, n_mode = 0x8180\<rparr>"

definition parent_dirs :: "vfs_answers \<Rightarrow> string \<Rightarrow> files \<Rightarrow> bool \<times> files" where
  "parent_dirs a backup fs =
     (case strrchr backup CHR ''/'' of
        None \<Rightarrow> (True, fs)
      | Some slash \<Rightarrow> mkdir_p a (take (length backup - length slash) backup) fs)"

definition copy_backup :: "vfs_answers \<Rightarrow> vnode \<Rightarrow> string \<Rightarrow> files \<Rightarrow> rguard_error \<times> files" where
  "copy_backup a src backup fs =
     (if \<not> va_src_open a \<or> \<not> va_src_fstat a \<or> \<not> n_regular src then (RGUARD_ERR_BACKUP, fs)
      else case va_create a of
        Raced n \<Rightarrow> (RGUARD_OK, fs(backup \<mapsto> n))
      | Create_failed \<Rightarrow> (RGUARD_ERR_BACKUP, fs)
      | Created \<Rightarrow>
          (let (rc, bytes) = rguard_copy_fd (va_copy a) (n_data src) [] (length (n_data src))
           in if rc = 0 then (RGUARD_OK, fs(backup \<mapsto> backup_node a src bytes))
              else (RGUARD_ERR_BACKUP, fs(backup := None))))"

text \<open>The code, what \<open>stat\<close> found, and the files.\<close>

definition do_backup ::
  "vfs_answers \<Rightarrow> gfrguard_config \<Rightarrow> string \<Rightarrow> string \<Rightarrow> string \<Rightarrow> files \<Rightarrow> (rguard_error \<times> vnode option) \<times> files" where
  "do_backup a cfg src_path share rel fs =
     (case user_stat a fs src_path of
        None \<Rightarrow> ((RGUARD_ERR_BACKUP, None), fs)
      | Some st \<Rightarrow>
          (case compute_backup_path cfg share rel of
             None \<Rightarrow> ((RGUARD_ERR_BACKUP, Some st), fs)
           | Some backup \<Rightarrow>
               if fs backup \<noteq> None then ((RGUARD_OK, Some st), fs)
               else
                 let (ok, fs1) = parent_dirs a backup fs
                 in if \<not> ok then ((RGUARD_ERR_BACKUP, Some st), fs1)
                    else let (rc, fs2) = copy_backup a st backup fs1 in ((rc, Some st), fs2)))"

definition run_backup ::
  "vfs_answers \<Rightarrow> gfrguard_config \<Rightarrow> string \<Rightarrow> string \<Rightarrow> string \<Rightarrow> vfs \<Rightarrow> (rguard_error \<times> vnode option) \<times> vfs" where
  "run_backup a cfg src share rel v =
     (let (r, fs) = do_backup a cfg src share rel (v_files v) in (r, v\<lparr>v_files := fs\<rparr>))"

definition strncmp_proc :: "string \<Rightarrow> bool" where
  "strncmp_proc s \<longleftrightarrow> strncmp_eq s ''/proc/'' 6"

datatype gf_defer_rc = GF_DEFER_DENY | GF_DEFER_UNRESOLVED | GF_DEFER_DONE

text \<open>\<open>name\<close> is \<open>fsp->fsp_name->base_name\<close>; the extension of the handle comes back updated.\<close>

definition resolve_path :: "string option \<Rightarrow> rguard_file_state \<Rightarrow> rguard_file_state" where
  "resolve_path name fst0 =
     (case name of
        None \<Rightarrow> fst0
      | Some n \<Rightarrow>
          if fs_relative_path fst0 = [] \<and> \<not> strncmp_proc n
          then fst0\<lparr>fs_relative_path := snprintf_s RGUARD_PATH_MAX n\<rparr> else fst0)"

definition gf_deferred_backup ::
  "vfs_answers \<Rightarrow> gfrguard_config \<Rightarrow> string option \<Rightarrow> rguard_file_state \<Rightarrow> u8 \<Rightarrow> u16 \<Rightarrow> vfs \<Rightarrow>
   (gf_defer_rc \<times> rguard_file_state \<times> u16) \<times> vfs" where
  "gf_deferred_backup a cfg name fst0 op flags v =
     (if fs_backup_failed fst0 then ((GF_DEFER_DONE, fst0, flags), v)
      else
        let fst1 = resolve_path name fst0;
            full = sc_connectpath (v_conn v) @ ''/'' @ fs_relative_path fst1
        in if fs_relative_path fst1 = [] \<or> length full \<ge> RGUARD_PATH_MAX
           then ((GF_DEFER_UNRESOLVED, fst1, flags), v)
           else
             let ((rc, st), v1) = run_backup a cfg full (fs_share_name fst1) (fs_relative_path fst1) v
             in if rc = RGUARD_OK
                then ((GF_DEFER_DONE, fst1\<lparr>fs_backup_done := True\<rparr>, flags OR RGUARD_FLAG_BACKED_UP), v1)
                else
                  let fst2 = fst1\<lparr>fs_backup_failed := True\<rparr>;
                      flags' = flags OR RGUARD_FLAG_BACKUP_FAILED
                  in if gc_mode cfg = GFR_MODE_STRICT
                     then ((GF_DEFER_DENY, fst2, flags'),
                           send_event a cfg op flags' (Some (fs_relative_path fst2)) None None v1)
                     else ((GF_DEFER_DONE, fst2, flags'), v1))"

subsection \<open>Connecting\<close>

text \<open>
  The share's options (\<open>None\<close> for an option that is not set), and the answers of the allocation,
  of \<open>stat\<close> and \<open>access\<close> on the store, of storing the handle data and of \<open>socket\<close>.
\<close>

record connect_answers =
  ca_protect :: bool
  ca_store :: "string option"
  ca_socket_path :: "string option"
  ca_mode :: "string option"
  ca_alloc :: bool
  ca_store_ok :: bool
  ca_set_data :: bool
  ca_socket :: bool

definition lp_string :: "string option \<Rightarrow> string \<Rightarrow> string" where
  "lp_string s dflt = (case s of Some x \<Rightarrow> x | None \<Rightarrow> dflt)"

definition connect_config :: "connect_answers \<Rightarrow> gfrguard_config" where
  "connect_config ca =
     \<lparr>gc_protect = ca_protect ca,
      gc_mode = (if strcasecmp_eq (lp_string (ca_mode ca) ''strict'') ''permissive''
                 then GFR_MODE_PERMISSIVE else GFR_MODE_STRICT),
      gc_store_path = snprintf_s 256 (lp_string (ca_store ca) ''/var/lib/gf2000/rguard-store''),
      gc_socket_path = snprintf_s 256 (lp_string (ca_socket_path ca) ''/run/gfrguardd/gfrguardd.sock''),
      gc_sock_fd = False, gc_blocked_path = snprintf_s 256 BLOCKED_PATH_DEFAULT,
      gc_blocked_mtime = 0, gc_blocked_mtime_ns = 0, gc_blocked_content = None\<rparr>"

definition refuse :: "next_module \<Rightarrow> int \<Rightarrow> vfs \<Rightarrow> vfs_result \<times> vfs" where
  "refuse nx e v = ((-1, e), snd (call_next nx Next_disconnect v))"

definition gf_connect ::
  "next_module \<Rightarrow> connect_answers \<Rightarrow> vfs_answers \<Rightarrow> string \<Rightarrow> string \<Rightarrow> vfs \<Rightarrow> vfs_result \<times> vfs" where
  "gf_connect nx ca a svc user v0 =
     (let (r, v1) = call_next nx (Next_connect svc user) v0 in
      if fst r < 0 then (r, v1)
      else if \<not> ca_alloc ca then refuse nx ENOMEM v1
      else
        let cfg0 = connect_config ca in
        if gc_protect cfg0 \<and> \<not> ca_store_ok ca \<and> gc_mode cfg0 = GFR_MODE_STRICT then refuse nx EACCES v1
        else
          let cfg1 = (if gc_protect cfg0 \<and> \<not> ca_store_ok ca then cfg0\<lparr>gc_protect := False\<rparr> else cfg0)
          in if \<not> ca_set_data ca then ((-1, snd r), v1)
             else if \<not> gc_protect cfg1 then ((0, snd r), v1\<lparr>v_cfg := Some cfg1\<rparr>)
             else
               let cfg2 = snd (init_daemon_socket (ca_socket ca) cfg1);
                   (blocked, v2) = is_blocked a cfg2 (v1\<lparr>v_cfg := Some cfg2\<rparr>)
               in if blocked then refuse nx EACCES v2 else ((0, snd r), v2))"

definition gf_disconnect :: "next_module \<Rightarrow> vfs \<Rightarrow> vfs" where
  "gf_disconnect nx v =
     snd (call_next nx Next_disconnect
       (case v_cfg v of None \<Rightarrow> v | Some cfg \<Rightarrow> v\<lparr>v_cfg := Some (cfg\<lparr>gc_sock_fd := False\<rparr>)\<rparr>))"

subsection \<open>Opening\<close>

definition O_WRONLY :: u32 where "O_WRONLY = 0x1"
definition O_RDWR :: u32 where "O_RDWR = 0x2"
definition O_CREAT :: u32 where "O_CREAT = 0x40"
definition O_TRUNC :: u32 where "O_TRUNC = 0x200"
definition O_APPEND :: u32 where "O_APPEND = 0x400"
definition O_PATH :: u32 where "O_PATH = 0x200000"

definition write_mode :: "u32 \<Rightarrow> bool" where
  "write_mode fl \<longleftrightarrow> fl AND (O_WRONLY OR O_RDWR) \<noteq> 0"

definition create_trunc :: "u32 \<Rightarrow> bool" where
  "create_trunc fl \<longleftrightarrow> fl AND (O_CREAT OR O_TRUNC) = (O_CREAT OR O_TRUNC)"

definition append_only :: "u32 \<Rightarrow> bool" where
  "append_only fl \<longleftrightarrow> fl AND O_APPEND \<noteq> 0"

text \<open>
  What a guarded callback does before its own work: pass when there is nothing to protect,
  deny a blocked session. The configuration handed on is the refreshed one.
\<close>

definition deny_or ::
  "vfs_answers \<Rightarrow> gfrguard_config \<Rightarrow> (gfrguard_config \<Rightarrow> vfs \<Rightarrow> vfs_result \<times> vfs) \<Rightarrow> vfs \<Rightarrow> vfs_result \<times> vfs" where
  "deny_or a cfg k v =
     (let (blocked, v') = is_blocked a cfg v
      in if blocked then ((-1, EACCES), v') else k (refresh_blocked_cache a (v_files v) cfg) v')"

definition protected_or_next ::
  "next_module \<Rightarrow> vfs_call \<Rightarrow> (gfrguard_config \<Rightarrow> vfs \<Rightarrow> vfs_result \<times> vfs) \<Rightarrow> vfs \<Rightarrow> vfs_result \<times> vfs" where
  "protected_or_next nx c k v =
     (case v_cfg v of
        None \<Rightarrow> call_next nx c v
      | Some cfg \<Rightarrow> if gc_protect cfg then k cfg v else call_next nx c v)"

definition fname_str :: "string option \<Rightarrow> string" where
  "fname_str name = (case name of Some n \<Rightarrow> n | None \<Rightarrow> ''?'')"

definition attach :: "vfs_answers \<Rightarrow> nat \<Rightarrow> rguard_file_state \<Rightarrow> vfs \<Rightarrow> vfs" where
  "attach a fsp st v = (if va_extension a then v\<lparr>v_ext := (v_ext v)(fsp \<mapsto> st)\<rparr> else v)"

definition file_state :: "smb_conn \<Rightarrow> bool \<Rightarrow> bool \<Rightarrow> string \<Rightarrow> string \<Rightarrow> rguard_file_state" where
  "file_state c done failed rel backup =
     \<lparr>fs_is_risky = True, fs_backup_done = done, fs_backup_failed = failed, fs_event_sent = False,
      fs_session_key = snprintf_s RGUARD_SESSION_KEY_LEN (session_key_of c),
      fs_share_name = snprintf_s RGUARD_SHARE_MAX (share_name_of c),
      fs_relative_path = snprintf_s RGUARD_PATH_MAX rel, fs_backup_path = backup\<rparr>"

definition stored_backup_path :: "gfrguard_config \<Rightarrow> smb_conn \<Rightarrow> bool \<Rightarrow> string \<Rightarrow> string" where
  "stored_backup_path cfg c done rel =
     (if done then (case compute_backup_path cfg (share_name_of c) rel of Some p \<Rightarrow> p | None \<Rightarrow> []) else [])"

text \<open>Samba reopening a handle through \<open>/proc\<close>: the path is found out later.\<close>

definition openat_procfd ::
  "next_module \<Rightarrow> vfs_answers \<Rightarrow> vfs_call \<Rightarrow> nat \<Rightarrow> string option \<Rightarrow> vfs \<Rightarrow> vfs_result \<times> vfs" where
  "openat_procfd nx a c fsp name_after v =
     (let (r, v1) = call_next nx c v in
      if fst r \<ge> 0 then
        (r, attach a fsp (file_state (v_conn v1) False False
              (case name_after of Some n \<Rightarrow> if strncmp_proc n then [] else n | None \<Rightarrow> []) []) v1)
      else (r, v1))"

text \<open>Whether the open destroys what a regular file holds.\<close>

definition destroys :: "u32 \<Rightarrow> bool" where
  "destroys fl \<longleftrightarrow> write_mode fl \<and> \<not> append_only fl \<or> create_trunc fl"

definition regular_at :: "vfs_answers \<Rightarrow> files \<Rightarrow> string \<Rightarrow> bool" where
  "regular_at a fs path = (case user_stat a fs path of Some n \<Rightarrow> n_regular n | None \<Rightarrow> False)"

definition full_path :: "smb_conn \<Rightarrow> string \<Rightarrow> string" where
  "full_path c rel = snprintf_s RGUARD_PATH_MAX (sc_connectpath c @ ''/'' @ rel)"

definition backup_flags :: "rguard_error \<Rightarrow> u16" where
  "backup_flags rc =
     RGUARD_FLAG_RISKY OR (if rc = RGUARD_OK then RGUARD_FLAG_BACKED_UP else RGUARD_FLAG_BACKUP_FAILED)"

text \<open>The open itself and what is remembered and reported after it.\<close>

definition track_open ::
  "vfs_answers \<Rightarrow> nat \<Rightarrow> string \<Rightarrow> gfrguard_config \<Rightarrow> rguard_error \<Rightarrow> vfs \<Rightarrow> vfs" where
  "track_open a fsp rel cfg rc v =
     (let done = (rc = RGUARD_OK)
      in attach a fsp (file_state (v_conn v) done (\<not> done) rel (stored_backup_path cfg (v_conn v) done rel)) v)"

definition new_file_open ::
  "vfs_answers \<Rightarrow> nat \<Rightarrow> string \<Rightarrow> gfrguard_config \<Rightarrow> vfs \<Rightarrow> vfs" where
  "new_file_open a fsp rel cfg v =
     attach a fsp (file_state (v_conn v) True False rel [])
       (send_event a cfg RGUARD_OP_OPEN RGUARD_FLAG_NEW_FILE (Some rel) None None v)"

definition openat_next ::
  "next_module \<Rightarrow> vfs_answers \<Rightarrow> vfs_call \<Rightarrow> nat \<Rightarrow> string \<Rightarrow> gfrguard_config \<Rightarrow> bool \<Rightarrow> bool \<Rightarrow>
   rguard_error \<Rightarrow> vnode option \<Rightarrow> vfs \<Rightarrow> vfs_result \<times> vfs" where
  "openat_next nx a c fsp rel cfg risky creates rc st v =
     (let (r, v1) = call_next nx c v in
      if risky then
        (r, send_event a cfg RGUARD_OP_WRITE (backup_flags rc) (Some rel) None st
              (if fst r \<ge> 0 then track_open a fsp rel cfg rc v1 else v1))
      else if creates \<and> fst r \<ge> 0 then (r, new_file_open a fsp rel cfg v1)
      else (r, v1))"

definition openat_path ::
  "next_module \<Rightarrow> vfs_answers \<Rightarrow> vfs_call \<Rightarrow> nat \<Rightarrow> string \<Rightarrow> u32 \<Rightarrow> gfrguard_config \<Rightarrow> vfs \<Rightarrow> vfs_result \<times> vfs" where
  "openat_path nx a c fsp rel fl cfg v =
     (let full = full_path (v_conn v) rel;
          exists_reg = regular_at a (v_files v) full;
          creates = (\<not> exists_reg \<and> fl AND O_CREAT \<noteq> 0)
      in if exists_reg \<and> destroys fl then
           (let ((rc, st), v1) = run_backup a cfg full (share_name_of (v_conn v)) rel v
            in if rc \<noteq> RGUARD_OK \<and> gc_mode cfg = GFR_MODE_STRICT
               then ((-1, ENOSPC), send_event a cfg RGUARD_OP_WRITE (backup_flags rc) (Some rel) None st v1)
               else openat_next nx a c fsp rel cfg True creates rc st v1)
         else openat_next nx a c fsp rel cfg False creates RGUARD_OK None v)"

text \<open>\<open>smb_name\<close> is the name the client gives, \<open>name\<close> the one of the handle before and after the open.\<close>

definition gf_openat ::
  "next_module \<Rightarrow> vfs_answers \<Rightarrow> nat \<Rightarrow> string option \<Rightarrow> string option \<Rightarrow> string option \<Rightarrow> u32 option \<Rightarrow> vfs \<Rightarrow>
   vfs_result \<times> vfs" where
  "gf_openat nx a fsp smb_name name name_after how v =
     (let fl = (case how of Some f \<Rightarrow> f | None \<Rightarrow> 0);
          c = Next_openat fsp (fname_str smb_name) fl
      in protected_or_next nx c (\<lambda>cfg v.
           if fl AND O_PATH \<noteq> 0 then call_next nx c v
           else if \<not> write_mode fl \<and> \<not> create_trunc fl then call_next nx c v
           else
             let rel = (case name of Some n \<Rightarrow> n | None \<Rightarrow> fname_str smb_name)
             in deny_or a cfg (\<lambda>cfg' v.
                  if strncmp_proc (fname_str smb_name) \<and> strncmp_proc rel
                  then openat_procfd nx a c fsp name_after v
                  else openat_path nx a c fsp rel fl cfg' v) v) v)"

subsection \<open>Writing and truncating\<close>

definition put_state :: "nat \<Rightarrow> rguard_file_state \<Rightarrow> vfs \<Rightarrow> vfs" where
  "put_state fsp st v = v\<lparr>v_ext := (v_ext v)(fsp \<mapsto> st)\<rparr>"

definition pwrite_deferred ::
  "next_module \<Rightarrow> vfs_answers \<Rightarrow> vfs_call \<Rightarrow> nat \<Rightarrow> string option \<Rightarrow> rguard_file_state \<Rightarrow> gfrguard_config \<Rightarrow> vfs \<Rightarrow>
   vfs_result \<times> vfs" where
  "pwrite_deferred nx a c fsp name st cfg v =
     (let ((drc, st1, flags), v1) = gf_deferred_backup a cfg name st RGUARD_OP_WRITE RGUARD_FLAG_RISKY v;
          v2 = put_state fsp st1 v1
      in case drc of
           GF_DEFER_DENY \<Rightarrow> ((-1, ENOSPC), v2)
         | GF_DEFER_UNRESOLVED \<Rightarrow> call_next nx c v2
         | GF_DEFER_DONE \<Rightarrow>
             (let (r, v3) = call_next nx c v2
              in (r, if \<not> fs_event_sent st1
                     then send_event a cfg RGUARD_OP_WRITE flags (Some (fs_relative_path st1)) None None
                            (put_state fsp (st1\<lparr>fs_event_sent := True\<rparr>) v3)
                     else v3)))"

definition gf_pwrite ::
  "next_module \<Rightarrow> vfs_answers \<Rightarrow> nat \<Rightarrow> string option \<Rightarrow> string \<Rightarrow> int \<Rightarrow> vfs \<Rightarrow> vfs_result \<times> vfs" where
  "gf_pwrite nx a fsp name data offset v0 =
     (let c = Next_pwrite fsp data offset in
      protected_or_next nx c (\<lambda>cfg v.
        case v_ext v fsp of
          None \<Rightarrow> call_next nx c v
        | Some st \<Rightarrow>
            if \<not> fs_is_risky st then call_next nx c v
            else deny_or a cfg (\<lambda>cfg' v.
              if fs_backup_done st then call_next nx c v
              else pwrite_deferred nx a c fsp name st cfg' v) v) v0)"

text \<open>A handle that is not tracked: the truncation is treated as an attack on the named file.\<close>

definition truncate_untracked ::
  "next_module \<Rightarrow> vfs_answers \<Rightarrow> vfs_call \<Rightarrow> nat \<Rightarrow> string \<Rightarrow> gfrguard_config \<Rightarrow> vfs \<Rightarrow> vfs_result \<times> vfs" where
  "truncate_untracked nx a c fsp rel cfg v =
     (let full = full_path (v_conn v) rel in
      if \<not> regular_at a (v_files v) full then call_next nx c v
      else
        let ((rc, st), v1) = run_backup a cfg full (share_name_of (v_conn v)) rel v;
            v2 = track_open a fsp rel cfg rc v1
        in if rc \<noteq> RGUARD_OK \<and> gc_mode cfg = GFR_MODE_STRICT
           then ((-1, ENOSPC), send_event a cfg RGUARD_OP_TRUNCATE (backup_flags rc) (Some rel) None st v2)
           else
             let (r, v3) = call_next nx c v2
             in (r, send_event a cfg RGUARD_OP_TRUNCATE (backup_flags rc) (Some rel) None None v3))"

definition truncate_deferred ::
  "next_module \<Rightarrow> vfs_answers \<Rightarrow> vfs_call \<Rightarrow> nat \<Rightarrow> string option \<Rightarrow> rguard_file_state \<Rightarrow> gfrguard_config \<Rightarrow> vfs \<Rightarrow>
   vfs_result \<times> vfs" where
  "truncate_deferred nx a c fsp name st cfg v =
     (let ((drc, st1, flags), v1) = gf_deferred_backup a cfg name st RGUARD_OP_TRUNCATE RGUARD_FLAG_RISKY v;
          v2 = put_state fsp st1 v1
      in if drc = GF_DEFER_DENY then ((-1, ENOSPC), v2)
         else
           let (r, v3) = call_next nx c v2
           in (r, send_event a cfg RGUARD_OP_TRUNCATE flags (Some (fs_relative_path st1)) None None v3))"

definition gf_ftruncate ::
  "next_module \<Rightarrow> vfs_answers \<Rightarrow> nat \<Rightarrow> string option \<Rightarrow> int \<Rightarrow> vfs \<Rightarrow> vfs_result \<times> vfs" where
  "gf_ftruncate nx a fsp name len v0 =
     (let c = Next_ftruncate fsp len in
      protected_or_next nx c (\<lambda>cfg v.
        case (case v_ext v fsp of Some st \<Rightarrow> if fs_is_risky st then Some st else None | None \<Rightarrow> None) of
          None \<Rightarrow>
            (case name of
               None \<Rightarrow> call_next nx c v
             | Some rel \<Rightarrow>
                 if strncmp_proc rel then call_next nx c v
                 else deny_or a cfg (truncate_untracked nx a c fsp rel) v)
        | Some st \<Rightarrow> deny_or a cfg (\<lambda>cfg' v.
            if fs_backup_done st then call_next nx c v
            else truncate_deferred nx a c fsp name st cfg' v) v) v0)"

subsection \<open>Renaming, deleting, directories\<close>

definition gf_renameat ::
  "next_module \<Rightarrow> vfs_answers \<Rightarrow> string option \<Rightarrow> string option \<Rightarrow> vfs \<Rightarrow> vfs_result \<times> vfs" where
  "gf_renameat nx a src_name dst_name v0 =
     (let c = Next_renameat (fname_str src_name) (fname_str dst_name);
          src = snprintf_s RGUARD_PATH_MAX (fname_str src_name);
          dst = snprintf_s RGUARD_PATH_MAX (fname_str dst_name)
      in protected_or_next nx c (\<lambda>cfg v. deny_or a cfg (\<lambda>cfg' v.
        let (r, v1) = call_next nx c v
        in (r, send_event a cfg' RGUARD_OP_RENAME 0 (Some src) (Some dst) None v1)) v) v0)"

definition unlink_path ::
  "next_module \<Rightarrow> vfs_answers \<Rightarrow> vfs_call \<Rightarrow> string \<Rightarrow> gfrguard_config \<Rightarrow> vfs \<Rightarrow> vfs_result \<times> vfs" where
  "unlink_path nx a c rel cfg v =
     (let full = full_path (v_conn v) rel in
      if regular_at a (v_files v) full then
        (let ((rc, st), v1) = run_backup a cfg full (share_name_of (v_conn v)) rel v
         in if rc \<noteq> RGUARD_OK \<and> gc_mode cfg = GFR_MODE_STRICT
            then ((-1, EACCES), send_event a cfg RGUARD_OP_DELETE (backup_flags rc) (Some rel) None st v1)
            else
              let (r, v2) = call_next nx c v1
              in (r, send_event a cfg RGUARD_OP_DELETE (backup_flags rc) (Some rel) None st v2))
      else
        let (r, v2) = call_next nx c v
        in (r, send_event a cfg RGUARD_OP_DELETE 0 (Some rel) None None v2))"

definition gf_unlinkat ::
  "next_module \<Rightarrow> vfs_answers \<Rightarrow> string option \<Rightarrow> int \<Rightarrow> vfs \<Rightarrow> vfs_result \<times> vfs" where
  "gf_unlinkat nx a name fl v0 =
     (let c = Next_unlinkat (fname_str name) fl in
      protected_or_next nx c (\<lambda>cfg v. deny_or a cfg (unlink_path nx a c (fname_str name)) v) v0)"

definition gf_mkdirat ::
  "next_module \<Rightarrow> vfs_answers \<Rightarrow> string option \<Rightarrow> u32 \<Rightarrow> vfs \<Rightarrow> vfs_result \<times> vfs" where
  "gf_mkdirat nx a name mode v0 =
     (let c = Next_mkdirat (fname_str name) mode in
      protected_or_next nx c (\<lambda>cfg v. deny_or a cfg (\<lambda>cfg' v.
        let (r, v1) = call_next nx c v
        in (r, if fst r = 0
               then send_event a cfg' RGUARD_OP_OPEN RGUARD_FLAG_NEW_FILE (Some (fname_str name)) None None v1
               else v1)) v) v0)"

subsection \<open>Closing\<close>

text \<open>The comparison in buffers of 8192 bytes; the answers of the reads limit each of them.\<close>

definition read_bytes :: "io_step list \<Rightarrow> string \<Rightarrow> string option \<times> io_step list" where
  "read_bytes as rest =
     (case as of
        [] \<Rightarrow> (Some (take 8192 rest), [])
      | Io_bytes k # as' \<Rightarrow> (Some (take (min k 8192) rest), as')
      | _ # as' \<Rightarrow> (None, as'))"

function compare_loop ::
  "io_step list \<Rightarrow> io_step list \<Rightarrow> string \<Rightarrow> string \<Rightarrow> u64 \<Rightarrow> u64 \<Rightarrow> (u64 \<times> u64 \<times> string) option" where
  "compare_loop rb rc bk cur hb hc =
     (case read_bytes rb bk of
        (None, _) \<Rightarrow> Some (hb, hc, cur)
      | (Some x, rb') \<Rightarrow>
          if x = [] then Some (hb, hc, cur)
          else (case read_bytes rc cur of
                  (None, _) \<Rightarrow> None
                | (Some y, rc') \<Rightarrow>
                    if length y \<noteq> length x then None
                    else compare_loop rb' rc' (drop (length x) bk) (drop (length y) cur)
                           (fnv_loop x hb) (fnv_loop y hc)))"
  by pat_completeness auto
termination
  by (relation "measure (\<lambda>(rb, rc, bk, cur, hb, hc). length bk)")
    (auto simp: read_bytes_def split: list.splits io_step.splits)

declare compare_loop.simps [simp del]

text \<open>The last read of one byte decides whether the current file is at its end.\<close>

definition content_same :: "vfs_answers \<Rightarrow> string \<Rightarrow> string \<Rightarrow> bool" where
  "content_same a bk cur =
     (case compare_loop (va_reads_backup a) (va_reads_current a) bk cur 14695981039346656037 14695981039346656037 of
        None \<Rightarrow> False
      | Some (hb, hc, rest) \<Rightarrow>
          hb = hc \<and>
          (case va_last_read a of Io_bytes k \<Rightarrow> k = 0 \<or> rest = [] | _ \<Rightarrow> False))"

definition close_same :: "vfs_answers \<Rightarrow> smb_conn \<Rightarrow> files \<Rightarrow> rguard_file_state \<Rightarrow> bool" where
  "close_same a c fs st =
     (if fs_backup_done st \<and> fs_backup_path st \<noteq> [] \<and> fs_relative_path st \<noteq> [] then
        (let cur = sc_connectpath c @ ''/'' @ fs_relative_path st in
         if length cur < RGUARD_PATH_MAX then
           (case (fs (fs_backup_path st), fs cur) of
              (Some b, Some n) \<Rightarrow>
                length (n_data b) = length (n_data n) \<and> length (n_data b) \<le> GFR_CONTENT_COMPARE_MAX \<and>
                va_compare_open a \<and> content_same a (n_data b) (n_data n)
            | _ \<Rightarrow> False)
         else False)
      else False)"

definition gf_close :: "next_module \<Rightarrow> vfs_answers \<Rightarrow> nat \<Rightarrow> vfs \<Rightarrow> vfs_result \<times> vfs" where
  "gf_close nx a fsp v0 =
     (let c = Next_close fsp in
      protected_or_next nx c (\<lambda>cfg v.
        case v_ext v fsp of
          None \<Rightarrow> call_next nx c v
        | Some st \<Rightarrow>
            let flags = (if close_same a (v_conn v) (v_files v) st then RGUARD_FLAG_CONTENT_SAME else 0)
            in call_next nx c
                 (if fs_is_risky st
                  then send_event a cfg RGUARD_OP_CLOSE flags (Some (fs_relative_path st)) None None v
                  else v)) v0)"

end
