(* ===== verification/Vfs_Props.thy ===== *)
theory Vfs_Props
  imports Vfs
begin

text \<open>
  What the Samba module guarantees: a session whose address is in the blocked file is denied,
  an existing backup is never touched, and in strict mode no existing file is destroyed
  through the module before its backup exists.
\<close>

subsection \<open>The blocked list\<close>

lemma scan_blocked_lines: "scan_blocked ip p \<longleftrightarrow> ip \<in> set (lines_of p)"
proof (induction ip p rule: scan_blocked.induct)
  case (1 ip p)
  show ?case
  proof (cases "p = []")
    case False
    show ?thesis
    proof (cases "takeWhile (\<lambda>c. c \<noteq> newline) p = ip")
      case True
      with False show ?thesis by (subst scan_blocked.simps, subst lines_of.simps) simp
    next
      case neq: False
      show ?thesis
      proof (cases "dropWhile (\<lambda>c. c \<noteq> newline) p")
        case Nil
        with False neq show ?thesis
          by (subst scan_blocked.simps, subst lines_of.simps)
            (simp del: takeWhile_eq_all_conv dropWhile_eq_Nil_conv)
      next
        case (Cons x rest)
        from 1 [OF False neq Cons] False neq Cons show ?thesis
          by (subst scan_blocked.simps, subst lines_of.simps) auto
      qed
    qed
  qed (simp add: scan_blocked.simps)
qed

text \<open>The module's view of the blocked file is current: the reads succeed, and a cached copy is not stale.\<close>

definition sees_file :: "vfs_answers \<Rightarrow> gfrguard_config \<Rightarrow> vnode \<Rightarrow> bool" where
  "sees_file a cfg n \<longleftrightarrow> va_blocked_stat a \<and> va_blocked_open a \<and> va_alloc a \<and>
     (\<exists>k. va_blocked_read a = Io_bytes k \<and> length (n_data n) \<le> k) \<and>
     (n_mtime n = gc_blocked_mtime cfg \<and> n_mtime_ns n = gc_blocked_mtime_ns cfg \<longrightarrow>
        gc_blocked_content cfg \<in> {None, Some (n_data n)})"

lemma refresh_current:
  assumes "fs (gc_blocked_path cfg) = Some n" and "sees_file a cfg n"
  shows "gc_blocked_content (refresh_blocked_cache a fs cfg) = Some (n_data n)"
  using assms by (auto simp: refresh_blocked_cache_def sees_file_def)

lemma refresh_frame [simp]:
  "gc_protect (refresh_blocked_cache a fs cfg) = gc_protect cfg" "gc_mode (refresh_blocked_cache a fs cfg) = gc_mode cfg"
  "gc_store_path (refresh_blocked_cache a fs cfg) = gc_store_path cfg"
  "gc_sock_fd (refresh_blocked_cache a fs cfg) = gc_sock_fd cfg"
  "gc_blocked_path (refresh_blocked_cache a fs cfg) = gc_blocked_path cfg"
  by (auto simp: refresh_blocked_cache_def Let_def split: option.splits io_step.splits)

lemma notify_frame [simp]:
  "v_files (send_blocked_notify a cfg v) = v_files v" "v_next (send_blocked_notify a cfg v) = v_next v"
  "v_ext (send_blocked_notify a cfg v) = v_ext v" "v_conn (send_blocked_notify a cfg v) = v_conn v"
  "v_cfg (send_blocked_notify a cfg v) = v_cfg v"
  by (simp_all add: send_blocked_notify_def)

lemma send_frame [simp]:
  "v_files (send_event a cfg op fl rel nn st v) = v_files v" "v_next (send_event a cfg op fl rel nn st v) = v_next v"
  "v_ext (send_event a cfg op fl rel nn st v) = v_ext v" "v_conn (send_event a cfg op fl rel nn st v) = v_conn v"
  "v_cfg (send_event a cfg op fl rel nn st v) = v_cfg v"
  by (simp_all add: send_event_def)

lemma is_blocked_frame [simp]:
  "v_files (snd (is_blocked a cfg v)) = v_files v" "v_next (snd (is_blocked a cfg v)) = v_next v"
  "v_ext (snd (is_blocked a cfg v)) = v_ext v" "v_conn (snd (is_blocked a cfg v)) = v_conn v"
  "v_cfg (snd (is_blocked a cfg v)) = Some (refresh_blocked_cache a (v_files v) cfg)"
  by (auto simp: is_blocked_def Let_def split: option.splits)

lemma is_blocked_iff:
  "fst (is_blocked a cfg v) \<longleftrightarrow>
     (\<exists>content. gc_blocked_content (refresh_blocked_cache a (v_files v) cfg) = Some content \<and>
        session_ip (v_conn v) \<noteq> [] \<and> session_ip (v_conn v) \<in> set (lines_of content))"
  by (auto simp: is_blocked_def Let_def scan_blocked_lines split: option.splits)

text \<open>An address in the file the module can read is blocked, no other is.\<close>

lemma blocked_iff_listed:
  assumes "v_files v (gc_blocked_path cfg) = Some n" and "sees_file a cfg n"
  shows "fst (is_blocked a cfg v) \<longleftrightarrow>
    session_ip (v_conn v) \<noteq> [] \<and> session_ip (v_conn v) \<in> set (lines_of (n_data n))"
  using refresh_current [of "v_files v", OF assms] by (simp add: is_blocked_iff)

subsection \<open>Operations of a client\<close>

datatype vfs_op =
    Openat nat "string option" "string option" "string option" "u32 option"
  | Pwrite nat "string option" string int
  | Ftruncate nat "string option" int
  | Renameat "string option" "string option"
  | Unlinkat "string option" int
  | Mkdirat "string option" u32
  | Close nat

fun run_op :: "next_module \<Rightarrow> vfs_answers \<Rightarrow> vfs_op \<Rightarrow> vfs \<Rightarrow> vfs_result \<times> vfs" where
  "run_op nx a (Openat fsp smb nm nm' how) v = gf_openat nx a fsp smb nm nm' how v"
| "run_op nx a (Pwrite fsp nm data off) v = gf_pwrite nx a fsp nm data off v"
| "run_op nx a (Ftruncate fsp nm len) v = gf_ftruncate nx a fsp nm len v"
| "run_op nx a (Renameat s d) v = gf_renameat nx a s d v"
| "run_op nx a (Unlinkat nm fl) v = gf_unlinkat nx a nm fl v"
| "run_op nx a (Mkdirat nm mode) v = gf_mkdirat nx a nm mode v"
| "run_op nx a (Close fsp) v = gf_close nx a fsp v"

text \<open>The handle is tracked by the module.\<close>

definition tracked :: "vfs \<Rightarrow> nat \<Rightarrow> bool" where
  "tracked v fsp \<longleftrightarrow> (case v_ext v fsp of Some st \<Rightarrow> fs_is_risky st | None \<Rightarrow> False)"

text \<open>The operations that ask the blocked list.\<close>

fun guarded :: "vfs \<Rightarrow> vfs_op \<Rightarrow> bool" where
  "guarded v (Openat fsp smb nm nm' how) \<longleftrightarrow>
     (case how of None \<Rightarrow> False | Some fl \<Rightarrow> fl AND O_PATH = 0 \<and> (write_mode fl \<or> create_trunc fl))"
| "guarded v (Pwrite fsp nm data off) \<longleftrightarrow> tracked v fsp"
| "guarded v (Ftruncate fsp nm len) \<longleftrightarrow>
     tracked v fsp \<or> (case nm of Some n \<Rightarrow> \<not> strncmp_proc n | None \<Rightarrow> False)"
| "guarded v (Renameat s d) \<longleftrightarrow> True"
| "guarded v (Unlinkat nm fl) \<longleftrightarrow> True"
| "guarded v (Mkdirat nm mode) \<longleftrightarrow> True"
| "guarded v (Close fsp) \<longleftrightarrow> False"

lemma deny_blocked:
  "fst (is_blocked a cfg v) \<Longrightarrow> deny_or a cfg k v = ((-1, EACCES), snd (is_blocked a cfg v))"
  by (simp add: deny_or_def case_prod_beta)

lemma guarded_denied:
  assumes "v_cfg v = Some cfg" and "gc_protect cfg" and "fst (is_blocked a cfg v)" and "guarded v op"
  shows "run_op nx a op v = ((-1, EACCES), snd (is_blocked a cfg v))"
proof (cases op)
  case (Openat fsp smb nm nm' how)
  with assms show ?thesis
    by (auto simp: gf_openat_def protected_or_next_def deny_blocked Let_def split: option.splits)
next
  case (Pwrite fsp nm data off)
  with assms show ?thesis
    by (auto simp: gf_pwrite_def protected_or_next_def deny_blocked tracked_def split: option.splits)
next
  case (Ftruncate fsp nm len)
  with assms show ?thesis
    by (auto simp: gf_ftruncate_def protected_or_next_def deny_blocked tracked_def split: option.splits)
qed (use assms in \<open>simp_all add: gf_renameat_def gf_unlinkat_def gf_mkdirat_def protected_or_next_def deny_blocked\<close>)

subsection \<open>Backups are written once\<close>

definition extends :: "files \<Rightarrow> files \<Rightarrow> bool" where
  "extends fs fs' \<longleftrightarrow> (\<forall>p n. fs p = Some n \<longrightarrow> fs' p = Some n)"

lemma extends_refl [simp, intro]: "extends fs fs"
  by (simp add: extends_def)

lemma extends_trans: "extends a b \<Longrightarrow> extends b c \<Longrightarrow> extends a c"
  by (simp add: extends_def)

lemma extends_new: "fs p = None \<Longrightarrow> extends fs (fs(p := x))"
  by (auto simp: extends_def)

lemma mkdir_all_effect:
  "extends fs (snd (mkdir_all a ps fs)) \<and> (\<forall>p. p \<notin> set ps \<longrightarrow> snd (mkdir_all a ps fs) p = fs p)"
proof (induction a ps fs rule: mkdir_all.induct)
  case (2 a p ps fs)
  let ?fs = "fs(p \<mapsto> va_dir_node a)"
  show ?case
  proof (cases "fs p = None \<and> va_mkdir a p")
    case True
    have "extends ?fs (snd (mkdir_all a ps ?fs)) \<and>
        (\<forall>q. q \<notin> set ps \<longrightarrow> snd (mkdir_all a ps ?fs) q = ?fs q)"
      by (rule 2) (use True in auto)
    moreover have "extends fs ?fs" using True by (intro extends_new) simp
    moreover have "mkdir_all a (p # ps) fs = mkdir_all a ps ?fs" using True by simp
    ultimately show ?thesis using extends_trans by auto
  next
    case False
    with 2(1) show ?thesis by auto
  qed
qed simp

lemma parent_dirs_effect:
  "extends fs (snd (parent_dirs a backup fs)) \<and> snd (parent_dirs a backup fs) backup = fs backup"
proof (cases "strrchr backup CHR ''/''")
  case (Some slash)
  obtain pre post where b: "backup = pre @ slash" "slash = CHR ''/'' # post"
    using strrchr_Some [OF Some] by blast
  let ?buf = "snprintf_s RGUARD_PATH_MAX (take (length backup - length slash) backup)"
  have short: "length ?buf < length backup"
    using b by (simp add: snprintf_s_def)
  have "\<forall>q \<in> set ([take i ?buf. i \<leftarrow> [1..<length ?buf], ?buf ! i = CHR ''/''] @ [?buf]). length q < length backup"
    using short by (auto simp del: snprintf_s_id)
  then have "backup \<notin> set ([take i ?buf. i \<leftarrow> [1..<length ?buf], ?buf ! i = CHR ''/''] @ [?buf])"
    by blast
  with mkdir_all_effect [of fs a "[take i ?buf. i \<leftarrow> [1..<length ?buf], ?buf ! i = CHR ''/''] @ [?buf]"]
  show ?thesis
    unfolding parent_dirs_def mkdir_p_def Some Let_def by simp
qed (simp add: parent_dirs_def)

lemma copy_backup_effect:
  assumes "fs backup = None"
  shows "extends fs (snd (copy_backup a src backup fs)) \<and>
    (fst (copy_backup a src backup fs) = RGUARD_OK \<longrightarrow>
      (\<exists>b. snd (copy_backup a src backup fs) backup = Some b \<and>
         (va_create a = Raced b \<or> n_regular b \<and> n_data b = n_data src)))"
proof -
  let ?r = "rguard_copy_fd (va_copy a) (n_data src) [] (length (n_data src))"
  have "snd ?r = n_data src" if "fst ?r = 0"
    using copy_fd_effect [OF that] by (auto split: if_splits)
  then show ?thesis
    using extends_new [of fs backup, OF assms]
    by (auto simp: copy_backup_def case_prod_beta backup_node_def split: create_result.splits)
qed

text \<open>What a backup leaves: nothing that existed has changed, and after success a copy is there.\<close>

definition backed_up :: "vfs_answers \<Rightarrow> files \<Rightarrow> files \<Rightarrow> string \<Rightarrow> vnode \<Rightarrow> bool" where
  "backed_up a fs fs' bk src \<longleftrightarrow>
     (\<exists>b. fs' bk = Some b \<and> (fs bk = Some b \<or> va_create a = Raced b \<or> n_regular b \<and> n_data b = n_data src))"

lemma do_backup_effect:
  "extends fs (snd (do_backup a cfg src share rel fs)) \<and>
    (fst (fst (do_backup a cfg src share rel fs)) = RGUARD_OK \<longrightarrow>
      (\<exists>st bk. user_stat a fs src = Some st \<and> compute_backup_path cfg share rel = Some bk \<and>
         backed_up a fs (snd (do_backup a cfg src share rel fs)) bk st))"
proof (cases "user_stat a fs src")
  case (Some st)
  show ?thesis
  proof (cases "compute_backup_path cfg share rel")
    case bk: (Some bk)
    show ?thesis
    proof (cases "fs bk")
      case None
      note pd = parent_dirs_effect [of fs a bk]
      let ?fs1 = "snd (parent_dirs a bk fs)"
      have n1: "?fs1 bk = None" using pd None by simp
      note cb = copy_backup_effect [of ?fs1 bk a st, OF n1]
      have ext: "extends fs (snd (copy_backup a st bk ?fs1))"
        using extends_trans pd cb by blast
      have "fst (copy_backup a st bk ?fs1) = RGUARD_OK \<longrightarrow>
          backed_up a fs (snd (copy_backup a st bk ?fs1)) bk st"
        using cb by (auto simp: backed_up_def)
      with ext pd show ?thesis
        by (simp add: do_backup_def Some bk None case_prod_beta Let_def)
    next
      case there: (Some b)
      then have "backed_up a fs fs bk st" by (auto simp: backed_up_def)
      with there show ?thesis by (simp add: do_backup_def Some bk)
    qed
  qed (simp add: do_backup_def Some)
qed (simp add: do_backup_def)

text \<open>The part of the file system only the module writes.\<close>

definition backup_area :: "gfrguard_config \<Rightarrow> string \<Rightarrow> bool" where
  "backup_area cfg p \<longleftrightarrow> (\<exists>q. p = gc_store_path cfg @ ''/backups/'' @ q)"

definition stays_out :: "next_module \<Rightarrow> gfrguard_config \<Rightarrow> bool" where
  "stays_out nx cfg \<longleftrightarrow> (\<forall>c fs p. backup_area cfg p \<longrightarrow> snd (nx c fs) p = fs p)"

lemma compute_in_area: "compute_backup_path cfg share rel = Some bk \<Longrightarrow> backup_area cfg bk"
  by (auto simp: compute_backup_path_def backup_area_def Let_def split: if_splits)

text \<open>A step that keeps every backup and the configuration's fixed part.\<close>

definition keeps :: "gfrguard_config \<Rightarrow> vfs \<Rightarrow> vfs \<Rightarrow> bool" where
  "keeps cfg v v' \<longleftrightarrow> (\<forall>p n. backup_area cfg p \<and> v_files v p = Some n \<longrightarrow> v_files v' p = Some n) \<and> v_conn v' = v_conn v"

lemma keeps_refl [simp, intro]: "keeps cfg v v"
  by (simp add: keeps_def)

lemma keeps_trans: "keeps cfg a b \<Longrightarrow> keeps cfg b c \<Longrightarrow> keeps cfg a c"
  by (simp add: keeps_def)

lemma keeps_same: "v_files v' = v_files v \<Longrightarrow> v_conn v' = v_conn v \<Longrightarrow> keeps cfg v v'"
  by (simp add: keeps_def)

lemma keeps_next: "stays_out nx cfg \<Longrightarrow> keeps cfg v (snd (call_next nx c v))"
  by (simp add: keeps_def stays_out_def call_next_def case_prod_beta)

lemma keeps_backup: "keeps cfg v (snd (run_backup a cfg' src share rel v))"
  using do_backup_effect [of "v_files v" a cfg' src share rel]
  by (auto simp: keeps_def run_backup_def case_prod_beta extends_def)

lemma keeps_send [simp, intro]: "keeps cfg v (send_event a cfg' op fl rel nn st v)"
  by (rule keeps_same) simp_all

lemma keeps_attach [simp, intro]: "keeps cfg v (attach a fsp st v)" "keeps cfg v (put_state fsp st v)"
  by (rule keeps_same; simp add: attach_def put_state_def)+

lemma keeps_blocked_check: "(\<And>cfg' v'. keeps cfg v' (snd (k cfg' v'))) \<Longrightarrow> keeps cfg v (snd (deny_or a c k v))"
proof -
  assume k: "\<And>cfg' v'. keeps cfg v' (snd (k cfg' v'))"
  have "keeps cfg v (snd (is_blocked a c v))" by (rule keeps_same) simp_all
  then show ?thesis
    using keeps_trans [OF _ k] by (simp add: deny_or_def case_prod_beta)
qed

lemma keeps_protected:
  "stays_out nx cfg \<Longrightarrow> (\<And>cfg' v'. keeps cfg v' (snd (k cfg' v'))) \<Longrightarrow> keeps cfg v (snd (protected_or_next nx c k v))"
  by (simp add: protected_or_next_def keeps_next split: option.split)

lemma keeps_deferred: "keeps cfg v (snd (gf_deferred_backup a cfg' nm st op fl v))"
proof -
  have "keeps cfg v (send_event a cfg' op fl' rel None None (snd (run_backup a cfg' src share rel' v)))" for fl' rel src share rel'
    by (rule keeps_trans [OF keeps_backup keeps_send])
  then show ?thesis
    by (auto simp: gf_deferred_backup_def case_prod_beta Let_def keeps_backup)
qed

lemma keeps_then:
  "keeps cfg v (snd x) \<Longrightarrow> (\<And>r v'. keeps cfg v' (snd (g r v'))) \<Longrightarrow> keeps cfg v (snd (case x of (r, v') \<Rightarrow> g r v'))"
  by (cases x) (auto intro: keeps_trans)

lemma keeps_open_steps [simp, intro]:
  "keeps cfg v (track_open a fsp rel cfg' rc v)" "keeps cfg v (new_file_open a fsp rel cfg' v)"
  by (simp_all add: track_open_def Let_def new_file_open_def keeps_trans [OF keeps_send keeps_attach(1)])

lemma keeps_openat_next: "stays_out nx cfg \<Longrightarrow> keeps cfg v (snd (openat_next nx a c fsp rel cfg' risky creates rc st v))"
  unfolding openat_next_def Let_def
  by (rule keeps_then [OF keeps_next]) (auto intro: keeps_trans [OF keeps_open_steps(1) keeps_send])

lemma keeps_openat_path:
  "stays_out nx cfg \<Longrightarrow> keeps cfg v (snd (openat_path nx a c fsp rel fl cfg' v))"
  by (auto simp: openat_path_def Let_def case_prod_beta keeps_openat_next
      intro: keeps_trans [OF keeps_backup keeps_send] keeps_trans [OF keeps_backup keeps_openat_next])

lemma keeps_procfd: "stays_out nx cfg \<Longrightarrow> keeps cfg v (snd (openat_procfd nx a c fsp nm v))"
  unfolding openat_procfd_def Let_def by (rule keeps_then [OF keeps_next]) auto

lemma keeps_deferred_then:
  assumes "\<And>x v'. keeps cfg v' (snd (g x v'))"
  shows "keeps cfg v (snd (case gf_deferred_backup a cfg' nm st op fl v of (x, v') \<Rightarrow> g x v'))"
  by (rule keeps_then [OF keeps_deferred assms])

lemma keeps_pwrite_deferred:
  assumes "stays_out nx cfg"
  shows "keeps cfg v (snd (pwrite_deferred nx a c fsp nm st cfg' v))"
proof -
  have put: "keeps cfg v (snd (call_next nx c (put_state fsp st' v)))" for st' v
    by (rule keeps_trans [OF keeps_attach(2) keeps_next [OF assms]])
  have sent: "keeps cfg v (send_event a cfg' op fl rel nn n (put_state fsp st' v))" for op fl rel nn n st' v
    by (rule keeps_trans [OF keeps_attach(2) keeps_send])
  show ?thesis
    unfolding pwrite_deferred_def Let_def
    by (rule keeps_deferred_then)
      (auto simp: case_prod_beta put split: gf_defer_rc.splits intro: keeps_trans [OF put sent])
qed

lemma keeps_truncate_deferred:
  assumes "stays_out nx cfg"
  shows "keeps cfg v (snd (truncate_deferred nx a c fsp nm st cfg' v))"
proof -
  have put: "keeps cfg v (snd (call_next nx c (put_state fsp st' v)))" for st' v
    by (rule keeps_trans [OF keeps_attach(2) keeps_next [OF assms]])
  show ?thesis
    unfolding truncate_deferred_def Let_def
    by (rule keeps_deferred_then) (auto simp: case_prod_beta intro: keeps_trans [OF put keeps_send])
qed

lemma keeps_next_send:
  "stays_out nx cfg \<Longrightarrow> keeps cfg v (send_event a cfg' op fl rel nn st (snd (call_next nx c v)))"
  by (rule keeps_trans [OF keeps_next keeps_send])

lemma keeps_truncate_untracked:
  assumes "stays_out nx cfg"
  shows "keeps cfg v (snd (truncate_untracked nx a c fsp rel cfg' v))"
proof -
  have tracked: "keeps cfg v (track_open a fsp rel cfg' rc (snd (run_backup a cfg' f sh rel v)))" for rc f sh
    by (rule keeps_trans [OF keeps_backup keeps_open_steps(1)])
  show ?thesis
    by (auto simp: truncate_untracked_def Let_def case_prod_beta keeps_next [OF assms]
        intro: keeps_trans [OF tracked keeps_send] keeps_trans [OF tracked keeps_next_send [OF assms]])
qed

lemma keeps_unlink: "stays_out nx cfg \<Longrightarrow> keeps cfg v (snd (unlink_path nx a c rel cfg' v))"
  by (auto simp: unlink_path_def Let_def case_prod_beta keeps_next_send
      intro: keeps_trans [OF keeps_backup keeps_send] keeps_trans [OF keeps_backup keeps_next_send])

lemma keeps_op:
  assumes "stays_out nx cfg"
  shows "keeps cfg v (snd (run_op nx a op v))"
proof -
  note [intro!] = keeps_protected [OF assms] keeps_blocked_check
  note [simp] = keeps_next [OF assms] keeps_openat_path [OF assms] keeps_procfd [OF assms]
    keeps_pwrite_deferred [OF assms] keeps_truncate_deferred [OF assms] keeps_truncate_untracked [OF assms]
    keeps_unlink [OF assms] keeps_next_send [OF assms] Let_def case_prod_beta
  show ?thesis
  proof (cases op)
    case (Openat fsp smb nm nm' how)
    show ?thesis unfolding Openat run_op.simps gf_openat_def by auto
  next
    case (Pwrite fsp nm data off)
    show ?thesis unfolding Pwrite run_op.simps gf_pwrite_def by (auto split: option.split)
  next
    case (Ftruncate fsp nm len)
    show ?thesis unfolding Ftruncate run_op.simps gf_ftruncate_def by (auto split: option.split)
  next
    case (Renameat s d)
    show ?thesis unfolding Renameat run_op.simps gf_renameat_def by auto
  next
    case (Unlinkat nm fl)
    show ?thesis unfolding Unlinkat run_op.simps gf_unlinkat_def by auto
  next
    case (Mkdirat nm mode)
    show ?thesis unfolding Mkdirat run_op.simps gf_mkdirat_def by auto
  next
    case (Close fsp)
    show ?thesis unfolding Close run_op.simps gf_close_def
      by (auto split: option.split intro: keeps_trans [OF keeps_send keeps_next [OF assms]])
  qed
qed

text \<open>Any sequence of operations, each with the answers it meets.\<close>

fun run_ops :: "next_module \<Rightarrow> (vfs_answers \<times> vfs_op) list \<Rightarrow> vfs \<Rightarrow> vfs" where
  "run_ops nx [] v = v"
| "run_ops nx ((a, op) # ops) v = run_ops nx ops (snd (run_op nx a op v))"

lemma keeps_ops: "stays_out nx cfg \<Longrightarrow> keeps cfg v (run_ops nx ops v)"
  by (induction nx ops v rule: run_ops.induct) (auto intro: keeps_trans [OF keeps_op])

subsection \<open>No destruction without a backup\<close>

text \<open>The regular file an operation is about to destroy, with its path in the share.\<close>

definition file_at :: "vfs_answers \<Rightarrow> vfs \<Rightarrow> string \<Rightarrow> (string \<times> vnode) option" where
  "file_at a v rel =
     (case user_stat a (v_files v) (full_path (v_conn v) rel) of
        Some n \<Rightarrow> if n_regular n then Some (rel, n) else None
      | None \<Rightarrow> None)"

definition open_name :: "string option \<Rightarrow> string option \<Rightarrow> string" where
  "open_name smb nm = (case nm of Some n \<Rightarrow> n | None \<Rightarrow> fname_str smb)"

fun victim :: "vfs_answers \<Rightarrow> vfs \<Rightarrow> vfs_op \<Rightarrow> (string \<times> vnode) option" where
  "victim a v (Openat fsp smb nm nm' how) =
     (case how of
        None \<Rightarrow> None
      | Some fl \<Rightarrow>
          if fl AND O_PATH = 0 \<and> destroys fl \<and>
             \<not> (strncmp_proc (fname_str smb) \<and> strncmp_proc (open_name smb nm))
          then file_at a v (open_name smb nm) else None)"
| "victim a v (Unlinkat nm fl) = file_at a v (fname_str nm)"
| "victim a v (Ftruncate fsp nm len) =
     (case nm of
        None \<Rightarrow> None
      | Some rel \<Rightarrow> if \<not> tracked v fsp \<and> \<not> strncmp_proc rel then file_at a v rel else None)"
| "victim a v op = None"

text \<open>The outcome of a guarded destruction: refused, or handed on with the backup in place.\<close>

definition backed_or_refused ::
  "vfs_answers \<Rightarrow> gfrguard_config \<Rightarrow> vfs \<Rightarrow> string \<Rightarrow> vnode \<Rightarrow> vfs_result \<times> vfs \<Rightarrow> bool" where
  "backed_or_refused a cfg v rel n out \<longleftrightarrow>
     (if v_next (snd out) = v_next v then fst (fst out) = -1
      else \<exists>bk. compute_backup_path cfg (share_name_of (v_conn v)) rel = Some bk \<and>
        backed_up a (v_files v) (v_files (snd out)) bk n)"

lemma call_next_frame [simp]:
  "v_next (snd (call_next nx c v)) = v_next v @ [c]" "v_files (snd (call_next nx c v)) = snd (nx c (v_files v))"
  "v_conn (snd (call_next nx c v)) = v_conn v" "v_cfg (snd (call_next nx c v)) = v_cfg v"
  "v_ext (snd (call_next nx c v)) = v_ext v"
  by (simp_all add: call_next_def case_prod_beta)

lemma attach_frame [simp]:
  "v_next (attach a fsp st v) = v_next v" "v_files (attach a fsp st v) = v_files v"
  "v_conn (attach a fsp st v) = v_conn v"
  "v_next (put_state fsp st v) = v_next v" "v_files (put_state fsp st v) = v_files v"
  "v_next (track_open a fsp rel cfg rc v) = v_next v" "v_files (track_open a fsp rel cfg rc v) = v_files v"
  "v_next (new_file_open a fsp rel cfg v) = v_next v" "v_files (new_file_open a fsp rel cfg v) = v_files v"
  by (simp_all add: attach_def put_state_def track_open_def new_file_open_def Let_def)

lemma run_backup_frame [simp]:
  "v_next (snd (run_backup a cfg src share rel v)) = v_next v"
  "v_conn (snd (run_backup a cfg src share rel v)) = v_conn v"
  by (simp_all add: run_backup_def case_prod_beta)

lemma openat_next_frame [simp]:
  "v_next (snd (openat_next nx a c fsp rel cfg risky creates rc st v)) = v_next v @ [c]"
  "v_files (snd (openat_next nx a c fsp rel cfg risky creates rc st v)) = snd (nx c (v_files v))"
  by (simp_all add: openat_next_def Let_def case_prod_beta)

lemma run_backup_ok:
  assumes "fst (fst (run_backup a cfg (full_path (v_conn v) rel) share rel v)) = RGUARD_OK"
    and "file_at a v rel = Some (rel, n)" and "stays_out nx cfg"
  shows "\<exists>bk. compute_backup_path cfg share rel = Some bk \<and>
    backed_up a (v_files v) (snd (nx c (v_files (snd (run_backup a cfg (full_path (v_conn v) rel) share rel v))))) bk n"
proof -
  let ?fs = "snd (do_backup a cfg (full_path (v_conn v) rel) share rel (v_files v))"
  from assms(1) obtain st bk where st: "user_stat a (v_files v) (full_path (v_conn v) rel) = Some st"
    and bk: "compute_backup_path cfg share rel = Some bk" and b: "backed_up a (v_files v) ?fs bk st"
    using do_backup_effect [of "v_files v" a cfg "full_path (v_conn v) rel" share rel]
    by (auto simp: run_backup_def case_prod_beta)
  from st assms(2) have "n = st" by (auto simp: file_at_def split: if_splits)
  moreover have "snd (nx c ?fs) bk = ?fs bk"
    using assms(3) compute_in_area [OF bk] by (simp add: stays_out_def)
  ultimately show ?thesis
    using b bk by (simp add: backed_up_def run_backup_def case_prod_beta)
qed

lemma file_at_regular: "file_at a v rel = Some (rel', n) \<Longrightarrow> rel' = rel \<and> regular_at a (v_files v) (full_path (v_conn v) rel)"
  by (auto simp: file_at_def regular_at_def split: option.splits if_splits)

lemma openat_backed:
  assumes "file_at a v rel = Some (rel, n)" and "destroys fl" and "gc_mode cfg = GFR_MODE_STRICT" and "stays_out nx cfg"
  shows "backed_or_refused a cfg v rel n (openat_path nx a c fsp rel fl cfg v)"
  using file_at_regular [OF assms(1)] assms(2,3) run_backup_ok [OF _ assms(1,4)]
  by (auto simp: openat_path_def backed_or_refused_def Let_def case_prod_beta)

lemma unlink_backed:
  assumes "file_at a v rel = Some (rel, n)" and "gc_mode cfg = GFR_MODE_STRICT" and "stays_out nx cfg"
  shows "backed_or_refused a cfg v rel n (unlink_path nx a c rel cfg v)"
  using file_at_regular [OF assms(1)] assms(2) run_backup_ok [OF _ assms(1,3)]
  by (auto simp: unlink_path_def backed_or_refused_def Let_def case_prod_beta)

lemma truncate_backed:
  assumes "file_at a v rel = Some (rel, n)" and "gc_mode cfg = GFR_MODE_STRICT" and "stays_out nx cfg"
  shows "backed_or_refused a cfg v rel n (truncate_untracked nx a c fsp rel cfg v)"
  using file_at_regular [OF assms(1)] assms(2) run_backup_ok [OF _ assms(1,3)]
  by (auto simp: truncate_untracked_def backed_or_refused_def Let_def case_prod_beta)

lemma compute_refresh [simp]:
  "compute_backup_path (refresh_blocked_cache a fs cfg) = compute_backup_path cfg"
  by (intro ext) (simp add: compute_backup_path_def)

lemma stays_out_refresh [simp]: "stays_out nx (refresh_blocked_cache a fs cfg) = stays_out nx cfg"
  by (simp add: stays_out_def backup_area_def)

lemma deny_backed:
  assumes "backed_or_refused a (refresh_blocked_cache a (v_files v) cfg) (snd (is_blocked a cfg v)) rel n
      (k (refresh_blocked_cache a (v_files v) cfg) (snd (is_blocked a cfg v)))"
  shows "backed_or_refused a cfg v rel n (deny_or a cfg k v)"
  using assms by (auto simp: deny_or_def case_prod_beta backed_or_refused_def split: if_splits)

lemma file_at_blocked [simp]: "file_at a (snd (is_blocked a' cfg v)) rel = file_at a v rel"
  by (simp add: file_at_def)

lemma victim_backed:
  assumes "v_cfg v = Some cfg" and "gc_protect cfg" and "gc_mode cfg = GFR_MODE_STRICT" and "stays_out nx cfg"
    and "victim a v op = Some (rel, n)"
  shows "backed_or_refused a cfg v rel n (run_op nx a op v)"
proof (cases op)
  case (Openat fsp smb nm nm' how)
  with assms(5) obtain fl where fl: "how = Some fl" "fl AND O_PATH = 0" "destroys fl"
    "\<not> (strncmp_proc (fname_str smb) \<and> strncmp_proc (open_name smb nm))" "file_at a v (open_name smb nm) = Some (rel, n)"
    by (auto split: option.splits if_splits)
  then have rel: "open_name smb nm = rel" using file_at_regular by blast
  have wr: "(\<not> write_mode fl \<and> \<not> create_trunc fl) = False" using fl(3) by (auto simp: destroys_def)
  have np: "(strncmp_proc (fname_str smb) \<and> strncmp_proc (open_name smb nm)) = False" using fl(4) by simp
  have "run_op nx a op v = deny_or a cfg (\<lambda>cfg' v.
      openat_path nx a (Next_openat fsp (fname_str smb) fl) fsp (open_name smb nm) fl cfg' v) v"
    using assms(1,2) fl(1,2)
    by (simp add: Openat gf_openat_def protected_or_next_def Let_def wr np flip: open_name_def)
  then show ?thesis
    using deny_backed openat_backed fl(3,5) assms(3,4) rel by (metis file_at_blocked refresh_frame(2) stays_out_refresh)
next
  case (Ftruncate fsp nm len)
  with assms(5) obtain r where r: "nm = Some r" "\<not> tracked v fsp" "\<not> strncmp_proc r" "file_at a v r = Some (rel, n)"
    by (auto split: option.splits if_splits)
  then have rel: "r = rel" using file_at_regular by blast
  have un: "(case v_ext v fsp of Some st \<Rightarrow> if fs_is_risky st then Some st else None | None \<Rightarrow> None) = None"
    using r(2) by (auto simp: tracked_def split: option.splits)
  have "run_op nx a op v = deny_or a cfg (truncate_untracked nx a (Next_ftruncate fsp len) fsp r) v"
    using assms(1,2) r by (simp add: Ftruncate gf_ftruncate_def protected_or_next_def un)
  then show ?thesis
    using deny_backed truncate_backed r(4) assms(3,4) rel by (metis file_at_blocked refresh_frame(2) stays_out_refresh)
next
  case (Unlinkat nm fl)
  then have f: "file_at a v (fname_str nm) = Some (rel, n)" using assms(5) by simp
  then have rel: "fname_str nm = rel" using file_at_regular by blast
  have "run_op nx a op v = deny_or a cfg (unlink_path nx a (Next_unlinkat (fname_str nm) fl) (fname_str nm)) v"
    using assms(1,2) by (simp add: Unlinkat gf_unlinkat_def protected_or_next_def)
  then show ?thesis
    using deny_backed unlink_backed f assms(3,4) rel by (metis file_at_blocked refresh_frame(2) stays_out_refresh)
qed (use assms(5) in simp_all)

subsection \<open>The comparison on close\<close>

lemma compare_loop_plain:
  "length bk = length cur \<Longrightarrow>
    compare_loop [] [] bk cur hb hc = Some (fnv_loop bk hb, fnv_loop cur hc, [])"
proof (induction "length bk" arbitrary: bk cur hb hc rule: less_induct)
  case less
  show ?case
  proof (cases "bk = []")
    case True
    with less.prems show ?thesis by (subst compare_loop.simps) (simp add: read_bytes_def)
  next
    case False
    let ?x = "take 8192 bk" and ?y = "take 8192 cur"
    have len: "length ?y = length ?x" "length ?x = min 8192 (length bk)" using less.prems by simp_all
    have "compare_loop [] [] bk cur hb hc =
        compare_loop [] [] (drop 8192 bk) (drop 8192 cur) (fnv_loop ?x hb) (fnv_loop ?y hc)"
      using False less.prems by (subst compare_loop.simps) (auto simp: read_bytes_def min_def)
    also have "\<dots> = Some (fnv_loop (drop 8192 bk) (fnv_loop ?x hb), fnv_loop (drop 8192 cur) (fnv_loop ?y hc), [])"
      using False less.prems by (intro less.hyps) (auto simp flip: length_greater_0_conv)
    finally show ?thesis
      by (simp add: fnv_loop_append [symmetric])
  qed
qed

text \<open>Any equality the comparison reports is one of sizes and of hashes of what was read.\<close>

lemma compare_loop_sound:
  "compare_loop rb rc bk cur hb hc = Some (hb', hc', rest) \<Longrightarrow>
    \<exists>m. m \<le> length bk \<and> hb' = fnv_loop (take m bk) hb \<and> hc' = fnv_loop (take m cur) hc \<and> rest = drop m cur"
proof (induction rb rc bk cur hb hc rule: compare_loop.induct)
  case (1 rb rc bk cur hb hc)
  obtain ox rb' where x: "read_bytes rb bk = (ox, rb')" by fastforce
  show ?case
  proof (cases "ox = None \<or> ox = Some []")
    case True
    with "1.prems" x have "hb' = hb \<and> hc' = hc \<and> rest = cur"
      by (subst (asm) compare_loop.simps) auto
    then show ?thesis by (intro exI [of _ 0]) simp
  next
    case False
    then obtain xs where xs: "ox = Some xs" "xs \<noteq> []" by auto
    obtain oy rc' where y: "read_bytes rc cur = (oy, rc')" by fastforce
    from "1.prems" x xs y obtain ys where ys: "oy = Some ys" "length ys = length xs"
      by (subst (asm) compare_loop.simps) (auto split: option.splits if_splits)
    have pre: "xs = take (length xs) bk" "ys = take (length ys) cur" "length xs \<le> length bk"
      using x y xs(1) ys(1) by (auto simp: read_bytes_def min_def split: list.splits io_step.splits)
    from "1.prems" x xs y ys have "compare_loop rb' rc' (drop (length xs) bk) (drop (length ys) cur)
        (fnv_loop xs hb) (fnv_loop ys hc) = Some (hb', hc', rest)"
      by (subst (asm) compare_loop.simps) simp
    from "1.IH" [OF x [symmetric] _ xs(2) y [symmetric] _ _ this] xs ys obtain m where
      "m \<le> length (drop (length xs) bk)"
      "hb' = fnv_loop (take m (drop (length xs) bk)) (fnv_loop xs hb)"
      "hc' = fnv_loop (take m (drop (length ys) cur)) (fnv_loop ys hc)" "rest = drop m (drop (length ys) cur)"
      by auto
    moreover have "take (length xs + m) bk = xs @ take m (drop (length xs) bk)"
      "take (length xs + m) cur = ys @ take m (drop (length ys) cur)"
      "drop (length xs + m) cur = drop m (drop (length ys) cur)"
      using pre ys(2) by (simp_all only: take_add drop_drop add.commute [of m] flip: pre(1,2))
    ultimately show ?thesis
      using pre(3) by (intro exI [of _ "length xs + m"]) (simp add: fnv_loop_append)
  qed
qed

end
