(* ===== verification/Vfs_Claims.thy ===== *)
theory Vfs_Claims
  imports Vfs_Props
begin

text \<open>The properties of the Samba module, over its operations and the answers they meet.\<close>

subsection \<open>Denial\<close>

lemma listed_denied:
  assumes "v_cfg v = Some cfg" and "gc_protect cfg" and "v_files v (gc_blocked_path cfg) = Some n"
    and "sees_file a cfg n" and "session_ip (v_conn v) \<noteq> []"
    and "session_ip (v_conn v) \<in> set (lines_of (n_data n))" and "guarded v op"
  shows "fst (run_op nx a op v) = (-1, EACCES) \<and> v_files (snd (run_op nx a op v)) = v_files v \<and>
    v_next (snd (run_op nx a op v)) = v_next v \<and> v_ext (snd (run_op nx a op v)) = v_ext v"
proof -
  have "fst (is_blocked a cfg v)" using blocked_iff_listed [OF assms(3,4)] assms(5,6) by simp
  from guarded_denied [OF assms(1,2) this assms(7), of nx] show ?thesis by simp
qed

text \<open>
  A client whose address is a line of the blocked file is denied: when the module can read
  the file and its cached copy is not stale, every operation that asks the list (opening for
  writing, writing to or truncating a tracked handle, truncating by name, renaming, deleting,
  creating a directory) fails with EACCES, the next module is not called and no file changes.
\<close>

theorem blocked_client_denied:
  assumes "v_cfg v = Some cfg" and "gc_protect cfg" and "v_files v (gc_blocked_path cfg) = Some n"
    and "sees_file a cfg n" and "session_ip (v_conn v) \<noteq> []"
    and "session_ip (v_conn v) \<in> set (lines_of (n_data n))" and "guarded v op"
  shows "fst (run_op nx a op v) = (-1, EACCES) \<and> v_files (snd (run_op nx a op v)) = v_files v \<and>
    v_next (snd (run_op nx a op v)) = v_next v \<and> v_ext (snd (run_op nx a op v)) = v_ext v"
  using assms by (rule listed_denied)

text \<open>A connection to the share \<open>docs\<close> from 10.0.0.9 with one file, in strict mode.\<close>

definition sample_node :: "string \<Rightarrow> vnode" where
  "sample_node bytes = \<lparr>n_regular = True, n_data = bytes, n_ino = 7, n_mtime = 100, n_mtime_ns = 5,
     n_uid = 1000, n_gid = 100, n_mode = 0x81A4\<rparr>"

definition sample_vfs_answers :: vfs_answers where
  "sample_vfs_answers = \<lparr>va_time = 1000, va_sends = [Send_again, Sent], va_blocked_stat = True,
     va_blocked_open = True, va_alloc = True, va_blocked_read = Io_bytes 4096, va_hidden = (\<lambda>_. False),
     va_mkdir = (\<lambda>_. True), va_dir_node = sample_node [], va_src_open = True, va_src_fstat = True,
     va_create = Created, va_new_ino = 9,
     va_copy = \<lparr>c_src_at = 0, c_dst_at = 0, c_clone = True, c_range = [], c_seek_src = True, c_seek_dst = True, c_reads = [], c_writes = []\<rparr>,
     va_extension = True, va_compare_open = True, va_reads_backup = [], va_reads_current = [],
     va_last_read = Io_bytes 1\<rparr>"

definition sample_config :: gfrguard_config where
  "sample_config = \<lparr>gc_protect = True, gc_mode = GFR_MODE_STRICT, gc_store_path = ''/store'',
     gc_socket_path = ''/run/gfrguardd/gfrguardd.sock'', gc_sock_fd = True,
     gc_blocked_path = BLOCKED_PATH_DEFAULT, gc_blocked_mtime = 0, gc_blocked_mtime_ns = 0,
     gc_blocked_content = None\<rparr>"

definition sample_vfs :: "string \<Rightarrow> vfs" where
  "sample_vfs blocked = \<lparr>v_cfg = Some sample_config,
     v_conn = \<lparr>sc_unix_name = Some ''eve'', sc_remote_host = Some ''10.0.0.9'', sc_service = Some ''docs'',
       sc_connectpath = ''/mnt/docs''\<rparr>,
     v_files = [BLOCKED_PATH_DEFAULT \<mapsto> sample_node blocked, ''/mnt/docs/a.txt'' \<mapsto> sample_node ''old text''],
     v_ext = Map.empty, v_sent = [], v_next = []\<rparr>"

text \<open>A next module that lets everything succeed and truncates what is opened.\<close>

definition sample_next :: next_module where
  "sample_next c fs = ((3, 0),
     (case c of
        Next_openat fsp name fl \<Rightarrow>
          if fl AND O_TRUNC \<noteq> 0 then fs(''/mnt/docs/a.txt'' \<mapsto> sample_node []) else fs
      | _ \<Rightarrow> fs))"

lemma sample_facts:
  "v_cfg (sample_vfs bl) = Some sample_config" "gc_protect sample_config"
  "gc_mode sample_config = GFR_MODE_STRICT"
  "v_files (sample_vfs bl) (gc_blocked_path sample_config) = Some (sample_node bl)"
  "length bl \<le> 4096 \<Longrightarrow> sees_file sample_vfs_answers sample_config (sample_node bl)"
  "session_ip (v_conn (sample_vfs bl)) = ''10.0.0.9''"
  by (simp_all add: sample_vfs_def sample_config_def sees_file_def sample_vfs_answers_def session_ip_def
      sample_node_def BLOCKED_PATH_DEFAULT_def)

lemma sample_stays_out: "stays_out sample_next sample_config"
  by (auto simp: stays_out_def sample_next_def backup_area_def sample_config_def split: vfs_call.split)

theorem blocked_client_denied_witness:
  "fst (run_op sample_next sample_vfs_answers (Unlinkat (Some ''a.txt'') 0)
     (sample_vfs (''10.0.0.9'' @ [newline]))) = (-1, EACCES)"
proof -
  let ?bl = "''10.0.0.9'' @ [newline]"
  have "newline \<notin> set ''10.0.0.9''" by (simp add: newline_def)
  from lines_of_single [OF this] have "''10.0.0.9'' \<in> set (lines_of ?bl)" by (simp only: list.set insert_iff simp_thms)
  then have listed: "session_ip (v_conn (sample_vfs ?bl)) \<in> set (lines_of (n_data (sample_node ?bl)))"
    unfolding sample_facts(6) by (simp only: sample_node_def vnode.simps)
  have ip: "session_ip (v_conn (sample_vfs ?bl)) \<noteq> []" unfolding sample_facts(6) by simp
  have "length ?bl \<le> 4096" by simp
  from blocked_client_denied [OF sample_facts(1,2,4) sample_facts(5) [OF this] ip listed, THEN conjunct1]
  show ?thesis by (simp only: guarded.simps simp_thms)
qed

subsection \<open>Backups\<close>

text \<open>
  C16: The first backup of a file is final: as long as the next module keeps out of the store, no
  sequence of operations, whatever their answers, changes or removes a backup that exists; the
  module only ever creates missing entries below the backup directory.
\<close>

theorem backups_written_once:
  assumes "stays_out nx cfg" and "backup_area cfg p" and "v_files v p = Some b"
  shows "v_files (run_ops nx ops v) p = Some b"
  using keeps_ops [OF assms(1), of v ops] assms(2,3) by (simp add: keeps_def)

theorem backups_written_once_witness:
  "v_files (run_ops sample_next [(sample_vfs_answers, Unlinkat (Some ''a.txt'') 0)]
     ((sample_vfs [])\<lparr>v_files := [''/store/backups/docs/a.txt'' \<mapsto> sample_node ''first'']\<rparr>))
     ''/store/backups/docs/a.txt'' = Some (sample_node ''first'')"
proof -
  have "backup_area sample_config ''/store/backups/docs/a.txt''"
    by (simp add: backup_area_def sample_config_def)
  then show ?thesis by (rule backups_written_once [OF sample_stays_out]) simp
qed

text \<open>
  C2: In strict mode no regular file is destroyed without a backup: an open that overwrites or
  truncates it, a deletion, or a truncation by name is refused with the next module not called,
  or the backup exists when it returns: it was there before, another process created it at that
  moment, or it holds exactly the bytes the file held.
\<close>

theorem destroyed_files_have_backups:
  assumes "v_cfg v = Some cfg" and "gc_protect cfg" and "gc_mode cfg = GFR_MODE_STRICT" and "stays_out nx cfg"
    and "victim a v op = Some (rel, n)"
  shows "if v_next (snd (run_op nx a op v)) = v_next v then fst (fst (run_op nx a op v)) = -1
    else \<exists>bk b. compute_backup_path cfg (share_name_of (v_conn v)) rel = Some bk \<and>
      v_files (snd (run_op nx a op v)) bk = Some b \<and>
      (v_files v bk = Some b \<or> va_create a = Raced b \<or> n_regular b \<and> n_data b = n_data n)"
  using victim_backed [OF assms] by (auto simp: backed_or_refused_def backed_up_def)

lemma sample_victim:
  "victim sample_vfs_answers (sample_vfs []) (Unlinkat (Some ''a.txt'') 0) = Some (''a.txt'', sample_node ''old text'')"
  by (simp add: file_at_def fname_str_def full_path_def sample_vfs_def user_stat_def sample_vfs_answers_def
      sample_node_def RGUARD_PATH_MAX_def BLOCKED_PATH_DEFAULT_def)

theorem destroyed_files_have_backups_witness:
  "let (r, v') = run_op sample_next sample_vfs_answers (Unlinkat (Some ''a.txt'') 0) (sample_vfs []) in
     if v_next v' = [] then fst r = -1
     else \<exists>b. v_files v' ''/store/backups/docs/a.txt'' = Some b \<and> n_data b = ''old text''"
proof -
  let ?v = "sample_vfs []" and ?op = "Unlinkat (Some ''a.txt'') 0"
  have path: "compute_backup_path sample_config (share_name_of (v_conn ?v)) ''a.txt'' = Some ''/store/backups/docs/a.txt''"
    by (simp add: compute_backup_path_def sample_config_def share_name_of_def sample_vfs_def RGUARD_PATH_MAX_def)
  have start: "v_files ?v ''/store/backups/docs/a.txt'' = None" "v_next ?v = []" "va_create sample_vfs_answers = Created"
    "n_data (sample_node ''old text'') = ''old text''"
    by (simp_all add: sample_vfs_def sample_node_def BLOCKED_PATH_DEFAULT_def sample_vfs_answers_def)
  from destroyed_files_have_backups [OF sample_facts(1-3) sample_stays_out sample_victim] show ?thesis
    unfolding path case_prod_beta Let_def by (auto simp: start split: if_splits)
qed

subsection \<open>What slips through\<close>

text \<open>The answer an operation gives when the module does nothing but hand it on.\<close>

definition handed_on :: "next_module \<Rightarrow> vfs_call \<Rightarrow> vfs \<Rightarrow> vfs_result \<times> vfs \<Rightarrow> bool" where
  "handed_on nx c v out \<longleftrightarrow>
     fst out = fst (nx c (v_files v)) \<and> v_files (snd out) = snd (nx c (v_files v)) \<and> v_sent (snd out) = v_sent v"

lemma is_blocked_sent [simp]: "\<not> fst (is_blocked a cfg v) \<Longrightarrow> v_sent (snd (is_blocked a cfg v)) = v_sent v"
  by (auto simp: is_blocked_def Let_def split: option.splits if_splits)

text \<open>
  C20: Opening an existing file for appending escapes the module, in strict mode too, and with
  the truncating flag set as well: the open is handed on without backup or report although
  O_TRUNC destroys what the file holds; and writing through a handle that is not tracked is
  handed on without asking the blocked list, for a blocked client as well.
\<close>

theorem append_handles_escape:
  assumes "v_cfg v = Some cfg" and "gc_protect cfg" and "\<not> fst (is_blocked a cfg v)"
    and "name = Some rel" and "\<not> strncmp_proc rel" and "regular_at a (v_files v) (full_path (v_conn v) rel)"
    and "\<not> tracked w fsp"
  shows "handed_on nx (Next_openat fsp (fname_str smb) (O_WRONLY OR O_APPEND OR O_TRUNC)) v
      (run_op nx a (Openat fsp smb name name' (Some (O_WRONLY OR O_APPEND OR O_TRUNC))) v) \<and>
    handed_on nx (Next_pwrite fsp data off) w (run_op nx a (Pwrite fsp nm data off) w)"
proof
  let ?fl = "O_WRONLY OR O_APPEND OR O_TRUNC"
  let ?c = "Next_openat fsp (fname_str smb) ?fl"
  have fl: "?fl AND O_PATH = 0" "write_mode ?fl" "\<not> destroys ?fl"
    by (simp_all add: destroys_def write_mode_def append_only_def create_trunc_def
        O_WRONLY_def O_RDWR_def O_APPEND_def O_TRUNC_def O_CREAT_def O_PATH_def)
  have "run_op nx a (Openat fsp smb name name' (Some ?fl)) v =
      openat_path nx a ?c fsp rel ?fl (refresh_blocked_cache a (v_files v) cfg) (snd (is_blocked a cfg v))"
    using assms(1-5) fl(1,2)
    by (simp add: gf_openat_def protected_or_next_def deny_or_def case_prod_beta Let_def)
  also have "\<dots> = openat_next nx a ?c fsp rel (refresh_blocked_cache a (v_files v) cfg) False False RGUARD_OK None
      (snd (is_blocked a cfg v))"
    using fl(3) assms(6) by (simp add: openat_path_def Let_def)
  finally show "handed_on nx ?c v (run_op nx a (Openat fsp smb name name' (Some ?fl)) v)"
    using assms(3) by (simp add: handed_on_def openat_next_def call_next_def case_prod_beta)
  have "run_op nx a (Pwrite fsp nm data off) w = call_next nx (Next_pwrite fsp data off) w"
    using assms(7) by (auto simp: gf_pwrite_def protected_or_next_def tracked_def Let_def split: option.splits)
  then show "handed_on nx (Next_pwrite fsp data off) w (run_op nx a (Pwrite fsp nm data off) w)"
    by (simp add: handed_on_def call_next_def case_prod_beta)
qed

theorem append_handles_escape_witness:
  "v_files (snd (run_op sample_next sample_vfs_answers
      (Openat 4 (Some ''a.txt'') (Some ''a.txt'') None (Some (O_WRONLY OR O_APPEND OR O_TRUNC))) (sample_vfs [])))
     ''/mnt/docs/a.txt'' = Some (sample_node [])"
proof -
  have nb: "\<not> fst (is_blocked sample_vfs_answers sample_config (sample_vfs []))"
    using blocked_iff_listed [OF sample_facts(4) sample_facts(5), of "[]"] by (simp add: sample_node_def)
  have reg: "regular_at sample_vfs_answers (v_files (sample_vfs [])) (full_path (v_conn (sample_vfs [])) ''a.txt'')"
    using sample_victim by (intro file_at_regular [THEN conjunct2]) (simp add: fname_str_def)
  have proc: "\<not> strncmp_proc ''a.txt''" by (simp add: strncmp_proc_def strncmp_eq_def)
  have untr: "\<not> tracked (sample_vfs []) 4" by (simp add: tracked_def sample_vfs_def)
  have "snd (sample_next (Next_openat 4 n (O_WRONLY OR O_APPEND OR O_TRUNC)) fs) ''/mnt/docs/a.txt'' =
      Some (sample_node [])" for n fs
    by (simp add: sample_next_def O_WRONLY_def O_APPEND_def O_TRUNC_def)
  with append_handles_escape [OF sample_facts(1,2) nb refl proc reg untr] show ?thesis
    unfolding handed_on_def by metis
qed

subsection \<open>Content that did not change\<close>

text \<open>
  The close-time comparison only reports an overwrite as harmless when the backup and the
  file have the same size and the same FNV-1a hash, whatever pieces the reads deliver; and when
  the reads deliver whole buffers a file rewritten with its own bytes is reported, up to the
  size limit.
\<close>

theorem content_same_means_equal_hash:
  assumes "fs (fs_backup_path st) = Some b" and "fs (sc_connectpath c @ ''/'' @ fs_relative_path st) = Some n"
    and "va_last_read a = Io_bytes k" and "0 < k"
  shows "(close_same a c fs st \<longrightarrow> length (n_data b) = length (n_data n) \<and>
      rguard_fnv1a64 (n_data b) = rguard_fnv1a64 (n_data n)) \<and>
    (fs_backup_done st \<and> fs_backup_path st \<noteq> [] \<and> fs_relative_path st \<noteq> [] \<and>
       length (sc_connectpath c @ ''/'' @ fs_relative_path st) < RGUARD_PATH_MAX \<and>
       n_data b = n_data n \<and> length (n_data b) \<le> GFR_CONTENT_COMPARE_MAX \<and> va_compare_open a \<and>
       va_reads_backup a = [] \<and> va_reads_current a = [] \<longrightarrow> close_same a c fs st)"
proof (intro conjI impI)
  assume "close_same a c fs st"
  then have len: "length (n_data b) = length (n_data n)" and same: "content_same a (n_data b) (n_data n)"
    using assms(1,2) by (auto simp: close_same_def Let_def split: if_splits)
  then show "length (n_data b) = length (n_data n)" by simp
  from same obtain hb hc rest where cmp: "compare_loop (va_reads_backup a) (va_reads_current a) (n_data b) (n_data n)
      14695981039346656037 14695981039346656037 = Some (hb, hc, rest)" and eq: "hb = hc" "rest = []"
    using assms(3,4) by (auto simp: content_same_def split: option.splits)
  from compare_loop_sound [OF cmp] obtain m where m: "m \<le> length (n_data b)"
    "hb = fnv_loop (take m (n_data b)) 14695981039346656037" "hc = fnv_loop (take m (n_data n)) 14695981039346656037"
    "rest = drop m (n_data n)" by auto
  with eq(2) len have "m = length (n_data b)" "m = length (n_data n)" by auto
  with m(2,3) eq(1) show "rguard_fnv1a64 (n_data b) = rguard_fnv1a64 (n_data n)"
    by (simp add: rguard_fnv1a64_def)
next
  assume h: "fs_backup_done st \<and> fs_backup_path st \<noteq> [] \<and> fs_relative_path st \<noteq> [] \<and>
       length (sc_connectpath c @ ''/'' @ fs_relative_path st) < RGUARD_PATH_MAX \<and>
       n_data b = n_data n \<and> length (n_data b) \<le> GFR_CONTENT_COMPARE_MAX \<and> va_compare_open a \<and>
       va_reads_backup a = [] \<and> va_reads_current a = []"
  then have "content_same a (n_data b) (n_data n)"
    using compare_loop_plain [of "n_data b" "n_data n"] assms(3) by (simp add: content_same_def)
  with h assms(1,2) show "close_same a c fs st" by (auto simp: close_same_def Let_def)
qed

theorem content_same_means_equal_hash_witness:
  "close_same sample_vfs_answers (v_conn (sample_vfs [])) [''/b'' \<mapsto> sample_node ''x'', ''/mnt/docs/a'' \<mapsto> sample_node ''x'']
     (file_state (v_conn (sample_vfs [])) True False ''a'' ''/b'')"
proof -
  let ?fs = "[''/b'' \<mapsto> sample_node ''x'', ''/mnt/docs/a'' \<mapsto> sample_node ''x'']"
  let ?c = "v_conn (sample_vfs [])"
  let ?st = "file_state ?c True False ''a'' ''/b''"
  have st: "fs_backup_path ?st = ''/b''" "fs_relative_path ?st = ''a''" "fs_backup_done ?st"
    by (simp_all add: file_state_def RGUARD_PATH_MAX_def)
  have path: "sc_connectpath ?c @ ''/'' @ fs_relative_path ?st = ''/mnt/docs/a''"
    unfolding st by (simp add: sample_vfs_def)
  have f: "?fs (fs_backup_path ?st) = Some (sample_node ''x'')"
    "?fs (sc_connectpath ?c @ ''/'' @ fs_relative_path ?st) = Some (sample_node ''x'')"
    unfolding path unfolding st by simp_all
  have last: "va_last_read sample_vfs_answers = Io_bytes 1" by (simp add: sample_vfs_answers_def)
  have len: "length (sc_connectpath ?c @ ''/'' @ fs_relative_path ?st) < RGUARD_PATH_MAX"
    unfolding path by (simp add: RGUARD_PATH_MAX_def)
  have rest: "length (n_data (sample_node ''x'')) \<le> GFR_CONTENT_COMPARE_MAX" "va_compare_open sample_vfs_answers"
    "va_reads_backup sample_vfs_answers = []" "va_reads_current sample_vfs_answers = []"
    by (simp_all add: sample_node_def GFR_CONTENT_COMPARE_MAX_def sample_vfs_answers_def)
  show ?thesis
    by (rule content_same_means_equal_hash [OF f last zero_less_one, THEN conjunct2, THEN mp],
        intro conjI; (rule st len rest refl | simp only: st list.distinct simp_thms))
qed

end
