(* ===== verification/Critical_Run.thy ===== *)
theory Critical_Run
  imports Daemon_Events
begin

text \<open>
  A concrete run to a block: a session that is critical and not yet blocked meets a plain open,
  whose rating is deferred, so that it stays critical and is blocked. It shows that the
  conditions of the statements about critical sessions can hold.
\<close>

lemma counters_level [simp]: "s_risk_level (session_op_counters s op f) = s_risk_level s"
  by (simp add: session_op_counters_def Let_def)

lemma update_level [simp]: "s_risk_level (session_update s op f h) = s_risk_level s"
  by (simp add: session_update_def Let_def dir_add_def)

text \<open>The session is inside both of its windows.\<close>

definition in_windows :: "event_msg \<Rightarrow> session_state \<Rightarrow> rguard_policy \<Rightarrow> int \<Rightarrow> bool" where
  "in_windows msg s p t \<longleftrightarrow> s_window_10s s \<noteq> 0 \<and> s_window_30s s \<noteq> 0 \<and>
     t - s_window_30s s < snd (windows p msg)"

lemma check_window_level:
  "in_windows msg s p t \<Longrightarrow>
    s_risk_level (session_check_window s t (fst (windows p msg)) (snd (windows p msg))) = s_risk_level s"
  by (simp add: in_windows_def session_check_window_def Let_def)

lemma rated_level:
  "in_windows msg (the_session i d) (dm_policy d) (now (dm_world d)) \<Longrightarrow> defer_score msg f \<Longrightarrow>
    s_risk_level (rated msg i f d) = s_risk_level (the_session i d)"
  by (simp add: rated_def case_prod_beta Let_def check_window_level)

definition plain_open :: event_msg where
  "plain_open = sample_msg\<lparr>m_op_type := RGUARD_OP_OPEN, m_flags := 0\<rparr>"

lemma plain_open_flags [simp]: "m_flags plain_open = 0" "m_op_type plain_open = RGUARD_OP_OPEN"
  by (simp_all add: plain_open_def)

lemma plain_open_steps [simp]:
  "rename_flags p plain_open f = f" "new_file_flags p plain_open f = f"
  "entropy_step env plain_open k i f d = (f, d)" "yara_step env plain_open k i f d = (f, d)"
  "defer_score plain_open 0" "backup_record plain_open k i d = d" "risky_log plain_open k d = d"
  "created_step plain_open i d = d"
  by (simp_all add: rename_flags_def new_file_flags_def entropy_step_def yara_step_def defer_score_def
      backup_record_def risky_log_def created_step_def has_flag_def op_defs)

lemma rate_plain_open:
  "rate_session env plain_open k i d = score_step plain_open k i 0 (event_start plain_open k i d)"
  by (simp add: rate_session_def Let_def)

lemma event_start_session:
  "handle_inv i d \<Longrightarrow> s_event_id (the_session i d) \<noteq> [] \<Longrightarrow> event_start msg k i d = d"
  by (simp add: event_start_def)

lemma rate_level:
  assumes "handle_inv i d" and "s_event_id (the_session i d) \<noteq> []"
    and "in_windows plain_open (the_session i d) (dm_policy d) (now (dm_world d))"
  shows "s_risk_level (the_session i (rate_session env plain_open k i d)) = s_risk_level (the_session i d)"
  using assms by (simp add: rate_plain_open event_start_session score_step_session rated_level)

subsection \<open>The run\<close>

text \<open>A world in which the clock stands still.\<close>

definition still_daemon :: daemon where
  "still_daemon = sample_daemon\<lparr>dm_world := quiet_world\<lparr>w_clock := (\<lambda>_. 1000)\<rparr>\<rparr>"

lemma still_inv: "daemon_inv still_daemon" "\<not> table_full (dm_table still_daemon)"
  "dm_policy still_daemon = apply_defaults" "w_clock (dm_world still_daemon) = (\<lambda>_. 1000)"
  "\<forall>n. good_io (w_answers (dm_world still_daemon) n)"
  using sample_daemon_inv sample_room
  by (simp_all add: still_daemon_def daemon_inv_def sample_daemon_def quiet_world_def)

lemma plain_open_key: "msg_key plain_open = msg_key sample_msg"
  by (simp add: plain_open_def msg_key_def)

text \<open>A critical session, reached by looking the session up and setting what an attack leaves.\<close>

lemma critical_daemon:
  obtains d where "daemon_inv d" "\<forall>n. good_io (w_answers (dm_world d) n)" "dm_policy d = apply_defaults"
    "w_clock (dm_world d) = (\<lambda>_. 1000)" "\<not> was_blocked d (msg_key plain_open)"
    "\<exists>s. session_lookup (dm_table d) (msg_key plain_open) = Some s \<and> s_risk_level s = RISK_CRITICAL \<and>
       s_event_id s = ''evt-1'' \<and> s_window_10s s = 1000 \<and> s_window_30s s = 1000"
proof -
  let ?k = "msg_key plain_open"
  obtain i d1 where f: "find_session ?k still_daemon = (Some i, d1)"
    by (rule find_session_room [OF still_inv(1,2) msg_key_short])
  note e = find_session_effect [OF still_inv(1) msg_key_short f]
  have h1: "handle_inv i d1" and lk: "session_lookup (dm_table d1) ?k = Some (the_session i d1)"
    using e by auto
  let ?s = "(the_session i d1)\<lparr>s_risk_level := RISK_CRITICAL, s_event_id := ''evt-1'',
      s_window_10s := 1000, s_window_30s := 1000\<rparr>"
  let ?d = "set_session i ?s d1"
  have safe: "safe i d1 ?d" by (rule safe_set) simp_all
  with h1 have h: "handle_inv i ?d" by (simp add: safe_def)
  have lk': "session_lookup (dm_table ?d) ?k = Some ?s"
    using safe_lookup [OF safe h1 lk] h1 by simp
  have "\<not> was_blocked still_daemon ?k"
    by (simp add: was_blocked_def still_daemon_def sample_daemon_def session_init_empty)
  then have nb: "\<not> s_blocked (the_session i d1)"
    using find_session_blocked(1) [OF still_inv(1) msg_key_short f] lk by (simp add: was_blocked_def)
  note fr = find_session_frame [OF f]
  have "world_step (dm_world still_daemon) (dm_world d1)"
    using e still_inv(1) by (simp add: sound_step_def)
  then have "w_clock (dm_world d1) = (\<lambda>_. 1000)" using still_inv(4) by (simp add: world_step_def)
  moreover have "daemon_inv ?d" using h by (simp add: handle_inv_def)
  moreover have "\<not> was_blocked ?d ?k" using lk' nb by (simp add: was_blocked_def)
  moreover have "\<forall>n. good_io (w_answers (dm_world ?d) n)" "dm_policy ?d = apply_defaults"
    using fr still_inv(3,5) by (simp_all add: set_session_def)
  ultimately show thesis
    using lk' by (intro that [of ?d]) (simp_all add: set_session_def)
qed

text \<open>The message keeps it critical.\<close>

lemma critical_run:
  obtains d s where "daemon_inv d" "\<forall>n. good_io (w_answers (dm_world d) n)" "dm_policy d = apply_defaults"
    "\<not> was_blocked d (msg_key plain_open)"
    "session_lookup (dm_table (process_msg sample_env plain_open d)) (msg_key plain_open) = Some s"
    "s_risk_level s = RISK_CRITICAL"
proof -
  let ?k = "msg_key plain_open" and ?h = "assess sample_env plain_open (msg_key plain_open)"
  obtain d where d: "daemon_inv d" "\<forall>n. good_io (w_answers (dm_world d) n)" "dm_policy d = apply_defaults"
    "w_clock (dm_world d) = (\<lambda>_. 1000)" "\<not> was_blocked d ?k"
    and ex: "\<exists>s. session_lookup (dm_table d) ?k = Some s \<and> s_risk_level s = RISK_CRITICAL \<and>
       s_event_id s = ''evt-1'' \<and> s_window_10s s = 1000 \<and> s_window_30s s = 1000"
    by (rule critical_daemon)
  obtain s0 where s0: "session_lookup (dm_table d) ?k = Some s0" "s_risk_level s0 = RISK_CRITICAL"
       "s_event_id s0 = ''evt-1''" "s_window_10s s0 = 1000" "s_window_30s s0 = 1000"
    using ex by auto
  let ?d = "receive_log plain_open ?k d"
  have inv: "daemon_inv ?d" using d(1) by simp
  have "\<not> exempt apply_defaults plain_open"
    using sample_policy_facts(1) by (simp add: exempt_def plain_open_def)
  then have "run_gates (gates plain_open ?k) ?d = Inr ?d"
    using gates_cases [of ?k ?d plain_open] sample_policy_facts(2) d(3) by simp
  moreover have "m_msg_type plain_open \<noteq> RGUARD_MSG_VFS_BLOCKED"
    by (simp add: plain_open_def sample_msg_def RGUARD_MSG_VFS_BLOCKED_def RGUARD_MSG_FILE_EVENT_def)
  ultimately have run: "process_msg sample_env plain_open d = with_session ?k ?h ?d"
    by (simp add: process_file_event)
  have len: "length (m_client_ip plain_open) < RGUARD_IP_LEN"
    by (simp add: plain_open_def sample_msg_def RGUARD_IP_LEN_def)
  obtain r d1 where f: "find_session ?k ?d = (r, d1)" by fastforce
  obtain lg where a: "session_find_or_create (dm_table d) ?k (now (dm_world ?d)) = (r, dm_table d1, lg)"
    using f by (cases "session_find_or_create (dm_table d) ?k (now (dm_world ?d))")
      (auto simp: find_session_def Let_def)
  have t: "table_inv (dm_table d)" using d(1) by (simp add: daemon_inv_def)
  have lk: "session_lookup (dm_table d1) ?k = Some (s0\<lparr>s_last_seen := now (dm_world ?d)\<rparr>)"
    using st.acquire_map [OF t msg_key_short a] s0(1) by (simp add: acquire_spec_def)
  with find_session_blocked(2) [OF inv msg_key_short f] obtain i where r: "r = Some i" by auto
  note e = find_session_effect [OF inv msg_key_short f]
  have h: "handle_inv i d1" and s1: "the_session i d1 = s0\<lparr>s_last_seen := now (dm_world ?d)\<rparr>"
    using e r lk by auto
  have ws: "world_step (dm_world ?d) (dm_world d1)" using e inv by (simp add: sound_step_def)
  have "w_clock (dm_world ?d) = (\<lambda>_. 1000)" using d(4) by (simp add: receive_log_def log_d_def)
  then have "now (dm_world d1) = 1000" using ws by (simp add: world_step_def now_def)
  moreover have "dm_policy d1 = apply_defaults" using find_session_frame [OF f] d(3) by simp
  moreover have "snd (windows apply_defaults plain_open) = 30"
    by (simp add: windows_def apply_defaults_def plain_open_def sample_msg_def source_defs)
  ultimately have win: "in_windows plain_open (the_session i d1) (dm_policy d1) (now (dm_world d1))"
    using s0 s1 by (simp add: in_windows_def)
  let ?e = "rate_session sample_env plain_open ?k i d1"
  have lev: "s_risk_level (the_session i ?e) = RISK_CRITICAL"
    using rate_level [OF h _ win] s0 s1 by simp
  have re: "safe i d1 ?e" using rate_effect by blast
  then have he: "handle_inv i ?e" using h by (simp add: safe_def)
  have "w_answers (dm_world ?e) = w_answers (dm_world d)"
    using re h ws by (simp add: safe_def world_step_def)
  then have io: "\<forall>n. good_io (w_answers (dm_world ?e) n)" using d(2) by simp
  have fin: "process_msg sample_env plain_open d = block_step sample_env plain_open ?k i ?e"
    using run f r by (simp add: with_session_def assess_def)
  have "session_lookup (dm_table (block_step sample_env plain_open ?k i ?e)) ?k =
      Some (the_session i (block_step sample_env plain_open ?k i ?e))"
    using safe_lookup [OF safe_assess [OF len] h, of ?k sample_env ?k] e r by (simp add: assess_def)
  moreover have "s_risk_level (the_session i (block_step sample_env plain_open ?k i ?e)) = RISK_CRITICAL"
    using block_step_level [OF he len io] lev by simp
  ultimately have "\<exists>s. session_lookup (dm_table (process_msg sample_env plain_open d)) ?k = Some s \<and>
      s_risk_level s = RISK_CRITICAL"
    unfolding fin by blast
  then show thesis using that [OF d(1,2,3,5)] by blast
qed

end
