(* ===== verification/Recover.thy ===== *)
theory Recover
  imports Blocker
begin

text \<open>
  \<open>src/recover/gfrguard_recover.c\<close>: the tool that restores the files of an event, unblocks an
  address and counts what is pending. The nodes of the file system stand at places, lists of names
  from the root, and every call resolves its path there as the kernel does: an empty name and a
  dot are passed over, two dots go up, and a link among the directories is followed, one in the
  last position by \<open>stat\<close> only. Whether a directory exists that a path runs through is left to
  the answers of the system, like everything else that can make the \<open>n\<close>-th call fail, and so are
  the amounts each \<open>read\<close> and \<open>write\<close> of a copy transfers. A path that is not absolute starts at
  the root. Printed messages are left out.
\<close>

subsection \<open>Files\<close>

text \<open>A regular file has its bytes, mode, owner and group; a link its target.\<close>

datatype node = Reg string int int int | Lnk string | Dirn

type_synonym place = "string list"
type_synonym nodes = "place \<Rightarrow> node option"

record tool =
  t_nodes :: nodes
  t_sys :: "nat \<Rightarrow> bool"
  t_io :: "nat \<Rightarrow> io_step list \<times> io_step list"
  t_n :: nat
  t_world :: world

definition STORE_PATH :: string where "STORE_PATH = ''/var/lib/gf2000/rguard-store''"
definition TOOL_BLOCKED_PATH :: string where "TOOL_BLOCKED_PATH = ''/run/gfrguardd/blocked''"
definition QUARANTINE_PATH :: string where "QUARANTINE_PATH = STORE_PATH @ ''/quarantine''"
definition PATH_MAX :: nat where "PATH_MAX = 4096"

definition sys_ok :: "tool \<Rightarrow> bool" where
  "sys_ok t = t_sys t (t_n t)"

definition next_sys :: "tool \<Rightarrow> tool" where
  "next_sys t = t\<lparr>t_n := t_n t + 1\<rparr>"

definition set_node :: "place \<Rightarrow> node \<Rightarrow> tool \<Rightarrow> tool" where
  "set_node x nd t = t\<lparr>t_nodes := (t_nodes t)(x \<mapsto> nd)\<rparr>"

definition perm_bits :: "int \<Rightarrow> int" where
  "perm_bits mode = mode mod 512"

subsection \<open>Paths\<close>

fun path_names :: "string \<Rightarrow> string list" where
  "path_names [] = [[]]"
| "path_names (c # s) =
     (if c = CHR ''/'' then [] # path_names s
      else case path_names s of [] \<Rightarrow> [[c]] | n # ns \<Rightarrow> (c # n) # ns)"

definition skipped :: "string \<Rightarrow> bool" where
  "skipped n \<longleftrightarrow> n = [] \<or> n = ''.''"

definition link_at :: "nodes \<Rightarrow> place \<Rightarrow> string option" where
  "link_at fs x = (case fs x of Some (Lnk q) \<Rightarrow> Some q | _ \<Rightarrow> None)"

definition link_start :: "string \<Rightarrow> place \<Rightarrow> place" where
  "link_start q d = (if q \<noteq> [] \<and> hd q = CHR ''/'' then [] else d)"

text \<open>
  From the directory \<open>d\<close> along the names, over at most \<open>k\<close> links; the last name is followed if
  \<open>fl\<close>. \<open>None\<close>: too many links.
\<close>

function walk :: "nat \<Rightarrow> nodes \<Rightarrow> bool \<Rightarrow> place \<Rightarrow> string list \<Rightarrow> place option" where
  "walk k fs fl d [] = Some d"
| "walk k fs fl d (n # ns) =
     (if skipped n then walk k fs fl d ns
      else if n = ''..'' then walk k fs fl (butlast d) ns
      else if ns = [] \<and> \<not> fl then Some (d @ [n])
      else case link_at fs (d @ [n]) of
        None \<Rightarrow> walk k fs fl (d @ [n]) ns
      | Some q \<Rightarrow> (case k of 0 \<Rightarrow> None | Suc k' \<Rightarrow> walk k' fs fl (link_start q d) (path_names q @ ns)))"
  by pat_completeness auto
termination
  by (relation "measures [\<lambda>(k, fs, fl, d, ns). k, \<lambda>(k, fs, fl, d, ns). length ns]") auto

definition max_links :: nat where "max_links = 40"

definition locate :: "nodes \<Rightarrow> string \<Rightarrow> place option" where
  "locate fs p = walk max_links fs False [] (path_names p)"

text \<open>The node \<open>lstat\<close> finds; the root is a directory.\<close>

definition look :: "nodes \<Rightarrow> place \<Rightarrow> node option" where
  "look fs x = (if x = [] then Some Dirn else fs x)"

definition node_at :: "tool \<Rightarrow> string \<Rightarrow> node option" where
  "node_at t p = (case locate (t_nodes t) p of None \<Rightarrow> None | Some x \<Rightarrow> look (t_nodes t) x)"

definition stat_found :: "tool \<Rightarrow> string \<Rightarrow> bool" where
  "stat_found t p =
     (case walk max_links (t_nodes t) True [] (path_names p) of
        None \<Rightarrow> False
      | Some x \<Rightarrow> look (t_nodes t) x \<noteq> None)"

text \<open>
  What can be made, moved or removed: the calls refuse a path that ends with a dot or two, and
  one that ends with a slash unless it is a directory, which no recorded path is.
\<close>

definition names_entry :: "string \<Rightarrow> bool" where
  "names_entry p \<longleftrightarrow> \<not> skipped (last (path_names p)) \<and> last (path_names p) \<noteq> ''..''"

text \<open>The directories of a path: an existing entry of any kind is passed over.\<close>

fun mkdir_each :: "string list \<Rightarrow> tool \<Rightarrow> bool \<times> tool" where
  "mkdir_each [] t = (True, t)"
| "mkdir_each (p # ps) t =
     (if node_at t p \<noteq> None then mkdir_each ps (next_sys t)
      else case locate (t_nodes t) p of
        None \<Rightarrow> (False, next_sys t)
      | Some x \<Rightarrow>
          if sys_ok t then mkdir_each ps (next_sys (set_node x Dirn t)) else (False, next_sys t))"

definition tool_mkdir_p :: "string \<Rightarrow> tool \<Rightarrow> bool \<times> tool" where
  "tool_mkdir_p path t =
     (let tmp = snprintf_s PATH_MAX path
      in mkdir_each ([take i tmp. i \<leftarrow> [1..<length tmp], tmp ! i = CHR ''/''] @ [tmp]) t)"

text \<open>The directory of a path, made if it has one.\<close>

definition make_parent :: "string \<Rightarrow> tool \<Rightarrow> tool" where
  "make_parent path t =
     (let dir = snprintf_s PATH_MAX path in
      case strrchr dir CHR ''/'' of
        None \<Rightarrow> t
      | Some slash \<Rightarrow> snd (tool_mkdir_p (take (length dir - length slash) dir) t))"

definition valid_restore_path :: "string \<Rightarrow> bool" where
  "valid_restore_path path \<longleftrightarrow>
     path \<noteq> [] \<and> hd path = CHR ''/'' \<and> strstr path ''/../'' = None \<and>
     \<not> (length path \<ge> 3 \<and> drop (length path - 3) path = ''/..'')"

subsection \<open>Copying\<close>

text \<open>The inner loop: an interrupted \<open>write\<close> is repeated, one that writes nothing fails.\<close>

fun put_chunk :: "io_step list \<Rightarrow> string \<Rightarrow> string \<Rightarrow> bool \<times> io_step list \<times> string" where
  "put_chunk ws [] out = (True, ws, out)"
| "put_chunk [] data out = (True, [], out @ data)"
| "put_chunk (Io_intr # ws) data out = put_chunk ws data out"
| "put_chunk (Io_error # ws) data out = (False, ws, out)"
| "put_chunk (Io_bytes k # ws) data out =
     (if k = 0 then (False, ws, out) else put_chunk ws (drop k data) (out @ take k data))"

text \<open>The outer loop reads up to 64 kilobytes until nothing is delivered.\<close>

function copy_loop :: "io_step list \<Rightarrow> io_step list \<Rightarrow> string \<Rightarrow> string \<Rightarrow> bool \<times> string" where
  "copy_loop rs ws src out =
     (case rs of
        Io_error # _ \<Rightarrow> (False, out)
      | Io_intr # rs' \<Rightarrow> copy_loop rs' ws src out
      | Io_bytes k # rs' \<Rightarrow>
          (let buf = take (min k 65536) src in
           if buf = [] then (True, out)
           else case put_chunk ws buf out of
             (ok, ws', out') \<Rightarrow>
               if ok then copy_loop rs' ws' (drop (min k 65536) src) out' else (False, out'))
      | [] \<Rightarrow>
          (let buf = take 65536 src in
           if buf = [] then (True, out)
           else case put_chunk ws buf out of
             (ok, ws', out') \<Rightarrow> if ok then copy_loop [] ws' (drop 65536 src) out' else (False, out')))"
  by pat_completeness auto
termination
  by (relation "measure (\<lambda>(rs, ws, src, out). length rs + length src)") auto

declare copy_loop.simps [simp del]

text \<open>Opening the source without following a link: a directory opens and cannot be read.\<close>

definition open_source :: "string \<Rightarrow> tool \<Rightarrow> string option option" where
  "open_source src t =
     (if \<not> sys_ok t then None
      else case node_at t src of
        Some (Reg bytes _ _ _) \<Rightarrow> Some (Some bytes)
      | Some Dirn \<Rightarrow> Some None
      | _ \<Rightarrow> None)"

text \<open>
  Opening the target, not following a link: a new file is root's, an existing one is emptied. The
  place of the file, and what it becomes with its bytes.
\<close>

definition open_target :: "string \<Rightarrow> int \<Rightarrow> tool \<Rightarrow> (place \<times> (string \<Rightarrow> node)) option" where
  "open_target dst mode t =
     (if \<not> sys_ok t \<or> \<not> names_entry dst then None
      else case locate (t_nodes t) dst of
        None \<Rightarrow> None
      | Some x \<Rightarrow>
          (case look (t_nodes t) x of
             None \<Rightarrow> Some (x, \<lambda>bytes. Reg bytes (perm_bits mode) 0 0)
           | Some (Reg _ m u g) \<Rightarrow> Some (x, \<lambda>bytes. Reg bytes m u g)
           | _ \<Rightarrow> None))"

text \<open>\<open>fchown\<close>, then \<open>fchmod\<close> if it succeeded; a failure is only reported.\<close>

definition set_owner :: "place \<Rightarrow> string \<Rightarrow> int \<Rightarrow> int \<Rightarrow> int \<Rightarrow> (string \<Rightarrow> node) \<Rightarrow> tool \<Rightarrow> tool" where
  "set_owner x bytes mode uid gid mk t =
     (if \<not> sys_ok t then next_sys (set_node x (mk bytes) t)
      else
        let t1 = next_sys t;
            m = (case mk bytes of Reg _ m _ _ \<Rightarrow> m | _ \<Rightarrow> 0)
        in next_sys (set_node x (Reg bytes (if sys_ok t1 then perm_bits mode else m) uid gid) t1))"

text \<open>A file copied onto itself is empty when it is read.\<close>

definition copy_file :: "string \<Rightarrow> string \<Rightarrow> int \<Rightarrow> int \<Rightarrow> int \<Rightarrow> tool \<Rightarrow> int \<times> tool" where
  "copy_file src dst mode uid gid t0 =
     (case open_source src t0 of
        None \<Rightarrow> (-1, next_sys t0)
      | Some content \<Rightarrow>
          let t1 = next_sys t0 in
          (case open_target dst mode t1 of
             None \<Rightarrow> (-1, next_sys t1)
           | Some (x, mk) \<Rightarrow>
               let t2 = next_sys t1;
                   (rs, ws) = t_io t2 (t_n t2);
                   (ok, bytes) = (case content of
                       None \<Rightarrow> (False, [])
                     | Some s \<Rightarrow> copy_loop rs ws (if locate (t_nodes t0) src = Some x then [] else s) [])
               in if ok then (0, set_owner x bytes mode uid gid mk t2)
                  else (-1, set_node x (mk bytes) t2)))"

subsection \<open>Moving to the quarantine\<close>

text \<open>The first free slot among the path and ninety-nine numbered ones, in a buffer of \<open>n\<close> bytes.\<close>

fun slot_loop :: "(string \<Rightarrow> bool) \<Rightarrow> nat \<Rightarrow> string \<Rightarrow> nat list \<Rightarrow> string \<Rightarrow> string" where
  "slot_loop used n base [] path = path"
| "slot_loop used n base (i # is) path =
     (let full = base @ ''.'' @ show_nat i; path' = snprintf_s n full in
      if length full \<ge> n then path'
      else if \<not> used path' then path'
      else slot_loop used n base is path')"

definition quarantine_unique :: "(string \<Rightarrow> bool) \<Rightarrow> string \<Rightarrow> nat \<Rightarrow> string" where
  "quarantine_unique used path n =
     (if \<not> used path then path else slot_loop used n (snprintf_s PATH_MAX path) [1..<100] path)"

text \<open>\<open>rename\<close> moves a node with what is below it, not into itself and not over what it is in.\<close>

definition rename_nodes :: "place \<Rightarrow> place \<Rightarrow> nodes \<Rightarrow> nodes" where
  "rename_nodes x y fs z =
     (if prefix y z then fs (x @ drop (length y) z)
      else if prefix x z then None else fs z)"

definition sys_rename :: "string \<Rightarrow> string \<Rightarrow> tool \<Rightarrow> int \<times> tool" where
  "sys_rename p q t =
     (case (locate (t_nodes t) p, locate (t_nodes t) q) of
        (Some x, Some y) \<Rightarrow>
          if sys_ok t \<and> names_entry p \<and> names_entry q \<and> look (t_nodes t) x \<noteq> None \<and>
            \<not> strict_prefix x y \<and> \<not> strict_prefix y x
          then (0, next_sys (if x = y then t else t\<lparr>t_nodes := rename_nodes x y (t_nodes t)\<rparr>))
          else (-1, next_sys t)
      | _ \<Rightarrow> (-1, next_sys t))"

definition sys_unlink :: "string \<Rightarrow> tool \<Rightarrow> int \<times> tool" where
  "sys_unlink p t =
     (case locate (t_nodes t) p of
        None \<Rightarrow> (-1, next_sys t)
      | Some x \<Rightarrow>
          if sys_ok t \<and> names_entry p \<and> look (t_nodes t) x \<noteq> None \<and> look (t_nodes t) x \<noteq> Some Dirn
          then (0, next_sys (t\<lparr>t_nodes := (t_nodes t)(x := None)\<rparr>)) else (-1, next_sys t))"

text \<open>\<open>rmdir\<close>: whether the directory is empty is part of the system's answer.\<close>

definition sys_rmdir :: "string \<Rightarrow> tool \<Rightarrow> int \<times> tool" where
  "sys_rmdir p t =
     (case locate (t_nodes t) p of
        None \<Rightarrow> (-1, next_sys t)
      | Some x \<Rightarrow>
          if sys_ok t \<and> names_entry p \<and> t_nodes t x = Some Dirn
          then (0, next_sys (t\<lparr>t_nodes := (t_nodes t)(x := None)\<rparr>)) else (-1, next_sys t))"

text \<open>The place of a file in the quarantine of an event.\<close>

definition quarantine_place :: "string \<Rightarrow> string \<Rightarrow> string" where
  "quarantine_place event_id path =
     QUARANTINE_PATH @ ''/'' @ event_id @ ''/'' @
       (if path \<noteq> [] \<and> hd path = CHR ''/'' then tl path else path)"

text \<open>Move, or copy and remove; only a regular file is copied.\<close>

definition move_to :: "node \<Rightarrow> string \<Rightarrow> string \<Rightarrow> tool \<Rightarrow> int \<times> tool" where
  "move_to nd path q t =
     (let (rc, t1) = sys_rename path q t in
      if rc = 0 then (rc, t1)
      else case nd of
        Reg _ m u g \<Rightarrow>
          (let (crc, t2) = copy_file path q m u g t1
           in if crc = 0 then sys_unlink path t2 else (rc, t2))
      | _ \<Rightarrow> (rc, t1))"

definition to_quarantine :: "node \<Rightarrow> string \<Rightarrow> string \<Rightarrow> tool \<Rightarrow> int \<times> tool" where
  "to_quarantine nd path qpath t =
     (let t1 = make_parent qpath t
      in move_to nd path (quarantine_unique (\<lambda>p. node_at t1 p \<noteq> None) qpath PATH_MAX) t1)"

subsection \<open>Restoring\<close>

record restore_ctx =
  rc_event :: string
  rc_total :: int
  rc_success :: int
  rc_fail :: int

definition set_status :: "int \<Rightarrow> string \<Rightarrow> tool \<Rightarrow> tool" where
  "set_status rid status t =
     (let (ts, w) = iso8601_now (t_world t)
      in t\<lparr>t_world := w\<lparr>w_db := snd (db_update_restore_status (w_db w) rid status ts)\<rparr>\<rparr>)"

definition fail_one :: "pf_row \<Rightarrow> restore_ctx \<times> tool \<Rightarrow> restore_ctx \<times> tool" where
  "fail_one pf st = (case st of (c, t) \<Rightarrow>
     (c\<lparr>rc_fail := rc_fail c + 1\<rparr>, set_status (pf_id pf) ''failed'' t))"

text \<open>The corrupted file is moved away first, if it is there and its place fits.\<close>

definition quarantine_corrupted :: "pf_row \<Rightarrow> tool \<Rightarrow> tool" where
  "quarantine_corrupted pf t =
     (case node_at t (pf_original_path pf) of
        None \<Rightarrow> t
      | Some nd \<Rightarrow>
          let qpath = quarantine_place (pf_event_id pf) (pf_original_path pf)
          in if length qpath < PATH_MAX then snd (to_quarantine nd (pf_original_path pf) qpath t) else t)"

definition put_back :: "pf_row \<Rightarrow> tool \<Rightarrow> int \<times> tool" where
  "put_back pf t =
     copy_file (pf_backup_path pf) (pf_original_path pf) (pf_file_mode pf) (pf_file_uid pf) (pf_file_gid pf)
       (make_parent (pf_original_path pf) (quarantine_corrupted pf t))"

definition restore_one :: "pf_row \<Rightarrow> restore_ctx \<times> tool \<Rightarrow> restore_ctx \<times> tool" where
  "restore_one pf st =
     (case st of (c0, t) \<Rightarrow>
        let c = c0\<lparr>rc_total := rc_total c0 + 1\<rparr> in
        if pf_restore_status pf \<noteq> ''pending'' then (c, t)
        else if \<not> valid_restore_path (pf_original_path pf) then fail_one pf (c, t)
        else if \<not> stat_found t (pf_backup_path pf) then fail_one pf (c, t)
        else
          let (rc, t1) = put_back pf t in
          if rc \<noteq> 0 then fail_one pf (c, t1)
          else
            let t2 = snd (sys_unlink (pf_backup_path pf) (set_status (pf_id pf) ''restored'' t1))
            in (c\<lparr>rc_success := rc_success c + 1\<rparr>, t2))"

subsection \<open>Removing what the attack created\<close>

record delete_created_ctx =
  dc_event :: string
  dc_deleted :: int
  dc_failed :: int

definition count_deleted :: "int \<Rightarrow> delete_created_ctx \<Rightarrow> delete_created_ctx" where
  "count_deleted rc c =
     (if rc = 0 then c\<lparr>dc_deleted := dc_deleted c + 1\<rparr> else c\<lparr>dc_failed := dc_failed c + 1\<rparr>)"

definition remove_created :: "string \<Rightarrow> string \<Rightarrow> node \<Rightarrow> tool \<Rightarrow> int \<times> tool" where
  "remove_created event_id path nd t =
     (case nd of
        Reg _ _ _ _ \<Rightarrow> to_quarantine nd path (snprintf_s PATH_MAX (quarantine_place event_id path)) t
      | Lnk _ \<Rightarrow> sys_unlink path t
      | Dirn \<Rightarrow> sys_rmdir path t)"

definition delete_created_one ::
  "int \<times> string \<Rightarrow> delete_created_ctx \<times> tool \<Rightarrow> delete_created_ctx \<times> tool" where
  "delete_created_one row st =
     (case (row, st) of ((rid, path), (c, t)) \<Rightarrow>
        if \<not> valid_restore_path path then (c\<lparr>dc_failed := dc_failed c + 1\<rparr>, t)
        else case node_at t path of
          None \<Rightarrow> (c\<lparr>dc_deleted := dc_deleted c + 1\<rparr>, t)
        | Some nd \<Rightarrow>
            let (rc, t1) = remove_created (dc_event c) path nd t in (count_deleted rc c, t1))"

subsection \<open>Commands\<close>

fun restore_args :: "string list \<Rightarrow> string option \<times> bool \<Rightarrow> string option \<times> bool" where
  "restore_args [] r = r"
| "restore_args [a] (ev, auto) = (ev, auto \<or> a = ''--auto'')"
| "restore_args (a # b # as) (ev, auto) =
     (if a = ''--event'' then restore_args as (Some b, auto)
      else restore_args (b # as) (ev, auto \<or> a = ''--auto''))"

text \<open>The database of the tool's world.\<close>

definition with_db :: "(database \<Rightarrow> 'a \<times> database) \<Rightarrow> tool \<Rightarrow> 'a \<times> tool" where
  "with_db f t = (let (r, db) = f (w_db (t_world t)) in (r, t\<lparr>t_world := (t_world t)\<lparr>w_db := db\<rparr>\<rparr>))"

definition close_event :: "string \<Rightarrow> int \<Rightarrow> tool \<Rightarrow> tool" where
  "close_event event_id success t =
     (let (ts, w) = iso8601_now (t_world t)
      in t\<lparr>t_world := w\<lparr>w_db := snd (db_update_event (w_db w) event_id success 0 0
             (Some ''restored'') (Some ''resolved'') (Some ts))\<rparr>\<rparr>)"

definition cmd_restore :: "string list \<Rightarrow> tool \<Rightarrow> int \<times> tool" where
  "cmd_restore args t0 =
     (case fst (restore_args args (None, False)) of
        None \<Rightarrow> (1, t0)
      | Some event_id \<Rightarrow>
          let ((_, created), t1) = with_db (\<lambda>db. db_query_created_by_event db event_id) t0;
              (dc, t2) = fold delete_created_one created
                (\<lparr>dc_event = event_id, dc_deleted = 0, dc_failed = 0\<rparr>, t1);
              ((_, rows), t3) = with_db (\<lambda>db. db_query_by_event db event_id) t2;
              (c, t4) = fold restore_one rows
                (\<lparr>rc_event = event_id, rc_total = 0, rc_success = 0, rc_fail = 0\<rparr>, t3)
          in if rc_total c = 0 \<and> dc_deleted dc = 0 then (1, t4)
             else (if rc_fail c > 0 then 2 else 0, close_event event_id (rc_success c) t4))"

definition cmd_unblock :: "string list \<Rightarrow> tool \<Rightarrow> int \<times> tool" where
  "cmd_unblock args t =
     (case args of
        [] \<Rightarrow> (1, t)
      | ip # _ \<Rightarrow>
          let (rc, w) = blocker_unblock TOOL_BLOCKED_PATH ip (t_world t)
          in (if rc = 0 then 0 else 1, t\<lparr>t_world := w\<rparr>))"

text \<open>The two numbers it prints; the reads of the blocked file are taken to succeed.\<close>

definition cmd_status :: "bool \<Rightarrow> tool \<Rightarrow> (int \<times> int \<times> nat) \<times> tool" where
  "cmd_status readable t =
     (let ((_, pending), t1) = with_db db_count_pending t;
          content = (if readable then w_files (t_world t) TOOL_BLOCKED_PATH else None);
          blocked = (case content of None \<Rightarrow> 0 | Some s \<Rightarrow> length (filter (\<lambda>c. c = newline) s))
      in ((0, pending, blocked), t1))"

text \<open>\<open>db_ok\<close>: the database opens. The arguments are those after the program's name.\<close>

definition recover_main :: "bool \<Rightarrow> bool \<Rightarrow> string list \<Rightarrow> tool \<Rightarrow> int \<times> tool" where
  "recover_main db_ok readable argv t =
     (case argv of
        [] \<Rightarrow> (1, t)
      | cmd # args \<Rightarrow>
          if cmd = ''unblock'' then cmd_unblock args t
          else if \<not> db_ok then (1, t)
          else if cmd = ''restore'' then cmd_restore args t
          else if cmd = ''status'' then (let ((rc, _), t1) = cmd_status readable t in (rc, t1))
          else (1, t))"

end
