(* ===== verification/Recover_Props.thy ===== *)
theory Recover_Props
  imports Recover
begin

text \<open>What the recovery tool does to the files, for any answers of the system.\<close>

subsection \<open>Copies\<close>

lemma put_chunk_all: "put_chunk ws data out = (True, ws', out') \<Longrightarrow> out' = out @ data"
  by (induction ws data out rule: put_chunk.induct) (auto split: if_splits)

text \<open>A copy whose reads make progress delivers the whole source.\<close>

lemma copy_loop_whole:
  "Io_bytes 0 \<notin> set rs \<Longrightarrow> copy_loop rs ws src out = (True, out') \<Longrightarrow> out' = out @ src"
proof (induction "length rs + length src" arbitrary: rs ws src out rule: less_induct)
  case less
  have bytes: "out' = out @ src"
    if "0 < k" and "set rs' \<subseteq> set rs" and "length rs' \<le> length rs"
      and run: "(let buf = take k src in
        if buf = [] then (True, out)
        else case put_chunk ws buf out of
          (ok, ws', o1) \<Rightarrow> if ok then copy_loop rs' ws' (drop k src) o1 else (False, o1)) = (True, out')"
    for k rs'
  proof (cases "take k src = []")
    case False
    obtain ok ws' o1 where pc: "put_chunk ws (take k src) out = (ok, ws', o1)"
      by (cases "put_chunk ws (take k src) out")
    with run False have ok: "ok" and rest: "copy_loop rs' ws' (drop k src) o1 = (True, out')"
      by (auto simp: Let_def split: if_splits)
    have "length rs' + length (drop k src) < length rs + length src" using False that(1,3) by (cases src) auto
    from less.hyps [OF this _ rest] less.prems(1) that(2) have "out' = o1 @ drop k src" by auto
    then show ?thesis using put_chunk_all [of ws "take k src" out ws' o1] pc ok by simp
  qed (use run \<open>0 < k\<close> in auto)
  show ?case
  proof (cases rs)
    case Nil
    then show ?thesis using less.prems(2) bytes [of 65536 "[]"] by (simp add: copy_loop.simps [of "[]"])
  next
    case (Cons a rs')
    show ?thesis
    proof (cases a)
      case (Io_bytes k)
      then have "0 < k" using less.prems(1) Cons by (cases k) auto
      then show ?thesis
        using less.prems(2) bytes [of "min k 65536" rs'] Cons Io_bytes by (auto simp: copy_loop.simps [of "_ # _"])
    qed (use less Cons in \<open>auto simp: copy_loop.simps [of "_ # _"]\<close>)
  qed
qed

subsection \<open>Paths and places\<close>

lemma path_names_ne [simp]: "path_names s \<noteq> []"
  by (cases s) (auto split: list.splits)

lemma path_names_slash [simp]: "path_names (a @ CHR ''/'' # b) = path_names a @ path_names b"
  by (induction a) (auto split: list.splits)

lemma path_names_plain: "CHR ''/'' \<notin> set s \<Longrightarrow> path_names s = [s]"
  by (induction s) auto

lemma path_names_suffix:
  "CHR ''/'' \<notin> set sfx \<Longrightarrow> path_names (s @ sfx) = butlast (path_names s) @ [last (path_names s) @ sfx]"
proof (induction s)
  case (Cons c s)
  obtain n ns where n: "path_names s = n # ns" by (cases "path_names s") auto
  with Cons show ?case by (cases ns) auto
qed (simp add: path_names_plain)

lemma path_names_hd: "path_names s = n # ns \<Longrightarrow> \<exists>v. s = n @ v \<and> (v = [] \<or> hd v = CHR ''/'')"
proof (induction s arbitrary: n ns)
  case (Cons c s)
  obtain m ms where m: "path_names s = m # ms" by (cases "path_names s") auto
  from Cons.IH [OF m] Cons.prems m show ?case by (auto split: if_splits)
qed simp

lemma path_names_tl:
  "n \<in> set (tl (path_names s)) \<Longrightarrow> \<exists>u v. s = u @ CHR ''/'' # n @ v \<and> (v = [] \<or> hd v = CHR ''/'')"
proof (induction s)
  case (Cons c s)
  obtain m ms where m: "path_names s = m # ms" by (cases "path_names s") auto
  show ?case
  proof (cases "c = CHR ''/'' \<and> n = m")
    case True
    with path_names_hd [OF m] show ?thesis by (metis append_Nil)
  next
    case False
    with Cons.prems m have "n \<in> set (tl (path_names s))" by (auto split: if_splits)
    from Cons.IH [OF this] obtain u v where "s = u @ CHR ''/'' # n @ v \<and> (v = [] \<or> hd v = CHR ''/'')" by blast
    then have "c # s = (c # u) @ CHR ''/'' # n @ v \<and> (v = [] \<or> hd v = CHR ''/'')" by simp
    then show ?thesis by blast
  qed
qed simp

text \<open>What the check of a recorded path buys: its text does not go up anywhere.\<close>

lemma valid_no_dotdot:
  assumes "valid_restore_path p"
  shows "''..'' \<notin> set (path_names p)"
proof
  assume up: "''..'' \<in> set (path_names p)"
  from assms obtain r where p: "p = CHR ''/'' # r" by (cases p) (auto simp: valid_restore_path_def)
  with up have "''..'' \<in> set (tl (path_names p))" by simp
  from path_names_tl [OF this] obtain u v where v: "p = u @ CHR ''/'' # ''..'' @ v" "v = [] \<or> hd v = CHR ''/''"
    by blast
  show False
  proof (cases v)
    case Nil
    then show ?thesis using assms v(1) by (simp add: valid_restore_path_def)
  next
    case (Cons c w)
    then have "p = u @ ''/../'' @ w" using v by simp
    then have "sublist ''/../'' p" by (auto simp only: sublist_appendI)
    then have "strstr p ''/../'' \<noteq> None" by (simp add: strstr_None)
    then show ?thesis using assms by (simp add: valid_restore_path_def)
  qed
qed

text \<open>The names of a path without the empty ones and the dots: its place when no link is in the way.\<close>

definition plain_place :: "string \<Rightarrow> place" where
  "plain_place p = filter (\<lambda>n. \<not> skipped n) (path_names p)"

lemma walk_plain:
  assumes "''..'' \<notin> set ns" and "ns = [] \<or> \<not> skipped (last ns)"
    and "\<And>z. strict_prefix (d @ z) (d @ filter (\<lambda>n. \<not> skipped n) ns) \<Longrightarrow> z \<noteq> [] \<Longrightarrow> link_at fs (d @ z) = None"
  shows "walk k fs False d ns = Some (d @ filter (\<lambda>n. \<not> skipped n) ns)"
  using assms
proof (induction ns arbitrary: d)
  case (Cons n ns)
  let ?f = "filter (\<lambda>n. \<not> skipped n)"
  show ?case
  proof (cases "skipped n")
    case True
    with Cons.prems have "ns \<noteq> []" by auto
    with True Cons.IH [of d] Cons.prems show ?thesis by simp
  next
    case False
    show ?thesis
    proof (cases "ns = []")
      case True
      with False Cons.prems(1) show ?thesis by simp
    next
      case ne: False
      have "?f ns \<noteq> []" using Cons.prems(2) ne by (auto simp: filter_empty_conv)
      then have "link_at fs (d @ [n]) = None" using Cons.prems(3) [of "[n]"] False by (simp add: strict_prefix_def)
      moreover have "link_at fs ((d @ [n]) @ z) = None"
        if "strict_prefix ((d @ [n]) @ z) ((d @ [n]) @ ?f ns)" "z \<noteq> []" for z
        using Cons.prems(3) [of "n # z"] that False by simp
      ultimately show ?thesis using Cons.IH [of "d @ [n]"] Cons.prems(1,2) ne False by auto
    qed
  qed
qed simp

text \<open>The places of the links that decide where a path leads.\<close>

function looked :: "nat \<Rightarrow> nodes \<Rightarrow> bool \<Rightarrow> place \<Rightarrow> string list \<Rightarrow> place list" where
  "looked k fs fl d [] = []"
| "looked k fs fl d (n # ns) =
     (if skipped n then looked k fs fl d ns
      else if n = ''..'' then looked k fs fl (butlast d) ns
      else if ns = [] \<and> \<not> fl then []
      else (d @ [n]) # (case link_at fs (d @ [n]) of
        None \<Rightarrow> looked k fs fl (d @ [n]) ns
      | Some q \<Rightarrow> (case k of 0 \<Rightarrow> [] | Suc k' \<Rightarrow> looked k' fs fl (link_start q d) (path_names q @ ns))))"
  by pat_completeness auto
termination
  by (relation "measures [\<lambda>(k, fs, fl, d, ns). k, \<lambda>(k, fs, fl, d, ns). length ns]") auto

lemma walk_cong:
  "(\<And>z. z \<in> set (looked k fs fl d ns) \<Longrightarrow> link_at fs' z = link_at fs z) \<Longrightarrow>
     walk k fs' fl d ns = walk k fs fl d ns"
proof (induction k fs fl d ns rule: walk.induct)
  case (2 k fs fl d n ns)
  show ?case
  proof (cases "skipped n \<or> n = ''..'' \<or> ns = [] \<and> \<not> fl")
    case True
    with 2 show ?thesis by (auto split: if_splits)
  next
    case False
    then have eq: "link_at fs' (d @ [n]) = link_at fs (d @ [n])" using "2.prems" [of "d @ [n]"] by simp
    show ?thesis
    proof (cases "link_at fs (d @ [n])")
      case None
      with False eq 2 show ?thesis by auto
    next
      case (Some q)
      with False eq 2 show ?thesis by (cases k) auto
    qed
  qed
qed simp

lemma walk_links: "link_at fs' = link_at fs \<Longrightarrow> walk k fs' fl d ns = walk k fs fl d ns"
  by (rule walk_cong) simp

lemma locate_links: "link_at fs' = link_at fs \<Longrightarrow> locate fs' p = locate fs p"
  unfolding locate_def by (rule walk_links)

definition way :: "nodes \<Rightarrow> string \<Rightarrow> place set" where
  "way fs p = set (looked max_links fs False [] (path_names p))"

lemma locate_cong: "(\<And>z. z \<in> way fs p \<Longrightarrow> link_at fs' z = link_at fs z) \<Longrightarrow> locate fs' p = locate fs p"
  unfolding locate_def way_def by (rule walk_cong)

lemma locate_plain:
  assumes "''..'' \<notin> set (path_names p)" and "names_entry p"
    and "\<And>z. strict_prefix z (plain_place p) \<Longrightarrow> link_at fs z = None"
  shows "locate fs p = Some (plain_place p)"
  using walk_plain [OF assms(1), of "[]" fs max_links] assms(2,3)
  unfolding locate_def plain_place_def names_entry_def by simp

subsection \<open>What a step changes\<close>

text \<open>
  Outside \<open>A\<close> nothing changes but that directories are made where nothing was, and new links
  come to stand in \<open>Y\<close> only.
\<close>

definition moved :: "place set \<Rightarrow> place set \<Rightarrow> tool \<Rightarrow> tool \<Rightarrow> bool" where
  "moved A Y t t' \<longleftrightarrow>
     (\<forall>z. z \<notin> A \<longrightarrow> t_nodes t' z = t_nodes t z \<or> t_nodes t z = None \<and> t_nodes t' z = Some Dirn) \<and>
     (\<forall>z. z \<notin> Y \<longrightarrow> link_at (t_nodes t') z = None \<or> link_at (t_nodes t') z = link_at (t_nodes t) z)"

definition below :: "place \<Rightarrow> place set" where
  "below x = {z. prefix x z}"

lemma below_self [simp]: "x \<in> below x"
  by (simp add: below_def)

lemma moved_refl [simp]: "moved A Y t t"
  by (simp add: moved_def)

lemma moved_trans: "moved A Y t t' \<Longrightarrow> moved A Y t' t'' \<Longrightarrow> moved A Y t t''"
  unfolding moved_def by (metis option.distinct(1))

lemma moved_mono: "moved A Y t t' \<Longrightarrow> A \<subseteq> B \<Longrightarrow> Y \<subseteq> Z \<Longrightarrow> moved B Z t t'"
  unfolding moved_def by blast

lemma moved_node: "moved A Y t t' \<Longrightarrow> z \<notin> A \<Longrightarrow> t_nodes t z = Some nd \<Longrightarrow> t_nodes t' z = Some nd"
  unfolding moved_def by (metis option.distinct(1))

lemma moved_link: "moved A Y t t' \<Longrightarrow> z \<notin> A \<Longrightarrow> link_at (t_nodes t') z = link_at (t_nodes t) z"
proof -
  assume "moved A Y t t'" "z \<notin> A"
  then have "t_nodes t' z = t_nodes t z \<or> t_nodes t z = None \<and> t_nodes t' z = Some Dirn"
    unfolding moved_def by blast
  then show ?thesis by (auto simp: link_at_def)
qed

lemma moved_no_link: "moved A Y t t' \<Longrightarrow> z \<notin> Y \<Longrightarrow> link_at (t_nodes t) z = None \<Longrightarrow> link_at (t_nodes t') z = None"
  unfolding moved_def by metis

lemma next_nodes [simp]: "t_nodes (next_sys t) = t_nodes t" "t_world (next_sys t) = t_world t"
  "t_sys (next_sys t) = t_sys t" "t_io (next_sys t) = t_io t"
  by (simp_all add: next_sys_def)

lemma moved_next [simp]: "moved A Y t (next_sys t') = moved A Y t t'" "moved A Y (next_sys t) t' = moved A Y t t'"
  by (simp_all add: moved_def)

lemma set_node_nodes [simp]: "t_nodes (set_node x nd t) = (t_nodes t)(x \<mapsto> nd)"
  "t_world (set_node x nd t) = t_world t" "t_sys (set_node x nd t) = t_sys t" "t_io (set_node x nd t) = t_io t"
  by (simp_all add: set_node_def)

lemma node_at_next [simp]: "node_at (next_sys t) p = node_at t p"
  by (simp add: node_at_def split: option.split)

text \<open>Making directories changes no link.\<close>

lemma new_directory:
  assumes "t_nodes t x = None"
  shows "moved {} {} t (set_node x Dirn t)" and "link_at (t_nodes (set_node x Dirn t)) = link_at (t_nodes t)"
  using assms by (auto simp: moved_def link_at_def)

lemma mkdir_each_moved: "moved {} {} t (snd (mkdir_each ps t)) \<and>
    link_at (t_nodes (snd (mkdir_each ps t))) = link_at (t_nodes t)"
proof (induction ps t rule: mkdir_each.induct)
  case (2 p ps t)
  show ?case
  proof (cases "node_at t p = None \<and> sys_ok t")
    case new: True
    show ?thesis
    proof (cases "locate (t_nodes t) p")
      case (Some x)
      with new have none: "t_nodes t x = None" by (auto simp: node_at_def look_def split: if_splits)
      note d = new_directory [OF none]
      let ?t = "snd (mkdir_each ps (next_sys (set_node x Dirn t)))"
      have "moved {} {} (set_node x Dirn t) ?t \<and> link_at (t_nodes ?t) = link_at (t_nodes (set_node x Dirn t))"
        using 2(2) [OF _ Some] new by (simp only: moved_next next_nodes simp_thms)
      with d have "moved {} {} t ?t \<and> link_at (t_nodes ?t) = link_at (t_nodes t)"
        using moved_trans [of "{}" "{}" t "set_node x Dirn t" ?t] by simp
      with new Some show ?thesis by (simp only: mkdir_each.simps option.case if_True if_False simp_thms)
    qed (use new in simp)
  qed (use 2 in \<open>auto split: option.split\<close>)
qed simp

lemma make_parent_moved [simp]: "moved {} {} t (make_parent path t)"
  "link_at (t_nodes (make_parent path t)) = link_at (t_nodes t)"
  using mkdir_each_moved by (auto simp: make_parent_def tool_mkdir_p_def Let_def split: option.split)

lemma make_parent_locate [simp]: "locate (t_nodes (make_parent path t)) p = locate (t_nodes t) p"
  by (rule locate_links) simp

text \<open>A copy changes the bytes and attributes of one file.\<close>

lemma open_target_Some:
  assumes "open_target dst mode t = Some (x, mk)"
  shows "locate (t_nodes t) dst = Some x" and "link_at (t_nodes t) x = None" and "x \<noteq> []"
    and "\<exists>m u g. mk = (\<lambda>b. Reg b m u g)"
  using assms by (auto simp: open_target_def look_def link_at_def split: option.splits node.splits if_splits)

lemma set_reg_links: "link_at fs x = None \<Longrightarrow> link_at (fs(x \<mapsto> Reg b m u g)) = link_at fs"
  by (auto simp: link_at_def)

lemma copy_file_effect:
  "snd (copy_file src dst mode uid gid t) = next_sys t \<or>
   snd (copy_file src dst mode uid gid t) = next_sys (next_sys t) \<or>
   (\<exists>x b m u g. locate (t_nodes t) dst = Some x \<and> x \<noteq> [] \<and> link_at (t_nodes t) x = None \<and>
      t_nodes (snd (copy_file src dst mode uid gid t)) = (t_nodes t)(x \<mapsto> Reg b m u g))"
proof (cases "open_source src t")
  case (Some content)
  show ?thesis
  proof (cases "open_target dst mode (next_sys t)")
    case (Some w)
    obtain x mk where w: "w = (x, mk)" by (cases w)
    note o = open_target_Some [OF Some [unfolded w]]
    from o(4) obtain m u g where mk: "mk = (\<lambda>b. Reg b m u g)" by blast
    have "\<exists>b m u g. t_nodes (snd (copy_file src dst mode uid gid t)) = (t_nodes t)(x \<mapsto> Reg b m u g)"
      using \<open>open_source src t = Some content\<close> Some w
      by (auto simp: copy_file_def set_owner_def mk Let_def case_prod_beta split: prod.split)
    with o(1-3) show ?thesis by auto
  qed (use Some in \<open>simp add: copy_file_def\<close>)
qed (simp add: copy_file_def)

lemma copy_file_moved: "moved {x. locate (t_nodes t) dst = Some x} {} t (snd (copy_file src dst mode uid gid t))"
  using copy_file_effect [of src dst mode uid gid t] by (auto simp: moved_def set_reg_links)

lemma copy_file_links: "link_at (t_nodes (snd (copy_file src dst mode uid gid t))) = link_at (t_nodes t)"
  using copy_file_effect [of src dst mode uid gid t] by (auto simp: set_reg_links)

text \<open>Moving and removing.\<close>

lemma sys_rename_moved:
  assumes "\<And>x y. locate (t_nodes t) p = Some x \<Longrightarrow> locate (t_nodes t) q = Some y \<Longrightarrow>
    below x \<union> below y \<subseteq> A \<and> below y \<subseteq> Y"
  shows "moved A Y t (snd (sys_rename p q t))"
proof (cases "\<exists>x y. locate (t_nodes t) p = Some x \<and> locate (t_nodes t) q = Some y")
  case True
  then obtain x y where xy: "locate (t_nodes t) p = Some x" "locate (t_nodes t) q = Some y" by blast
  from assms [OF this] have "z \<notin> A \<Longrightarrow> \<not> prefix x z \<and> \<not> prefix y z" "z \<notin> Y \<Longrightarrow> \<not> prefix y z" for z
    by (auto simp: below_def)
  with xy show ?thesis by (simp add: sys_rename_def moved_def rename_nodes_def link_at_def)
qed (auto simp: sys_rename_def split: option.split)

lemma sys_rename_fails: "fst (sys_rename p q t) \<noteq> 0 \<Longrightarrow> snd (sys_rename p q t) = next_sys t"
  by (auto simp: sys_rename_def split: option.split if_splits)

lemma sys_rename_into: "locate (t_nodes t) p = Some x \<Longrightarrow> locate (t_nodes t) q = Some y \<Longrightarrow> strict_prefix y x \<Longrightarrow>
    fst (sys_rename p q t) \<noteq> 0"
  by (simp add: sys_rename_def)

lemma sys_unlink_moved: "moved {x. locate (t_nodes t) p = Some x} {} t (snd (sys_unlink p t))"
  by (auto simp: sys_unlink_def moved_def link_at_def split: option.split)

lemma sys_rmdir_moved: "moved {x. locate (t_nodes t) p = Some x} {} t (snd (sys_rmdir p t))"
  by (auto simp: sys_rmdir_def moved_def link_at_def split: option.split)

text \<open>The fall-back of a refused rename changes no link but the one it removes.\<close>

lemma copy_unlink_links:
  assumes "locate (t_nodes t) p = Some x" and "z \<noteq> x"
  shows "link_at (t_nodes (snd (sys_unlink p (snd (copy_file p q m u g t))))) z = link_at (t_nodes t) z"
proof -
  let ?t = "snd (copy_file p q m u g t)"
  have "locate (t_nodes ?t) p = Some x" using assms(1) locate_links [OF copy_file_links] by metis
  with assms(2) moved_link [OF sys_unlink_moved, of z ?t p] show ?thesis
    using copy_file_links [of p q m u g t] by simp
qed

lemma move_to_moved:
  assumes "locate (t_nodes t) p = Some x" and "below x \<subseteq> A"
    and "\<And>y. locate (t_nodes t) q = Some y \<Longrightarrow> below y \<subseteq> A \<and> below y \<subseteq> Y"
  shows "moved A Y t (snd (move_to nd p q t))"
proof -
  have x: "x \<in> A" using assms(2) below_self by blast
  have y: "{y. locate (t_nodes t) q = Some y} \<subseteq> A" using assms(3) below_self by blast
  obtain rc t1 where r: "sys_rename p q t = (rc, t1)" by fastforce
  have 1: "moved A Y t t1"
    using sys_rename_moved [of t p q A Y] assms r by (metis Un_least option.inject snd_conv)
  have rest: "moved A Y t (snd (copy_file p q m u g t1))"
    "moved A Y t (snd (sys_unlink p (snd (copy_file p q m u g t1))))" if "rc \<noteq> 0" for m u g
  proof -
    have t1: "t1 = next_sys t" using sys_rename_fails [of p q t] r that by simp
    show c: "moved A Y t (snd (copy_file p q m u g t1))"
      using moved_mono [OF copy_file_moved, of t1 q A Y] y t1 by auto
    have "locate (t_nodes (snd (copy_file p q m u g t1))) p = Some x"
      using assms(1) t1 locate_links [OF copy_file_links] by (metis next_nodes(1))
    then have "moved A Y (snd (copy_file p q m u g t1)) (snd (sys_unlink p (snd (copy_file p q m u g t1))))"
      using moved_mono [OF sys_unlink_moved, of "snd (copy_file p q m u g t1)" p A Y] x by auto
    with c show "moved A Y t (snd (sys_unlink p (snd (copy_file p q m u g t1))))" by (rule moved_trans)
  qed
  show ?thesis
    using 1 rest by (auto simp: move_to_def r case_prod_beta split: node.split)
qed

text \<open>A link stays where it is unless it is moved: nothing is moved over what it is in.\<close>

lemma move_to_link:
  assumes "locate (t_nodes t) p = Some x" and "\<not> prefix x z"
    and "\<And>y. locate (t_nodes t) q = Some y \<Longrightarrow> strict_prefix y x \<or> \<not> prefix y z"
  shows "link_at (t_nodes (snd (move_to nd p q t))) z = link_at (t_nodes t) z"
proof (cases "fst (sys_rename p q t) = 0")
  case True
  then obtain y where y: "locate (t_nodes t) q = Some y" "\<not> strict_prefix y x"
    using assms(1) by (auto simp: sys_rename_def split: option.splits if_splits)
  have "moved (below x \<union> below y) (below y) t (snd (sys_rename p q t))"
    by (rule sys_rename_moved) (use assms(1) y(1) in auto)
  from moved_link [OF this, of z] assms(2) assms(3) [OF y(1)] y(2)
  have "link_at (t_nodes (snd (sys_rename p q t))) z = link_at (t_nodes t) z" by (simp add: below_def)
  with True show ?thesis by (simp add: move_to_def case_prod_beta)
next
  case False
  from assms(2) have "z \<noteq> x" by auto
  with assms(1) copy_unlink_links [of "next_sys t" p x z q] copy_file_links [of p q _ _ _ "next_sys t"] False
  show ?thesis by (simp add: move_to_def case_prod_beta sys_rename_fails [OF False] split: node.split)
qed

subsection \<open>The quarantine\<close>

text \<open>What is put behind the path of a taken place: a number, or as much of it as fits.\<close>

definition slot_suffix :: "string \<Rightarrow> string \<Rightarrow> bool" where
  "slot_suffix path sfx \<longleftrightarrow> CHR ''/'' \<notin> set sfx \<and>
     (length path + 3 < PATH_MAX \<longrightarrow> sfx = [] \<or> (\<exists>i. sfx = ''.'' @ show_nat i))"

lemma show_nat_no_slash: "CHR ''/'' \<notin> set (show_nat n)"
  using show_nat_digits [of "CHR ''/''" n] by (auto simp: of_char_of)

lemma slot_loop_suffix:
  assumes "length base < PATH_MAX" and "set is \<subseteq> {..<100}" and "\<exists>sfx. cur = base @ sfx \<and> slot_suffix base sfx"
  shows "\<exists>sfx. slot_loop used PATH_MAX base is cur = base @ sfx \<and> slot_suffix base sfx"
  using assms
proof (induction "is" arbitrary: cur)
  case (Cons i "is")
  let ?sfx = "take (PATH_MAX - 1 - length base) (''.'' @ show_nat i)"
  have len: "length (show_nat i) \<le> 2" using Cons.prems(2) length_show_nat [of i 1] by simp
  have p: "snprintf_s PATH_MAX (base @ ''.'' @ show_nat i) = base @ ?sfx"
    using Cons.prems(1) by (simp add: snprintf_s_def)
  have "slot_suffix base ?sfx"
    using len show_nat_no_slash [of i] by (auto simp: slot_suffix_def dest: in_set_takeD)
  then have "\<exists>sfx. base @ ?sfx = base @ sfx \<and> slot_suffix base sfx" by blast
  with Cons show ?case unfolding slot_loop.simps Let_def p by auto
qed simp

lemma quarantine_unique_suffix:
  assumes "length path < PATH_MAX"
  shows "\<exists>sfx. quarantine_unique used path PATH_MAX = path @ sfx \<and> slot_suffix path sfx"
proof -
  have "\<exists>sfx. path = path @ sfx \<and> slot_suffix path sfx" by (intro exI [of _ "[]"]) (simp add: slot_suffix_def)
  moreover have "set [1..<100] \<subseteq> {..<100::nat}" by auto
  ultimately show ?thesis
    using slot_loop_suffix [OF assms, of "[1..<100]" path used] assms
    by (auto simp: quarantine_unique_def simp del: upt_rec_numeral)
qed

lemma to_quarantine_moved:
  assumes "locate (t_nodes t) p = Some x" and "below x \<subseteq> A" and "length qpath < PATH_MAX"
    and "\<And>sfx y. slot_suffix qpath sfx \<Longrightarrow> locate (t_nodes t) (qpath @ sfx) = Some y \<Longrightarrow>
      below y \<subseteq> A \<and> below y \<subseteq> Y"
  shows "moved A Y t (snd (to_quarantine nd p qpath t))"
proof -
  let ?t = "make_parent qpath t"
  obtain sfx where q: "quarantine_unique (\<lambda>p. node_at ?t p \<noteq> None) qpath PATH_MAX = qpath @ sfx"
    "slot_suffix qpath sfx" using quarantine_unique_suffix [OF assms(3)] by blast
  have "moved A Y ?t (snd (move_to nd p (qpath @ sfx) ?t))"
    by (rule move_to_moved [of _ _ x]) (use assms(1,2) assms(4) [OF q(2)] in auto)
  then show ?thesis
    unfolding to_quarantine_def Let_def q(1)
    by (rule moved_trans [OF moved_mono [OF make_parent_moved(1) empty_subsetI empty_subsetI]])
qed

lemma to_quarantine_link:
  assumes "locate (t_nodes t) p = Some x" and "\<not> prefix x z" and "length qpath < PATH_MAX"
    and "\<And>sfx y. slot_suffix qpath sfx \<Longrightarrow> locate (t_nodes t) (qpath @ sfx) = Some y \<Longrightarrow>
      strict_prefix y x \<or> \<not> prefix y z"
  shows "link_at (t_nodes (snd (to_quarantine nd p qpath t))) z = link_at (t_nodes t) z"
proof -
  let ?t = "make_parent qpath t"
  obtain sfx where q: "quarantine_unique (\<lambda>p. node_at ?t p \<noteq> None) qpath PATH_MAX = qpath @ sfx"
    "slot_suffix qpath sfx" using quarantine_unique_suffix [OF assms(3)] by blast
  have "link_at (t_nodes (snd (move_to nd p (qpath @ sfx) ?t))) z = link_at (t_nodes ?t) z"
    by (rule move_to_link [of _ _ x]) (use assms(1,2) assms(4) [OF q(2)] in auto)
  then show ?thesis unfolding to_quarantine_def Let_def q(1) by simp
qed

lemma set_status_nodes [simp]: "t_nodes (set_status rid status t) = t_nodes t"
  "t_sys (set_status rid status t) = t_sys t" "t_io (set_status rid status t) = t_io t"
  "t_n (set_status rid status t) = t_n t"
  by (simp_all add: set_status_def iso8601_now_def)

text \<open>Everything before the copy.\<close>

definition prepared :: "pf_row \<Rightarrow> tool \<Rightarrow> tool" where
  "prepared pf t = make_parent (pf_original_path pf) (quarantine_corrupted pf t)"

lemma quarantine_corrupted_moved:
  assumes "\<And>x. locate (t_nodes t) (pf_original_path pf) = Some x \<Longrightarrow> below x \<subseteq> A"
    and "\<And>sfx y. slot_suffix (quarantine_place (pf_event_id pf) (pf_original_path pf)) sfx \<Longrightarrow>
      locate (t_nodes t) (quarantine_place (pf_event_id pf) (pf_original_path pf) @ sfx) = Some y \<Longrightarrow>
      below y \<subseteq> A \<and> below y \<subseteq> Y"
  shows "moved A Y t (quarantine_corrupted pf t)"
proof (cases "node_at t (pf_original_path pf)")
  case (Some nd)
  then obtain x where x: "locate (t_nodes t) (pf_original_path pf) = Some x"
    by (auto simp: node_at_def split: option.splits)
  show ?thesis
    using Some to_quarantine_moved [OF x assms(1) [OF x] _ assms(2)]
    by (auto simp: quarantine_corrupted_def Let_def)
qed (simp add: quarantine_corrupted_def)

lemma quarantine_corrupted_link:
  assumes "\<And>x. locate (t_nodes t) (pf_original_path pf) = Some x \<Longrightarrow> \<not> prefix x z"
    and "\<And>sfx x y. locate (t_nodes t) (pf_original_path pf) = Some x \<Longrightarrow>
      slot_suffix (quarantine_place (pf_event_id pf) (pf_original_path pf)) sfx \<Longrightarrow>
      locate (t_nodes t) (quarantine_place (pf_event_id pf) (pf_original_path pf) @ sfx) = Some y \<Longrightarrow>
      strict_prefix y x \<or> \<not> prefix y z"
  shows "link_at (t_nodes (quarantine_corrupted pf t)) z = link_at (t_nodes t) z"
proof (cases "node_at t (pf_original_path pf)")
  case (Some nd)
  then obtain x where x: "locate (t_nodes t) (pf_original_path pf) = Some x"
    by (auto simp: node_at_def split: option.splits)
  show ?thesis
    using Some to_quarantine_link [OF x assms(1) [OF x] _ assms(2) [OF x]]
    by (auto simp: quarantine_corrupted_def Let_def)
qed (simp add: quarantine_corrupted_def)

lemma prepared_moved: "moved A Y t (quarantine_corrupted pf t) \<Longrightarrow> moved A Y t (prepared pf t)"
  unfolding prepared_def
  by (rule moved_trans [OF _ moved_mono [OF make_parent_moved(1) empty_subsetI empty_subsetI]])

lemma prepared_links: "link_at (t_nodes (prepared pf t)) = link_at (t_nodes (quarantine_corrupted pf t))"
  by (simp add: prepared_def)

end
