(* ===== verification/Recover_Claims.thy ===== *)
theory Recover_Claims
  imports Recover_Props
begin

text \<open>The properties of the recovery tool: what it reaches and what it gives back.\<close>

subsection \<open>The places of an event\<close>

text \<open>What the database records of an event, as its queries deliver it.\<close>

definition event_files :: "database \<Rightarrow> string \<Rightarrow> string set" where
  "event_files db ev =
     (\<lambda>r. pf_original_path (row_to_pf r)) ` {r \<in> set (d_files db). pf_event_id r = ev} \<union>
     cf_path ` {r \<in> set (d_created db). cf_event_id r = ev}"

definition event_backups :: "database \<Rightarrow> string \<Rightarrow> string set" where
  "event_backups db ev =
     (\<lambda>r. pf_backup_path (row_to_pf r)) ` {r \<in> set (d_files db). pf_event_id r = ev}"

definition quarantine_area :: "string \<Rightarrow> place" where
  "quarantine_area ev = plain_place QUARANTINE_PATH @ [ev]"

definition beside :: "place \<Rightarrow> string \<Rightarrow> place" where
  "beside x sfx = butlast x @ [last x @ sfx]"

definition numbered :: "string \<Rightarrow> bool" where
  "numbered sfx \<longleftrightarrow> sfx = [] \<or> (\<exists>i. sfx = ''.'' @ show_nat i)"

text \<open>
  The paths \<open>V\<close> the tool acts on and the backups \<open>B\<close> of an event, as texts: each names an entry whose
  place in the quarantine fits its buffer, none leads into the quarantine, and no path runs through
  another one or a numbered neighbour of it.
\<close>

definition well_formed :: "string set \<Rightarrow> string set \<Rightarrow> string \<Rightarrow> bool" where
  "well_formed V B ev \<longleftrightarrow>
     CHR ''/'' \<notin> set ev \<and> \<not> skipped ev \<and> ev \<noteq> ''..'' \<and> length ev < 64 \<and>
     (\<forall>p \<in> V. names_entry p \<and> length (quarantine_place ev p) + 3 < PATH_MAX \<and>
        \<not> prefix (quarantine_area ev) (plain_place p)) \<and>
     (\<forall>p \<in> V. \<forall>p' \<in> V. \<forall>sfx. numbered sfx \<longrightarrow> \<not> strict_prefix (beside (plain_place p) sfx) (plain_place p')) \<and>
     (\<forall>b \<in> B. ''..'' \<notin> set (path_names b) \<and> \<not> prefix (quarantine_area ev) (plain_place b))"

text \<open>The places the event's paths lead to when no directory on the way is a link.\<close>

definition ways :: "string set \<Rightarrow> string set \<Rightarrow> string \<Rightarrow> place set" where
  "ways V B ev = plain_place ` V \<union> (\<lambda>p. quarantine_area ev @ plain_place p) ` V \<union> plain_place ` B"

definition unlinked :: "place set \<Rightarrow> nodes \<Rightarrow> bool" where
  "unlinked W fs \<longleftrightarrow> (\<forall>w \<in> W. \<forall>z. strict_prefix z w \<longrightarrow> link_at fs z = None)"

definition reached :: "string set \<Rightarrow> string set \<Rightarrow> string \<Rightarrow> place set" where
  "reached V B ev = (\<Union>p \<in> V. below (plain_place p)) \<union> below (quarantine_area ev) \<union> plain_place ` B"

definition landing :: "string set \<Rightarrow> string \<Rightarrow> place set" where
  "landing V ev = {z. \<exists>p \<in> V. \<exists>sfx. numbered sfx \<and> prefix (quarantine_area ev @ beside (plain_place p) sfx) z}"

lemma prefix_of_common: "prefix a c \<Longrightarrow> strict_prefix b c \<Longrightarrow> prefix a b \<or> strict_prefix b a"
  by (metis prefix_order.dual_order.strict_implies_order prefix_order.le_neq_trans prefix_same_cases)

lemma landing_clear:
  assumes "well_formed V B ev" and "w \<in> ways V B ev" and "strict_prefix z w"
  shows "z \<notin> landing V ev"
proof
  let ?q = "quarantine_area ev"
  assume "z \<in> landing V ev"
  then obtain p sfx where p: "p \<in> V" "numbered sfx" "prefix (?q @ beside (plain_place p) sfx) z"
    by (auto simp: landing_def)
  then have qz: "prefix ?q z" by (metis append_prefixD)
  then have qw: "prefix ?q w" using assms(3) by (meson prefix_order.le_less_trans prefix_order.less_imp_le)
  from assms(2) consider p' where "p' \<in> V" "w = plain_place p'" | p' where "p' \<in> V" "w = ?q @ plain_place p'"
    | b where "b \<in> B" "w = plain_place b" by (auto simp: ways_def)
  then show False
  proof cases
    case 2
    then have "strict_prefix (?q @ beside (plain_place p) sfx) (?q @ plain_place p')"
      using p(3) assms(3) by (metis prefix_order.le_less_trans)
    then have "strict_prefix (beside (plain_place p) sfx) (plain_place p')"
      by (simp add: strict_prefix_def)
    with assms(1) p(1,2) 2(1) show False unfolding well_formed_def by blast
  qed (use assms(1) qw in \<open>auto simp: well_formed_def\<close>)
qed

lemma unlinked_kept:
  assumes "well_formed V B ev" and "unlinked (ways V B ev) (t_nodes t)" and "moved A (landing V ev) t t'"
  shows "unlinked (ways V B ev) (t_nodes t')"
  unfolding unlinked_def
proof (intro ballI allI impI)
  fix w z
  assume "w \<in> ways V B ev" "strict_prefix z w"
  with landing_clear [OF assms(1)] assms(2) show "link_at (t_nodes t') z = None"
    by (intro moved_no_link [OF assms(3)]) (auto simp: unlinked_def)
qed

subsection \<open>Where the paths lead\<close>

lemma place_names:
  assumes "CHR ''/'' \<notin> set ev" and "valid_restore_path p"
  shows "path_names (quarantine_place ev p) = path_names QUARANTINE_PATH @ [ev] @ tl (path_names p)"
    and "path_names p = [] # tl (path_names p)"
proof -
  from assms(2) obtain r where p: "p = CHR ''/'' # r" by (cases p) (auto simp: valid_restore_path_def)
  then show "path_names p = [] # tl (path_names p)" by simp
  have "quarantine_place ev p = QUARANTINE_PATH @ CHR ''/'' # ev @ CHR ''/'' # r"
    by (simp add: quarantine_place_def p)
  then show "path_names (quarantine_place ev p) = path_names QUARANTINE_PATH @ [ev] @ tl (path_names p)"
    by (simp add: p path_names_plain [OF assms(1)])
qed

lemma quarantine_names: "path_names QUARANTINE_PATH = [[], ''var'', ''lib'', ''gf2000'', ''rguard-store'', ''quarantine'']"
  by (simp add: QUARANTINE_PATH_def STORE_PATH_def)

lemma entry_last:
  assumes "names_entry p" and "path_names p = [] # ns"
  shows "ns \<noteq> []" and "plain_place p = filter (\<lambda>n. \<not> skipped n) (butlast ns) @ [last ns]"
    and "\<not> skipped (last ns)" and "last ns \<noteq> ''..''"
proof -
  show ne: "ns \<noteq> []" using assms by (cases ns) (auto simp: names_entry_def skipped_def)
  with assms show l: "\<not> skipped (last ns)" "last ns \<noteq> ''..''" by (auto simp: names_entry_def)
  have "ns = butlast ns @ [last ns]" using ne by simp
  then have "filter (\<lambda>n. \<not> skipped n) ns = filter (\<lambda>n. \<not> skipped n) (butlast ns) @ [last ns]"
    using l(1) by (metis filter.simps filter_append)
  then show "plain_place p = filter (\<lambda>n. \<not> skipped n) (butlast ns) @ [last ns]"
    by (simp add: plain_place_def assms(2) skipped_def)
qed

lemma strict_prefix_snoc: "strict_prefix z (xs @ [x]) \<longleftrightarrow> prefix z xs"
  by (auto simp: strict_prefix_def prefix_snoc dest: prefix_length_le)

lemma slot_place:
  assumes "CHR ''/'' \<notin> set ev" and "\<not> skipped ev" and "ev \<noteq> ''..''"
    and "valid_restore_path p" and "names_entry p" and "CHR ''/'' \<notin> set sfx"
  shows "names_entry (quarantine_place ev p @ sfx)"
    and "''..'' \<notin> set (path_names (quarantine_place ev p @ sfx))"
    and "plain_place (quarantine_place ev p @ sfx) = quarantine_area ev @ beside (plain_place p) sfx"
    and "strict_prefix z (quarantine_area ev @ beside (plain_place p) sfx) \<Longrightarrow>
      strict_prefix z (quarantine_area ev @ plain_place p)"
proof -
  let ?ns = "tl (path_names p)"
  note pn = place_names [OF assms(1,4)]
  note el = entry_last [OF assms(5) pn(2)]
  have names: "path_names (quarantine_place ev p @ sfx) =
      path_names QUARANTINE_PATH @ [ev] @ butlast ?ns @ [last ?ns @ sfx]"
    unfolding path_names_suffix [OF assms(6)] pn(1) using el(1) by (simp add: butlast_append)
  have l: "\<not> skipped (last ?ns @ sfx) \<and> last ?ns @ sfx \<noteq> ''..''"
    using el(3,4) by (cases "last ?ns") (auto simp: skipped_def append_eq_Cons_conv)
  then show "names_entry (quarantine_place ev p @ sfx)" by (simp add: names_entry_def names)
  have "''..'' \<notin> set ?ns" using valid_no_dotdot [OF assms(4)] pn(2) by (metis list.set_intros(2))
  then show "''..'' \<notin> set (path_names (quarantine_place ev p @ sfx))"
    using l assms(3) by (auto simp: names quarantine_names dest: in_set_butlastD)
  show pl: "plain_place (quarantine_place ev p @ sfx) = quarantine_area ev @ beside (plain_place p) sfx"
    using l assms(2) by (simp add: plain_place_def [of "quarantine_place ev p @ sfx"] names quarantine_area_def
        plain_place_def [of QUARANTINE_PATH] el(2) beside_def)
  assume "strict_prefix z (quarantine_area ev @ beside (plain_place p) sfx)"
  then have "prefix z (quarantine_area ev @ filter (\<lambda>n. \<not> skipped n) (butlast ?ns))"
    using strict_prefix_snoc [of z "quarantine_area ev @ filter (\<lambda>n. \<not> skipped n) (butlast ?ns)"]
    by (simp add: el(2) beside_def)
  then show "strict_prefix z (quarantine_area ev @ plain_place p)"
    using strict_prefix_snoc [of z "quarantine_area ev @ filter (\<lambda>n. \<not> skipped n) (butlast ?ns)"]
    by (simp add: el(2))
qed

lemma plain_ways:
  assumes "well_formed V B ev" and "unlinked (ways V B ev) fs"
  shows "p \<in> V \<Longrightarrow> valid_restore_path p \<Longrightarrow> locate fs p = Some (plain_place p)"
    and "p \<in> V \<Longrightarrow> valid_restore_path p \<Longrightarrow> slot_suffix (quarantine_place ev p) sfx \<Longrightarrow>
      locate fs (quarantine_place ev p @ sfx) = Some (quarantine_area ev @ beside (plain_place p) sfx) \<and> numbered sfx"
    and "b \<in> B \<Longrightarrow> names_entry b \<Longrightarrow> locate fs b = Some (plain_place b)"
proof -
  have w: "link_at fs z = None" if "w \<in> ways V B ev" "strict_prefix z w" for w z
    using assms(2) that by (auto simp: unlinked_def)
  have ev: "CHR ''/'' \<notin> set ev" "\<not> skipped ev" "ev \<noteq> ''..''" using assms(1) by (simp_all add: well_formed_def)
  {
    assume p: "p \<in> V" "valid_restore_path p"
    have e: "names_entry p" and len: "length (quarantine_place ev p) + 3 < PATH_MAX"
      using assms(1) p(1) by (auto simp: well_formed_def)
    show "locate fs p = Some (plain_place p)"
      by (rule locate_plain [OF valid_no_dotdot [OF p(2)] e w [of "plain_place p"]])
        (use p(1) in \<open>simp_all add: ways_def\<close>)
    assume s: "slot_suffix (quarantine_place ev p) sfx"
    then have sl: "CHR ''/'' \<notin> set sfx" and n: "numbered sfx"
      using len by (auto simp: slot_suffix_def numbered_def)
    note sp = slot_place [OF ev p(2) e sl]
    have "locate fs (quarantine_place ev p @ sfx) = Some (plain_place (quarantine_place ev p @ sfx))"
      by (rule locate_plain [OF sp(2,1) w [of "quarantine_area ev @ plain_place p"]])
        (use p(1) sp(3,4) in \<open>simp_all add: ways_def\<close>)
    with n sp(3) show "locate fs (quarantine_place ev p @ sfx) =
        Some (quarantine_area ev @ beside (plain_place p) sfx) \<and> numbered sfx" by simp
  }
  assume b: "b \<in> B" "names_entry b"
  then have "''..'' \<notin> set (path_names b)" using assms(1) by (auto simp: well_formed_def)
  then show "locate fs b = Some (plain_place b)"
    by (rule locate_plain [OF _ b(2) w [of "plain_place b"]]) (use b(1) in \<open>simp_all add: ways_def\<close>)
qed


subsection \<open>What a command reaches\<close>

lemma moved_world [simp]: "moved A Y t (t'\<lparr>t_world := w\<rparr>) = moved A Y t t'"
  "moved A Y (t\<lparr>t_world := w\<rparr>) t' = moved A Y t t'"
  by (simp_all add: moved_def)

lemma moved_status [simp]: "moved A Y t (set_status rid st t') = moved A Y t t'"
  "moved A Y (set_status rid st t) t' = moved A Y t t'"
  by (simp_all add: moved_def)

lemma fail_one_moved [simp]: "moved A Y t (snd (fail_one pf (c, t'))) = moved A Y t t'"
  by (simp add: fail_one_def)

lemma unlink_no_entry: "\<not> names_entry p \<Longrightarrow> moved A Y t (snd (sys_unlink p t))"
  by (simp add: sys_unlink_def split: option.split)

lemma slot_reached:
  assumes "p \<in> V" and "numbered sfx"
  shows "below (quarantine_area ev @ beside (plain_place p) sfx) \<subseteq> reached V B ev"
    and "below (quarantine_area ev @ beside (plain_place p) sfx) \<subseteq> landing V ev"
  using assms by (auto simp: below_def reached_def landing_def dest: append_prefixD)

lemma path_reached: "p \<in> V \<Longrightarrow> below (plain_place p) \<subseteq> reached V B ev" "p \<in> V \<Longrightarrow> plain_place p \<in> reached V B ev"
  using below_self by (fastforce simp: reached_def)+

lemma slot_goes:
  assumes "well_formed V B ev" and "unlinked (ways V B ev) fs" and "p \<in> V" and "valid_restore_path p"
    and "slot_suffix (quarantine_place ev p) sfx" and "locate fs (quarantine_place ev p @ sfx) = Some y"
  shows "below y \<subseteq> reached V B ev \<and> below y \<subseteq> landing V ev"
proof -
  have "numbered sfx" "y = quarantine_area ev @ beside (plain_place p) sfx"
    using plain_ways(2) [OF assms(1-5)] assms(6) by simp_all
  then show ?thesis using slot_reached [OF assms(3)] by simp
qed

lemma restore_one_moved:
  assumes "well_formed V B ev" and "unlinked (ways V B ev) (t_nodes t)" and "pf_event_id pf = ev"
    and "valid_restore_path (pf_original_path pf) \<Longrightarrow> pf_original_path pf \<in> V" and "pf_backup_path pf \<in> B"
  shows "moved (reached V B ev) (landing V ev) t (snd (restore_one pf (c, t)))"
proof (cases "valid_restore_path (pf_original_path pf)")
  case True
  let ?p = "pf_original_path pf" and ?b = "pf_backup_path pf"
  let ?A = "reached V B ev" and ?Y = "landing V ev"
  note p = assms(4) [OF True]
  note unlinked_kept [OF assms(1,2)]
  have q: "moved ?A ?Y t (quarantine_corrupted pf t)"
  proof (rule quarantine_corrupted_moved)
    show "below x \<subseteq> ?A" if "locate (t_nodes t) ?p = Some x" for x
      using plain_ways(1) [OF assms(1,2) p True] that path_reached [OF p] by simp
    show "below y \<subseteq> ?A \<and> below y \<subseteq> ?Y"
      if "slot_suffix (quarantine_place (pf_event_id pf) ?p) sfx"
        "locate (t_nodes t) (quarantine_place (pf_event_id pf) ?p @ sfx) = Some y" for sfx y
      using slot_goes [OF assms(1,2) p True] that unfolding assms(3) by blast
  qed
  note pr = prepared_moved [OF q]
  note un = unlinked_kept [OF assms(1,2) pr]
  obtain rc t1 where pb: "put_back pf t = (rc, t1)" by fastforce
  have "snd (put_back pf t) = snd (copy_file ?b ?p (pf_file_mode pf) (pf_file_uid pf) (pf_file_gid pf) (prepared pf t))"
    by (simp add: put_back_def prepared_def)
  moreover have "{x. locate (t_nodes (prepared pf t)) ?p = Some x} \<subseteq> ?A"
    using plain_ways(1) [OF assms(1) un p True] path_reached [OF p] by auto
  ultimately have 1: "moved ?A ?Y t t1"
    using moved_trans [OF pr moved_mono [OF copy_file_moved _ empty_subsetI]] pb by (metis snd_conv)
  note un1 = unlinked_kept [OF assms(1,2) 1]
  have 2: "moved ?A ?Y t1 (snd (sys_unlink ?b (set_status (pf_id pf) ''restored'' t1)))"
  proof (cases "names_entry ?b")
    case True
    have "moved {x. locate (t_nodes t1) ?b = Some x} {} t1 (snd (sys_unlink ?b (set_status (pf_id pf) ''restored'' t1)))"
      using sys_unlink_moved [of "set_status (pf_id pf) ''restored'' t1" ?b] by simp
    moreover have "{x. locate (t_nodes t1) ?b = Some x} \<subseteq> ?A"
      using plain_ways(3) [OF assms(1) un1 assms(5) True] assms(5) by (auto simp: reached_def)
    ultimately show ?thesis by (rule moved_mono) simp
  qed (use unlink_no_entry [of ?b ?A ?Y "set_status (pf_id pf) ''restored'' t1"] in simp)
  show ?thesis
    using moved_trans [OF 1 2] 1 by (simp add: restore_one_def pb Let_def)
qed (simp add: restore_one_def Let_def)

lemma delete_created_one_moved:
  assumes "well_formed V B ev" and "unlinked (ways V B ev) (t_nodes t)" and "dc_event c = ev"
    and "valid_restore_path path \<Longrightarrow> path \<in> V"
  shows "moved (reached V B ev) (landing V ev) t (snd (delete_created_one (rid, path) (c, t)))"
proof (cases "valid_restore_path path")
  case True
  let ?A = "reached V B ev" and ?Y = "landing V ev"
  note p = assms(4) [OF True]
  note x = plain_ways(1) [OF assms(1,2) p True]
  have "length (quarantine_place ev path) + 3 < PATH_MAX" using assms(1) p by (auto simp: well_formed_def)
  then have q: "snprintf_s PATH_MAX (quarantine_place ev path) = quarantine_place ev path"
    "length (quarantine_place ev path) < PATH_MAX" by simp_all
  have tq: "moved ?A ?Y t (snd (to_quarantine nd path (quarantine_place ev path) t))" for nd
  proof (rule to_quarantine_moved [OF x path_reached(1) [OF p] q(2)])
    show "below y \<subseteq> ?A \<and> below y \<subseteq> ?Y" if "slot_suffix (quarantine_place ev path) sfx"
      "locate (t_nodes t) (quarantine_place ev path @ sfx) = Some y" for sfx y
      using slot_goes [OF assms(1,2) p True that] .
  qed
  have "{x. locate (t_nodes t) path = Some x} \<subseteq> ?A" using x path_reached [OF p] by auto
  then have "moved ?A ?Y t (snd (sys_unlink path t))" "moved ?A ?Y t (snd (sys_rmdir path t))"
    using moved_mono [OF sys_unlink_moved] moved_mono [OF sys_rmdir_moved] by blast+
  with tq have "moved ?A ?Y t (snd (remove_created ev path nd t))" for nd
    by (simp add: remove_created_def q(1) split: node.split)
  with True assms(3) show ?thesis
    by (simp add: delete_created_one_def Let_def case_prod_beta split: option.split)
qed (simp add: delete_created_one_def)

text \<open>A run of such steps.\<close>

lemma fold_moved:
  assumes "well_formed V B ev" and "unlinked (ways V B ev) (t_nodes t)"
    and "\<And>r c t. r \<in> set rs \<Longrightarrow> K c \<Longrightarrow> unlinked (ways V B ev) (t_nodes t) \<Longrightarrow>
      moved (reached V B ev) (landing V ev) t (snd (f r (c, t))) \<and> K (fst (f r (c, t)))"
    and "K c"
  shows "moved (reached V B ev) (landing V ev) t (snd (fold f rs (c, t)))"
  using assms(2-4)
proof (induction rs arbitrary: c t)
  case (Cons r rs)
  obtain c1 t1 where f: "f r (c, t) = (c1, t1)" by fastforce
  with Cons.prems have m: "moved (reached V B ev) (landing V ev) t t1" "K c1" by (metis fst_conv list.set_intros(1) snd_conv)+
  have "moved (reached V B ev) (landing V ev) t1 (snd (fold f rs (c1, t1)))"
    using Cons.prems(2) m(2) by (intro Cons.IH unlinked_kept [OF assms(1) Cons.prems(1) m(1)]) simp_all
  with m(1) show ?case by (simp add: f moved_trans [where t' = t1])
qed simp

text \<open>Removing created files does not look at the database.\<close>

lemma mkdir_each_world [simp]: "t_world (snd (mkdir_each ps t)) = t_world t"
  by (induction ps t rule: mkdir_each.induct) (auto split: option.split)

lemma make_parent_world [simp]: "t_world (make_parent path t) = t_world t"
  by (simp add: make_parent_def tool_mkdir_p_def Let_def split: option.split)

lemma copy_file_world [simp]: "t_world (snd (copy_file src dst mode uid gid t)) = t_world t"
  by (auto simp: copy_file_def set_owner_def Let_def split: option.split prod.split)

lemma sys_world [simp]: "t_world (snd (sys_rename p q t)) = t_world t" "t_world (snd (sys_unlink p t)) = t_world t"
  "t_world (snd (sys_rmdir p t)) = t_world t"
  by (simp_all add: sys_rename_def sys_unlink_def sys_rmdir_def split: option.split)

lemma to_quarantine_world [simp]: "t_world (snd (to_quarantine nd p q t)) = t_world t"
  by (simp add: to_quarantine_def move_to_def Let_def case_prod_beta split: node.split)

lemma delete_created_world: "t_world (snd (fold delete_created_one rows (c, t))) = t_world t"
proof (induction rows arbitrary: c t)
  case (Cons row rows)
  have "t_world (snd (delete_created_one row (c, t))) = t_world t"
    by (cases row) (simp add: delete_created_one_def remove_created_def Let_def case_prod_beta
        split: option.split node.split)
  then show ?case using Cons by (cases "delete_created_one row (c, t)") simp
qed simp

lemma with_db_created:
  assumes "with_db (\<lambda>db. db_query_created_by_event db ev) t = ((q, created), t1)"
  shows "t_nodes t1 = t_nodes t" and "d_files (w_db (t_world t1)) = d_files (w_db (t_world t))"
    and "(rid, p) \<in> set created \<Longrightarrow> p \<in> event_files (w_db (t_world t)) ev"
proof -
  from assms have t1: "t1 = t\<lparr>t_world := (t_world t)\<lparr>w_db := tick (w_db (t_world t))\<rparr>\<rparr>"
    and cr: "set created \<subseteq> (\<lambda>r. (cf_id r, cf_path r)) ` {r \<in> set (d_created (w_db (t_world t))). cf_event_id r = ev}"
    by (auto simp: with_db_def db_query_created_by_event_def split: if_splits)
  show "t_nodes t1 = t_nodes t" "d_files (w_db (t_world t1)) = d_files (w_db (t_world t))"
    by (simp_all add: t1 tick_def)
  assume "(rid, p) \<in> set created"
  with cr show "p \<in> event_files (w_db (t_world t)) ev" by (auto simp: event_files_def)
qed

lemma with_db_rows:
  assumes "with_db (\<lambda>db. db_query_by_event db ev) t = ((q, rows), t1)" and "d_files (w_db (t_world t)) = d_files db0"
    and "length ev < 64"
  shows "t_nodes t1 = t_nodes t"
    and "r \<in> set rows \<Longrightarrow> pf_event_id r = ev \<and> pf_original_path r \<in> event_files db0 ev \<and>
      pf_backup_path r \<in> event_backups db0 ev"
proof -
  from assms(1) have t1: "t1 = t\<lparr>t_world := (t_world t)\<lparr>w_db := tick (w_db (t_world t))\<rparr>\<rparr>"
    and rows: "set rows \<subseteq> row_to_pf ` {r \<in> set (d_files db0). pf_event_id r = ev}"
    using assms(2) by (auto simp: with_db_def db_query_by_event_def split: if_splits)
  show "t_nodes t1 = t_nodes t" by (simp add: t1)
  assume "r \<in> set rows"
  with rows obtain r0 where "r0 \<in> set (d_files db0)" "pf_event_id r0 = ev" "r = row_to_pf r0" by auto
  moreover from this have "pf_event_id r = ev" using assms(3) by (simp add: row_to_pf_def)
  ultimately show "pf_event_id r = ev \<and> pf_original_path r \<in> event_files db0 ev \<and>
      pf_backup_path r \<in> event_backups db0 ev"
    unfolding event_files_def event_backups_def by blast
qed

text \<open>
  An event the tool can work on: the recorded paths that pass its check are well formed, and no
  directory on the way to them, to their place in the quarantine or to the backups is a link.
  Nothing is asked of the recorded paths that do not pass the check.
\<close>

definition acted_on :: "database \<Rightarrow> string \<Rightarrow> string set" where
  "acted_on db ev = {p \<in> event_files db ev. valid_restore_path p}"

definition orderly_event :: "tool \<Rightarrow> string \<Rightarrow> bool" where
  "orderly_event t ev \<longleftrightarrow>
     (let db = w_db (t_world t); V = acted_on db ev; B = event_backups db ev
      in well_formed V B ev \<and> unlinked (ways V B ev) (t_nodes t))"

lemma restore_reaches:
  assumes "restore_args args (None, False) = (Some ev, auto)" and "orderly_event t ev"
  shows "\<exists>Y. moved (reached (acted_on (w_db (t_world t)) ev) (event_backups (w_db (t_world t)) ev) ev) Y
    t (snd (cmd_restore args t))"
proof -
  let ?db = "w_db (t_world t)"
  let ?V = "acted_on ?db ev" and ?B = "event_backups ?db ev"
  let ?m = "moved (reached ?V ?B ev) (landing ?V ev)"
  have wf: "well_formed ?V ?B ev" and un: "unlinked (ways ?V ?B ev) (t_nodes t)"
    using assms(2) by (simp_all add: orderly_event_def Let_def)
  obtain q1 created t1 where w1: "with_db (\<lambda>db. db_query_created_by_event db ev) t = ((q1, created), t1)"
    by (metis prod.collapse)
  obtain dc t2 where f1: "fold delete_created_one created (\<lparr>dc_event = ev, dc_deleted = 0, dc_failed = 0\<rparr>, t1) = (dc, t2)"
    by fastforce
  obtain q2 rows t3 where w2: "with_db (\<lambda>db. db_query_by_event db ev) t2 = ((q2, rows), t3)"
    by (metis prod.collapse)
  obtain c t4 where f2: "fold restore_one rows (\<lparr>rc_event = ev, rc_total = 0, rc_success = 0, rc_fail = 0\<rparr>, t3) = (c, t4)"
    by fastforce
  note c1 = with_db_created [OF w1]
  have "t_world t2 = t_world t1" using delete_created_world [of created _ t1] f1 by (metis snd_conv)
  then have "d_files (w_db (t_world t2)) = d_files ?db" using c1(2) by simp
  note c2 = with_db_rows [OF w2 this]
  have len: "length ev < 64" using wf by (simp add: well_formed_def)
  have del: "?m t1 (snd (delete_created_one row (c, t1))) \<and> dc_event (fst (delete_created_one row (c, t1))) = ev"
    if "row \<in> set created" "dc_event c = ev" "unlinked (ways ?V ?B ev) (t_nodes t1)" for row c t1
  proof
    obtain rid p where row: "row = (rid, p)" by (cases row)
    have "p \<in> ?V" if "valid_restore_path p"
      using c1(3) [of rid p] \<open>row \<in> set created\<close> row that by (simp add: acted_on_def)
    then show "?m t1 (snd (delete_created_one row (c, t1)))"
      unfolding row by (rule delete_created_one_moved [OF wf that(3,2)])
    show "dc_event (fst (delete_created_one row (c, t1))) = ev"
      using that(2) by (simp add: row delete_created_one_def count_deleted_def Let_def case_prod_beta split: option.split)
  qed
  have "unlinked (ways ?V ?B ev) (t_nodes t1)" using un c1(1) by simp
  then have "?m t1 (snd (fold delete_created_one created (\<lparr>dc_event = ev, dc_deleted = 0, dc_failed = 0\<rparr>, t1)))"
    by (rule fold_moved [OF wf, where K = "\<lambda>c. dc_event c = ev"]) (use del in simp_all)
  then have m1: "?m t t2" using c1(1) by (simp add: f1 moved_def)
  have res: "?m t1 (snd (restore_one r (c, t1))) \<and> True"
    if "r \<in> set rows" "unlinked (ways ?V ?B ev) (t_nodes t1)" for r c t1
    using restore_one_moved [OF wf that(2)] c2(2) [OF len that(1)] by (simp add: acted_on_def)
  have "unlinked (ways ?V ?B ev) (t_nodes t3)" using unlinked_kept [OF wf un m1] c2(1) [OF len] by simp
  then have "?m t3 (snd (fold restore_one rows (\<lparr>rc_event = ev, rc_total = 0, rc_success = 0, rc_fail = 0\<rparr>, t3)))"
    by (rule fold_moved [OF wf, where K = "\<lambda>_. True"]) (use res in simp_all)
  then have "?m t2 t4" using c2(1) [OF len] by (simp add: f2 moved_def)
  from moved_trans [OF m1 this] have "?m t t4" .
  moreover have "t_nodes (close_event ev k t4) = t_nodes t4" for k
    by (simp add: close_event_def iso8601_now_def)
  then have "?m t (close_event ev k t4) = ?m t t4" for k by (simp add: moved_def)
  ultimately show ?thesis
    by (auto simp: cmd_restore_def assms(1) w1 f1 w2 f2)
qed


text \<open>
  A store with the backup of one file, overwritten in the event \<open>evt-1\<close>. At the path of a file
  the attack created lies a link to the password file, and another record names that file
  through the share.
\<close>

definition docs_pf :: pf_row where
  "docs_pf = \<lparr>pf_id = 1, pf_event_id = ''evt-1'', pf_original_path = ''/mnt/docs/a.txt'',
     pf_backup_path = STORE_PATH @ ''/backups/docs/a.txt'', pf_share_name = ''docs'', pf_username = ''eve'',
     pf_client_ip = ''10.0.0.9'', pf_inode = 7, pf_mtime = 100, pf_file_size = 8, pf_file_uid = 1000,
     pf_file_gid = 100, pf_file_mode = 420, pf_op_type = 2, pf_protected_at = ''2024-01-05T03:04:05'',
     pf_restore_status = ''pending'', pf_restored_at = []\<rparr>"

definition created_cf :: "string \<Rightarrow> cf_row" where
  "created_cf path = \<lparr>cf_id = 1, cf_event_id = ''evt-1'', cf_path = path, cf_share_name = ''docs'',
     cf_username = ''eve'', cf_client_ip = ''10.0.0.9'', cf_created_at = []\<rparr>"

definition store_names :: "string list" where
  "store_names = [''var'', ''lib'', ''gf2000'', ''rguard-store'']"

definition sample_nodes :: nodes where
  "sample_nodes = [[''mnt'', ''docs'', ''a.txt''] \<mapsto> Reg ''garbage'' 384 0 0,
     store_names @ [''backups'', ''docs'', ''a.txt''] \<mapsto> Reg ''old text'' 384 0 0,
     [''mnt'', ''docs'', ''note''] \<mapsto> Lnk ''/etc/passwd'', [''etc'', ''passwd''] \<mapsto> Reg ''root'' 420 0 0]"

definition sample_tool :: tool where
  "sample_tool = \<lparr>t_nodes = sample_nodes, t_sys = (\<lambda>_. True), t_io = (\<lambda>_. ([], [])), t_n = 0,
     t_world = quiet_world\<lparr>w_db := db_empty\<lparr>d_files := [docs_pf],
       d_created := [created_cf ''/mnt/docs/note'', created_cf ''/mnt/docs/../../etc/passwd'']\<rparr>\<rparr>\<rparr>"

lemma sample_row [simp]: "row_to_pf docs_pf = docs_pf\<lparr>pf_op_type := 0\<rparr>"
  by (simp add: row_to_pf_def docs_pf_def snprintf_s_def RGUARD_PATH_MAX_def STORE_PATH_def)

lemma docs_fields [simp]:
  "pf_event_id docs_pf = ''evt-1''" "pf_original_path docs_pf = ''/mnt/docs/a.txt''"
  "pf_backup_path docs_pf = STORE_PATH @ ''/backups/docs/a.txt''" "pf_restore_status docs_pf = ''pending''"
  "cf_event_id (created_cf path) = ''evt-1''" "cf_path (created_cf path) = path"
  by (simp_all add: docs_pf_def created_cf_def)

lemma sample_tables: "d_files (w_db (t_world sample_tool)) = [docs_pf]"
  "d_created (w_db (t_world sample_tool)) =
     [created_cf ''/mnt/docs/note'', created_cf ''/mnt/docs/../../etc/passwd'']"
  "t_nodes sample_tool = sample_nodes"
  by (simp_all add: sample_tool_def)

lemma sample_valid:
  "valid_restore_path ''/mnt/docs/a.txt''" "valid_restore_path ''/mnt/docs/note''"
  "\<not> valid_restore_path ''/mnt/docs/../../etc/passwd''"
  by (simp_all add: valid_restore_path_def)

lemma sample_files:
  "event_files (w_db (t_world sample_tool)) ''evt-1'' =
     {''/mnt/docs/a.txt'', ''/mnt/docs/note'', ''/mnt/docs/../../etc/passwd''}"
  "event_backups (w_db (t_world sample_tool)) ''evt-1'' = {STORE_PATH @ ''/backups/docs/a.txt''}"
  "acted_on (w_db (t_world sample_tool)) ''evt-1'' = {''/mnt/docs/a.txt'', ''/mnt/docs/note''}"
proof -
  have "{r \<in> set [docs_pf]. pf_event_id r = ''evt-1''} = {docs_pf}"
    "{r \<in> set [created_cf a, created_cf b]. cf_event_id r = ''evt-1''} = {created_cf a, created_cf b}" for a b
    by (auto simp del: docs_fields(2-4,6))
  then show "event_files (w_db (t_world sample_tool)) ''evt-1'' =
     {''/mnt/docs/a.txt'', ''/mnt/docs/note'', ''/mnt/docs/../../etc/passwd''}"
    "event_backups (w_db (t_world sample_tool)) ''evt-1'' = {STORE_PATH @ ''/backups/docs/a.txt''}"
    by (simp_all add: event_files_def event_backups_def sample_tables insert_commute)
  then show "acted_on (w_db (t_world sample_tool)) ''evt-1'' = {''/mnt/docs/a.txt'', ''/mnt/docs/note''}"
    using sample_valid by (auto simp: acted_on_def)
qed

lemma sample_places:
  "plain_place ''/mnt/docs/a.txt'' = [''mnt'', ''docs'', ''a.txt'']"
  "plain_place ''/mnt/docs/note'' = [''mnt'', ''docs'', ''note'']"
  "plain_place (STORE_PATH @ ''/backups/docs/a.txt'') = store_names @ [''backups'', ''docs'', ''a.txt'']"
  "quarantine_area ''evt-1'' = store_names @ [''quarantine'', ''evt-1'']"
  by (simp_all add: plain_place_def skipped_def STORE_PATH_def quarantine_area_def QUARANTINE_PATH_def store_names_def)

lemma sample_link: "link_at sample_nodes z \<noteq> None \<Longrightarrow> z = [''mnt'', ''docs'', ''note'']"
  by (auto simp: sample_nodes_def link_at_def split: if_splits)

lemma sample_orderly: "orderly_event sample_tool ''evt-1''"
proof -
  have len: "\<not> strict_prefix xs ys" if "length ys \<le> length xs" for xs ys :: place
    using that prefix_length_less [of xs ys] by auto
  have "\<not> strict_prefix [''mnt'', ''docs'', ''note''] w"
    if "w \<in> ways {''/mnt/docs/a.txt'', ''/mnt/docs/note''} {STORE_PATH @ ''/backups/docs/a.txt''} ''evt-1''" for w
    using that by (auto simp: ways_def sample_places store_names_def strict_prefix_def)
  then have un: "unlinked (ways {''/mnt/docs/a.txt'', ''/mnt/docs/note''} {STORE_PATH @ ''/backups/docs/a.txt''} ''evt-1'')
      sample_nodes"
    using sample_link unfolding unlinked_def by blast
  have "well_formed {''/mnt/docs/a.txt'', ''/mnt/docs/note''} {STORE_PATH @ ''/backups/docs/a.txt''} ''evt-1''"
    by (simp add: well_formed_def sample_places sample_places(3) [unfolded STORE_PATH_def, simplified]
        store_names_def beside_def len names_entry_def skipped_def quarantine_place_def QUARANTINE_PATH_def STORE_PATH_def PATH_MAX_def)
  with un show ?thesis by (simp add: orderly_event_def Let_def sample_files sample_tables)
qed


subsection \<open>What a record gives back\<close>

lemma mkdir_each_io [simp]: "t_io (snd (mkdir_each ps t)) = t_io t" "t_sys (snd (mkdir_each ps t)) = t_sys t"
  by (induction ps t rule: mkdir_each.induct) (auto split: option.split)

lemma make_parent_io [simp]: "t_io (make_parent path t) = t_io t" "t_sys (make_parent path t) = t_sys t"
  by (simp_all add: make_parent_def tool_mkdir_p_def Let_def split: option.split)

lemma copy_file_io [simp]: "t_io (snd (copy_file src dst mode uid gid t)) = t_io t"
  "t_sys (snd (copy_file src dst mode uid gid t)) = t_sys t"
  by (auto simp: copy_file_def set_owner_def Let_def split: option.split prod.split)

lemma sys_io [simp]: "t_io (snd (sys_rename p q t)) = t_io t" "t_sys (snd (sys_rename p q t)) = t_sys t"
  "t_io (snd (sys_unlink p t)) = t_io t" "t_sys (snd (sys_unlink p t)) = t_sys t"
  by (simp_all add: sys_rename_def sys_unlink_def split: option.split)

lemma quarantine_corrupted_io [simp]: "t_io (quarantine_corrupted pf t) = t_io t"
  "t_sys (quarantine_corrupted pf t) = t_sys t"
  by (simp_all add: quarantine_corrupted_def to_quarantine_def move_to_def Let_def case_prod_beta
      split: option.split node.split)

lemma prepared_io [simp]: "t_io (prepared pf t) = t_io t" "t_sys (prepared pf t) = t_sys t"
  by (simp_all add: prepared_def)

definition reads_progress :: "tool \<Rightarrow> bool" where
  "reads_progress t \<longleftrightarrow> (\<forall>n. Io_bytes 0 \<notin> set (fst (t_io t n)))"

lemma node_at_file: "node_at t p = Some (Reg b m u g) \<longleftrightarrow>
    (\<exists>x. locate (t_nodes t) p = Some x \<and> x \<noteq> [] \<and> t_nodes t x = Some (Reg b m u g))"
  by (auto simp: node_at_def look_def split: option.splits if_splits)

lemma copy_file_done:
  assumes "copy_file src dst mode uid gid t = (0, t')" and "reads_progress t"
    and "locate (t_nodes t) src \<noteq> locate (t_nodes t) dst" and "node_at t src = Some (Reg bytes m u g)"
  shows "\<exists>x m u g. locate (t_nodes t) dst = Some x \<and> x \<noteq> [] \<and> t_nodes t' x = Some (Reg bytes m u g)"
proof -
  from assms(1,4) obtain x mk ok out where mk: "open_target dst mode (next_sys t) = Some (x, mk)"
    and run0: "(case t_io t (t_n (next_sys (next_sys t))) of (rs, ws) \<Rightarrow>
      copy_loop rs ws (if locate (t_nodes t) src = Some x then [] else bytes) []) = (ok, out)" "ok"
    and t': "t' = set_owner x out mode uid gid mk (next_sys (next_sys t))"
    by (auto simp: copy_file_def open_source_def Let_def split: option.splits prod.splits if_splits)
  note o = open_target_Some [OF mk]
  have run: "(case t_io t (t_n (next_sys (next_sys t))) of (rs, ws) \<Rightarrow> copy_loop rs ws bytes []) = (ok, out)"
    using run0(1) assms(3) o(1) by simp
  have "Io_bytes 0 \<notin> set (fst (t_io t n))" for n using assms(2) by (simp add: reads_progress_def)
  moreover obtain rs ws where io: "t_io t (t_n (next_sys (next_sys t))) = (rs, ws)" by fastforce
  ultimately have "Io_bytes 0 \<notin> set rs" by (metis fst_conv)
  with copy_loop_whole [of rs ws bytes "[]" out] run io run0(2) have out: "out = bytes" by simp
  from o(4) obtain m u g where "mk = (\<lambda>b. Reg b m u g)" by blast
  then have "\<exists>m u g. t_nodes t' x = Some (Reg bytes m u g)" by (auto simp: t' out set_owner_def Let_def)
  with o(1,3) show ?thesis by auto
qed

text \<open>A path to a file that is no link leads there whether the last name is followed or not.\<close>

lemma walk_final:
  "walk k fs False d ns = Some x \<Longrightarrow> link_at fs x = None \<Longrightarrow> walk k fs True d ns = Some x"
proof (induction k fs False d ns rule: walk.induct)
  case (2 k fs d n ns)
  show ?case
  proof (cases "skipped n \<or> n = ''..''")
    case True
    with 2 show ?thesis by (auto split: if_splits)
  next
    case False
    show ?thesis
    proof (cases "ns = []")
      case True
      with False 2 show ?thesis by simp
    next
      case ne: False
      show ?thesis
      proof (cases "link_at fs (d @ [n])")
        case None
        with False ne 2 show ?thesis by simp
      next
        case (Some q)
        with False ne 2 show ?thesis by (cases k) auto
      qed
    qed
  qed
qed simp


text \<open>
  The record keeps its paths apart: neither the backup nor a link on the way to it lies at or below
  the original file or a slot of the quarantine the file may be moved to, and no link on the way
  to the original does either.
\<close>

definition kept_apart :: "tool \<Rightarrow> pf_row \<Rightarrow> bool" where
  "kept_apart t pf \<longleftrightarrow>
     (let fs = t_nodes t; p = pf_original_path pf; b = pf_backup_path pf;
          q = quarantine_place (pf_event_id pf) p
      in \<forall>x. locate fs p = Some x \<longrightarrow>
        (\<forall>z. z \<in> way fs b \<or> z \<in> way fs p \<or> locate fs b = Some z \<longrightarrow> \<not> prefix x z) \<and>
        (\<forall>sfx y. slot_suffix q sfx \<and> locate fs (q @ sfx) = Some y \<longrightarrow>
           (\<forall>z. z \<in> way fs b \<or> locate fs b = Some z \<longrightarrow> \<not> prefix y z) \<and>
           (\<forall>z. z \<in> way fs p \<longrightarrow> strict_prefix y x \<or> \<not> prefix y z)))"

lemma prepared_apart:
  assumes "kept_apart t pf" and "locate (t_nodes t) (pf_backup_path pf) = Some zb" and "t_nodes t zb = Some nd"
  shows "locate (t_nodes (prepared pf t)) (pf_backup_path pf) = Some zb"
    and "t_nodes (prepared pf t) zb = Some nd"
    and "locate (t_nodes (prepared pf t)) (pf_original_path pf) = locate (t_nodes t) (pf_original_path pf)"
proof -
  let ?fs = "t_nodes t" and ?p = "pf_original_path pf" and ?b = "pf_backup_path pf"
  let ?q = "quarantine_place (pf_event_id pf) ?p"
  have ap: "\<not> prefix x z" if "locate ?fs ?p = Some x" "z \<in> way ?fs ?b \<or> z \<in> way ?fs ?p \<or> z = zb" for x z
    using assms(1,2) that unfolding kept_apart_def Let_def by blast
  have aq: "\<not> prefix y z" if "locate ?fs ?p = Some x" "slot_suffix ?q sfx" "locate ?fs (?q @ sfx) = Some y"
    "z \<in> way ?fs ?b \<or> z = zb" for x sfx y z
    using assms(1,2) that unfolding kept_apart_def Let_def by blast
  have aw: "strict_prefix y x \<or> \<not> prefix y z" if "locate ?fs ?p = Some x" "slot_suffix ?q sfx"
    "locate ?fs (?q @ sfx) = Some y" "z \<in> way ?fs ?p" for x sfx y z
    using assms(1) that unfolding kept_apart_def Let_def by blast
  have link: "link_at (t_nodes (prepared pf t)) z = link_at ?fs z" if "z \<in> way ?fs ?b \<or> z \<in> way ?fs ?p" for z
    unfolding prepared_links
  proof (rule quarantine_corrupted_link)
    show "\<not> prefix x z" if "locate ?fs ?p = Some x" for x
      using ap [OF that] \<open>z \<in> way ?fs ?b \<or> z \<in> way ?fs ?p\<close> by blast
    show "strict_prefix y x \<or> \<not> prefix y z" if "locate ?fs ?p = Some x" "slot_suffix ?q sfx"
      "locate ?fs (?q @ sfx) = Some y" for sfx x y
      using aq [OF that] aw [OF that] \<open>z \<in> way ?fs ?b \<or> z \<in> way ?fs ?p\<close> by blast
  qed
  have "locate (t_nodes (prepared pf t)) ?b = locate ?fs ?b" by (rule locate_cong) (use link in blast)
  with assms(2) show "locate (t_nodes (prepared pf t)) ?b = Some zb" by simp
  show "locate (t_nodes (prepared pf t)) ?p = locate ?fs ?p" by (rule locate_cong) (use link in blast)
  show "t_nodes (prepared pf t) zb = Some nd"
  proof (cases "locate ?fs ?p")
    case None
    then have "prepared pf t = make_parent ?p t"
      by (simp add: prepared_def quarantine_corrupted_def node_at_def)
    then show ?thesis using moved_node [OF make_parent_moved(1) _ assms(3)] by simp
  next
    case (Some x)
    let ?A = "below x \<union> {z. \<exists>sfx y. slot_suffix ?q sfx \<and> locate ?fs (?q @ sfx) = Some y \<and> prefix y z}"
    have "moved ?A ?A t (quarantine_corrupted pf t)"
      by (rule quarantine_corrupted_moved) (use Some in \<open>auto simp: below_def\<close>)
    from moved_node [OF prepared_moved [OF this] _ assms(3)] ap [OF Some, of zb] aq [OF Some, of _ _ zb]
    show ?thesis by (auto simp: below_def)
  qed
qed

lemma restore_one_result:
  assumes "pf_restore_status pf = ''pending''" and "valid_restore_path (pf_original_path pf)"
    and "node_at t (pf_backup_path pf) = Some (Reg bytes m u g)"
    and "kept_apart t pf" and "reads_progress t"
  shows "let (c', t') = restore_one pf (c, t) in rc_total c' = rc_total c + 1 \<and>
    (if rc_success c' = rc_success c + 1
     then rc_fail c' = rc_fail c \<and> (\<exists>m u g. node_at t' (pf_original_path pf) = Some (Reg bytes m u g))
     else rc_success c' = rc_success c \<and> rc_fail c' = rc_fail c + 1 \<and>
       node_at t' (pf_backup_path pf) = Some (Reg bytes m u g))"
proof -
  let ?b = "pf_backup_path pf" and ?p = "pf_original_path pf"
  from assms(3) obtain zb where zb: "locate (t_nodes t) ?b = Some zb" "zb \<noteq> []" "t_nodes t zb = Some (Reg bytes m u g)"
    by (auto simp: node_at_file)
  have nl: "link_at (t_nodes t) zb = None" using zb(3) by (simp add: link_at_def)
  have sf: "stat_found t ?b"
    using walk_final [OF zb(1) [unfolded locate_def] nl] zb(2,3) by (simp add: stat_found_def look_def)
  note pr = prepared_apart [OF assms(4) zb(1,3)]
  let ?pr = "prepared pf t"
  obtain rc t1 where pb: "put_back pf t = (rc, t1)" by fastforce
  then have cp: "copy_file ?b ?p (pf_file_mode pf) (pf_file_uid pf) (pf_file_gid pf) ?pr = (rc, t1)"
    by (simp add: put_back_def prepared_def)
  have ne: "x \<noteq> zb" if "locate (t_nodes ?pr) ?p = Some x" for x
    using assms(4) that zb(1) pr(3) unfolding kept_apart_def Let_def by (metis prefix_order.refl)
  have l1: "link_at (t_nodes t1) = link_at (t_nodes ?pr)" using copy_file_links cp by (metis snd_conv)
  have loc1: "locate (t_nodes t1) q = locate (t_nodes ?pr) q" for q by (rule locate_links [OF l1])
  have zb1: "t_nodes t1 zb = Some (Reg bytes m u g)"
    using moved_node [OF copy_file_moved _ pr(2)] ne cp by (metis (mono_tags, lifting) mem_Collect_eq snd_conv)
  have copied: "\<exists>x m u g. locate (t_nodes ?pr) ?p = Some x \<and> x \<noteq> [] \<and> t_nodes t1 x = Some (Reg bytes m u g)"
    if "rc = 0"
  proof (rule copy_file_done)
    show "copy_file ?b ?p (pf_file_mode pf) (pf_file_uid pf) (pf_file_gid pf) ?pr = (0, t1)" using cp that by simp
    show "reads_progress ?pr" using assms(5) by (simp add: reads_progress_def)
    show "locate (t_nodes ?pr) ?b \<noteq> locate (t_nodes ?pr) ?p" using ne pr(1) by metis
    show "node_at ?pr ?b = Some (Reg bytes m u g)" using pr(1,2) zb(2) by (simp add: node_at_file)
  qed
  let ?t2 = "set_status (pf_id pf) ''restored'' t1"
  have restored: "\<exists>m u g. node_at (snd (sys_unlink ?b ?t2)) ?p = Some (Reg bytes m u g)" if "rc = 0"
  proof -
    from copied [OF that] obtain x mx ux gx where x: "locate (t_nodes ?pr) ?p = Some x" "x \<noteq> []"
      "t_nodes t1 x = Some (Reg bytes mx ux gx)" by blast
    have lb: "locate (t_nodes ?t2) ?b = Some zb" using loc1 pr(1) by simp
    have "link_at (t_nodes (snd (sys_unlink ?b ?t2))) z = link_at (t_nodes t1) z" for z
    proof (cases "z = zb")
      case True
      then have "link_at (t_nodes t1) z = None" using zb1 by (simp add: link_at_def)
      then show ?thesis using moved_no_link [OF sys_unlink_moved, of z ?t2 ?b] by simp
    next
      case False
      then show ?thesis using moved_link [OF sys_unlink_moved, of z ?t2 ?b] lb by simp
    qed
    then have "link_at (t_nodes (snd (sys_unlink ?b ?t2))) = link_at (t_nodes t1)" by blast
    from locate_links [OF this] have "locate (t_nodes (snd (sys_unlink ?b ?t2))) ?p = Some x" using loc1 x(1) by simp
    moreover have "t_nodes (snd (sys_unlink ?b ?t2)) x = Some (Reg bytes mx ux gx)"
      using moved_node [OF sys_unlink_moved [of ?t2 ?b], of x] lb ne [OF x(1)] x(3) by simp
    ultimately show ?thesis using x(2) by (auto simp: node_at_file)
  qed
  have backup: "node_at t1 ?b = Some (Reg bytes m u g)" using loc1 pr(1) zb(2) zb1 by (simp add: node_at_file)
  have status: "node_at (set_status rid st t1) q = node_at t1 q" for rid st q
    by (simp add: node_at_def split: option.split)
  show ?thesis
    using assms(1,2) sf pb restored backup by (auto simp: restore_one_def Let_def fail_one_def status)
qed

text \<open>
  C18: A record is restored whole or fails with its backup untouched: for a pending record with a
  proper path, a regular backup and reads that make progress, either the success is counted and the
  original path holds exactly the bytes of the backup, or the failure is counted and the backup
  is still there; no other outcome, wherever a call fails. Links may be anywhere, as long as the
  restore does not move what the paths of the record run through.
\<close>

theorem restore_one_outcome:
  assumes "pf_restore_status pf = ''pending''" and "valid_restore_path (pf_original_path pf)"
    and "node_at t (pf_backup_path pf) = Some (Reg bytes m u g)"
    and "kept_apart t pf" and "reads_progress t"
  shows "let (c', t') = restore_one pf (c, t) in rc_total c' = rc_total c + 1 \<and>
    (if rc_success c' = rc_success c + 1
     then rc_fail c' = rc_fail c \<and> (\<exists>m u g. node_at t' (pf_original_path pf) = Some (Reg bytes m u g))
     else rc_success c' = rc_success c \<and> rc_fail c' = rc_fail c + 1 \<and>
       node_at t' (pf_backup_path pf) = Some (Reg bytes m u g))"
  using assms by (rule restore_one_result)

definition sample_ctx :: restore_ctx where
  "sample_ctx = \<lparr>rc_event = ''evt-1'', rc_total = 0, rc_success = 0, rc_fail = 0\<rparr>"

lemma sample_backup:
  "locate sample_nodes (STORE_PATH @ ''/backups/docs/a.txt'') = Some (store_names @ [''backups'', ''docs'', ''a.txt''])"
  "way sample_nodes (STORE_PATH @ ''/backups/docs/a.txt'') =
     {[''var''], [''var'', ''lib''], [''var'', ''lib'', ''gf2000''], store_names, store_names @ [''backups''],
      store_names @ [''backups'', ''docs'']}"
  "locate sample_nodes ''/mnt/docs/a.txt'' = Some [''mnt'', ''docs'', ''a.txt'']"
  "way sample_nodes ''/mnt/docs/a.txt'' = {[''mnt''], [''mnt'', ''docs'']}"
  by (simp_all add: locate_def way_def skipped_def STORE_PATH_def store_names_def max_links_def link_at_def
      sample_nodes_def)

lemma sample_apart: "kept_apart sample_tool docs_pf"
proof -
  have wf: "well_formed {''/mnt/docs/a.txt'', ''/mnt/docs/note''} {STORE_PATH @ ''/backups/docs/a.txt''} ''evt-1''"
    and un: "unlinked (ways {''/mnt/docs/a.txt'', ''/mnt/docs/note''} {STORE_PATH @ ''/backups/docs/a.txt''} ''evt-1'')
      sample_nodes"
    using sample_orderly by (simp_all add: orderly_event_def Let_def sample_files sample_tables)
  have slot: "y = store_names @ [''quarantine'', ''evt-1''] @ beside [''mnt'', ''docs'', ''a.txt''] sfx"
    if "slot_suffix (quarantine_place ''evt-1'' ''/mnt/docs/a.txt'') sfx"
      "locate sample_nodes (quarantine_place ''evt-1'' ''/mnt/docs/a.txt'' @ sfx) = Some y" for sfx y
    using plain_ways(2) [OF wf un, of "''/mnt/docs/a.txt''" sfx] that sample_valid(1)
    by (simp add: sample_places)
  show ?thesis
    unfolding kept_apart_def Let_def docs_fields sample_tables
    by (auto simp: sample_backup store_names_def beside_def dest!: slot)
qed

theorem restore_one_outcome_witness:
  "let (c', t') = restore_one docs_pf (sample_ctx, sample_tool) in rc_total c' = 1 \<and>
    (if rc_success c' = 1
     then rc_fail c' = 0 \<and> (\<exists>m u g. node_at t' ''/mnt/docs/a.txt'' = Some (Reg ''old text'' m u g))
     else rc_success c' = 0 \<and> rc_fail c' = 1 \<and>
       node_at t' (STORE_PATH @ ''/backups/docs/a.txt'') = Some (Reg ''old text'' 384 0 0))"
proof -
  have "rc_total sample_ctx = 0" "rc_success sample_ctx = 0" "rc_fail sample_ctx = 0"
    by (simp_all add: sample_ctx_def)
  moreover have "node_at sample_tool (STORE_PATH @ ''/backups/docs/a.txt'') = Some (Reg ''old text'' 384 0 0)"
    by (simp add: node_at_file sample_tables sample_backup) (simp add: sample_nodes_def store_names_def)
  moreover have "reads_progress sample_tool" by (simp add: reads_progress_def sample_tool_def)
  ultimately show ?thesis
    using restore_one_outcome [of docs_pf sample_tool "''old text''" 384 0 0 sample_ctx] sample_apart sample_valid(1)
    by (simp only: docs_fields simp_thms not_False_eq_True add_0)
qed

end
