(* ===== verification/Recover_Counts.thy ===== *)
theory Recover_Counts
  imports Recover_Claims
begin

text \<open>The counters and the exit code of a restore, and the limits of the quarantine.\<close>

subsection \<open>Counting\<close>

definition is_pending :: "pf_row \<Rightarrow> bool" where
  "is_pending pf \<longleftrightarrow> pf_restore_status pf = ''pending''"

text \<open>The counters only grow, and each row adds to exactly one of them if it is pending.\<close>

definition counted :: "int \<Rightarrow> int \<Rightarrow> restore_ctx \<Rightarrow> restore_ctx \<Rightarrow> bool" where
  "counted n k c c' \<longleftrightarrow> rc_total c' = rc_total c + n \<and> rc_success c' + rc_fail c' = rc_success c + rc_fail c + k \<and>
     rc_success c \<le> rc_success c' \<and> rc_fail c \<le> rc_fail c'"

lemma restore_one_counted:
  "counted 1 (if is_pending pf then 1 else 0) c (fst (restore_one pf (c, t)))"
  by (simp add: counted_def is_pending_def restore_one_def fail_one_def Let_def case_prod_beta)

lemma restore_fold_counted:
  "counted (int (length rows)) (int (length (filter is_pending rows))) c (fst (fold restore_one rows (c, t)))"
proof (induction rows arbitrary: c t)
  case (Cons pf rows)
  obtain c1 t1 where r: "restore_one pf (c, t) = (c1, t1)" by fastforce
  have "counted 1 (if is_pending pf then 1 else 0) c c1" using restore_one_counted [of pf c t] r by simp
  with Cons [of c1 t1] show ?case by (auto simp: counted_def r)
qed (simp add: counted_def)

lemma delete_fold_counted:
  "dc_deleted (fst (fold delete_created_one rows (c, t))) + dc_failed (fst (fold delete_created_one rows (c, t))) =
     dc_deleted c + dc_failed c + int (length rows) \<and>
   dc_deleted c \<le> dc_deleted (fst (fold delete_created_one rows (c, t)))"
proof (induction rows arbitrary: c t)
  case (Cons row rows)
  obtain c1 t1 where r: "delete_created_one row (c, t) = (c1, t1)" by fastforce
  have "dc_deleted c1 + dc_failed c1 = dc_deleted c + dc_failed c + 1 \<and> dc_deleted c \<le> dc_deleted c1"
    using r by (cases row) (auto simp: delete_created_one_def count_deleted_def Let_def case_prod_beta
        split: option.splits if_splits)
  with Cons [of c1 t1] show ?case by (auto simp: r)
qed simp

text \<open>The fate of the statements does not change.\<close>

lemma put_back_world [simp]: "t_world (snd (put_back pf t)) = t_world t"
  by (simp add: put_back_def quarantine_corrupted_def Let_def split: option.split)

lemma set_status_fate [simp]:
  "d_fate (w_db (t_world (set_status rid st t))) = d_fate (w_db (t_world t))"
  by (simp add: set_status_def iso8601_now_def db_update_restore_status_def run_stmt_def tick_def)

lemma restore_one_fate [simp]: "d_fate (w_db (t_world (snd (restore_one pf (c, t))))) = d_fate (w_db (t_world t))"
proof -
  obtain rc t1 where p: "put_back pf t = (rc, t1)" by fastforce
  then have "t_world t1 = t_world t" using put_back_world [of pf t] by simp
  then show ?thesis by (simp add: restore_one_def fail_one_def p Let_def)
qed

lemma restore_fold_fate:
  "d_fate (w_db (t_world (snd (fold restore_one rows (c, t))))) = d_fate (w_db (t_world t))"
proof (induction rows arbitrary: c t)
  case (Cons pf rows)
  then show ?case using restore_one_fate [of pf c t] by (cases "restore_one pf (c, t)") simp
qed simp

text \<open>The rows the two queries of a restore deliver.\<close>

definition created_rows :: "database \<Rightarrow> string \<Rightarrow> (int \<times> string) list" where
  "created_rows db ev = snd (fst (db_query_created_by_event db ev))"

definition file_rows :: "database \<Rightarrow> string \<Rightarrow> pf_row list" where
  "file_rows db ev = snd (fst (db_query_by_event (tick db) ev))"

lemma with_db_query_created:
  "with_db (\<lambda>db. db_query_created_by_event db ev) t =
     ((fst (fst (db_query_created_by_event (w_db (t_world t)) ev)), created_rows (w_db (t_world t)) ev),
      t\<lparr>t_world := (t_world t)\<lparr>w_db := tick (w_db (t_world t))\<rparr>\<rparr>)"
  by (simp add: with_db_def created_rows_def db_query_created_by_event_def)

lemma with_db_query_rows:
  "with_db (\<lambda>db. db_query_by_event db ev) t =
     ((fst (fst (db_query_by_event (w_db (t_world t)) ev)), snd (fst (db_query_by_event (w_db (t_world t)) ev))),
      t\<lparr>t_world := (t_world t)\<lparr>w_db := tick (w_db (t_world t))\<rparr>\<rparr>)"
  by (simp add: with_db_def db_query_by_event_def)

text \<open>The end of the command: what is counted, and the event is closed whenever anything was found.\<close>

lemma cmd_restore_shape:
  assumes "restore_args args (None, False) = (Some ev, auto)"
  obtains dc :: delete_created_ctx and c :: restore_ctx and t4 :: tool where
    "dc_deleted dc + dc_failed dc = int (length (created_rows (w_db (t_world t)) ev))" "0 \<le> dc_deleted dc"
    "counted (int (length (file_rows (w_db (t_world t)) ev)))
       (int (length (filter is_pending (file_rows (w_db (t_world t)) ev))))
       \<lparr>rc_event = ev, rc_total = 0, rc_success = 0, rc_fail = 0\<rparr> c"
    "d_fate (w_db (t_world t4)) = d_fate (w_db (t_world t))"
    "cmd_restore args t =
       (if rc_total c = 0 \<and> dc_deleted dc = 0 then (1, t4)
        else (if rc_fail c > 0 then 2 else 0, close_event ev (rc_success c) t4))"
proof -
  let ?db = "w_db (t_world t)"
  let ?t1 = "t\<lparr>t_world := (t_world t)\<lparr>w_db := tick ?db\<rparr>\<rparr>"
  obtain dc t2 where d: "fold delete_created_one (created_rows ?db ev)
      (\<lparr>dc_event = ev, dc_deleted = 0, dc_failed = 0\<rparr>, ?t1) = (dc, t2)" by fastforce
  have w2: "w_db (t_world t2) = tick ?db"
    using delete_created_world [of "created_rows ?db ev" "\<lparr>dc_event = ev, dc_deleted = 0, dc_failed = 0\<rparr>" ?t1] d by simp
  let ?t3 = "t2\<lparr>t_world := (t_world t2)\<lparr>w_db := tick (w_db (t_world t2))\<rparr>\<rparr>"
  obtain c t4 where r: "fold restore_one (file_rows ?db ev)
      (\<lparr>rc_event = ev, rc_total = 0, rc_success = 0, rc_fail = 0\<rparr>, ?t3) = (c, t4)" by fastforce
  have run: "cmd_restore args t =
       (if rc_total c = 0 \<and> dc_deleted dc = 0 then (1, t4)
        else (if rc_fail c > 0 then 2 else 0, close_event ev (rc_success c) t4))"
    using d r w2 by (simp add: cmd_restore_def assms with_db_query_created with_db_query_rows file_rows_def case_prod_beta Let_def)
  have a: "dc_deleted dc + dc_failed dc = int (length (created_rows ?db ev))" "0 \<le> dc_deleted dc"
    using delete_fold_counted [of "created_rows ?db ev" "\<lparr>dc_event = ev, dc_deleted = 0, dc_failed = 0\<rparr>" ?t1] d
    by simp_all
  have b: "counted (int (length (file_rows ?db ev))) (int (length (filter is_pending (file_rows ?db ev))))
      \<lparr>rc_event = ev, rc_total = 0, rc_success = 0, rc_fail = 0\<rparr> c"
    using restore_fold_counted [of "file_rows ?db ev" "\<lparr>rc_event = ev, rc_total = 0, rc_success = 0, rc_fail = 0\<rparr>" ?t3] r
    by simp
  have f: "d_fate (w_db (t_world t4)) = d_fate ?db"
    using restore_fold_fate [of "file_rows ?db ev" "\<lparr>rc_event = ev, rc_total = 0, rc_success = 0, rc_fail = 0\<rparr>" ?t3] r w2
    by (simp add: tick_def)
  show thesis by (rule that [OF a b f run])
qed

lemma close_event_resolves:
  assumes "d_fate (w_db (t_world t)) (d_count (w_db (t_world t)))"
    and "e \<in> set (d_events (w_db (t_world (close_event ev n t))))" and "ev_event_id e = ev"
  shows "ev_status e = ''resolved''"
proof -
  let ?db = "w_db (t_world t)"
  let ?up = "db_update_event ?db ev n 0 0 (Some ''restored'') (Some ''resolved'')
      (Some (fst (iso8601_now (t_world t))))"
  have "w_db (t_world (close_event ev n t)) = snd ?up"
    by (simp add: close_event_def iso8601_now_def Let_def)
  with assms(2) have "e \<in> set (d_events (snd ?up))" by simp
  with assms(1) obtain r where "r \<in> set (d_events ?db)"
    and e: "e = (if ev_event_id r = ev then
         r\<lparr>ev_files_protected := max (ev_files_protected r) n, ev_files_affected := max (ev_files_affected r) 0,
           ev_peak := max (ev_peak r) 0, ev_action := ''restored'', ev_status := ''resolved'',
           ev_ended_at := coalesce (Some (fst (iso8601_now (t_world t)))) (ev_ended_at r)\<rparr> else r)"
    by (auto simp: db_update_event_def run_stmt_def stmt_ok_def tick_def coalesce_def [of "Some ''restored''"]
        coalesce_def [of "Some ''resolved''"])
  with assms(3) show ?thesis by (auto split: if_splits)
qed

text \<open>
  The exit code counts: every pending record is counted once, as restored or failed, every
  created file once, as removed or failed; the code is 1 exactly when there was nothing to do, 2
  exactly when a record failed. Except for code 1 the event is closed, also when every record
  failed.
\<close>

theorem restore_exit_code:
  assumes "restore_args args (None, False) = (Some ev, auto)" and "\<forall>n. d_fate (w_db (t_world t)) n"
  shows "\<exists>ok bad (gone :: int). ok + bad = int (length (filter is_pending (file_rows (w_db (t_world t)) ev))) \<and>
      0 \<le> ok \<and> 0 \<le> bad \<and> 0 \<le> gone \<and>
      fst (cmd_restore args t) =
        (if file_rows (w_db (t_world t)) ev = [] \<and> gone = 0 then 1 else if 0 < bad then 2 else 0) \<and>
      (if fst (cmd_restore args t) = 1 then True
       else list_all (\<lambda>e. if ev_event_id e = ev then ev_status e = ''resolved'' else True)
              (d_events (w_db (t_world (snd (cmd_restore args t))))))"
proof -
  obtain dc :: delete_created_ctx and c :: restore_ctx and t4 :: tool where dc: "0 \<le> dc_deleted dc"
    and c: "counted (int (length (file_rows (w_db (t_world t)) ev)))
       (int (length (filter is_pending (file_rows (w_db (t_world t)) ev))))
       \<lparr>rc_event = ev, rc_total = 0, rc_success = 0, rc_fail = 0\<rparr> c"
    and f: "d_fate (w_db (t_world t4)) = d_fate (w_db (t_world t))"
    and run: "cmd_restore args t = (if rc_total c = 0 \<and> dc_deleted dc = 0 then (1, t4)
        else (if rc_fail c > 0 then 2 else 0, close_event ev (rc_success c) t4))"
    by (rule cmd_restore_shape [OF assms(1), where t = t]) (rule that)
  let ?rows = "file_rows (w_db (t_world t)) ev"
  let ?closed = "\<lambda>st. list_all (\<lambda>e. if ev_event_id e = ev then ev_status e = ''resolved'' else True)
      (d_events (w_db (t_world st)))"
  have closed: "?closed (close_event ev k t4)" for k
    using close_event_resolves [of t4 _ ev k] assms(2) f by (auto simp: list_all_iff)
  have n: "rc_success c + rc_fail c = int (length (filter is_pending ?rows))" "0 \<le> rc_success c" "0 \<le> rc_fail c"
    "rc_total c = 0 \<longleftrightarrow> ?rows = []"
    using c by (auto simp: counted_def)
  have "fst (cmd_restore args t) =
      (if ?rows = [] \<and> dc_deleted dc = 0 then 1 else if 0 < rc_fail c then 2 else 0)"
    by (simp add: run n(4))
  moreover have "if fst (cmd_restore args t) = 1 then True else ?closed (snd (cmd_restore args t))"
    using closed by (simp add: run)
  ultimately show ?thesis using n(1-3) dc by blast
qed

theorem restore_exit_code_witness:
  "fst (cmd_restore [''--event'', ''evt-1''] sample_tool) \<noteq> 1"
proof -
  have r: "restore_args [''--event'', ''evt-1''] (None, False) = (Some ''evt-1'', False)" by simp
  have f: "\<forall>n. d_fate (w_db (t_world sample_tool)) n" by (simp add: sample_tool_def db_empty_def)
  have "file_rows (w_db (t_world sample_tool)) ''evt-1'' \<noteq> []"
    by (simp add: file_rows_def db_query_by_event_def stmt_ok_def tick_def sample_tables f)
  then show ?thesis using restore_exit_code [OF r f] by (auto split: if_splits)
qed

subsection \<open>Where the quarantine gives up\<close>

text \<open>
  The place in the quarantine is a free one while one of the hundred slots is free and its name
  fits; when the path itself and its ninety-nine numbered neighbours are taken, the last of them
  is chosen although it is taken, and the earlier copy there is overwritten.
\<close>

theorem quarantine_slots:
  assumes "used path" and "length path + 3 < PATH_MAX"
  shows "quarantine_unique used path PATH_MAX =
    (case List.find (\<lambda>i. \<not> used (path @ ''.'' @ show_nat i)) [1..<100] of
       Some i \<Rightarrow> path @ ''.'' @ show_nat i
     | None \<Rightarrow> path @ ''.99'')"
proof -
  have len: "length (show_nat i) \<le> 2" if "i < 100" for i
  proof (cases "i < 10")
    case False
    then have "i div 10 < 10" using that by simp
    then show ?thesis using False by (simp add: show_nat.simps)
  qed (simp add: show_nat.simps)
  have base: "snprintf_s PATH_MAX path = path" using assms(2) by simp
  have loop: "slot_loop used PATH_MAX path is cur =
      (case List.find (\<lambda>i. \<not> used (path @ ''.'' @ show_nat i)) is of
         Some i \<Rightarrow> path @ ''.'' @ show_nat i
       | None \<Rightarrow> if is = [] then cur else path @ ''.'' @ show_nat (last is))"
    if "set is \<subseteq> {..<100}" for "is" cur
    using that
  proof (induction "is" arbitrary: cur)
    case (Cons i "is")
    then have "length (path @ ''.'' @ show_nat i) < PATH_MAX" using len [of i] assms(2) by simp
    with Cons show ?case by (auto simp: Let_def split: option.split)
  qed simp
  have "show_nat 99 = ''99''" by (simp add: show_nat.simps char_of_def bit_0)
  moreover have "[1..<100::nat] \<noteq> []" "last [1..<100::nat] = 99" by simp_all
  moreover have "set [1..<100::nat] \<subseteq> {..<100}" by auto
  ultimately show ?thesis
    using assms(1) loop [of "[1..<100]"] by (simp add: quarantine_unique_def base del: upt_rec_numeral split: option.split)
qed

theorem quarantine_slots_witness:
  "quarantine_unique (\<lambda>_. True) ''/q/note'' PATH_MAX = ''/q/note.99''"
proof -
  have "List.find (\<lambda>i. \<not> True) [1..<100::nat] = None" by (simp add: find_None_iff)
  with quarantine_slots [of "\<lambda>_. True" "''/q/note''"] show ?thesis by (simp add: PATH_MAX_def del: upt_rec_numeral)
qed

end
