(* ===== verification/Backup_Chain.thy ===== *)
theory Backup_Chain
  imports Daemon_Main Vfs_Claims Recover_Counts
begin

text \<open>
  From the backup to the restore, across the three programs: the module writes the backup, the
  daemon records where it thinks it is, the recovery tool looks there.
\<close>

text \<open>The path of a file on the server, and the needle by which the daemon cuts it.\<close>

definition file_path_of :: "smb_conn \<Rightarrow> string \<Rightarrow> string" where
  "file_path_of c rel = sc_connectpath c @ ''/'' @ rel"

definition share_needle :: "smb_conn \<Rightarrow> string" where
  "share_needle c = ''/'' @ share_name_of c @ ''/''"

text \<open>The fields fit their buffers.\<close>

definition fits_wire :: "smb_conn \<Rightarrow> string \<Rightarrow> bool" where
  "fits_wire c rel \<longleftrightarrow> length (file_path_of c rel) < 4096 \<and> length (share_name_of c) < 64"

lemma event_fields:
  assumes "fits_wire c rel"
  shows "m_file_path (event_of a c op fl (Some rel) nn st) = file_path_of c rel"
    and "m_share_name (event_of a c op fl (Some rel) nn st) = share_name_of c"
  using assms by (simp_all add: event_of_def msg_from_def fits_wire_def file_path_of_def Let_def split: option.split)

text \<open>The occurrence of the share in the path is the last directory of the connection and the first one.\<close>

definition share_is_directory :: "smb_conn \<Rightarrow> string \<Rightarrow> bool" where
  "share_is_directory c rel \<longleftrightarrow>
     (\<exists>pre. sc_connectpath c = pre @ ''/'' @ share_name_of c \<and>
        (\<forall>i < length pre. \<not> prefix (share_needle c) (drop i (file_path_of c rel))))"

lemma backup_rel_found:
  assumes "fits_wire c rel" and "share_is_directory c rel"
  shows "backup_rel (share_name_of c) (file_path_of c rel) = rel"
proof -
  obtain pre where pre: "sc_connectpath c = pre @ ''/'' @ share_name_of c"
    and first: "\<And>i. i < length pre \<Longrightarrow> \<not> prefix (share_needle c) (drop i (file_path_of c rel))"
    using assms(2) unfolding share_is_directory_def by blast
  have needle: "snprintf_s 128 (''/'' @ share_name_of c @ ''/'') = share_needle c"
    using assms(1) by (simp add: fits_wire_def share_needle_def)
  have fp: "file_path_of c rel = pre @ share_needle c @ rel"
    by (simp add: file_path_of_def share_needle_def pre)
  have "strstr (file_path_of c rel) (share_needle c) = Some (share_needle c @ rel)"
    unfolding fp by (rule strstr_first) (use first fp in auto)
  then show ?thesis unfolding backup_rel_def needle Let_def by simp
qed

lemma backup_rel_missing:
  assumes "fits_wire c rel" and "\<not> sublist (share_needle c) (file_path_of c rel)"
    and "\<not> prefix (share_name_of c @ ''/'') (file_path_of c rel)"
  shows "backup_rel (share_name_of c) (file_path_of c rel) = file_path_of c rel"
proof -
  let ?s = "share_name_of c" and ?fp = "file_path_of c rel"
  have needle: "snprintf_s 128 (''/'' @ ?s @ ''/'') = share_needle c"
    using assms(1) by (simp add: fits_wire_def share_needle_def)
  have "strstr ?fp (share_needle c) = None" using assms(2) by (simp add: strstr_None)
  moreover have "\<not> (strncmp_eq ?fp ?s (length ?s) \<and> take 1 (drop (length ?s) ?fp) = ''/'')"
  proof
    assume h: "strncmp_eq ?fp ?s (length ?s) \<and> take 1 (drop (length ?s) ?fp) = ''/''"
    then have "take (length ?s) ?fp = ?s" by (simp add: strncmp_eq_def)
    moreover have "take (length ?s + 1) ?fp = take (length ?s) ?fp @ take 1 (drop (length ?s) ?fp)" by (rule take_add)
    ultimately have "take (length ?s + 1) ?fp = ?s @ ''/''" using h by simp
    then have "prefix (?s @ ''/'') ?fp" by (metis take_is_prefix)
    with assms(3) show False by simp
  qed
  ultimately show ?thesis unfolding backup_rel_def needle Let_def by auto
qed

lemma record_path_of_event:
  assumes "fits_wire c rel" and "compute_backup_path cfg (share_name_of c) rel = Some bk"
    and "gc_store_path cfg = p_store_path p"
  shows "bk = p_store_path p @ ''/backups/'' @ share_name_of c @ ''/'' @ rel"
    and "record_path p (event_of a c op fl (Some rel) nn st) =
      p_store_path p @ ''/backups/'' @ share_name_of c @ ''/'' @ backup_rel (share_name_of c) (file_path_of c rel)"
  using assms(2,3)
  by (auto simp: compute_backup_path_def record_path_def event_fields [OF assms(1)] Let_def split: if_splits)

lemma recorded_path_neq:
  assumes "fits_wire c rel" and "compute_backup_path cfg (share_name_of c) rel = Some bk"
    and "gc_store_path cfg = p_store_path p"
    and "\<not> sublist (share_needle c) (file_path_of c rel)" and "\<not> prefix (share_name_of c @ ''/'') (file_path_of c rel)"
  shows "record_path p (event_of a c op fl (Some rel) nn st) \<noteq> bk"
proof -
  have "file_path_of c rel \<noteq> rel" by (simp add: file_path_of_def)
  then show ?thesis
    unfolding record_path_of_event [OF assms(1-3)] backup_rel_missing [OF assms(1,4,5)] by simp
qed

text \<open>
  C19: The daemon records the backup where the module has written it, when the share's name is the
  last directory of its path and occurs in no earlier place.
\<close>

theorem recorded_path_matches:
  assumes "fits_wire c rel" and "compute_backup_path cfg (share_name_of c) rel = Some bk"
    and "gc_store_path cfg = p_store_path p" and "share_is_directory c rel"
  shows "record_path p (event_of a c op fl (Some rel) nn st) = bk"
  unfolding record_path_of_event [OF assms(1-3)] backup_rel_found [OF assms(1,4)] by simp

text \<open>A connection whose share is named after its directory, and one whose share is not.\<close>

definition docs_conn :: "string \<Rightarrow> smb_conn" where
  "docs_conn dir = \<lparr>sc_unix_name = Some ''eve'', sc_remote_host = Some ''10.0.0.9'', sc_service = Some ''docs'',
     sc_connectpath = dir\<rparr>"

definition docs_config :: gfrguard_config where
  "docs_config = \<lparr>gc_protect = True, gc_mode = GFR_MODE_STRICT, gc_store_path = p_store_path apply_defaults,
     gc_socket_path = [], gc_sock_fd = True, gc_blocked_path = BLOCKED_PATH_DEFAULT, gc_blocked_mtime = 0,
     gc_blocked_mtime_ns = 0, gc_blocked_content = None\<rparr>"

lemma docs_path: "p_store_path apply_defaults = ''/var/lib/gf2000/rguard-store''"
  by (simp add: apply_defaults_def)

lemma docs_backup: "compute_backup_path docs_config (share_name_of (docs_conn dir)) ''a.txt'' =
    Some (''/var/lib/gf2000/rguard-store/backups/docs/a.txt'')"
  by (simp add: compute_backup_path_def docs_config_def docs_conn_def share_name_of_def docs_path RGUARD_PATH_MAX_def)

lemma data_conn:
  "fits_wire (docs_conn ''/mnt/data'') ''a.txt''"
  "\<not> sublist (share_needle (docs_conn ''/mnt/data'')) (file_path_of (docs_conn ''/mnt/data'') ''a.txt'')"
  "\<not> prefix (share_name_of (docs_conn ''/mnt/data'') @ ''/'') (file_path_of (docs_conn ''/mnt/data'') ''a.txt'')"
  by (simp_all add: fits_wire_def file_path_of_def share_needle_def docs_conn_def share_name_of_def sublist_Cons_right)

theorem recorded_path_matches_witness:
  "record_path apply_defaults (event_of sample_vfs_answers (docs_conn ''/mnt/docs'') 2 0 (Some ''a.txt'') None None) =
     ''/var/lib/gf2000/rguard-store/backups/docs/a.txt''"
proof (rule recorded_path_matches [OF _ docs_backup])
  show "fits_wire (docs_conn ''/mnt/docs'') ''a.txt''"
    by (simp add: fits_wire_def file_path_of_def docs_conn_def share_name_of_def)
  show "gc_store_path docs_config = p_store_path apply_defaults" by (simp add: docs_config_def)
  show "share_is_directory (docs_conn ''/mnt/docs'') ''a.txt''"
    unfolding share_is_directory_def
    by (rule exI [of _ "''/mnt''"])
      (auto simp: docs_conn_def share_name_of_def share_needle_def file_path_of_def less_Suc_eq numeral_eq_Suc)
qed

subsection \<open>A record that names nothing\<close>

lemma missing_backup_fails:
  assumes "pf_restore_status pf = ''pending''" and "\<not> stat_found t (pf_backup_path pf)"
  shows "restore_one pf (c, t) = fail_one pf (c\<lparr>rc_total := rc_total c + 1\<rparr>, t)"
  using assms by (simp add: restore_one_def Let_def)

text \<open>
  A file of a share that is not named after its directory cannot be restored: the module has its
  backup and reports it, the daemon records another path, and when nothing happens to be there the
  restore of the record fails with the file as the attack left it.
\<close>

theorem unmatched_share_not_restored:
  assumes "fits_wire c rel" and "compute_backup_path cfg (share_name_of c) rel = Some bk"
    and "gc_store_path cfg = p_store_path p"
    and "\<not> sublist (share_needle c) (file_path_of c rel)" and "\<not> prefix (share_name_of c @ ''/'') (file_path_of c rel)"
    and "length (record_path p msg) < RGUARD_PATH_MAX" and "msg = event_of a c op fl (Some rel) nn st"
    and "\<not> stat_found t (record_path p msg)"
  shows "record_path p msg \<noteq> bk \<and>
    (let pf = row_to_pf (protected_record msg ev (record_path p msg) ts); (ctx', t') = restore_one pf (ctx, t)
     in rc_fail ctx' = rc_fail ctx + 1 \<and> rc_success ctx' = rc_success ctx \<and> t_nodes t' = t_nodes t)"
proof -
  let ?pf = "row_to_pf (protected_record msg ev (record_path p msg) ts)"
  have "record_path p msg \<noteq> bk"
    using recorded_path_neq [OF assms(1-5)] assms(7) by simp
  moreover have "pf_backup_path ?pf = record_path p msg" "pf_restore_status ?pf = ''pending''"
    using assms(6) by (simp_all add: row_to_pf_def protected_record_def snprintf_s_def RGUARD_PATH_MAX_def)
  then have "restore_one ?pf (ctx, t) = fail_one ?pf (ctx\<lparr>rc_total := rc_total ctx + 1\<rparr>, t)"
    using missing_backup_fails [of ?pf t ctx] assms(8) by simp
  ultimately show ?thesis by (simp add: fail_one_def Let_def)
qed

theorem unmatched_share_not_restored_witness:
  "let msg = event_of sample_vfs_answers (docs_conn ''/mnt/data'') 2 0 (Some ''a.txt'') None None;
       pf = row_to_pf (protected_record msg ''evt-1'' (record_path apply_defaults msg) [])
   in rc_fail (fst (restore_one pf (sample_ctx, sample_tool))) = rc_fail sample_ctx + 1"
proof -
  let ?msg = "event_of sample_vfs_answers (docs_conn ''/mnt/data'') 2 0 (Some ''a.txt'') None None"
  have store: "gc_store_path docs_config = p_store_path apply_defaults" by (simp add: docs_config_def)
  have rec: "record_path apply_defaults ?msg = ''/var/lib/gf2000/rguard-store/backups/docs//mnt/data/a.txt''"
    unfolding record_path_of_event(2) [OF data_conn(1) docs_backup store] backup_rel_missing [OF data_conn]
    by (simp add: docs_path docs_conn_def share_name_of_def file_path_of_def)
  have len: "length (record_path apply_defaults ?msg) < RGUARD_PATH_MAX"
    unfolding rec by (simp add: RGUARD_PATH_MAX_def)
  have gone: "\<not> stat_found sample_tool (record_path apply_defaults ?msg)"
    unfolding rec by (simp add: stat_found_def skipped_def max_links_def link_at_def sample_tables sample_nodes_def
        store_names_def look_def)
  from unmatched_share_not_restored [OF data_conn(1) docs_backup store data_conn(2,3) len refl gone, of "''evt-1''" "[]" sample_ctx]
  show ?thesis by (simp only: Let_def case_prod_beta simp_thms)
qed

end
