(* ===== verification/Fanotify.thy ===== *)
theory Fanotify
  imports Daemon_Main Fangate Rguard_Backup
begin

text \<open>
  \<open>src/daemon/gfrguardd_fanotify.h\<close> and \<open>.c\<close>: the two fanotify groups, the channels and their
  marks, the queue from the permission thread to the main thread, and the messages made of
  events. What the kernel delivers is a batch of records; the answers of the other system calls
  are streams, read at the counter \<open>fa_n\<close>. The handler of a channel is a parameter of the
  dispatching functions. Descriptors and error numbers in the details of log lines are left out.
\<close>

subsection \<open>Constants and events\<close>

definition FAN_MODIFY :: u64 where "FAN_MODIFY = 0x2"
definition FAN_CLOSE_WRITE :: u64 where "FAN_CLOSE_WRITE = 0x8"
definition FAN_CREATE :: u64 where "FAN_CREATE = 0x100"
definition FAN_DELETE :: u64 where "FAN_DELETE = 0x200"
definition FAN_Q_OVERFLOW :: u64 where "FAN_Q_OVERFLOW = 0x4000"
definition FAN_OPEN_PERM :: u64 where "FAN_OPEN_PERM = 0x10000"
definition FAN_RENAME :: u64 where "FAN_RENAME = 0x10000000"
definition FAN_ONDIR :: u64 where "FAN_ONDIR = 0x40000000"

lemmas fan_defs = FAN_MODIFY_def FAN_CLOSE_WRITE_def FAN_CREATE_def FAN_DELETE_def FAN_Q_OVERFLOW_def
  FAN_OPEN_PERM_def FAN_RENAME_def FAN_ONDIR_def

definition FANOTIFY_MAX_CHANNELS :: nat where "FANOTIFY_MAX_CHANNELS = 16"
definition METADATA_LEN :: nat where "METADATA_LEN = 24"
definition ENOSPC_MARK :: int where "ENOSPC_MARK = 28"

text \<open>\<open>mask & bits\<close> as a condition.\<close>

definition has_mask :: "u64 \<Rightarrow> u64 \<Rightarrow> bool" where
  "has_mask m bits \<longleftrightarrow> m AND bits \<noteq> 0"

record file_stat =
  fst_ino :: u64
  fst_size :: u64
  fst_mtime :: u64
  fst_uid :: u32
  fst_gid :: u32
  fst_mode :: u32

text \<open>What the open descriptor of a permission event shows, and the answers of a copy from it.\<close>

record event_file =
  ef_stat :: "file_stat option"
  ef_bytes :: string
  ef_create :: bool
  ef_copy :: copy_answers

record fanotify_event =
  ev_mask :: u64
  ev_fd :: int
  ev_file :: event_file
  ev_pid :: int
  ev_path :: string
  ev_new_path :: string
  ev_new_name :: string

datatype fan_action = FAN_RES_ALLOW | FAN_RES_DENY

subsection \<open>State and answers\<close>

text \<open>The three modules that register channels; the tag is the channel's \<open>user_data\<close>.\<close>

datatype channel_kind = Ftp_channel | Cloud_channel | Local_channel

text \<open>
  \<open>fa_kills\<close> are the signals sent, in order; \<open>fa_stuck\<close> says that the main thread waits for a helper
  program that never ends: it does nothing from then on. \<open>fa_thread\<close>: the permission thread runs.
  \<open>struct fanotify_channel\<close> and its parallel \<open>struct fan_channel_rt\<close>.\<close>

record fan_channel =
  ch_mark_path :: string
  ch_kind :: channel_kind
  rt_real_path :: string
  rt_mount :: bool
  rt_fsid :: nat
  rt_pending :: bool
  rt_is_dir :: bool

record fan =
  fa_perm :: bool
  fa_notify :: bool
  fa_pipe :: bool
  fa_ctx :: bool
  fa_thread :: bool
  fa_channels :: "fan_channel list"
  fa_gate :: "fangate_entry list"
  fa_rewalk :: bool
  fa_queue :: "event_msg list"
  fa_dropped :: nat
  fa_perm_marks :: "string list"
  fa_notify_marks :: "string list"
  fa_responses :: "(int \<times> fan_action) list"
  fa_kills :: "(int \<times> int) list"
  fa_stuck :: bool
  fa_dm :: daemon
  fa_n :: nat

text \<open>\<open>realpath\<close>, whether \<open>stat\<close> finds a directory, \<open>open\<close> of the mount, \<open>statfs\<close>.\<close>

record activate_answers =
  aa_real :: "string option"
  aa_dir :: "bool option"
  aa_open :: bool
  aa_fsid :: "nat option"

text \<open>
  \<open>fe_mark\<close>: the error numbers of \<open>fanotify_mark\<close> on the two groups, 0 for success; \<open>fe_walk\<close>: the
  directories \<open>nftw\<close> visits. \<open>fe_stat_line\<close>, \<open>fe_exe\<close>, \<open>fe_cmdline\<close>: what \<open>/proc\<close> shows.
\<close>

record fan_env =
  fe_dm :: daemon_env
  fe_pid :: int
  fe_mono :: "nat \<Rightarrow> int"
  fe_queue_write :: "nat \<Rightarrow> bool"
  fe_queue_read :: "nat \<Rightarrow> bool"
  fe_response :: "nat \<Rightarrow> bool"
  fe_mark :: "nat \<Rightarrow> string \<Rightarrow> int \<times> int"
  fe_walk :: "nat \<Rightarrow> string \<Rightarrow> string list"
  fe_activate :: "nat \<Rightarrow> string \<Rightarrow> activate_answers"
  fe_stat :: "nat \<Rightarrow> string \<Rightarrow> file_stat option"
  fe_stat_line :: "nat \<Rightarrow> int \<Rightarrow> string option"
  fe_exe :: "int \<Rightarrow> string option"
  fe_cmdline :: "int \<Rightarrow> string option"
  fe_fork :: "nat \<Rightarrow> bool"

definition next_answer :: "fan \<Rightarrow> fan" where
  "next_answer f = f\<lparr>fa_n := fa_n f + 1\<rparr>"

definition on_dm :: "(daemon \<Rightarrow> daemon) \<Rightarrow> fan \<Rightarrow> fan" where
  "on_dm g f = f\<lparr>fa_dm := g (fa_dm f)\<rparr>"

definition fan_log :: "int \<Rightarrow> string \<Rightarrow> string option \<Rightarrow> string \<Rightarrow> fan \<Rightarrow> fan" where
  "fan_log lv ev sk det = on_dm (log_d lv ev sk det)"

type_synonym fan_handler = "channel_kind \<Rightarrow> fanotify_event \<Rightarrow> fan \<Rightarrow> fan_action \<times> fan"

subsection \<open>Paths and channels\<close>

text \<open>\<open>readlink\<close> into a buffer of 4096 bytes; a name that may be cut is refused.\<close>

definition fanotify_resolve_path :: "string option \<Rightarrow> string option" where
  "fanotify_resolve_path link =
     (case link of None \<Rightarrow> None
      | Some p \<Rightarrow> if length (take (RGUARD_PATH_MAX - 1) p) \<ge> RGUARD_PATH_MAX - 1 then None else Some (cstr_of p))"

definition path_prefix_match :: "string \<Rightarrow> string \<Rightarrow> nat" where
  "path_prefix_match path pfx =
     (let plen = length pfx in
      if \<not> strncmp_eq path pfx plen then 0
      else if drop plen path = [] \<or> take 1 (drop plen path) = ''/'' then plen else 0)"

definition match_path :: "fan_channel \<Rightarrow> string" where
  "match_path ch = (if rt_real_path ch \<noteq> [] then rt_real_path ch else ch_mark_path ch)"

fun best_channel :: "string \<Rightarrow> fan_channel list \<Rightarrow> nat \<Rightarrow> fan_channel option \<Rightarrow> fan_channel option" where
  "best_channel path [] best_len best = best"
| "best_channel path (ch # chs) best_len best =
     (if rt_pending ch then best_channel path chs best_len best
      else
        let m = path_prefix_match path (match_path ch)
        in if m > best_len then best_channel path chs m (Some ch) else best_channel path chs best_len best)"

definition find_channel :: "string \<Rightarrow> fan \<Rightarrow> fan_channel option" where
  "find_channel path f = best_channel path (fa_channels f) 0 None"

text \<open>A failed answer leaves the opening process waiting: it is logged.\<close>

definition write_fanotify_response :: "fan_env \<Rightarrow> int \<Rightarrow> fan_action \<Rightarrow> fan \<Rightarrow> fan" where
  "write_fanotify_response env fd resp f =
     (if \<not> fa_perm f then f
      else if fe_response env (fa_n f) then next_answer (f\<lparr>fa_responses := fa_responses f @ [(fd, resp)]\<rparr>)
      else fan_log LOG_ERROR ''FANOTIFY_RESP_FAILED'' None (''{\"fd\":'' @ show_int fd @ ''}'') (next_answer f))"

subsection \<open>Marks\<close>

definition add_mark :: "string \<Rightarrow> fan \<Rightarrow> bool \<Rightarrow> bool \<Rightarrow> fan" where
  "add_mark path f perm notify =
     f\<lparr>fa_perm_marks := (if perm then fa_perm_marks f @ [path] else fa_perm_marks f),
       fa_notify_marks := (if notify then fa_notify_marks f @ [path] else fa_notify_marks f)\<rparr>"

definition mark_failed :: "string \<Rightarrow> int \<Rightarrow> string \<Rightarrow> fan \<Rightarrow> fan" where
  "mark_failed path err grp f =
     (if err = 0 \<or> err = ENOSPC_MARK then f
      else fan_log LOG_ERROR ''FANOTIFY_MARK_FAILED'' None
             (snprintf_s 512 (''{\"path\":\"'' @ path @ ''\",\"errno\":'' @ show_int err @ '',\"fd\":\"'' @ grp @ ''\"}'')) f)"

text \<open>The last error, 0 if there was none.\<close>

definition fanotify_mark_add :: "fan_env \<Rightarrow> string \<Rightarrow> fan \<Rightarrow> int \<times> fan" where
  "fanotify_mark_add env path f =
     (let (e1, e2) = fe_mark env (fa_n f) path;
          e1' = (if fa_perm f then e1 else 0); e2' = (if fa_notify f then e2 else 0);
          f1 = add_mark path (next_answer f) (fa_perm f \<and> e1 = 0) (fa_notify f \<and> e2 = 0);
          f2 = mark_failed path e2' ''notify'' (mark_failed path e1' ''perm'' f1)
      in (if e2' \<noteq> 0 then e2' else e1', f2))"

definition fanotify_mark_remove :: "string \<Rightarrow> fan \<Rightarrow> fan" where
  "fanotify_mark_remove path f =
     f\<lparr>fa_perm_marks := (if fa_perm f then filter (\<lambda>p. p \<noteq> path) (fa_perm_marks f) else fa_perm_marks f),
       fa_notify_marks := (if fa_notify f then filter (\<lambda>p. p \<noteq> path) (fa_notify_marks f) else fa_notify_marks f)\<rparr>"

text \<open>The walk marks each directory, counting successes and marks refused for lack of space.\<close>

fun mark_walk :: "fan_env \<Rightarrow> string list \<Rightarrow> nat \<times> nat \<Rightarrow> fan \<Rightarrow> (nat \<times> nat) \<times> fan" where
  "mark_walk env [] counts f = (counts, f)"
| "mark_walk env (d # ds) (marked, enospc) f =
     (let (err, f1) = fanotify_mark_add env d f
      in mark_walk env ds (if err = 0 then (marked + 1, enospc)
                           else if err = ENOSPC_MARK then (marked, enospc + 1) else (marked, enospc)) f1)"

definition fanotify_mark_tree_add :: "fan_env \<Rightarrow> string \<Rightarrow> fan \<Rightarrow> nat \<times> fan" where
  "fanotify_mark_tree_add env root_dir f =
     (let ((marked, enospc), f1) = mark_walk env (fe_walk env (fa_n f) root_dir) (0, 0) (next_answer f)
      in (marked,
          if enospc > 0 then
            fan_log LOG_WARN ''FANOTIFY_MARK_ENOSPC'' None
              (snprintf_s 600 (''{\"root\":\"'' @ root_dir @ ''\",\"failed\":'' @ show_nat enospc @
                 '',\"hint\":\"raise fs.fanotify.max_user_marks\"}'')) f1
          else f1))"

subsection \<open>Channel registration\<close>

definition set_channel :: "nat \<Rightarrow> fan_channel \<Rightarrow> fan \<Rightarrow> fan" where
  "set_channel i ch f = f\<lparr>fa_channels := (fa_channels f)[i := ch]\<rparr>"

definition mark_channel :: "fan_env \<Rightarrow> fan_channel \<Rightarrow> fan \<Rightarrow> nat \<times> fan" where
  "mark_channel env ch f =
     (if rt_is_dir ch then fanotify_mark_tree_add env (rt_real_path ch) f
      else let (err, f1) = fanotify_mark_add env (rt_real_path ch) f in (if err = 0 then 1 else 0, f1))"

definition channel_rt_activate :: "fan_env \<Rightarrow> nat \<Rightarrow> fan \<Rightarrow> int \<times> fan" where
  "channel_rt_activate env i f0 =
     (let ch = fa_channels f0 ! i; aa = fe_activate env (fa_n f0) (ch_mark_path ch); f = next_answer f0 in
      case aa_real aa of
        None \<Rightarrow> (-1, fan_log LOG_INFO ''FANOTIFY_CHANNEL_PENDING'' None
                       (snprintf_s 512 (''{\"path\":\"'' @ ch_mark_path ch @ ''\"}''))
                       (set_channel i (ch\<lparr>rt_pending := True\<rparr>) f))
      | Some rp \<Rightarrow>
          let ch1 = ch\<lparr>rt_real_path := rp\<rparr> in
          (case aa_dir aa of
             None \<Rightarrow> (-1, set_channel i (ch1\<lparr>rt_pending := True\<rparr>) f)
           | Some is_dir \<Rightarrow>
               let ch2 = ch1\<lparr>rt_is_dir := is_dir, rt_mount := aa_open aa\<rparr> in
               if \<not> aa_open aa then
                 (-1, fan_log LOG_ERROR ''FANOTIFY_CHANNEL_SETUP_FAILED'' None
                        (snprintf_s 512 (''{\"path\":\"'' @ take 470 rp @ ''\"}''))
                        (set_channel i (ch2\<lparr>rt_pending := True\<rparr>) f))
               else case aa_fsid aa of
                 None \<Rightarrow> (-1, set_channel i (ch2\<lparr>rt_mount := False, rt_pending := True\<rparr>) f)
               | Some fsid \<Rightarrow>
                   let ch3 = ch2\<lparr>rt_fsid := fsid\<rparr>;
                       (marked, f1) = mark_channel env ch3 (set_channel i ch3 f)
                   in (0, fan_log LOG_INFO ''FANOTIFY_CHANNEL_ACTIVE'' None
                          (snprintf_s 600 (''{\"path\":\"'' @ take 550 rp @ ''\",\"dirs_marked\":'' @
                             show_nat marked @ ''}''))
                          (set_channel i (ch3\<lparr>rt_pending := False\<rparr>) f1))))"

definition fanotify_channel_register :: "string option \<Rightarrow> channel_kind \<Rightarrow> fan \<Rightarrow> int \<times> fan" where
  "fanotify_channel_register mark_path kind f =
     (case mark_path of
        None \<Rightarrow> (-1, f)
      | Some p \<Rightarrow>
          if length (fa_channels f) \<ge> FANOTIFY_MAX_CHANNELS then (-1, f)
          else (int (length (fa_channels f)),
                f\<lparr>fa_channels := fa_channels f @
                   [\<lparr>ch_mark_path = p, ch_kind = kind, rt_real_path = [], rt_mount = False, rt_fsid = 0,
                     rt_pending = True, rt_is_dir = False\<rparr>]\<rparr>))"

definition fanotify_channel_setup :: "fan_env \<Rightarrow> string option \<Rightarrow> channel_kind \<Rightarrow> fan \<Rightarrow> int \<times> fan" where
  "fanotify_channel_setup env mark_path kind f =
     (let (idx, f1) = fanotify_channel_register mark_path kind f
      in if idx < 0 then (-1, f1) else channel_rt_activate env (nat idx) f1)"

definition fanotify_channels_clear :: "fan \<Rightarrow> fan" where
  "fanotify_channels_clear f = f\<lparr>fa_channels := []\<rparr>"

text \<open>The channels that wait for their path, in order; the number that became active.\<close>

fun retry_loop :: "fan_env \<Rightarrow> nat list \<Rightarrow> nat \<Rightarrow> fan \<Rightarrow> nat \<times> fan" where
  "retry_loop env [] n f = (n, f)"
| "retry_loop env (i # is) n f =
     (if rt_pending (fa_channels f ! i) then
        (let (rc, f1) = channel_rt_activate env i f in retry_loop env is (if rc = 0 then n + 1 else n) f1)
      else retry_loop env is n f)"

definition fanotify_retry_pending_channels :: "fan_env \<Rightarrow> fan \<Rightarrow> nat \<times> fan" where
  "fanotify_retry_pending_channels env f = retry_loop env [0..<length (fa_channels f)] 0 f"

definition flush_marks :: "fan \<Rightarrow> fan" where
  "flush_marks f =
     f\<lparr>fa_perm_marks := (if fa_perm f then [] else fa_perm_marks f),
       fa_notify_marks := (if fa_notify f then [] else fa_notify_marks f)\<rparr>"

fun setup_all :: "fan_env \<Rightarrow> (string option \<times> channel_kind) list \<Rightarrow> fan \<Rightarrow> fan" where
  "setup_all env [] f = f"
| "setup_all env ((p, k) # chs) f =
     (if length (fa_channels f) \<ge> FANOTIFY_MAX_CHANNELS then f
      else if p = None then setup_all env chs f
      else setup_all env chs (snd (fanotify_channel_setup env p k f)))"

definition fanotify_reload_marks :: "fan_env \<Rightarrow> (string option \<times> channel_kind) list \<Rightarrow> fan \<Rightarrow> fan" where
  "fanotify_reload_marks env chs f =
     fan_log LOG_INFO ''FANOTIFY_MARKS_RELOADED'' None ''{}''
       (setup_all env chs
          ((fanotify_channels_clear (flush_marks f))\<lparr>fa_gate := fangate_reset (fa_gate f)\<rparr>))"

subsection \<open>Starting and stopping\<close>

text \<open>
  The answers of the two \<open>fanotify_init\<close>, of \<open>socketpair\<close> and of the two \<open>epoll_ctl\<close>. When the last two
  fail the socket pair is closed and its numbers are kept.
\<close>

record init_answers =
  ia_perm :: bool
  ia_notify :: bool
  ia_pair :: bool
  ia_epoll_notify :: bool
  ia_epoll_queue :: bool

definition fanotify_module_init :: "init_answers \<Rightarrow> fan \<Rightarrow> int \<times> fan" where
  "fanotify_module_init ia f0 =
     (if \<not> ia_perm ia then (-1, fan_log LOG_ERROR ''FANOTIFY_INIT_FAILED'' None ''{}'' (f0\<lparr>fa_perm := False\<rparr>))
      else
        let f = f0\<lparr>fa_perm := False, fa_notify := False\<rparr> in
        if \<not> ia_notify ia then (-1, fan_log LOG_ERROR ''FANOTIFY_NOTIFY_INIT_FAILED'' None ''{}'' f)
        else if \<not> ia_pair ia then (-1, fan_log LOG_ERROR ''FANOTIFY_PIPE_FAILED'' None ''{}'' f)
        else
          let f1 = f\<lparr>fa_pipe := True, fa_queue := [], fa_gate := fangate_init\<rparr> in
          if \<not> ia_epoll_notify ia then (-1, fan_log LOG_ERROR ''EPOLL_ADD_FAILED'' None ''{\"fd\":\"notify\"}'' f1)
          else if \<not> ia_epoll_queue ia then (-1, fan_log LOG_ERROR ''EPOLL_ADD_FAILED'' None ''{\"fd\":\"queue\"}'' f1)
          else (0, fan_log LOG_INFO ''FANOTIFY_INIT_OK'' None ''{}'' (f1\<lparr>fa_perm := True, fa_notify := True\<rparr>)))"

definition fanotify_start_perm_thread :: "bool \<Rightarrow> fan \<Rightarrow> int \<times> fan" where
  "fanotify_start_perm_thread created f =
     (if created then (0, f\<lparr>fa_thread := True\<rparr>)
      else (-1, fan_log LOG_ERROR ''FANOTIFY_THREAD_FAILED'' None ''{}'' f))"

definition fanotify_stop_perm_thread :: "fan \<Rightarrow> fan" where
  "fanotify_stop_perm_thread f = f\<lparr>fa_thread := False\<rparr>"

definition fanotify_set_daemon_ctx :: "daemon \<Rightarrow> fan \<Rightarrow> fan" where
  "fanotify_set_daemon_ctx d f = f\<lparr>fa_ctx := True, fa_dm := d\<rparr>"

definition fanotify_module_destroy :: "fan \<Rightarrow> fan" where
  "fanotify_module_destroy f0 =
     (let f = fanotify_stop_perm_thread f0 in fanotify_channels_clear ((flush_marks f)\<lparr>fa_perm := False, fa_notify := False, fa_pipe := False, fa_queue := []\<rparr>))"

subsection \<open>The queue to the main thread\<close>

text \<open>A datagram that does not fit is dropped; every thousandth drop is logged.\<close>

definition fanotify_queue_event :: "fan_env \<Rightarrow> event_msg \<Rightarrow> fan \<Rightarrow> fan" where
  "fanotify_queue_event env msg f0 =
     (if \<not> fa_pipe f0 then f0
      else
        let f = next_answer f0 in
        if fe_queue_write env (fa_n f0) then f\<lparr>fa_queue := fa_queue f @ [msg]\<rparr>
        else
          let n = fa_dropped f + 1; f1 = f\<lparr>fa_dropped := n\<rparr>
          in if n mod 1000 = 1
             then fan_log LOG_WARN ''EVENT_QUEUE_DROP'' None (''{\"dropped_total\":'' @ show_nat n @ ''}'') f1
             else f1)"

text \<open>One message is taken and processed; an empty queue gives 0, a failed read -1.\<close>

definition fanotify_process_queued :: "fan_env \<Rightarrow> fan \<Rightarrow> int \<times> fan" where
  "fanotify_process_queued env f0 =
     (if \<not> fa_pipe f0 \<or> fa_stuck f0 then (0, f0)
      else
        let f = next_answer f0 in
        if \<not> fe_queue_read env (fa_n f0) then (-1, f)
        else case fa_queue f of
          [] \<Rightarrow> (0, f)
        | msg # rest \<Rightarrow> (1, on_dm (process_msg (fe_dm env) msg) (f\<lparr>fa_queue := rest\<rparr>)))"

subsection \<open>The permission group\<close>

record perm_meta =
  pm_len :: nat
  pm_mask :: u64
  pm_fd :: int
  pm_file :: event_file
  pm_pid :: int
  pm_link :: "string option"

definition perm_event :: "perm_meta \<Rightarrow> string \<Rightarrow> fanotify_event" where
  "perm_event m path =
     \<lparr>ev_mask = pm_mask m, ev_fd = pm_fd m, ev_file = pm_file m, ev_pid = pm_pid m, ev_path = path,
      ev_new_path = [], ev_new_name = []\<rparr>"

definition respond :: "fan_env \<Rightarrow> perm_meta \<Rightarrow> fan_action \<Rightarrow> fan \<Rightarrow> fan" where
  "respond env m resp f =
     (if has_mask (pm_mask m) FAN_OPEN_PERM then write_fanotify_response env (pm_fd m) resp f else f)"

text \<open>Whether the event was processed.\<close>

definition handle_perm :: "fan_env \<Rightarrow> fan_handler \<Rightarrow> perm_meta \<Rightarrow> fan \<Rightarrow> bool \<times> fan" where
  "handle_perm env h m f =
     (case fanotify_resolve_path (pm_link m) of
        None \<Rightarrow> (False, respond env m FAN_RES_ALLOW f)
      | Some path \<Rightarrow>
          (case find_channel path f of
             None \<Rightarrow> (True, respond env m FAN_RES_ALLOW f)
           | Some ch \<Rightarrow>
               (let (resp, f1) = h (ch_kind ch) (perm_event m path) f in (True, respond env m resp f1))))"

text \<open>The records of one \<open>read\<close>, of \<open>left\<close> bytes; a record that does not fit ends the batch.\<close>

fun perm_batch :: "fan_env \<Rightarrow> fan_handler \<Rightarrow> nat \<Rightarrow> perm_meta list \<Rightarrow> fan \<Rightarrow> nat \<times> fan" where
  "perm_batch env h left [] f = (0, f)"
| "perm_batch env h left (m # ms) f =
     (if left = 0 \<or> pm_len m < METADATA_LEN \<or> pm_len m > left then (0, f)
      else
        let (done, f1) = handle_perm env h m f;
            (n, f2) = perm_batch env h (left - pm_len m) ms f1
        in ((if done then 1 else 0) + n, f2))"

fun perm_reads :: "fan_env \<Rightarrow> fan_handler \<Rightarrow> (nat \<times> perm_meta list) list \<Rightarrow> fan \<Rightarrow> nat \<times> fan" where
  "perm_reads env h [] f = (0, f)"
| "perm_reads env h ((nr, ms) # bs) f =
     (if nr = 0 then (0, f)
      else
        let (n, f1) = perm_batch env h nr ms f; (k, f2) = perm_reads env h bs f1 in (n + k, f2))"

definition fanotify_drain_perm :: "fan_env \<Rightarrow> fan_handler \<Rightarrow> (nat \<times> perm_meta list) list \<Rightarrow> fan \<Rightarrow> nat \<times> fan" where
  "fanotify_drain_perm env h batches f = (if fa_perm f then perm_reads env h batches f else (0, f))"

text \<open>The loop of the permission thread: what \<open>g_perm_quit\<close> reads and what \<open>epoll_wait\<close> answers.\<close>

datatype perm_wait = Epoll_error | Epoll_intr | Epoll_none | Epoll_ready "(nat \<times> perm_meta list) list"

fun perm_loop :: "fan_env \<Rightarrow> fan_handler \<Rightarrow> (bool \<times> perm_wait) list \<Rightarrow> fan \<Rightarrow> fan" where
  "perm_loop env h [] f = f"
| "perm_loop env h ((quit, w) # ws) f =
     (if quit then f
      else case w of
        Epoll_error \<Rightarrow> f
      | Epoll_intr \<Rightarrow> perm_loop env h ws f
      | Epoll_none \<Rightarrow> perm_loop env h ws f
      | Epoll_ready batches \<Rightarrow> perm_loop env h ws (snd (fanotify_drain_perm env h batches f)))"

definition perm_thread_fn :: "fan_env \<Rightarrow> fan_handler \<Rightarrow> (bool \<times> perm_wait) list \<Rightarrow> fan \<Rightarrow> fan" where
  "perm_thread_fn env h ws f =
     fan_log LOG_INFO ''FANOTIFY_PERM_THREAD_STOP'' None ''{}''
       (perm_loop env h ws (fan_log LOG_INFO ''FANOTIFY_PERM_THREAD_START'' None ''{}'' f))"

subsection \<open>The notification group\<close>

text \<open>Files of notification events have no descriptor.\<close>

definition no_file :: event_file where
  "no_file = \<lparr>ef_stat = None, ef_bytes = [], ef_create = False,
     ef_copy = \<lparr>c_src_at = 0, c_dst_at = 0, c_clone = False, c_range = [], c_seek_src = False, c_seek_dst = False, c_reads = [], c_writes = []\<rparr>\<rparr>"

definition notify_event :: "u64 \<Rightarrow> int \<Rightarrow> string \<Rightarrow> string option \<Rightarrow> fanotify_event" where
  "notify_event m pid path new_path =
     \<lparr>ev_mask = m, ev_fd = -1, ev_file = no_file, ev_pid = pid, ev_path = snprintf_s RGUARD_PATH_MAX path,
      ev_new_path = (case new_path of None \<Rightarrow> [] | Some p \<Rightarrow> snprintf_s RGUARD_PATH_MAX p),
      ev_new_name = (case new_path of None \<Rightarrow> []
        | Some p \<Rightarrow> snprintf_s 256 (case strrchr p CHR ''/'' of Some s \<Rightarrow> drop 1 s | None \<Rightarrow> p))\<rparr>"

text \<open>A main thread that waits for ever handles no further event.\<close>

definition dispatch_one :: "fan_handler \<Rightarrow> u64 \<Rightarrow> int \<Rightarrow> string \<Rightarrow> string option \<Rightarrow> fan \<Rightarrow> fan" where
  "dispatch_one h m pid path new_path f =
     (if fa_stuck f then f
      else
        let ev = notify_event m pid path new_path in
        case find_channel (ev_path ev) f of None \<Rightarrow> f | Some ch \<Rightarrow> snd (h (ch_kind ch) ev f))"

definition op_bits :: "u64 list" where
  "op_bits = [FAN_CREATE, FAN_MODIFY, FAN_CLOSE_WRITE, FAN_DELETE]"

definition dispatch_notify :: "fan_handler \<Rightarrow> u64 \<Rightarrow> int \<Rightarrow> string \<Rightarrow> fan \<Rightarrow> fan" where
  "dispatch_notify h m pid full f =
     fold (\<lambda>b. dispatch_one h (b OR (m AND FAN_ONDIR)) pid full None) (filter (has_mask m) op_bits) f"

text \<open>An information record: its length, kind, file system, what its handle opens to, its name.\<close>

datatype info_kind = Dfid_name | Old_dfid_name | New_dfid_name | Other_info

record fid_info =
  fi_len :: nat
  fi_kind :: info_kind
  fi_fsid :: nat
  fi_link :: "string option"
  fi_name :: string

record fid_meta =
  fm_len :: nat
  fm_vers_ok :: bool
  fm_mask :: u64
  fm_pid :: int
  fm_infos :: "fid_info list"

fun find_name_record :: "info_kind \<Rightarrow> nat \<Rightarrow> fid_info list \<Rightarrow> fid_info option" where
  "find_name_record k left [] = None"
| "find_name_record k left (r # rs) =
     (if left < 4 \<or> fi_len r < 4 then None
      else if fi_kind r = k then Some r
      else find_name_record k (left - fi_len r) rs)"

definition name_record :: "info_kind \<Rightarrow> fid_meta \<Rightarrow> fid_info option" where
  "name_record k meta = find_name_record k (fm_len meta - METADATA_LEN) (fm_infos meta)"

definition channel_index_by_fsid :: "nat \<Rightarrow> fan \<Rightarrow> nat option" where
  "channel_index_by_fsid fsid f =
     List.find (\<lambda>i. let ch = fa_channels f ! i in \<not> rt_pending ch \<and> rt_mount ch \<and> rt_fsid ch = fsid)
       [0..<length (fa_channels f)]"

text \<open>The directory and the name; without a channel on the file system there is no mount to ask.\<close>

definition resolve_name_record :: "fid_info \<Rightarrow> fan \<Rightarrow> (string \<times> string) option" where
  "resolve_name_record r f =
     (if channel_index_by_fsid (fi_fsid r) f = None then None
      else case fanotify_resolve_path (fi_link r) of
        None \<Rightarrow> None | Some dir \<Rightarrow> Some (dir, cstr_of (fi_name r)))"

definition join_dir_name :: "string \<Rightarrow> string \<Rightarrow> string" where
  "join_dir_name dir name =
     snprintf_s RGUARD_PATH_MAX (if name = ''.'' then dir else dir @ ''/'' @ name)"

definition full_name :: "info_kind \<Rightarrow> fid_meta \<Rightarrow> fan \<Rightarrow> string option" where
  "full_name k meta f =
     (case name_record k meta of
        None \<Rightarrow> None
      | Some r \<Rightarrow> map_option (\<lambda>(dir, name). join_dir_name dir name) (resolve_name_record r f))"

definition process_rename_event :: "fan_env \<Rightarrow> fan_handler \<Rightarrow> fid_meta \<Rightarrow> fan \<Rightarrow> nat \<times> fan" where
  "process_rename_event env h meta f =
     (let old_full = full_name Old_dfid_name meta f; new_full = full_name New_dfid_name meta f;
          m = FAN_RENAME OR (fm_mask meta AND FAN_ONDIR);
          f1 = (case new_full of
                  Some p \<Rightarrow> if has_mask (fm_mask meta) FAN_ONDIR then snd (fanotify_mark_tree_add env p f) else f
                | None \<Rightarrow> f)
      in case (old_full, new_full) of
           (None, None) \<Rightarrow> (0, f)
         | (Some p, _) \<Rightarrow> (1, dispatch_one h m (fm_pid meta) p new_full f1)
         | (None, Some p) \<Rightarrow> (1, dispatch_one h m (fm_pid meta) p new_full f1))"

definition process_fid_event :: "fan_env \<Rightarrow> fan_handler \<Rightarrow> fid_meta \<Rightarrow> fan \<Rightarrow> nat \<times> fan" where
  "process_fid_event env h meta f =
     (if fa_stuck f then (0, f)
      else if has_mask (fm_mask meta) FAN_Q_OVERFLOW then
        (0, (fan_log LOG_WARN ''FANOTIFY_QUEUE_OVERFLOW'' None ''{}'' f)\<lparr>fa_rewalk := True\<rparr>)
      else if fm_pid meta = fe_pid env then (0, f)
      else if has_mask (fm_mask meta) FAN_RENAME then process_rename_event env h meta f
      else case full_name Dfid_name meta f of
        None \<Rightarrow> (0, f)
      | Some full \<Rightarrow>
          let f1 = (if has_mask (fm_mask meta) FAN_ONDIR \<and> has_mask (fm_mask meta) FAN_CREATE
                    then snd (fanotify_mark_tree_add env full f) else f)
          in (1, dispatch_notify h (fm_mask meta) (fm_pid meta) full f1))"

text \<open>\<open>FAN_EVENT_OK\<close>; a record of another version ends the whole drain.\<close>

fun notify_batch :: "fan_env \<Rightarrow> fan_handler \<Rightarrow> nat \<Rightarrow> fid_meta list \<Rightarrow> fan \<Rightarrow> (bool \<times> nat) \<times> fan" where
  "notify_batch env h left [] f = ((True, 0), f)"
| "notify_batch env h left (m # ms) f =
     (if left < METADATA_LEN \<or> fm_len m < METADATA_LEN \<or> fm_len m > left then ((True, 0), f)
      else if fa_stuck f then ((True, 0), f)
      else if \<not> fm_vers_ok m then
        ((False, 0), fan_log LOG_ERROR ''FANOTIFY_VERSION_MISMATCH'' None ''{}'' f)
      else
        let (n, f1) = process_fid_event env h m f;
            ((ok, k), f2) = notify_batch env h (left - fm_len m) ms f1
        in ((ok, n + k), f2))"

definition rewalk :: "fan_env \<Rightarrow> fan \<Rightarrow> fan" where
  "rewalk env f =
     (if fa_rewalk f \<and> \<not> fa_stuck f then
        fold (\<lambda>ch f. if \<not> rt_pending ch \<and> rt_is_dir ch \<and> rt_real_path ch \<noteq> []
                     then snd (fanotify_mark_tree_add env (rt_real_path ch) f) else f)
          (fa_channels f) (f\<lparr>fa_rewalk := False\<rparr>)
      else f)"

fun notify_reads :: "fan_env \<Rightarrow> fan_handler \<Rightarrow> (nat \<times> fid_meta list) list \<Rightarrow> fan \<Rightarrow> nat \<times> fan" where
  "notify_reads env h [] f = (0, rewalk env f)"
| "notify_reads env h ((nr, ms) # bs) f =
     (if nr = 0 then (0, rewalk env f)
      else
        let ((ok, n), f1) = notify_batch env h nr ms f
        in if \<not> ok then (n, f1)
           else let (k, f2) = notify_reads env h bs f1 in (n + k, f2))"

definition fanotify_drain_notify :: "fan_env \<Rightarrow> fan_handler \<Rightarrow> (nat \<times> fid_meta list) list \<Rightarrow> fan \<Rightarrow> nat \<times> fan" where
  "fanotify_drain_notify env h batches f =
     (if \<not> fa_notify f \<or> fa_channels f = [] then (0, f) else notify_reads env h batches f)"

subsection \<open>Messages\<close>

definition fanotify_submit_event :: "fan_env \<Rightarrow> event_msg \<Rightarrow> string \<Rightarrow> fan \<Rightarrow> bool \<times> fan" where
  "fanotify_submit_event env msg skey f =
     (if \<not> fa_ctx f then (False, f)
      else
        let (r, d) = find_session skey (process_msg (fe_dm env) msg (fa_dm f))
        in ((case r of Some i \<Rightarrow> s_blocked (the_session i d) | None \<Rightarrow> False), f\<lparr>fa_dm := d\<rparr>))"

text \<open>The window of the gate is the short scoring window of the channel.\<close>

definition gate_window :: "fan \<Rightarrow> u8 \<Rightarrow> int" where
  "gate_window f src =
     (if \<not> fa_ctx f then 0
      else
        let sc = p_scoring (dm_policy (fa_dm f))
        in if src = RGUARD_SOURCE_CLOUD_SYNC \<and> sc_cloud_window_short sc > 0
           then sc_cloud_window_short sc else sc_window_short sc)"

definition fanotify_gate_allow :: "fan_env \<Rightarrow> string \<Rightarrow> string \<Rightarrow> u8 \<Rightarrow> fan \<Rightarrow> bool \<times> fan" where
  "fanotify_gate_allow env skey path src f =
     (let (ok, g) = fangate_allow (fa_gate f) (Some skey) (rguard_fnv1a64 path) (fe_mono env (fa_n f))
                      (gate_window f src)
      in (ok, next_answer (f\<lparr>fa_gate := g\<rparr>)))"

definition set_file :: "string \<Rightarrow> string option \<Rightarrow> fan \<Rightarrow> fan" where
  "set_file path content = on_dm (on_world (\<lambda>w. w\<lparr>w_files := (w_files w)(path := content)\<rparr>))"

definition fan_backup_path :: "string \<Rightarrow> string \<Rightarrow> string \<Rightarrow> string" where
  "fan_backup_path store dir path = store @ ''/backups/'' @ dir @ ''/'' @ path"

text \<open>The directories of the backup are not part of the files.\<close>

definition fanotify_do_backup :: "event_file \<Rightarrow> string \<Rightarrow> string \<Rightarrow> string \<Rightarrow> fan \<Rightarrow> rguard_error \<times> fan" where
  "fanotify_do_backup file path store dir f =
     (case ef_stat file of
        None \<Rightarrow> (RGUARD_ERR_BACKUP, f)
      | Some st \<Rightarrow>
          let bk = fan_backup_path store dir path in
          if length bk \<ge> RGUARD_PATH_MAX then
            (RGUARD_ERR_BACKUP, fan_log LOG_WARN ''BACKUP_PATH_TRUNCATED'' None
               (snprintf_s 300 (''{\"path\":\"'' @ take 250 path @ ''\"}'')) f)
          else if w_files (dm_world (fa_dm f)) bk \<noteq> None then (RGUARD_OK, f)
          else if \<not> ef_create file then (RGUARD_ERR_BACKUP, f)
          else
            let (rc, bytes) = rguard_copy_fd (ef_copy file) (ef_bytes file) [] (unat (fst_size st))
            in if rc \<noteq> 0 then (RGUARD_ERR_BACKUP, set_file bk None f)
               else (RGUARD_OK, set_file bk (Some bytes) f))"

text \<open>\<open>time(NULL)\<close> reads the clock of the world.\<close>

definition fanotify_build_event_msg :: "fanotify_event \<Rightarrow> u8 \<Rightarrow> fan \<Rightarrow> event_msg \<times> fan" where
  "fanotify_build_event_msg ev src f =
     (msg_zero\<lparr>m_msg_type := RGUARD_MSG_FILE_EVENT, m_proto_version := RGUARD_PROTO_VERSION,
        m_source_type := src, m_op_type := RGUARD_OP_OPEN, m_flags := RGUARD_FLAG_RISKY,
        m_timestamp := of_int (now (dm_world (fa_dm f))), m_file_path := snprintf_s RGUARD_PATH_MAX (ev_path ev)\<rparr>,
      on_dm (on_world tick_clock) f)"

definition with_stat :: "file_stat option \<Rightarrow> event_msg \<Rightarrow> event_msg" where
  "with_stat st m =
     (case st of None \<Rightarrow> m
      | Some s \<Rightarrow> m\<lparr>m_inode := fst_ino s, m_file_size := fst_size s, m_mtime := fst_mtime s,
          m_file_uid := fst_uid s, m_file_gid := fst_gid s, m_file_mode := fst_mode s\<rparr>)"

definition notify_ops :: u64 where
  "notify_ops = FAN_MODIFY OR FAN_CREATE OR FAN_CLOSE_WRITE OR FAN_DELETE OR FAN_RENAME"

text \<open>\<open>None\<close> for an event that is dropped: the gate refused it or its mask has no meaning.\<close>

definition fanotify_fill_notify_msg ::
  "fan_env \<Rightarrow> fanotify_event \<Rightarrow> string \<Rightarrow> event_msg \<Rightarrow> fan \<Rightarrow> event_msg option \<times> fan" where
  "fanotify_fill_notify_msg env ev skey msg f0 =
     (let op = ev_mask ev AND notify_ops;
          statpath = (if has_mask (ev_mask ev) FAN_RENAME \<and> ev_new_path ev \<noteq> [] then ev_new_path ev else ev_path ev);
          m = with_stat (fe_stat env (fa_n f0) statpath) msg;
          f = next_answer f0
      in if op = FAN_MODIFY then
           (let (ok, f1) = fanotify_gate_allow env skey (ev_path ev) (m_source_type msg) f
            in (if ok then Some (m\<lparr>m_op_type := RGUARD_OP_WRITE, m_flags := RGUARD_FLAG_RISKY\<rparr>) else None, f1))
         else if op = FAN_CREATE then (Some (m\<lparr>m_op_type := RGUARD_OP_OPEN, m_flags := RGUARD_FLAG_NEW_FILE\<rparr>), f)
         else if op = FAN_DELETE then (Some (m\<lparr>m_op_type := RGUARD_OP_DELETE, m_flags := 0\<rparr>), f)
         else if op = FAN_RENAME then
           (Some (m\<lparr>m_op_type := RGUARD_OP_RENAME, m_flags := 0, m_new_name := snprintf_s 256 (ev_new_name ev)\<rparr>), f)
         else if op = FAN_CLOSE_WRITE then (Some (m\<lparr>m_op_type := RGUARD_OP_CLOSE, m_flags := 0\<rparr>), f)
         else (None, f))"

end
