(* ===== verification/Fan_Channel.thy ===== *)
theory Fan_Channel
  imports Fanotify Rguard_Hash
begin

text \<open>
  \<open>src/daemon/gfrguardd_fanchannel.h\<close> and \<open>.c\<close>: the one handler of all fanotify channels. A channel
  brings who an event belongs to and what blocking means; its callbacks are fields of a record,
  \<open>None\<close> for a null pointer. \<open>fan_proc_stat\<close> parses the line of \<open>/proc/<pid>/stat\<close>.
\<close>

record fan_channel_ctx =
  cx_skey :: string
  cx_username :: string
  cx_client_ip :: string
  cx_share_name :: string
  cx_proc_start :: u64

definition ctx_zero :: fan_channel_ctx where
  "ctx_zero = \<lparr>cx_skey = [], cx_username = [], cx_client_ip = [], cx_share_name = [], cx_proc_start = 0\<rparr>"

record fan_channel_ops =
  op_source :: u8
  op_dir :: string
  op_resolve :: "fanotify_event \<Rightarrow> fan_channel_ctx \<Rightarrow> fan \<Rightarrow> fan_channel_ctx option \<times> fan"
  op_deny :: "(fanotify_event \<Rightarrow> fan_channel_ctx \<Rightarrow> fan \<Rightarrow> fan) option"
  op_block :: "(fanotify_event \<Rightarrow> fan_channel_ctx \<Rightarrow> fan \<Rightarrow> fan) option"

definition run_action ::
  "(fanotify_event \<Rightarrow> fan_channel_ctx \<Rightarrow> fan \<Rightarrow> fan) option \<Rightarrow> fanotify_event \<Rightarrow> fan_channel_ctx \<Rightarrow> fan \<Rightarrow> fan" where
  "run_action act ev ctx f = (case act of Some g \<Rightarrow> g ev ctx f | None \<Rightarrow> f)"

text \<open>The session key is derived here, from the identity the channel has found.\<close>

definition derive_key :: "fan_channel_ctx \<Rightarrow> fan_channel_ctx" where
  "derive_key ctx =
     ctx\<lparr>cx_skey := rguard_make_session_key SESSION_KEY_LEN (Some (cx_username ctx)) (Some (cx_client_ip ctx))\<rparr>"

definition with_identity :: "fan_channel_ctx \<Rightarrow> event_msg \<Rightarrow> event_msg" where
  "with_identity ctx m =
     m\<lparr>m_username := snprintf_s 64 (cx_username ctx), m_client_ip := snprintf_s 48 (cx_client_ip ctx),
       m_share_name := snprintf_s 64 (cx_share_name ctx)\<rparr>"

definition build_message ::
  "fan_channel_ops \<Rightarrow> fanotify_event \<Rightarrow> fan_channel_ctx \<Rightarrow> fan \<Rightarrow> event_msg \<times> fan" where
  "build_message ops ev ctx f =
     (let (m, f') = fanotify_build_event_msg ev (op_source ops) f in (with_identity ctx m, f'))"

text \<open>Queue the message if the gate lets it through.\<close>

definition queue_gated ::
  "fan_env \<Rightarrow> fan_channel_ops \<Rightarrow> fanotify_event \<Rightarrow> fan_channel_ctx \<Rightarrow> event_msg \<Rightarrow> fan \<Rightarrow> fan" where
  "queue_gated env ops ev ctx m f =
     (let (ok, f') = fanotify_gate_allow env (cx_skey ctx) (ev_path ev) (op_source ops) f
      in if ok then fanotify_queue_event env m f' else f')"

definition deny_detail :: "fanotify_event \<Rightarrow> fan_channel_ctx \<Rightarrow> string" where
  "deny_detail ev ctx =
     snprintf_s 384 (''{\"path\":\"'' @ take 200 (ev_path ev) @ ''\",\"ip\":\"'' @ take 47 (cx_client_ip ctx) @
       ''\",\"user\":\"'' @ take 63 (cx_username ctx) @ ''\"}'')"

definition handle_denied ::
  "fan_env \<Rightarrow> fan_channel_ops \<Rightarrow> fanotify_event \<Rightarrow> fan_channel_ctx \<Rightarrow> fan \<Rightarrow> fan_action \<times> fan" where
  "handle_denied env ops ev ctx f =
     (let f1 = run_action (op_deny ops) ev ctx
                 (fan_log LOG_WARN ''FANOTIFY_BLACKLIST_DENY'' (Some (cx_skey ctx)) (deny_detail ev ctx) f);
          (m, f2) = build_message ops ev ctx f1
      in (FAN_RES_DENY, queue_gated env ops ev ctx m f2))"

text \<open>The outcome of the backup in the message: the flag and, on success, what \<open>fstat\<close> finds.\<close>

definition note_backup :: "rguard_error \<Rightarrow> fanotify_event \<Rightarrow> event_msg \<Rightarrow> event_msg" where
  "note_backup rc ev m =
     (if rc = RGUARD_OK
      then with_stat (ef_stat (ev_file ev)) (m\<lparr>m_flags := m_flags m OR RGUARD_FLAG_BACKED_UP\<rparr>)
      else m\<lparr>m_flags := m_flags m OR RGUARD_FLAG_BACKUP_FAILED\<rparr>)"

definition handle_open ::
  "fan_env \<Rightarrow> fan_channel_ops \<Rightarrow> fanotify_event \<Rightarrow> fan_channel_ctx \<Rightarrow> fan \<Rightarrow> fan_action \<times> fan" where
  "handle_open env ops ev ctx f =
     (let (rc, f1) = fanotify_do_backup (ev_file ev) (ev_path ev) (p_store_path (dm_policy (fa_dm f))) (op_dir ops) f;
          (m, f2) = build_message ops ev ctx f1
      in (FAN_RES_ALLOW, queue_gated env ops ev ctx (note_backup rc ev m) f2))"

definition handle_notify ::
  "fan_env \<Rightarrow> fan_channel_ops \<Rightarrow> fanotify_event \<Rightarrow> fan_channel_ctx \<Rightarrow> fan \<Rightarrow> fan_action \<times> fan" where
  "handle_notify env ops ev ctx f =
     (let (m0, f1) = build_message ops ev ctx f;
          (m1, f2) = fanotify_fill_notify_msg env ev (cx_skey ctx) m0 f1
      in case m1 of
           None \<Rightarrow> (FAN_RES_ALLOW, f2)
         | Some m \<Rightarrow>
             (let (blocked, f3) = fanotify_submit_event env m (cx_skey ctx) f2
              in (FAN_RES_ALLOW, if blocked then run_action (op_block ops) ev ctx f3 else f3)))"

definition fan_channel_handle ::
  "fan_env \<Rightarrow> fan_channel_ops \<Rightarrow> fanotify_event \<Rightarrow> fan \<Rightarrow> fan_action \<times> fan" where
  "fan_channel_handle env ops ev f0 =
     (let is_perm = has_mask (ev_mask ev) FAN_OPEN_PERM in
      if \<not> is_perm \<and> \<not> has_mask (ev_mask ev) notify_ops then (FAN_RES_ALLOW, f0)
      else
        let (r, f) = op_resolve ops ev ctx_zero f0 in
        case r of
          None \<Rightarrow> (FAN_RES_ALLOW, f)
        | Some ctx0 \<Rightarrow>
            let ctx = derive_key ctx0 in
            if is_perm then
              (if scorer_is_blacklisted (dm_policy (fa_dm f)) (Some (cx_username ctx)) (Some (cx_client_ip ctx))
               then handle_denied env ops ev ctx f else handle_open env ops ev ctx f)
            else handle_notify env ops ev ctx f)"

subsection \<open>The start time of a process\<close>

text \<open>\<open>strtoull(s, NULL, 10)\<close>\<close>

definition strtoull :: "string \<Rightarrow> u64" where
  "strtoull s =
     (let t = dropWhile is_space s;
          neg = (t \<noteq> [] \<and> hd t = CHR ''-'');
          u = (if t \<noteq> [] \<and> (hd t = CHR ''-'' \<or> hd t = CHR ''+'') then tl t else t);
          v = fst (scan_digits 10 0 u)
      in if v \<ge> 2 ^ 64 then 0xFFFFFFFFFFFFFFFF else if neg then - of_nat v else of_nat v)"

fun skip_fields :: "nat \<Rightarrow> string \<Rightarrow> string" where
  "skip_fields 0 s = s"
| "skip_fields (Suc n) s = (case strchr s CHR '' '' of None \<Rightarrow> s | Some p \<Rightarrow> skip_fields n (drop 1 p))"

text \<open>\<open>fgets\<close> into \<open>n\<close> bytes: a line, or nothing of an empty file.\<close>

definition fgets_line :: "nat \<Rightarrow> string \<Rightarrow> string option" where
  "fgets_line n s =
     (if s = [] then None
      else Some (cstr_of (take (n - 1) (takeWhile (\<lambda>c. c \<noteq> newline) s @
                   (if newline \<in> set s then [newline] else [])))))"

text \<open>The name between the parentheses, cut to its buffer, and the start time; \<open>None\<close> fails.\<close>

definition proc_comm :: "nat \<Rightarrow> string \<Rightarrow> string \<Rightarrow> string option" where
  "proc_comm clen line rp =
     (case strchr line CHR ''('' of
        None \<Rightarrow> None
      | Some lp \<Rightarrow>
          if length lp < length rp then None
          else Some (take (clen - 1) (take (length lp - 1 - length rp) (drop 1 lp))))"

definition parse_proc_stat :: "nat \<Rightarrow> string \<Rightarrow> (string \<times> u64) option" where
  "parse_proc_stat clen line =
     (case strrchr line CHR '')'' of
        None \<Rightarrow> None
      | Some rp \<Rightarrow>
          (case (if clen > 0 then proc_comm clen line rp else Some []) of
             None \<Rightarrow> None
           | Some comm \<Rightarrow>
               let start = strtoull (skip_fields 19 (drop 2 rp))
               in if start = 0 then None else Some (comm, start)))"

definition fan_proc_stat :: "fan_env \<Rightarrow> int \<Rightarrow> nat \<Rightarrow> fan \<Rightarrow> (string \<times> u64) option \<times> fan" where
  "fan_proc_stat env pid clen f =
     ((case fe_stat_line env (fa_n f) pid of
         None \<Rightarrow> None
       | Some content \<Rightarrow> (case fgets_line 1024 content of None \<Rightarrow> None | Some line \<Rightarrow> parse_proc_stat clen line)),
      next_answer f)"

end
