(* ===== verification/Fan_Local.thy ===== *)
theory Fan_Local
  imports Fan_Channel
begin

text \<open>
  \<open>src/daemon/gfrguardd_local.h\<close> and \<open>.c\<close>: the channel of local processes. A process is known by
  its name, its number and its start time; blocking kills it.
\<close>

definition exe_whitelist :: "string list" where
  "exe_whitelist =
     [''/usr/sbin/smbd'', ''/usr/local/samba/sbin/smbd'', ''/usr/sbin/sshd'', ''/usr/sbin/vsftpd'',
      ''/usr/bin/rclone'', ''/usr/local/bin/rclone'', ''/usr/local/sbin/gfrguardd'',
      ''/usr/local/sbin/gfrguard-recover'', ''/usr/lib/systemd/systemd'', ''/lib/systemd/systemd'',
      ''/usr/sbin/init'', ''/sbin/init'']"

definition kthread_prefix :: "string list" where
  "kthread_prefix = [''kworker'', ''kthreadd'', ''jbd2'', ''rcu'', ''ksoftirqd'', ''ksmd'', ''khugepaged'']"

definition local_whitelist_match :: "string option \<Rightarrow> string option \<Rightarrow> bool" where
  "local_whitelist_match comm exe_path =
     (case exe_path of
        Some exe \<Rightarrow>
          if exe \<noteq> [] then list_ex (\<lambda>w. exe = w) exe_whitelist
          else (case comm of None \<Rightarrow> False | Some c \<Rightarrow> list_ex (\<lambda>k. strncmp_eq c k (length k)) kthread_prefix)
      | None \<Rightarrow> (case comm of None \<Rightarrow> False | Some c \<Rightarrow> list_ex (\<lambda>k. strncmp_eq c k (length k)) kthread_prefix))"

text \<open>\<open>readlink\<close> of \<open>/proc/<pid>/exe\<close> into 256 bytes; the empty string when it fails.\<close>

definition read_exe :: "fan_env \<Rightarrow> int \<Rightarrow> string" where
  "read_exe env pid = (case fe_exe env pid of Some p \<Rightarrow> take 255 p | None \<Rightarrow> [])"

definition local_ctx :: "string \<Rightarrow> string \<Rightarrow> u64 \<Rightarrow> fan_channel_ctx \<Rightarrow> fan_channel_ctx" where
  "local_ctx user ip start ctx =
     ctx\<lparr>cx_username := snprintf_s 64 user, cx_client_ip := snprintf_s 48 ip, cx_proc_start := start,
       cx_share_name := snprintf_s 64 ''local''\<rparr>"

definition process_id :: "int \<Rightarrow> u64 \<Rightarrow> string" where
  "process_id pid start = ''local:'' @ show_int pid @ '':'' @ show_nat (unat start)"

definition local_resolve ::
  "fan_env \<Rightarrow> fanotify_event \<Rightarrow> fan_channel_ctx \<Rightarrow> fan \<Rightarrow> fan_channel_ctx option \<times> fan" where
  "local_resolve env ev ctx f =
     (if ev_pid ev \<le> 0 then (Some (local_ctx ''local'' ''unknown'' (cx_proc_start ctx) ctx), f)
      else case fan_proc_stat env (ev_pid ev) 64 f of
        (None, f1) \<Rightarrow> (Some (local_ctx ''local'' ''unknown'' (cx_proc_start ctx) ctx), f1)
      | (Some (comm, start), f1) \<Rightarrow>
          if local_whitelist_match (Some comm) (Some (read_exe env (ev_pid ev))) then (None, f1)
          else (Some (local_ctx comm (process_id (ev_pid ev) start) start ctx), f1))"

definition SIGKILL :: int where "SIGKILL = 9"
definition SIGTERM :: int where "SIGTERM = 15"

definition send_kill :: "int \<Rightarrow> int \<Rightarrow> fan \<Rightarrow> fan" where
  "send_kill pid sig f = f\<lparr>fa_kills := fa_kills f @ [(pid, sig)]\<rparr>"

text \<open>The start time is compared when one is known.\<close>

definition local_kill :: "fan_env \<Rightarrow> fanotify_event \<Rightarrow> fan_channel_ctx \<Rightarrow> fan \<Rightarrow> fan" where
  "local_kill env ev ctx f =
     (if cx_proc_start ctx = 0 then send_kill (ev_pid ev) SIGKILL f
      else case fan_proc_stat env (ev_pid ev) 0 f of
        (None, f1) \<Rightarrow> f1
      | (Some (_, now_start), f1) \<Rightarrow>
          if now_start \<noteq> cx_proc_start ctx then f1 else send_kill (ev_pid ev) SIGKILL f1)"

definition local_ops :: "fan_env \<Rightarrow> fan_channel_ops" where
  "local_ops env =
     \<lparr>op_source = RGUARD_SOURCE_HOST, op_dir = ''local'', op_resolve = local_resolve env,
      op_deny = Some (local_kill env), op_block = Some (local_kill env)\<rparr>"

text \<open>One channel per monitored path of the policy; a failed set-up is logged.\<close>

definition module_init ::
  "fan_env \<Rightarrow> channel_kind \<Rightarrow> string \<Rightarrow> bool \<Rightarrow> string list \<Rightarrow> fan \<Rightarrow> fan" where
  "module_init env kind ready enabled paths f =
     (if \<not> enabled then f
      else
        fan_log LOG_INFO ready None ''{}''
          (fold (\<lambda>p f. let (rc, f1) = fanotify_channel_setup env (Some p) kind f
                       in if rc \<noteq> 0 then
                            fan_log LOG_ERROR ''CHANNEL_SETUP_FAILED'' None
                              (snprintf_s 320 (''{\"path\":\"'' @ take 256 p @ ''\"}'')) f1
                          else f1) paths f))"

definition local_module_init :: "fan_env \<Rightarrow> fan \<Rightarrow> fan" where
  "local_module_init env f =
     (let p = dm_policy (fa_dm f)
      in module_init env Local_channel ''LOCAL_CHANNEL_READY'' (pr_host (p_protection p)) (p_local_paths p) f)"

end
