(* ===== verification/Fan_Cloud.thy ===== *)
theory Fan_Cloud
  imports Fan_Local Rguard_Proc
begin

text \<open>
  \<open>src/daemon/gfrguardd_cloud.h\<close> and \<open>.c\<close>: the channel of the cloud synchronisation. An \<open>rclone\<close>
  process is known by the task its command line names; blocking saves and deletes the task with the
  helper program \<open>neo-croner\<close> and kills the process tree. What the reaper child kills two seconds
  later follows in the list of signals.
\<close>

subsection \<open>The task of a process\<close>

text \<open>
  The tokens of the command line, each ended by a NUL byte; the buffer holds 4095 bytes and is
  terminated behind them.
\<close>

function cmdline_tokens :: "string \<Rightarrow> string list" where
  "cmdline_tokens s =
     (if s = [] then [] else cstr_of s # cmdline_tokens (drop (length (cstr_of s) + 1) s))"
  by pat_completeness auto
termination by (relation "measure length") auto

declare cmdline_tokens.simps [simp del]

definition task_token :: "string \<Rightarrow> string option" where
  "task_token tok =
     (if CHR '':'' \<in> set tok then
        (let name = takeWhile (\<lambda>c. c \<noteq> CHR '':'') tok in
         if name \<noteq> [] \<and> hd tok \<noteq> CHR ''-'' \<and> hd tok \<noteq> CHR ''/'' \<and> \<not> strncmp_eq tok ''http'' 4 \<and>
            \<not> strncmp_eq tok ''https'' 5
         then Some name else None)
      else None)"

fun first_task :: "string list \<Rightarrow> string option" where
  "first_task [] = None"
| "first_task (t # ts) = (case task_token t of Some n \<Rightarrow> Some n | None \<Rightarrow> first_task ts)"

definition base_name :: "string \<Rightarrow> string" where
  "base_name s = (case strrchr s CHR ''/'' of Some p \<Rightarrow> drop 1 p | None \<Rightarrow> s)"

definition cloud_resolve_task :: "string option \<Rightarrow> nat \<Rightarrow> string option" where
  "cloud_resolve_task cmdline tn_len =
     (case cmdline of
        None \<Rightarrow> None
      | Some bytes \<Rightarrow>
          let buf = take 4095 bytes in
          if buf = [] then None
          else if base_name (cstr_of buf) \<noteq> ''rclone'' then None
          else map_option (take (tn_len - 1)) (first_task (cmdline_tokens buf)))"

definition cloud_resolve_user :: "string \<Rightarrow> string" where
  "cloud_resolve_user task = ''cloud''"

subsection \<open>The process tree\<close>

text \<open>\<open>strtok_r\<close>: the pieces between separators, empty ones skipped.\<close>

function strtok_all :: "char set \<Rightarrow> string \<Rightarrow> string list" where
  "strtok_all seps s =
     (case dropWhile (\<lambda>c. c \<in> seps) s of
        [] \<Rightarrow> []
      | c # cs \<Rightarrow>
          (c # takeWhile (\<lambda>c. c \<notin> seps) cs) # strtok_all seps (dropWhile (\<lambda>c. c \<notin> seps) cs))"
  by pat_completeness auto
termination
proof (relation "measure (length \<circ> snd)")
  fix seps :: "char set" and s :: string and c cs
  assume "dropWhile (\<lambda>c. c \<in> seps) s = c # cs"
  then have "length (c # cs) \<le> length s" by (metis length_dropWhile_le)
  moreover have "length (dropWhile (\<lambda>c. c \<notin> seps) cs) \<le> length cs" by (rule length_dropWhile_le)
  ultimately show "((seps, dropWhile (\<lambda>c. c \<notin> seps) cs), seps, s) \<in> measure (length \<circ> snd)" by simp
qed simp

declare strtok_all.simps [simp del]

text \<open>
  \<open>children\<close> is what the file of a process shows. A call adds a process before it descends, so
  that \<open>cap + 1\<close> levels are enough, in a cyclic picture too; \<open>None\<close> is running out of levels.
\<close>

fun collect_children ::
  "nat \<Rightarrow> (int \<Rightarrow> string option) \<Rightarrow> nat \<Rightarrow> int \<Rightarrow> int list \<Rightarrow> (bool \<times> int list) option" where
  "collect_children 0 children cap root_pid pids = None"
| "collect_children (Suc k) children cap root_pid pids =
     (if length pids \<ge> cap then Some (True, pids)
      else case (case children root_pid of None \<Rightarrow> None | Some text \<Rightarrow> fgets_line 4096 text) of
        None \<Rightarrow> Some (False, pids)
      | Some line \<Rightarrow>
          fold (\<lambda>tok acc. case acc of
                  None \<Rightarrow> None
                | Some (over, ps) \<Rightarrow>
                    if length ps \<ge> cap then Some (True, ps)
                    else
                      let child = atoi tok in
                      if child > 1 then
                        map_option (\<lambda>(o2, ps2). (over \<or> o2, ps2))
                          (collect_children k children cap child (ps @ [child]))
                      else Some (over, ps))
            (strtok_all {CHR '' '', CHR 0x09, newline} line) (Some (False, pids)))"

definition TREE_CAP :: nat where "TREE_CAP = 256"

text \<open>\<open>cl_alive\<close>: whether a process exists at a moment; \<open>cl_poll\<close> and the rest: the helper programs.\<close>

datatype poll_step = Poll_intr | Poll_error | Poll_quiet | Poll_data string | Poll_eof | Poll_again | Poll_read_error

record croner_run =
  cr_pipe :: bool
  cr_fork :: bool
  cr_poll :: "nat \<Rightarrow> poll_step"
  cr_ends :: bool
  cr_delete_fork :: bool
  cr_delete_wait :: "nat \<Rightarrow> wait_answer"
  cr_delete_ok :: bool

record cloud_env =
  cl_children :: "nat \<Rightarrow> int \<Rightarrow> string option"
  cl_alive :: "nat \<Rightarrow> int \<Rightarrow> bool"
  cl_croner :: "nat \<Rightarrow> croner_run"

definition proc_alive :: "cloud_env \<Rightarrow> nat \<Rightarrow> int \<Rightarrow> bool" where
  "proc_alive cl n pid \<longleftrightarrow> pid > 1 \<and> cl_alive cl n pid"

definition kill_all :: "(int \<Rightarrow> bool) \<Rightarrow> int \<Rightarrow> int list \<Rightarrow> fan \<Rightarrow> fan" where
  "kill_all alive sig pids = fold (\<lambda>p f. if alive p then send_kill p sig f else f) pids"

text \<open>The reaper child: the survivors, then the root.\<close>

definition reaper :: "cloud_env \<Rightarrow> nat \<Rightarrow> int list \<Rightarrow> int \<Rightarrow> fan \<Rightarrow> fan" where
  "reaper cl n pids pid f =
     (let f1 = kill_all (proc_alive cl n) SIGKILL (rev pids) f in
      if proc_alive cl (n + 1) pid then
        (let f2 = send_kill pid SIGTERM f1
         in if proc_alive cl (n + 2) pid then send_kill pid SIGKILL f2 else f2)
      else f1)"

definition tree_log :: "int \<Rightarrow> nat \<Rightarrow> fan \<Rightarrow> fan" where
  "tree_log pid n =
     fan_log LOG_WARN ''PROC_TREE_TRUNCATED'' None
       (snprintf_s 96 (''{\"root\":'' @ show_int pid @ '',\"collected\":'' @ show_nat n @ '',\"cap\":256}''))"

definition cloud_kill_process_tree :: "fan_env \<Rightarrow> cloud_env \<Rightarrow> int \<Rightarrow> fan \<Rightarrow> fan" where
  "cloud_kill_process_tree env cl pid f0 =
     (let n = fa_n f0; f = f0\<lparr>fa_n := n + 5\<rparr> in
      if \<not> proc_alive cl n pid then f
      else case collect_children (TREE_CAP + 1) (cl_children cl n) TREE_CAP pid [] of
        None \<Rightarrow> f
      | Some (over, pids) \<Rightarrow>
          let f1 = (if over then tree_log pid (length pids) f else f);
              f2 = kill_all (proc_alive cl (n + 1)) SIGTERM (rev pids) f1
          in if \<not> fe_fork env n then send_kill pid SIGKILL (send_kill pid SIGTERM f2)
             else reaper cl (n + 2) pids pid f2)"

subsection \<open>The helper program\<close>

definition task_char :: "char \<Rightarrow> bool" where
  "task_char c \<longleftrightarrow>
     (let d = (of_char c :: nat)
      in 48 \<le> d \<and> d \<le> 57 \<or> 65 \<le> d \<and> d \<le> 90 \<or> 97 \<le> d \<and> d \<le> 122 \<or> c \<in> {CHR ''_'', CHR ''.'', CHR ''-''})"

definition valid_task_name :: "string \<Rightarrow> bool" where
  "valid_task_name s \<longleftrightarrow> s \<noteq> [] \<and> list_all task_char s"

definition NEO_CRONER_TIMEOUT_MS :: int where "NEO_CRONER_TIMEOUT_MS = 5000"

text \<open>
  The read loop: the output read so far, or the failure. Data resets the idle time before it is
  counted on; a full buffer ends the loop.
\<close>

partial_function (option) croner_read ::
  "(nat \<Rightarrow> poll_step) \<Rightarrow> nat \<Rightarrow> string \<Rightarrow> int \<Rightarrow> (bool \<times> string) option" where
  "croner_read ans n buf idle =
     (case ans n of
        Poll_intr \<Rightarrow> croner_read ans (n + 1) buf idle
      | Poll_error \<Rightarrow> Some (False, buf)
      | Poll_read_error \<Rightarrow> Some (False, buf)
      | Poll_eof \<Rightarrow> Some (True, buf)
      | Poll_data d \<Rightarrow>
          (let buf' = buf @ take (8191 - length buf) d in
           if take (8191 - length buf) d = [] then Some (True, buf)
           else if length buf' \<ge> 8191 then Some (True, buf')
           else croner_read ans (n + 1) buf' 100)
      | _ \<Rightarrow>
          if idle + 100 \<ge> NEO_CRONER_TIMEOUT_MS then Some (False, buf)
          else croner_read ans (n + 1) buf (idle + 100))"

definition skip_blanks :: "string \<Rightarrow> string" where
  "skip_blanks = dropWhile (\<lambda>c. c = CHR '' '' \<or> c = CHR 0x09)"

text \<open>The last line of each kind counts.\<close>

definition croner_line :: "nat \<Rightarrow> nat \<Rightarrow> string \<Rightarrow> string \<times> string \<Rightarrow> string \<times> string" where
  "croner_line elen clen line out =
     (case out of (expression, command) \<Rightarrow>
        if strncmp_eq line ''Expression:'' 11 then (snprintf_s elen (skip_blanks (drop 11 line)), command)
        else if strncmp_eq line ''Command:'' 8 then (expression, snprintf_s clen (skip_blanks (drop 8 line)))
        else (expression, command))"

text \<open>The wait behind the loop has no limit: \<open>None\<close> when the child never ends.\<close>

definition neo_croner_query ::
  "croner_run \<Rightarrow> string \<Rightarrow> nat \<Rightarrow> nat \<Rightarrow> (int \<times> string \<times> string) option" where
  "neo_croner_query cr task elen clen =
     (if \<not> valid_task_name task then Some (-1, [], [])
      else if \<not> cr_pipe cr then Some (-1, [], [])
      else if \<not> cr_fork cr then Some (-1, [], [])
      else case croner_read (cr_poll cr) 0 [] 0 of
        None \<Rightarrow> None
      | Some (ok, buf) \<Rightarrow>
          if \<not> ok then Some (-1, [], [])
          else if \<not> cr_ends cr then None
          else
            let (expression, command) =
                  fold (croner_line elen clen) (strtok_all {newline} (cstr_of buf)) ([], [])
            in Some (if expression \<noteq> [] \<and> command \<noteq> [] then 0 else -1, expression, command))"

definition neo_croner_delete :: "croner_run \<Rightarrow> string \<Rightarrow> int option" where
  "neo_croner_delete cr task =
     (if \<not> valid_task_name task then Some (-1)
      else if \<not> cr_delete_fork cr then Some (-1)
      else case rguard_wait_timeout (cr_delete_wait cr) NEO_CRONER_TIMEOUT_MS of
        None \<Rightarrow> None
      | Some r \<Rightarrow> Some (if wr_rc r \<noteq> 0 then -1 else if cr_delete_ok cr then 0 else -1))"

subsection \<open>Blocking a task\<close>

definition or_unavailable :: "string \<Rightarrow> string" where
  "or_unavailable s = (if s \<noteq> [] then s else ''(unavailable)'')"

definition show_bool :: "bool \<Rightarrow> string" where
  "show_bool b = (if b then ''true'' else ''false'')"

definition block_detail :: "string \<Rightarrow> string \<Rightarrow> string \<Rightarrow> bool \<Rightarrow> string option \<Rightarrow> bool \<Rightarrow> string" where
  "block_detail task expression command queried event_id saved =
     snprintf_s 4096 (''{\"task\":\"'' @ task @ ''\",\"expression\":\"'' @
       rguard_json_escape 512 (or_unavailable expression) @ ''\",\"command\":\"'' @
       take 256 (rguard_json_escape 600 (or_unavailable command)) @ ''\",\"queried\":'' @ show_bool queried @
       '',\"event_id\":\"'' @ (case event_id of Some e \<Rightarrow> e | None \<Rightarrow> []) @ ''\",\"saved_to_db\":'' @
       show_bool saved @ ''}'')"

text \<open>Deleting the task and killing its processes.\<close>

definition cloud_finish :: "fan_env \<Rightarrow> cloud_env \<Rightarrow> croner_run \<Rightarrow> string \<Rightarrow> int \<Rightarrow> fan \<Rightarrow> fan" where
  "cloud_finish env cl cr task pid f =
     (case neo_croner_delete cr task of
        None \<Rightarrow> f\<lparr>fa_stuck := True\<rparr>
      | Some rc \<Rightarrow>
          cloud_kill_process_tree env cl pid
            (if rc = 0 then fan_log LOG_INFO ''CLOUD_TASK_DELETED'' (Some task) ''{}'' f
             else fan_log LOG_WARN ''CLOUD_TASK_DELETE_FAILED'' (Some task)
                    ''{\"reason\":\"neo-croner unavailable or delete failed\"}'' f))"

definition save_task :: "string option \<Rightarrow> string \<Rightarrow> string \<Rightarrow> string \<Rightarrow> string \<Rightarrow> fan \<Rightarrow> fan" where
  "save_task event_id task expression command ts f =
     (if fa_ctx f then
        on_dm (on_world (\<lambda>w. w\<lparr>w_db := snd (db_save_cloud_task_config (w_db w)
          (case event_id of Some e \<Rightarrow> e | None \<Rightarrow> []) task expression command ts)\<rparr>)) f
      else f)"

definition cloud_block_task ::
  "fan_env \<Rightarrow> cloud_env \<Rightarrow> string \<Rightarrow> int \<Rightarrow> string option \<Rightarrow> fan \<Rightarrow> fan" where
  "cloud_block_task env cl task pid event_id f0 =
     (let cr = cl_croner cl (fa_n f0); f = next_answer f0; (ts, d) = stamp (fa_dm f); f1 = f\<lparr>fa_dm := d\<rparr> in
      case neo_croner_query cr task 256 4096 of
        None \<Rightarrow> f1\<lparr>fa_stuck := True\<rparr>
      | Some (rc, expression, command) \<Rightarrow>
          cloud_finish env cl cr task pid
            (fan_log LOG_WARN ''CLOUD_BLOCK_EXECUTED'' (Some task)
               (block_detail task expression command (rc = 0) event_id (fa_ctx f1))
               (save_task event_id task expression command ts f1)))"

subsection \<open>The channel\<close>

definition rclone_temporary :: "string \<Rightarrow> bool" where
  "rclone_temporary path \<longleftrightarrow>
     strstr (base_name path) ''.partial~'' \<noteq> None \<or> strstr (base_name path) ''.rclone-tmp'' \<noteq> None"

definition cloud_resolve ::
  "fan_env \<Rightarrow> fanotify_event \<Rightarrow> fan_channel_ctx \<Rightarrow> fan \<Rightarrow> fan_channel_ctx option \<times> fan" where
  "cloud_resolve env ev ctx f =
     (case cloud_resolve_task (fe_cmdline env (ev_pid ev)) 128 of
        None \<Rightarrow> (None, f)
      | Some task \<Rightarrow>
          if rclone_temporary (ev_path ev) then (None, f)
          else (Some (ctx\<lparr>cx_username := take 63 (cloud_resolve_user task), cx_client_ip := take 47 task,
                        cx_share_name := take 63 task\<rparr>), f))"

definition cloud_block :: "fan_env \<Rightarrow> cloud_env \<Rightarrow> fanotify_event \<Rightarrow> fan_channel_ctx \<Rightarrow> fan \<Rightarrow> fan" where
  "cloud_block env cl ev ctx f =
     (if fa_ctx f then
        (let (r, d) = find_session (cx_skey ctx) (fa_dm f);
             eid = (case r of Some i \<Rightarrow> if s_event_id (the_session i d) \<noteq> [] then Some (s_event_id (the_session i d)) else None
                    | None \<Rightarrow> None)
         in cloud_block_task env cl (cx_share_name ctx) (ev_pid ev) eid (f\<lparr>fa_dm := d\<rparr>))
      else cloud_block_task env cl (cx_share_name ctx) (ev_pid ev) None f)"

definition cloud_ops :: "fan_env \<Rightarrow> cloud_env \<Rightarrow> fan_channel_ops" where
  "cloud_ops env cl =
     \<lparr>op_source = RGUARD_SOURCE_CLOUD_SYNC, op_dir = ''cloud'', op_resolve = cloud_resolve env,
      op_deny = None, op_block = Some (cloud_block env cl)\<rparr>"

definition cloud_module_init :: "fan_env \<Rightarrow> fan \<Rightarrow> fan" where
  "cloud_module_init env f =
     (let p = dm_policy (fa_dm f)
      in module_init env Cloud_channel ''CLOUD_CHANNEL_READY'' (pr_cloud_sync (p_protection p)) (p_cloud_paths p) f)"

end
