(* ===== verification/Fan_Ftp.thy ===== *)
theory Fan_Ftp
  imports Fan_Local
begin

text \<open>
  \<open>src/daemon/gfrguardd_ftp.h\<close> and \<open>.c\<close>: the channel of the FTP server. A server process is known
  by the title it gives itself, else by the peer of its socket and its user. \<open>inet_ntop\<close> for the
  long addresses is the C library's: a parameter. Reads of \<open>/proc\<close> files deliver them whole.
\<close>

subsection \<open>The title of a server process\<close>

text \<open>The zero bytes between the arguments become blanks; the last byte read is kept.\<close>

definition collapse_zeros :: "string \<Rightarrow> string" where
  "collapse_zeros buf = map (\<lambda>c. if c = nul then CHR '' '' else c) (butlast buf) @ [last buf]"

definition split_title :: "nat \<Rightarrow> nat \<Rightarrow> string \<Rightarrow> (string \<times> string) option" where
  "split_title ulen iplen buf =
     (if \<not> strncmp_eq buf ''vsftpd: '' 8 then None
      else
        let p = drop 8 buf in
        case strchr p CHR ''/'' of
          None \<Rightarrow> None
        | Some slash \<Rightarrow>
            let ip = take (length p - length slash) p;
                user_start = drop 1 slash;
                user = (case strstr user_start '': '' of
                          Some e \<Rightarrow> take (length user_start - length e) user_start
                        | None \<Rightarrow> user_start)
            in if ip = [] \<or> length ip \<ge> iplen then None
               else if user = [] \<or> length user \<ge> ulen then None
               else Some (user, ip))"

definition cmdline_log :: "int \<Rightarrow> nat \<Rightarrow> string \<Rightarrow> fan \<Rightarrow> fan" where
  "cmdline_log pid n buf =
     fan_log LOG_DEBUG ''FTP_CMDLINE_READ'' None
       (snprintf_s 580 (''{\"pid\":'' @ show_int pid @ '',\"cmdline_len\":'' @ show_nat n @ '',\"head\":\"'' @
          take 120 (rguard_json_escape 256 buf) @ ''\"}''))"

definition ftp_parse_cmdline :: "fan_env \<Rightarrow> int \<Rightarrow> nat \<Rightarrow> nat \<Rightarrow> fan \<Rightarrow> (string \<times> string) option \<times> fan" where
  "ftp_parse_cmdline env pid ulen iplen f =
     (case fe_cmdline env pid of
        None \<Rightarrow> (None, f)
      | Some bytes \<Rightarrow>
          let got = take 511 bytes in
          if got = [] then (None, f)
          else
            let buf = cstr_of (collapse_zeros got)
            in (split_title ulen iplen buf, cmdline_log pid (length got) buf f))"

subsection \<open>The peer of a socket\<close>

text \<open>\<open>%s\<close> with a width: white space is skipped, then at most \<open>n\<close> other characters are taken.\<close>

definition scan_word :: "nat \<Rightarrow> string \<Rightarrow> (string \<times> string) option" where
  "scan_word n s =
     (let t = dropWhile is_space s; w = take n (takeWhile (\<lambda>c. \<not> is_space c) t)
      in if w = [] then None else Some (w, drop (length w) t))"

fun skip_words :: "nat \<Rightarrow> string \<Rightarrow> string option" where
  "skip_words 0 s = Some s"
| "skip_words (Suc n) s =
     (case scan_word (length s) s of None \<Rightarrow> None | Some (_, rest) \<Rightarrow> skip_words n rest)"

text \<open>\<open>%d\<close> and \<open>%lu\<close>: white space, a sign, digits; the value is reduced modulo \<open>2^64\<close> or saturates.\<close>

definition scan_sign :: "string \<Rightarrow> bool \<times> string" where
  "scan_sign s =
     (let t = dropWhile is_space s in
      if t \<noteq> [] \<and> hd t = CHR ''-'' then (True, tl t)
      else if t \<noteq> [] \<and> hd t = CHR ''+'' then (False, tl t) else (False, t))"

definition scan_number :: "string \<Rightarrow> (u64 \<times> string) option" where
  "scan_number s =
     (let (neg, t) = scan_sign s in
      if t = [] \<or> digit_val (hd t) = None then None
      else
        let (v, rest) = scan_digits 10 0 t
        in Some (if v \<ge> 2 ^ 64 then 0xFFFFFFFFFFFFFFFF else if neg then - of_nat v else of_nat v, rest))"

text \<open>The format \<open>%*d: %*s %79s %*s %*s %*s %*s %*s %*s %lu\<close>: the remote end and the inode.\<close>

definition scan_tcp_line :: "string \<Rightarrow> (string \<times> u64) option" where
  "scan_tcp_line line =
     (case scan_number line of
        None \<Rightarrow> None
      | Some (_, r0) \<Rightarrow>
          if r0 = [] \<or> hd r0 \<noteq> CHR '':'' then None
          else case skip_words 1 (tl r0) of
            None \<Rightarrow> None
          | Some r1 \<Rightarrow>
              (case scan_word 79 r1 of
                 None \<Rightarrow> None
               | Some (rem, r2) \<Rightarrow>
                   (case skip_words 6 r2 of
                      None \<Rightarrow> None
                    | Some r3 \<Rightarrow> map_option (\<lambda>(ino, _). (rem, ino)) (scan_number r3))))"

text \<open>\<open>%x\<close> on a field: a sign and a prefix are accepted; the value is cut to 32 bits.\<close>

definition scan_hex :: "string \<Rightarrow> nat option" where
  "scan_hex s =
     (let (neg, t0) = scan_sign s;
          t = (if (take 2 t0 = ''0x'' \<or> take 2 t0 = ''0X'') \<and> drop 2 t0 \<noteq> [] \<and> xdigit_val (hd (drop 2 t0)) \<noteq> None
               then drop 2 t0 else t0)
      in if t = [] \<or> xdigit_val (hd t) = None then None
         else
           let v = min (fst (scan_digits 16 0 t)) (2 ^ 64 - 1)
           in Some (if neg then (2 ^ 64 - v) mod 2 ^ 32 else v mod 2 ^ 32))"

definition word_bytes :: "nat \<Rightarrow> nat list" where
  "word_bytes a = [a mod 256, a div 256 mod 256, a div 65536 mod 256, a div 16777216 mod 256]"

definition dotted :: "nat list \<Rightarrow> string" where
  "dotted bs =
     (case bs of
        [a, b, c, d] \<Rightarrow> show_nat a @ ''.'' @ show_nat b @ ''.'' @ show_nat c @ ''.'' @ show_nat d
      | _ \<Rightarrow> [])"

fun hex_words :: "nat \<Rightarrow> string \<Rightarrow> nat list option" where
  "hex_words 0 s = Some []"
| "hex_words (Suc n) s =
     (case scan_hex (take 8 s) of
        None \<Rightarrow> None
      | Some w \<Rightarrow> map_option (\<lambda>ws. word_bytes w @ ws) (hex_words n (drop 8 s)))"

text \<open>\<open>ntop6\<close> is the text of sixteen bytes; \<open>inet_ntop\<close> fails if it does not fit.\<close>

definition remote_address ::
  "(nat list \<Rightarrow> string) \<Rightarrow> nat \<Rightarrow> string \<Rightarrow> string option" where
  "remote_address ntop6 iplen rem =
     (case strchr rem CHR '':'' of
        None \<Rightarrow> None
      | Some colon \<Rightarrow>
          let hlen = length rem - length colon in
          if hlen = 8 then map_option (\<lambda>a. snprintf_s iplen (dotted (word_bytes a))) (scan_hex rem)
          else if hlen = 32 then
            (case hex_words 4 rem of
               None \<Rightarrow> None
             | Some bs \<Rightarrow> if length (cstr_of (ntop6 bs)) < iplen then Some (cstr_of (ntop6 bs)) else None)
          else None)"

text \<open>The lines behind the header; the first line with one of the inodes decides.\<close>

fun tcp_lines :: "(nat list \<Rightarrow> string) \<Rightarrow> u64 list \<Rightarrow> nat \<Rightarrow> string list \<Rightarrow> string option" where
  "tcp_lines ntop6 inodes iplen [] = None"
| "tcp_lines ntop6 inodes iplen (l # ls) =
     (case scan_tcp_line (take 383 l) of
        None \<Rightarrow> tcp_lines ntop6 inodes iplen ls
      | Some (rem, ino) \<Rightarrow>
          if ino > 0 \<and> ino \<in> set inodes then remote_address ntop6 iplen rem
          else tcp_lines ntop6 inodes iplen ls)"

definition ftp_tcp_find_remote ::
  "(nat list \<Rightarrow> string) \<Rightarrow> string \<Rightarrow> u64 list \<Rightarrow> nat \<Rightarrow> string option" where
  "ftp_tcp_find_remote ntop6 text inodes iplen =
     (case strchr text newline of
        None \<Rightarrow> None
      | Some p \<Rightarrow> tcp_lines ntop6 inodes iplen (lines_of (drop 1 p)))"

text \<open>What \<open>/proc\<close> shows of the sockets, the tables, the status of a process, and the user names.\<close>

record ftp_env =
  ft_links :: "int \<Rightarrow> string list option"
  ft_net :: "int option \<Rightarrow> bool \<Rightarrow> string option"
  ft_status :: "int \<Rightarrow> string option"
  ft_user :: "nat \<Rightarrow> string option"
  ft_ntop6 :: "nat list \<Rightarrow> string"

definition socket_inode :: "string \<Rightarrow> u64 option" where
  "socket_inode link =
     (case strstr (take 63 link) ''socket:['' of
        None \<Rightarrow> None
      | Some s \<Rightarrow> let ino = strtoull (drop 8 s) in if ino > 0 then Some ino else None)"

definition socket_inodes :: "string list \<Rightarrow> u64 list" where
  "socket_inodes links = take 32 (List.map_filter socket_inode links)"

text \<open>The short addresses, then the long ones; in the table of the process, then in our own.\<close>

definition ftp_tables :: "ftp_env \<Rightarrow> int \<Rightarrow> string list" where
  "ftp_tables ft pid =
     List.map_filter (map_option cstr_of) [ft_net ft (Some pid) False, ft_net ft None False, ft_net ft (Some pid) True, ft_net ft None True]"

definition ftp_resolve_ip_by_fd :: "ftp_env \<Rightarrow> int \<Rightarrow> nat \<Rightarrow> int \<times> string" where
  "ftp_resolve_ip_by_fd ft pid iplen =
     (case ft_links ft pid of
        None \<Rightarrow> (-1, snprintf_s iplen ''0.0.0.0'')
      | Some links \<Rightarrow>
          let inodes = socket_inodes links in
          if inodes = [] then (-1, snprintf_s iplen ''0.0.0.0'')
          else case List.map_filter (\<lambda>t. ftp_tcp_find_remote (ft_ntop6 ft) t inodes iplen) (ftp_tables ft pid) of
            [] \<Rightarrow> (-1, snprintf_s iplen ''0.0.0.0'')
          | ip # _ \<Rightarrow> (0, ip))"

text \<open>The user id of the status; \<open>%u\<close> after \<open>Uid:\<close>, the last value of the type if it is missing.\<close>

definition status_uid :: "string \<Rightarrow> nat option" where
  "status_uid content =
     (case filter (\<lambda>l. strncmp_eq l ''Uid:'' 4) (lines_of (cstr_of (take 511 content))) of
        [] \<Rightarrow> None
      | l # _ \<Rightarrow>
          (case scan_number (drop 4 l) of
             None \<Rightarrow> None
           | Some (v, _) \<Rightarrow> let u = unat v mod 2 ^ 32 in if u = 2 ^ 32 - 1 then None else Some u))"

definition ftp_resolve_uid :: "ftp_env \<Rightarrow> int \<Rightarrow> nat \<Rightarrow> int \<times> string option" where
  "ftp_resolve_uid ft pid ulen =
     (case ft_status ft pid of
        None \<Rightarrow> (-1, None)
      | Some content \<Rightarrow>
          if content = [] then (-1, None)
          else case status_uid content of
            None \<Rightarrow> (-1, None)
          | Some uid \<Rightarrow> (0, Some (snprintf_s ulen (case ft_user ft uid of Some n \<Rightarrow> cstr_of n | None \<Rightarrow> ''ftp''))))"

definition ftp_resolve_session ::
  "fan_env \<Rightarrow> ftp_env \<Rightarrow> int \<Rightarrow> nat \<Rightarrow> nat \<Rightarrow> fan \<Rightarrow> (string \<times> string) option \<times> fan" where
  "ftp_resolve_session env ft pid ulen iplen f =
     (case ftp_parse_cmdline env pid ulen iplen f of
        (Some r, f1) \<Rightarrow> (Some r, f1)
      | (None, f1) \<Rightarrow>
          (case (ftp_resolve_ip_by_fd ft pid iplen, ftp_resolve_uid ft pid ulen) of
             ((iprc, ip), (urc, Some user)) \<Rightarrow> (if iprc = 0 \<and> urc = 0 then Some (user, ip) else None, f1)
           | _ \<Rightarrow> (None, f1)))"

subsection \<open>The channel\<close>

text \<open>The signal, and the reaper's after half a second; \<open>alive\<close> is the answer it then gets.\<close>

definition ftp_block_execute :: "fan_env \<Rightarrow> (nat \<Rightarrow> int \<Rightarrow> bool) \<Rightarrow> int \<Rightarrow> u64 \<Rightarrow> fan \<Rightarrow> fan" where
  "ftp_block_execute env alive pid expected_start f0 =
     (case fan_proc_stat env pid 64 f0 of
        (None, f) \<Rightarrow> f
      | (Some (comm, now_start), f) \<Rightarrow>
          if \<not> strncmp_eq comm ''vsftpd'' 6 then f
          else if expected_start \<noteq> 0 \<and> now_start \<noteq> expected_start then f
          else
            let f1 = next_answer (send_kill pid SIGTERM f)
            in if \<not> fe_fork env (fa_n f) then send_kill pid SIGKILL f1
               else if alive (fa_n f) pid then send_kill pid SIGKILL f1 else f1)"

definition ftp_resolve ::
  "fan_env \<Rightarrow> ftp_env \<Rightarrow> fanotify_event \<Rightarrow> fan_channel_ctx \<Rightarrow> fan \<Rightarrow> fan_channel_ctx option \<times> fan" where
  "ftp_resolve env ft ev ctx f0 =
     (let (r, f1) = (if ev_pid ev \<le> 0 then (None, f0) else ftp_resolve_session env ft (ev_pid ev) 64 48 f0);
          (user, ip) = (case r of Some ui \<Rightarrow> ui | None \<Rightarrow> (''ftp'', ''unknown''));
          (st, f2) = fan_proc_stat env (ev_pid ev) 0 f1
      in (Some (ctx\<lparr>cx_username := user, cx_client_ip := ip,
                  cx_proc_start := (case st of Some (_, start) \<Rightarrow> start | None \<Rightarrow> cx_proc_start ctx),
                  cx_share_name := snprintf_s 64 ''ftp''\<rparr>), f2))"

definition ftp_block :: "fan_env \<Rightarrow> (nat \<Rightarrow> int \<Rightarrow> bool) \<Rightarrow> fanotify_event \<Rightarrow> fan_channel_ctx \<Rightarrow> fan \<Rightarrow> fan" where
  "ftp_block env alive ev ctx f = ftp_block_execute env alive (ev_pid ev) (cx_proc_start ctx) f"

definition ftp_ops :: "fan_env \<Rightarrow> ftp_env \<Rightarrow> (nat \<Rightarrow> int \<Rightarrow> bool) \<Rightarrow> fan_channel_ops" where
  "ftp_ops env ft alive =
     \<lparr>op_source = RGUARD_SOURCE_FTP, op_dir = ''ftp'', op_resolve = ftp_resolve env ft, op_deny = None,
      op_block = Some (ftp_block env alive)\<rparr>"

definition ftp_module_init :: "fan_env \<Rightarrow> fan \<Rightarrow> fan" where
  "ftp_module_init env f =
     (let p = dm_policy (fa_dm f)
      in module_init env Ftp_channel ''FTP_CHANNEL_READY'' (pr_ftp (p_protection p)) (p_ftp_paths p) f)"

end
