(* ===== verification/Fan_Threads.thy ===== *)
theory Fan_Threads
  imports Fan_Cloud Fan_Ftp
begin

text \<open>
  The three channels behind one handler (\<open>fan_channel_dispatch\<close>), and the two threads that work on
  the shared state: the permission thread answers open requests and sends messages, the main
  thread takes them and handles notifications. A step is one event or one message; the gate and
  the logger are behind locks, the queue is the kernel's.
\<close>

subsection \<open>The handler\<close>

text \<open>The answers of the system, for the common part and for each channel.\<close>

record fan_os =
  fo_env :: fan_env
  fo_cloud :: cloud_env
  fo_ftp :: ftp_env
  fo_alive :: "nat \<Rightarrow> int \<Rightarrow> bool"

definition channel_ops :: "fan_os \<Rightarrow> channel_kind \<Rightarrow> fan_channel_ops" where
  "channel_ops os kind =
     (case kind of
        Ftp_channel \<Rightarrow> ftp_ops (fo_env os) (fo_ftp os) (fo_alive os)
      | Cloud_channel \<Rightarrow> cloud_ops (fo_env os) (fo_cloud os)
      | Local_channel \<Rightarrow> local_ops (fo_env os))"

definition fan_channel_dispatch :: "fan_os \<Rightarrow> fan_handler" where
  "fan_channel_dispatch os kind ev f = fan_channel_handle (fo_env os) (channel_ops os kind) ev f"

definition fanotify_poll :: "fan_os \<Rightarrow> (nat \<times> fid_meta list) list \<Rightarrow> fan \<Rightarrow> nat \<times> fan" where
  "fanotify_poll os = fanotify_drain_notify (fo_env os) (fan_channel_dispatch os)"

definition on_perm_event :: "fan_os \<Rightarrow> perm_meta \<Rightarrow> fan \<Rightarrow> fan" where
  "on_perm_event os m f = snd (handle_perm (fo_env os) (fan_channel_dispatch os) m f)"

definition on_queue_ready :: "fan_os \<Rightarrow> fan \<Rightarrow> fan" where
  "on_queue_ready os f = snd (fanotify_process_queued (fo_env os) f)"

definition on_fid_event :: "fan_os \<Rightarrow> fid_meta \<Rightarrow> fan \<Rightarrow> fan" where
  "on_fid_event os m f = snd (process_fid_event (fo_env os) (fan_channel_dispatch os) m f)"

subsection \<open>Interleavings\<close>

text \<open>The label holds the messages a step sends and those it takes.\<close>

type_synonym traffic = "event_msg list \<times> event_msg list"

definition sent_between :: "fan \<Rightarrow> fan \<Rightarrow> event_msg list" where
  "sent_between f g = drop (length (fa_queue f)) (fa_queue g)"

definition taken_between :: "fan \<Rightarrow> fan \<Rightarrow> event_msg list" where
  "taken_between f g = take (length (fa_queue f) - length (fa_queue g)) (fa_queue f)"

inductive thread_step :: "fan_os \<Rightarrow> fan \<Rightarrow> traffic \<Rightarrow> fan \<Rightarrow> bool" for os where
  open_event: "fa_thread f \<Longrightarrow> g = on_perm_event os m f \<Longrightarrow> thread_step os f (sent_between f g, []) g"
| queue_ready: "g = on_queue_ready os f \<Longrightarrow> thread_step os f ([], taken_between f g) g"
| notification: "g = on_fid_event os m f \<Longrightarrow> thread_step os f ([], []) g"

inductive thread_run :: "fan_os \<Rightarrow> fan \<Rightarrow> traffic \<Rightarrow> fan \<Rightarrow> bool" for os where
  run_refl: "thread_run os f ([], []) f"
| run_step: "thread_run os f (s, t) g \<Longrightarrow> thread_step os g (s', t') k \<Longrightarrow> thread_run os f (s @ s', t @ t') k"

inductive_cases thread_stepE: "thread_step os f l g"

end
