(* ===== verification/Fan_Props.thy ===== *)
theory Fan_Props
  imports Fan_Threads
begin

text \<open>
  What the operations of the channels leave alone, the contract every channel keeps towards the
  common handler (a locale, interpreted for the three channels), and what the handler does under
  that contract.
\<close>

subsection \<open>Frames\<close>

text \<open>The queue, the answers, the channels, the files and the policy.\<close>

definition same_core :: "fan \<Rightarrow> fan \<Rightarrow> bool" where
  "same_core f g \<longleftrightarrow>
     fa_queue g = fa_queue f \<and> fa_responses g = fa_responses f \<and> fa_perm g = fa_perm f \<and>
     fa_pipe g = fa_pipe f \<and> fa_channels g = fa_channels f \<and> fa_ctx g = fa_ctx f \<and>
     w_files (dm_world (fa_dm g)) = w_files (dm_world (fa_dm f)) \<and>
     dm_policy (fa_dm g) = dm_policy (fa_dm f)"

lemma same_core_refl [simp]: "same_core f f"
  by (simp add: same_core_def)

lemma same_core_trans [trans]: "same_core f g \<Longrightarrow> same_core g h \<Longrightarrow> same_core f h"
  by (simp add: same_core_def)

lemma same_core_next [simp]: "same_core f (next_answer g) \<longleftrightarrow> same_core f g"
  by (simp add: same_core_def next_answer_def)

lemma same_core_log [simp]: "same_core f (fan_log lv ev sk det g) \<longleftrightarrow> same_core f g"
  by (simp add: same_core_def fan_log_def on_dm_def log_d_def on_world_def write_log_def)

lemma same_core_kill [simp]: "same_core f (send_kill p s g) \<longleftrightarrow> same_core f g"
  by (simp add: same_core_def send_kill_def)

lemma same_core_clock [simp]: "same_core f (on_dm (on_world tick_clock) g) \<longleftrightarrow> same_core f g"
  by (simp add: same_core_def on_dm_def on_world_def tick_clock_def)

lemma same_core_gate [simp]: "same_core f (g\<lparr>fa_gate := x\<rparr>) \<longleftrightarrow> same_core f g"
  by (simp add: same_core_def)

lemma same_core_stuck [simp]: "same_core f (g\<lparr>fa_stuck := x\<rparr>) \<longleftrightarrow> same_core f g"
  by (simp add: same_core_def)

lemma same_core_n [simp]: "same_core f (g\<lparr>fa_n := x\<rparr>) \<longleftrightarrow> same_core f g"
  by (simp add: same_core_def)

lemma same_core_db [simp]: "same_core f (on_dm (on_world (\<lambda>w. w\<lparr>w_db := h w\<rparr>)) g) \<longleftrightarrow> same_core f g"
  by (simp add: same_core_def on_dm_def on_world_def)

lemma same_core_if [intro]: "same_core f g \<Longrightarrow> same_core f h \<Longrightarrow> same_core f (if b then g else h)"
  by simp

lemma find_session_core:
  assumes "find_session k (fa_dm f) = (r, d)"
  shows "same_core f (f\<lparr>fa_dm := d\<rparr>)"
  using assms by (auto simp: same_core_def find_session_def Let_def tick_clock_def split: prod.splits)

lemma stamp_core:
  assumes "stamp (fa_dm f) = (ts, d)"
  shows "same_core f (f\<lparr>fa_dm := d\<rparr>)"
  using assms by (auto simp: same_core_def stamp_def iso8601_now_def tick_clock_def Let_def split: prod.splits)

lemma proc_stat_core [simp]: "same_core f (snd (fan_proc_stat env pid n f))"
  by (simp add: fan_proc_stat_def)

lemma proc_stat_core': "fan_proc_stat env pid n f = (r, g) \<Longrightarrow> same_core f g"
  using proc_stat_core [of f env pid n] by simp

lemma local_resolve_core: "local_resolve env ev ctx f = (r, g) \<Longrightarrow> same_core f g"
  by (auto simp: local_resolve_def dest!: proc_stat_core' split: if_splits prod.splits option.splits)

lemma local_kill_core: "same_core f (local_kill env ev ctx f)"
  by (auto simp: local_kill_def dest!: proc_stat_core' split: prod.splits option.splits)

lemma cloud_resolve_core: "cloud_resolve env ev ctx f = (r, g) \<Longrightarrow> same_core f g"
  by (auto simp: cloud_resolve_def split: option.splits if_splits)

lemma kill_all_core [simp]: "same_core f (kill_all alive sig pids g) \<longleftrightarrow> same_core f g"
proof (induction pids arbitrary: g)
  case (Cons p pids)
  then show ?case by (simp add: kill_all_def)
qed (simp add: kill_all_def)

lemma reaper_core [simp]: "same_core f (reaper cl n pids pid g) \<longleftrightarrow> same_core f g"
  by (simp add: reaper_def Let_def)

lemma tree_core: "same_core f (cloud_kill_process_tree env cl pid f)"
  by (auto simp: cloud_kill_process_tree_def Let_def tree_log_def split: option.splits)

lemma cloud_finish_core: "same_core f (cloud_finish env cl cr task pid f)"
proof (cases "neo_croner_delete cr task")
  case (Some rc)
  show ?thesis
    unfolding cloud_finish_def Some option.case
    by (rule same_core_trans [OF _ tree_core]) simp
qed (simp add: cloud_finish_def)

lemma save_task_core [simp]: "same_core f (save_task e task x c ts g) \<longleftrightarrow> same_core f g"
  by (simp add: save_task_def)

lemma cloud_block_task_core: "same_core f (cloud_block_task env cl task pid eid f)"
proof -
  let ?f = "next_answer f"
  obtain ts d where st: "stamp (fa_dm ?f) = (ts, d)" by fastforce
  have *: "same_core f (?f\<lparr>fa_dm := d\<rparr>)"
    by (rule same_core_trans [OF _ stamp_core [OF st]]) simp
  show ?thesis
    unfolding cloud_block_task_def Let_def st prod.case
    by (auto split: option.split simp: * intro!: same_core_trans [OF _ cloud_finish_core])
qed

lemma cloud_block_core: "same_core f (cloud_block env cl ev ctx f)"
  unfolding cloud_block_def Let_def
  by (auto split: prod.split simp: cloud_block_task_core
      intro!: same_core_trans [OF find_session_core cloud_block_task_core])

lemma ftp_session_core: "ftp_resolve_session env ft pid n k f = (r, g) \<Longrightarrow> same_core f g"
  by (auto simp: ftp_resolve_session_def ftp_parse_cmdline_def cmdline_log_def Let_def
      split: option.splits prod.splits if_splits)

lemma ftp_resolve_core: "ftp_resolve env ft ev ctx f = (r, g) \<Longrightarrow> same_core f g"
  unfolding ftp_resolve_def Let_def
  by (auto split: prod.splits if_splits dest!: proc_stat_core' ftp_session_core intro: same_core_trans)

lemma ftp_block_core: "same_core f (ftp_block env alive ev ctx f)"
  unfolding ftp_block_def ftp_block_execute_def Let_def
  by (auto split: prod.splits option.splits dest!: proc_stat_core')

end
