(* ===== verification/Fan_Contract.thy ===== *)
theory Fan_Contract
  imports Fan_Props
begin

text \<open>
  The contract between a channel and the common handler: the identity it resolves fits the wire
  format, and its callbacks touch neither the queue nor the answers. Under it an open request is
  answered by the lists alone and sends at most one message.
\<close>

subsection \<open>The contract\<close>

definition fits_ctx :: "fan_channel_ctx \<Rightarrow> bool" where
  "fits_ctx ctx \<longleftrightarrow>
     cstr (cx_username ctx) \<and> length (cx_username ctx) < 64 \<and>
     cstr (cx_client_ip ctx) \<and> length (cx_client_ip ctx) < 48 \<and>
     cstr (cx_share_name ctx) \<and> length (cx_share_name ctx) < 64"

text \<open>The messages \<open>ms\<close> have entered the queue and nothing else of the threads' state has changed.\<close>

definition io_step :: "fan \<Rightarrow> event_msg list \<Rightarrow> fan \<Rightarrow> bool" where
  "io_step f ms g \<longleftrightarrow>
     fa_queue g = fa_queue f @ ms \<and> fa_responses g = fa_responses f \<and> fa_perm g = fa_perm f \<and>
     fa_pipe g = fa_pipe f \<and> fa_channels g = fa_channels f"

lemma same_core_io: "same_core f g \<Longrightarrow> io_step f [] g"
  by (simp add: same_core_def io_step_def)

lemma io_step_trans [trans]: "io_step f a g \<Longrightarrow> io_step g b h \<Longrightarrow> io_step f (a @ b) h"
  by (simp add: io_step_def)

lemma io_step_on_dm [simp]: "io_step f ms (on_dm h g) \<longleftrightarrow> io_step f ms g"
  by (simp add: io_step_def on_dm_def)

lemma io_step_log [simp]: "io_step f ms (fan_log lv ev sk det g) \<longleftrightarrow> io_step f ms g"
  by (simp add: fan_log_def)

lemma io_step_next [simp]: "io_step f ms (next_answer g) \<longleftrightarrow> io_step f ms g"
  by (simp add: io_step_def next_answer_def)

lemma io_step_core: "io_step f ms g \<Longrightarrow> same_core g h \<Longrightarrow> io_step f ms h"
  by (simp add: same_core_def io_step_def)

text \<open>What a message about an open request says.\<close>

definition open_report :: "u8 \<Rightarrow> fanotify_event \<Rightarrow> event_msg \<Rightarrow> bool" where
  "open_report src ev m \<longleftrightarrow>
     msg_fits m \<and> m_msg_type m = RGUARD_MSG_FILE_EVENT \<and> m_proto_version m = RGUARD_PROTO_VERSION \<and>
     m_source_type m = src \<and> m_op_type m = RGUARD_OP_OPEN \<and> m_file_path m = ev_path ev \<and>
     m_flags m \<in> {RGUARD_FLAG_RISKY, RGUARD_FLAG_RISKY OR RGUARD_FLAG_BACKED_UP,
       RGUARD_FLAG_RISKY OR RGUARD_FLAG_BACKUP_FAILED}"

text \<open>The answer as the lists decide it.\<close>

definition open_answer :: "fan_channel_ops \<Rightarrow> fanotify_event \<Rightarrow> fan \<Rightarrow> fan_action" where
  "open_answer ops ev f =
     (case fst (op_resolve ops ev ctx_zero f) of
        None \<Rightarrow> FAN_RES_ALLOW
      | Some ctx \<Rightarrow>
          if scorer_is_blacklisted (dm_policy (fa_dm f)) (Some (cx_username ctx)) (Some (cx_client_ip ctx))
          then FAN_RES_DENY else FAN_RES_ALLOW)"

definition good_path :: "string \<Rightarrow> bool" where
  "good_path p \<longleftrightarrow> cstr p \<and> length p < RGUARD_PATH_MAX"

lemma resolved_path_good: "fanotify_resolve_path l = Some p \<Longrightarrow> good_path p"
  by (auto simp: fanotify_resolve_path_def good_path_def RGUARD_PATH_MAX_def split: option.splits if_splits
      intro: le_less_trans [OF length_cstr_of])

subsection \<open>Parts of the handler\<close>

lemma derive_key_fields [simp]:
  "cx_username (derive_key ctx) = cx_username ctx" "cx_client_ip (derive_key ctx) = cx_client_ip ctx"
  "cx_share_name (derive_key ctx) = cx_share_name ctx" "cx_proc_start (derive_key ctx) = cx_proc_start ctx"
  by (simp_all add: derive_key_def)

lemma gate_core: "fanotify_gate_allow env k p src f = (ok, g) \<Longrightarrow> same_core f g"
  by (auto simp: fanotify_gate_allow_def split: prod.splits)

lemma queue_event_io:
  "\<exists>ms. io_step f ms (fanotify_queue_event env m f) \<and> (ms = [] \<or> ms = [m])"
  by (auto simp: fanotify_queue_event_def Let_def next_answer_def io_step_def fan_log_def on_dm_def)

lemma queue_gated_io:
  "\<exists>ms. io_step f ms (queue_gated env ops ev ctx m f) \<and> (ms = [] \<or> ms = [m])"
proof -
  obtain ok g where g: "fanotify_gate_allow env (cx_skey ctx) (ev_path ev) (op_source ops) f = (ok, g)" by fastforce
  have "io_step f [] g" using gate_core [OF g] by (rule same_core_io)
  then show ?thesis
    using queue_event_io [of g env m] io_step_trans [of f "[]" g]
    by (fastforce simp: queue_gated_def g)
qed

lemma do_backup_io: "io_step f [] (snd (fanotify_do_backup file path store dir f))"
  by (auto simp: fanotify_do_backup_def Let_def set_file_def io_step_def fan_log_def on_dm_def
      split: option.splits prod.splits)

lemma do_backup_policy [simp]:
  "dm_policy (fa_dm (snd (fanotify_do_backup file path store dir f))) = dm_policy (fa_dm f)"
  by (auto simp: fanotify_do_backup_def Let_def set_file_def on_dm_def on_world_def fan_log_def log_d_def
      split: option.splits prod.splits)

lemma build_message_core: "build_message ops ev ctx f = (m, g) \<Longrightarrow> same_core f g"
  by (auto simp: build_message_def fanotify_build_event_msg_def)

lemma built_message:
  assumes "build_message ops ev ctx f = (m, g)" and "fits_ctx ctx" and "good_path (ev_path ev)"
  shows "open_report (op_source ops) ev m" and "m_username m = cx_username ctx"
    and "m_client_ip m = cx_client_ip ctx" and "m_flags m = RGUARD_FLAG_RISKY"
  using assms
  by (auto simp: build_message_def fanotify_build_event_msg_def with_identity_def fits_ctx_def good_path_def
      open_report_def msg_fits_def msg_zero_def RGUARD_PATH_MAX_def cstr_def)

lemma with_stat_fields [simp]:
  "msg_fits (with_stat st m) = msg_fits m" "m_msg_type (with_stat st m) = m_msg_type m"
  "m_proto_version (with_stat st m) = m_proto_version m" "m_source_type (with_stat st m) = m_source_type m"
  "m_op_type (with_stat st m) = m_op_type m" "m_file_path (with_stat st m) = m_file_path m"
  "m_flags (with_stat st m) = m_flags m" "m_username (with_stat st m) = m_username m"
  "m_client_ip (with_stat st m) = m_client_ip m" "m_share_name (with_stat st m) = m_share_name m" "m_new_name (with_stat st m) = m_new_name m"
  by (simp_all add: with_stat_def msg_fits_def split: option.split)

lemma note_backup_report:
  assumes "open_report src ev m" and "m_flags m = RGUARD_FLAG_RISKY"
  shows "open_report src ev (note_backup rc e m)"
  using assms by (auto simp: note_backup_def open_report_def msg_fits_def)

lemma fst_handlers [simp]:
  "fst (handle_denied env ops ev ctx f) = FAN_RES_DENY" "fst (handle_open env ops ev ctx f) = FAN_RES_ALLOW"
  by (simp_all add: handle_denied_def handle_open_def Let_def case_prod_beta)

lemma fill_notify_core: "fanotify_fill_notify_msg env ev k m f = (r, g) \<Longrightarrow> same_core f g"
  by (auto simp: fanotify_fill_notify_msg_def Let_def split: if_splits prod.splits dest!: gate_core
      dest: same_core_trans [of f "next_answer f", rotated])

lemma submit_io: "fanotify_submit_event env m k f = (b, g) \<Longrightarrow> io_step f [] g"
  by (auto simp: fanotify_submit_event_def io_step_def split: if_splits prod.splits)

subsection \<open>The common handler under the contract\<close>

locale channel_contract =
  fixes ops :: fan_channel_ops
  assumes resolve_fits: "op_resolve ops ev ctx_zero f = (Some ctx, g) \<Longrightarrow> fits_ctx ctx"
    and resolve_core: "op_resolve ops ev ctx_zero f = (r, g) \<Longrightarrow> same_core f g"
    and deny_core: "op_deny ops = Some act \<Longrightarrow> same_core f (act ev ctx f)"
    and block_core: "op_block ops = Some act \<Longrightarrow> same_core f (act ev ctx f)"
begin

lemma deny_action: "same_core f (run_action (op_deny ops) ev ctx f)"
  by (auto simp: run_action_def deny_core split: option.split)

lemma block_action: "same_core f (run_action (op_block ops) ev ctx f)"
  by (auto simp: run_action_def block_core split: option.split)

lemma denied_effect:
  assumes "fits_ctx ctx" and "good_path (ev_path ev)"
  shows "\<exists>ms. io_step f ms (snd (handle_denied env ops ev ctx f)) \<and> length ms \<le> 1 \<and>
    (\<forall>m \<in> set ms. open_report (op_source ops) ev m)"
proof -
  let ?f1 = "run_action (op_deny ops) ev ctx
    (fan_log LOG_WARN ''FANOTIFY_BLACKLIST_DENY'' (Some (cx_skey ctx)) (deny_detail ev ctx) f)"
  obtain m f2 where b: "build_message ops ev ctx ?f1 = (m, f2)" by fastforce
  have "same_core f ?f1" by (rule same_core_trans [OF _ deny_action]) simp
  then have "same_core f f2" using build_message_core [OF b] by (rule same_core_trans)
  then have "io_step f [] f2" by (rule same_core_io)
  moreover obtain ms where "io_step f2 ms (queue_gated env ops ev ctx m f2)" "ms = [] \<or> ms = [m]"
    using queue_gated_io by blast
  moreover have "open_report (op_source ops) ev m" using built_message [OF b assms] by blast
  ultimately show ?thesis
    unfolding handle_denied_def Let_def b prod.case snd_conv by (fastforce simp: io_step_def)
qed

lemma allowed_effect:
  assumes "fits_ctx ctx" and "good_path (ev_path ev)"
  shows "\<exists>ms. io_step f ms (snd (handle_open env ops ev ctx f)) \<and> length ms \<le> 1 \<and>
    (\<forall>m \<in> set ms. open_report (op_source ops) ev m)"
proof -
  obtain rc f1 where d: "fanotify_do_backup (ev_file ev) (ev_path ev) (p_store_path (dm_policy (fa_dm f)))
      (op_dir ops) f = (rc, f1)" by fastforce
  obtain m f2 where b: "build_message ops ev ctx f1 = (m, f2)" by fastforce
  have "io_step f [] f1" using do_backup_io [of f] d by (metis snd_conv)
  then have "io_step f [] f2" using build_message_core [OF b] by (rule io_step_core)
  moreover obtain ms where "io_step f2 ms (queue_gated env ops ev ctx (note_backup rc ev m) f2)"
    "ms = [] \<or> ms = [note_backup rc ev m]"
    using queue_gated_io by blast
  moreover have "open_report (op_source ops) ev (note_backup rc ev m)"
    using built_message [OF b assms] by (blast intro: note_backup_report)
  ultimately show ?thesis
    unfolding handle_open_def d Let_def b prod.case snd_conv by (fastforce simp: io_step_def)
qed

lemma open_effect:
  assumes "has_mask (ev_mask ev) FAN_OPEN_PERM" and "good_path (ev_path ev)"
  shows "\<exists>ms. io_step f ms (snd (fan_channel_handle env ops ev f)) \<and> length ms \<le> 1 \<and>
    (\<forall>m \<in> set ms. open_report (op_source ops) ev m)"
proof -
  obtain r g where r: "op_resolve ops ev ctx_zero f = (r, g)" by fastforce
  have g: "io_step f [] g" using resolve_core [OF r] by (rule same_core_io)
  show ?thesis
  proof (cases r)
    case None
    then show ?thesis using g assms(1) by (auto simp: fan_channel_handle_def r)
  next
    case (Some ctx)
    then have "fits_ctx ctx" using r resolve_fits by blast
    then have k: "fits_ctx (derive_key ctx)" by (simp add: fits_ctx_def)
    show ?thesis
    proof (cases "scorer_is_blacklisted (dm_policy (fa_dm g)) (Some (cx_username ctx)) (Some (cx_client_ip ctx))")
      case True
      then have "fan_channel_handle env ops ev f = handle_denied env ops ev (derive_key ctx) g"
        by (simp add: fan_channel_handle_def r Some assms(1))
      then show ?thesis using denied_effect [OF k assms(2), of g env] g by (fastforce simp: io_step_def)
    next
      case False
      then have "fan_channel_handle env ops ev f = handle_open env ops ev (derive_key ctx) g"
        by (simp add: fan_channel_handle_def r Some assms(1))
      then show ?thesis using allowed_effect [OF k assms(2), of g env] g by (fastforce simp: io_step_def)
    qed
  qed
qed

lemma answer_decided:
  assumes "has_mask (ev_mask ev) FAN_OPEN_PERM"
  shows "fst (fan_channel_handle env ops ev f) = open_answer ops ev f"
proof -
  obtain r g where r: "op_resolve ops ev ctx_zero f = (r, g)" by fastforce
  have "dm_policy (fa_dm g) = dm_policy (fa_dm f)" using resolve_core [OF r] by (simp add: same_core_def)
  then show ?thesis
    using assms by (auto simp: fan_channel_handle_def r open_answer_def Let_def
        split: option.split)
qed

lemma notify_effect: "io_step f [] (snd (handle_notify env ops ev ctx f))"
proof -
  obtain m0 f1 where b: "build_message ops ev ctx f = (m0, f1)" by fastforce
  obtain m1 f2 where fl: "fanotify_fill_notify_msg env ev (cx_skey ctx) m0 f1 = (m1, f2)" by fastforce
  have f2: "io_step f [] f2"
    using same_core_trans [OF build_message_core [OF b] fill_notify_core [OF fl]] by (rule same_core_io)
  show ?thesis
  proof (cases m1)
    case None
    then show ?thesis using f2 by (simp add: handle_notify_def b fl)
  next
    case (Some m)
    obtain bl f3 where s: "fanotify_submit_event env m (cx_skey ctx) f2 = (bl, f3)" by fastforce
    have "io_step f [] f3" using io_step_trans [OF f2 submit_io [OF s]] by simp
    then show ?thesis
      using io_step_core [OF _ block_action] by (auto simp: handle_notify_def b fl Some s)
  qed
qed

lemma notification_effect:
  assumes "\<not> has_mask (ev_mask ev) FAN_OPEN_PERM"
  shows "io_step f [] (snd (fan_channel_handle env ops ev f))"
proof -
  obtain r g where r: "op_resolve ops ev ctx_zero f = (r, g)" by fastforce
  have g: "io_step f [] g" using resolve_core [OF r] by (rule same_core_io)
  then have "io_step f [] (snd (handle_notify env ops ev ctx g))" for ctx
    using io_step_trans [OF g notify_effect] by simp
  moreover have "io_step f [] f" by (simp add: io_step_def)
  ultimately show ?thesis
    using g assms by (auto simp: fan_channel_handle_def r split: option.split)
qed

end

subsection \<open>The three channels\<close>

lemma cstr_take [simp]: "cstr s \<Longrightarrow> cstr (take n s)"
  by (auto simp: cstr_def dest: in_set_takeD)

lemma cstr_drop [simp]: "cstr s \<Longrightarrow> cstr (drop n s)"
  by (auto simp: cstr_def dest: in_set_dropD)

lemma cstr_Nil [simp]: "cstr []"
  by (simp add: cstr_def)

lemma cstr_Cons [simp]: "cstr (c # s) \<longleftrightarrow> c \<noteq> CHR 0x00 \<and> cstr s"
  by (auto simp: cstr_def nul_def)

lemma cstr_strchr: "cstr s \<Longrightarrow> strchr s c = Some p \<Longrightarrow> cstr p"
  by (auto dest!: strchr_Some)

lemma fgets_cstr: "fgets_line n s = Some l \<Longrightarrow> cstr l"
  by (auto simp: fgets_line_def split: if_splits)

lemma proc_comm_fits:
  assumes "proc_comm n line rp = Some comm" and "cstr line" and "0 < n"
  shows "cstr comm \<and> length comm < n"
proof -
  obtain lp where lp: "strchr line CHR ''('' = Some lp"
    "comm = take (n - 1) (take (length lp - 1 - length rp) (drop 1 lp))"
    using assms(1) by (auto simp: proc_comm_def split: option.splits if_splits)
  then have "cstr lp" using cstr_strchr [OF assms(2)] by blast
  then show ?thesis unfolding lp(2) using assms(3) by (simp only: cstr_take cstr_drop) simp
qed

lemma parsed_comm:
  assumes "parse_proc_stat n line = Some (comm, start)" and "cstr line" and "0 < n"
  shows "cstr comm \<and> length comm < n"
proof -
  obtain rp where "proc_comm n line rp = Some comm"
    using assms(1,3) unfolding parse_proc_stat_def Let_def by (auto split: option.splits if_splits)
  then show ?thesis using assms(2,3) by (rule proc_comm_fits)
qed

lemma stat_comm:
  assumes "fan_proc_stat env pid n f = (Some (comm, start), g)" and "0 < n"
  shows "cstr comm \<and> length comm < n"
proof -
  obtain content line where "fgets_line 1024 content = Some line" "parse_proc_stat n line = Some (comm, start)"
    using assms(1) unfolding fan_proc_stat_def by (auto split: option.splits)
  then show ?thesis using fgets_cstr assms(2) parsed_comm by blast
qed

lemma cstr_show_int [simp]: "cstr (show_int i)"
  by (simp add: show_int_def cstr_def nul_def) (use cstr_show_nat in \<open>auto simp: cstr_def nul_def\<close>)

lemma fits_local [simp]:
  assumes "cstr user" and "cstr ip"
  shows "fits_ctx (local_ctx user ip start ctx)"
  using assms by (simp add: fits_ctx_def local_ctx_def snprintf_s_def cstr_def nul_def)
    (auto dest: in_set_takeD)

lemma cstr_process_id [simp]: "cstr (process_id pid start)"
  using cstr_show_int cstr_show_nat by (auto simp: process_id_def cstr_def nul_def)

interpretation loc: channel_contract "local_ops env"
proof
  fix ev f ctx g
  assume "op_resolve (local_ops env) ev ctx_zero f = (Some ctx, g)"
  then show "fits_ctx ctx"
    by (auto simp: local_ops_def local_resolve_def split: if_splits prod.splits option.splits dest!: stat_comm)
qed (auto simp: local_ops_def intro: local_resolve_core local_kill_core)

lemma cstr_takeWhile: "cstr s \<Longrightarrow> cstr (takeWhile P s)"
  by (auto simp: cstr_def dest: set_takeWhileD)

lemma token_cstr: "t \<in> set (cmdline_tokens s) \<Longrightarrow> cstr t"
proof (induction s rule: cmdline_tokens.induct)
  case (1 s)
  then show ?case by (subst (asm) (2) cmdline_tokens.simps) (auto split: if_splits)
qed

lemma first_task_cstr: "\<forall>t \<in> set ts. cstr t \<Longrightarrow> first_task ts = Some n \<Longrightarrow> cstr n"
  by (induction ts) (auto simp: task_token_def Let_def cstr_takeWhile split: option.splits if_splits)

lemma task_cstr: "cloud_resolve_task l n = Some t \<Longrightarrow> cstr t"
  unfolding cloud_resolve_task_def Let_def
  by (auto split: option.splits if_splits intro!: cstr_take intro: first_task_cstr token_cstr)

interpretation cloud: channel_contract "cloud_ops env cl"
proof
  fix ev f ctx g
  assume "op_resolve (cloud_ops env cl) ev ctx_zero f = (Some ctx, g)"
  then show "fits_ctx ctx"
    by (auto simp: cloud_ops_def cloud_resolve_def cloud_resolve_user_def fits_ctx_def
        split: if_splits option.splits dest!: task_cstr)
qed (auto simp: cloud_ops_def intro: cloud_resolve_core cloud_block_core)

lemma title_fits:
  assumes "split_title n k buf = Some (user, ip)" and "cstr buf"
  shows "cstr user \<and> length user < n \<and> cstr ip \<and> length ip < k"
proof -
  let ?p = "drop 8 buf"
  obtain slash where sl: "strchr ?p CHR ''/'' = Some slash"
    "ip = take (length ?p - length slash) ?p" "length ip < k" "length user < n"
    "user = take (length user) (drop 1 slash)"
    using assms(1) unfolding split_title_def Let_def
    by (auto split: option.splits if_splits)
  have "cstr (drop 1 slash)" using cstr_strchr [OF _ sl(1)] assms(2) by simp
  then have "cstr user" using sl(5) cstr_take by metis
  then show ?thesis using sl assms(2) by simp
qed

lemma cstr_dotted: "cstr (dotted bs)"
  unfolding dotted_def by (auto split: list.split)

lemma remote_fits: "remote_address ntop6 k rem = Some ip \<Longrightarrow> 0 < k \<Longrightarrow> cstr ip \<and> length ip < k"
  by (auto simp: remote_address_def Let_def length_snprintf_s cstr_dotted split: option.splits if_splits)

lemma tcp_lines_fits: "tcp_lines ntop6 inodes k ls = Some ip \<Longrightarrow> 0 < k \<Longrightarrow> cstr ip \<and> length ip < k"
  by (induction ls) (auto dest: remote_fits split: option.splits if_splits)

lemma find_remote_fits: "ftp_tcp_find_remote ntop6 t inodes k = Some ip \<Longrightarrow> 0 < k \<Longrightarrow> cstr ip \<and> length ip < k"
  unfolding ftp_tcp_find_remote_def by (auto split: option.splits dest: tcp_lines_fits)

lemma map_filter_head:
  assumes "List.map_filter g xs = y # ys"
  shows "\<exists>x \<in> set xs. g x = Some y"
  using assms by (induction xs) (auto simp: List.map_filter_def split: if_splits)

lemma by_fd_fits:
  assumes "ftp_resolve_ip_by_fd ft pid 48 = (rc, ip)"
  shows "cstr ip \<and> length ip < 48"
  using assms unfolding ftp_resolve_ip_by_fd_def Let_def
    by (auto split: option.splits if_splits list.splits dest!: map_filter_head find_remote_fits)

lemma uid_fits: "ftp_resolve_uid ft pid 64 = (rc, Some user) \<Longrightarrow> cstr user \<and> length user < 64"
  by (auto simp: ftp_resolve_uid_def length_snprintf_s split: option.splits if_splits)

lemma session_fits:
  assumes "ftp_resolve_session env ft pid 64 48 f = (Some (user, ip), g)"
  shows "cstr user \<and> length user < 64 \<and> cstr ip \<and> length ip < 48"
proof (cases "ftp_parse_cmdline env pid 64 48 f")
  case (Pair r f1)
  show ?thesis
  proof (cases r)
    case (Some ui)
    with Pair assms have "ftp_parse_cmdline env pid 64 48 f = (Some (user, ip), f1)"
      by (simp add: ftp_resolve_session_def)
    then show ?thesis
      by (auto simp: ftp_parse_cmdline_def Let_def split: option.splits if_splits dest!: title_fits)
  next
    case None
    with Pair assms have "\<exists>rc. ftp_resolve_ip_by_fd ft pid 48 = (rc, ip)"
      and "\<exists>rc. ftp_resolve_uid ft pid 64 = (rc, Some user)"
      by (auto simp: ftp_resolve_session_def split: prod.splits option.splits if_splits)
    then show ?thesis using by_fd_fits uid_fits by blast
  qed
qed

interpretation ftp: channel_contract "ftp_ops env ft alive"
proof
  fix ev f ctx g
  assume r: "op_resolve (ftp_ops env ft alive) ev ctx_zero f = (Some ctx, g)"
  show "fits_ctx ctx"
    using r unfolding ftp_ops_def ftp_resolve_def Let_def
    by (auto simp: fits_ctx_def split: if_splits prod.splits option.splits dest!: session_fits)
qed (auto simp: ftp_ops_def intro: ftp_resolve_core ftp_block_core)

text \<open>Whatever the tag of a channel, its operations keep the contract.\<close>

lemma any_channel: "channel_contract (channel_ops os k)"
  using loc.channel_contract_axioms cloud.channel_contract_axioms ftp.channel_contract_axioms
  by (cases k) (simp_all add: channel_ops_def)

interpretation chan: channel_contract "channel_ops os k"
  by (rule any_channel)

end
