(* ===== verification/Fan_Claims.thy ===== *)
theory Fan_Claims
  imports Fan_Contract Daemon_Outcomes
begin

text \<open>
  Properties of the fanotify channels: every open request is answered, by the lists; the queue
  between the threads is first in first out and carries whole messages.
\<close>

subsection \<open>One open request\<close>

definition perm_decision :: "fan_os \<Rightarrow> perm_meta \<Rightarrow> fan \<Rightarrow> fan_action" where
  "perm_decision os m f =
     (case fanotify_resolve_path (pm_link m) of
        None \<Rightarrow> FAN_RES_ALLOW
      | Some path \<Rightarrow>
          (case find_channel path f of
             None \<Rightarrow> FAN_RES_ALLOW
           | Some ch \<Rightarrow> open_answer (channel_ops os (ch_kind ch)) (perm_event m path) f))"

lemma perm_event_fields [simp]:
  "ev_mask (perm_event m p) = pm_mask m" "ev_path (perm_event m p) = p" "ev_pid (perm_event m p) = pm_pid m"
  "ev_file (perm_event m p) = pm_file m" "ev_fd (perm_event m p) = pm_fd m"
  by (simp_all add: perm_event_def)

text \<open>The state in which the answer is written, after the handler.\<close>

lemma perm_handled:
  assumes "has_mask (pm_mask m) FAN_OPEN_PERM"
  shows "\<exists>ms f1 src ev. io_step f ms f1 \<and> length ms \<le> 1 \<and> (\<forall>x \<in> set ms. open_report src ev x) \<and>
    src \<in> {RGUARD_SOURCE_FTP, RGUARD_SOURCE_CLOUD_SYNC, RGUARD_SOURCE_HOST} \<and>
    on_perm_event os m f = write_fanotify_response (fo_env os) (pm_fd m) (perm_decision os m f) f1"
proof -
  have refl: "io_step f [] f" by (simp add: io_step_def)
  show ?thesis
  proof (cases "fanotify_resolve_path (pm_link m)")
    case None
    then show ?thesis using assms refl
      by (intro exI [of _ "[]"] exI [of _ f] exI [of _ RGUARD_SOURCE_FTP])
        (simp add: on_perm_event_def handle_perm_def perm_decision_def respond_def)
  next
    case (Some path)
    show ?thesis
    proof (cases "find_channel path f")
      case None
      then show ?thesis using assms refl Some
        by (intro exI [of _ "[]"] exI [of _ f] exI [of _ RGUARD_SOURCE_FTP])
          (simp add: on_perm_event_def handle_perm_def perm_decision_def respond_def)
    next
      case ch: (Some ch)
      let ?ev = "perm_event m path" and ?k = "ch_kind ch"
      obtain resp f1 where h: "fan_channel_dispatch os ?k ?ev f = (resp, f1)" by fastforce
      have mask: "has_mask (ev_mask ?ev) FAN_OPEN_PERM" using assms by simp
      have "good_path (ev_path ?ev)" using Some by (simp add: resolved_path_good)
      from chan.open_effect [OF mask this, of f "fo_env os" os ?k] h obtain ms where
        "io_step f ms f1" "length ms \<le> 1" "\<forall>x \<in> set ms. open_report (op_source (channel_ops os ?k)) ?ev x"
        by (auto simp: fan_channel_dispatch_def)
      moreover have "resp = open_answer (channel_ops os ?k) ?ev f"
        using chan.answer_decided [OF mask, of "fo_env os" os ?k f] h by (simp add: fan_channel_dispatch_def)
      moreover have "op_source (channel_ops os ?k) \<in> {RGUARD_SOURCE_FTP, RGUARD_SOURCE_CLOUD_SYNC, RGUARD_SOURCE_HOST}"
        by (cases ?k) (simp_all add: channel_ops_def ftp_ops_def cloud_ops_def local_ops_def)
      ultimately show ?thesis
        using assms h Some ch unfolding on_perm_event_def handle_perm_def perm_decision_def respond_def
        by (intro exI [of _ ms] exI [of _ f1] exI [of _ "op_source (channel_ops os ?k)"] exI [of _ ?ev]) simp
    qed
  qed
qed

lemma response_written:
  assumes "fa_perm f" and "\<forall>n. fe_response env n"
  shows "fa_responses (write_fanotify_response env fd r f) = fa_responses f @ [(fd, r)]"
  using assms by (simp add: write_fanotify_response_def next_answer_def)

lemma response_keeps [simp]:
  "fa_queue (write_fanotify_response env fd r f) = fa_queue f"
  "fa_perm (write_fanotify_response env fd r f) = fa_perm f"
  "fa_pipe (write_fanotify_response env fd r f) = fa_pipe f"
  "fa_channels (write_fanotify_response env fd r f) = fa_channels f"
  by (simp_all add: write_fanotify_response_def next_answer_def fan_log_def on_dm_def)

lemma perm_event_answered:
  assumes "has_mask (pm_mask m) FAN_OPEN_PERM" and "fa_perm f" and "\<forall>n. fe_response (fo_env os) n"
  shows "fa_responses (on_perm_event os m f) = fa_responses f @ [(pm_fd m, perm_decision os m f)]"
    and "fa_perm (on_perm_event os m f)"
proof -
  from perm_handled [OF assms(1), of f os] obtain ms f1 where "io_step f ms f1"
    "on_perm_event os m f = write_fanotify_response (fo_env os) (pm_fd m) (perm_decision os m f) f1" by blast
  then show "fa_responses (on_perm_event os m f) = fa_responses f @ [(pm_fd m, perm_decision os m f)]"
    and "fa_perm (on_perm_event os m f)"
    using assms by (simp_all add: io_step_def response_written)
qed

subsection \<open>A batch of open requests\<close>

text \<open>The records lie in the bytes that were read.\<close>

fun batch_fits :: "nat \<Rightarrow> perm_meta list \<Rightarrow> bool" where
  "batch_fits left [] \<longleftrightarrow> True"
| "batch_fits left (m # ms) \<longleftrightarrow>
     METADATA_LEN \<le> pm_len m \<and> pm_len m \<le> left \<and> batch_fits (left - pm_len m) ms"

lemma perm_batch_step:
  assumes "batch_fits left (m # ms)"
  shows "snd (perm_batch (fo_env os) (fan_channel_dispatch os) left (m # ms) f) =
    snd (perm_batch (fo_env os) (fan_channel_dispatch os) (left - pm_len m) ms (on_perm_event os m f))"
  using assms by (simp add: on_perm_event_def case_prod_beta Let_def METADATA_LEN_def)

lemma batch_answered:
  assumes "batch_fits left ms" and "\<forall>m \<in> set ms. has_mask (pm_mask m) FAN_OPEN_PERM"
    and "fa_perm f" and "\<forall>n. fe_response (fo_env os) n"
  shows "\<exists>rs. length rs = length ms \<and>
    fa_responses (snd (perm_batch (fo_env os) (fan_channel_dispatch os) left ms f)) =
      fa_responses f @ zip (map pm_fd ms) rs"
  using assms(1-3)
proof (induction ms arbitrary: left f)
  case (Cons m ms)
  let ?g = "on_perm_event os m f"
  have m: "has_mask (pm_mask m) FAN_OPEN_PERM" using Cons.prems by simp
  have "fa_perm ?g" using perm_event_answered(2) [OF m Cons.prems(3) assms(4)] .
  then obtain rs where "length rs = length ms"
    "fa_responses (snd (perm_batch (fo_env os) (fan_channel_dispatch os) (left - pm_len m) ms ?g)) =
      fa_responses ?g @ zip (map pm_fd ms) rs"
    using Cons.IH [of "left - pm_len m" ?g] Cons.prems by auto
  then show ?case
    unfolding perm_batch_step [OF Cons.prems(1)] perm_event_answered(1) [OF m Cons.prems(3) assms(4)]
    by (intro exI [of _ "perm_decision os m f # rs"]) simp
qed simp

text \<open>
  C4: No open request stays unanswered: when the permission thread works off a batch of requests
  that lies in the bytes read, and the kernel takes the answers, then each request gets exactly one
  answer, in the order of the requests, whatever the path, the channel, the identity, the
  backup and the queue come to.
\<close>

theorem every_open_answered:
  assumes "batch_fits left ms" and "\<forall>m \<in> set ms. has_mask (pm_mask m) FAN_OPEN_PERM"
    and "fa_perm f" and "\<forall>n. fe_response (fo_env os) n"
  shows "map fst (fa_responses (snd (perm_batch (fo_env os) (fan_channel_dispatch os) left ms f))) =
    map fst (fa_responses f) @ map pm_fd ms"
  using batch_answered [OF assms] by auto

definition sample_fan_env :: fan_env where
  "sample_fan_env =
     \<lparr>fe_dm = sample_env, fe_pid = 1, fe_mono = (\<lambda>_. 1000), fe_queue_write = (\<lambda>_. True),
       fe_queue_read = (\<lambda>_. True), fe_response = (\<lambda>_. True), fe_mark = (\<lambda>_ _. (0, 0)), fe_walk = (\<lambda>_ _. []),
       fe_activate = (\<lambda>_ _. \<lparr>aa_real = None, aa_dir = None, aa_open = False, aa_fsid = None\<rparr>),
       fe_stat = (\<lambda>_ _. None), fe_stat_line = (\<lambda>_ _. None), fe_exe = (\<lambda>_. None), fe_cmdline = (\<lambda>_. None),
       fe_fork = (\<lambda>_. True)\<rparr>"

definition sample_os :: fan_os where
  "sample_os =
     \<lparr>fo_env = sample_fan_env,
       fo_cloud = \<lparr>cl_children = (\<lambda>_ _. None), cl_alive = (\<lambda>_ _. False),
         cl_croner = (\<lambda>_. \<lparr>cr_pipe = False, cr_fork = False, cr_poll = (\<lambda>_. Poll_eof), cr_ends = True,
           cr_delete_fork = False, cr_delete_wait = (\<lambda>_. Reaped), cr_delete_ok = False\<rparr>)\<rparr>,
       fo_ftp = \<lparr>ft_links = (\<lambda>_. None), ft_net = (\<lambda>_ _. None), ft_status = (\<lambda>_. None), ft_user = (\<lambda>_. None),
         ft_ntop6 = (\<lambda>_. ''::1'')\<rparr>,
       fo_alive = (\<lambda>_ _. False)\<rparr>"

definition sample_channel :: fan_channel where
  "sample_channel =
     \<lparr>ch_mark_path = ''/srv'', ch_kind = Local_channel, rt_real_path = ''/srv'', rt_mount = True, rt_fsid = 1,
       rt_pending = False, rt_is_dir = True\<rparr>"

definition sample_fan :: fan where
  "sample_fan =
     \<lparr>fa_perm = True, fa_notify = True, fa_pipe = True, fa_ctx = True, fa_thread = True,
       fa_channels = [sample_channel], fa_gate = fangate_init, fa_rewalk = False, fa_queue = [], fa_dropped = 0,
       fa_perm_marks = [''/srv''], fa_notify_marks = [''/srv''], fa_responses = [], fa_kills = [],
       fa_stuck = False, fa_dm = sample_daemon, fa_n = 0\<rparr>"

definition sample_request :: "int \<Rightarrow> string \<Rightarrow> perm_meta" where
  "sample_request fd path =
     \<lparr>pm_len = 24, pm_mask = FAN_OPEN_PERM, pm_fd = fd, pm_file = no_file, pm_pid = 7, pm_link = Some path\<rparr>"

lemma sample_request_perm [simp]: "has_mask (pm_mask (sample_request fd p)) FAN_OPEN_PERM"
  by (simp add: sample_request_def has_mask_def FAN_OPEN_PERM_def)

lemma sample_responses: "\<forall>n. fe_response (fo_env sample_os) n"
  by (simp add: sample_os_def sample_fan_env_def)

theorem every_open_answered_witness:
  "map fst (fa_responses (snd (perm_batch (fo_env sample_os) (fan_channel_dispatch sample_os) 48
      [sample_request 11 ''/srv/a'', sample_request 12 ''/home/b''] sample_fan))) = [11, 12]"
  using every_open_answered [of 48 "[sample_request 11 ''/srv/a'', sample_request 12 ''/home/b'']" sample_fan
    sample_os, OF _ _ _ sample_responses]
  by (simp add: sample_fan_def METADATA_LEN_def) (simp add: sample_request_def)

text \<open>
  C5: The lists decide: the answer to an open request is a denial exactly when the path belongs
  to an active channel, the channel finds whose request it is, and that user or address is
  blacklisted.
\<close>

theorem open_denied_iff_blacklisted:
  assumes "has_mask (pm_mask m) FAN_OPEN_PERM" and "fa_perm f" and "\<forall>n. fe_response (fo_env os) n"
  shows "fa_responses (on_perm_event os m f) = fa_responses f @ [(pm_fd m, FAN_RES_DENY)] \<longleftrightarrow>
    (\<exists>path ch ctx. fanotify_resolve_path (pm_link m) = Some path \<and> find_channel path f = Some ch \<and>
       fst (op_resolve (channel_ops os (ch_kind ch)) (perm_event m path) ctx_zero f) = Some ctx \<and>
       scorer_is_blacklisted (dm_policy (fa_dm f)) (Some (cx_username ctx)) (Some (cx_client_ip ctx)))"
  unfolding perm_event_answered(1) [OF assms] perm_decision_def open_answer_def
  by (auto split: option.splits)

theorem open_denied_iff_blacklisted_witness:
  "fa_responses (on_perm_event sample_os (sample_request 11 ''/home/b'') sample_fan) \<noteq> [(11, FAN_RES_DENY)]"
proof -
  let ?m = "sample_request 11 ''/home/b''"
  have path: "fanotify_resolve_path (pm_link ?m) = Some ''/home/b''"
    by (simp add: sample_request_def fanotify_resolve_path_def RGUARD_PATH_MAX_def cstr_of_id)
  have none: "find_channel ''/home/b'' sample_fan = None"
    by (simp add: find_channel_def sample_fan_def sample_channel_def Let_def match_path_def path_prefix_match_def
        strncmp_eq_def)
  have "fa_perm sample_fan" "fa_responses sample_fan = []" "pm_fd ?m = 11"
    by (simp_all add: sample_fan_def sample_request_def)
  moreover have "\<not> (\<exists>path ch ctx. fanotify_resolve_path (pm_link ?m) = Some path \<and>
      find_channel path sample_fan = Some ch \<and>
      fst (op_resolve (channel_ops sample_os (ch_kind ch)) (perm_event ?m path) ctx_zero sample_fan) = Some ctx \<and>
      scorer_is_blacklisted (dm_policy (fa_dm sample_fan)) (Some (cx_username ctx)) (Some (cx_client_ip ctx)))"
    unfolding path by (simp add: none)
  ultimately show ?thesis
    using open_denied_iff_blacklisted [OF sample_request_perm _ sample_responses, of sample_fan 11 "''/home/b''"]
    by simp
qed

subsection \<open>The queue between the threads\<close>

text \<open>An event of the permission thread appends at most one message; the main thread's do not.\<close>

lemma perm_event_sends:
  "\<exists>ms. fa_queue (on_perm_event os m f) = fa_queue f @ ms \<and>
    (has_mask (pm_mask m) FAN_OPEN_PERM \<longrightarrow> length ms \<le> 1 \<and>
      (\<forall>x \<in> set ms. \<exists>ev src. src \<in> {RGUARD_SOURCE_FTP, RGUARD_SOURCE_CLOUD_SYNC, RGUARD_SOURCE_HOST} \<and>
         open_report src ev x)) \<and>
    (\<not> has_mask (pm_mask m) FAN_OPEN_PERM \<longrightarrow> ms = [])"
proof (cases "has_mask (pm_mask m) FAN_OPEN_PERM")
  case True
  from perm_handled [OF this, of f os] obtain ms f1 src ev where
    "io_step f ms f1" "length ms \<le> 1" "\<forall>x \<in> set ms. open_report src ev x"
    "src \<in> {RGUARD_SOURCE_FTP, RGUARD_SOURCE_CLOUD_SYNC, RGUARD_SOURCE_HOST}"
    "on_perm_event os m f = write_fanotify_response (fo_env os) (pm_fd m) (perm_decision os m f) f1"
    by blast
  then show ?thesis using True by (intro exI [of _ ms]) (auto simp: io_step_def)
next
  case False
  have "fa_queue (on_perm_event os m f) = fa_queue f"
    using False chan.notification_effect [of "perm_event m p" f "fo_env os" os k for p k]
    by (auto simp: on_perm_event_def handle_perm_def respond_def fan_channel_dispatch_def io_step_def
        split: option.split prod.split) (metis perm_event_fields(1) snd_conv)
  then show ?thesis using False by simp
qed

lemma mark_failed_io [simp]: "io_step f ms (mark_failed p e grp g) \<longleftrightarrow> io_step f ms g"
  by (simp add: mark_failed_def)

lemma add_mark_io [simp]: "io_step f ms (add_mark p g a b) \<longleftrightarrow> io_step f ms g"
  by (simp add: add_mark_def io_step_def)

lemma io_step_refl [simp]: "io_step f [] f"
  by (simp add: io_step_def)

lemma mark_add_io: "fanotify_mark_add env p f = (r, g) \<Longrightarrow> io_step f [] g"
  by (auto simp: fanotify_mark_add_def Let_def split: prod.splits)

lemma mark_walk_io: "mark_walk env ds c f = (r, g) \<Longrightarrow> io_step f [] g"
proof (induction ds arbitrary: c f)
  case (Cons d ds)
  obtain err f1 where d: "fanotify_mark_add env d f = (err, f1)" by fastforce
  obtain a b where "c = (a, b)" by fastforce
  with Cons.prems d obtain c' where "mark_walk env ds c' f1 = (r, g)" by auto
  then show ?case using io_step_trans [OF mark_add_io [OF d] Cons.IH] by simp
qed (simp add: io_step_def)

lemma tree_add_io: "io_step f [] (snd (fanotify_mark_tree_add env p f))"
proof -
  obtain m e f1 where w: "mark_walk env (fe_walk env (fa_n f) p) (0, 0) (next_answer f) = ((m, e), f1)"
    by (metis surj_pair)
  have "io_step f [] (next_answer f)" by (simp add: io_step_def next_answer_def)
  from io_step_trans [OF this mark_walk_io [OF w]] show ?thesis
    by (simp add: fanotify_mark_tree_add_def w)
qed

lemma dispatch_one_io:
  assumes "\<not> has_mask m FAN_OPEN_PERM"
  shows "io_step f [] (dispatch_one (fan_channel_dispatch os) m pid p q f)"
  using assms chan.notification_effect [of "notify_event m pid p q" f]
  by (auto simp: dispatch_one_def Let_def fan_channel_dispatch_def io_step_def notify_event_def split: option.split)

lemma fold_io:
  assumes "\<And>x f. x \<in> set xs \<Longrightarrow> io_step f [] (h x f)"
  shows "io_step f [] (fold h xs f)"
  using assms
proof (induction xs arbitrary: f)
  case (Cons x xs)
  then have "io_step f [] (h x f)" "io_step (h x f) [] (fold h xs (h x f))" by auto
  then show ?case using io_step_trans by fastforce
qed (simp add: io_step_def)

text \<open>No bit that is dispatched asks for an answer.\<close>

lemma notify_bits_no_perm:
  assumes "b \<in> set op_bits \<or> b = FAN_RENAME"
  shows "\<not> has_mask (b OR (m AND FAN_ONDIR)) FAN_OPEN_PERM"
proof -
  have "(b OR (m AND FAN_ONDIR)) AND FAN_OPEN_PERM = (b AND FAN_OPEN_PERM) OR (m AND (FAN_ONDIR AND FAN_OPEN_PERM))"
    by (simp only: word_ao_dist and.assoc)
  also have "\<dots> = 0" using assms by (auto simp: op_bits_def fan_defs)
  finally show ?thesis by (simp add: has_mask_def)
qed

lemma dispatch_notify_io: "io_step f [] (dispatch_notify (fan_channel_dispatch os) m pid p f)"
  unfolding dispatch_notify_def
  by (rule fold_io) (auto intro!: dispatch_one_io notify_bits_no_perm)

lemma rename_io: "io_step f [] (snd (process_rename_event env (fan_channel_dispatch os) m f))"
proof -
  have mask: "\<not> has_mask (FAN_RENAME OR (fm_mask m AND FAN_ONDIR)) FAN_OPEN_PERM"
    by (rule notify_bits_no_perm) simp
  show ?thesis
    using io_step_trans [OF tree_add_io dispatch_one_io [OF mask]] dispatch_one_io [OF mask]
    by (auto simp: process_rename_event_def Let_def io_step_def split: option.split)
qed

lemma fid_event_io: "io_step f [] (on_fid_event os m f)"
proof -
  have "io_step f [] f" by (simp add: io_step_def)
  moreover have "io_step f [] (f'\<lparr>fa_rewalk := True\<rparr>)" if "io_step f [] f'" for f'
    using that by (simp add: io_step_def)
  moreover note io_step_trans [OF tree_add_io dispatch_notify_io] dispatch_notify_io rename_io
  ultimately show ?thesis
    by (auto simp: on_fid_event_def process_fid_event_def Let_def split: option.split)
qed

lemma queue_ready_queue:
  "fa_queue (on_queue_ready os f) = fa_queue f \<or>
   (\<exists>x. fa_queue f = x # fa_queue (on_queue_ready os f))"
  by (auto simp: on_queue_ready_def fanotify_process_queued_def Let_def on_dm_def next_answer_def split: list.split)

lemma step_conserves:
  assumes "thread_step os f (s, t) g"
  shows "fa_queue f @ s = t @ fa_queue g"
  using assms
proof (cases rule: thread_step.cases)
  case (open_event m)
  then show ?thesis using perm_event_sends [of os m f] by (auto simp: sent_between_def)
next
  case queue_ready
  then show ?thesis using queue_ready_queue [of os f] by (auto simp: taken_between_def)
next
  case (notification m)
  then show ?thesis using fid_event_io [of f os m] by (simp add: io_step_def)
qed

lemma run_conserves: "thread_run os f (s, t) g \<Longrightarrow> fa_queue f @ s = t @ fa_queue g"
proof (induction f "(s, t)" g arbitrary: s t rule: thread_run.induct)
  case (run_step f s t g s' t' k)
  have "fa_queue g @ s' = t' @ fa_queue k" using run_step.hyps(3) by (rule step_conserves)
  then show ?case using run_step.hyps(2) by (metis append.assoc)
qed simp

text \<open>
  The two ends of the queue as a sequence of calls: the permission thread reports, the main thread
  takes. The kernel answers each call; \<open>n\<close> counts the answers, \<open>w\<close> the messages that wait.
\<close>

datatype queue_call = Report_call event_msg | Take_call

primrec queue_call_step :: "fan_env \<Rightarrow> queue_call \<Rightarrow> fan \<Rightarrow> fan" where
  "queue_call_step env (Report_call m) f = fanotify_queue_event env m f"
| "queue_call_step env Take_call f = snd (fanotify_process_queued env f)"

definition reported :: "queue_call list \<Rightarrow> event_msg list" where
  "reported cs = List.map_filter (\<lambda>c. case c of Report_call m \<Rightarrow> Some m | Take_call \<Rightarrow> None) cs"

lemma reported_simps [simp]:
  "reported [] = []" "reported (Report_call m # cs) = m # reported cs" "reported (Take_call # cs) = reported cs"
  by (simp_all add: reported_def List.map_filter_def)

text \<open>The reports the kernel takes, and how many the main thread gets.\<close>

fun admitted :: "fan_env \<Rightarrow> nat \<Rightarrow> queue_call list \<Rightarrow> event_msg list" where
  "admitted env n [] = []"
| "admitted env n (Report_call m # cs) =
     (if fe_queue_write env n then m # admitted env (Suc n) cs else admitted env (Suc n) cs)"
| "admitted env n (Take_call # cs) = admitted env (Suc n) cs"

fun delivered :: "fan_env \<Rightarrow> nat \<Rightarrow> nat \<Rightarrow> queue_call list \<Rightarrow> nat" where
  "delivered env n w [] = 0"
| "delivered env n w (Report_call m # cs) =
     delivered env (Suc n) (if fe_queue_write env n then Suc w else w) cs"
| "delivered env n w (Take_call # cs) =
     (if fe_queue_read env n \<and> w > 0 then Suc (delivered env (Suc n) (w - 1) cs) else delivered env (Suc n) w cs)"

lemma report_call_effect:
  fixes env :: fan_env and m :: event_msg and f :: fan
  assumes "fa_pipe f"
  defines "g \<equiv> fanotify_queue_event env m f"
  shows "fa_queue g = (if fe_queue_write env (fa_n f) then fa_queue f @ [m] else fa_queue f)"
    and "fa_dropped g = (if fe_queue_write env (fa_n f) then fa_dropped f else Suc (fa_dropped f))"
    and "fa_n g = Suc (fa_n f)" and "fa_pipe g" and "fa_stuck g = fa_stuck f"
    and "fe_queue_write env (fa_n f) \<Longrightarrow> fa_dm g = fa_dm f"
  using assms(1) unfolding g_def
  by (simp_all add: fanotify_queue_event_def Let_def next_answer_def fan_log_def on_dm_def)

lemma take_call_effect:
  fixes env :: fan_env and f :: fan
  assumes "fa_pipe f" and "\<not> fa_stuck f"
  defines "g \<equiv> snd (fanotify_process_queued env f)"
  shows "fa_queue g = (if fe_queue_read env (fa_n f) then tl (fa_queue f) else fa_queue f)"
    and "fa_dropped g = fa_dropped f" and "fa_n g = Suc (fa_n f)" and "fa_pipe g" and "\<not> fa_stuck g"
    and "fa_dm g = (if fe_queue_read env (fa_n f) \<and> fa_queue f \<noteq> []
      then process_msg (fe_dm env) (hd (fa_queue f)) (fa_dm f) else fa_dm f)"
  using assms(1,2) unfolding g_def
  by (simp_all add: fanotify_process_queued_def Let_def next_answer_def on_dm_def split: list.split)

lemma admitted_length: "length (admitted env n cs) \<le> length (reported cs)"
  by (induction env n cs rule: admitted.induct) (auto intro: le_SucI)

lemma calls_deliver:
  assumes "fa_pipe f" and "\<not> fa_stuck f"
  shows "let arrived = fa_queue f @ admitted env (fa_n f) cs; k = delivered env (fa_n f) (length (fa_queue f)) cs;
      g = fold (queue_call_step env) cs f
    in fa_queue g = drop k arrived \<and>
       fa_dropped g + length (admitted env (fa_n f) cs) = fa_dropped f + length (reported cs) \<and>
       (admitted env (fa_n f) cs = reported cs \<longrightarrow> fa_dm g = fold (process_msg (fe_dm env)) (take k arrived) (fa_dm f))"
  using assms
proof (induction cs arbitrary: f)
  case (Cons c cs)
  show ?case
  proof (cases c)
    case (Report_call m)
    note e = report_call_effect [OF Cons.prems(1), where env = env and m = m]
    have "\<not> fa_stuck (fanotify_queue_event env m f)" using e(5) Cons.prems(2) by simp
    note ih = Cons.IH [OF e(4) this, unfolded Let_def e(1,2,3)]
    have "admitted env (Suc (fa_n f)) cs \<noteq> m # reported cs"
      using admitted_length [of env "Suc (fa_n f)" cs] by auto
    then show ?thesis using ih e(6) unfolding Report_call Let_def by (cases "fe_queue_write env (fa_n f)") simp_all
  next
    case Take_call
    note e = take_call_effect [OF Cons.prems, where env = env]
    note ih = Cons.IH [OF e(4,5), unfolded Let_def e(1,2,3,6)]
    show ?thesis
      using ih unfolding Take_call Let_def
      by (cases "fe_queue_read env (fa_n f)"; cases "fa_queue f") simp_all
  qed
qed simp



text \<open>What every message in the queue is.\<close>

definition queued_message :: "event_msg \<Rightarrow> bool" where
  "queued_message m \<longleftrightarrow>
     msg_fits m \<and> m_msg_type m = RGUARD_MSG_FILE_EVENT \<and> m_proto_version m = RGUARD_PROTO_VERSION \<and>
     m_op_type m = RGUARD_OP_OPEN \<and>
     m_source_type m \<in> {RGUARD_SOURCE_FTP, RGUARD_SOURCE_CLOUD_SYNC, RGUARD_SOURCE_HOST} \<and>
     m_flags m \<in> {RGUARD_FLAG_RISKY, RGUARD_FLAG_RISKY OR RGUARD_FLAG_BACKED_UP,
       RGUARD_FLAG_RISKY OR RGUARD_FLAG_BACKUP_FAILED}"

lemma step_sends_typed:
  assumes "thread_step os f (s, t) g"
  shows "\<forall>m \<in> set s. queued_message m"
  using assms
proof (cases rule: thread_step.cases)
  case (open_event e)
  obtain ms where "fa_queue g = fa_queue f @ ms" "\<forall>m \<in> set ms. queued_message m"
    using perm_event_sends [of os e f] unfolding open_event queued_message_def open_report_def
    by (cases "has_mask (pm_mask e) FAN_OPEN_PERM") fastforce+
  then show ?thesis using open_event by (simp add: sent_between_def)
qed auto

lemma run_sends_typed: "thread_run os f (s, t) g \<Longrightarrow> \<forall>m \<in> set s. queued_message m"
proof (induction f "(s, t)" g arbitrary: s t rule: thread_run.induct)
  case (run_step f s t g s' t' k)
  then show ?case using step_sends_typed [OF run_step.hyps(3)] by auto
qed simp

text \<open>
  C14: Every message the main thread takes from the queue, and every message in it, is a complete
  report of one open request: its fields fit the fixed format, it fills exactly one datagram, and
  it is a risky open of one of the three channels.
\<close>

theorem queued_messages_typed:
  assumes "thread_run os f (sent, taken) g" and "fa_queue f = []" and "m \<in> set (taken @ fa_queue g)"
  shows "queued_message m \<and> length (msg_encode m) = RGUARD_MSG_SIZE"
proof -
  have "sent = taken @ fa_queue g" using run_conserves [OF assms(1)] assms(2) by simp
  then have "queued_message m" using run_sends_typed [OF assms(1)] assms(3) by blast
  then show ?thesis using length_msg_encode by (simp add: queued_message_def)
qed

definition lone_fan :: fan where
  "lone_fan = sample_fan\<lparr>fa_ctx := False\<rparr>"

lemma srv_channel: "find_channel ''/srv/a'' lone_fan = Some sample_channel"
  by (simp add: find_channel_def lone_fan_def sample_fan_def sample_channel_def Let_def match_path_def
      path_prefix_match_def strncmp_eq_def)

lemma nobody_listed: "\<not> scorer_is_blacklisted apply_defaults (Some u) (Some ip)"
  by (simp add: scorer_is_blacklisted_def apply_defaults_def rguard_hash_lookup_def)

text \<open>A process that \<open>/proc\<close> does not show.\<close>

lemma sample_identity:
  "op_resolve (channel_ops sample_os Local_channel) ev ctx_zero f =
    (Some (local_ctx ''local'' ''unknown'' 0 ctx_zero), if ev_pid ev \<le> 0 then f else next_answer f)"
  by (simp add: channel_ops_def local_ops_def local_resolve_def fan_proc_stat_def sample_os_def sample_fan_env_def
      ctx_zero_def)

lemma gate_without_policy:
  assumes "\<not> fa_ctx f"
  shows "fanotify_gate_allow env k p src f = (True, next_answer f)"
proof -
  have "fangate_allow g (Some k) i t 0 = (True, g)" for g i t by (simp add: fangate_allow_def)
  then show ?thesis using assms by (simp add: fanotify_gate_allow_def gate_window_def)
qed

lemma sample_queue: "fe_queue_write (fo_env sample_os) n"
  by (simp add: sample_os_def sample_fan_env_def)

lemma lone_open:
  "\<exists>m. fa_queue (on_perm_event sample_os (sample_request 11 ''/srv/a'') lone_fan) = [m]"
proof -
  let ?ev = "perm_event (sample_request 11 ''/srv/a'') ''/srv/a''" and ?ops = "channel_ops sample_os Local_channel"
  let ?ctx = "derive_key (local_ctx ''local'' ''unknown'' 0 ctx_zero)" and ?f = "next_answer lone_fan"
  have path: "fanotify_resolve_path (pm_link (sample_request 11 ''/srv/a'')) = Some ''/srv/a''"
    by (simp add: sample_request_def fanotify_resolve_path_def RGUARD_PATH_MAX_def cstr_of_id)
  have "dm_policy (fa_dm ?f) = apply_defaults"
    by (simp add: lone_fan_def sample_fan_def next_answer_def sample_daemon_def)
  then have h: "fan_channel_dispatch sample_os Local_channel ?ev lone_fan = handle_open (fo_env sample_os) ?ops ?ev ?ctx ?f"
    by (simp add: fan_channel_dispatch_def fan_channel_handle_def sample_identity nobody_listed)
      (simp add: sample_request_def)
  have b: "fanotify_do_backup (ev_file ?ev) p s d ?f = (RGUARD_ERR_BACKUP, ?f)" for p s d
    by (simp add: fanotify_do_backup_def sample_request_def no_file_def)
  obtain m f2 where m: "build_message ?ops ?ev ?ctx ?f = (m, f2)" by fastforce
  then have f2: "\<not> fa_ctx f2" "fa_queue f2 = []" "fa_pipe f2"
    using build_message_core [OF m] by (simp_all add: same_core_def lone_fan_def sample_fan_def next_answer_def)
  have "fa_queue (snd (handle_open (fo_env sample_os) ?ops ?ev ?ctx ?f)) = [note_backup RGUARD_ERR_BACKUP ?ev m]"
    unfolding handle_open_def b m Let_def prod.case snd_conv queue_gated_def gate_without_policy [OF f2(1)]
    using f2 sample_queue by (simp add: fanotify_queue_event_def next_answer_def)
  then show ?thesis
    using h path srv_channel
    by (auto simp: on_perm_event_def handle_perm_def respond_def sample_channel_def split: prod.split)
qed

theorem queued_messages_typed_witness:
  "\<exists>m. fa_queue (on_perm_event sample_os (sample_request 11 ''/srv/a'') lone_fan) = [m] \<and> queued_message m"
proof -
  let ?g = "on_perm_event sample_os (sample_request 11 ''/srv/a'') lone_fan"
  have t: "fa_thread lone_fan" and q: "fa_queue lone_fan = []" by (simp_all add: lone_fan_def sample_fan_def)
  have "thread_run sample_os lone_fan ([] @ sent_between lone_fan ?g, [] @ []) ?g"
    by (rule thread_run.run_step [OF thread_run.run_refl thread_step.open_event [OF t refl]])
  from queued_messages_typed [OF this q] show ?thesis using lone_open by fastforce
qed

end
