(* ===== verification/Fan_Sound.thy ===== *)
theory Fan_Sound
  imports Fan_Claims
begin

text \<open>
  The daemon behind the channels: whatever the two threads do, its invariant holds and a blocked
  session stays blocked; and the block action of a channel follows the verdict on the very session
  the message belongs to.
\<close>

definition fan_sound :: "fan \<Rightarrow> fan \<Rightarrow> bool" where
  "fan_sound f g \<longleftrightarrow> sound_step (fa_dm f) (fa_dm g)"

lemma fan_sound_refl [simp]: "fan_sound f f"
  by (simp add: fan_sound_def)

lemma fan_sound_trans [trans]: "fan_sound f g \<Longrightarrow> fan_sound g h \<Longrightarrow> fan_sound f h"
  by (auto simp: fan_sound_def intro: sound_trans)

lemma fan_sound_quiet: "fan_sound f g \<Longrightarrow> quiet (fa_dm g) (fa_dm h) \<Longrightarrow> fan_sound f h"
  by (auto simp: fan_sound_def intro: sound_trans quiet_sound)

lemma fan_sound_same: "fan_sound f g \<Longrightarrow> fa_dm h = fa_dm g \<Longrightarrow> fan_sound f h"
  by (simp add: fan_sound_def)

lemma fan_sound_log [simp]: "fan_sound f g \<Longrightarrow> fan_sound f (fan_log lv ev sk det g)"
  by (erule fan_sound_quiet) (simp add: fan_log_def on_dm_def quiet_log)

lemma fan_sound_fields [simp]:
  "fan_sound f (g\<lparr>fa_stuck := b\<rparr>) = fan_sound f g" "fan_sound f (g\<lparr>fa_n := n\<rparr>) = fan_sound f g"
  "fan_sound f (g\<lparr>fa_gate := x\<rparr>) = fan_sound f g" "fan_sound f (g\<lparr>fa_queue := q\<rparr>) = fan_sound f g"
  "fan_sound f (g\<lparr>fa_dropped := n\<rparr>) = fan_sound f g" "fan_sound f (g\<lparr>fa_rewalk := b\<rparr>) = fan_sound f g"
  "fan_sound f (next_answer g) = fan_sound f g" "fan_sound f (send_kill p s g) = fan_sound f g"
  "fan_sound f (g\<lparr>fa_responses := r\<rparr>) = fan_sound f g" "fan_sound f (add_mark path g a b) = fan_sound f g"
  by (simp_all add: fan_sound_def next_answer_def send_kill_def add_mark_def)

lemma fan_sound_world: "fan_sound f g \<Longrightarrow> world_step (dm_world (fa_dm g)) (h (dm_world (fa_dm g))) \<Longrightarrow>
    fan_sound f (on_dm (on_world h) g)"
  by (erule fan_sound_quiet) (simp add: on_dm_def quiet_on_world)

lemma fan_sound_clock [simp]: "fan_sound f g \<Longrightarrow> fan_sound f (on_dm (on_world tick_clock) g)"
  by (erule fan_sound_world) (simp add: tick_clock_def)

lemma fan_sound_set_file [simp]: "fan_sound f g \<Longrightarrow> fan_sound f (set_file p v g)"
  unfolding set_file_def by (erule fan_sound_world) simp

lemma fan_sound_stat: "fan_proc_stat env pid n g = (r, h) \<Longrightarrow> fan_sound f g \<Longrightarrow> fan_sound f h"
  by (auto simp: fan_proc_stat_def)

lemma find_session_sound:
  assumes "find_session k (fa_dm f) = (r, d)" and "length k < SESSION_KEY_LEN"
  shows "fan_sound f (f\<lparr>fa_dm := d\<rparr>)"
proof (cases "daemon_inv (fa_dm f)")
  case True
  from find_session_effect [OF this assms(2,1)] show ?thesis by (simp add: fan_sound_def)
qed (simp add: fan_sound_def sound_step_def)

subsection \<open>The channels\<close>

locale sound_channel = channel_contract +
  assumes resolve_sound: "op_resolve ops ev ctx_zero f = (r, g) \<Longrightarrow> fan_sound f g"
    and deny_sound: "op_deny ops = Some act \<Longrightarrow> fan_sound f (act ev ctx f)"
    and block_sound: "op_block ops = Some act \<Longrightarrow> length (cx_skey ctx) < SESSION_KEY_LEN \<Longrightarrow> fan_sound f (act ev ctx f)"

lemma local_kill_sound: "fan_sound f (local_kill env ev ctx f)"
  using fan_sound_stat [OF _ fan_sound_refl] by (auto simp: local_kill_def split: prod.split option.split)

interpretation loc: sound_channel "local_ops env"
proof
  fix ev f r g
  assume "op_resolve (local_ops env) ev ctx_zero f = (r, g)"
  then show "fan_sound f g"
    by (auto simp: local_ops_def local_resolve_def split: if_splits prod.splits option.splits
        dest!: fan_sound_stat [OF _ fan_sound_refl])
qed (auto simp: local_ops_def local_kill_sound)

lemma ftp_block_sound: "fan_sound f (ftp_block env alive ev ctx f)"
  using fan_sound_stat [OF _ fan_sound_refl]
  by (auto simp: ftp_block_def ftp_block_execute_def Let_def split: prod.split option.split)

lemma ftp_session_sound: "ftp_resolve_session env ft pid n k f = (r, g) \<Longrightarrow> fan_sound f g"
  by (auto simp: ftp_resolve_session_def ftp_parse_cmdline_def cmdline_log_def Let_def
      split: option.splits prod.splits if_splits)

lemma ftp_resolve_sound: "ftp_resolve env ft ev ctx f = (r, g) \<Longrightarrow> fan_sound f g"
  unfolding ftp_resolve_def Let_def
  by (auto split: prod.splits if_splits dest!: ftp_session_sound elim!: fan_sound_stat)

interpretation ftp: sound_channel "ftp_ops env ft alive"
  by unfold_locales (auto simp: ftp_ops_def ftp_block_sound intro: ftp_resolve_sound)

lemma kill_all_sound [simp]: "fan_sound f (kill_all alive sig pids g) = fan_sound f g"
proof (induction pids arbitrary: g)
  case (Cons p pids)
  then show ?case by (simp add: kill_all_def)
qed (simp add: kill_all_def)

lemma reaper_sound [simp]: "fan_sound f (reaper cl n pids pid g) = fan_sound f g"
  by (simp add: reaper_def Let_def)

lemma tree_sound:
  assumes "fan_sound f g"
  shows "fan_sound f (cloud_kill_process_tree env cl pid g)"
proof (cases "collect_children (TREE_CAP + 1) (cl_children cl (fa_n g)) TREE_CAP pid []")
  case None
  show ?thesis unfolding cloud_kill_process_tree_def Let_def None option.case using assms by simp
next
  case (Some r)
  obtain over pids where r: "r = (over, pids)" by fastforce
  have "fan_sound f (if over then tree_log pid (length pids) (g\<lparr>fa_n := n\<rparr>) else g\<lparr>fa_n := n\<rparr>)" for n
    using assms by (simp add: tree_log_def)
  then show ?thesis
    unfolding cloud_kill_process_tree_def Let_def Some r option.case prod.case using assms by simp
qed

lemma cloud_finish_sound:
  assumes "fan_sound f g"
  shows "fan_sound f (cloud_finish env cl cr task pid g)"
proof (cases "neo_croner_delete cr task")
  case None
  show ?thesis unfolding cloud_finish_def None option.case using assms by simp
next
  case (Some rc)
  show ?thesis unfolding cloud_finish_def Some option.case
    by (rule tree_sound) (use assms in simp)
qed

lemma save_task_sound: "fan_sound f g \<Longrightarrow> fan_sound f (save_task e task x c ts g)"
  unfolding save_task_def
  by (auto intro!: fan_sound_world world_step_stmt db_step.save_task)

lemma cloud_block_task_sound: "fan_sound f g \<Longrightarrow> fan_sound f (cloud_block_task env cl task pid eid g)"
proof -
  assume g: "fan_sound f g"
  obtain ts d where st: "stamp (fa_dm (next_answer g)) = (ts, d)" by fastforce
  have "quiet (fa_dm (next_answer g)) d" using quiet_stamp [of "fa_dm (next_answer g)"] by (simp add: st)
  with g have d: "fan_sound f ((next_answer g)\<lparr>fa_dm := d\<rparr>)"
    by - (rule fan_sound_quiet [of f "next_answer g"], simp_all)
  show ?thesis
  proof (cases "neo_croner_query (cl_croner cl (fa_n g)) task 256 4096")
    case None
    show ?thesis unfolding cloud_block_task_def Let_def st prod.case None option.case using d by simp
  next
    case (Some q)
    obtain rc expression command where q: "q = (rc, expression, command)" by (metis prod.exhaust)
    show ?thesis
      unfolding cloud_block_task_def Let_def st prod.case Some q option.case
      by (intro cloud_finish_sound fan_sound_log save_task_sound d)
  qed
qed

lemma cloud_block_sound: "length (cx_skey ctx) < SESSION_KEY_LEN \<Longrightarrow> fan_sound f (cloud_block env cl ev ctx f)"
  unfolding cloud_block_def Let_def
  by (auto intro!: cloud_block_task_sound find_session_sound split: prod.split)

interpretation cloud: sound_channel "cloud_ops env cl"
  by unfold_locales (auto simp: cloud_ops_def cloud_resolve_def cloud_block_sound split: option.splits if_splits)

lemma any_sound_channel: "sound_channel (channel_ops os k)"
  using loc.sound_channel_axioms ftp.sound_channel_axioms cloud.sound_channel_axioms
  by (cases k) (simp_all add: channel_ops_def)

interpretation chan: sound_channel "channel_ops os k"
  by (rule any_sound_channel)

subsection \<open>The handler\<close>

lemma gate_sound: "fanotify_gate_allow env k p src f = (ok, g) \<Longrightarrow> fan_sound f g"
  by (auto simp: fanotify_gate_allow_def split: prod.splits)

lemma queue_event_sound: "fan_sound f (fanotify_queue_event env m f)"
  by (simp add: fanotify_queue_event_def Let_def)

lemma queue_gated_sound: "fan_sound f (queue_gated env ops ev ctx m f)"
proof -
  obtain ok g where g: "fanotify_gate_allow env (cx_skey ctx) (ev_path ev) (op_source ops) f = (ok, g)" by fastforce
  show ?thesis
    using gate_sound [OF g] fan_sound_trans [OF _ queue_event_sound] by (simp add: queue_gated_def g)
qed

lemma do_backup_sound: "fan_sound f (snd (fanotify_do_backup file path store dir f))"
  by (auto simp: fanotify_do_backup_def Let_def split: option.splits prod.splits)

lemma build_sound:
  assumes "build_message ops ev ctx f = (m, g)"
  shows "fan_sound f g" and "length (m_client_ip m) < RGUARD_IP_LEN"
  using assms length_snprintf_s [of 48]
  by (auto simp: build_message_def fanotify_build_event_msg_def with_identity_def RGUARD_IP_LEN_def)

lemma fill_identity:
  assumes "fanotify_fill_notify_msg env ev k m f = (Some m', g)"
  shows "m_client_ip m' = m_client_ip m" and "m_username m' = m_username m"
  using assms by (auto simp: fanotify_fill_notify_msg_def Let_def split: if_splits prod.splits)

lemma fill_sound: "fanotify_fill_notify_msg env ev k m f = (r, g) \<Longrightarrow> fan_sound f g"
  by (auto simp: fanotify_fill_notify_msg_def Let_def split: if_splits prod.splits dest!: gate_sound
      dest: fan_sound_trans [of f "next_answer f", rotated])

lemma submit_sound:
  assumes "fanotify_submit_event env m k f = (b, g)" and "length (m_client_ip m) < RGUARD_IP_LEN"
    and "length k < SESSION_KEY_LEN"
  shows "fan_sound f g"
proof (cases "fa_ctx f")
  case True
  let ?f = "f\<lparr>fa_dm := process_msg (fe_dm env) m (fa_dm f)\<rparr>"
  obtain r d where s: "find_session k (fa_dm ?f) = (r, d)" by fastforce
  have "fan_sound f ?f" using sound_process [OF assms(2)] by (simp add: fan_sound_def)
  also have "fan_sound ?f (?f\<lparr>fa_dm := d\<rparr>)" using s assms(3) by (rule find_session_sound)
  finally show ?thesis using assms(1) True s by (auto simp: fanotify_submit_event_def split: option.splits)
qed (use assms(1) in \<open>simp add: fanotify_submit_event_def\<close>)

lemma derived_key_short: "length (cx_skey (derive_key ctx)) < SESSION_KEY_LEN"
  by (simp add: derive_key_def skey_short)

context sound_channel
begin

lemma deny_action_sound: "fan_sound f (run_action (op_deny ops) ev ctx f)"
  by (auto simp: run_action_def deny_sound split: option.split)

lemma block_action_sound:
  "length (cx_skey ctx) < SESSION_KEY_LEN \<Longrightarrow> fan_sound f (run_action (op_block ops) ev ctx f)"
  by (auto simp: run_action_def block_sound split: option.split)

lemma denied_sound: "fan_sound f (snd (handle_denied env ops ev ctx f))"
proof -
  let ?f1 = "run_action (op_deny ops) ev ctx
    (fan_log LOG_WARN ''FANOTIFY_BLACKLIST_DENY'' (Some (cx_skey ctx)) (deny_detail ev ctx) f)"
  obtain m f2 where b: "build_message ops ev ctx ?f1 = (m, f2)" by fastforce
  have "fan_sound f ?f1" by (rule fan_sound_trans [OF _ deny_action_sound]) simp
  also note build_sound(1) [OF b]
  also note queue_gated_sound
  finally show ?thesis unfolding handle_denied_def Let_def b prod.case snd_conv .
qed

lemma open_sound: "fan_sound f (snd (handle_open env ops ev ctx f))"
proof -
  obtain rc f1 where d: "fanotify_do_backup (ev_file ev) (ev_path ev) (p_store_path (dm_policy (fa_dm f)))
      (op_dir ops) f = (rc, f1)" by fastforce
  obtain m f2 where b: "build_message ops ev ctx f1 = (m, f2)" by fastforce
  have "fan_sound f f1" using do_backup_sound [of f] d by (metis snd_conv)
  also note build_sound(1) [OF b]
  also note queue_gated_sound
  finally show ?thesis unfolding handle_open_def d Let_def b prod.case snd_conv .
qed

lemma notify_sound:
  assumes "length (cx_skey ctx) < SESSION_KEY_LEN"
  shows "fan_sound f (snd (handle_notify env ops ev ctx f))"
proof -
  obtain m0 f1 where b: "build_message ops ev ctx f = (m0, f1)" by fastforce
  obtain m1 f2 where fl: "fanotify_fill_notify_msg env ev (cx_skey ctx) m0 f1 = (m1, f2)" by fastforce
  have f2: "fan_sound f f2" using build_sound(1) [OF b] fill_sound [OF fl] by (rule fan_sound_trans)
  show ?thesis
  proof (cases m1)
    case None
    then show ?thesis using f2 by (simp add: handle_notify_def b fl)
  next
    case (Some m)
    obtain bl f3 where s: "fanotify_submit_event env m (cx_skey ctx) f2 = (bl, f3)" by fastforce
    have "length (m_client_ip m) < RGUARD_IP_LEN"
      using build_sound(2) [OF b] fill_identity(1) [OF fl [unfolded Some]] by simp
    from fan_sound_trans [OF f2 submit_sound [OF s this assms]] have "fan_sound f f3" .
    then show ?thesis
      using fan_sound_trans [OF _ block_action_sound [OF assms]] by (auto simp: handle_notify_def b fl Some s)
  qed
qed

lemma handle_sound: "fan_sound f (snd (fan_channel_handle env ops ev f))"
proof -
  obtain r g where r: "op_resolve ops ev ctx_zero f = (r, g)" by fastforce
  note g = resolve_sound [OF r]
  note denied = fan_sound_trans [OF g denied_sound] and opened = fan_sound_trans [OF g open_sound]
    and noted = fan_sound_trans [OF g notify_sound [OF derived_key_short]]
  show ?thesis
    using g denied opened noted by (auto simp: fan_channel_handle_def r Let_def split: option.split)
qed

end

subsection \<open>The threads\<close>

lemma dispatch_sound: "fan_sound f (snd (fan_channel_dispatch os k ev f))"
  by (simp add: fan_channel_dispatch_def chan.handle_sound)

lemma response_sound [simp]: "fan_sound f g \<Longrightarrow> fan_sound f (write_fanotify_response env fd r g)"
  by (simp add: write_fanotify_response_def)

lemma perm_event_sound: "fan_sound f (on_perm_event os m f)"
proof -
  have d: "fan_sound f g" if "fan_channel_dispatch os k ev f = (r, g)" for k ev r g
    using dispatch_sound [of f os k ev] that by simp
  show ?thesis
    by (auto simp: on_perm_event_def handle_perm_def respond_def split: option.split prod.split dest!: d)
qed

lemma queue_ready_sound:
  assumes "\<forall>m \<in> set (fa_queue f). length (m_client_ip m) < RGUARD_IP_LEN"
  shows "fan_sound f (on_queue_ready os f)"
  using assms sound_process
  by (auto simp: on_queue_ready_def fanotify_process_queued_def Let_def fan_sound_def on_dm_def next_answer_def
      split: list.split)

lemma mark_add_sound: "fanotify_mark_add env p f = (r, g) \<Longrightarrow> fan_sound f g"
  by (auto simp: fanotify_mark_add_def Let_def mark_failed_def split: prod.splits)

lemma mark_walk_sound: "mark_walk env ds c f = (r, g) \<Longrightarrow> fan_sound f g"
proof (induction ds arbitrary: c f)
  case (Cons d ds)
  obtain err f1 where d: "fanotify_mark_add env d f = (err, f1)" by fastforce
  obtain a b where "c = (a, b)" by fastforce
  with Cons.prems d obtain c' where "mark_walk env ds c' f1 = (r, g)" by auto
  then show ?case using fan_sound_trans [OF mark_add_sound [OF d] Cons.IH] by simp
qed simp

lemma tree_add_sound: "fan_sound f (snd (fanotify_mark_tree_add env p f))"
proof -
  obtain m e f1 where w: "mark_walk env (fe_walk env (fa_n f) p) (0, 0) (next_answer f) = ((m, e), f1)"
    by (metis surj_pair)
  have "fan_sound f (next_answer f)" by simp
  from fan_sound_trans [OF this mark_walk_sound [OF w]] show ?thesis
    by (simp add: fanotify_mark_tree_add_def w)
qed

lemma dispatch_one_sound: "fan_sound f (dispatch_one (fan_channel_dispatch os) m pid p q f)"
  using dispatch_sound by (auto simp: dispatch_one_def Let_def split: option.split)

lemma fold_sound:
  assumes "\<And>x f. fan_sound f (h x f)"
  shows "fan_sound f (fold h xs f)"
proof (induction xs arbitrary: f)
  case (Cons x xs)
  from fan_sound_trans [OF assms [of f x] this] show ?case by simp
qed simp

lemma dispatch_notify_sound: "fan_sound f (dispatch_notify (fan_channel_dispatch os) m pid p f)"
  unfolding dispatch_notify_def by (rule fold_sound) (rule dispatch_one_sound)

lemma fid_event_sound: "fan_sound f (on_fid_event os m f)"
proof -
  note two = fan_sound_trans [OF tree_add_sound dispatch_one_sound] fan_sound_trans [OF tree_add_sound dispatch_notify_sound]
  have "fan_sound f (snd (process_rename_event env (fan_channel_dispatch os) m f))" for env
    using two dispatch_one_sound by (auto simp: process_rename_event_def Let_def split: option.split)
  then show ?thesis
    using two dispatch_notify_sound
    by (auto simp: on_fid_event_def process_fid_event_def Let_def split: option.split)
qed

lemma step_sound:
  assumes "thread_step os f l g" and "\<forall>m \<in> set (fa_queue f). length (m_client_ip m) < RGUARD_IP_LEN"
  shows "fan_sound f g"
  using assms by (auto elim!: thread_stepE intro: perm_event_sound queue_ready_sound fid_event_sound)

lemma run_sound: "thread_run os f (s, t) g \<Longrightarrow> fa_queue f = [] \<Longrightarrow> fan_sound f g"
proof (induction f "(s, t)" g arbitrary: s t rule: thread_run.induct)
  case (run_step f s t g s' t' k)
  have "s = t @ fa_queue g" using run_conserves [OF run_step.hyps(1)] run_step.prems by simp
  then have "\<forall>m \<in> set (fa_queue g). queued_message m" using run_sends_typed [OF run_step.hyps(1)] by simp
  then have "\<forall>m \<in> set (fa_queue g). length (m_client_ip m) < RGUARD_IP_LEN"
    by (simp add: queued_message_def msg_fits_def RGUARD_IP_LEN_def)
  from fan_sound_trans [OF run_step.hyps(2) [OF run_step.prems] step_sound [OF run_step.hyps(3) this]] show ?case .
qed simp

text \<open>
  However the permission thread and the main thread interleave over the three channels, from
  an empty queue on, the daemon's session table, policy and database stay well formed, the database
  moves by its statements only, and a session that was blocked stays blocked.
\<close>

theorem threads_keep_daemon_sound:
  assumes "thread_run os f (sent, taken) g" and "fa_queue f = []" and "daemon_inv (fa_dm f)"
  shows "daemon_inv (fa_dm g) \<and> db_step\<^sup>*\<^sup>* (w_db (dm_world (fa_dm f))) (w_db (dm_world (fa_dm g))) \<and>
    {k. was_blocked (fa_dm f) k} \<subseteq> {k. was_blocked (fa_dm g) k}"
  using run_sound [OF assms(1,2)] assms(3)
  by (auto simp: fan_sound_def sound_step_def keeps_blocked_def was_blocked_def world_step_def)

theorem threads_keep_daemon_sound_witness:
  "daemon_inv (fa_dm (on_perm_event sample_os (sample_request 11 ''/srv/a'') lone_fan))"
proof -
  let ?g = "on_perm_event sample_os (sample_request 11 ''/srv/a'') lone_fan"
  have t: "fa_thread lone_fan" and q: "fa_queue lone_fan = []" by (simp_all add: lone_fan_def sample_fan_def)
  have run: "thread_run sample_os lone_fan ([] @ sent_between lone_fan ?g, [] @ []) ?g"
    by (rule thread_run.run_step [OF thread_run.run_refl thread_step.open_event [OF t refl]])
  have "daemon_inv (fa_dm lone_fan)" using sample_daemon_inv by (simp add: lone_fan_def sample_fan_def)
  from threads_keep_daemon_sound [OF run q this, THEN conjunct1] show ?thesis .
qed

subsection \<open>Blocking after the verdict\<close>

lemma submitted_verdict:
  assumes "daemon_inv (fa_dm f)" and "length (m_client_ip m) < RGUARD_IP_LEN" and "length k < SESSION_KEY_LEN"
  shows "fst (fanotify_submit_event env m k f) \<longleftrightarrow> fa_ctx f \<and> was_blocked (process_msg (fe_dm env) m (fa_dm f)) k"
proof -
  let ?d = "process_msg (fe_dm env) m (fa_dm f)"
  have inv: "daemon_inv ?d" using sound_process [OF assms(2)] assms(1) by (simp add: sound_step_def)
  obtain r d where s: "find_session k ?d = (r, d)" by fastforce
  note b = find_session_blocked [OF inv assms(3) s] and e = find_session_effect [OF inv assms(3) s]
  have "(case r of Some i \<Rightarrow> s_blocked (the_session i d) | None \<Rightarrow> False) \<longleftrightarrow> was_blocked ?d k"
    unfolding b(1) [symmetric] using b(2) e by (auto simp: was_blocked_def split: option.split)
  then show ?thesis by (auto simp: fanotify_submit_event_def s)
qed

end
