(* ===== verification/Fan_Reports.thy ===== *)
theory Fan_Reports
  imports Fan_Sound
begin

text \<open>
  What an allowed open leaves behind: the backup and the report about it; the session the report
  belongs to; the channel a path belongs to; what happens to a report the queue cannot take.
\<close>

subsection \<open>The backup of an opened file\<close>

abbreviation fan_files :: "fan \<Rightarrow> string \<Rightarrow> string option" where
  "fan_files f \<equiv> w_files (dm_world (fa_dm f))"

text \<open>A copy that counts as one: a prefix of the bytes, at least as long as \<open>fstat\<close> said.\<close>

definition copy_of :: "event_file \<Rightarrow> string \<Rightarrow> bool" where
  "copy_of file c \<longleftrightarrow>
     (\<exists>st. ef_stat file = Some st \<and> prefix c (ef_bytes file) \<and>
        (c = ef_bytes file \<or> unat (fst_size st) \<le> length c))"

lemma fan_files_log [simp]: "fan_files (fan_log a b c d f) = fan_files f"
  by (simp add: fan_log_def on_dm_def log_d_def on_world_def write_log_def)

lemma fan_files_set [simp]: "fan_files (set_file p v f) = (fan_files f)(p := v)"
  by (simp add: set_file_def on_dm_def on_world_def)

lemma backup_cases:
  fixes store dir path
  defines "bk \<equiv> fan_backup_path store dir path"
  assumes "fanotify_do_backup file path store dir f = (rc, g)"
  obtains (failed) "rc = RGUARD_ERR_BACKUP" "fan_files g = fan_files f"
    | (there) "fan_files f bk \<noteq> None" "rc = RGUARD_OK" "fan_files g = fan_files f"
    | (removed) "fan_files f bk = None" "rc = RGUARD_ERR_BACKUP" "fan_files g = (fan_files f)(bk := None)"
    | (made) st bytes where "ef_stat file = Some st" "fan_files f bk = None" "rc = RGUARD_OK"
        "rguard_copy_fd (ef_copy file) (ef_bytes file) [] (unat (fst_size st)) = (0, bytes)"
        "fan_files g = (fan_files f)(bk := Some bytes)"
proof (cases "ef_stat file")
  case None
  then show ?thesis using assms failed by (simp add: fanotify_do_backup_def)
next
  case (Some st)
  note unf = assms(2) [unfolded fanotify_do_backup_def Some option.case Let_def, folded bk_def]
  consider "RGUARD_PATH_MAX \<le> length bk" | "length bk < RGUARD_PATH_MAX" "fan_files f bk \<noteq> None"
    | "length bk < RGUARD_PATH_MAX" "fan_files f bk = None" "\<not> ef_create file"
    | "length bk < RGUARD_PATH_MAX" "fan_files f bk = None" "ef_create file" by linarith
  then show ?thesis
  proof cases
    case 1
    then have "rc = RGUARD_ERR_BACKUP" "fan_files g = fan_files f" using unf by auto
    then show ?thesis by (rule failed)
  next
    case 2
    then have "rc = RGUARD_OK" "g = f" using unf by simp_all
    then show ?thesis using there [OF 2(2)] by simp
  next
    case 3
    then have "rc = RGUARD_ERR_BACKUP" "g = f" using unf by simp_all
    then show ?thesis using failed by simp
  next
    case 4
    obtain cr bytes where c: "rguard_copy_fd (ef_copy file) (ef_bytes file) [] (unat (fst_size st)) = (cr, bytes)"
      by fastforce
    show ?thesis
    proof (cases "cr = 0")
      case True
      then have "rc = RGUARD_OK" "g = set_file bk (Some bytes) f" using 4 unf c by simp_all
      then show ?thesis using made [OF Some 4(2)] c True by simp
    next
      case False
      then have "rc = RGUARD_ERR_BACKUP" "g = set_file bk None f" using 4 unf c by simp_all
      then show ?thesis using removed [OF 4(2)] by simp
    qed
  qed
qed

lemma backup_result:
  assumes "fanotify_do_backup file path store dir f = (rc, g)"
  shows "\<forall>p. p \<noteq> fan_backup_path store dir path \<longrightarrow> fan_files g p = fan_files f p"
    and "fan_files f (fan_backup_path store dir path) = Some c \<Longrightarrow>
      fan_files g (fan_backup_path store dir path) = Some c"
    and "fan_files f (fan_backup_path store dir path) = None \<Longrightarrow>
      if rc = RGUARD_OK then \<exists>c. fan_files g (fan_backup_path store dir path) = Some c \<and> copy_of file c
      else fan_files g (fan_backup_path store dir path) = None"
    and "rc = RGUARD_OK \<Longrightarrow> fan_files g (fan_backup_path store dir path) \<noteq> None"
proof -
  let ?bk = "fan_backup_path store dir path"
  consider (failed) "rc = RGUARD_ERR_BACKUP" "fan_files g = fan_files f"
    | (there) "fan_files f ?bk \<noteq> None" "rc = RGUARD_OK" "fan_files g = fan_files f"
    | (removed) "fan_files f ?bk = None" "rc = RGUARD_ERR_BACKUP" "fan_files g = (fan_files f)(?bk := None)"
    | (made) st bytes where "ef_stat file = Some st" "fan_files f ?bk = None" "rc = RGUARD_OK"
        "rguard_copy_fd (ef_copy file) (ef_bytes file) [] (unat (fst_size st)) = (0, bytes)"
        "fan_files g = (fan_files f)(?bk := Some bytes)"
    using assms by (rule backup_cases)
  note cases = this
  show "\<forall>p. p \<noteq> ?bk \<longrightarrow> fan_files g p = fan_files f p"
    by (rule cases) auto
  show "fan_files f ?bk = Some c \<Longrightarrow> fan_files g ?bk = Some c"
    by (rule cases) auto
  show "rc = RGUARD_OK \<Longrightarrow> fan_files g ?bk \<noteq> None"
    by (rule cases) auto
  show "fan_files f ?bk = None \<Longrightarrow>
      if rc = RGUARD_OK then \<exists>c. fan_files g ?bk = Some c \<and> copy_of file c else fan_files g ?bk = None"
  proof (rule cases)
    fix st bytes
    assume m: "ef_stat file = Some st" "rc = RGUARD_OK" "fan_files g = (fan_files f)(?bk := Some bytes)"
      "rguard_copy_fd (ef_copy file) (ef_bytes file) [] (unat (fst_size st)) = (0, bytes)"
    have "bytes = ef_bytes file \<or> (\<exists>n. unat (fst_size st) \<le> n \<and> n \<le> length (ef_bytes file) \<and> bytes = take n (ef_bytes file))"
      using copy_fd_effect [of "ef_copy file" "ef_bytes file" "unat (fst_size st)"] m(4)
      by (auto split: if_splits)
    then have "copy_of file bytes" using m(1) by (auto simp: copy_of_def take_is_prefix)
    then show ?thesis using m by simp
  qed auto
qed

lemma queue_gated_files: "fan_files (queue_gated env ops ev ctx m f) = fan_files f"
proof -
  obtain ok g where g: "fanotify_gate_allow env (cx_skey ctx) (ev_path ev) (op_source ops) f = (ok, g)" by fastforce
  have "fan_files g = fan_files f" using gate_core [OF g] by (simp add: same_core_def)
  then show ?thesis
    by (simp add: queue_gated_def g fanotify_queue_event_def Let_def next_answer_def fan_log_def on_dm_def
        log_d_def on_world_def write_log_def)
qed

lemma backup_verdict:
  assumes "fanotify_do_backup file path store dir f = (rc, g)"
  shows "rc = RGUARD_OK \<longleftrightarrow> ef_stat file \<noteq> None \<and> length (fan_backup_path store dir path) < RGUARD_PATH_MAX \<and>
    fan_files g (fan_backup_path store dir path) \<noteq> None"
  using assms
  by (auto simp: fanotify_do_backup_def Let_def split: option.splits if_splits prod.splits)

text \<open>The backup and the message leave the gate, the queue and the count of answers alone.\<close>

lemma backup_keeps:
  assumes "fanotify_do_backup file path store dir f = (rc, g)"
  shows "fa_gate g = fa_gate f" "fa_n g = fa_n f" "fa_ctx g = fa_ctx f" "fa_pipe g = fa_pipe f"
    "fa_queue g = fa_queue f" "fa_dropped g = fa_dropped f" "dm_policy (fa_dm g) = dm_policy (fa_dm f)"
  using assms
  by (auto simp: fanotify_do_backup_def Let_def set_file_def fan_log_def on_dm_def on_world_def log_d_def
      split: option.splits if_splits prod.splits)

lemma build_keeps:
  assumes "build_message ops ev ctx f = (m, g)"
  shows "fa_gate g = fa_gate f" "fa_n g = fa_n f" "fa_ctx g = fa_ctx f" "fa_pipe g = fa_pipe f"
    "fa_queue g = fa_queue f" "fa_dropped g = fa_dropped f" "dm_policy (fa_dm g) = dm_policy (fa_dm f)"
  using assms
  by (auto simp: build_message_def fanotify_build_event_msg_def on_dm_def on_world_def tick_clock_def)

text \<open>Whether the gate lets the report of an event pass, in the state the identity was found in.\<close>

definition gate_passes :: "fan_env \<Rightarrow> fan_channel_ops \<Rightarrow> fanotify_event \<Rightarrow> fan_channel_ctx \<Rightarrow> fan \<Rightarrow> bool" where
  "gate_passes env ops ev ctx f = fst (fanotify_gate_allow env (cx_skey ctx) (ev_path ev) (op_source ops) f)"

lemma gate_passes_cong:
  assumes "fa_gate g = fa_gate f" "fa_n g = fa_n f" "fa_ctx g = fa_ctx f" "dm_policy (fa_dm g) = dm_policy (fa_dm f)"
  shows "gate_passes env ops ev ctx g = gate_passes env ops ev ctx f"
  using assms by (simp add: gate_passes_def fanotify_gate_allow_def gate_window_def case_prod_beta)

lemma queue_gated_sends:
  fixes env :: fan_env and ops :: fan_channel_ops and ev :: fanotify_event and ctx :: fan_channel_ctx
    and m :: event_msg and f :: fan
  defines "g \<equiv> queue_gated env ops ev ctx m f"
  shows "fa_queue g = (if gate_passes env ops ev ctx f \<and> fa_pipe f \<and> fe_queue_write env (Suc (fa_n f))
      then fa_queue f @ [m] else fa_queue f)"
    and "fa_dropped g = (if gate_passes env ops ev ctx f \<and> fa_pipe f \<and> \<not> fe_queue_write env (Suc (fa_n f))
      then Suc (fa_dropped f) else fa_dropped f)"
  unfolding g_def
  by (simp_all add: queue_gated_def gate_passes_def fanotify_gate_allow_def fanotify_queue_event_def Let_def
      next_answer_def fan_log_def on_dm_def case_prod_beta)

text \<open>The backup of the event's file is there, and was to be made or found.\<close>

definition backed_up :: "(string \<Rightarrow> string option) \<Rightarrow> event_file \<Rightarrow> string \<Rightarrow> bool" where
  "backed_up files file bk \<longleftrightarrow> ef_stat file \<noteq> None \<and> length bk < RGUARD_PATH_MAX \<and> files bk \<noteq> None"

text \<open>The report of an open: whose it is, and what it says of the backup.\<close>

definition tells_backup :: "u8 \<Rightarrow> fanotify_event \<Rightarrow> fan_channel_ctx \<Rightarrow> bool \<Rightarrow> event_msg \<Rightarrow> bool" where
  "tells_backup src ev ctx ok m \<longleftrightarrow>
     open_report src ev m \<and> m_username m = cx_username ctx \<and> m_client_ip m = cx_client_ip ctx \<and>
     m_flags m = RGUARD_FLAG_RISKY OR (if ok then RGUARD_FLAG_BACKED_UP else RGUARD_FLAG_BACKUP_FAILED)"

text \<open>Where the backup of an opened file goes.\<close>

definition open_backup :: "fan_channel_ops \<Rightarrow> fanotify_event \<Rightarrow> fan \<Rightarrow> string" where
  "open_backup ops ev f = fan_backup_path (p_store_path (dm_policy (fa_dm f))) (op_dir ops) (ev_path ev)"

lemma handle_open_outcome:
  assumes "fits_ctx ctx" and "good_path (ev_path ev)" and "g = snd (handle_open env ops ev ctx f)"
    and "bk = open_backup ops ev f"
  shows "\<exists>rc g1 m.
    fanotify_do_backup (ev_file ev) (ev_path ev) (p_store_path (dm_policy (fa_dm f))) (op_dir ops) f = (rc, g1) \<and>
    fan_files g = fan_files g1 \<and>
    tells_backup (op_source ops) ev ctx (backed_up (fan_files g) (ev_file ev) bk) m \<and>
    fa_queue g = (if gate_passes env ops ev ctx f \<and> fa_pipe f \<and> fe_queue_write env (Suc (fa_n f))
      then fa_queue f @ [m] else fa_queue f) \<and>
    fa_dropped g = (if gate_passes env ops ev ctx f \<and> fa_pipe f \<and> \<not> fe_queue_write env (Suc (fa_n f))
      then Suc (fa_dropped f) else fa_dropped f)"
proof -
  obtain rc f1 where d: "fanotify_do_backup (ev_file ev) (ev_path ev) (p_store_path (dm_policy (fa_dm f)))
      (op_dir ops) f = (rc, f1)" by fastforce
  obtain m f2 where b: "build_message ops ev ctx f1 = (m, f2)" by fastforce
  note keeps = build_keeps [OF b] backup_keeps [OF d]
  have gate: "gate_passes env ops ev ctx f2 = gate_passes env ops ev ctx f"
    by (rule gate_passes_cong) (simp_all add: keeps)
  have g: "g = queue_gated env ops ev ctx (note_backup rc ev m) f2"
    unfolding assms(3) handle_open_def d Let_def prod.case b snd_conv ..
  have files: "fan_files g = fan_files f1"
    using build_message_core [OF b] unfolding g queue_gated_files by (simp add: same_core_def)
  note told = built_message [OF b assms(1,2)]
  have "rc = RGUARD_OK \<longleftrightarrow> backed_up (fan_files g) (ev_file ev) bk"
    using backup_verdict [OF d] unfolding files backed_up_def assms(4) open_backup_def .
  then have "tells_backup (op_source ops) ev ctx (backed_up (fan_files g) (ev_file ev) bk) (note_backup rc ev m)"
    using note_backup_report [OF told(1,4), of rc ev] told(2-4) by (auto simp: tells_backup_def note_backup_def)
  then show ?thesis
    using d files queue_gated_sends [of env ops ev ctx "note_backup rc ev m" f2, folded g]
    by (intro exI [of _ rc] exI [of _ f1] exI [of _ "note_backup rc ev m"]) (simp add: gate keeps)
qed

lemma open_outcome:
  fixes os :: fan_os and k :: channel_kind and ev :: fanotify_event and f :: fan
  assumes "has_mask (ev_mask ev) FAN_OPEN_PERM" and "good_path (ev_path ev)"
    and "op_resolve (channel_ops os k) ev ctx_zero f = (Some ctx, f0)"
    and "\<not> scorer_is_blacklisted (dm_policy (fa_dm f)) (Some (cx_username ctx)) (Some (cx_client_ip ctx))"
    and "g = snd (fan_channel_dispatch os k ev f)" and "bk = open_backup (channel_ops os k) ev f"
    and "passes \<longleftrightarrow> gate_passes (fo_env os) (channel_ops os k) ev (derive_key ctx) f0 \<and> fa_pipe f"
    and "taken \<longleftrightarrow> fe_queue_write (fo_env os) (Suc (fa_n f0))"
  shows "(\<forall>p. p \<noteq> bk \<longrightarrow> fan_files g p = fan_files f p) \<and>
    (case fan_files f bk of
       Some c \<Rightarrow> fan_files g bk = Some c
     | None \<Rightarrow> fan_files g bk = None \<or> (\<exists>c. fan_files g bk = Some c \<and> copy_of (ev_file ev) c)) \<and>
    (\<exists>m. tells_backup (op_source (channel_ops os k)) ev ctx (backed_up (fan_files g) (ev_file ev) bk) m \<and>
       sent_between f g = (if passes \<and> taken then [m] else [])) \<and>
    fa_dropped g = (if passes \<and> \<not> taken then Suc (fa_dropped f0) else fa_dropped f0)"
proof -
  have c: "same_core f f0" using assms(3) by (rule chan.resolve_core)
  have fit: "fits_ctx (derive_key ctx)" using chan.resolve_fits [OF assms(3)] by (simp add: fits_ctx_def)
  have g: "g = snd (handle_open (fo_env os) (channel_ops os k) ev (derive_key ctx) f0)"
    using assms(1,4) c unfolding assms(5) fan_channel_dispatch_def fan_channel_handle_def assms(3)
    by (simp add: same_core_def)
  have same: "fan_files f0 = fan_files f" "open_backup (channel_ops os k) ev f0 = bk" "fa_queue f0 = fa_queue f"
    "fa_pipe f0 = fa_pipe f"
    using c by (simp_all add: same_core_def open_backup_def assms(6))
  from handle_open_outcome [OF fit assms(2) g same(2) [symmetric]] obtain rc g1 m where h:
    "fanotify_do_backup (ev_file ev) (ev_path ev) (p_store_path (dm_policy (fa_dm f0))) (op_dir (channel_ops os k)) f0 = (rc, g1)"
    "fan_files g = fan_files g1"
    "tells_backup (op_source (channel_ops os k)) ev (derive_key ctx) (backed_up (fan_files g) (ev_file ev) bk) m"
    "fa_queue g = (if passes \<and> taken then fa_queue f @ [m] else fa_queue f)"
    "fa_dropped g = (if passes \<and> \<not> taken then Suc (fa_dropped f0) else fa_dropped f0)"
    unfolding assms(7,8) same(3,4) by auto
  have bk: "fan_backup_path (p_store_path (dm_policy (fa_dm f0))) (op_dir (channel_ops os k)) (ev_path ev) = bk"
    using same(2) by (simp add: open_backup_def)
  note res = backup_result [OF h(1), unfolded bk same(1), folded h(2)]
  have "tells_backup (op_source (channel_ops os k)) ev ctx (backed_up (fan_files g) (ev_file ev) bk) m"
    using h(3) by (simp add: tells_backup_def)
  then show ?thesis
    using res h(4,5) by (auto simp: sent_between_def split: option.split if_splits)
qed

definition open_event_at :: "string \<Rightarrow> fanotify_event" where
  "open_event_at path = perm_event (sample_request 11 path) path"



subsection \<open>The session of a notification\<close>

lemma notification_key:
  assumes "op_resolve (channel_ops os k) ev ctx_zero f = (Some ctx, f0)"
    and "build_message (channel_ops os k) ev (derive_key ctx) f0 = (m0, f1)"
    and "fanotify_fill_notify_msg env ev key m0 f1 = (Some m, f2)"
  shows "msg_key m = cx_skey (derive_key ctx)"
proof -
  have "fits_ctx ctx" using assms(1) by (rule chan.resolve_fits)
  then have "m_username m0 = cx_username ctx" "m_client_ip m0 = cx_client_ip ctx"
    using assms(2) by (auto simp: build_message_def fanotify_build_event_msg_def with_identity_def fits_ctx_def)
  then show ?thesis using fill_identity [OF assms(3)] by (simp add: msg_key_def derive_key_def)
qed

text \<open>
  C10: A channel strikes whom the daemon has convicted: after a notification has been assessed, its
  channel blocks the process exactly when the session named by the message's own user and address
  is blocked in the daemon then; the key the handler derives is the key the assessment used.
\<close>

theorem block_follows_verdict:
  assumes "daemon_inv (fa_dm f)" and "\<not> has_mask (ev_mask ev) FAN_OPEN_PERM" and "has_mask (ev_mask ev) notify_ops"
    and "op_resolve (channel_ops os k) ev ctx_zero f = (Some ctx, f0)"
    and "build_message (channel_ops os k) ev (derive_key ctx) f0 = (m0, f1)"
    and "fanotify_fill_notify_msg (fo_env os) ev (cx_skey (derive_key ctx)) m0 f1 = (Some m, f2)"
    and "f3 = snd (fanotify_submit_event (fo_env os) m (msg_key m) f2)"
  shows "fan_channel_dispatch os k ev f =
    (FAN_RES_ALLOW,
     if fa_ctx f \<and> was_blocked (process_msg (fe_dm (fo_env os)) m (fa_dm f2)) (msg_key m)
     then run_action (op_block (channel_ops os k)) ev (derive_key ctx) f3 else f3)"
proof -
  have key: "msg_key m = cx_skey (derive_key ctx)" using assms(4,5,6) by (rule notification_key)
  have core: "same_core f f2"
    using chan.resolve_core [OF assms(4)] build_message_core [OF assms(5)] fill_notify_core [OF assms(6)]
    by (meson same_core_trans)
  have "fan_sound f f2"
    using chan.resolve_sound [OF assms(4)] build_sound(1) [OF assms(5)] fill_sound [OF assms(6)]
    by (meson fan_sound_trans)
  then have inv: "daemon_inv (fa_dm f2)" using assms(1) by (simp add: fan_sound_def sound_step_def)
  have ip: "length (m_client_ip m) < RGUARD_IP_LEN"
    using build_sound(2) [OF assms(5)] fill_identity(1) [OF assms(6)] by simp
  have ctx: "fa_ctx f2 = fa_ctx f" using core by (simp add: same_core_def)
  have verdict: "fst (fanotify_submit_event (fo_env os) m (msg_key m) f2) \<longleftrightarrow>
      fa_ctx f \<and> was_blocked (process_msg (fe_dm (fo_env os)) m (fa_dm f2)) (msg_key m)"
    using submitted_verdict [OF inv ip, of "msg_key m" "fo_env os"] derived_key_short [of ctx]
    by (simp add: key ctx)
  have "fan_channel_dispatch os k ev f = handle_notify (fo_env os) (channel_ops os k) ev (derive_key ctx) f0"
    using assms(2,3) by (simp add: fan_channel_dispatch_def fan_channel_handle_def assms(4))
  also have "\<dots> = (FAN_RES_ALLOW, if fst (fanotify_submit_event (fo_env os) m (msg_key m) f2)
      then run_action (op_block (channel_ops os k)) ev (derive_key ctx) f3 else f3)"
    unfolding handle_notify_def assms(5) prod.case Let_def assms(6) option.case assms(7) key
    by (simp add: case_prod_beta)
  finally show ?thesis unfolding verdict .
qed

definition create_event :: fanotify_event where
  "create_event = notify_event FAN_CREATE 0 ''/srv/new'' None"

lemma create_fill:
  "\<exists>m. fanotify_fill_notify_msg env create_event k m0 f = (Some m, next_answer f)"
  by (simp add: fanotify_fill_notify_msg_def create_event_def notify_event_def notify_ops_def fan_defs has_mask_def
      Let_def)

theorem block_follows_verdict_witness:
  "fst (fan_channel_dispatch sample_os Local_channel create_event sample_fan) = FAN_RES_ALLOW"
proof -
  let ?ops = "channel_ops sample_os Local_channel" and ?ctx = "local_ctx ''local'' ''unknown'' 0 ctx_zero"
  have res: "op_resolve ?ops create_event ctx_zero sample_fan = (Some ?ctx, sample_fan)"
    by (simp add: sample_identity create_event_def notify_event_def)
  obtain m0 f1 where b: "build_message ?ops create_event (derive_key ?ctx) sample_fan = (m0, f1)" by fastforce
  obtain m where fl: "fanotify_fill_notify_msg (fo_env sample_os) create_event (cx_skey (derive_key ?ctx)) m0 f1 =
      (Some m, next_answer f1)" using create_fill by blast
  have inv: "daemon_inv (fa_dm sample_fan)" using sample_daemon_inv by (simp add: sample_fan_def)
  have "\<not> has_mask (ev_mask create_event) FAN_OPEN_PERM" "has_mask (ev_mask create_event) notify_ops"
    by (simp_all add: create_event_def notify_event_def has_mask_def fan_defs notify_ops_def)
  from block_follows_verdict [OF inv this res b fl refl] show ?thesis by simp
qed

end
