(* ===== verification/Daemon_Loop.thy ===== *)
theory Daemon_Loop
  imports Fan_Sound
begin

text \<open>
  \<open>src/daemon/gfrguardd_main.c\<close>, start-up, reload, the event loop and the end. What \<open>epoll_wait\<close>,
  the timer, the signals and the children answer is a list of turns; a turn reads them in the order
  of the code. Opening the database, the socket and the timer are answers of the start.
\<close>

subsection \<open>The state of the main program\<close>

text \<open>\<open>ms_level\<close> is the level of the logger, \<open>ms_logged\<close> the static flag of the version warning.\<close>

record main_state =
  ms_fan :: fan
  ms_level :: int
  ms_logged :: bool

definition on_fan :: "(fan \<Rightarrow> fan) \<Rightarrow> main_state \<Rightarrow> main_state" where
  "on_fan h ms = ms\<lparr>ms_fan := h (ms_fan ms)\<rparr>"

definition the_policy :: "main_state \<Rightarrow> rguard_policy" where
  "the_policy ms = dm_policy (fa_dm (ms_fan ms))"

definition set_policy :: "rguard_policy \<Rightarrow> fan \<Rightarrow> fan" where
  "set_policy p = on_dm (\<lambda>d. d\<lparr>dm_policy := p\<rparr>)"

definition sync_lists :: "fan \<Rightarrow> fan" where
  "sync_lists f = on_dm (on_world (blocker_sync_blacklist BLOCKED_PATH (p_blacklist (dm_policy (fa_dm f))))) f"

definition level_of :: "rguard_policy \<Rightarrow> int" where
  "level_of p = parse_log_level (Some (p_log_level p))"

subsection \<open>Reload\<close>

definition start_modules :: "fan_env \<Rightarrow> fan \<Rightarrow> fan" where
  "start_modules env f = local_module_init env (cloud_module_init env (ftp_module_init env f))"

text \<open>Whether the thread can be created, at the first and at the second attempt.\<close>

definition restart_channels :: "fan_env \<Rightarrow> bool \<Rightarrow> bool \<Rightarrow> fan \<Rightarrow> fan" where
  "restart_channels env first second f =
     (let f1 = start_modules env (fanotify_reload_marks env [] (fanotify_stop_perm_thread f));
          (rc1, f2) = fanotify_start_perm_thread first f1
      in if rc1 = 0 then f2
         else
           let (rc2, f3) = fanotify_start_perm_thread second f2
           in if rc2 = 0 then f3
              else fan_log LOG_ERROR ''PERM_THREAD_DEAD'' None
                     ''{\"action\":\"perm events unanswered after reload\"}'' f3)"

definition reload_rules :: "daemon_env \<Rightarrow> daemon \<Rightarrow> daemon" where
  "reload_rules env d =
     (let (rc, e, ls) = yara_engine_reload (de_yara env) (Some YARA_RULES_DIR) (dm_engine d)
      in d\<lparr>dm_engine := e, dm_world := (dm_world d)\<lparr>w_log := w_log (dm_world d) @ ls\<rparr>\<rparr>)"

text \<open>The policy is replaced while the permission thread still runs. \<open>config_load\<close> always returns.\<close>

definition daemon_reload :: "fan_env \<Rightarrow> bool \<Rightarrow> bool \<Rightarrow> string \<Rightarrow> main_state \<Rightarrow> main_state" where
  "daemon_reload env first second path ms =
     (let de = fe_dm env in
      case config_load (config_os_of de (dm_world (fa_dm (ms_fan ms)))) (de_parse de) path of
        None \<Rightarrow> ms
      | Some (rc, np) \<Rightarrow>
          on_fan (on_dm (reload_rules de))
            (if rc = RGUARD_OK then
               on_fan (\<lambda>f. if fa_notify f then restart_channels env first second f else f)
                 (on_fan (\<lambda>f. sync_lists (fan_log LOG_INFO ''CONFIG_LOADED'' None ''{\"reload\":true}'' (set_policy np f)))
                   (ms\<lparr>ms_level := level_of np\<rparr>))
             else on_fan (fan_log LOG_ERROR ''CONFIG_ERROR'' None ''{\"reload\":true}'') ms))"

subsection \<open>The event loop\<close>

text \<open>\<open>while (fanotify_process_queued() > 0) {}\<close>; no message is sent meanwhile.\<close>

lemma queued_shorter:
  assumes "fanotify_process_queued env f = (rc, g)" and "0 < rc"
  shows "length (fa_queue g) < length (fa_queue f)"
  using assms by (auto simp: fanotify_process_queued_def Let_def next_answer_def on_dm_def
      split: if_splits list.splits)

function drain_queue :: "fan_env \<Rightarrow> fan \<Rightarrow> fan" where
  "drain_queue env f =
     (let (rc, g) = fanotify_process_queued env f in if rc > 0 then drain_queue env g else g)"
  by pat_completeness auto
termination
  by (relation "measure (\<lambda>(env, f). length (fa_queue f))") (auto dest: queued_shorter [OF sym])

declare drain_queue.simps [simp del]

fun receive_datagrams :: "daemon_env \<Rightarrow> string list \<Rightarrow> bool \<times> daemon \<Rightarrow> bool \<times> daemon" where
  "receive_datagrams env [] st = st"
| "receive_datagrams env (b # bs) st = receive_datagrams env bs (receive_datagram env b st)"

record timer_answers =
  ta_before :: "(u64 \<times> u64) option"
  ta_after :: "(u64 \<times> u64) option"
  ta_cutoff :: string

datatype ready = Socket_ready "string list" | Timer_ready timer_answers | Queue_ready

definition on_socket :: "fan_os \<Rightarrow> string list \<Rightarrow> main_state \<Rightarrow> main_state" where
  "on_socket os bs ms =
     (let (logged, d) = receive_datagrams (fe_dm (fo_env os)) bs (ms_logged ms, fa_dm (ms_fan ms))
      in ms\<lparr>ms_logged := logged, ms_fan := (ms_fan ms)\<lparr>fa_dm := d\<rparr>\<rparr>)"

definition on_timer :: "fan_os \<Rightarrow> timer_answers \<Rightarrow> fan \<Rightarrow> fan" where
  "on_timer os ta f =
     snd (fanotify_retry_pending_channels (fo_env os)
       (on_dm (\<lambda>d. on_world (\<lambda>w. snd (space_check w (dm_policy d) (ta_before ta) (ta_after ta) (ta_cutoff ta))) d) f))"

fun on_ready :: "fan_os \<Rightarrow> ready \<Rightarrow> main_state \<Rightarrow> main_state" where
  "on_ready os (Socket_ready bs) ms = on_socket os bs ms"
| "on_ready os (Timer_ready ta) ms = on_fan (on_timer os ta) ms"
| "on_ready os Queue_ready ms = on_fan (drain_queue (fo_env os)) ms"

definition reap :: "(int \<times> int option) list \<Rightarrow> daemon \<Rightarrow> daemon" where
  "reap reaped d =
     (let (pids, w) = restore_reap_children reaped (dm_pids d) (dm_world d) in d\<lparr>dm_pids := pids, dm_world := w\<rparr>)"

text \<open>
  \<open>tn_quit\<close> and \<open>tn_reload\<close>: what the two signal flags read when the turn begins and when it asks.
\<close>

datatype epoll_answer = Ep_interrupted | Ep_failed | Ep_ready "ready list"

record turn =
  tn_quit :: bool
  tn_epoll :: epoll_answer
  tn_notify :: "(nat \<times> fid_meta list) list"
  tn_reaped :: "(int \<times> int option) list"
  tn_reload :: bool
  tn_threads :: "bool \<times> bool"

definition maybe_reload :: "fan_os \<Rightarrow> string \<Rightarrow> turn \<Rightarrow> main_state \<Rightarrow> main_state" where
  "maybe_reload os path tn ms =
     (if tn_reload tn then daemon_reload (fo_env os) (fst (tn_threads tn)) (snd (tn_threads tn)) path ms else ms)"

definition turn_body :: "fan_os \<Rightarrow> string \<Rightarrow> turn \<Rightarrow> ready list \<Rightarrow> main_state \<Rightarrow> main_state" where
  "turn_body os path tn rs ms =
     maybe_reload os path tn
       (on_fan (on_dm (reap (tn_reaped tn)))
         (on_fan (\<lambda>f. snd (fanotify_poll os (tn_notify tn) f)) (fold (on_ready os) rs ms)))"

text \<open>A main thread that waits for ever makes no further turn.\<close>

fun main_loop :: "fan_os \<Rightarrow> string \<Rightarrow> turn list \<Rightarrow> main_state \<Rightarrow> main_state" where
  "main_loop os path [] ms = ms"
| "main_loop os path (tn # tns) ms =
     (if tn_quit tn \<or> fa_stuck (ms_fan ms) then ms
      else case tn_epoll tn of
        Ep_failed \<Rightarrow> ms
      | Ep_interrupted \<Rightarrow> main_loop os path tns (maybe_reload os path tn ms)
      | Ep_ready rs \<Rightarrow> main_loop os path tns (turn_body os path tn rs ms))"

subsection \<open>Start and end\<close>

record start_answers =
  sa_log :: bool
  sa_db :: bool
  sa_rundir :: bool
  sa_blocked :: bool
  sa_socket :: bool
  sa_epoll :: bool
  sa_timer :: bool
  sa_init :: init_answers
  sa_thread :: bool

text \<open>The blocked file is there afterwards, with what it held.\<close>

definition ensure_blocked_file :: "bool \<Rightarrow> world \<Rightarrow> int \<times> world" where
  "ensure_blocked_file ok w =
     (if \<not> ok then (-1, w)
      else (0, if w_files w BLOCKED_PATH = None then w\<lparr>w_files := (w_files w)(BLOCKED_PATH \<mapsto> [])\<rparr> else w))"

definition init_rules :: "daemon_env \<Rightarrow> daemon \<Rightarrow> daemon" where
  "init_rules env d =
     (let (rc, e, ls) = yara_engine_init (de_yara env) (Some YARA_RULES_DIR) (dm_engine d);
          d1 = d\<lparr>dm_engine := e, dm_world := (dm_world d)\<lparr>w_log := w_log (dm_world d) @ ls\<rparr>\<rparr>
      in if rc < 0 then log_d LOG_WARN ''YARA_INIT_WARN'' None
                ''{\"msg\":\"YARA init failed, continuing without\"}'' d1 else d1)"

definition start_channels :: "fan_env \<Rightarrow> start_answers \<Rightarrow> daemon \<Rightarrow> fan \<Rightarrow> fan" where
  "start_channels env sa d f0 =
     (let (rc, f) = fanotify_module_init (sa_init sa) (f0\<lparr>fa_dm := d\<rparr>) in
      if rc = 0 then
        (let f1 = start_modules env (fanotify_set_daemon_ctx (fa_dm f) f);
             (rc2, f2) = fanotify_start_perm_thread (sa_thread sa) f1;
             f3 = (if rc2 \<noteq> 0 then fan_log LOG_ERROR ''PERM_THREAD_DEAD'' None
                     ''{\"action\":\"perm events unanswered at startup\"}'' f2 else f2)
         in fan_log LOG_INFO ''FANOTIFY_READY'' None ''{}'' f3)
      else fan_log LOG_WARN ''FANOTIFY_SKIP'' None
             ''{\"reason\":\"fanotify init failed, continuing without\"}'' f)"

text \<open>The exit code of a failed start, or the state at the first turn; \<open>f0\<close> is the static state.\<close>

definition daemon_start :: "fan_env \<Rightarrow> start_answers \<Rightarrow> string \<Rightarrow> world \<Rightarrow> fan \<Rightarrow> int + main_state" where
  "daemon_start env sa path w f0 =
     (let de = fe_dm env in
      case config_load (config_os_of de w) (de_parse de) path of
        None \<Rightarrow> Inl 1
      | Some (rc, p) \<Rightarrow>
          if rc \<noteq> RGUARD_OK \<or> \<not> sa_log sa \<or> \<not> sa_db sa \<or> \<not> sa_rundir sa \<or> \<not> sa_socket sa \<or>
             \<not> sa_epoll sa \<or> \<not> sa_timer sa then Inl 1
          else
            let d0 = \<lparr>dm_table = session_table_init, dm_policy = p, dm_seq = 0, dm_anchor = 0, dm_world = w,
                      dm_pids = [], dm_engine = yara_engine0\<rparr>;
                d1 = on_world (\<lambda>w. blocker_sync_blacklist BLOCKED_PATH (p_blacklist p) (snd (ensure_blocked_file (sa_blocked sa) w)))
                       (log_d LOG_INFO ''CONFIG_LOADED'' None ''{}'' d0)
            in Inr \<lparr>ms_fan = start_channels env sa (init_rules de d1) f0, ms_level = level_of p, ms_logged = False\<rparr>)"

definition daemon_stop :: "main_state \<Rightarrow> main_state" where
  "daemon_stop ms =
     on_fan (\<lambda>f. on_dm (\<lambda>d. d\<lparr>dm_table := session_cleanup (dm_table d), dm_engine := yara_engine_destroy (dm_engine d)\<rparr>)
              (fanotify_module_destroy (fan_log LOG_INFO ''SHUTDOWN'' None ''{}'' f))) ms"

end
