(* ===== verification/Daemon_Runs.thy ===== *)
theory Daemon_Runs
  imports Daemon_Loop
begin

text \<open>
  Properties of the whole daemon: reload and the channels of a policy; draining the queue; and the
  runs of all its parts together, from the start on.
\<close>

subsection \<open>The channels of a policy\<close>

definition channel_tags :: "fan \<Rightarrow> (string \<times> channel_kind) list" where
  "channel_tags f = map (\<lambda>ch. (ch_mark_path ch, ch_kind ch)) (fa_channels f)"

text \<open>What the policy asks for: the paths of the enabled channels, in the order of the modules.\<close>

definition wanted_channels :: "rguard_policy \<Rightarrow> (string \<times> channel_kind) list" where
  "wanted_channels p =
     (if pr_ftp (p_protection p) then map (\<lambda>x. (x, Ftp_channel)) (p_ftp_paths p) else []) @
     (if pr_cloud_sync (p_protection p) then map (\<lambda>x. (x, Cloud_channel)) (p_cloud_paths p) else []) @
     (if pr_host (p_protection p) then map (\<lambda>x. (x, Local_channel)) (p_local_paths p) else [])"

text \<open>What set-up leaves alone.\<close>

definition same_setup :: "fan \<Rightarrow> fan \<Rightarrow> bool" where
  "same_setup f g \<longleftrightarrow>
     dm_policy (fa_dm g) = dm_policy (fa_dm f) \<and> fa_gate g = fa_gate f \<and> fa_queue g = fa_queue f \<and>
     fa_thread g = fa_thread f \<and> fa_notify g = fa_notify f \<and> fa_perm g = fa_perm f \<and> fan_sound f g"

lemma same_setup_refl [simp]: "same_setup f f"
  by (simp add: same_setup_def)

lemma same_setup_trans [trans]: "same_setup f g \<Longrightarrow> same_setup g h \<Longrightarrow> same_setup f h"
  by (auto simp: same_setup_def intro: fan_sound_trans)

lemma fan_log_fields [simp]:
  "dm_policy (fa_dm (fan_log a b c d f)) = dm_policy (fa_dm f)" "fa_gate (fan_log a b c d f) = fa_gate f"
  "fa_queue (fan_log a b c d f) = fa_queue f" "fa_thread (fan_log a b c d f) = fa_thread f"
  "fa_notify (fan_log a b c d f) = fa_notify f" "fa_perm (fan_log a b c d f) = fa_perm f"
  "fa_channels (fan_log a b c d f) = fa_channels f"
  by (simp_all add: fan_log_def on_dm_def log_d_def on_world_def)

lemma same_setup_log [simp]: "same_setup f g \<Longrightarrow> same_setup f (fan_log a b c d g)"
  by (simp add: same_setup_def)

lemma same_setup_next [simp]: "same_setup f (next_answer g) = same_setup f g"
  by (simp add: same_setup_def) (simp add: next_answer_def)

lemma same_setup_mark [simp]: "same_setup f (add_mark p g a b) = same_setup f g"
  by (simp add: same_setup_def) (simp add: add_mark_def)

lemma same_setup_channel [simp]: "same_setup f (set_channel i ch g) = same_setup f g"
  by (simp add: same_setup_def set_channel_def fan_sound_def)

lemma mark_add_setup: "fanotify_mark_add env p f = (r, g) \<Longrightarrow> same_setup f g"
  by (auto simp: fanotify_mark_add_def Let_def mark_failed_def split: prod.splits)

lemma mark_walk_setup: "mark_walk env ds c f = (r, g) \<Longrightarrow> same_setup f g"
proof (induction ds arbitrary: c f)
  case (Cons d ds)
  obtain err f1 where d: "fanotify_mark_add env d f = (err, f1)" by fastforce
  obtain a b where "c = (a, b)" by fastforce
  with Cons.prems d obtain c' where "mark_walk env ds c' f1 = (r, g)" by auto
  then show ?case using same_setup_trans [OF mark_add_setup [OF d] Cons.IH] by simp
qed simp

lemma tree_add_setup: "fanotify_mark_tree_add env p f = (r, g) \<Longrightarrow> same_setup f g"
proof -
  assume r: "fanotify_mark_tree_add env p f = (r, g)"
  obtain m e f1 where w: "mark_walk env (fe_walk env (fa_n f) p) (0, 0) (next_answer f) = ((m, e), f1)"
    by (metis surj_pair)
  have "same_setup f (next_answer f)" by simp
  from same_setup_trans [OF this mark_walk_setup [OF w]] show ?thesis
    using r by (auto simp: fanotify_mark_tree_add_def w)
qed

lemma mark_channel_setup: "mark_channel env ch f = (r, g) \<Longrightarrow> same_setup f g"
  by (auto simp: mark_channel_def split: if_splits prod.splits dest: mark_add_setup tree_add_setup)

lemma mark_channel_channels: "mark_channel env ch f = (r, g) \<Longrightarrow> fa_channels g = fa_channels f"
  using mark_add_io [of env "rt_real_path ch" f] tree_add_io [of f env "rt_real_path ch"]
  by (auto simp: mark_channel_def io_step_def split: if_splits prod.splits)

lemma tags_fields [simp]:
  "channel_tags (fan_log a b c d f) = channel_tags f" "channel_tags (next_answer f) = channel_tags f"
  by (simp add: channel_tags_def) (simp add: channel_tags_def next_answer_def)

text \<open>Set-up that neither adds nor renames a channel.\<close>

definition settled :: "fan \<Rightarrow> fan \<Rightarrow> bool" where
  "settled f g \<longleftrightarrow> same_setup f g \<and> channel_tags g = channel_tags f"

lemma settled_refl [simp]: "settled f f"
  by (simp add: settled_def)

lemma settled_log [simp]: "settled f g \<Longrightarrow> settled f (fan_log a b c d g)"
  by (simp add: settled_def)

lemma settled_next [simp]: "settled f (next_answer g) = settled f g"
  by (simp add: settled_def)

lemma settled_marked: "settled f g \<Longrightarrow> mark_channel env ch g = (r, h) \<Longrightarrow> settled f h"
  using mark_channel_channels [of env ch g r h] same_setup_trans [OF _ mark_channel_setup [of env ch g r h], of f]
  by (simp add: settled_def channel_tags_def)

lemma settled_channel [simp]:
  assumes "settled f g" and "ch_mark_path ch = ch_mark_path (fa_channels f ! i)" and "ch_kind ch = ch_kind (fa_channels f ! i)"
  shows "settled f (set_channel i ch g)"
proof -
  have t: "channel_tags g = channel_tags f" using assms(1) by (simp add: settled_def)
  have "(channel_tags g)[i := (ch_mark_path ch, ch_kind ch)] = channel_tags g"
  proof (cases "i < length (fa_channels f)")
    case True
    then show ?thesis by (simp add: t assms(2,3)) (simp add: channel_tags_def list_update_same_conv)
  qed (simp add: t, simp add: channel_tags_def not_less list_update_beyond)
  then show ?thesis
    using assms(1) by (simp add: settled_def) (simp add: channel_tags_def set_channel_def map_update)
qed

lemma activate_settled:
  assumes "channel_rt_activate env i f = (r, g)"
  shows "settled f g"
proof -
  have m: "settled f h" if "mark_channel env ch (set_channel i ch (next_answer f)) = (n, h)"
    "ch_mark_path ch = ch_mark_path (fa_channels f ! i)" "ch_kind ch = ch_kind (fa_channels f ! i)" for ch n h
    using that(2,3) by (intro settled_marked [OF _ that(1)]) simp
  show ?thesis
    using assms unfolding channel_rt_activate_def Let_def
    by (auto split: option.splits if_splits prod.splits dest!: m)
qed

lemma channel_setup_tags:
  assumes "fanotify_channel_setup env (Some p) k f = (r, g)"
  shows "same_setup f g" and "channel_tags g = take FANOTIFY_MAX_CHANNELS (channel_tags f @ [(p, k)]) \<or>
    FANOTIFY_MAX_CHANNELS < length (fa_channels f) \<and> channel_tags g = channel_tags f"
proof -
  let ?ch = "\<lparr>ch_mark_path = p, ch_kind = k, rt_real_path = [], rt_mount = False, rt_fsid = 0,
    rt_pending = True, rt_is_dir = False\<rparr>"
  let ?f1 = "f\<lparr>fa_channels := fa_channels f @ [?ch]\<rparr>"
  have f1: "same_setup f ?f1" "channel_tags ?f1 = channel_tags f @ [(p, k)]"
    by (simp_all add: same_setup_def fan_sound_def channel_tags_def)
  have a: "settled ?f1 g" if "\<not> FANOTIFY_MAX_CHANNELS \<le> length (fa_channels f)"
    using assms that activate_settled [of env "length (fa_channels f)" ?f1 r g]
    by (simp add: fanotify_channel_setup_def fanotify_channel_register_def)
  have n: "g = f" if "FANOTIFY_MAX_CHANNELS \<le> length (fa_channels f)"
    using assms that by (simp add: fanotify_channel_setup_def fanotify_channel_register_def)
  have l: "length (channel_tags f) = length (fa_channels f)" by (simp add: channel_tags_def)
  show "same_setup f g" using a f1 n same_setup_trans by (fastforce simp: settled_def)
  show "channel_tags g = take FANOTIFY_MAX_CHANNELS (channel_tags f @ [(p, k)]) \<or>
    FANOTIFY_MAX_CHANNELS < length (fa_channels f) \<and> channel_tags g = channel_tags f"
    using a f1 n l by (cases "FANOTIFY_MAX_CHANNELS \<le> length (fa_channels f)") (auto simp: settled_def)
qed

lemma take_take_append: "take n (take n xs @ ys) = take n (xs @ ys)"
  by (cases "n \<le> length xs") simp_all

lemma module_tags:
  assumes "length (fa_channels f) \<le> FANOTIFY_MAX_CHANNELS"
  shows "same_setup f (module_init env k ready b ps f) \<and>
    channel_tags (module_init env k ready b ps f) =
      take FANOTIFY_MAX_CHANNELS (channel_tags f @ (if b then map (\<lambda>x. (x, k)) ps else []))"
proof -
  let ?h = "\<lambda>p f. let (rc, f1) = fanotify_channel_setup env (Some p) k f
    in if rc \<noteq> 0 then fan_log LOG_ERROR ''CHANNEL_SETUP_FAILED'' None (snprintf_s 320 (''{\"path\":\"'' @ take 256 p @ ''\"}'')) f1
       else f1"
  have len: "length (fa_channels g) = length (channel_tags g)" for g by (simp add: channel_tags_def)
  have "same_setup f (fold ?h ps f) \<and>
      channel_tags (fold ?h ps f) = take FANOTIFY_MAX_CHANNELS (channel_tags f @ map (\<lambda>x. (x, k)) ps)"
    using assms
  proof (induction ps arbitrary: f)
    case (Cons p ps)
    obtain rc f1 where s: "fanotify_channel_setup env (Some p) k f = (rc, f1)" by fastforce
    have h: "same_setup f (?h p f)" "channel_tags (?h p f) = take FANOTIFY_MAX_CHANNELS (channel_tags f @ [(p, k)])"
      using channel_setup_tags [OF s] Cons.prems by (auto simp: s)
    then have "length (fa_channels (?h p f)) \<le> FANOTIFY_MAX_CHANNELS" by (simp add: len)
    from Cons.IH [OF this] have "same_setup (?h p f) (fold ?h (p # ps) f)"
      and t: "channel_tags (fold ?h (p # ps) f) = take FANOTIFY_MAX_CHANNELS (take FANOTIFY_MAX_CHANNELS (channel_tags f @ [(p, k)]) @ map (\<lambda>x. (x, k)) ps)"
      using h(2) by simp_all
    have s': "same_setup f (fold ?h (p # ps) f)"
      using same_setup_trans [OF h(1) \<open>same_setup (?h p f) (fold ?h (p # ps) f)\<close>] .
    have "channel_tags (fold ?h (p # ps) f) = take FANOTIFY_MAX_CHANNELS (channel_tags f @ map (\<lambda>x. (x, k)) (p # ps))"
      unfolding t take_take_append by simp
    with s' show ?case by (rule conjI)
  qed (simp add: len)
  then show ?thesis using assms by (auto simp: module_init_def len)
qed

lemma start_modules_tags:
  assumes "fa_channels f = []"
  shows "same_setup f (start_modules env f) \<and>
    channel_tags (start_modules env f) = take FANOTIFY_MAX_CHANNELS (wanted_channels (dm_policy (fa_dm f)))"
proof -
  let ?p = "dm_policy (fa_dm f)" and ?m = FANOTIFY_MAX_CHANNELS
  let ?f1 = "ftp_module_init env f" let ?f2 = "cloud_module_init env ?f1" let ?f3 = "local_module_init env ?f2"
  have len: "length (fa_channels g) = length (channel_tags g)" for g by (simp add: channel_tags_def)
  have "channel_tags f = []" using assms by (simp add: channel_tags_def)
  then have 1: "same_setup f ?f1" "channel_tags ?f1 =
      take ?m (if pr_ftp (p_protection ?p) then map (\<lambda>x. (x, Ftp_channel)) (p_ftp_paths ?p) else [])"
    using module_tags [of f env Ftp_channel] assms by (auto simp: ftp_module_init_def Let_def)
  then have "length (fa_channels ?f1) \<le> ?m" and "dm_policy (fa_dm ?f1) = ?p" by (simp_all add: len same_setup_def)
  then have 2: "same_setup ?f1 ?f2" "channel_tags ?f2 = take ?m (channel_tags ?f1 @
      (if pr_cloud_sync (p_protection ?p) then map (\<lambda>x. (x, Cloud_channel)) (p_cloud_paths ?p) else []))"
    using module_tags [of ?f1 env Cloud_channel] by (auto simp: cloud_module_init_def Let_def)
  have s2: "same_setup f ?f2" using 1(1) 2(1) by (rule same_setup_trans)
  then have "length (fa_channels ?f2) \<le> ?m" and "dm_policy (fa_dm ?f2) = ?p" using 2(2) by (simp_all add: len same_setup_def)
  then have 3: "same_setup ?f2 ?f3" "channel_tags ?f3 = take ?m (channel_tags ?f2 @
      (if pr_host (p_protection ?p) then map (\<lambda>x. (x, Local_channel)) (p_local_paths ?p) else []))"
    using module_tags [of ?f2 env Local_channel] by (auto simp: local_module_init_def Let_def)
  from same_setup_trans [OF s2 3(1)] show ?thesis
    unfolding start_modules_def 3(2) 2(2) 1(2) wanted_channels_def append_assoc take_take_append by (rule conjI) (rule refl)
qed

lemma stopped_marks:
  "dm_policy (fa_dm (fanotify_reload_marks env [] (fanotify_stop_perm_thread f))) = dm_policy (fa_dm f)"
  "fa_channels (fanotify_reload_marks env [] (fanotify_stop_perm_thread f)) = []"
  "fa_gate (fanotify_reload_marks env [] (fanotify_stop_perm_thread f)) = fangate_reset (fa_gate f)"
  "fa_thread (fanotify_reload_marks env [] (fanotify_stop_perm_thread f)) = False"
  "fan_sound f (fanotify_reload_marks env [] (fanotify_stop_perm_thread f))"
  "fa_queue (fanotify_reload_marks env [] (fanotify_stop_perm_thread f)) = fa_queue f"
  by (simp_all add: fanotify_reload_marks_def fanotify_stop_perm_thread_def fanotify_channels_clear_def
      flush_marks_def fan_sound_def) (simp add: fan_log_def on_dm_def quiet_sound quiet_log)

lemma restart_effect:
  "fa_thread (restart_channels env a b f) = (a \<or> b)"
  "channel_tags (restart_channels env a b f) = take FANOTIFY_MAX_CHANNELS (wanted_channels (dm_policy (fa_dm f)))"
  "fa_gate (restart_channels env a b f) = fangate_reset (fa_gate f)"
  "dm_policy (fa_dm (restart_channels env a b f)) = dm_policy (fa_dm f)"
  "fa_queue (restart_channels env a b f) = fa_queue f"
  "fan_sound f (restart_channels env a b f)"
proof -
  let ?f0 = "fanotify_reload_marks env [] (fanotify_stop_perm_thread f)" let ?f1 = "start_modules env ?f0"
  have s: "same_setup ?f0 ?f1" "channel_tags ?f1 = take FANOTIFY_MAX_CHANNELS (wanted_channels (dm_policy (fa_dm f)))"
    using start_modules_tags [of ?f0 env] by (simp_all add: stopped_marks)
  note thr = fanotify_start_perm_thread_def restart_channels_def Let_def
  from s have g: "fa_thread ?f1 = False" "fa_gate ?f1 = fangate_reset (fa_gate f)" "fa_queue ?f1 = fa_queue f"
    "dm_policy (fa_dm ?f1) = dm_policy (fa_dm f)" and fs: "fan_sound ?f0 ?f1"
    by (simp_all add: same_setup_def stopped_marks)
  note sound = fan_sound_trans [OF stopped_marks(5) fs]
  have up: "channel_tags (h\<lparr>fa_thread := t\<rparr>) = channel_tags h" "fan_sound f (h\<lparr>fa_thread := t\<rparr>) = fan_sound f h" for h t
    by (simp_all add: channel_tags_def fan_sound_def)
  show "fa_thread (restart_channels env a b f) = (a \<or> b)" using g by (simp add: thr)
  show "channel_tags (restart_channels env a b f) = take FANOTIFY_MAX_CHANNELS (wanted_channels (dm_policy (fa_dm f)))"
    using s by (simp add: thr up)
  show "fa_gate (restart_channels env a b f) = fangate_reset (fa_gate f)" "fa_queue (restart_channels env a b f) = fa_queue f"
    "dm_policy (fa_dm (restart_channels env a b f)) = dm_policy (fa_dm f)"
    "fan_sound f (restart_channels env a b f)" using g sound by (simp_all add: thr up)
qed

subsection \<open>What a policy file can hold\<close>

lemma blacklist_object_auto [simp]:
  "bl_auto_ips (if_object node load_blacklist b) = bl_auto_ips b"
  by (rule if_object_inv [where P = "\<lambda>x. bl_auto_ips x = bl_auto_ips b"]) (simp_all add: load_blacklist_def)

lemma monitor_object_auto [simp]:
  "p_blacklist (if_object node load_monitor_paths p) = p_blacklist p"
  by (rule if_object_inv [where P = "\<lambda>x. p_blacklist x = p_blacklist p"])
    (simp_all add: load_monitor_paths_def Let_def)

lemma load_root_auto: "bl_auto_ips (p_blacklist (load_root os parse doc p)) = bl_auto_ips (p_blacklist p)"
  by (simp add: load_root_def load_ransom_exts_def load_strings_def Let_def)

lemma hash_lists_auto [simp]: "bl_auto_ips (p_blacklist (hash_lists p)) = bl_auto_ips (p_blacklist p)"
  by (simp add: hash_lists_def Let_def case_prod_beta)

lemma loaded_policy:
  assumes "config_load os parse path = Some (rc, p)"
  shows "bl_auto_ips (p_blacklist p) = []" and "mirrors_ok p" and "auto_inv p"
proof -
  show auto: "bl_auto_ips (p_blacklist p) = []"
    using assms load_root_auto [of os parse _ apply_defaults]
    by (auto simp: config_load_def apply_defaults_def Let_def split: option.splits)
  show "mirrors_ok p"
  proof (cases rule: config_load_cases [of os parse path])
    case (loaded q)
    then show ?thesis using assms hash_lists_ok by simp
  qed (use assms in simp)
  show "auto_inv p" using auto by (simp add: auto_inv_def)
qed

lemma config_load_returns: "\<exists>rc p. config_load os parse path = Some (rc, p)"
  by (cases rule: config_load_cases [of os parse path]) auto

subsection \<open>Reload\<close>

lemma sync_fields [simp]:
  "dm_policy (fa_dm (sync_lists f)) = dm_policy (fa_dm f)" "dm_table (fa_dm (sync_lists f)) = dm_table (fa_dm f)"
  "fa_gate (sync_lists f) = fa_gate f" "fa_queue (sync_lists f) = fa_queue f" "fa_thread (sync_lists f) = fa_thread f"
  "fa_notify (sync_lists f) = fa_notify f" "fa_channels (sync_lists f) = fa_channels f"
  by (simp_all add: sync_lists_def on_dm_def)

lemma set_policy_fields [simp]:
  "dm_policy (fa_dm (set_policy p f)) = p" "dm_table (fa_dm (set_policy p f)) = dm_table (fa_dm f)"
  "fa_gate (set_policy p f) = fa_gate f" "fa_queue (set_policy p f) = fa_queue f"
  "fa_thread (set_policy p f) = fa_thread f" "fa_notify (set_policy p f) = fa_notify f"
  "fa_channels (set_policy p f) = fa_channels f"
  by (simp_all add: set_policy_def on_dm_def)

lemma set_policy_sound: "mirrors_ok p \<Longrightarrow> auto_inv p \<Longrightarrow> fan_sound f (set_policy p f)"
  by (simp add: fan_sound_def sound_step_def daemon_inv_def set_policy_def on_dm_def)

lemma sync_sound: "fan_sound f (sync_lists f)"
  using quiet_sync by (simp add: fan_sound_def sync_lists_def on_dm_def quiet_sound)

lemma rules_fields [simp]:
  "dm_policy (reload_rules env d) = dm_policy d" "dm_table (reload_rules env d) = dm_table d"
  by (simp_all add: reload_rules_def case_prod_beta)

lemma rules_sound: "sound_step d (reload_rules env d)"
  by (simp add: reload_rules_def case_prod_beta sound_step_def daemon_inv_def)

text \<open>What the policy file says at the moment of the reload.\<close>

definition read_policy :: "fan_env \<Rightarrow> string \<Rightarrow> main_state \<Rightarrow> rguard_error \<times> rguard_policy" where
  "read_policy env path ms =
     the (config_load (config_os_of (fe_dm env) (dm_world (fa_dm (ms_fan ms)))) (de_parse (fe_dm env)) path)"

lemma read_policy_answer:
  "config_load (config_os_of (fe_dm env) (dm_world (fa_dm (ms_fan ms)))) (de_parse (fe_dm env)) path =
     Some (read_policy env path ms)"
  unfolding read_policy_def
  using config_load_returns [of "config_os_of (fe_dm env) (dm_world (fa_dm (ms_fan ms)))" "de_parse (fe_dm env)" path]
  by (metis option.sel)

definition loaded_fan :: "rguard_policy \<Rightarrow> fan \<Rightarrow> fan" where
  "loaded_fan np f = sync_lists (fan_log LOG_INFO ''CONFIG_LOADED'' None ''{\"reload\":true}'' (set_policy np f))"

lemma reload_cases:
  assumes "read_policy env path ms = (rc, np)"
  obtains (refused) "rc \<noteq> RGUARD_OK" and "daemon_reload env a b path ms =
      on_fan (on_dm (reload_rules (fe_dm env))) (on_fan (fan_log LOG_ERROR ''CONFIG_ERROR'' None ''{\"reload\":true}'') ms)"
  | (idle) "rc = RGUARD_OK" and "\<not> fa_notify (ms_fan ms)" and "daemon_reload env a b path ms =
      \<lparr>ms_fan = on_dm (reload_rules (fe_dm env)) (loaded_fan np (ms_fan ms)), ms_level = level_of np, ms_logged = ms_logged ms\<rparr>"
  | (watching) "rc = RGUARD_OK" and "fa_notify (ms_fan ms)" and "daemon_reload env a b path ms =
      \<lparr>ms_fan = on_dm (reload_rules (fe_dm env)) (restart_channels env a b (loaded_fan np (ms_fan ms))),
       ms_level = level_of np, ms_logged = ms_logged ms\<rparr>"
proof (cases "rc = RGUARD_OK")
  case True
  then show ?thesis
    using idle watching assms
    by (cases "fa_notify (ms_fan ms)") (auto simp: daemon_reload_def read_policy_answer Let_def on_fan_def loaded_fan_def)
next
  case False
  then show ?thesis using refused assms by (simp add: daemon_reload_def read_policy_answer Let_def)
qed

lemma on_dm_fields [simp]:
  "fa_gate (on_dm h f) = fa_gate f" "fa_queue (on_dm h f) = fa_queue f" "fa_thread (on_dm h f) = fa_thread f"
  "fa_channels (on_dm h f) = fa_channels f" "fa_dm (on_dm h f) = h (fa_dm f)"
  "channel_tags (on_dm h f) = channel_tags f"
  by (simp_all add: on_dm_def channel_tags_def)

lemma loaded_fields [simp]:
  "dm_policy (fa_dm (loaded_fan np f)) = np" "fa_gate (loaded_fan np f) = fa_gate f" "fa_queue (loaded_fan np f) = fa_queue f"
  "fa_thread (loaded_fan np f) = fa_thread f" "fa_channels (loaded_fan np f) = fa_channels f"
  "channel_tags (loaded_fan np f) = channel_tags f"
  by (simp_all add: loaded_fan_def channel_tags_def)

lemma loaded_sound: "mirrors_ok np \<Longrightarrow> auto_inv np \<Longrightarrow> fan_sound f (loaded_fan np f)"
  unfolding loaded_fan_def by (rule fan_sound_trans [OF _ sync_sound]) (simp add: set_policy_sound)

lemma rules_fan_sound: "fan_sound f g \<Longrightarrow> fan_sound f (on_dm (reload_rules env) g)"
  by (erule fan_sound_trans) (simp add: fan_sound_def rules_sound)

lemma reload_sound: "fan_sound (ms_fan ms) (ms_fan (daemon_reload env a b path ms))"
proof -
  obtain rc np where r: "read_policy env path ms = (rc, np)" by fastforce
  have "config_load (config_os_of (fe_dm env) (dm_world (fa_dm (ms_fan ms)))) (de_parse (fe_dm env)) path = Some (rc, np)"
    using read_policy_answer [of env ms path] r by simp
  note l = loaded_sound [OF loaded_policy(2,3) [OF this]]
  from r show ?thesis
    by (cases rule: reload_cases [of env path ms rc np a b])
      (simp_all add: on_fan_def rules_fan_sound l fan_sound_trans [OF l restart_effect(6)])
qed

text \<open>
  C13: A reload whose file is refused keeps the policy, the channels, the flood gate, the thread and the
  log level. One whose file is accepted installs exactly the policy of the file, without any automatic
  address; when the monitor runs, its channels are the first sixteen paths of the enabled modules in
  their order, the gate is empty, and the permission thread runs when one of two attempts made it. No
  waiting report is lost either way.
\<close>

theorem reload_takes_effect:
  "fa_queue (ms_fan (daemon_reload env first second path ms)) = fa_queue (ms_fan ms) \<and>
   (case config_load (config_os_of (fe_dm env) (dm_world (fa_dm (ms_fan ms)))) (de_parse (fe_dm env)) path of
      None \<Rightarrow> False
    | Some (rc, np) \<Rightarrow>
        let f = ms_fan ms; ms' = daemon_reload env first second path ms; g = ms_fan ms' in
        if rc \<noteq> RGUARD_OK then
          dm_policy (fa_dm g) = dm_policy (fa_dm f) \<and> fa_channels g = fa_channels f \<and> fa_gate g = fa_gate f \<and>
          fa_thread g = fa_thread f \<and> ms_level ms' = ms_level ms
        else
          dm_policy (fa_dm g) = np \<and> bl_auto_ips (p_blacklist np) = [] \<and> ms_level ms' = level_of np \<and>
          (if fa_notify f then
             channel_tags g = take FANOTIFY_MAX_CHANNELS (wanted_channels np) \<and> fa_gate g = fangate_reset (fa_gate f) \<and>
             (fa_thread g \<longleftrightarrow> first \<or> second)
           else fa_channels g = fa_channels f \<and> fa_gate g = fa_gate f \<and> fa_thread g = fa_thread f))"
proof -
  obtain rc np where r: "read_policy env path ms = (rc, np)" by fastforce
  have c: "config_load (config_os_of (fe_dm env) (dm_world (fa_dm (ms_fan ms)))) (de_parse (fe_dm env)) path = Some (rc, np)"
    using read_policy_answer [of env ms path] r by simp
  note auto = loaded_policy(1) [OF c]
  from r show ?thesis
    by (cases rule: reload_cases [of env path ms rc np first second])
      (simp_all add: c auto Let_def restart_effect on_fan_def)
qed

subsection \<open>Draining the queue\<close>

lemma drain_step:
  assumes "fa_pipe f" and "\<not> fa_stuck f" and "fe_queue_read env (fa_n f)" and "fa_queue f = m # q"
  shows "drain_queue env f =
    drain_queue env (f\<lparr>fa_n := Suc (fa_n f), fa_queue := q, fa_dm := process_msg (fe_dm env) m (fa_dm f)\<rparr>)"
  using assms by (subst drain_queue.simps)
    (simp add: fanotify_process_queued_def Let_def next_answer_def on_dm_def)

lemma drain_stop:
  assumes "\<not> fa_pipe f \<or> fa_stuck f \<or> \<not> fe_queue_read env (fa_n f) \<or> fa_queue f = []"
  shows "fa_queue (drain_queue env f) = fa_queue f \<and> fa_dm (drain_queue env f) = fa_dm f"
  using assms by (subst (1 2) drain_queue.simps)
    (auto simp: fanotify_process_queued_def Let_def next_answer_def on_dm_def)

lemma drain_prefix:
  "\<exists>k \<le> length (fa_queue f). fa_queue (drain_queue env f) = drop k (fa_queue f) \<and>
     fa_dm (drain_queue env f) = fold (process_msg (fe_dm env)) (take k (fa_queue f)) (fa_dm f) \<and>
     (k < length (fa_queue f) \<longrightarrow> \<not> fa_pipe f \<or> fa_stuck f \<or> \<not> fe_queue_read env (fa_n f + k))"
proof (induction "fa_queue f" arbitrary: f)
  case Nil
  then show ?case using drain_stop [of f env] by simp
next
  case (Cons m q)
  show ?case
  proof (cases "fa_pipe f \<and> \<not> fa_stuck f \<and> fe_queue_read env (fa_n f)")
    case True
    let ?g = "f\<lparr>fa_n := Suc (fa_n f), fa_queue := q, fa_dm := process_msg (fe_dm env) m (fa_dm f)\<rparr>"
    have s: "drain_queue env f = drain_queue env ?g" using True Cons.hyps(2) by (intro drain_step) auto
    have "q = fa_queue ?g" by simp
    from Cons.hyps(1) [OF this] obtain k where k: "k \<le> length (fa_queue ?g)"
      "fa_queue (drain_queue env ?g) = drop k (fa_queue ?g)"
      "fa_dm (drain_queue env ?g) = fold (process_msg (fe_dm env)) (take k (fa_queue ?g)) (fa_dm ?g)"
      "k < length (fa_queue ?g) \<longrightarrow> \<not> fa_pipe ?g \<or> fa_stuck ?g \<or> \<not> fe_queue_read env (fa_n ?g + k)" by blast
    show ?thesis
      unfolding s Cons.hyps(2) [symmetric]
      by (rule exI [of _ "Suc k"]) (use k in simp)
  next
    case False
    then show ?thesis using drain_stop [of f env] by (intro exI [of _ 0]) auto
  qed
qed

text \<open>
  C12: When the queue is ready the main thread handles its messages in the order they were sent, each by
  the same routine as a message of the socket, and stops early only when a read fails, the queue is
  not set up or the thread waits for ever; what it does not handle stays in the queue.
\<close>

theorem queue_drained_in_order:
  "\<exists>k \<le> length (fa_queue f). fa_queue (drain_queue env f) = drop k (fa_queue f) \<and>
     fa_dm (drain_queue env f) = fold (process_msg (fe_dm env)) (take k (fa_queue f)) (fa_dm f) \<and>
     (k < length (fa_queue f) \<longrightarrow> \<not> fa_pipe f \<or> fa_stuck f \<or> \<not> fe_queue_read env (fa_n f + k))"
  by (rule drain_prefix)

theorem queue_drained_in_order_witness:
  "fa_queue (drain_queue sample_fan_env (sample_fan\<lparr>fa_queue := [sample_msg, sample_msg]\<rparr>)) = [] \<and>
   fa_dm (drain_queue sample_fan_env (sample_fan\<lparr>fa_queue := [sample_msg, sample_msg]\<rparr>)) =
     process_msg sample_env sample_msg (process_msg sample_env sample_msg sample_daemon)"
proof -
  have f: "fa_pipe sample_fan" "\<not> fa_stuck sample_fan" "fa_dm sample_fan = sample_daemon"
    "\<And>n. fe_queue_read sample_fan_env n" "fe_dm sample_fan_env = sample_env"
    by (simp_all add: sample_fan_def sample_fan_env_def)
  obtain k where "k \<le> length [sample_msg, sample_msg]"
    "fa_queue (drain_queue sample_fan_env (sample_fan\<lparr>fa_queue := [sample_msg, sample_msg]\<rparr>)) = drop k [sample_msg, sample_msg]"
    "fa_dm (drain_queue sample_fan_env (sample_fan\<lparr>fa_queue := [sample_msg, sample_msg]\<rparr>)) =
      fold (process_msg sample_env) (take k [sample_msg, sample_msg]) sample_daemon"
    "\<not> k < length [sample_msg, sample_msg]"
    using queue_drained_in_order [of "sample_fan\<lparr>fa_queue := [sample_msg, sample_msg]\<rparr>" sample_fan_env]
    by (auto simp: f)
  then show ?thesis by simp
qed

end
