(* ===== verification/Daemon_Steps.thy ===== *)
theory Daemon_Steps
  imports Daemon_Runs
begin

text \<open>
  The daemon from its start on: every step either thread or the event loop makes, in any order, and
  what holds in every state they can reach.
\<close>

subsection \<open>Steps and reachable states\<close>

text \<open>The operating system may answer differently at every step.\<close>

inductive daemon_step :: "string \<Rightarrow> main_state \<Rightarrow> main_state \<Rightarrow> bool" for path where
  thread: "thread_step os (ms_fan ms) l g \<Longrightarrow> daemon_step path ms (ms\<lparr>ms_fan := g\<rparr>)"
| event: "daemon_step path ms (on_ready os r ms)"
| children: "daemon_step path ms (on_fan (on_dm (reap rs)) ms)"
| poll: "daemon_step path ms (on_fan (\<lambda>f. snd (fanotify_poll os reads f)) ms)"
| reload: "daemon_step path ms (daemon_reload env first second path ms)"

inductive started :: "string \<Rightarrow> world \<Rightarrow> main_state \<Rightarrow> bool" for path w where
  start: "daemon_start env sa path w f0 = Inr ms \<Longrightarrow> fa_queue f0 = [] \<Longrightarrow> fa_channels f0 = [] \<Longrightarrow> started path w ms"

text \<open>What every reachable state satisfies.\<close>

definition typed_queue :: "fan \<Rightarrow> bool" where
  "typed_queue f \<longleftrightarrow> (\<forall>m \<in> set (fa_queue f). queued_message m)"

definition main_inv :: "main_state \<Rightarrow> bool" where
  "main_inv ms \<longleftrightarrow> daemon_inv (fa_dm (ms_fan ms)) \<and> typed_queue (ms_fan ms)"

text \<open>The step neither spoils the queue nor breaks the invariant nor forgets a block.\<close>

definition good_step :: "fan \<Rightarrow> fan \<Rightarrow> bool" where
  "good_step f g \<longleftrightarrow> (typed_queue f \<longrightarrow> typed_queue g \<and> fan_sound f g)"

lemma good_refl [simp]: "good_step f f"
  by (simp add: good_step_def)

lemma good_trans [trans]: "good_step f g \<Longrightarrow> good_step g h \<Longrightarrow> good_step f h"
  by (auto simp: good_step_def intro: fan_sound_trans)

lemma good_same_queue: "fa_queue g = fa_queue f \<Longrightarrow> fan_sound f g \<Longrightarrow> good_step f g"
  by (simp add: good_step_def typed_queue_def)

lemma typed_short: "typed_queue f \<Longrightarrow> \<forall>m \<in> set (fa_queue f). length (m_client_ip m) < RGUARD_IP_LEN"
  by (simp add: typed_queue_def queued_message_def msg_fits_def RGUARD_IP_LEN_def)

lemma thread_good:
  assumes "thread_step os f l g"
  shows "good_step f g"
proof -
  obtain s t where l: "l = (s, t)" by fastforce
  have q: "fa_queue f @ s = t @ fa_queue g" and s: "\<forall>m \<in> set s. queued_message m"
    using assms unfolding l by (rule step_conserves, rule step_sends_typed)
  have "set (fa_queue g) \<subseteq> set (fa_queue f) \<union> set s"
    using arg_cong [OF q, of set] by auto
  then have "typed_queue f \<Longrightarrow> typed_queue g" using s by (auto simp: typed_queue_def)
  then show ?thesis using step_sound [OF assms] typed_short by (simp add: good_step_def)
qed

subsection \<open>The parts of a turn\<close>

lemma process_fan_sound:
  "length (m_client_ip m) < RGUARD_IP_LEN \<Longrightarrow> sound_step d (process_msg env m d)"
  by (rule sound_process)

lemma fold_process_sound:
  "\<forall>m \<in> set ms. length (m_client_ip m) < RGUARD_IP_LEN \<Longrightarrow> sound_step d (fold (process_msg env) ms d)"
proof (induction ms arbitrary: d)
  case (Cons m ms)
  then show ?case using sound_trans [OF sound_process [of m d env]] by simp
qed simp

lemma drain_good: "good_step f (drain_queue env f)"
proof -
  obtain k where k: "fa_queue (drain_queue env f) = drop k (fa_queue f)"
    "fa_dm (drain_queue env f) = fold (process_msg (fe_dm env)) (take k (fa_queue f)) (fa_dm f)"
    using drain_prefix [of f env] by blast
  have "typed_queue f \<Longrightarrow> \<forall>m \<in> set (take k (fa_queue f)). length (m_client_ip m) < RGUARD_IP_LEN"
    using typed_short by (meson in_set_takeD)
  then show ?thesis
    using k set_drop_subset [of k "fa_queue f"] fold_process_sound
    by (auto simp: good_step_def typed_queue_def fan_sound_def)
qed

lemma datagrams_sound: "sound_step (snd st) (snd (receive_datagrams env bs st))"
  by (induction env bs st rule: receive_datagrams.induct) (auto intro: sound_trans [OF sound_datagram])

lemma socket_good: "good_step (ms_fan ms) (ms_fan (on_socket os bs ms))"
  using datagrams_sound [of "(ms_logged ms, fa_dm (ms_fan ms))" "fe_dm (fo_env os)" bs]
  by (intro good_same_queue) (simp_all add: on_socket_def case_prod_beta fan_sound_def)

lemma space_world: "world_step w (snd (space_check w p b a c))"
proof -
  have "world_step w (v\<lparr>w_db := snd (db_cleanup_restored (w_db w) n c)\<rparr>)"
    if "w_answers v = w_answers w" "w_clock v = w_clock w" for v n
    using that by (simp add: world_step_def r_into_rtranclp db_step.cleanup)
  then have clean: "world_step w (w\<lparr>w_db := snd (db_cleanup_restored (w_db w) n c)\<rparr>)" for n by blast
  have "world_step w (write_log x y z s (w\<lparr>w_db := snd (db_cleanup_restored (w_db w) n c)\<rparr>))" for x y z s n
    using clean [of n] by (rule world_step_trans) simp
  then show ?thesis
    by (auto simp: space_check_def case_prod_beta Let_def clean split: option.split)
qed

lemma retry_good: "good_step f (snd (retry_loop env is n f))"
proof (induction env "is" n f rule: retry_loop.induct)
  case (2 env i "is" n f)
  obtain rc f1 where a: "channel_rt_activate env i f = (rc, f1)" by fastforce
  have "good_step f f1" using activate_settled [OF a] by (intro good_same_queue) (simp_all add: settled_def same_setup_def)
  with 2 show ?case by (auto simp: a intro: good_trans)
qed simp

lemma timer_good: "good_step f (on_timer os ta f)"
proof -
  let ?g = "on_dm (\<lambda>d. on_world (\<lambda>w. snd (space_check w (dm_policy d) (ta_before ta) (ta_after ta) (ta_cutoff ta))) d) f"
  have "sound_step (fa_dm f) (fa_dm ?g)" by (simp add: quiet_sound quiet_on_world space_world)
  then have "good_step f ?g" by (intro good_same_queue) (simp_all add: fan_sound_def)
  also have "good_step ?g (snd (fanotify_retry_pending_channels (fo_env os) ?g))"
    by (simp add: fanotify_retry_pending_channels_def retry_good)
  finally show ?thesis by (simp add: on_timer_def)
qed

lemma ready_good: "good_step (ms_fan ms) (ms_fan (on_ready os r ms))"
  by (cases r) (simp_all add: socket_good timer_good drain_good on_fan_def)

lemma reap_world: "world_step w (snd (restore_reap_children rs pids w))"
proof (induction rs pids w rule: restore_reap_children.induct)
  case (2 pid status reaped pids w)
  have "world_step w (reap_log pid status w)" by (simp add: reap_log_def Let_def)
  with 2 show ?case by (auto split: option.split intro: world_step_trans)
qed simp

lemma reap_good: "good_step f (on_dm (reap rs) f)"
  using reap_world world_step_inv [OF reap_world] by (intro good_same_queue)
    (simp_all add: fan_sound_def sound_step_def daemon_inv_def reap_def case_prod_beta)

lemma reload_good: "good_step (ms_fan ms) (ms_fan (daemon_reload env a b path ms))"
proof (rule good_same_queue [OF _ reload_sound])
  obtain rc np where r: "read_policy env path ms = (rc, np)" by fastforce
  then show "fa_queue (ms_fan (daemon_reload env a b path ms)) = fa_queue (ms_fan ms)"
    by (cases rule: reload_cases [of env path ms rc np a b]) (simp_all add: on_fan_def restart_effect)
qed

lemma fid_good: "process_fid_event (fo_env os) (fan_channel_dispatch os) m f = (n, g) \<Longrightarrow> good_step f g"
proof -
  assume "process_fid_event (fo_env os) (fan_channel_dispatch os) m f = (n, g)"
  then have "thread_step os f ([], []) g" by (intro thread_step.notification [where m = m]) (simp add: on_fid_event_def)
  then show ?thesis by (rule thread_good)
qed

lemma batch_good:
  "notify_batch (fo_env os) (fan_channel_dispatch os) left ms f = (r, g) \<Longrightarrow> good_step f g"
proof (induction ms arbitrary: left f r g)
  case (Cons m ms)
  obtain n f1 where p: "process_fid_event (fo_env os) (fan_channel_dispatch os) m f = (n, f1)" by fastforce
  obtain r2 f2 where b: "notify_batch (fo_env os) (fan_channel_dispatch os) (left - fm_len m) ms f1 = (r2, f2)" by fastforce
  have "good_step f (fan_log LOG_ERROR ''FANOTIFY_VERSION_MISMATCH'' None ''{}'' f)"
    by (rule good_same_queue) simp_all
  moreover note good_trans [OF fid_good [OF p] Cons.IH [OF b]]
  ultimately show ?case using Cons.prems by (auto simp: p b split: if_splits prod.splits)
qed simp

lemma fold_good: "(\<And>x f. good_step f (h x f)) \<Longrightarrow> good_step f (fold h xs f)"
  by (induction xs arbitrary: f) (auto intro: good_trans)

lemma rewalk_good: "good_step f (rewalk env f)"
proof -
  have t: "good_step g (snd (fanotify_mark_tree_add env p g))" for p g
    using tree_add_setup [OF surjective_pairing] by (intro good_same_queue) (simp_all add: same_setup_def)
  have "good_step f (f\<lparr>fa_rewalk := False\<rparr>)" by (rule good_same_queue) simp_all
  also have "good_step (f\<lparr>fa_rewalk := False\<rparr>) (fold (\<lambda>ch f. if \<not> rt_pending ch \<and> rt_is_dir ch \<and> rt_real_path ch \<noteq> []
      then snd (fanotify_mark_tree_add env (rt_real_path ch) f) else f) (fa_channels f) (f\<lparr>fa_rewalk := False\<rparr>))"
    by (rule fold_good) (simp add: t)
  finally show ?thesis by (simp add: rewalk_def)
qed

lemma reads_good: "good_step f (snd (notify_reads (fo_env os) (fan_channel_dispatch os) bs f))"
proof (induction bs arbitrary: f)
  case (Cons b bs)
  obtain nr ms where b: "b = (nr, ms)" by fastforce
  obtain ok n f1 where r: "notify_batch (fo_env os) (fan_channel_dispatch os) nr ms f = ((ok, n), f1)"
    by (metis surj_pair)
  from good_trans [OF batch_good [OF r] Cons.IH] batch_good [OF r] show ?case
    by (simp add: b r rewalk_good case_prod_beta)
qed (simp add: rewalk_good)

lemma poll_good: "good_step f (snd (fanotify_poll os reads f))"
  by (simp add: fanotify_poll_def fanotify_drain_notify_def reads_good)

lemma daemon_step_good: "daemon_step path ms ms' \<Longrightarrow> good_step (ms_fan ms) (ms_fan ms')"
proof (induction rule: daemon_step.induct)
  case (thread os ms l g)
  then show ?case using thread_good by simp
qed (simp_all add: ready_good reload_good on_fan_def reap_good poll_good)

lemma daemon_run_good: "(daemon_step path)\<^sup>*\<^sup>* ms ms' \<Longrightarrow> good_step (ms_fan ms) (ms_fan ms')"
  by (induction rule: rtranclp_induct) (auto intro: good_trans daemon_step_good)

subsection \<open>The event loop makes these steps\<close>

lemma fold_ready_run: "(daemon_step path)\<^sup>*\<^sup>* ms (fold (on_ready os) rs ms)"
proof (induction rs arbitrary: ms)
  case (Cons r rs)
  from converse_rtranclp_into_rtranclp [of "daemon_step path", OF daemon_step.event Cons.IH] show ?case by simp
qed simp

lemma maybe_reload_run: "(daemon_step path)\<^sup>*\<^sup>* ms (maybe_reload os path tn ms)"
  by (simp add: maybe_reload_def r_into_rtranclp daemon_step.reload)

lemma turn_body_run: "(daemon_step path)\<^sup>*\<^sup>* ms (turn_body os path tn rs ms)"
proof -
  let ?a = "fold (on_ready os) rs ms" let ?b = "on_fan (\<lambda>f. snd (fanotify_poll os (tn_notify tn) f)) ?a"
  let ?c = "on_fan (on_dm (reap (tn_reaped tn))) ?b"
  have "(daemon_step path)\<^sup>*\<^sup>* ms ?a" by (rule fold_ready_run)
  also have "daemon_step path ?a ?b" by (rule daemon_step.poll)
  also have "daemon_step path ?b ?c" by (rule daemon_step.children)
  also have "(daemon_step path)\<^sup>*\<^sup>* ?c (maybe_reload os path tn ?c)" by (rule maybe_reload_run)
  finally show ?thesis by (simp add: turn_body_def)
qed

lemma main_loop_run: "(daemon_step path)\<^sup>*\<^sup>* ms (main_loop os path tns ms)"
proof (induction tns arbitrary: ms)
  case (Cons tn tns)
  from rtranclp_trans [OF turn_body_run Cons.IH] rtranclp_trans [OF maybe_reload_run Cons.IH]
  show ?case by (auto split: epoll_answer.split)
qed simp

subsection \<open>The start\<close>

lemma module_init_frames:
  assumes "fanotify_module_init ia f0 = (rc, f)" and "fa_queue f0 = []"
  shows "fa_queue f = []" and "fa_channels f = fa_channels f0" and "fan_sound f0 f"
    and "rc = 0 \<Longrightarrow> fa_perm f \<and> fa_notify f" and "dm_policy (fa_dm f) = dm_policy (fa_dm f0)"
proof -
  have up: "fan_sound f0 (g\<lparr>fa_perm := a\<rparr>) = fan_sound f0 g" "fan_sound f0 (g\<lparr>fa_notify := a\<rparr>) = fan_sound f0 g"
    "fan_sound f0 (g\<lparr>fa_pipe := a\<rparr>) = fan_sound f0 g" for g a
    by (simp_all add: fan_sound_def)
  show "fa_queue f = []" "fa_channels f = fa_channels f0" "fan_sound f0 f"
    "rc = 0 \<Longrightarrow> fa_perm f \<and> fa_notify f" "dm_policy (fa_dm f) = dm_policy (fa_dm f0)"
    using assms by (auto simp: fanotify_module_init_def Let_def up split: if_splits)
qed

lemma init_rules_sound: "sound_step d (init_rules env d)"
proof -
  have "sound_step d (d\<lparr>dm_engine := e, dm_world := (dm_world d)\<lparr>w_log := l\<rparr>\<rparr>)" for e l
    by (simp add: sound_step_def daemon_inv_def)
  note this [THEN sound_trans, OF quiet_sound, OF quiet_log] this
  then show ?thesis by (simp add: init_rules_def case_prod_beta Let_def)
qed

lemma init_rules_policy: "dm_policy (init_rules env d) = dm_policy d"
  by (simp add: init_rules_def case_prod_beta Let_def)

lemma start_channels_effect:
  assumes "fa_queue f0 = []" and "fa_channels f0 = []"
  shows "fa_queue (start_channels env sa d f0) = [] \<and> fan_sound (f0\<lparr>fa_dm := d\<rparr>) (start_channels env sa d f0) \<and>
    dm_policy (fa_dm (start_channels env sa d f0)) = dm_policy d \<and>
    channel_tags (start_channels env sa d f0) =
      (if fst (fanotify_module_init (sa_init sa) (f0\<lparr>fa_dm := d\<rparr>)) = 0
       then take FANOTIFY_MAX_CHANNELS (wanted_channels (dm_policy d)) else [])"
proof -
  obtain rc f where i: "fanotify_module_init (sa_init sa) (f0\<lparr>fa_dm := d\<rparr>) = (rc, f)" by fastforce
  note fr = module_init_frames [OF i, simplified, OF assms(1)]
  let ?c = "fanotify_set_daemon_ctx (fa_dm f) f" let ?g = "start_modules env ?c"
  have c: "fa_queue ?c = []" "fa_channels ?c = []" "fa_dm ?c = fa_dm f"
    using fr assms(2) by (simp_all add: fanotify_set_daemon_ctx_def)
  from start_modules_tags [OF c(2), of env]
  have g: "same_setup ?c ?g" "channel_tags ?g = take FANOTIFY_MAX_CHANNELS (wanted_channels (dm_policy d))"
    using fr(5) c(3) by simp_all
  have s: "fan_sound (f0\<lparr>fa_dm := d\<rparr>) ?g"
    using fan_sound_trans [OF fan_sound_same [OF fr(3) c(3)]] g(1) by (simp add: same_setup_def)
  have up: "channel_tags (h\<lparr>fa_thread := t\<rparr>) = channel_tags h" "fan_sound k (h\<lparr>fa_thread := t\<rparr>) = fan_sound k h" for h t k
    by (simp_all add: channel_tags_def fan_sound_def)
  have z: "channel_tags f = []" using fr(2) assms(2) by (simp add: channel_tags_def)
  show ?thesis
    using g s fr c z by (auto simp: start_channels_def i Let_def fanotify_start_perm_thread_def up same_setup_def)
qed

lemma quiet_ensure: "quiet d (on_world (\<lambda>w. snd (ensure_blocked_file ok w)) d)"
  by (rule quiet_on_world) (simp add: ensure_blocked_file_def world_step_def)

lemma quiet_start:
  "quiet d (on_world (\<lambda>w. blocker_sync_blacklist path bl (snd (ensure_blocked_file ok w))) d)"
  using quiet_trans [OF quiet_ensure [of d ok] quiet_sync [of _ path bl]] by (simp add: on_world_def)

text \<open>What the policy file says at the start.\<close>

lemma start_effect:
  assumes "daemon_start env sa path w f0 = Inr ms" and "fa_queue f0 = []" and "fa_channels f0 = []"
    and "db_inv (w_db w)"
  shows "main_inv ms"
proof -
  let ?load = "config_load (config_os_of (fe_dm env) w) (de_parse (fe_dm env)) path"
  obtain rc p where l: "?load = Some (rc, p)" using config_load_returns by blast
  let ?d0 = "\<lparr>dm_table = session_table_init, dm_policy = p, dm_seq = 0, dm_anchor = 0, dm_world = w,
    dm_pids = [], dm_engine = yara_engine0\<rparr>"
  let ?d1 = "on_world (\<lambda>w. blocker_sync_blacklist BLOCKED_PATH (p_blacklist p) (snd (ensure_blocked_file (sa_blocked sa) w)))
    (log_d LOG_INFO ''CONFIG_LOADED'' None ''{}'' ?d0)"
  let ?d2 = "init_rules (fe_dm env) ?d1"
  have ms: "ms_fan ms = start_channels env sa ?d2 f0"
    using assms(1) by (auto simp: daemon_start_def l Let_def split: if_splits)
  have "daemon_inv ?d0"
    using loaded_policy [OF l] assms(4) by (simp add: daemon_inv_def session_init_inv)
  moreover have "sound_step ?d0 ?d2"
    using sound_trans [OF quiet_sound [OF quiet_trans [OF quiet_log quiet_start]] init_rules_sound] .
  ultimately have "daemon_inv ?d2" by (simp add: sound_step_def)
  then show ?thesis
    using start_channels_effect [OF assms(2,3), of env sa ?d2]
    by (simp add: main_inv_def ms typed_queue_def fan_sound_def sound_step_def)
qed

lemma good_main_inv: "good_step (ms_fan ms) (ms_fan ms') \<Longrightarrow> main_inv ms \<Longrightarrow> main_inv ms' \<and>
    db_step\<^sup>*\<^sup>* (w_db (dm_world (fa_dm (ms_fan ms)))) (w_db (dm_world (fa_dm (ms_fan ms')))) \<and>
    {k. was_blocked (fa_dm (ms_fan ms)) k} \<subseteq> {k. was_blocked (fa_dm (ms_fan ms')) k}"
  by (auto simp: good_step_def main_inv_def fan_sound_def sound_step_def keeps_blocked_def was_blocked_def world_step_def)

text \<open>
  C7: Whatever the daemon is sent and in whatever order its two threads, its timer, its children and
  its reloads act, from its start on its session table, its policy and its database are well formed
  and every waiting report is complete; the database moves by its statements only, and a session that is
  blocked stays blocked, across reloads and as long as the daemon runs.
\<close>

theorem daemon_always_sound:
  assumes "started path w ms0" and "db_inv (w_db w)"
    and "(daemon_step path)\<^sup>*\<^sup>* ms0 ms" and "(daemon_step path)\<^sup>*\<^sup>* ms ms'"
  shows "daemon_inv (fa_dm (ms_fan ms)) \<and> (\<forall>m \<in> set (fa_queue (ms_fan ms)). queued_message m) \<and>
    db_step\<^sup>*\<^sup>* (w_db (dm_world (fa_dm (ms_fan ms)))) (w_db (dm_world (fa_dm (ms_fan ms')))) \<and>
    {k. was_blocked (fa_dm (ms_fan ms)) k} \<subseteq> {k. was_blocked (fa_dm (ms_fan ms')) k}"
proof -
  have "main_inv ms0" using assms(1,2) by (auto elim!: started.cases intro: start_effect)
  then have inv: "main_inv ms" using good_main_inv [OF daemon_run_good [OF assms(3)]] by blast
  then show ?thesis
    using good_main_inv [OF daemon_run_good [OF assms(4)]] by (simp add: main_inv_def typed_queue_def)
qed

text \<open>An empty policy document, read on a system whose directories can be written.\<close>

lemma empty_document: "load_root os parse (CObject []) apply_defaults = apply_defaults"
  by (simp add: load_root_def load_strings_def load_ransom_exts_def scoring_node_def if_object_def copy_string_def
      load_array_def apply_defaults_def Let_def)

lemma validate_hashed: "policy_validate os (hash_lists p) = policy_validate os p"
  by (simp add: policy_validate_def hash_lists_def Let_def case_prod_beta)

definition empty_policy_os :: config_os where
  "empty_policy_os = \<lparr>os_read = (\<lambda>_. Some ''{}''), os_stat = (\<lambda>_. Some Directory), os_writable = (\<lambda>_. True)\<rparr>"

lemma empty_policy_loads:
  "config_load empty_policy_os (\<lambda>_. Some (CObject [])) path = Some (RGUARD_OK, hash_lists apply_defaults)"
proof -
  have "build_ext_set (p_file_ext apply_defaults) = Some (p_file_ext apply_defaults)"
    by (simp add: build_ext_set_def apply_defaults_def)
  moreover have "policy_validate empty_policy_os apply_defaults = RGUARD_OK"
    by (simp add: policy_validate_def empty_policy_os_def apply_defaults_def Let_def dir_writable_def
        log_path_ok_def thresholds_ok_def weights_ok_def)
  moreover have "read_file empty_policy_os path = Some ''{}''" by (simp add: read_file_def empty_policy_os_def)
  moreover have "p\<lparr>p_file_ext := p_file_ext p\<rparr> = p" for p :: rguard_policy by simp
  ultimately show ?thesis
    by (simp add: config_load_def validate_hashed empty_document if_object_def Let_def)
qed

text \<open>A daemon that starts with it, the monitor and the permission thread running.\<close>

definition start_dm_env :: daemon_env where
  "start_dm_env = sample_env\<lparr>de_readable := (\<lambda>_. True), de_stat := (\<lambda>_. Some Directory), de_writable := (\<lambda>_. True),
     de_parse := (\<lambda>_. Some (CObject []))\<rparr>"

definition start_env :: fan_env where
  "start_env = sample_fan_env\<lparr>fe_dm := start_dm_env\<rparr>"

definition start_world :: world where
  "start_world = quiet_world\<lparr>w_files := (\<lambda>_. Some ''{}'')\<rparr>"

definition all_ready :: start_answers where
  "all_ready = \<lparr>sa_log = True, sa_db = True, sa_rundir = True, sa_blocked = True, sa_socket = True, sa_epoll = True, sa_timer = True,
     sa_init = \<lparr>ia_perm = True, ia_notify = True, ia_pair = True, ia_epoll_notify = True, ia_epoll_queue = True\<rparr>,
     sa_thread = True\<rparr>"

definition idle_fan :: fan where
  "idle_fan = sample_fan\<lparr>fa_channels := [], fa_queue := []\<rparr>"

definition first_turn :: main_state where
  "first_turn = projr (daemon_start start_env all_ready ''/etc/policy.json'' start_world idle_fan)"

lemma start_succeeds: "daemon_start start_env all_ready ''/etc/policy.json'' start_world idle_fan = Inr first_turn"
proof -
  have "config_os_of start_dm_env start_world = empty_policy_os"
    by (simp add: config_os_of_def start_dm_env_def start_world_def empty_policy_os_def)
  moreover have "de_parse start_dm_env = (\<lambda>_. Some (CObject []))" by (simp add: start_dm_env_def)
  moreover have "fe_dm start_env = start_dm_env" by (simp add: start_env_def)
  ultimately have l: "config_load (config_os_of (fe_dm start_env) start_world) (de_parse (fe_dm start_env)) ''/etc/policy.json''
      = Some (RGUARD_OK, hash_lists apply_defaults)" by (simp add: empty_policy_loads)
  have "\<exists>ms. daemon_start start_env all_ready ''/etc/policy.json'' start_world idle_fan = Inr ms"
    unfolding daemon_start_def Let_def l option.case prod.case by (simp add: all_ready_def)
  then show ?thesis by (auto simp: first_turn_def)
qed

lemma first_turn_started: "started ''/etc/policy.json'' start_world first_turn"
  by (rule started.start [OF start_succeeds]) (simp_all add: idle_fan_def)

text \<open>One turn of the loop: the queue is ready, then the policy is reloaded.\<close>

definition busy_turn :: turn where
  "busy_turn = \<lparr>tn_quit = False, tn_epoll = Ep_ready [Queue_ready], tn_notify = [], tn_reaped = [], tn_reload = True,
     tn_threads = (True, True)\<rparr>"

theorem daemon_always_sound_witness:
  "daemon_inv (fa_dm (ms_fan (main_loop sample_os ''/etc/policy.json'' [busy_turn] first_turn))) \<and>
   {k. was_blocked (fa_dm (ms_fan first_turn)) k} \<subseteq>
     {k. was_blocked (fa_dm (ms_fan (main_loop sample_os ''/etc/policy.json'' [busy_turn] first_turn))) k}"
proof -
  have db: "db_inv (w_db start_world)" by (simp add: start_world_def quiet_world_def db_inv_def db_empty_def)
  note main_loop_run [of "''/etc/policy.json''" first_turn sample_os "[busy_turn]"]
  from daemon_always_sound [OF first_turn_started db this rtranclp.rtrancl_refl]
    daemon_always_sound [OF first_turn_started db rtranclp.rtrancl_refl this]
  show ?thesis by blast
qed

end
