(* ===== verification/Daemon_Process.thy ===== *)
theory Daemon_Process
  imports Daemon_Steps
begin

text \<open>
  \<open>src/daemon/gfrguardd_main.c\<close>, the process around the event loop: its options, its signals, and what it
  opens before the first turn. The start ends in a state from which \<open>Daemon_Steps\<close> follows the daemon, with
  a database that SQLite's own constraints and the index made at its opening keep well formed.
\<close>

subsection \<open>Options\<close>

text \<open>What \<open>getopt_long\<close> returns, one value per option, until its \<open>-1\<close>.\<close>

datatype cmd_option = Opt_config string | Opt_help | Opt_unknown

definition DEFAULT_CONFIG :: string where "DEFAULT_CONFIG = ''/etc/gf2000/rguard-policy.json''"

text \<open>The exit code, or the path of the policy.\<close>

fun parse_options :: "cmd_option list \<Rightarrow> string \<Rightarrow> int + string" where
  "parse_options [] config_path = Inr config_path"
| "parse_options (Opt_config path # opts) config_path = parse_options opts path"
| "parse_options (Opt_help # opts) config_path = Inl 0"
| "parse_options (Opt_unknown # opts) config_path = Inl 1"

subsection \<open>Signals\<close>

definition SIGHUP :: int where "SIGHUP = 1"
definition SIGINT :: int where "SIGINT = 2"

record signal_flags =
  g_quit_flag :: bool
  g_reload_flag :: bool

definition sig_handler :: "int \<Rightarrow> signal_flags \<Rightarrow> signal_flags" where
  "sig_handler sig fl =
     (if sig = SIGTERM \<or> sig = SIGINT then fl\<lparr>g_quit_flag := True\<rparr>
      else if sig = SIGHUP then fl\<lparr>g_reload_flag := True\<rparr> else fl)"

text \<open>Only the loop takes a flag back: a signal that came is seen, whatever came after it.\<close>

lemma flags_of_signals:
  "g_quit_flag (fold sig_handler sigs fl) \<longleftrightarrow> g_quit_flag fl \<or> SIGTERM \<in> set sigs \<or> SIGINT \<in> set sigs"
  "g_reload_flag (fold sig_handler sigs fl) \<longleftrightarrow> g_reload_flag fl \<or> SIGHUP \<in> set sigs"
proof (induction sigs arbitrary: fl)
  case (Cons s sigs)
  { case 1 show ?case using Cons.IH(1) [of "sig_handler s fl"]
      by (auto simp: sig_handler_def SIGTERM_def SIGINT_def SIGHUP_def) }
  { case 2 show ?case using Cons.IH(2) [of "sig_handler s fl"]
      by (auto simp: sig_handler_def SIGTERM_def SIGINT_def SIGHUP_def) }
qed simp_all

subsection \<open>The start\<close>

text \<open>An existing name is taken for the directory.\<close>

definition ensure_dir :: "mkdir_result \<Rightarrow> int" where
  "ensure_dir r = (case r of Mkdir_ok \<Rightarrow> 0 | Mkdir_eexist \<Rightarrow> 0 | Mkdir_fail \<Rightarrow> -1)"

definition RUN_DIR :: string where "RUN_DIR = ''/run/gfrguardd''"
definition LOG_FILENAME :: string where "LOG_FILENAME = ''gfrguard.log''"

text \<open>
  The answers of the system: directories and the log file, the database with the tables in each file,
  and the rest of the start.
\<close>

record process_answers =
  pa_stat :: "string \<Rightarrow> bool"
  pa_mkdir :: "string \<Rightarrow> mkdir_result"
  pa_fopen :: "string \<Rightarrow> bool"
  pa_open :: open_answers
  pa_stored :: "string \<Rightarrow> database"
  pa_start :: start_answers

definition init_log :: "process_answers \<Rightarrow> rguard_policy \<Rightarrow> log_state \<Rightarrow> int \<times> log_state \<times> string option" where
  "init_log pa p ls =
     rguard_log_init (pa_stat pa) (pa_mkdir pa) (pa_fopen pa)
       (Some (snprintf_s 512 (p_log_path p @ ''/'' @ LOG_FILENAME))) (Some ''gfrguardd'')
       (parse_log_level (Some (p_log_level p))) ls"

definition db_path :: "rguard_policy \<Rightarrow> string" where
  "db_path p = snprintf_s 512 (p_store_path p @ ''/index.db'')"

text \<open>The exit code, or the state at the first turn and the number of connections.\<close>

definition process_start ::
  "fan_env \<Rightarrow> process_answers \<Rightarrow> cmd_option list \<Rightarrow> world \<Rightarrow> fan \<Rightarrow> int + main_state \<times> int" where
  "process_start env pa opts w f0 =
     (case parse_options opts DEFAULT_CONFIG of
        Inl rc \<Rightarrow> Inl rc
      | Inr path \<Rightarrow>
          (case config_load (config_os_of (fe_dm env) w) (de_parse (fe_dm env)) path of
             None \<Rightarrow> Inl 1
           | Some (rc, p) \<Rightarrow>
               if rc \<noteq> RGUARD_OK then Inl 1
               else if fst (init_log pa p log_state0) \<noteq> 0 then Inl 1
               else
                 (case db_open (pa_open pa) (Some (db_path p)) (pa_stored pa) 0 of
                    (_, None, _) \<Rightarrow> Inl 1
                  | (_, Some db, handles) \<Rightarrow>
                      if ensure_dir (pa_mkdir pa RUN_DIR) \<noteq> 0 then Inl 1
                      else
                        (case daemon_start env ((pa_start pa)\<lparr>sa_log := True, sa_db := True, sa_rundir := True\<rparr>)
                                path (w\<lparr>w_db := db\<rparr>) f0 of
                           Inl rc \<Rightarrow> Inl rc
                         | Inr ms \<Rightarrow> Inr (ms, handles)))))"

lemma parse_options_exit: "parse_options opts path = Inl rc \<Longrightarrow> rc \<in> {0, 1}"
  by (induction opts path rule: parse_options.induct) auto

lemma daemon_start_exit: "daemon_start env sa path w f0 = Inl rc \<Longrightarrow> rc = 1"
  by (auto simp: daemon_start_def Let_def split: option.splits if_splits)

lemma process_started:
  assumes "process_start env pa opts w f0 = Inr (ms, handles)"
  obtains path p sa where "parse_options opts DEFAULT_CONFIG = Inr path"
    "config_load (config_os_of (fe_dm env) w) (de_parse (fe_dm env)) path = Some (RGUARD_OK, p)"
    "files_unique (pa_stored pa (db_path p))" "handles = 1"
    "daemon_start env sa path (w\<lparr>w_db := pa_stored pa (db_path p)\<rparr>) f0 = Inr ms"
proof -
  from assms obtain path p rc db sa where s:
    "parse_options opts DEFAULT_CONFIG = Inr path"
    "config_load (config_os_of (fe_dm env) w) (de_parse (fe_dm env)) path = Some (RGUARD_OK, p)"
    "db_open (pa_open pa) (Some (db_path p)) (pa_stored pa) 0 = (rc, Some db, handles)"
    "daemon_start env sa path (w\<lparr>w_db := db\<rparr>) f0 = Inr ms"
    by (auto simp: process_start_def split: sum.splits option.splits if_splits prod.splits)
  from s(3) have "db = pa_stored pa (db_path p) \<and> files_unique db \<and> handles = 1"
    by (cases rule: db_open_cases) simp_all
  with s that show thesis by blast
qed

text \<open>
  C8: A start of the daemon ends with an exit code, or in a state where everything later steps rely on
  holds: the policy is that of the file the options name, one connection is open, its tables are those of
  the policy's store and satisfy the invariant of the statements. A store where two records have the same
  event and file, which a schema without the constraint let in, is refused.
\<close>

theorem process_start_outcome:
  assumes "\<And>p. tables_keyed (pa_stored pa p)" and "fa_queue f0 = []" and "fa_channels f0 = []"
  shows "(case process_start env pa opts w f0 of
      Inl rc \<Rightarrow> rc \<in> {0, 1}
    | Inr (ms, handles) \<Rightarrow> handles = 1 \<and> main_inv ms \<and>
        (\<exists>path p db. parse_options opts DEFAULT_CONFIG = Inr path \<and>
           config_load (config_os_of (fe_dm env) w) (de_parse (fe_dm env)) path = Some (RGUARD_OK, p) \<and>
           db = pa_stored pa (db_path p) \<and> db_inv db \<and> started path (w\<lparr>w_db := db\<rparr>) ms)) \<and>
    (\<forall>path p. parse_options opts DEFAULT_CONFIG = Inr path \<and>
       config_load (config_os_of (fe_dm env) w) (de_parse (fe_dm env)) path = Some (RGUARD_OK, p) \<and>
       \<not> files_unique (pa_stored pa (db_path p)) \<longrightarrow> process_start env pa opts w f0 = Inl 1)"
proof (cases "process_start env pa opts w f0")
  case (Inl rc)
  then show ?thesis
    by (auto simp: process_start_def db_open_def split: sum.splits option.splits if_splits prod.splits
        dest: parse_options_exit daemon_start_exit)
next
  case (Inr r)
  obtain ms handles where r: "r = (ms, handles)" by fastforce
  from process_started [OF Inr [unfolded r]] obtain path p sa where s:
    "parse_options opts DEFAULT_CONFIG = Inr path"
    "config_load (config_os_of (fe_dm env) w) (de_parse (fe_dm env)) path = Some (RGUARD_OK, p)"
    "files_unique (pa_stored pa (db_path p))" "handles = 1"
    "daemon_start env sa path (w\<lparr>w_db := pa_stored pa (db_path p)\<rparr>) f0 = Inr ms" by blast
  have inv: "db_inv (pa_stored pa (db_path p))" by (rule opened_inv [OF assms(1) s(3)])
  moreover have "started path (w\<lparr>w_db := pa_stored pa (db_path p)\<rparr>) ms" by (rule started.start [OF s(5) assms(2,3)])
  moreover have "main_inv ms" by (rule start_effect [OF s(5) assms(2,3)]) (simp add: inv)
  ultimately show ?thesis using s(1-4) unfolding Inr r by auto
qed

definition fresh_process :: process_answers where
  "fresh_process = \<lparr>pa_stat = (\<lambda>_. True), pa_mkdir = (\<lambda>_. Mkdir_eexist), pa_fopen = (\<lambda>_. True),
     pa_open = \<lparr>oa_open = True, oa_handle = True, oa_schema = True, oa_index = True\<rparr>,
     pa_stored = (\<lambda>_. db_empty), pa_start = all_ready\<rparr>"

theorem process_start_outcome_witness:
  "(case process_start start_env fresh_process [Opt_config ''/etc/policy.json''] start_world idle_fan of
      Inl rc \<Rightarrow> False
    | Inr (ms, handles) \<Rightarrow> handles = 1 \<and> main_inv ms) \<and>
   process_start start_env fresh_process [Opt_help] start_world idle_fan = Inl 0"
proof -
  have keyed: "tables_keyed (pa_stored fresh_process p)" for p
    by (simp add: tables_keyed_def fresh_process_def db_empty_def)
  have env: "config_os_of (fe_dm start_env) start_world = empty_policy_os" "de_parse (fe_dm start_env) = (\<lambda>_. Some (CObject []))"
    by (simp_all add: config_os_of_def start_env_def start_dm_env_def start_world_def empty_policy_os_def)
  have same: "(pa_start fresh_process)\<lparr>sa_log := True, sa_db := True, sa_rundir := True\<rparr> = all_ready"
    "start_world\<lparr>w_db := db_empty\<rparr> = start_world"
    by (simp_all add: fresh_process_def all_ready_def start_world_def quiet_world_def)
  have turn: "daemon_start start_env ((pa_start fresh_process)\<lparr>sa_log := True, sa_db := True, sa_rundir := True\<rparr>)
      ''/etc/policy.json'' (start_world\<lparr>w_db := db_empty\<rparr>) idle_fan = Inr first_turn"
    unfolding same by (rule start_succeeds)
  have log: "fst (init_log fresh_process p log_state0) = 0" for p
    by (simp add: init_log_def rguard_log_init_def fresh_process_def Let_def snprintf_s_eq_Nil)
  have db: "db_open (pa_open fresh_process) (Some path) (pa_stored fresh_process) 0 = (RGUARD_OK, Some db_empty, 1)" for path
    by (simp add: db_open_def fresh_process_def files_unique_def db_empty_def)
  have dir: "ensure_dir (pa_mkdir fresh_process RUN_DIR) = 0" by (simp add: ensure_dir_def fresh_process_def)
  have "process_start start_env fresh_process [Opt_config ''/etc/policy.json''] start_world idle_fan = Inr (first_turn, 1)"
    unfolding process_start_def parse_options.simps sum.case env empty_policy_loads option.case prod.case log db dir turn
    by simp
  moreover have "process_start start_env fresh_process [Opt_help] start_world idle_fan = Inl 0"
    by (simp add: process_start_def)
  moreover have "fa_queue idle_fan = []" "fa_channels idle_fan = []" by (simp_all add: idle_fan_def)
  ultimately show ?thesis
    using process_start_outcome [OF keyed, where env = start_env and opts = "[Opt_config ''/etc/policy.json'']" and
        w = start_world and ?f0.0 = idle_fan] by simp
qed

end
