(* ===== verification/Cjson_Text.thy ===== *)
theory Cjson_Text
  imports Cjson Inet
begin

unbundle bit_operations_syntax

text \<open>
  \<open>src/common/cJSON.c\<close>, the parser and the printer. A position in the buffer is the text from there
  on; the buffer holds the string and its NUL, and a failure is \<open>None\<close> (the error position nobody
  asks for is left out). Allocations succeed and a printed text stays below \<open>INT_MAX\<close> bytes.
\<close>

subsection \<open>Numbers\<close>

text \<open>
  What the C library does with doubles: \<open>ln_round\<close> is the double nearest to a decimal value,
  \<open>ln_print n\<close> is \<open>sprintf("%1.<n>g")\<close>. The locale is the one of a program that does not set it.
\<close>

record libc_num =
  ln_round :: "rat \<Rightarrow> rat"
  ln_print :: "nat \<Rightarrow> rat \<Rightarrow> string"

text \<open>\<open>strtod\<close> on decimal text: an optional sign, digits around an optional point, an exponent.\<close>

fun opt_sign :: "string \<Rightarrow> bool \<times> string" where
  "opt_sign [] = (False, [])"
| "opt_sign (c # cs) = (if c = CHR ''-'' then (True, cs) else if c = CHR ''+'' then (False, cs) else (False, c # cs))"

definition opt_exponent :: "string \<Rightarrow> int \<times> string" where
  "opt_exponent s =
     (case s of
        c # t \<Rightarrow>
          if c = CHR ''e'' \<or> c = CHR ''E'' then
            (let (neg, u) = opt_sign t; (e, r) = scan_digits 10 0 u
             in if length r = length u then (0, s) else (if neg then - int e else int e, r))
          else (0, s)
      | [] \<Rightarrow> (0, s))"

definition opt_fraction :: "nat \<Rightarrow> string \<Rightarrow> nat \<times> nat \<times> string" where
  "opt_fraction m s =
     (case s of
        c # t \<Rightarrow> if c = CHR ''.'' then (let (m', r) = scan_digits 10 m t in (m', length t - length r, r)) else (m, 0, s)
      | [] \<Rightarrow> (m, 0, s))"

definition power_of_ten :: "int \<Rightarrow> rat" where
  "power_of_ten e = (if e \<ge> 0 then 10 ^ nat e else 1 / 10 ^ nat (- e))"

text \<open>The value and the number of characters used, 0 when there is no number.\<close>

definition strtod :: "libc_num \<Rightarrow> string \<Rightarrow> rat \<times> nat" where
  "strtod L s =
     (let (neg, u) = opt_sign s;
          (m, r) = scan_digits 10 0 u;
          (m', frac, r') = opt_fraction m r;
          digits = (length u - length r) + frac
      in if digits = 0 then (0, 0)
         else
           let (e, r'') = opt_exponent r';
               v = of_nat m' * power_of_ten (e - int frac)
           in (ln_round L (if neg then - v else v), length s - length r''))"

definition number_char :: "char \<Rightarrow> bool" where
  "number_char c \<longleftrightarrow> c \<in> set ''0123456789+-eE.''"

definition parse_number :: "libc_num \<Rightarrow> string \<Rightarrow> (cjson \<times> string) option" where
  "parse_number L s =
     (let (number, used) = strtod L (takeWhile number_char (take 63 s))
      in if used = 0 then None else Some (CNumber number, drop used s))"

definition DBL_EPSILON :: rat where "DBL_EPSILON = 1 / 2 ^ 52"

definition compare_double :: "rat \<Rightarrow> rat \<Rightarrow> bool" where
  "compare_double a b = (let maxVal = (if \<bar>a\<bar> > \<bar>b\<bar> then \<bar>a\<bar> else \<bar>b\<bar>) in \<bar>a - b\<bar> \<le> maxVal * DBL_EPSILON)"

text \<open>A finite number; 25 characters fit the buffer.\<close>

definition print_number :: "libc_num \<Rightarrow> rat \<Rightarrow> string option" where
  "print_number L d =
     (let text =
        (if d = of_int (json_valueint d) then show_int (json_valueint d)
         else
           let short = ln_print L 15 d; (test, used) = strtod L short
           in if used = 0 \<or> \<not> compare_double test d then ln_print L 17 d else short)
      in if length text > 25 then None else Some text)"

subsection \<open>Strings\<close>

text \<open>Four hexadecimal digits; anything else is 0.\<close>

fun hex4_loop :: "nat \<Rightarrow> string \<Rightarrow> nat \<Rightarrow> nat" where
  "hex4_loop 0 cs h = h"
| "hex4_loop (Suc k) [] h = 0"
| "hex4_loop (Suc k) (c # cs) h =
     (case xdigit_val c of
        None \<Rightarrow> 0
      | Some d \<Rightarrow> hex4_loop k cs (if k > 0 then push_bit 4 (h + d) else h + d))"

definition parse_hex4 :: "string \<Rightarrow> nat" where
  "parse_hex4 s = hex4_loop 4 s 0"

fun utf8_tail :: "nat \<Rightarrow> nat \<Rightarrow> string \<Rightarrow> nat \<times> string" where
  "utf8_tail 0 cp out = (cp, out)"
| "utf8_tail (Suc k) cp out = utf8_tail k (drop_bit 6 cp) (char_of ((cp OR 0x80) AND 0xBF) # out)"

definition utf8_bytes :: "nat \<Rightarrow> nat \<Rightarrow> nat \<Rightarrow> string" where
  "utf8_bytes len mark codepoint =
     (let (cp, out) = utf8_tail (len - 1) codepoint []
      in (if len > 1 then char_of ((cp OR mark) AND 0xFF) else char_of (cp AND 0x7F)) # out)"

definition encode_utf8 :: "nat \<Rightarrow> string option" where
  "encode_utf8 cp =
     (if cp < 0x80 then Some (utf8_bytes 1 0 cp)
      else if cp < 0x800 then Some (utf8_bytes 2 0xC0 cp)
      else if cp < 0x10000 then Some (utf8_bytes 3 0xE0 cp)
      else if cp \<le> 0x10FFFF then Some (utf8_bytes 4 0xF0 cp)
      else None)"

text \<open>
  The escape at the start of the text, \<open>left\<close> characters before the closing quote: its bytes and its
  length. One unit, or a surrogate pair.
\<close>

definition utf16_literal_to_utf8 :: "nat \<Rightarrow> string \<Rightarrow> (string \<times> nat) option" where
  "utf16_literal_to_utf8 left s =
     (if left < 6 then None
      else
        let first = parse_hex4 (drop 2 s) in
        if 0xDC00 \<le> first \<and> first \<le> 0xDFFF then None
        else if 0xD800 \<le> first \<and> first \<le> 0xDBFF then
          (let s2 = drop 6 s in
           if left - 6 < 6 then None
           else if take 2 s2 \<noteq> [CHR 0x5C, CHR ''u''] then None
           else
             let second = parse_hex4 (drop 2 s2) in
             if second < 0xDC00 \<or> second > 0xDFFF then None
             else map_option (\<lambda>b. (b, 12))
                    (encode_utf8 (0x10000 + (push_bit 10 (first AND 0x3FF) OR (second AND 0x3FF)))))
        else map_option (\<lambda>b. (b, 6)) (encode_utf8 first))"

text \<open>The length of the literal up to its closing quote, and the number of backslashes stepped over.\<close>

fun string_extent :: "string \<Rightarrow> (nat \<times> nat) option" where
  "string_extent [] = None"
| "string_extent (c # cs) =
     (if c = CHR 0x22 then Some (0, 0)
      else if c = CHR 0x5C then
        (case cs of
           [] \<Rightarrow> None
         | _ # cs' \<Rightarrow> map_option (\<lambda>(n, k). (n + 2, k + 1)) (string_extent cs'))
      else map_option (\<lambda>(n, k). (n + 1, k)) (string_extent cs))"

definition simple_escape :: "char \<Rightarrow> char option" where
  "simple_escape c =
     (if c = CHR ''b'' then Some (CHR 0x08) else if c = CHR ''f'' then Some (CHR 0x0C)
      else if c = CHR ''n'' then Some (CHR 0x0A) else if c = CHR ''r'' then Some (CHR 0x0D)
      else if c = CHR ''t'' then Some (CHR 0x09)
      else if c = CHR 0x22 \<or> c = CHR 0x5C \<or> c = CHR ''/'' then Some c else None)"

lemma utf16_length: "utf16_literal_to_utf8 left s = Some (b, k) \<Longrightarrow> 6 \<le> left \<and> (k = 6 \<or> k = 12)"
  by (auto simp: utf16_literal_to_utf8_def Let_def split: if_splits)

text \<open>
  The loop over the literal: \<open>left\<close> characters before the closing quote. An escape that starts at the
  last of them takes the quote as its second character.
\<close>

function decode_literal :: "nat \<Rightarrow> string \<Rightarrow> string option" where
  "decode_literal left s =
     (if left = 0 then Some []
      else case s of
        [] \<Rightarrow> None
      | c # cs \<Rightarrow>
          if c \<noteq> CHR 0x5C then map_option (\<lambda>out. c # out) (decode_literal (left - 1) cs)
          else case cs of
            [] \<Rightarrow> None
          | e # cs' \<Rightarrow>
              if e = CHR ''u'' then
                (case utf16_literal_to_utf8 left s of
                   None \<Rightarrow> None
                 | Some (b, k) \<Rightarrow> map_option (\<lambda>out. b @ out) (decode_literal (left - k) (drop k s)))
              else (case simple_escape e of
                      None \<Rightarrow> None
                    | Some x \<Rightarrow> map_option (\<lambda>out. x # out) (decode_literal (left - 2) cs')))"
  by pat_completeness auto
termination
  by (relation "measure fst") (auto dest: utf16_length)

declare decode_literal.simps [simp del]

text \<open>The bytes are used as a C string, up to the first NUL.\<close>

definition parse_string :: "string \<Rightarrow> (string \<times> string) option" where
  "parse_string s =
     (case s of
        [] \<Rightarrow> None
      | c # t \<Rightarrow>
          if c \<noteq> CHR 0x22 then None
          else case string_extent t of
            None \<Rightarrow> None
          | Some (n, skipped) \<Rightarrow> map_option (\<lambda>out. (cstr_of out, drop (n + 1) t)) (decode_literal n t))"

text \<open>\<open>sprintf("%04x")\<close> of a byte.\<close>

definition hex_code :: "nat \<Rightarrow> string" where
  "hex_code k = map (\<lambda>j. ''0123456789abcdef'' ! (k div 16 ^ j mod 16)) [3, 2, 1, 0]"

definition print_escape :: "char \<Rightarrow> string" where
  "print_escape c =
     (if (of_char c :: nat) > 31 \<and> c \<noteq> CHR 0x22 \<and> c \<noteq> CHR 0x5C then [c]
      else CHR 0x5C #
        (if c = CHR 0x5C \<or> c = CHR 0x22 then [c]
         else if c = CHR 0x08 then ''b'' else if c = CHR 0x0C then ''f'' else if c = CHR 0x0A then ''n''
         else if c = CHR 0x0D then ''r'' else if c = CHR 0x09 then ''t''
         else CHR ''u'' # hex_code (of_char c)))"

text \<open>The first loop counts the characters that escaping adds; the buffer is sized by it.\<close>

definition escape_characters :: "string \<Rightarrow> nat" where
  "escape_characters s =
     sum_list (map (\<lambda>c. if c \<in> {CHR 0x22, CHR 0x5C, CHR 0x08, CHR 0x0C, CHR 0x0A, CHR 0x0D, CHR 0x09} then 1
       else if (of_char c :: nat) < 32 then 5 else 0) s)"

definition print_string_ptr :: "string \<Rightarrow> string" where
  "print_string_ptr s = [CHR 0x22] @ concat (map print_escape s) @ [CHR 0x22]"

subsection \<open>Values\<close>

definition CJSON_NESTING_LIMIT :: nat where "CJSON_NESTING_LIMIT = 1000"

definition is_blank :: "char \<Rightarrow> bool" where
  "is_blank c \<longleftrightarrow> (of_char c :: nat) \<le> 32"

text \<open>At the end of the buffer the position steps back to the last character.\<close>

definition skip_whitespace :: "string \<Rightarrow> string" where
  "skip_whitespace s =
     (if s = [] then [] else let r = dropWhile is_blank s in if r = [] then [last s] else r)"

lemma length_skip: "length (skip_whitespace s) \<le> length s"
  using length_dropWhile_le [of is_blank s] by (auto simp: skip_whitespace_def Let_def Suc_le_eq)

lemma length_behind: "take 1 (skip_whitespace s) = [c] \<Longrightarrow> length (drop 1 (skip_whitespace s)) < length s"
  using length_skip [of s] by (cases "skip_whitespace s") auto

lemma parse_string_shorter: "parse_string s = Some (x, r) \<Longrightarrow> length r \<le> length s"
  by (auto simp: parse_string_def split: list.splits if_splits option.splits)

lemma parse_number_shorter: "parse_number L s = Some (x, r) \<Longrightarrow> length r \<le> length s"
  by (auto simp: parse_number_def Let_def split: prod.splits if_splits)

text \<open>\<open>d\<close> is the depth; the elements and members start behind the bracket or the comma.\<close>

function parse_value :: "libc_num \<Rightarrow> nat \<Rightarrow> string \<Rightarrow> (cjson \<times> string) option"
  and parse_elements :: "libc_num \<Rightarrow> nat \<Rightarrow> string \<Rightarrow> (cjson list \<times> string) option"
  and parse_members :: "libc_num \<Rightarrow> nat \<Rightarrow> string \<Rightarrow> ((string \<times> cjson) list \<times> string) option"
where
  "parse_value L d s =
     (if take 4 s = ''null'' then Some (CNull, drop 4 s)
      else if take 5 s = ''false'' then Some (CFalse, drop 5 s)
      else if take 4 s = ''true'' then Some (CTrue, drop 4 s)
      else case s of
        [] \<Rightarrow> None
      | c # t \<Rightarrow>
          if c = CHR 0x22 then map_option (\<lambda>(x, r). (CString x, r)) (parse_string s)
          else if c = CHR ''-'' \<or> (CHR ''0'' \<le> c \<and> c \<le> CHR ''9'') then parse_number L s
          else if c = CHR ''['' then
            (if d \<ge> CJSON_NESTING_LIMIT then None
             else
               let r = skip_whitespace t in
               if take 1 r = '']'' then Some (CArray [], drop 1 r)
               else if r = [] then None
               else map_option (\<lambda>(xs, r'). (CArray xs, r')) (parse_elements L (d + 1) r))
          else if c = CHR ''{'' then
            (if d \<ge> CJSON_NESTING_LIMIT then None
             else
               let r = skip_whitespace t in
               if take 1 r = ''}'' then Some (CObject [], drop 1 r)
               else if r = [] then None
               else map_option (\<lambda>(xs, r'). (CObject xs, r')) (parse_members L (d + 1) r))
          else None)"
| "parse_elements L d s =
     (case parse_value L d (skip_whitespace s) of
        None \<Rightarrow> None
      | Some (v, r0) \<Rightarrow>
          let r = skip_whitespace r0 in
          if take 1 r = '','' then map_option (\<lambda>(vs, r'). (v # vs, r')) (parse_elements L d (drop 1 r))
          else if take 1 r = '']'' then Some ([v], drop 1 r) else None)"
| "parse_members L d s =
     (if s = [] then None
      else case parse_string (skip_whitespace s) of
        None \<Rightarrow> None
      | Some (k, r0) \<Rightarrow>
          let r1 = skip_whitespace r0 in
          if take 1 r1 \<noteq> '':'' then None
          else
            (case parse_value L d (skip_whitespace (drop 1 r1)) of
               None \<Rightarrow> None
             | Some (v, r2) \<Rightarrow>
                 let r = skip_whitespace r2 in
                 if take 1 r = '','' then map_option (\<lambda>(kvs, r'). ((k, v) # kvs, r')) (parse_members L d (drop 1 r))
                 else if take 1 r = ''}'' then Some ([(k, v)], drop 1 r) else None))"
  by pat_completeness auto

text \<open>What a parser leaves is no longer than what it was given: the recursion through the results ends.\<close>

lemma parse_shorter:
  "parse_value_parse_elements_parse_members_dom (Inl (L, d, s)) \<Longrightarrow>
     parse_value L d s = Some (v, r) \<Longrightarrow> length r \<le> length s"
  "parse_value_parse_elements_parse_members_dom (Inr (Inl (L, d, s))) \<Longrightarrow>
     parse_elements L d s = Some (vs, r) \<Longrightarrow> length r \<le> length s"
  "parse_value_parse_elements_parse_members_dom (Inr (Inr (L, d, s))) \<Longrightarrow>
     parse_members L d s = Some (kvs, r) \<Longrightarrow> length r \<le> length s"
proof (induction arbitrary: v r and vs r and kvs r rule: parse_value_parse_elements_parse_members.pinduct)
  case (1 L d s)
  note psimp = parse_value.psimps [OF 1(1)]
  show ?case
  proof (cases s)
    case Nil
    show ?thesis using 1(4) unfolding psimp by (simp add: Nil)
  next
    case (Cons c t)
    note len = length_skip [of t]
    consider (arr) "c = CHR ''[''" | (obj) "c = CHR ''{''" | (other) "c \<noteq> CHR ''[''" "c \<noteq> CHR ''{''" by blast
    then show ?thesis
    proof cases
      case arr
      from 1(4) consider (empty) "r = drop 1 (skip_whitespace t)" | (full) vs where "\<not> CJSON_NESTING_LIMIT \<le> d"
        "take 1 (skip_whitespace t) \<noteq> '']''" "skip_whitespace t \<noteq> []" "parse_elements L (d + 1) (skip_whitespace t) = Some (vs, r)"
        unfolding psimp unfolding Cons arr by (simp add: Let_def split: if_splits) (auto)
      then show ?thesis
      proof cases
        case full
        have "length r \<le> length (skip_whitespace t)"
          by (rule 1(2) [where ?x22.0 = t and vs = vs]) (use Cons arr full in simp_all)
        then show ?thesis using len Cons by simp
      qed (use len Cons in simp)
    next
      case obj
      from 1(4) consider (empty) "r = drop 1 (skip_whitespace t)" | (full) kvs where "\<not> CJSON_NESTING_LIMIT \<le> d"
        "take 1 (skip_whitespace t) \<noteq> ''}''" "skip_whitespace t \<noteq> []" "parse_members L (d + 1) (skip_whitespace t) = Some (kvs, r)"
        unfolding psimp unfolding Cons obj by (simp add: Let_def split: if_splits) (auto)
      then show ?thesis
      proof cases
        case full
        have "length r \<le> length (skip_whitespace t)"
          by (rule 1(3) [where ?x22.0 = t and kvs = kvs]) (use Cons obj full in simp_all)
        then show ?thesis using len Cons by simp
      qed (use len Cons in simp)
    next
      case other
      then have "parse_value L d s = (if take 4 s = ''null'' then Some (CNull, drop 4 s)
          else if take 5 s = ''false'' then Some (CFalse, drop 5 s)
          else if take 4 s = ''true'' then Some (CTrue, drop 4 s)
          else if c = CHR 0x22 then map_option (\<lambda>(x, r). (CString x, r)) (parse_string s)
          else if c = CHR ''-'' \<or> (CHR ''0'' \<le> c \<and> c \<le> CHR ''9'') then parse_number L s else None)"
        unfolding psimp by (simp only: Cons list.case if_False simp_thms)
      from 1(4) [unfolded this] show ?thesis
        by (auto split: if_splits dest: parse_string_shorter parse_number_shorter)
    qed
  qed
next
  case (2 L d s)
  from 2(4) obtain w r0 where v: "parse_value L d (skip_whitespace s) = Some (w, r0)"
    unfolding parse_elements.psimps [OF 2(1)] by (auto split: option.splits)
  have l: "length r0 \<le> length s" using 2(2) [OF v] length_skip [of s] by simp
  then have k: "length (drop 1 (skip_whitespace r0)) \<le> length s" using length_skip [of r0] by simp
  show ?case
  proof (cases "take 1 (skip_whitespace r0) = '',''")
    case True
    then obtain us where us: "parse_elements L d (drop 1 (skip_whitespace r0)) = Some (us, r)"
      using 2(4) unfolding parse_elements.psimps [OF 2(1)] by (auto simp: v)
    have "length r \<le> length (drop 1 (skip_whitespace r0))"
      by (rule 2(3) [OF v refl refl True us])
    then show ?thesis using k by simp
  next
    case False
    then show ?thesis
      using 2(4) k unfolding parse_elements.psimps [OF 2(1)] by (auto simp: v Let_def split: if_splits)
  qed
next
  case (3 L d s)
  note psimp = parse_members.psimps [OF 3(1)]
  from 3(4) obtain k r0 where k: "s \<noteq> []" "parse_string (skip_whitespace s) = Some (k, r0)"
    unfolding psimp by (auto split: if_splits option.splits)
  let ?r1 = "skip_whitespace r0" let ?s2 = "skip_whitespace (drop 1 ?r1)"
  from 3(4) k obtain w r2 where v: "take 1 ?r1 = '':''" "parse_value L d ?s2 = Some (w, r2)"
    unfolding psimp by (auto simp: Let_def split: if_splits option.splits)
  have e: "parse_members L d s =
      (if take 1 (skip_whitespace r2) = '','' then
         map_option (\<lambda>(kvs, r'). ((k, w) # kvs, r')) (parse_members L d (drop 1 (skip_whitespace r2)))
       else if take 1 (skip_whitespace r2) = ''}'' then Some ([(k, w)], drop 1 (skip_whitespace r2)) else None)"
    unfolding psimp Let_def using k v by simp
  have "length r2 \<le> length ?s2" by (rule 3(2) [OF k(1,2) refl refl _ v(2)]) (use v(1) in simp)
  then have k2: "length (drop 1 (skip_whitespace r2)) \<le> length s"
    using parse_string_shorter [OF k(2)] length_skip [of s] length_skip [of r0] length_skip [of "drop 1 ?r1"] length_skip [of r2]
    by simp
  show ?case
  proof (cases "take 1 (skip_whitespace r2) = '',''")
    case True
    then obtain us where us: "parse_members L d (drop 1 (skip_whitespace r2)) = Some (us, r)"
      using 3(4) unfolding e by auto
    have "length r \<le> length (drop 1 (skip_whitespace r2))"
      by (rule 3(3) [OF k(1,2) refl refl _ v(2) refl refl True us]) (use v(1) in simp)
    then show ?thesis using k2 by simp
  next
    case False
    then show ?thesis using 3(4) k2 unfolding e by (auto split: if_splits)
  qed
qed

termination parse_value
proof (relation "measure (\<lambda>x. case x of Inl (L, d, s) \<Rightarrow> 2 * length s
    | Inr (Inl (L, d, s)) \<Rightarrow> 2 * length s + 1 | Inr (Inr (L, d, s)) \<Rightarrow> 2 * length s + 1)", goal_cases)
  case (2 L d s c t r)
  then show ?case using length_skip [of t] by simp
next
  case (3 L d s c t r)
  then show ?case using length_skip [of t] by simp
next
  case (4 L d s)
  then show ?case using length_skip [of s] by simp
next
  case (5 L d s x v r0 r)
  have "length r0 \<le> length s" using parse_shorter(1) [OF 5(5)] 5(1,2) length_skip [of s] by fastforce
  moreover have "length (drop 1 r) < length r0" unfolding 5(3) by (rule length_behind) (use 5(3,4) in simp)
  ultimately show ?case by simp
next
  case (6 L d s x k r0 r1)
  then show ?case
    using parse_string_shorter [of "skip_whitespace s" k r0] length_skip [of s] length_skip [of r0]
      length_skip [of "drop 1 r1"] by simp
next
  case (7 L d s x k r0 r1 y v r2 r)
  then have "length r2 \<le> length (skip_whitespace (drop 1 r1))" using parse_shorter(1) [OF 7(10)] by fastforce
  also have "\<dots> \<le> length s"
    using 7(2-4) parse_string_shorter [of "skip_whitespace s" k r0] length_skip [of s] length_skip [of r0]
      length_skip [of "drop 1 r1"] by simp
  finally have l: "length r2 \<le> length s" .
  have "length (drop 1 r) < length r2" unfolding 7(8) by (rule length_behind) (use 7(8,9) in simp)
  with l show ?case by simp
qed simp

declare parse_value.simps [simp del] parse_elements.simps [simp del] parse_members.simps [simp del]

subsection \<open>Documents\<close>

definition skip_utf8_bom :: "string \<Rightarrow> string" where
  "skip_utf8_bom s = (if length s > 4 \<and> take 3 s = [CHR 0xEF, CHR 0xBB, CHR 0xBF] then drop 3 s else s)"

text \<open>What stands behind the first value is not looked at.\<close>

definition cJSON_Parse :: "libc_num \<Rightarrow> string \<Rightarrow> cjson option" where
  "cJSON_Parse L text = map_option fst (parse_value L 0 (skip_whitespace (skip_utf8_bom (text @ [nul]))))"

text \<open>Formatted output; \<open>d\<close> is the depth, which the indentation of members follows.\<close>

fun print_value :: "libc_num \<Rightarrow> nat \<Rightarrow> cjson \<Rightarrow> string option"
  and print_elements :: "libc_num \<Rightarrow> nat \<Rightarrow> cjson list \<Rightarrow> string option"
  and print_members :: "libc_num \<Rightarrow> nat \<Rightarrow> (string \<times> cjson) list \<Rightarrow> string option"
where
  "print_value L d CNull = Some ''null''"
| "print_value L d CFalse = Some ''false''"
| "print_value L d CTrue = Some ''true''"
| "print_value L d (CNumber x) = print_number L x"
| "print_value L d (CString s) = Some (print_string_ptr s)"
| "print_value L d (CArray xs) = map_option (\<lambda>t. ''['' @ t @ '']'') (print_elements L (d + 1) xs)"
| "print_value L d (CObject kvs) =
     map_option (\<lambda>t. ''{'' @ [newline] @ t @ replicate d (CHR 0x09) @ ''}'') (print_members L (d + 1) kvs)"
| "print_elements L d [] = Some []"
| "print_elements L d (x # xs) =
     (case print_value L d x of
        None \<Rightarrow> None
      | Some t \<Rightarrow> map_option (\<lambda>u. t @ (if xs = [] then [] else '', '') @ u) (print_elements L d xs))"
| "print_members L d [] = Some []"
| "print_members L d ((k, v) # kvs) =
     (case print_value L d v of
        None \<Rightarrow> None
      | Some t \<Rightarrow>
          map_option (\<lambda>u. replicate d (CHR 0x09) @ print_string_ptr k @ '':'' @ [CHR 0x09] @ t @
              (if kvs = [] then [] else '','') @ [newline] @ u)
            (print_members L d kvs))"

definition cJSON_Print :: "libc_num \<Rightarrow> cjson \<Rightarrow> string option" where
  "cJSON_Print L j = print_value L 0 j"

end
