(* ===== verification/Cjson_Props.thy ===== *)
theory Cjson_Props
  imports Cjson_Text
begin

text \<open>
  What the parser and the printer promise each other: a printed document is read back as it was, a
  parsed document has bounded nesting and proper C strings, and the decoder stays inside the memory
  it has asked for.
\<close>

subsection \<open>Strings are read back\<close>

lemma and_127: "k < 128 \<Longrightarrow> k AND 127 = (k :: nat)"
  using take_bit_nat_eq_self [of k 7] take_bit_eq_mask [of 7 k] by (simp add: mask_eq_exp_minus_1)

lemma encode_ascii: "k < 128 \<Longrightarrow> encode_utf8 k = Some [char_of k]"
  by (simp add: encode_utf8_def utf8_bytes_def and_127)

lemma xdigit_nibble: "n < 16 \<Longrightarrow> xdigit_val (''0123456789abcdef'' ! n) = Some n"
proof -
  have "\<forall>n \<in> set [0..<16]. xdigit_val (''0123456789abcdef'' ! n) = Some n" by code_simp
  then show "n < 16 \<Longrightarrow> ?thesis" by simp
qed

lemma parse_hex4_digits:
  assumes "xdigit_val a = Some p" "xdigit_val b = Some q" "xdigit_val c = Some r" "xdigit_val d = Some s"
  shows "parse_hex4 (a # b # c # d # t) = ((p * 16 + q) * 16 + r) * 16 + s"
  using assms by (simp add: parse_hex4_def eval_nat_numeral(2,3) push_bit_eq_mult) 

lemma hex_control:
  assumes "k < 32"
  shows "parse_hex4 (hex_code k @ t) = k"
proof -
  have n: "xdigit_val (''0123456789abcdef'' ! (m mod 16)) = Some (m mod 16)" for m by (rule xdigit_nibble) simp
  have "k div 16 ^ 3 = 0" "k div 16 ^ 2 = 0" "k div 16 < 16" using assms by simp_all
  then show ?thesis
    unfolding hex_code_def list.map append.simps parse_hex4_digits [OF n n n n] using assms by simp
qed

lemma decode_plain:
  "c \<noteq> CHR 0x5C \<Longrightarrow> decode_literal (Suc n) (c # t) = map_option (\<lambda>out. c # out) (decode_literal n t)"
  by (subst decode_literal.simps) simp

lemma decode_simple:
  "simple_escape e = Some x \<Longrightarrow> e \<noteq> CHR ''u'' \<Longrightarrow>
    decode_literal (Suc (Suc n)) (CHR 0x5C # e # t) = map_option (\<lambda>out. x # out) (decode_literal n t)"
  by (subst decode_literal.simps) simp

lemma decode_control:
  assumes "k < 32"
  shows "decode_literal (n + 6) (CHR 0x5C # CHR ''u'' # hex_code k @ t) =
    map_option (\<lambda>out. char_of k # out) (decode_literal n t)"
proof -
  have "utf16_literal_to_utf8 (n + 6) (CHR 0x5C # CHR ''u'' # hex_code k @ t) = Some ([char_of k], 6)"
    using assms by (simp add: utf16_literal_to_utf8_def hex_control encode_ascii Let_def)
  moreover have "drop 6 (CHR 0x5C # CHR ''u'' # hex_code k @ t) = t" by (simp add: hex_code_def)
  moreover have "(@) [char_of k] = (#) (char_of k :: char)" by (rule ext) simp
  ultimately show ?thesis by (subst decode_literal.simps) simp
qed

lemma length_hex_code [simp]: "length (hex_code k) = 4"
  by (simp add: hex_code_def)

text \<open>The three ways a character is written.\<close>

lemma print_escape_cases:
  obtains (plain) "print_escape c = [c]" "c \<noteq> CHR 0x5C" "c \<noteq> CHR 0x22"
  | (short) e where "print_escape c = [CHR 0x5C, e]" "simple_escape e = Some c" "e \<noteq> CHR ''u''"
  | (control) "print_escape c = CHR 0x5C # CHR ''u'' # hex_code (of_char c)" "(of_char c :: nat) < 32"
proof -
  consider "c = CHR 0x5C" | "c = CHR 0x22" | "c = CHR 0x08" | "c = CHR 0x0C" | "c = CHR 0x0A" | "c = CHR 0x0D" | "c = CHR 0x09"
    | (pl) "(of_char c :: nat) > 31" "c \<noteq> CHR 0x22" "c \<noteq> CHR 0x5C"
    | (ct) "\<not> (of_char c :: nat) > 31" "c \<notin> {CHR 0x5C, CHR 0x22, CHR 0x08, CHR 0x0C, CHR 0x0A, CHR 0x0D, CHR 0x09}"
    by blast
  then show ?thesis
  proof cases
    case pl
    then show ?thesis using plain by (simp add: print_escape_def)
  next
    case ct
    then show ?thesis using control by (simp add: print_escape_def)
  qed (auto intro!: short simp: print_escape_def simple_escape_def)
qed

lemma decode_escape:
  "decode_literal (n + length (print_escape c)) (print_escape c @ t) = map_option (\<lambda>out. c # out) (decode_literal n t)"
proof (cases rule: print_escape_cases [of c])
  case plain
  then show ?thesis by (simp add: decode_plain)
next
  case (short e)
  then show ?thesis by (simp add: decode_simple)
next
  case control
  then show ?thesis using decode_control [of "of_char c" n t] by (simp add: add.commute)
qed

lemma decode_printed:
  "decode_literal (length (concat (map print_escape s)) ) (concat (map print_escape s) @ t) = Some s"
proof (induction s)
  case Nil
  then show ?case by (simp add: decode_literal.simps)
next
  case (Cons c s)
  then show ?case
    using decode_escape [of "length (concat (map print_escape s))" c "concat (map print_escape s) @ t"]
    by (simp add: add.commute)
qed

lemma extent_plain:
  "c \<noteq> CHR 0x5C \<Longrightarrow> c \<noteq> CHR 0x22 \<Longrightarrow> string_extent (c # t) = map_option (\<lambda>(n, k). (n + 1, k)) (string_extent t)"
  by simp

lemma hex_code_plain: "c \<in> set (hex_code k) \<Longrightarrow> c \<noteq> CHR 0x5C \<and> c \<noteq> CHR 0x22"
proof -
  assume "c \<in> set (hex_code k)"
  then obtain m where "c = ''0123456789abcdef'' ! (m mod 16)" by (auto simp: hex_code_def simp del: nth_Cons_Suc)
  then have "xdigit_val c = Some (m mod 16)" using xdigit_nibble [of "m mod 16"] by simp
  then show ?thesis by (auto simp: xdigit_val_def)
qed

lemma extent_plain_prefix:
  "\<forall>c \<in> set a. c \<noteq> CHR 0x5C \<and> c \<noteq> CHR 0x22 \<Longrightarrow>
    string_extent (a @ t) = map_option (\<lambda>(n, k). (n + length a, k)) (string_extent t)"
proof (induction a)
  case (Cons c a)
  then show ?case by (cases "string_extent t") auto
qed (cases "string_extent t", auto)

lemma extent_escape:
  "\<exists>j. string_extent (print_escape c @ t) = map_option (\<lambda>(n, k). (n + length (print_escape c), k + j)) (string_extent t)"
proof (cases rule: print_escape_cases [of c])
  case plain
  then show ?thesis by (intro exI [of _ 0]) (cases "string_extent t", auto)
next
  case (short e)
  then show ?thesis by (intro exI [of _ 1]) (cases "string_extent t", auto)
next
  case control
  then show ?thesis
    using extent_plain_prefix [of "hex_code (of_char c)" t] hex_code_plain
    by (intro exI [of _ 1]) (cases "string_extent t", auto)
qed

lemma extent_printed:
  "\<exists>j. string_extent (concat (map print_escape s) @ CHR 0x22 # t) = Some (length (concat (map print_escape s)), j)"
proof (induction s)
  case (Cons c s)
  then obtain j where "string_extent (concat (map print_escape s) @ CHR 0x22 # t) = Some (length (concat (map print_escape s)), j)"
    by blast
  then show ?case
    using extent_escape [of c "concat (map print_escape s) @ CHR 0x22 # t"] by (auto simp: add.commute)
qed simp

lemma parse_printed_string:
  assumes "cstr s"
  shows "parse_string (print_string_ptr s @ t) = Some (s, t)"
proof -
  obtain j where "string_extent (concat (map print_escape s) @ CHR 0x22 # t) = Some (length (concat (map print_escape s)), j)"
    using extent_printed by blast
  then show ?thesis
    using assms decode_printed [of s "CHR 0x22 # t"] by (simp add: parse_string_def print_string_ptr_def)
qed

subsection \<open>Numbers are read back\<close>

text \<open>What the printer writes for the number stands for it.\<close>

definition readable :: "libc_num \<Rightarrow> rat \<Rightarrow> bool" where
  "readable L x \<longleftrightarrow>
     (case print_number L x of
        None \<Rightarrow> False
      | Some t \<Rightarrow> strtod L t = (x, length t) \<and> list_all number_char t \<and>
          (case t of [] \<Rightarrow> False | c # _ \<Rightarrow> c = CHR ''-'' \<or> (CHR ''0'' \<le> c \<and> c \<le> CHR ''9'')))"

lemma readable_text:
  assumes "readable L x"
  obtains t c u where "print_number L x = Some t" "strtod L t = (x, length t)" "list_all number_char t" "length t \<le> 25"
    "t = c # u" "c = CHR ''-'' \<or> (CHR ''0'' \<le> c \<and> c \<le> CHR ''9'')"
  using assms by (auto simp: readable_def print_number_def Let_def split: option.splits list.splits if_splits)

lemma parse_printed_number:
  assumes "print_number L x = Some t" "strtod L t = (x, length t)" "list_all number_char t" "length t \<le> 25" "t \<noteq> []"
    and "r = [] \<or> \<not> number_char (hd r)"
  shows "parse_number L (t @ r) = Some (CNumber x, r)"
proof -
  have "takeWhile number_char (take 63 (t @ r)) = t"
  proof (cases r)
    case Nil
    then show ?thesis using assms(3,4) by (simp add: list_all_iff takeWhile_eq_all_conv)
  next
    case (Cons c r')
    have "take 63 (t @ r) = t @ c # take (62 - length t) r'"
      using assms(4) by (simp add: Cons take_Cons' Suc_diff_le)
    then show ?thesis using assms(3,6) by (simp add: Cons list_all_iff takeWhile_append2)
  qed
  then show ?thesis using assms(2,5) by (simp add: parse_number_def)
qed

text \<open>Integers are exact doubles.\<close>

definition exact_integers :: "libc_num \<Rightarrow> bool" where
  "exact_integers L \<longleftrightarrow> (\<forall>i. INT_MIN \<le> i \<and> i \<le> INT_MAX \<longrightarrow> ln_round L (of_int i) = of_int i)"

lemma scan_decimal: "scan_digits 10 0 (show_nat n) = (n, [])"
proof -
  have "\<forall>c \<in> set s. \<exists>d. xdigit_val c = Some d \<and> d < 10 \<Longrightarrow> snd (scan_digits 10 m s) = []" for s m
    by (induction s arbitrary: m) auto
  from this [OF show_nat_decimal] show ?thesis by (simp add: prod_eq_iff scan_show_nat)
qed

lemma digit_cases: "CHR ''0'' \<le> c \<Longrightarrow> c \<le> CHR ''9'' \<Longrightarrow> c \<in> set ''0123456789''"
proof -
  assume r: "CHR ''0'' \<le> c" "c \<le> CHR ''9''"
  then have "48 \<le> (of_char c :: nat)" "(of_char c :: nat) \<le> 57" by (simp_all add: less_eq_char_def)
  then have "(of_char c :: nat) \<in> set [48..<58]" unfolding set_upt atLeastLessThan_iff by linarith
  moreover have "\<forall>n \<in> set [48..<58]. char_of (n :: nat) \<in> set ''0123456789''" by code_simp
  ultimately show ?thesis by (metis char_of_char)
qed

lemma decimal_number_char: "c \<in> set (show_nat n) \<Longrightarrow> number_char c \<and> CHR ''0'' \<le> c \<and> c \<le> CHR ''9''"
proof -
  assume "c \<in> set (show_nat n)"
  from show_nat_digits [OF this] have r: "CHR ''0'' \<le> c" "c \<le> CHR ''9''" by (auto simp: less_eq_char_def)
  then show ?thesis using digit_cases [OF r] by (auto simp: number_char_def)
qed

lemma strtod_integer:
  "strtod L (show_nat n) = (ln_round L (of_nat n), length (show_nat n))"
  "strtod L (CHR ''-'' # show_nat n) = (ln_round L (- of_nat n), Suc (length (show_nat n)))"
proof -
  obtain c u where s: "show_nat n = c # u" by (meson neq_Nil_conv show_nat_nonempty)
  then have "c \<noteq> CHR ''-''" "c \<noteq> CHR ''+''" using decimal_number_char [of c n] by auto
  then have "opt_sign (show_nat n) = (False, show_nat n)" by (simp add: s)
  then show "strtod L (show_nat n) = (ln_round L (of_nat n), length (show_nat n))"
    by (simp add: strtod_def scan_decimal opt_fraction_def opt_exponent_def power_of_ten_def Let_def)
  show "strtod L (CHR ''-'' # show_nat n) = (ln_round L (- of_nat n), Suc (length (show_nat n)))"
    by (simp add: strtod_def scan_decimal opt_fraction_def opt_exponent_def power_of_ten_def Let_def)
qed

lemma integer_readable:
  assumes "exact_integers L" and "INT_MIN \<le> i" and "i \<le> INT_MAX"
  shows "readable L (of_int i)"
proof -
  define n where "n = nat \<bar>i\<bar>"
  have n: "n < 10 ^ Suc 9" using assms(2,3) by (simp add: n_def INT_MIN_def INT_MAX_def)
  have len: "length (show_nat n) \<le> 10" using length_show_nat [OF n] by simp
  have t: "show_int i = (if i < 0 then CHR ''-'' # show_nat n else show_nat n)" by (simp add: show_int_def n_def)
  have v: "of_int i = (if i < 0 then - of_nat n else of_nat n :: rat)" by (simp add: n_def)
  have r: "ln_round L (of_int i) = of_int i" using assms by (simp add: exact_integers_def)
  have "print_number L (of_int i) = Some (show_int i)"
    using json_valueint_of_int [OF assms(2,3)] len by (auto simp: print_number_def t)
  moreover have "strtod L (show_int i) = (of_int i, length (show_int i))"
    using r by (cases "i < 0") (simp_all add: t v strtod_integer)
  moreover have "list_all number_char (show_int i)"
    using decimal_number_char by (auto simp: t list_all_iff number_char_def)
  moreover obtain c u where "show_nat n = c # u" by (meson neq_Nil_conv show_nat_nonempty)
  ultimately show ?thesis using decimal_number_char [of c n] by (auto simp: readable_def t)
qed

subsection \<open>Documents are read back\<close>

text \<open>A document whose strings are C strings and whose numbers are read back.\<close>

fun printable :: "libc_num \<Rightarrow> cjson \<Rightarrow> bool" where
  "printable L (CNumber x) = readable L x"
| "printable L (CString s) = cstr s"
| "printable L (CArray xs) = list_all (printable L) xs"
| "printable L (CObject kvs) = list_all (\<lambda>(k, v). cstr k \<and> printable L v) kvs"
| "printable L _ = True"

text \<open>The depth of the brackets.\<close>

fun nesting :: "cjson \<Rightarrow> nat" where
  "nesting (CArray xs) = Suc (fold (\<lambda>x. max (nesting x)) xs 0)"
| "nesting (CObject kvs) = Suc (fold (\<lambda>(k, v). max (nesting v)) kvs 0)"
| "nesting _ = 0"

lemma fold_max_le: "fold (\<lambda>x. max (f x)) xs m \<le> (b :: nat) \<longleftrightarrow> m \<le> b \<and> (\<forall>x \<in> set xs. f x \<le> b)"
  by (induction xs arbitrary: m) auto

lemma nesting_array:
  "d + nesting (CArray xs) \<le> n \<longleftrightarrow> d < n \<and> (\<forall>x \<in> set xs. (d + 1) + nesting x \<le> n)"
  using fold_max_le [of nesting xs 0 "n - Suc d"] by (cases "d < n") (auto simp: algebra_simps le_diff_conv2)

lemma nesting_object:
  "d + nesting (CObject kvs) \<le> n \<longleftrightarrow> d < n \<and> (\<forall>(k, v) \<in> set kvs. (d + 1) + nesting v \<le> n)"
  using fold_max_le [of "\<lambda>x. nesting (snd x)" kvs 0 "n - Suc d"]
  by (cases "d < n") (auto simp: case_prod_unfold algebra_simps le_diff_conv2)

text \<open>The first character of a printed value.\<close>

lemma blank_skip: "c \<noteq> CHR 0x20 \<Longrightarrow> \<not> is_blank c \<Longrightarrow> skip_whitespace (c # s) = c # s"
  by (simp add: skip_whitespace_def)

lemma skip_one: "is_blank b \<Longrightarrow> \<not> is_blank c \<Longrightarrow> skip_whitespace (b # c # s) = c # s"
  by (simp add: skip_whitespace_def)

lemma skip_here [simp]: "\<not> is_blank c \<Longrightarrow> skip_whitespace (c # s) = c # s"
  by (simp add: skip_whitespace_def)

lemma skip_blank [simp]: "is_blank b \<Longrightarrow> s \<noteq> [] \<Longrightarrow> skip_whitespace (b # s) = skip_whitespace s"
  by (auto simp: skip_whitespace_def Let_def)

lemma blank_chars [simp]: "is_blank CHR 0x20" "is_blank CHR 0x0A" "is_blank CHR 0x09" "\<not> is_blank CHR 0x2C" "\<not> is_blank CHR 0x5D"
  "\<not> is_blank CHR 0x7D" "\<not> is_blank CHR 0x3A" "\<not> is_blank CHR 0x22" "\<not> is_blank CHR 0x5B" "\<not> is_blank CHR 0x7B" "is_blank newline"
  by (simp_all add: is_blank_def newline_def)

lemma skip_tabs [simp]: "s \<noteq> [] \<Longrightarrow> skip_whitespace (replicate n (CHR 0x09) @ s) = skip_whitespace s"
  by (induction n) simp_all

definition starts_value :: "char \<Rightarrow> bool" where
  "starts_value c \<longleftrightarrow> c \<in> set ''nft-[{0123456789'' \<or> c = CHR 0x22"

lemma starts_not_blank: "starts_value c \<Longrightarrow> \<not> is_blank c \<and> c \<noteq> CHR '']'' \<and> c \<noteq> CHR ''}'' \<and> c \<noteq> CHR 0xEF"
  by (auto simp: starts_value_def is_blank_def)

lemma starts_number: "c = CHR ''-'' \<or> (CHR ''0'' \<le> c \<and> c \<le> CHR ''9'') \<Longrightarrow> starts_value c"
proof -
  assume "c = CHR ''-'' \<or> (CHR ''0'' \<le> c \<and> c \<le> CHR ''9'')"
  then have "c = CHR ''-'' \<or> c \<in> set ''0123456789''" using digit_cases by blast
  then show ?thesis unfolding starts_value_def by auto
qed

lemma starts_chars [simp]: "starts_value CHR ''n''" "starts_value CHR ''f''" "starts_value CHR ''t''" "starts_value CHR 0x22"
  "starts_value CHR ''[''" "starts_value CHR ''{''"
  by (simp_all add: starts_value_def)

lemma printed_start:
  assumes "print_value L d j = Some t" and "printable L j"
  shows "\<exists>c u. t = c # u \<and> starts_value c"
proof (cases j)
  case (CNumber x)
  have p: "print_number L x = Some t" and r: "readable L x" using assms by (simp_all add: CNumber)
  obtain t' c u where q: "print_number L x = Some t'" "t' = c # u" "c = CHR ''-'' \<or> (CHR ''0'' \<le> c \<and> c \<le> CHR ''9'')"
    using readable_text [OF r] by blast
  then show ?thesis using p starts_number [OF q(3)] by simp
next
  case (CArray xs)
  then obtain u where "t = CHR ''['' # u" using assms(1) by auto
  then show ?thesis by simp
next
  case (CObject kvs)
  then obtain u where "t = CHR ''{'' # u" using assms(1) by auto
  then show ?thesis by simp
next
  case (CString s)
  then obtain u where "t = CHR 0x22 # u" using assms(1) by (auto simp: print_string_ptr_def)
  then show ?thesis by simp
next
  case CNull
  then have "t = CHR ''n'' # ''ull''" using assms(1) by simp
  then show ?thesis by (intro exI conjI) (assumption, simp)
next
  case CFalse
  then have "t = CHR ''f'' # ''alse''" using assms(1) by simp
  then show ?thesis by (intro exI conjI) (assumption, simp)
next
  case CTrue
  then have "t = CHR ''t'' # ''rue''" using assms(1) by simp
  then show ?thesis by (intro exI conjI) (assumption, simp)
qed

lemma skip_idem [simp]: "skip_whitespace (skip_whitespace s) = skip_whitespace s"
proof (cases "dropWhile is_blank s")
  case Nil
  then have "skip_whitespace s = (if s = [] then [] else [last s])" by (simp add: skip_whitespace_def)
  then show ?thesis by (simp add: skip_whitespace_def Let_def)
next
  case (Cons c t)
  then have "\<not> is_blank c" using hd_dropWhile [of is_blank s] by simp
  moreover have "skip_whitespace s = c # t" using Cons by (auto simp: skip_whitespace_def Let_def)
  ultimately show ?thesis by simp
qed

lemma skip_nonempty: "skip_whitespace s = [] \<longleftrightarrow> s = []"
  by (simp add: skip_whitespace_def Let_def)

lemma members_skip: "parse_members L d (skip_whitespace s) = parse_members L d s"
  by (subst (1 2) parse_members.simps) (simp add: skip_nonempty)

lemma members_blank: "is_blank b \<Longrightarrow> s \<noteq> [] \<Longrightarrow> parse_members L d (b # s) = parse_members L d s"
  by (subst (1 2) parse_members.simps) simp

lemma elements_blank: "is_blank b \<Longrightarrow> s \<noteq> [] \<Longrightarrow> parse_elements L d (b # s) = parse_elements L d s"
  by (subst (1 2) parse_elements.simps) simp

lemma number_chars [simp]: "\<not> number_char CHR '',''" "\<not> number_char CHR '']''" "\<not> number_char newline" "\<not> number_char nul"
  by (simp_all add: number_char_def newline_def nul_def)

lemma printed_skip:
  assumes "print_value L e j = Some t" and "printable L j"
  shows "skip_whitespace (t @ r) = t @ r" and "t @ r \<noteq> []" and "take 1 (t @ r) \<noteq> '']''"
  using printed_start [OF assms] starts_not_blank by auto

lemma parse_array:
  assumes "d < CJSON_NESTING_LIMIT"
  shows "parse_value L d (CHR ''['' # s) =
    (let r = skip_whitespace s in
     if take 1 r = '']'' then Some (CArray [], drop 1 r)
     else if r = [] then None
     else map_option (\<lambda>(xs, r'). (CArray xs, r')) (parse_elements L (d + 1) r))"
  using assms by (simp add: parse_value.simps)

lemma parse_object:
  assumes "d < CJSON_NESTING_LIMIT"
  shows "parse_value L d (CHR ''{'' # s) =
    (let r = skip_whitespace s in
     if take 1 r = ''}'' then Some (CObject [], drop 1 r)
     else if r = [] then None
     else map_option (\<lambda>(xs, r'). (CObject xs, r')) (parse_members L (d + 1) r))"
  using assms by (simp add: parse_value.simps)

lemma parse_quoted: "cstr s \<Longrightarrow> parse_value L d (print_string_ptr s @ r) = Some (CString s, r)"
  using parse_printed_string [of s r] by (simp add: parse_value.simps print_string_ptr_def)

lemma parse_printed:
  "printable L j \<Longrightarrow> d + nesting j \<le> CJSON_NESTING_LIMIT \<Longrightarrow>
     \<exists>t. print_value L e j = Some t \<and> (\<forall>r. r \<noteq> [] \<and> \<not> number_char (hd r) \<longrightarrow> parse_value L d (t @ r) = Some (j, r))"
  "list_all (printable L) xs \<Longrightarrow> \<forall>x \<in> set xs. d + nesting x \<le> CJSON_NESTING_LIMIT \<Longrightarrow>
     \<exists>t. print_elements L e xs = Some t \<and> (xs \<noteq> [] \<longrightarrow> (\<forall>r. parse_elements L d (t @ '']'' @ r) = Some (xs, r)))"
  "list_all (\<lambda>(k, v). cstr k \<and> printable L v) kvs \<Longrightarrow> \<forall>(k, v) \<in> set kvs. d + nesting v \<le> CJSON_NESTING_LIMIT \<Longrightarrow>
     \<exists>t. print_members L e kvs = Some t \<and>
       (kvs \<noteq> [] \<longrightarrow> (\<forall>n r. parse_members L d (t @ replicate n (CHR 0x09) @ ''}'' @ r) = Some (kvs, r)))"
proof (induction L e j and L e xs and L e kvs arbitrary: d and d and d rule: print_value_print_elements_print_members.induct)
  case (1 L e)
  then show ?case by (simp add: parse_value.simps)
next
  case (2 L e)
  then show ?case by (simp add: parse_value.simps)
next
  case (3 L e)
  then show ?case by (simp add: parse_value.simps)
next
  case (4 L e x)
  then have "readable L x" by simp
  from readable_text [OF this] obtain t c u where t: "print_number L x = Some t" "strtod L t = (x, length t)"
    "list_all number_char t" "length t \<le> 25" "t = c # u" "c = CHR ''-'' \<or> (CHR ''0'' \<le> c \<and> c \<le> CHR ''9'')" by blast
  have p: "parse_number L (t @ r) = Some (CNumber x, r)" if "\<not> number_char (hd r)" for r
    by (rule parse_printed_number [OF t(1-4)]) (use t(5) that in simp_all)
  have c: "c \<noteq> CHR ''n''" "c \<noteq> CHR ''f''" "c \<noteq> CHR ''t''" "c \<noteq> CHR 0x22" using t(6) by auto
  have "parse_value L d (t @ r) = parse_number L (t @ r)" for r
    using c t(6) by (simp add: t(5) parse_value.simps take_Cons')
  then show ?case using p t(1) by auto
next
  case (5 L e s)
  then show ?case by (simp add: parse_quoted)
next
  case (6 L e xs)
  from 6(3) [unfolded nesting_array] have d: "d < CJSON_NESTING_LIMIT"
    and "\<forall>x \<in> set xs. (d + 1) + nesting x \<le> CJSON_NESTING_LIMIT" by blast+
  from 6(1) [OF _ this(2)] 6(2) obtain t where t: "print_elements L (e + 1) xs = Some t"
    "xs \<noteq> [] \<longrightarrow> (\<forall>r. parse_elements L (d + 1) (t @ '']'' @ r) = Some (xs, r))" by auto
  show ?case
  proof (cases xs)
    case Nil
    then show ?thesis using t(1) by (simp add: parse_array [OF d])
  next
    case (Cons x ys)
    then obtain w where w: "print_value L (e + 1) x = Some w" "\<exists>u. t = w @ u" "printable L x"
      using t(1) 6(2) by (auto split: option.splits)
    then obtain u where u: "t = w @ u" by blast
    have "skip_whitespace (t @ '']'' @ r) = t @ '']'' @ r" "t @ '']'' @ r \<noteq> []" "take 1 (t @ '']'' @ r) \<noteq> '']''" for r
      using printed_skip [OF w(1,3), of "u @ '']'' @ r"] unfolding u append_assoc by simp_all
    then show ?thesis using t Cons by (simp add: parse_array [OF d])
  qed
next
  case (7 L e kvs)
  from 7(3) [unfolded nesting_object] have d: "d < CJSON_NESTING_LIMIT"
    and "\<forall>(k, v) \<in> set kvs. (d + 1) + nesting v \<le> CJSON_NESTING_LIMIT" by blast+
  from 7(1) [OF _ this(2)] 7(2) obtain t where t: "print_members L (e + 1) kvs = Some t"
    "kvs \<noteq> [] \<longrightarrow> (\<forall>n r. parse_members L (d + 1) (t @ replicate n (CHR 0x09) @ ''}'' @ r) = Some (kvs, r))" by auto
  show ?case
  proof (cases kvs)
    case Nil
    then show ?thesis using t(1) by (simp add: parse_object [OF d])
  next
    case (Cons kv ys)
    obtain k v where "kv = (k, v)" by fastforce
    then obtain u where "t = replicate (e + 1) (CHR 0x09) @ CHR 0x22 # u"
      using t(1) Cons by (auto simp: print_string_ptr_def split: option.splits)
    then have "skip_whitespace (newline # t @ s) = CHR 0x22 # u @ s" "skip_whitespace (t @ s) = CHR 0x22 # u @ s" for s by simp_all
    then show ?thesis using t Cons members_skip [of L "d + 1" "t @ _"] by (simp add: parse_object [OF d])
  qed
next
  case (8 L e)
  show ?case by simp
next
  case (9 L e x xs)
  have px: "printable L x" "d + nesting x \<le> CJSON_NESTING_LIMIT" "list_all (printable L) xs"
    "\<forall>x \<in> set xs. d + nesting x \<le> CJSON_NESTING_LIMIT" using 9(3,4) by simp_all
  from 9(1) [OF px(1,2)] obtain t where t: "print_value L e x = Some t"
    "\<And>r. r \<noteq> [] \<Longrightarrow> \<not> number_char (hd r) \<Longrightarrow> parse_value L d (t @ r) = Some (x, r)" by blast
  obtain u where u: "print_elements L e xs = Some u" "xs \<noteq> [] \<longrightarrow> (\<forall>r. parse_elements L d (u @ '']'' @ r) = Some (xs, r))"
    using 9(2) [OF t(1) px(3,4)] by blast
  note here = printed_skip(1) [OF t(1) px(1)]
  show ?case
  proof (cases xs)
    case Nil
    have "parse_elements L d (t @ '']'' @ r) = Some ([x], r)" for r
      by (subst parse_elements.simps) (simp add: here t(2))
    then show ?thesis using u(1) Nil t(1) by simp
  next
    case (Cons y ys)
    have "parse_elements L d (t @ '', '' @ u @ '']'' @ r) = Some (x # xs, r)" for r
      using u(2) Cons by (subst parse_elements.simps) (simp add: here t(2) elements_blank)
    then show ?thesis using u(1) Cons t(1) by simp
  qed
next
  case (10 L e)
  show ?case by simp
next
  case (11 L e k v kvs)
  have pv: "cstr k" "printable L v" "d + nesting v \<le> CJSON_NESTING_LIMIT"
    "list_all (\<lambda>(k, v). cstr k \<and> printable L v) kvs" "\<forall>(k, v) \<in> set kvs. d + nesting v \<le> CJSON_NESTING_LIMIT" using 11(3,4) by simp_all
  from 11(1) [OF pv(2,3)] obtain t where t: "print_value L e v = Some t"
    "\<And>r. r \<noteq> [] \<Longrightarrow> \<not> number_char (hd r) \<Longrightarrow> parse_value L d (t @ r) = Some (v, r)" by blast
  obtain u where u: "print_members L e kvs = Some u"
    "kvs \<noteq> [] \<longrightarrow> (\<forall>n r. parse_members L d (u @ replicate n (CHR 0x09) @ ''}'' @ r) = Some (kvs, r))"
    using 11(2) [OF t(1) pv(4,5)] by blast
  note here = printed_skip(1) [OF t(1) pv(2)]
  have q: "skip_whitespace (print_string_ptr k @ s) = print_string_ptr k @ s" "print_string_ptr k @ s \<noteq> []" for s
    by (simp_all add: print_string_ptr_def)
  have head: "parse_members L d (replicate e (CHR 0x09) @ print_string_ptr k @ '':'' @ [CHR 0x09] @ t @ c # s) =
      (let r = skip_whitespace (c # s) in
       if take 1 r = '','' then map_option (\<lambda>(kvs, r'). ((k, v) # kvs, r')) (parse_members L d (drop 1 r))
       else if take 1 r = ''}'' then Some ([(k, v)], drop 1 r) else None)" if "\<not> number_char c" for c s
    using that by (subst parse_members.simps) (simp add: q here t(2) parse_printed_string [OF pv(1)])
  show ?case
  proof (cases kvs)
    case Nil
    then show ?thesis using u(1) t(1) head [of newline] by simp
  next
    case (Cons y ys)
    then show ?thesis using u t(1) head [of "CHR '',''"] by (simp add: members_blank)
  qed
qed

lemma cstr_Cons_iff: "cstr (c # s) \<longleftrightarrow> c \<noteq> nul \<and> cstr s"
  by (auto simp: cstr_def)

lemma cstr_empty: "cstr []"
  by (simp add: cstr_def)

lemma printed_string_cstr: "cstr s \<Longrightarrow> cstr (print_string_ptr s)"
proof -
  have e: "cstr (print_escape c)" if "c \<noteq> nul" for c
  proof (cases rule: print_escape_cases [of c])
    case plain
    then show ?thesis using that by (simp add: cstr_def)
  next
    case (short e)
    then show ?thesis by (auto simp: cstr_def nul_def simple_escape_def split: if_splits)
  next
    case control
    have "nul \<notin> set (hex_code k)" for k
    proof
      assume "nul \<in> set (hex_code k)"
      then obtain m where "nul = ''0123456789abcdef'' ! (m mod 16)" by (auto simp: hex_code_def simp del: nth_Cons_Suc)
      then have "xdigit_val nul = Some (m mod 16)" using xdigit_nibble [of "m mod 16"] by simp
      then show False by (simp add: xdigit_val_def nul_def)
    qed
    then show ?thesis using control by (simp add: cstr_def nul_def)
  qed
  have "cstr (concat (map print_escape s))" if "cstr s"
    using that
  proof (induction s)
    case (Cons c s)
    then show ?case using e [of c] by (simp add: cstr_Cons_iff)
  qed (simp add: cstr_def)
  then show "cstr s \<Longrightarrow> ?thesis" by (simp add: print_string_ptr_def) (simp add: cstr_def nul_def)
qed

lemma printed_cstr:
  "print_value L e j = Some t \<Longrightarrow> printable L j \<Longrightarrow> cstr t"
  "print_elements L e xs = Some t \<Longrightarrow> list_all (printable L) xs \<Longrightarrow> cstr t"
  "print_members L e kvs = Some t \<Longrightarrow> list_all (\<lambda>(k, v). cstr k \<and> printable L v) kvs \<Longrightarrow> cstr t"
proof (induction L e j and L e xs and L e kvs arbitrary: t and t and t rule: print_value_print_elements_print_members.induct)
  case (4 L e x)
  then have "readable L x" by simp
  from readable_text [OF this] obtain u where "print_number L x = Some u" "list_all number_char u" by blast
  then show ?case using 4(1) number_chars(4) by (auto simp: cstr_def list_all_iff)
next
  case (5 L e s)
  then show ?case using printed_string_cstr [of s] by auto
next
  case (6 L e xs)
  then show ?case by (auto simp: cstr_Cons_iff nul_def) (simp_all add: cstr_def nul_def)
next
  case (7 L e kvs)
  then show ?case by (auto simp: cstr_Cons_iff nul_def newline_def) (simp_all add: cstr_def nul_def)
next
  case (9 L e x xs)
  then show ?case by (auto simp: cstr_Cons_iff cstr_empty nul_def split: option.splits)
next
  case (11 L e k v kvs)
  then show ?case using printed_string_cstr [of k]
    by (auto simp: cstr_Cons_iff nul_def newline_def split: option.splits) (simp_all add: cstr_def nul_def)
qed (auto simp: cstr_def nul_def)

text \<open>
  C30: A document whose strings hold no NUL, whose numbers are read back and whose brackets are nested at
  most a thousand deep is printed, and parsing the printed text gives the document back: rewriting
  the policy file through the library changes nothing that was not edited.
\<close>

theorem json_roundtrip:
  assumes "printable L j" and "nesting j \<le> CJSON_NESTING_LIMIT"
  shows "\<exists>t. cJSON_Print L j = Some t \<and> cstr t \<and> cJSON_Parse L t = Some j"
proof -
  from assms obtain t where t: "print_value L 0 j = Some t"
    "\<And>r. r \<noteq> [] \<Longrightarrow> \<not> number_char (hd r) \<Longrightarrow> parse_value L 0 (t @ r) = Some (j, r)"
    using parse_printed(1) [of L j 0 0] by auto
  obtain c u where "t = c # u" "starts_value c" using printed_start [OF t(1) assms(1)] by blast
  then have "skip_utf8_bom (t @ [nul]) = t @ [nul]"
    using starts_not_blank [of c] by (auto simp: skip_utf8_bom_def)
  moreover have "skip_whitespace (t @ [nul]) = t @ [nul]" by (rule printed_skip(1) [OF t(1) assms(1)])
  ultimately have "cJSON_Parse L t = Some j" using t(2) [of "[nul]"] by (simp add: cJSON_Parse_def)
  then show ?thesis using t(1) printed_cstr(1) [OF t(1) assms(1)] by (simp add: cJSON_Print_def)
qed

text \<open>A policy file of one blacklisted address, with a nested list and a control character.\<close>

definition plain_num :: libc_num where
  "plain_num = \<lparr>ln_round = (\<lambda>x. x), ln_print = (\<lambda>_ _. ''0.5'')\<rparr>"

definition sample_document :: cjson where
  "sample_document = CObject [(''blacklist'', CObject [(''ips'', CArray [CString ''10.0.0.9'', CTrue])]),
     (''days'', CNumber 30), (''note'', CString [CHR ''a'', newline, CHR 0x01])]"

lemma plain_exact: "exact_integers plain_num"
  by (simp add: exact_integers_def plain_num_def)

theorem json_roundtrip_witness:
  "\<exists>t. cJSON_Print plain_num sample_document = Some t \<and> cstr t \<and> cJSON_Parse plain_num t = Some sample_document"
proof (rule json_roundtrip)
  have "readable plain_num 30" using integer_readable [OF plain_exact, of 30] by (simp add: INT_MIN_def INT_MAX_def)
  then show "printable plain_num sample_document" by (simp add: sample_document_def cstr_def nul_def newline_def)
  show "nesting sample_document \<le> CJSON_NESTING_LIMIT" by (simp add: sample_document_def CJSON_NESTING_LIMIT_def)
qed

subsection \<open>What a parsed document is\<close>

fun c_strings :: "cjson \<Rightarrow> bool" where
  "c_strings (CString s) = cstr s"
| "c_strings (CArray xs) = list_all c_strings xs"
| "c_strings (CObject kvs) = list_all (\<lambda>(k, v). cstr k \<and> c_strings v) kvs"
| "c_strings _ = True"

lemma parsed_string_cstr: "parse_string s = Some (x, r) \<Longrightarrow> cstr x"
  by (auto simp: parse_string_def split: list.splits if_splits option.splits)

lemma parse_too_deep: "\<not> d < CJSON_NESTING_LIMIT \<Longrightarrow> c = CHR ''['' \<or> c = CHR ''{'' \<Longrightarrow> parse_value L d (c # s) = None"
  by (auto simp: parse_value.simps)

text \<open>What a value can be.\<close>

lemma parse_value_cases:
  assumes "parse_value L d s = Some (j, r)"
  obtains (simple) "j \<in> {CNull, CFalse, CTrue} \<union> range CNumber"
  | (quoted) x where "j = CString x" "parse_string s = Some (x, r)"
  | (array) t where "d < CJSON_NESTING_LIMIT" "s = CHR ''['' # t" "j = CArray []"
  | (elements) t xs where "d < CJSON_NESTING_LIMIT" "s = CHR ''['' # t" "j = CArray xs" "take 1 (skip_whitespace t) \<noteq> '']''"
      "skip_whitespace t \<noteq> []" "parse_elements L (d + 1) (skip_whitespace t) = Some (xs, r)"
  | (object) t where "d < CJSON_NESTING_LIMIT" "s = CHR ''{'' # t" "j = CObject []"
  | (members) t kvs where "d < CJSON_NESTING_LIMIT" "s = CHR ''{'' # t" "j = CObject kvs" "take 1 (skip_whitespace t) \<noteq> ''}''"
      "skip_whitespace t \<noteq> []" "parse_members L (d + 1) (skip_whitespace t) = Some (kvs, r)"
proof (cases s)
  case Nil
  then show ?thesis using assms by (simp add: parse_value.simps)
next
  case (Cons c t)
  consider (arr) "c = CHR ''[''" | (obj) "c = CHR ''{''" | (other) "c \<noteq> CHR ''[''" "c \<noteq> CHR ''{''" by blast
  then show ?thesis
  proof cases
    case arr
    then have d: "d < CJSON_NESTING_LIMIT" using assms parse_too_deep [of d c L t] Cons by fastforce
    show ?thesis
      using assms array [OF d] elements [OF d] Cons arr by (auto simp: parse_array [OF d] Let_def split: if_splits)
  next
    case obj
    then have d: "d < CJSON_NESTING_LIMIT" using assms parse_too_deep [of d c L t] Cons by fastforce
    show ?thesis
      using assms object [OF d] members [OF d] Cons obj by (auto simp: parse_object [OF d] Let_def split: if_splits)
  next
    case other
    have "parse_value L d s = (if take 4 s = ''null'' then Some (CNull, drop 4 s)
        else if take 5 s = ''false'' then Some (CFalse, drop 5 s)
        else if take 4 s = ''true'' then Some (CTrue, drop 4 s)
        else if c = CHR 0x22 then map_option (\<lambda>(x, r). (CString x, r)) (parse_string s)
        else if c = CHR ''-'' \<or> (CHR ''0'' \<le> c \<and> c \<le> CHR ''9'') then parse_number L s else None)"
      by (subst parse_value.simps) (simp only: Cons list.case other if_False simp_thms)
    from assms [unfolded this] show ?thesis
      using simple quoted by (auto simp: parse_number_def Let_def split: if_splits prod.splits)
  qed
qed

lemma parsed_shape:
  "parse_value L d s = Some (j, r) \<Longrightarrow> d \<le> CJSON_NESTING_LIMIT \<Longrightarrow> d + nesting j \<le> CJSON_NESTING_LIMIT \<and> c_strings j"
  "parse_elements L d s = Some (xs, r) \<Longrightarrow> d \<le> CJSON_NESTING_LIMIT \<Longrightarrow>
     (\<forall>x \<in> set xs. d + nesting x \<le> CJSON_NESTING_LIMIT \<and> c_strings x)"
  "parse_members L d s = Some (kvs, r) \<Longrightarrow> d \<le> CJSON_NESTING_LIMIT \<Longrightarrow>
     (\<forall>(k, v) \<in> set kvs. d + nesting v \<le> CJSON_NESTING_LIMIT \<and> cstr k \<and> c_strings v)"
proof (induction L d s and L d s and L d s arbitrary: j r and xs r and kvs r
    rule: parse_value_parse_elements_parse_members.induct)
  case (1 L d s)
  from 1(3) show ?case
  proof (cases rule: parse_value_cases)
    case (elements t xs)
    have "\<forall>x \<in> set xs. (d + 1) + nesting x \<le> CJSON_NESTING_LIMIT \<and> c_strings x"
      by (rule 1(1) [where ?x22.0 = t]) (use elements in simp_all)
    then show ?thesis
      using elements nesting_array [of d xs CJSON_NESTING_LIMIT] by (auto simp: list_all_iff)
  next
    case (members t kvs)
    have "\<forall>(k, v) \<in> set kvs. (d + 1) + nesting v \<le> CJSON_NESTING_LIMIT \<and> cstr k \<and> c_strings v"
      by (rule 1(2) [where ?x22.0 = t]) (use members in simp_all)
    then show ?thesis
      using members nesting_object [of d kvs CJSON_NESTING_LIMIT] by (auto simp: list_all_iff)
  qed (use 1(4) parsed_string_cstr in auto)
next
  case (2 L d s)
  from 2(3) show ?case using 2(1,2,4)
    by (subst (asm) parse_elements.simps) (auto simp: Let_def split: option.splits if_splits)
next
  case (3 L d s)
  from 3(3) obtain k r0 v r2 where m: "s \<noteq> []" "parse_string (skip_whitespace s) = Some (k, r0)"
    "take 1 (skip_whitespace r0) = '':''" "parse_value L d (skip_whitespace (drop 1 (skip_whitespace r0))) = Some (v, r2)"
    and rest: "kvs = [(k, v)] \<or> (\<exists>us. kvs = (k, v) # us \<and> take 1 (skip_whitespace r2) = '','' \<and>
      parse_members L d (drop 1 (skip_whitespace r2)) = Some (us, r))"
    by (subst (asm) parse_members.simps) (auto simp: Let_def split: option.splits if_splits)
  have v: "d + nesting v \<le> CJSON_NESTING_LIMIT \<and> c_strings v"
    by (rule 3(1) [OF m(1,2) refl refl _ m(4) 3(4)]) (use m(3) in simp)
  from rest show ?case
  proof
    assume "\<exists>us. kvs = (k, v) # us \<and> take 1 (skip_whitespace r2) = '','' \<and>
      parse_members L d (drop 1 (skip_whitespace r2)) = Some (us, r)"
    then obtain us where us: "kvs = (k, v) # us" "take 1 (skip_whitespace r2) = '',''"
      "parse_members L d (drop 1 (skip_whitespace r2)) = Some (us, r)" by blast
    have "\<forall>(k, v) \<in> set us. d + nesting v \<le> CJSON_NESTING_LIMIT \<and> cstr k \<and> c_strings v"
      by (rule 3(2) [OF m(1,2) refl refl _ m(4) refl refl us(2,3) 3(4)]) (use m(3) in simp)
    then show ?thesis using v us(1) parsed_string_cstr [OF m(2)] by simp
  qed (use v parsed_string_cstr [OF m(2)] in simp)
qed

text \<open>
  Whatever the text of the policy file, parsing ends, and a document it accepts is nested at most a
  thousand deep, so that the recursion of the parser and of every walk over the document is bounded,
  and all its strings are C strings.
\<close>

theorem parsed_document_bounded:
  assumes "cJSON_Parse L text = Some j"
  shows "nesting j \<le> CJSON_NESTING_LIMIT \<and> c_strings j"
proof -
  obtain r where "parse_value L 0 (skip_whitespace (skip_utf8_bom (text @ [nul]))) = Some (j, r)"
    using assms by (auto simp: cJSON_Parse_def)
  from parsed_shape(1) [OF this] show ?thesis by simp
qed

theorem parsed_document_bounded_witness:
  "\<exists>t. cJSON_Print plain_num sample_document = Some t \<and> nesting sample_document \<le> CJSON_NESTING_LIMIT \<and>
     c_strings sample_document"
proof -
  have n: "readable plain_num 30" using integer_readable [OF plain_exact, of 30] by (simp add: INT_MIN_def INT_MAX_def)
  have d: "nesting sample_document \<le> 1000" by (simp add: sample_document_def)
  have "printable plain_num sample_document" using n by (simp add: sample_document_def cstr_def nul_def newline_def)
  from parse_printed(1) [OF this, of 0 0] d obtain t where t: "print_value plain_num 0 sample_document = Some t"
    "parse_value plain_num 0 (t @ [nul]) = Some (sample_document, [nul])" by (auto simp: CJSON_NESTING_LIMIT_def)
  then have "skip_utf8_bom (t @ [nul]) = t @ [nul]" "skip_whitespace (t @ [nul]) = t @ [nul]"
    by (auto simp: sample_document_def skip_utf8_bom_def)
  with t(2) have "cJSON_Parse plain_num t = Some sample_document" by (simp add: cJSON_Parse_def)
  from parsed_document_bounded [OF this] t(1) show ?thesis by (simp add: cJSON_Print_def)
qed

subsection \<open>The memory of a string\<close>

text \<open>The backslashes the first loop steps over in the next characters; \<open>mid\<close>: behind such a backslash.\<close>

fun skips :: "bool \<Rightarrow> nat \<Rightarrow> string \<Rightarrow> nat" where
  "skips mid 0 s = 0"
| "skips mid (Suc n) [] = 0"
| "skips True (Suc n) (c # s) = skips False n s"
| "skips False (Suc n) (c # s) = (if c = CHR 0x5C then Suc (skips True n s) else skips False n s)"

lemma extent_skips: "string_extent t = Some (n, k) \<Longrightarrow> skips False n t = k"
proof (induction t arbitrary: n k rule: string_extent.induct)
  case (2 c cs)
  then show ?case by (auto split: if_splits list.splits)
qed simp

lemma skips_two: "\<exists>m. skips mid (Suc (Suc n)) s \<le> Suc (skips m n (drop 2 s))"
proof (cases s)
  case (Cons a t)
  then show ?thesis
  proof (cases t)
    case (Cons b u)
    with \<open>s = a # t\<close> show ?thesis by (cases mid) (auto intro: exI [of _ False] exI [of _ True])
  qed (use Cons in \<open>cases mid; simp\<close>)
qed simp

lemma skips_even: "\<exists>m. skips mid (2 * i + n) s \<le> i + skips m n (drop (2 * i) s)"
proof (induction i arbitrary: mid s)
  case (Suc i)
  obtain m where m: "skips mid (Suc (Suc (2 * i + n))) s \<le> Suc (skips m (2 * i + n) (drop 2 s))" using skips_two by blast
  obtain m' where "skips m (2 * i + n) (drop 2 s) \<le> i + skips m' n (drop (2 * i) (drop 2 s))" using Suc by blast
  with m show ?case by (intro exI [of _ m']) simp
qed auto

lemma tail_length: "length (snd (utf8_tail k cp out)) = k + length out"
  by (induction k arbitrary: cp out) simp_all

lemma bytes_length: "0 < len \<Longrightarrow> length (utf8_bytes len mark cp) = len"
  by (simp add: utf8_bytes_def case_prod_beta tail_length)

lemma encode_length:
  assumes "encode_utf8 cp = Some b"
  shows "length b \<le> 4" and "cp < 0x10000 \<Longrightarrow> length b \<le> 3"
  using assms bytes_length [of 1] bytes_length [of 2] bytes_length [of 3] bytes_length [of 4]
  by (auto simp: encode_utf8_def split: if_splits)

lemma hex4_loop_small: "16 dvd h \<Longrightarrow> h < 16 ^ (4 - k) \<Longrightarrow> k < 4 \<Longrightarrow> hex4_loop (Suc k) s h < 16 ^ 4"
proof (induction k arbitrary: h s)
  case 0
  then obtain m where "h = 16 * m" "m < 16 ^ 3" by auto
  then show ?case by (cases s) (auto simp: xdigit_val_def Let_def split: option.split)
next
  case (Suc k)
  show ?case
  proof (cases s)
    case (Cons c cs)
    show ?thesis
    proof (cases "xdigit_val c")
      case (Some d)
      then have d: "d < 16" by (auto simp: xdigit_val_def Let_def split: if_splits)
      have e: "4 - k = Suc (4 - Suc k)" using Suc.prems by simp
      obtain m where m: "h = 16 * m" using Suc.prems by auto
      have "h + d < 16 ^ (4 - Suc k)"
      proof -
        obtain j where "4 - Suc k = Suc j" using Suc.prems by (cases "4 - Suc k") auto
        then show ?thesis using m d Suc.prems(2) by simp
      qed
      then have "push_bit 4 (h + d) < 16 ^ (4 - k)" unfolding e by (simp add: push_bit_eq_mult)
      from Suc.IH [OF _ this] Suc.prems show ?thesis by (simp add: Cons Some push_bit_eq_mult)
    qed (simp add: Cons)
  qed simp
qed

lemma hex4_small: "parse_hex4 s < 0x10000"
proof -
  have "(4 :: nat) = Suc 3" by simp
  then have "parse_hex4 s = hex4_loop (Suc 3) s 0" by (simp only: parse_hex4_def)
  moreover have "hex4_loop (Suc 3) s 0 < 16 ^ 4" by (rule hex4_loop_small) simp_all
  ultimately show ?thesis by (simp del: hex4_loop.simps)
qed

lemma escape_bytes:
  assumes "utf16_literal_to_utf8 left s = Some (b, k)"
  shows "k = 6 \<and> length b \<le> 3 \<or> k = 12 \<and> length b \<le> 4 \<and> 12 \<le> left"
  using assms encode_length hex4_small
  by (auto simp: utf16_literal_to_utf8_def Let_def split: if_splits)

lemma decode_fits: "decode_literal left s = Some out \<Longrightarrow> length out + skips mid left s \<le> left + 1"
proof (induction left s arbitrary: out mid rule: decode_literal.induct)
  case (1 left s)
  show ?case
  proof (cases left)
    case 0
    then show ?thesis using 1(4) by (subst (asm) decode_literal.simps) simp
  next
    case (Suc n)
    show ?thesis
    proof (cases s)
      case Nil
      then show ?thesis using 1(4) Suc by (subst (asm) decode_literal.simps) simp
    next
      case (Cons c cs)
      show ?thesis
      proof (cases "c = CHR 0x5C")
        case False
        then obtain o' where o': "decode_literal n cs = Some o'" "out = c # o'"
          using 1(4) Suc Cons by (subst (asm) decode_literal.simps) auto
        have "length o' + skips False n cs \<le> n + 1"
          using 1(1) [of c cs o' False] Suc Cons False o'(1) by simp
        then show ?thesis using o'(2) Suc Cons False by (cases mid) simp_all
      next
        case bs: True
        have "cs \<noteq> []" using 1(4) Suc Cons bs by (subst (asm) decode_literal.simps) auto
        then obtain e cs' where cs: "cs = e # cs'" by (cases cs) auto
        show ?thesis
        proof (cases "e = CHR ''u''")
          case True
          then obtain b k o' where u: "utf16_literal_to_utf8 left s = Some (b, k)" "decode_literal (left - k) (drop k s) = Some o'"
            "out = b @ o'"
            using 1(4) Suc Cons cs bs by (subst (asm) decode_literal.simps) (auto split: option.splits)
          note e = escape_bytes [OF u(1)] and l = utf16_length [OF u(1)]
          have ih: "length o' + skips m (left - k) (drop k s) \<le> left - k + 1" for m
            using 1(2) [of c cs e cs' "(b, k)" b k o' m] Suc Cons cs bs True u by simp
          obtain i where i: "k = 2 * i" "length b + i \<le> k" "k \<le> left" using e l by (elim disjE) fastforce+
          obtain m where "skips mid (2 * i + (left - k)) s \<le> i + skips m (left - k) (drop (2 * i) s)"
            using skips_even by blast
          with ih [of m] i u(3) show ?thesis by simp
        next
          case False
          then obtain x o' where x: "decode_literal (left - 2) cs' = Some o'" "out = x # o'"
            using 1(4) Suc Cons cs bs by (subst (asm) decode_literal.simps) (auto split: option.splits)
          have "\<exists>y. simple_escape e = Some y"
            using 1(4) Suc Cons cs bs False by (subst (asm) decode_literal.simps) (auto split: option.splits)
          then have ih: "length o' + skips m (left - 2) cs' \<le> left - 2 + 1" for m
            using 1(3) [of c cs e cs' _ o' m] Suc Cons cs bs False x by auto
          show ?thesis
          proof (cases n)
            case 0
            then have "o' = []" using x(1) Suc by (subst (asm) decode_literal.simps) simp
            then show ?thesis using 0 x(2) Suc Cons by (cases mid) simp_all
          next
            case (Suc n')
            obtain m where "skips mid (Suc (Suc n')) s \<le> Suc (skips m n' (drop 2 s))" using skips_two by blast
            with ih [of m] x(2) \<open>left = Suc n\<close> Suc Cons cs show ?thesis by simp
          qed
        qed
      qed
    qed
  qed
qed

text \<open>The size the printer asks for.\<close>

lemma escape_length: "c \<noteq> nul \<Longrightarrow> length (print_escape c) =
    1 + (if c \<in> {CHR 0x22, CHR 0x5C, CHR 0x08, CHR 0x0C, CHR 0x0A, CHR 0x0D, CHR 0x09} then 1
       else if (of_char c :: nat) < 32 then 5 else 0)"
  by (auto simp: print_escape_def)

lemma print_length: "cstr s \<Longrightarrow> length (print_string_ptr s) = length s + escape_characters s + 2"
proof -
  have "length (concat (map print_escape s)) = length s + escape_characters s" if "cstr s"
    using that
  proof (induction s)
    case (Cons c s)
    then show ?case using escape_length [of c] by (simp add: cstr_Cons_iff escape_characters_def)
  qed (simp add: escape_characters_def)
  then show "cstr s \<Longrightarrow> ?thesis" by (simp add: print_string_ptr_def)
qed

text \<open>
  C33: The strings of a document stay inside the memory asked for them, whatever escapes the text holds,
  broken ones included. The parser allocates the length of the literal with its opening quote less the
  backslashes its first loop has stepped over, and one byte; the decoded bytes and the final NUL fit.
  The printer asks for exactly the bytes it writes.
\<close>

theorem json_strings_in_bounds:
  "(\<forall>n skipped out. string_extent t = Some (n, skipped) \<and> decode_literal n t = Some out \<longrightarrow>
     skipped \<le> n + 1 \<and> length out + 1 \<le> (n + 1 - skipped) + 1) \<and>
   (cstr s \<longrightarrow> length (print_string_ptr s) = length s + escape_characters s + 2)"
proof (intro conjI allI impI)
  fix n skipped out
  assume "string_extent t = Some (n, skipped) \<and> decode_literal n t = Some out"
  then have "skips False n t = skipped" "length out + skips False n t \<le> n + 1"
    using extent_skips decode_fits by blast+
  then show "skipped \<le> n + 1" "length out + 1 \<le> (n + 1 - skipped) + 1" by linarith+
qed (rule print_length)

text \<open>A backslash that ends up alone before the closing quote takes the quote with it.\<close>

theorem json_strings_in_bounds_witness:
  "\<exists>out. decode_literal 7 [CHR 0x5C, CHR ''u'', CHR ''1'', CHR 0x5C, CHR 0x5C, CHR 0x5C, CHR 0x5C, CHR 0x22] = Some out \<and>
     length out + 1 \<le> (7 + 1 - 3) + 1"
proof -
  let ?t = "[CHR 0x5C, CHR ''u'', CHR ''1'', CHR 0x5C, CHR 0x5C, CHR 0x5C, CHR 0x5C, CHR 0x22]"
  have e: "string_extent ?t = Some (7, 3)" by simp
  have hex_zero: "parse_hex4 [CHR ''1'', CHR 0x5C, CHR 0x5C, CHR 0x5C, CHR 0x5C, CHR 0x22] = 0"
    by (simp add: parse_hex4_def eval_nat_numeral(2,3) xdigit_val_def)
  have u: "utf16_literal_to_utf8 7 ?t = Some ([nul], 6)"
    by (simp add: utf16_literal_to_utf8_def hex_zero encode_ascii Let_def nul_def char_of_def)
  have z: "decode_literal 0 s = Some []" for s by (subst decode_literal.simps) simp
  have "decode_literal 1 [CHR 0x5C, CHR 0x22] = Some [CHR 0x22]"
    by (subst decode_literal.simps) (simp add: simple_escape_def z)
  then have "decode_literal 7 ?t = Some ([nul] @ [CHR 0x22])"
    using u by (subst decode_literal.simps) simp
  with e json_strings_in_bounds [of ?t "[]"] show ?thesis by blast
qed

end
