(* ===== verification/Persist_Chain.thy ===== *)
theory Persist_Chain
  imports Cjson_Props Scorer
begin

text \<open>
  From a verdict to the next start: the daemon writes a blocked address into the policy file through
  the JSON library, and a daemon that loads the file afterwards reads it.
\<close>

subsection \<open>Edits of a document\<close>

lemma find_item_all: "list_all (\<lambda>(k, v). Q k \<and> R v) kvs \<Longrightarrow> find_item name kvs = Some v \<Longrightarrow> R v"
  by (induction kvs rule: find_item.induct) (auto split: if_splits)

lemma replace_item_all:
  "list_all (\<lambda>(k, v). Q k \<and> R v) kvs \<Longrightarrow> R new \<Longrightarrow> list_all (\<lambda>(k, v). Q k \<and> R v) (replace_item name new kvs)"
  by (induction kvs) auto

lemma delete_item_all:
  "list_all (\<lambda>(k, v). Q k \<and> R v) kvs \<Longrightarrow> list_all (\<lambda>(k, v). Q k \<and> R v) (delete_item name kvs)"
  by (induction kvs) auto

text \<open>What holds of every member and of the new one holds of every member afterwards.\<close>

lemma put_member_all:
  assumes "list_all (\<lambda>(k, v). Q k \<and> R v) kvs" and "Q name" and "R v"
  shows "\<exists>kvs'. put_member ok (CObject kvs) name v = CObject kvs' \<and> list_all (\<lambda>(k, v). Q k \<and> R v) kvs'"
  using assms replace_item_all [OF assms(1,3)] delete_item_all [OF assms(1)]
  by (simp add: put_member_def)

lemma persisted_entries_all:
  assumes "persist_entries ip xs = Some ys" and "list_all R xs" and "R (auto_entry ip)"
  shows "list_all R ys"
proof -
  have "set ys \<subseteq> set xs \<union> {auto_entry ip}"
    using assms(1) set_take_subset [of _ xs] set_drop_subset [of _ xs]
    by (fastforce simp: persist_entries_def Let_def cJSON_DeleteItemFromArray_def split: option.splits if_splits)
  then show ?thesis using assms(2,3) by (auto simp: list_all_iff)
qed

text \<open>
  The list of addresses, as long as its brackets do: \<open>R\<close> of a document, its blacklist object, its list and
  the entries, from the outside in.
\<close>

lemma persist_doc_all:
  assumes doc: "doc = CObject kvs" "persist_doc ip doc = Some doc'"
    and outer: "list_all (\<lambda>(k, v). Q k \<and> Ra v) kvs" "Q ''blacklist''" "Q ''ips''"
    and bl: "\<And>m. Ra (CObject m) \<longleftrightarrow> list_all (\<lambda>(k, v). Q k \<and> Rb v) m"
    and arr: "\<And>xs. Rb (CArray xs) \<longleftrightarrow> list_all Rc xs" and new: "Rc (auto_entry ip)"
  shows "\<exists>kvs'. doc' = CObject kvs' \<and> list_all (\<lambda>(k, v). Q k \<and> Ra v) kvs'"
proof -
  obtain ys where ys: "persist_entries ip (doc_ips doc) = Some ys"
    and doc': "doc' = put_member cJSON_IsObject doc ''blacklist''
      (put_member cJSON_IsArray (doc_blacklist doc) ''ips'' (CArray ys))"
    using doc(2) by (auto simp: persist_doc_def)
  obtain m where m: "doc_blacklist doc = CObject m" "list_all (\<lambda>(k, v). Q k \<and> Rb v) m"
  proof (cases "\<exists>m. item doc ''blacklist'' = Some (CObject m)")
    case True
    then obtain m where b: "item doc ''blacklist'' = Some (CObject m)" by blast
    then have "Ra (CObject m)" using find_item_all [OF outer(1)] doc(1) by simp
    with b that show ?thesis by (simp add: doc_blacklist_def bl)
  next
    case False
    then have "doc_blacklist doc = CObject []" by (auto simp: doc_blacklist_def split: option.split cjson.split)
    with that show ?thesis by simp
  qed
  have "list_all Rc (doc_ips doc)"
  proof (cases "\<exists>xs. item (doc_blacklist doc) ''ips'' = Some (CArray xs)")
    case True
    then obtain xs where x: "find_item ''ips'' m = Some (CArray xs)" using m(1) by auto
    from find_item_all [OF m(2) x] show ?thesis by (simp add: doc_ips_def m(1) x arr)
  next
    case False
    then have "doc_ips doc = []" by (auto simp: doc_ips_def split: option.split cjson.split)
    then show ?thesis by simp
  qed
  then have "Rb (CArray ys)" using persisted_entries_all [where R = Rc, OF ys _ new] by (simp add: arr)
  then obtain m' where "put_member cJSON_IsArray (doc_blacklist doc) ''ips'' (CArray ys) = CObject m'"
    "list_all (\<lambda>(k, v). Q k \<and> Rb v) m'"
    using put_member_all [OF m(2) outer(3), of "CArray ys"] m(1) by auto
  then show ?thesis
    using put_member_all [OF outer(1,2), of "CObject m'"] by (auto simp: doc' doc(1) bl)
qed

lemma persisted_printable:
  assumes "printable L (CObject kvs)" and "cstr ip" and "persist_doc ip (CObject kvs) = Some doc'"
  shows "printable L doc'"
proof -
  have "\<exists>kvs'. doc' = CObject kvs' \<and> list_all (\<lambda>(k, v). cstr k \<and> printable L v) kvs'"
    by (rule persist_doc_all [OF refl assms(3), where Rb = "printable L" and Rc = "printable L"])
      (use assms in \<open>simp_all add: auto_entry_def cstr_def nul_def\<close>)
  then show ?thesis by auto
qed

lemma persisted_nesting:
  assumes "nesting (CObject kvs) \<le> n + 4" and "persist_doc ip (CObject kvs) = Some doc'"
  shows "nesting doc' \<le> n + 4"
proof -
  have o: "nesting (CObject m) \<le> Suc k \<longleftrightarrow> list_all (\<lambda>(_, v). True \<and> nesting v \<le> k) m" for m k
    using nesting_object [of 0 m "Suc k"] by (auto simp: list_all_iff)
  have a: "nesting (CArray xs) \<le> Suc k \<longleftrightarrow> list_all (\<lambda>v. nesting v \<le> k) xs" for xs k
    using nesting_array [of 0 xs "Suc k"] by (auto simp: list_all_iff)
  have "\<exists>kvs'. doc' = CObject kvs' \<and> list_all (\<lambda>(_, v). True \<and> nesting v \<le> n + 3) kvs'"
  proof (rule persist_doc_all [OF refl assms(2), where Rb = "\<lambda>v. nesting v \<le> n + 2" and Rc = "\<lambda>v. nesting v \<le> n + 1"])
    show "list_all (\<lambda>(_, v). True \<and> nesting v \<le> n + 3) kvs" using assms(1) o [of kvs "n + 3"] by simp
    show "nesting (CObject m) \<le> n + 3 \<longleftrightarrow> list_all (\<lambda>(_, v). True \<and> nesting v \<le> n + 2) m" for m
      using o [of m "n + 2"] by (simp add: numeral_3_eq_3)
    show "nesting (CArray xs) \<le> n + 2 \<longleftrightarrow> list_all (\<lambda>v. nesting v \<le> n + 1) xs" for xs
      using a [of xs "n + 1"] by simp
  qed (simp_all add: auto_entry_def)
  then show ?thesis using o [of _ "n + 3"] by (auto simp: eval_nat_numeral)
qed

subsection \<open>The numbers of a document\<close>

fun numbers :: "cjson \<Rightarrow> rat list" where
  "numbers (CNumber x) = [x]"
| "numbers (CArray xs) = concat (map numbers xs)"
| "numbers (CObject kvs) = concat (map (\<lambda>(k, v). numbers v) kvs)"
| "numbers _ = []"

lemma printable_parts: "c_strings j \<Longrightarrow> list_all (readable L) (numbers j) \<Longrightarrow> printable L j"
  by (induction j rule: numbers.induct) (auto simp: list_all_iff)

subsection \<open>The loader\<close>

lemma load_root_blacklist:
  "p_blacklist (load_root os parse doc p) = if_object (item doc ''blacklist'') load_blacklist (p_blacklist p)"
  by (simp add: load_root_def load_ransom_exts_def load_strings_def Let_def)

lemma load_root_ips:
  assumes "item doc ''blacklist'' = Some (CObject m)" and "item (CObject m) ''ips'' = Some (CArray ys)"
  shows "bl_ips (p_blacklist (load_root os parse doc p)) = take RGUARD_WHITELIST_MAX (List.map_filter load_bl_ip ys)"
  unfolding load_root_blacklist assms(1) if_object_def load_blacklist_def
  using assms(2) by (simp add: load_array_def load_list_take)

lemma monitor_keeps_blacklist: "p_blacklist (if_object node load_monitor_paths p) = p_blacklist p"
  by (rule if_object_inv [where P = "\<lambda>x. p_blacklist x = p_blacklist p"])
    (simp_all add: load_monitor_paths_def Let_def)

lemma hash_lists_ips: "set (map b_ip (bl_ips (p_blacklist (hash_lists p)))) = set (map b_ip (bl_ips (p_blacklist p)))"
proof -
  let ?bips = "bl_ips (p_blacklist p)"
  let ?b = "SORT_BY_HASH (map (rguard_fnv1a64 \<circ> b_ip) ?bips) ?bips (length ?bips)"
  have "?b = (fst ?b, snd ?b)" by simp
  from SORT_BY_HASH_map [OF this] have "mset (map b_ip (snd ?b)) = mset (map b_ip ?bips)" by simp
  then have "set (map b_ip (snd ?b)) = set (map b_ip ?bips)" by (rule mset_eq_setD)
  then show ?thesis by (simp add: hash_lists_def Let_def case_prod_beta)
qed

lemma load_finds_ip:
  assumes "read_file os path = Some text" and "parse (cstr_of text) = Some doc"
    and "item doc ''blacklist'' = Some (CObject m)" and "item (CObject m) ''ips'' = Some (CArray ys)"
    and "ip \<in> set (map b_ip (take RGUARD_WHITELIST_MAX (List.map_filter load_bl_ip ys)))"
  shows "\<exists>code p. config_load os parse path = Some (code, p) \<and> ip \<in> set (map b_ip (bl_ips (p_blacklist p)))"
proof -
  let ?p = "load_root os parse doc apply_defaults"
  have fit: "lists_fit ?p" by (rule load_root_fit) (rule defaults_fit)
  then have "length (fe_manual (p_file_ext ?p)) \<le> RGUARD_PROTECT_EXT_MAX" by (simp add: lists_fit_def strs_fit_def)
  from build_ext_set_total [OF this] obtain fe where fe: "build_ext_set (p_file_ext ?p) = Some fe" by blast
  let ?q = "if_object (item doc ''monitor_path'') load_monitor_paths (?p\<lparr>p_file_ext := fe\<rparr>)"
  have "config_load os parse path = Some (policy_validate os (hash_lists ?q), hash_lists ?q)"
    using assms(1,2) fe by (simp add: config_load_def Let_def)
  moreover have "ip \<in> set (map b_ip (bl_ips (p_blacklist (hash_lists ?q))))"
    using assms(5) unfolding hash_lists_ips monitor_keeps_blacklist
    by (simp add: load_root_ips [OF assms(3,4)])
  ultimately show ?thesis by blast
qed

subsection \<open>From the verdict to the next start\<close>

lemma persist_document:
  assumes "doc_regular doc" and "persist_doc ip doc = Some doc'"
  obtains m ys where "item doc' ''blacklist'' = Some (CObject m)" "item (CObject m) ''ips'' = Some (CArray ys)"
    "persist_entries ip (doc_ips doc) = Some ys"
proof -
  obtain kvs where doc: "doc = CObject kvs" using assms(1) by (auto simp: doc_regular_def)
  have "\<exists>m. doc_blacklist doc = CObject m"
    by (simp add: doc_blacklist_def split: option.split cjson.split)
  then obtain m where m: "doc_blacklist doc = CObject m" by blast
  obtain ys where ys: "persist_entries ip (doc_ips doc) = Some ys"
    and doc': "doc' = put_member cJSON_IsObject doc ''blacklist'' (put_member cJSON_IsArray (doc_blacklist doc) ''ips'' (CArray ys))"
    using assms(2) by (auto simp: persist_doc_def)
  have "\<exists>m'. put_member cJSON_IsArray (CObject m) ''ips'' (CArray ys) = CObject m'" by (simp add: put_member_def)
  then obtain m' where m': "put_member cJSON_IsArray (CObject m) ''ips'' (CArray ys) = CObject m'" by blast
  have "item (CObject m') ''ips'' = Some (CArray ys)"
    using put_member_item(1) [of cJSON_IsArray m "''ips''" "CArray ys"] assms(1) m m' by (auto simp: doc_regular_def)
  moreover have "item doc' ''blacklist'' = Some (CObject m')"
    using put_member_item(1) [of cJSON_IsObject kvs "''blacklist''"] assms(1) doc m m' by (auto simp: doc_regular_def doc')
  ultimately show ?thesis using that ys by blast
qed

lemma printed_file:
  assumes "printable L j" and "nesting j \<le> CJSON_NESTING_LIMIT" and "cJSON_Print L j = Some t"
  shows "cstr (t @ [newline]) \<and> cJSON_Parse L (t @ [newline]) = Some j"
proof -
  from assms obtain t' where t': "print_value L 0 j = Some t'"
    "\<And>r. r \<noteq> [] \<Longrightarrow> \<not> number_char (hd r) \<Longrightarrow> parse_value L 0 (t' @ r) = Some (j, r)"
    using parse_printed(1) [of L j 0 0] by auto
  then have t: "t' = t" using assms(3) by (simp add: cJSON_Print_def)
  note t' = t' [unfolded t]
  obtain c u where "t = c # u" "starts_value c" using printed_start [OF t'(1) assms(1)] by blast
  then have "skip_utf8_bom (t @ [newline, nul]) = t @ [newline, nul]"
    using starts_not_blank [of c] by (auto simp: skip_utf8_bom_def)
  moreover have "skip_whitespace (t @ [newline, nul]) = t @ [newline, nul]" by (rule printed_skip(1) [OF t'(1) assms(1)])
  ultimately have "cJSON_Parse L (t @ [newline]) = Some j" using t'(2) [of "[newline, nul]"] by (simp add: cJSON_Parse_def)
  moreover have "cstr [newline]" by (simp add: cstr_def newline_def nul_def)
  ultimately show ?thesis using printed_cstr(1) [OF t'(1) assms(1)] by simp
qed

lemma deleted_shorter: "length (List.map_filter f (cJSON_DeleteItemFromArray xs i)) \<le> length (List.map_filter f xs)"
proof -
  let ?P = "\<lambda>x. f x \<noteq> None"
  have "length (filter ?P (drop (Suc i) xs)) \<le> length (filter ?P (drop i xs))"
    by (cases "drop i xs") (auto simp: drop_Suc tl_drop [symmetric])
  moreover have "filter ?P xs = filter ?P (take i xs) @ filter ?P (drop i xs)"
    by (metis append_take_drop_id filter_append)
  ultimately show ?thesis by (simp add: map_filter_def cJSON_DeleteItemFromArray_def)
qed

lemma persisted_entry_in_reach:
  assumes "persist_entries ip xs = Some ys" and "length ip < RGUARD_IP_LEN"
    and "length (List.map_filter load_bl_ip xs) < RGUARD_WHITELIST_MAX"
  shows "ip \<in> set (map b_ip (take RGUARD_WHITELIST_MAX (List.map_filter load_bl_ip ys)))"
proof -
  obtain xs' where ys: "ys = xs' @ [auto_entry ip]" and "length (List.map_filter load_bl_ip xs') \<le> length (List.map_filter load_bl_ip xs)"
    using assms(1) deleted_shorter [of load_bl_ip xs]
    by (auto simp: persist_entries_def Let_def split: option.splits if_splits)
  moreover have "load_bl_ip (auto_entry ip) = Some \<lparr>b_ip = ip, b_auto_add = True\<rparr>"
    using assms(2) by (simp add: load_bl_ip_def auto_entry_def case_insensitive_eq_def tolower_def)
  ultimately show ?thesis using assms(3) by (simp add: map_filter_simps map_filter_def)
qed

text \<open>
  C29: A verdict that is persisted outlives the daemon: the policy file the daemon writes through the JSON
  library is read back as the edited document, and the policy a later start loads from it
  blacklists the address, provided the loader's 64 entries are not taken and the numbers of
  the file are read back as they were.
\<close>

theorem persisted_verdict_reloaded:
  assumes saved: "config_persist_blacklist_ip os po (cJSON_Parse L) (cJSON_Print L) path ip = (RGUARD_OK, Some out)"
    and source: "read_file os path = Some content" "cJSON_Parse L (cstr_of content) = Some doc"
    and tree: "doc_regular doc" "list_all (readable L) (numbers doc)"
      "length (List.map_filter load_bl_ip (doc_ips doc)) < RGUARD_WHITELIST_MAX"
    and short: "length ip < RGUARD_IP_LEN"
    and reread: "read_file os' path = Some out"
  shows "\<exists>doc' code p. persist_doc ip doc = Some doc' \<and> cJSON_Parse L out = Some doc' \<and>
    config_load os' (cJSON_Parse L) path = Some (code, p) \<and> scorer_is_blacklisted p (Some u) (Some ip)"
proof -
  from saved source have real: "is_real_ip ip" "ip \<noteq> []"
    by (auto simp: config_persist_blacklist_ip_def split: if_splits)
  from saved source real obtain doc' t where d: "persist_doc ip doc = Some doc'" "cJSON_Print L doc' = Some t" "out = t @ [newline]"
    by (auto simp: config_persist_blacklist_ip_def split: if_splits option.splits)
  obtain kvs where kvs: "doc = CObject kvs" using tree(1) by (auto simp: doc_regular_def)
  obtain r where r: "parse_value L 0 (skip_whitespace (skip_utf8_bom (cstr_of content @ [nul]))) = Some (doc, r)"
    using source(2) by (auto simp: cJSON_Parse_def)
  have shape: "nesting doc \<le> CJSON_NESTING_LIMIT" "c_strings doc" using parsed_shape(1) [OF r] by simp_all
  have "printable L doc'"
    using persisted_printable [of L kvs ip doc'] printable_parts [OF shape(2) tree(2)] real_ip_plain [OF real(1)] d(1) kvs by simp
  moreover have "nesting doc' \<le> CJSON_NESTING_LIMIT"
    using persisted_nesting [of kvs 996 ip doc'] shape(1) d(1) kvs by (simp add: CJSON_NESTING_LIMIT_def)
  ultimately have out: "cstr out" "cJSON_Parse L out = Some doc'" using printed_file d(2,3) by blast+
  obtain m ys where m: "item doc' ''blacklist'' = Some (CObject m)" "item (CObject m) ''ips'' = Some (CArray ys)"
    "persist_entries ip (doc_ips doc) = Some ys" by (rule persist_document [OF tree(1) d(1)])
  obtain code p where p: "config_load os' (cJSON_Parse L) path = Some (code, p)" "ip \<in> set (map b_ip (bl_ips (p_blacklist p)))"
    using load_finds_ip [OF reread _ m(1,2) persisted_entry_in_reach [OF m(3) short tree(3)], of "cJSON_Parse L"] out by auto
  have "mirrors_ok apply_defaults" by (simp add: mirrors_ok_def apply_defaults_def hash_mirror_def)
  then have "mirrors_ok p"
    using p(1) hash_lists_ok by (cases rule: config_load_cases [of os' "cJSON_Parse L" path]) auto
  then have "scorer_is_blacklisted p (Some u) (Some ip)"
    using blacklisted_iff p(2) real(2) by (auto simp: blacklist_spec_def)
  then show ?thesis using d(1) out(2) p(1) by blast
qed

definition empty_file :: string where
  "empty_file = [CHR ''{'', newline, CHR ''}'', newline]"

definition one_file :: "string \<Rightarrow> config_os" where
  "one_file content = \<lparr>os_read = (\<lambda>_. Some content), os_stat = (\<lambda>_. None), os_writable = (\<lambda>_. False)\<rparr>"

definition all_written :: persist_os where
  "all_written = \<lparr>po_fopen = True, po_write = True, po_fclose = True, po_rename = True\<rparr>"

definition first_verdict :: cjson where
  "first_verdict = CObject [(''blacklist'', CObject [(''ips'', CArray [auto_entry ''10.0.0.9''])])]"

lemma empty_file_parsed: "cJSON_Parse plain_num (cstr_of empty_file) = Some (CObject [])"
proof -
  have "cJSON_Print plain_num (CObject []) = Some [CHR ''{'', newline, CHR ''}'']"
    by (simp add: cJSON_Print_def)
  from printed_file [OF _ _ this] show ?thesis by (simp add: empty_file_def CJSON_NESTING_LIMIT_def)
qed

lemma first_verdict_persisted: "persist_doc ''10.0.0.9'' (CObject []) = Some first_verdict"
  by code_simp

lemma first_verdict_printed: "\<exists>t. cJSON_Print plain_num first_verdict = Some t \<and> length t < 200"
proof -
  have "case cJSON_Print plain_num first_verdict of None \<Rightarrow> False | Some t \<Rightarrow> length t < 200" by code_simp
  then show ?thesis by (auto split: option.splits)
qed

theorem persisted_verdict_reloaded_witness:
  "\<exists>out code p.
    config_persist_blacklist_ip (one_file empty_file) all_written (cJSON_Parse plain_num) (cJSON_Print plain_num)
      ''policy.json'' ''10.0.0.9'' = (RGUARD_OK, Some out) \<and>
    config_load (one_file out) (cJSON_Parse plain_num) ''policy.json'' = Some (code, p) \<and>
    scorer_is_blacklisted p (Some ''eve'') (Some ''10.0.0.9'')"
proof -
  obtain t where t: "cJSON_Print plain_num first_verdict = Some t" "length t < 200" using first_verdict_printed by blast
  have reads: "read_file (one_file empty_file) ''policy.json'' = Some empty_file"
    "read_file (one_file (t @ [newline])) ''policy.json'' = Some (t @ [newline])"
    using t(2) by (simp_all add: read_file_def one_file_def empty_file_def)
  have saved: "config_persist_blacklist_ip (one_file empty_file) all_written (cJSON_Parse plain_num) (cJSON_Print plain_num)
      ''policy.json'' ''10.0.0.9'' = (RGUARD_OK, Some (t @ [newline]))"
    by (simp add: config_persist_blacklist_ip_def sample_real_ip reads empty_file_parsed first_verdict_persisted t(1)
        all_written_def)
  have plain: "doc_regular (CObject [])" "doc_ips (CObject []) = []"
    by (simp_all add: doc_regular_def doc_blacklist_def doc_ips_def)
  show ?thesis
    using persisted_verdict_reloaded [OF saved reads(1) empty_file_parsed plain(1) _ _ _ reads(2), of "''eve''"] saved
    by (auto simp: plain(2) map_filter_def config_limits RGUARD_IP_LEN_def)
qed

end
