(* ===== verification/Cjson_Buffer.thy ===== *)
theory Cjson_Buffer
  imports Cjson_Props
begin

text \<open>
  \<open>src/common/cJSON.c\<close>, the memory of the printer. \<open>Cjson_Text\<close> says which text is printed; here it is
  written byte by byte into a buffer that grows on demand, as the code does it. A write or a \<open>strlen\<close>
  that would leave the buffer is the outcome \<open>Fault\<close>, a \<open>false\<close> or a NULL is \<open>Failed\<close>. The buffered
  printer is shown to refine the other one and never to fault.
\<close>

subsection \<open>Outcomes\<close>

datatype 'a outcome = Ok 'a | Failed | Fault

fun and_then :: "'a outcome \<Rightarrow> ('a \<Rightarrow> 'b outcome) \<Rightarrow> 'b outcome" where
  "and_then (Ok x) f = f x"
| "and_then Failed f = Failed"
| "and_then Fault f = Fault"

text \<open>
  The answers of the allocator: whether the first block, a block of a new room and the last, shrunk
  block are there, and the bytes a grown block holds behind the old ones.
\<close>

record heap_answers =
  hp_malloc :: bool
  hp_realloc :: "nat \<Rightarrow> bool"
  hp_shrink :: bool
  hp_fresh :: "nat \<Rightarrow> nat \<Rightarrow> char"

definition fresh :: "heap_answers \<Rightarrow> nat \<Rightarrow> nat \<Rightarrow> nat \<Rightarrow> string" where
  "fresh h room a b = map (hp_fresh h room) [a..<b]"

lemma length_fresh [simp]: "length (fresh h room a b) = b - a"
  by (simp add: fresh_def)

subsection \<open>The buffer\<close>

text \<open>\<open>length\<close> of the structure is the length of \<open>pb_buffer\<close>; it is formatted and may be reallocated.\<close>

record printbuffer =
  pb_buffer :: string
  pb_offset :: nat
  pb_depth :: nat

definition SIZE_LIMIT :: nat where "SIZE_LIMIT = nat INT_MAX"

definition ensure :: "heap_answers \<Rightarrow> nat \<Rightarrow> printbuffer \<Rightarrow> printbuffer outcome" where
  "ensure h needed p =
     (let room = length (pb_buffer p); wanted = needed + pb_offset p + 1 in
      if room > 0 \<and> pb_offset p \<ge> room then Failed
      else if needed > SIZE_LIMIT then Failed
      else if wanted \<le> room then Ok p
      else if wanted > SIZE_LIMIT div 2 \<and> wanted > SIZE_LIMIT then Failed
      else
        let newsize = (if wanted > SIZE_LIMIT div 2 then SIZE_LIMIT else wanted * 2) in
        if \<not> hp_realloc h newsize then Failed
        else Ok (p\<lparr>pb_buffer := pb_buffer p @ fresh h newsize room newsize\<rparr>))"

text \<open>Writing bytes at a place of the buffer.\<close>

definition poke :: "nat \<Rightarrow> string \<Rightarrow> printbuffer \<Rightarrow> printbuffer outcome" where
  "poke i bs p =
     (if i + length bs \<le> length (pb_buffer p)
      then Ok (p\<lparr>pb_buffer := take i (pb_buffer p) @ bs @ drop (i + length bs) (pb_buffer p)\<rparr>)
      else Fault)"

definition forward :: "nat \<Rightarrow> printbuffer \<Rightarrow> printbuffer outcome" where
  "forward n p = Ok (p\<lparr>pb_offset := pb_offset p + n\<rparr>)"

definition set_depth :: "nat \<Rightarrow> printbuffer \<Rightarrow> printbuffer outcome" where
  "set_depth d p = Ok (p\<lparr>pb_depth := d\<rparr>)"

definition update_offset :: "printbuffer \<Rightarrow> printbuffer outcome" where
  "update_offset p =
     (let rest = drop (pb_offset p) (pb_buffer p)
      in if nul \<in> set rest then forward (length (takeWhile (\<lambda>c. c \<noteq> nul) rest)) p else Fault)"

text \<open>Text at the position; with \<open>ahead\<close> the position follows it.\<close>

definition write_here :: "heap_answers \<Rightarrow> nat \<Rightarrow> string \<Rightarrow> printbuffer \<Rightarrow> printbuffer outcome" where
  "write_here h needed bs p = and_then (ensure h needed p) (\<lambda>q. poke (pb_offset q) bs q)"

definition write_ahead :: "heap_answers \<Rightarrow> nat \<Rightarrow> string \<Rightarrow> nat \<Rightarrow> printbuffer \<Rightarrow> printbuffer outcome" where
  "write_ahead h needed bs n p = and_then (write_here h needed bs p) (forward n)"

subsection \<open>The printer\<close>

definition short_escape :: "char \<Rightarrow> char option" where
  "short_escape c =
     (if c = CHR 0x5C \<or> c = CHR 0x22 then Some c
      else if c = CHR 0x08 then Some (CHR ''b'') else if c = CHR 0x0C then Some (CHR ''f'')
      else if c = CHR 0x0A then Some (CHR ''n'') else if c = CHR 0x0D then Some (CHR ''r'')
      else if c = CHR 0x09 then Some (CHR ''t'') else None)"

text \<open>\<open>sprintf\<close> ends its five characters with a NUL, which the next byte overwrites.\<close>

fun escape_loop :: "string \<Rightarrow> nat \<Rightarrow> printbuffer \<Rightarrow> printbuffer outcome" where
  "escape_loop [] i p = Ok p"
| "escape_loop (c # cs) i p =
     (if (of_char c :: nat) > 31 \<and> c \<noteq> CHR 0x22 \<and> c \<noteq> CHR 0x5C
      then and_then (poke i [c] p) (escape_loop cs (i + 1))
      else and_then (poke i [CHR 0x5C] p) (\<lambda>q.
        case short_escape c of
          Some x \<Rightarrow> and_then (poke (i + 1) [x] q) (escape_loop cs (i + 2))
        | None \<Rightarrow> and_then (poke (i + 1) (CHR ''u'' # hex_code (of_char c) @ [nul]) q) (escape_loop cs (i + 6))))"

definition buf_string :: "heap_answers \<Rightarrow> string \<Rightarrow> printbuffer \<Rightarrow> printbuffer outcome" where
  "buf_string h s p =
     (let extra = escape_characters s; len = length s + extra in
      and_then (ensure h (len + 3) p) (\<lambda>q.
        let out = pb_offset q in
        if extra = 0 then
          and_then (poke out [CHR 0x22] q) (\<lambda>q.
          and_then (poke (out + 1) s q) (poke (out + len + 1) [CHR 0x22, nul]))
        else
          and_then (poke out [CHR 0x22] q) (\<lambda>q.
          and_then (escape_loop s (out + 1) q) (poke (out + len + 1) [CHR 0x22, nul]))))"

definition buf_number :: "heap_answers \<Rightarrow> libc_num \<Rightarrow> rat \<Rightarrow> printbuffer \<Rightarrow> printbuffer outcome" where
  "buf_number h L x p =
     (case print_number L x of
        None \<Rightarrow> Failed
      | Some t \<Rightarrow> write_ahead h (length t + 1) (t @ [nul]) (length t) p)"

fun buf_value :: "heap_answers \<Rightarrow> libc_num \<Rightarrow> cjson \<Rightarrow> printbuffer \<Rightarrow> printbuffer outcome"
  and buf_elements :: "heap_answers \<Rightarrow> libc_num \<Rightarrow> cjson list \<Rightarrow> printbuffer \<Rightarrow> printbuffer outcome"
  and buf_members :: "heap_answers \<Rightarrow> libc_num \<Rightarrow> (string \<times> cjson) list \<Rightarrow> printbuffer \<Rightarrow> printbuffer outcome"
where
  "buf_value h L CNull p = write_here h 5 (''null'' @ [nul]) p"
| "buf_value h L CFalse p = write_here h 6 (''false'' @ [nul]) p"
| "buf_value h L CTrue p = write_here h 5 (''true'' @ [nul]) p"
| "buf_value h L (CNumber x) p = buf_number h L x p"
| "buf_value h L (CString s) p = buf_string h s p"
| "buf_value h L (CArray xs) p =
     and_then (write_ahead h 1 ''['' 1 p) (\<lambda>q.
     and_then (set_depth (pb_depth q + 1) q) (\<lambda>q.
     and_then (buf_elements h L xs q) (\<lambda>q.
     and_then (write_here h 2 ('']'' @ [nul]) q) (\<lambda>q.
     set_depth (pb_depth q - 1) q))))"
| "buf_value h L (CObject kvs) p =
     and_then (write_here h 3 (''{'' @ [newline]) p) (\<lambda>q.
     and_then (set_depth (pb_depth q + 1) q) (\<lambda>q.
     and_then (forward 2 q) (\<lambda>q.
     and_then (buf_members h L kvs q) (\<lambda>q.
     and_then (write_here h (pb_depth q + 1) (replicate (pb_depth q - 1) (CHR 0x09) @ ''}'' @ [nul]) q) (\<lambda>q.
     set_depth (pb_depth q - 1) q)))))"
| "buf_elements h L [] p = Ok p"
| "buf_elements h L (x # xs) p =
     and_then (buf_value h L x p) (\<lambda>q.
     and_then (update_offset q) (\<lambda>q.
     and_then (if xs = [] then Ok q else write_ahead h 3 ('', '' @ [nul]) 2 q) (buf_elements h L xs)))"
| "buf_members h L [] p = Ok p"
| "buf_members h L ((k, v) # kvs) p =
     and_then (write_ahead h (pb_depth p) (replicate (pb_depth p) (CHR 0x09)) (pb_depth p) p) (\<lambda>q.
     and_then (buf_string h k q) (\<lambda>q.
     and_then (update_offset q) (\<lambda>q.
     and_then (write_ahead h 2 ('':'' @ [CHR 0x09]) 2 q) (\<lambda>q.
     and_then (buf_value h L v q) (\<lambda>q.
     and_then (update_offset q) (\<lambda>q.
     let ends = (if kvs = [] then [] else '','') @ [newline] in
     and_then (write_ahead h (length ends + 1) (ends @ [nul]) (length ends) q) (buf_members h L kvs)))))))"

text \<open>The block that \<open>print\<close> returns, of exactly the text and its NUL.\<close>

definition print_block :: "heap_answers \<Rightarrow> libc_num \<Rightarrow> cjson \<Rightarrow> string outcome" where
  "print_block h L j =
     (if \<not> hp_malloc h then Failed
      else
        and_then (buf_value h L j \<lparr>pb_buffer = fresh h 256 0 256, pb_offset = 0, pb_depth = 0\<rparr>) (\<lambda>p.
        and_then (update_offset p) (\<lambda>p.
        if \<not> hp_shrink h then Failed else Ok (take (pb_offset p + 1) (pb_buffer p)))))"

subsection \<open>What an operation adds to the text\<close>

lemma and_then_assoc: "and_then (and_then m f) g = and_then m (\<lambda>x. and_then (f x) g)"
  by (cases m) simp_all

definition good :: "printbuffer \<Rightarrow> bool" where
  "good p \<longleftrightarrow> pb_offset p < length (pb_buffer p) \<and> length (pb_buffer p) \<le> SIZE_LIMIT"

text \<open>Memory is there, and \<open>n\<close> bytes of text leave place for the two that are asked for in addition.\<close>

definition roomy :: "heap_answers \<Rightarrow> nat \<Rightarrow> bool" where
  "roomy h n \<longleftrightarrow> hp_malloc h \<and> hp_shrink h \<and> (\<forall>k. hp_realloc h k) \<and> n + 2 \<le> SIZE_LIMIT"

lemma roomy_mono: "roomy h n \<Longrightarrow> m \<le> n \<Longrightarrow> roomy h m"
  by (simp add: roomy_def)

text \<open>\<open>adds\<close>: the text is in front of the position; \<open>prints\<close>: it is there with its NUL, the position somewhere before.\<close>

definition adds :: "heap_answers \<Rightarrow> printbuffer \<Rightarrow> string \<Rightarrow> nat \<Rightarrow> printbuffer outcome \<Rightarrow> bool" where
  "adds h p t d m \<longleftrightarrow>
     (case m of
        Fault \<Rightarrow> False
      | Failed \<Rightarrow> \<not> roomy h (pb_offset p + length t)
      | Ok q \<Rightarrow> good q \<and> pb_depth q = d \<and> pb_offset q = pb_offset p + length t \<and>
          take (pb_offset q) (pb_buffer q) = take (pb_offset p) (pb_buffer p) @ t)"

definition prints :: "heap_answers \<Rightarrow> printbuffer \<Rightarrow> string \<Rightarrow> nat \<Rightarrow> printbuffer outcome \<Rightarrow> bool" where
  "prints h p t d m \<longleftrightarrow>
     (case m of
        Fault \<Rightarrow> False
      | Failed \<Rightarrow> \<not> roomy h (pb_offset p + length t)
      | Ok q \<Rightarrow> good q \<and> pb_depth q = d \<and>
          (\<exists>b u. t = b @ u \<and> nul \<notin> set u \<and> pb_offset q = pb_offset p + length b \<and>
             take (pb_offset p + length t + 1) (pb_buffer q) = take (pb_offset p) (pb_buffer p) @ t @ [nul]))"

lemma adds_simps:
  "adds h p t d (Ok q) \<longleftrightarrow> good q \<and> pb_depth q = d \<and> pb_offset q = pb_offset p + length t \<and>
     take (pb_offset q) (pb_buffer q) = take (pb_offset p) (pb_buffer p) @ t"
  "adds h p t d Failed \<longleftrightarrow> \<not> roomy h (pb_offset p + length t)" "\<not> adds h p t d Fault"
  by (simp_all add: adds_def)

lemma prints_simps:
  "prints h p t d (Ok q) \<longleftrightarrow> good q \<and> pb_depth q = d \<and>
     (\<exists>b u. t = b @ u \<and> nul \<notin> set u \<and> pb_offset q = pb_offset p + length b \<and>
        take (pb_offset p + length t + 1) (pb_buffer q) = take (pb_offset p) (pb_buffer p) @ t @ [nul])"
  "prints h p t d Failed \<longleftrightarrow> \<not> roomy h (pb_offset p + length t)" "\<not> prints h p t d Fault"
  by (simp_all add: prints_def)

lemma adds_then:
  assumes "adds h p t d m" and "\<And>q. good q \<Longrightarrow> pb_depth q = d \<Longrightarrow> adds h q u e (f q)"
  shows "adds h p (t @ u) e (and_then m f)"
proof (cases m)
  case (Ok q)
  note q = assms(1) [unfolded Ok adds_simps]
  have f: "adds h q u e (f q)" using q assms(2) by blast
  show ?thesis
  proof (cases "f q")
    case Ok': (Ok r)
    note r = f [unfolded Ok' adds_simps]
    have "take (pb_offset r) (pb_buffer r) = take (pb_offset p) (pb_buffer p) @ t @ u"
      using r q by (metis append.assoc)
    then show ?thesis using q r unfolding Ok Ok' and_then.simps adds_simps by simp
  qed (use f q in \<open>simp_all add: Ok adds_simps add.assoc\<close>)
qed (use assms(1) roomy_mono in \<open>auto simp: adds_simps\<close>)

lemma prints_then:
  assumes "adds h p t d m" and "\<And>q. good q \<Longrightarrow> pb_depth q = d \<Longrightarrow> prints h q u e (f q)"
  shows "prints h p (t @ u) e (and_then m f)"
proof (cases m)
  case (Ok q)
  note q = assms(1) [unfolded Ok adds_simps]
  have f: "prints h q u e (f q)" using q assms(2) by blast
  show ?thesis
  proof (cases "f q")
    case Ok': (Ok r)
    from f [unfolded Ok' prints_simps] obtain b v where r: "good r" "pb_depth r = e" "u = b @ v" "nul \<notin> set v"
      "pb_offset r = pb_offset q + length b"
      "take (pb_offset q + length u + 1) (pb_buffer r) = take (pb_offset q) (pb_buffer q) @ u @ [nul]" by blast
    have "take (pb_offset p + length (t @ u) + 1) (pb_buffer r) = take (pb_offset p) (pb_buffer p) @ (t @ u) @ [nul]"
      using r(6) q by (metis add.assoc append.assoc length_append)
    moreover have "t @ u = (t @ b) @ v" "pb_offset r = pb_offset p + length (t @ b)" using r q by simp_all
    ultimately show ?thesis using r(1,2,4) unfolding Ok Ok' and_then.simps prints_simps by blast
  qed (use f q in \<open>simp_all add: Ok prints_simps add.assoc\<close>)
qed (use assms(1) roomy_mono in \<open>auto simp: adds_simps prints_simps\<close>)

lemma adds_next:
  assumes "adds h p t d m" and "\<And>q. good q \<Longrightarrow> adds h q u (pb_depth q) (f q)"
  shows "adds h p (t @ u) d (and_then m f)"
  by (rule adds_then [OF assms(1)]) (use assms(2) in blast)

text \<open>A text that cannot be printed fails behind whatever has been written.\<close>

lemma adds_failed: "adds h p t d m \<Longrightarrow> (\<And>q. good q \<Longrightarrow> pb_depth q = d \<Longrightarrow> f q = Failed) \<Longrightarrow> and_then m f = Failed"
  by (cases m) (simp_all add: adds_def)

lemma prints_update:
  assumes "prints h p t d m" and "good p"
  shows "adds h p t d (and_then m update_offset)"
proof (cases m)
  case (Ok q)
  with assms(1) obtain b u where q: "good q" "pb_depth q = d" "t = b @ u" "nul \<notin> set u" "pb_offset q = pb_offset p + length b"
    "take (pb_offset p + length t + 1) (pb_buffer q) = take (pb_offset p) (pb_buffer p) @ t @ [nul]"
    by (auto simp: prints_def)
  let ?n = "pb_offset p + length t + 1" let ?w = "drop ?n (pb_buffer q)"
  have buf: "pb_buffer q = (take (pb_offset p) (pb_buffer p) @ b) @ (u @ nul # ?w)"
    using append_take_drop_id [of ?n "pb_buffer q"] unfolding q(6) by (simp add: q(3))
  moreover have long: "length (take (pb_offset p) (pb_buffer p)) = pb_offset p"
    using arg_cong [OF q(6), of length] assms(2) by (simp add: good_def min_def split: if_splits)
  ultimately have rest: "drop (pb_offset q) (pb_buffer q) = u @ nul # ?w"
    using q(5) by (metis append_eq_conv_conj length_append)
  have "takeWhile (\<lambda>c. c \<noteq> nul) (u @ nul # ?w) = u" using q(4) by (subst takeWhile_append2) auto
  then have up: "and_then m update_offset = Ok (q\<lparr>pb_offset := pb_offset p + length t\<rparr>)"
    unfolding Ok and_then.simps update_offset_def rest Let_def using q(3,5) by (simp add: forward_def)
  have t: "pb_buffer q = (take (pb_offset p) (pb_buffer p) @ t) @ (nul # ?w)" using buf q(3) by simp
  have len: "length (take (pb_offset p) (pb_buffer p) @ t) = pb_offset p + length t" using long by simp
  have "take (pb_offset p + length t) (pb_buffer q) = take (pb_offset p) (pb_buffer p) @ t"
    using t len by (metis append_eq_conv_conj)
  moreover have "pb_offset p + length t < length (pb_buffer q)" by (subst t) (simp only: len [symmetric] length_append, simp)
  ultimately show ?thesis using q(1,2) unfolding up adds_def by (simp add: good_def)
qed (use assms in \<open>simp_all add: prints_def adds_def\<close>)

subsection \<open>The writes\<close>

lemma ensure_cases [consumes 1, case_names room none]:
  assumes "good p"
  obtains (room) x where "ensure h n p = Ok (p\<lparr>pb_buffer := pb_buffer p @ x\<rparr>)" "good (p\<lparr>pb_buffer := pb_buffer p @ x\<rparr>)"
      "n + pb_offset p + 1 \<le> length (pb_buffer p @ x)"
  | (none) "ensure h n p = Failed" "\<And>k. n + pb_offset p + 1 \<le> k + 2 \<Longrightarrow> \<not> roomy h k"
proof -
  let ?w = "n + pb_offset p + 1"
  consider "?w \<le> length (pb_buffer p)" | "\<not> ?w \<le> length (pb_buffer p)" "?w > SIZE_LIMIT"
    | "\<not> ?w \<le> length (pb_buffer p)" "?w \<le> SIZE_LIMIT" by linarith
  then show thesis
  proof cases
    case 1
    then show thesis using assms by (intro room [of "[]"]) (simp_all add: ensure_def Let_def good_def)
  next
    case 2
    moreover have "SIZE_LIMIT div 2 < ?w" using 2 by linarith
    ultimately show thesis using assms by (intro none) (simp_all add: ensure_def Let_def good_def roomy_def)
  next
    case 3
    let ?new = "if ?w > SIZE_LIMIT div 2 then SIZE_LIMIT else ?w * 2"
    let ?x = "fresh h ?new (length (pb_buffer p)) ?new"
    have new: "?w \<le> ?new" "?new \<le> SIZE_LIMIT" using 3 by auto
    have e: "ensure h n p = (if hp_realloc h ?new then Ok (p\<lparr>pb_buffer := pb_buffer p @ ?x\<rparr>) else Failed)"
      using 3 assms by (simp add: ensure_def Let_def good_def)
    show thesis
    proof (cases "hp_realloc h ?new")
      case True
      have "length (pb_buffer p @ ?x) = ?new" using new(1) 3(1) by simp
      then show thesis using True e new assms by (intro room [of ?x]) (simp_all add: good_def)
    next
      case False
      then show thesis using e by (intro none) (auto simp: roomy_def)
    qed
  qed
qed

lemma poke_Ok:
  "i + length bs \<le> length (pb_buffer p) \<Longrightarrow>
     poke i bs p = Ok (p\<lparr>pb_buffer := take i (pb_buffer p) @ bs @ drop (i + length bs) (pb_buffer p)\<rparr>)"
  by (simp add: poke_def)

lemma write_ahead_adds:
  assumes "good p" and "length bs \<le> n" and "k \<le> length bs" and "n \<le> k + 1"
  shows "adds h p (take k bs) (pb_depth p) (write_ahead h n bs k p)"
  using assms(1)
proof (cases rule: ensure_cases [where h = h and n = n])
  case (room x)
  then show ?thesis
    using assms by (simp add: write_ahead_def write_here_def poke_Ok forward_def adds_simps good_def, arith)
next
  case none
  then show ?thesis using assms(3,4) by (simp add: write_ahead_def write_here_def adds_simps)
qed

lemma write_here_prints:
  assumes "good p" and "n = length t + 1" and "nul \<notin> set t"
  shows "prints h p t (pb_depth p) (write_here h n (t @ [nul]) p)"
  using assms(1)
proof (cases rule: ensure_cases [where h = h and n = n])
  case (room x)
  then show ?thesis
    using assms by (auto simp: write_here_def poke_Ok prints_simps good_def)
next
  case none
  then show ?thesis using assms(2) by (simp add: write_here_def prints_simps)
qed

subsection \<open>Strings\<close>

lemma short_escape_print:
  assumes "\<not> ((of_char c :: nat) > 31 \<and> c \<noteq> CHR 0x22 \<and> c \<noteq> CHR 0x5C)"
  shows "print_escape c = CHR 0x5C # (case short_escape c of Some x \<Rightarrow> [x] | None \<Rightarrow> CHR ''u'' # hex_code (of_char c))"
  using assms by (auto simp: print_escape_def short_escape_def)

text \<open>A write behind what has been written keeps it.\<close>

lemma poke_step:
  assumes "take i (pb_buffer p) = t" and "i + length bs \<le> length (pb_buffer p)" and "n \<le> length bs"
  obtains q where "poke i bs p = Ok q" "take (i + n) (pb_buffer q) = t @ take n bs"
    "length (pb_buffer q) = length (pb_buffer p)" "pb_offset q = pb_offset p" "pb_depth q = pb_depth p"
proof
  show "poke i bs p = Ok (p\<lparr>pb_buffer := take i (pb_buffer p) @ bs @ drop (i + length bs) (pb_buffer p)\<rparr>)"
    by (rule poke_Ok [OF assms(2)])
  have "length t = i" using assms(1,2) by auto
  then show "take (i + n) (pb_buffer (p\<lparr>pb_buffer := take i (pb_buffer p) @ bs @ drop (i + length bs) (pb_buffer p)\<rparr>)) =
      t @ take n bs" using assms by simp
qed (use assms(2) in simp_all)

lemma escape_loop_writes:
  assumes "take i (pb_buffer p) = t" and "i + length (concat (map print_escape s)) < length (pb_buffer p)"
  shows "\<exists>q. escape_loop s i p = Ok q \<and> take (i + length (concat (map print_escape s))) (pb_buffer q) =
      t @ concat (map print_escape s) \<and> length (pb_buffer q) = length (pb_buffer p) \<and>
    pb_offset q = pb_offset p \<and> pb_depth q = pb_depth p"
  using assms
proof (induction s arbitrary: i p t)
  case (Cons c s)
  show ?case
  proof (cases "(of_char c :: nat) > 31 \<and> c \<noteq> CHR 0x22 \<and> c \<noteq> CHR 0x5C")
    case True
    then have e: "print_escape c = [c]" by (simp add: print_escape_def)
    obtain q where q: "poke i [c] p = Ok q" "take (i + 1) (pb_buffer q) = t @ take 1 [c]"
      "length (pb_buffer q) = length (pb_buffer p)" "pb_offset q = pb_offset p" "pb_depth q = pb_depth p"
      by (rule poke_step [OF Cons.prems(1), of "[c]" 1]) (use Cons.prems(2) e in simp_all)
    from Cons.IH [OF q(2)] Cons.prems(2) q e show ?thesis using True by (auto simp: add.assoc)
  next
    case False
    note e = short_escape_print [OF False]
    obtain q where q: "poke i [CHR 0x5C] p = Ok q" "take (i + 1) (pb_buffer q) = t @ take 1 [CHR 0x5C]"
      "length (pb_buffer q) = length (pb_buffer p)" "pb_offset q = pb_offset p" "pb_depth q = pb_depth p"
      by (rule poke_step [OF Cons.prems(1), of "[CHR 0x5C]" 1]) (use Cons.prems(2) e in simp_all)
    show ?thesis
    proof (cases "short_escape c")
      case (Some x)
      obtain r where r: "poke (i + 1) [x] q = Ok r" "take (i + 1 + 1) (pb_buffer r) = (t @ take 1 [CHR 0x5C]) @ take 1 [x]"
        "length (pb_buffer r) = length (pb_buffer q)" "pb_offset r = pb_offset q" "pb_depth r = pb_depth q"
        by (rule poke_step [OF q(2), of "[x]" 1]) (use Cons.prems(2) q(3) e Some in simp_all)
      from Cons.IH [OF r(2)] Cons.prems(2) q r e Some show ?thesis using False by (auto simp: add.assoc)
    next
      case None
      let ?u = "CHR ''u'' # hex_code (of_char c)"
      obtain r where r: "poke (i + 1) (?u @ [nul]) q = Ok r"
        "take (i + 1 + 5) (pb_buffer r) = (t @ take 1 [CHR 0x5C]) @ take 5 (?u @ [nul])"
        "length (pb_buffer r) = length (pb_buffer q)" "pb_offset r = pb_offset q" "pb_depth r = pb_depth q"
        by (rule poke_step [OF q(2), of "?u @ [nul]" 5]) (use Cons.prems(2) q(3) e None in simp_all)
      have "take (i + 6) (pb_buffer r) = t @ CHR 0x5C # ?u" using r(2) by (simp add: add.commute)
      from Cons.IH [OF this] Cons.prems(2) q r e None show ?thesis using False by (auto simp: add.assoc)
    qed
  qed
qed simp

lemma escaped_length: "cstr s \<Longrightarrow> length (concat (map print_escape s)) = length s + escape_characters s"
  using print_length [of s] by (simp add: print_string_ptr_def)

lemma nothing_escaped: "cstr s \<Longrightarrow> escape_characters s = 0 \<Longrightarrow> concat (map print_escape s) = s"
proof (induction s)
  case (Cons c s)
  then have "length (print_escape c) = 1" using escape_length [of c]
    by (auto simp: cstr_Cons_iff escape_characters_def split: if_splits)
  then have "print_escape c = [c]" by (auto simp: print_escape_def split: if_splits)
  with Cons show ?case by (simp add: cstr_Cons_iff escape_characters_def)
qed simp

lemma prints_at_end:
  assumes "good q" "pb_depth q = d" "pb_offset q = pb_offset p + length t"
    "take (pb_offset p + length t + 1) (pb_buffer q) = take (pb_offset p) (pb_buffer p) @ t @ [nul]"
  shows "prints h p t d (Ok q)"
  using assms unfolding prints_simps by (intro conjI exI [of _ t] exI [of _ "[]"]) simp_all

lemma prints_whole:
  assumes "good q" "pb_depth q = d" "pb_offset q = pb_offset p" "nul \<notin> set t"
    "take (pb_offset p + length t + 1) (pb_buffer q) = take (pb_offset p) (pb_buffer p) @ t @ [nul]"
  shows "prints h p t d (Ok q)"
  using assms unfolding prints_simps by (intro conjI exI [of _ "[]"] exI [of _ t]) simp_all

lemma buf_string_prints:
  assumes "good p" and "cstr s"
  shows "prints h p (print_string_ptr s) (pb_depth p) (buf_string h s p)"
proof -
  let ?e = "concat (map print_escape s)" let ?extra = "escape_characters s" let ?len = "length s + escape_characters s"
  note len = escaped_length [OF assms(2)]
  from assms(1) show ?thesis
  proof (cases rule: ensure_cases [where h = h and n = "?len + 3"])
    case (room x)
    let ?p = "p\<lparr>pb_buffer := pb_buffer p @ x\<rparr>" let ?out = "pb_offset p"
    have space: "?out + ?len + 4 \<le> length (pb_buffer ?p)" using room(3) by simp
    obtain q where q: "poke ?out [CHR 0x22] ?p = Ok q"
      "take (?out + 1) (pb_buffer q) = take ?out (pb_buffer ?p) @ take 1 [CHR 0x22]"
      "length (pb_buffer q) = length (pb_buffer ?p)" "pb_offset q = pb_offset ?p" "pb_depth q = pb_depth ?p"
      by (rule poke_step [OF refl, of ?out "[CHR 0x22]" ?p 1]) (use space in simp_all)
    have "\<exists>r. (if ?extra = 0 then poke (?out + 1) s q else escape_loop s (?out + 1) q) = Ok r \<and>
        take (?out + 1 + ?len) (pb_buffer r) = (take ?out (pb_buffer ?p) @ take 1 [CHR 0x22]) @ ?e \<and>
        length (pb_buffer r) = length (pb_buffer q) \<and> pb_offset r = pb_offset q \<and> pb_depth r = pb_depth q"
    proof (cases "?extra = 0")
      case True
      then show ?thesis
        using poke_step [OF q(2), of s "length s"] space q(3) nothing_escaped [OF assms(2) True] by force
    next
      case False
      then show ?thesis using escape_loop_writes [OF q(2), of s] space q(3) len by auto
    qed
    then obtain r where r: "(if ?extra = 0 then poke (?out + 1) s q else escape_loop s (?out + 1) q) = Ok r"
      "take (?out + 1 + ?len) (pb_buffer r) = (take ?out (pb_buffer ?p) @ take 1 [CHR 0x22]) @ ?e"
      "length (pb_buffer r) = length (pb_buffer q)" "pb_offset r = pb_offset q" "pb_depth r = pb_depth q" by blast
    obtain z where z: "poke (?out + 1 + ?len) [CHR 0x22, nul] r = Ok z"
      "take (?out + 1 + ?len + 2) (pb_buffer z) =
         ((take ?out (pb_buffer ?p) @ take 1 [CHR 0x22]) @ ?e) @ take 2 [CHR 0x22, nul]"
      "length (pb_buffer z) = length (pb_buffer r)" "pb_offset z = pb_offset r" "pb_depth z = pb_depth r"
      by (rule poke_step [OF r(2), of "[CHR 0x22, nul]" 2]) (use space q(3) r(3) in simp_all)
    have written: "buf_string h s p = Ok z"
      using room(1) q(1) r(1) z(1) by (simp add: buf_string_def Let_def add.commute add.left_commute split: if_splits)
    have "take (?out + length (print_string_ptr s) + 1) (pb_buffer z) =
        take ?out (pb_buffer p) @ print_string_ptr s @ [nul]"
      using z(2) assms(1) len by (simp add: print_string_ptr_def good_def add.commute add.left_commute)
    moreover have "nul \<notin> set (print_string_ptr s)" using printed_string_cstr [OF assms(2)] by (simp add: cstr_def)
    moreover have "good z" "pb_offset z = ?out" "pb_depth z = pb_depth p" using room(2) q r z by (simp_all add: good_def)
    ultimately show ?thesis unfolding written by (intro prints_whole)
  next
    case none
    then show ?thesis
      using print_length [OF assms(2)] by (simp add: buf_string_def Let_def prints_simps)
  qed
qed

lemma buf_number_prints:
  assumes "good p" and "print_number L x = Some t"
  shows "prints h p t (pb_depth p) (buf_number h L x p)"
proof -
  have e: "buf_number h L x p = and_then (write_here h (length t + 1) (t @ [nul]) p) (forward (length t))"
    by (simp add: buf_number_def assms(2) write_ahead_def)
  from assms(1) show ?thesis
  proof (cases rule: ensure_cases [where h = h and n = "length t + 1"])
    case (room x)
    then show ?thesis
      using assms(1) by (auto simp: e write_here_def poke_Ok forward_def good_def intro!: prints_at_end)
  next
    case none
    then show ?thesis by (simp add: e write_here_def prints_simps)
  qed
qed

subsection \<open>Values\<close>

lemma set_depth_adds: "good p \<Longrightarrow> adds h p [] d (set_depth d p)"
  by (simp add: set_depth_def adds_simps good_def)

lemma prints_set_depth: "prints h p t d m \<Longrightarrow> prints h p t (g d) (and_then m (\<lambda>q. set_depth (g (pb_depth q)) q))"
  by (cases m) (auto simp: prints_simps set_depth_def good_def)

lemma open_object:
  "and_then (write_here h 3 bs p) (\<lambda>q. and_then (set_depth (pb_depth q + 1) q) (\<lambda>q. and_then (forward 2 q) f)) =
   and_then (write_ahead h 3 bs 2 p) (\<lambda>q. and_then (set_depth (pb_depth q + 1) q) f)"
proof (cases "write_here h 3 bs p")
  case (Ok q)
  then show ?thesis by (cases q) (simp add: write_ahead_def set_depth_def forward_def)
qed (simp_all add: write_ahead_def)

text \<open>The text of \<open>Cjson_Text\<close>, or the failure.\<close>

definition meets :: "(printbuffer outcome \<Rightarrow> string \<Rightarrow> bool) \<Rightarrow> string option \<Rightarrow> printbuffer outcome \<Rightarrow> bool" where
  "meets P r m \<longleftrightarrow> (case r of None \<Rightarrow> m = Failed | Some t \<Rightarrow> P m t)"

lemma meets_simps [simp]: "meets P None m \<longleftrightarrow> m = Failed" "meets P (Some t) m \<longleftrightarrow> P m t"
  by (simp_all add: meets_def)

lemma opened:
  assumes "good p" and "k \<le> length bs" and "length bs \<le> n" and "n \<le> k + 1"
  shows "adds h p (take k bs) (pb_depth p + 1) (and_then (write_ahead h n bs k p) (\<lambda>q. set_depth (pb_depth q + 1) q))"
proof -
  have "adds h p (take k bs @ []) (pb_depth p + 1) (and_then (write_ahead h n bs k p) (\<lambda>q. set_depth (pb_depth q + 1) q))"
    by (rule adds_then [OF write_ahead_adds]) (use assms set_depth_adds in auto)
  then show ?thesis by simp
qed

lemma buf_prints:
  "good p \<Longrightarrow> c_strings j \<Longrightarrow>
     meets (\<lambda>m t. prints h p t (pb_depth p) m) (print_value L (pb_depth p) j) (buf_value h L j p)"
  "good p \<Longrightarrow> list_all c_strings xs \<Longrightarrow>
     meets (\<lambda>m t. adds h p t (pb_depth p) m) (print_elements L (pb_depth p) xs) (buf_elements h L xs p)"
  "good p \<Longrightarrow> list_all (\<lambda>(k, v). cstr k \<and> c_strings v) kvs \<Longrightarrow>
     meets (\<lambda>m t. adds h p t (pb_depth p) m) (print_members L (pb_depth p) kvs) (buf_members h L kvs p)"
proof (induction h L j p and h L xs p and h L kvs p rule: buf_value_buf_elements_buf_members.induct)
  case (1 h L p)
  then show ?case using write_here_prints [of p 5 "''null''" h] by (simp add: nul_def)
next
  case (2 h L p)
  then show ?case using write_here_prints [of p 6 "''false''" h] by (simp add: nul_def)
next
  case (3 h L p)
  then show ?case using write_here_prints [of p 5 "''true''" h] by (simp add: nul_def)
next
  case (4 h L x p)
  then show ?case using buf_number_prints [of p L x] by (cases "print_number L x") (auto simp: buf_number_def)
next
  case (5 h L s p)
  then show ?case using buf_string_prints [of p s h] by simp
next
  case (6 h L xs p)
  let ?d = "pb_depth p" let ?m = "and_then (write_ahead h 1 ''['' 1 p) (\<lambda>q. set_depth (pb_depth q + 1) q)"
  have open_bracket: "adds h p ''['' (?d + 1) ?m" using opened [OF 6(2), of 1 "''[''" 1 h] by simp
  have e: "buf_value h L (CArray xs) p = and_then ?m (\<lambda>q. and_then (buf_elements h L xs q) (\<lambda>q.
      and_then (write_here h 2 ('']'' @ [nul]) q) (\<lambda>q. set_depth (pb_depth q - 1) q)))"
    by (simp add: and_then_assoc)
  have ih: "meets (\<lambda>m t. adds h q t (?d + 1) m) (print_elements L (?d + 1) xs) (buf_elements h L xs q)"
    if "good q" "pb_depth q = ?d + 1" for q using 6(1) [OF that(1)] 6(3) that(2) by simp
  show ?case
  proof (cases "print_elements L (?d + 1) xs")
    case None
    have failed: "and_then ?m (\<lambda>q. and_then (buf_elements h L xs q) (\<lambda>q.
      and_then (write_here h 2 ('']'' @ [nul]) q) (\<lambda>q. set_depth (pb_depth q - 1) q))) = Failed"
      by (rule adds_failed [OF open_bracket]) (use ih None in simp)
    show ?thesis using None unfolding e failed by simp
  next
    case (Some t)
    have "adds h p (''['' @ t) (?d + 1) (and_then ?m (buf_elements h L xs))"
      using ih Some by (intro adds_then [OF open_bracket]) simp
    then have "prints h p ((''['' @ t) @ '']'') (?d + 1) (and_then (and_then ?m (buf_elements h L xs)) (write_here h 2 ('']'' @ [nul])))"
    proof (rule prints_then)
      fix q assume "good q" "pb_depth q = ?d + 1"
      then show "prints h q '']'' (?d + 1) (write_here h 2 ('']'' @ [nul]) q)"
        using write_here_prints [of q 2 "'']''" h] by (simp add: nul_def)
    qed
    from prints_set_depth [OF this, of "\<lambda>d. d - 1"] Some show ?thesis unfolding e by (simp add: and_then_assoc)
  qed
next
  case (7 h L kvs p)
  let ?d = "pb_depth p" let ?o = "''{'' @ [newline]" let ?z = "replicate ?d (CHR 0x09) @ ''}''"
  let ?m = "and_then (write_ahead h 3 ?o 2 p) (\<lambda>q. set_depth (pb_depth q + 1) q)"
  let ?close = "\<lambda>q. write_here h (pb_depth q + 1) (replicate (pb_depth q - 1) (CHR 0x09) @ ''}'' @ [nul]) q"
  have open_brace: "adds h p ?o (?d + 1) ?m" using opened [OF 7(2), of 2 ?o 3 h] by simp
  have e: "buf_value h L (CObject kvs) p = and_then ?m (\<lambda>q. and_then (buf_members h L kvs q) (\<lambda>q.
      and_then (?close q) (\<lambda>q. set_depth (pb_depth q - 1) q)))"
    by (simp only: buf_value.simps open_object and_then_assoc)
  have ih: "meets (\<lambda>m t. adds h q t (?d + 1) m) (print_members L (?d + 1) kvs) (buf_members h L kvs q)"
    if "good q" "pb_depth q = ?d + 1" for q using 7(1) [OF that(1)] 7(3) that(2) by simp
  show ?case
  proof (cases "print_members L (?d + 1) kvs")
    case None
    have failed: "and_then ?m (\<lambda>q. and_then (buf_members h L kvs q) (\<lambda>q.
      and_then (?close q) (\<lambda>q. set_depth (pb_depth q - 1) q))) = Failed"
      by (rule adds_failed [OF open_brace]) (use ih None in simp)
    show ?thesis using None unfolding e failed by simp
  next
    case (Some t)
    have "adds h p (?o @ t) (?d + 1) (and_then ?m (buf_members h L kvs))"
      using ih Some by (intro adds_then [OF open_brace]) simp
    then have "prints h p ((?o @ t) @ ?z) (?d + 1) (and_then (and_then ?m (buf_members h L kvs)) ?close)"
    proof (rule prints_then)
      fix q assume "good q" "pb_depth q = ?d + 1"
      then show "prints h q ?z (?d + 1) (?close q)"
        using write_here_prints [of q "?d + 2" ?z h] by (simp add: nul_def)
    qed
    from prints_set_depth [OF this, of "\<lambda>d. d - 1"] Some show ?thesis unfolding e by (simp add: and_then_assoc)
  qed
next
  case (8 h L p)
  then show ?case by (simp add: adds_simps)
next
  case (9 h L x xs p)
  let ?d = "pb_depth p" let ?s = "if xs = [] then [] else '', ''"
  let ?sep = "\<lambda>q. if xs = [] then Ok q else write_ahead h 3 ('', '' @ [nul]) 2 q"
  let ?m = "and_then (buf_value h L x p) update_offset"
  have e: "buf_elements h L (x # xs) p = and_then (and_then ?m ?sep) (buf_elements h L xs)"
    by (simp add: and_then_assoc)
  have sep: "adds h q ?s (pb_depth q) (?sep q)" if "good q" for q
    using write_ahead_adds [OF that, of "'', '' @ [nul]" 3 2 h] that by (simp add: adds_simps good_def)
  show ?case
  proof (cases "print_value L ?d x")
    case None
    then show ?thesis using 9 unfolding e by simp
  next
    case (Some t)
    then have "adds h p t ?d ?m" using 9 by (intro prints_update) simp_all
    then have m: "adds h p (t @ ?s) ?d (and_then ?m ?sep)" by (rule adds_next) (rule sep)
    show ?thesis
    proof (cases "print_elements L ?d xs")
      case None
      have "and_then (and_then ?m ?sep) (buf_elements h L xs) = Failed"
        using None 9 by (intro adds_failed [OF m]) fastforce
      then show ?thesis unfolding e by (simp add: Some None)
    next
      case more: (Some u)
      have "adds h p ((t @ ?s) @ u) ?d (and_then (and_then ?m ?sep) (buf_elements h L xs))"
        by (rule adds_then [OF m]) (use more 9 in fastforce)
      then show ?thesis unfolding e by (simp add: Some more)
    qed
  qed
next
  case (10 h L p)
  then show ?case by (simp add: adds_simps)
next
  case (11 h L k v kvs p)
  let ?d = "pb_depth p" let ?tabs = "replicate ?d (CHR 0x09)"
  let ?ends = "(if kvs = [] then [] else '','') @ [newline]"
  let ?key = "\<lambda>q. and_then (buf_string h k q) update_offset"
  let ?colon = "write_ahead h 2 ('':'' @ [CHR 0x09]) 2"
  let ?val = "\<lambda>q. and_then (buf_value h L v q) update_offset"
  let ?tail = "write_ahead h (length ?ends + 1) (?ends @ [nul]) (length ?ends)"
  let ?m = "and_then (and_then (write_ahead h ?d ?tabs ?d p) ?key) ?colon"
  have e: "buf_members h L ((k, v) # kvs) p = and_then (and_then (and_then ?m ?val) ?tail) (buf_members h L kvs)"
    by (simp add: and_then_assoc Let_def)
  have tabs: "adds h p ?tabs ?d (write_ahead h ?d ?tabs ?d p)" using write_ahead_adds [OF 11(3), of ?tabs ?d ?d h] by simp
  have key: "adds h q (print_string_ptr k) (pb_depth q) (?key q)" if "good q" for q
    using that 11(4) by (intro prints_update buf_string_prints) simp_all
  have colon: "adds h q ('':'' @ [CHR 0x09]) (pb_depth q) (?colon q)" if "good q" for q
    using write_ahead_adds [OF that, of "'':'' @ [CHR 0x09]" 2 2 h] by simp
  have ends: "adds h q ?ends (pb_depth q) (?tail q)" if "good q" for q
    using write_ahead_adds [OF that, of "?ends @ [nul]" "length ?ends + 1" "length ?ends" h] by simp
  have "adds h p (?tabs @ print_string_ptr k) ?d (and_then (write_ahead h ?d ?tabs ?d p) ?key)"
    by (rule adds_next [OF tabs]) (rule key)
  then have m: "adds h p ((?tabs @ print_string_ptr k) @ '':'' @ [CHR 0x09]) ?d ?m" by (rule adds_next) (rule colon)
  have val: "meets (\<lambda>m t. prints h q t ?d m) (print_value L ?d v) (buf_value h L v q)" if "good q" "pb_depth q = ?d" for q
    using 11(1) [OF that(1)] 11(4) that(2) by simp
  show ?case
  proof (cases "print_value L ?d v")
    case None
    have "and_then ?m ?val = Failed" by (rule adds_failed [OF m]) (use val None in simp)
    then show ?thesis unfolding e by (simp add: None)
  next
    case (Some t)
    have "adds h p (((?tabs @ print_string_ptr k) @ '':'' @ [CHR 0x09]) @ t) ?d (and_then ?m ?val)"
      by (rule adds_then [OF m], rule prints_update) (use val Some in simp_all)
    then have n: "adds h p ((((?tabs @ print_string_ptr k) @ '':'' @ [CHR 0x09]) @ t) @ ?ends) ?d (and_then (and_then ?m ?val) ?tail)"
      by (rule adds_next) (rule ends)
    have rest: "meets (\<lambda>m t. adds h q t ?d m) (print_members L ?d kvs) (buf_members h L kvs q)"
      if "good q" "pb_depth q = ?d" for q using 11(2) [OF refl that(1)] 11(4) that(2) by simp
    show ?thesis
    proof (cases "print_members L ?d kvs")
      case None
      have "and_then (and_then (and_then ?m ?val) ?tail) (buf_members h L kvs) = Failed"
        by (rule adds_failed [OF n]) (use rest None in simp)
      then show ?thesis unfolding e by (simp add: Some None)
    next
      case more: (Some u)
      have "adds h p (((((?tabs @ print_string_ptr k) @ '':'' @ [CHR 0x09]) @ t) @ ?ends) @ u) ?d
          (and_then (and_then (and_then ?m ?val) ?tail) (buf_members h L kvs))"
        by (rule adds_then [OF n]) (use more rest in simp)
      then show ?thesis unfolding e by (simp add: Some more)
    qed
  qed
qed

subsection \<open>The returned block\<close>

lemma update_keeps_buffer: "update_offset q = Ok r \<Longrightarrow> pb_buffer r = pb_buffer q"
  by (auto simp: update_offset_def forward_def Let_def split: if_splits)

definition empty_buffer :: "heap_answers \<Rightarrow> printbuffer" where
  "empty_buffer h = \<lparr>pb_buffer = fresh h 256 0 256, pb_offset = 0, pb_depth = 0\<rparr>"

lemma empty_buffer: "good (empty_buffer h)" "pb_offset (empty_buffer h) = 0" "pb_depth (empty_buffer h) = 0"
  by (simp_all add: empty_buffer_def good_def SIZE_LIMIT_def INT_MAX_def)

lemma print_block_cases:
  assumes "c_strings j"
  shows "case cJSON_Print L j of
      None \<Rightarrow> print_block h L j = Failed
    | Some t \<Rightarrow> print_block h L j = Ok (t @ [nul]) \<or> print_block h L j = Failed \<and> \<not> roomy h (length t)"
proof (cases "hp_malloc h")
  case True
  let ?p = "empty_buffer h" let ?m = "buf_value h L j ?p"
  have e: "print_block h L j = and_then (and_then ?m update_offset)
      (\<lambda>p. if \<not> hp_shrink h then Failed else Ok (take (pb_offset p + 1) (pb_buffer p)))"
    using True by (simp add: print_block_def empty_buffer_def and_then_assoc)
  have m: "meets (\<lambda>m t. prints h ?p t 0 m) (cJSON_Print L j) ?m"
    using buf_prints(1) [OF empty_buffer(1) assms] by (simp add: empty_buffer(3) cJSON_Print_def)
  show ?thesis
  proof (cases "cJSON_Print L j")
    case (Some t)
    with m have p: "prints h ?p t 0 ?m" by simp
    note u = prints_update [OF p empty_buffer(1)]
    show ?thesis
    proof (cases "and_then ?m update_offset")
      case (Ok r)
      then obtain q where q: "?m = Ok q" "update_offset q = Ok r" by (cases ?m) auto
      have "take (pb_offset r + 1) (pb_buffer r) = t @ [nul]"
        using p u q update_keeps_buffer [OF q(2)] by (auto simp: prints_simps adds_simps empty_buffer)
      then show ?thesis unfolding e Ok using Some by (auto simp: roomy_def)
    next
      case Failed
      then show ?thesis using u Some unfolding e Failed by (simp add: adds_simps empty_buffer)
    next
      case Fault
      then show ?thesis using u by (simp add: adds_simps)
    qed
  qed (use m e in simp)
qed (auto simp: print_block_def roomy_def split: option.split)

text \<open>
  C32: The printer that grows its buffer byte for byte implements the one that only says the text. No write
  and no \<open>strlen\<close> leaves the buffer, whatever the allocator answers and whatever the fresh memory
  holds; what is returned is exactly the text and its NUL; and the text is returned when there is memory
  and it stays two bytes below the limit of the buffer.
\<close>

theorem buffered_print_refines:
  assumes "c_strings j"
  shows "print_block h L j \<noteq> Fault \<and>
    (\<forall>block. print_block h L j = Ok block \<longrightarrow> (\<exists>t. cJSON_Print L j = Some t \<and> block = t @ [nul])) \<and>
    (\<forall>t. cJSON_Print L j = Some t \<and> hp_malloc h \<and> hp_shrink h \<and> (\<forall>n. hp_realloc h n) \<and>
       int (length t) + 2 \<le> INT_MAX \<longrightarrow> print_block h L j = Ok (t @ [nul]))"
  using print_block_cases [OF assms, of h L]
  by (auto simp: roomy_def SIZE_LIMIT_def INT_MAX_def split: option.splits)

definition dirty_heap :: heap_answers where
  "dirty_heap = \<lparr>hp_malloc = True, hp_realloc = (\<lambda>_. True), hp_shrink = True, hp_fresh = (\<lambda>_ _. CHR ''x'')\<rparr>"

definition small_document :: cjson where
  "small_document = CArray [CString [CHR ''a'', newline]]"

definition small_text :: string where
  "small_text = [CHR ''['', CHR 0x22, CHR ''a'', CHR 0x5C, CHR ''n'', CHR 0x22, CHR '']'']"

theorem buffered_print_refines_witness:
  "print_block dirty_heap plain_num small_document = Ok (small_text @ [nul])"
proof -
  have t: "cJSON_Print plain_num small_document = Some small_text"
    by (simp add: cJSON_Print_def print_string_ptr_def print_escape_def newline_def small_document_def small_text_def)
  have memory: "hp_malloc dirty_heap" "hp_shrink dirty_heap" "\<And>n. hp_realloc dirty_heap n"
    by (simp_all add: dirty_heap_def)
  have "int (length small_text) + 2 \<le> INT_MAX" by (simp add: small_text_def INT_MAX_def)
  moreover have "c_strings small_document" by (simp add: cstr_def nul_def newline_def small_document_def)
  ultimately show ?thesis using buffered_print_refines [of small_document dirty_heap plain_num] t memory by blast
qed

end
