(* ===== verification/Cjson_Heap.thy ===== *)
theory Cjson_Heap
  imports Cjson "HOL-Library.Monad_Syntax"
begin

text \<open>
  The items of \<open>src/common/cJSON.c\<close> as they lie in memory: linked cells that the edits of the policy rewire
  and free. A pointer is an address or \<open>None\<close>, the heap maps the allocated ones to their cells. An operation
  gives \<open>None\<close> when it follows a null pointer, reads or frees a cell that is not allocated, or does not
  return; otherwise its result and the heap.
\<close>

type_synonym ptr = "nat option"

text \<open>
  \<open>type\<close> is split into its low byte and the two flags; a string belongs to its cell, so that freeing the
  cell frees it.
\<close>

record node =
  n_next :: ptr
  n_prev :: ptr
  n_child :: ptr
  n_kind :: nat
  n_reference :: bool
  n_const :: bool
  n_valuestring :: "string option"
  n_valueint :: int
  n_valuedouble :: rat
  n_string :: "string option"

type_synonym jheap = "nat \<Rightarrow> node option"

definition cJSON_Invalid :: nat where "cJSON_Invalid = 0"
definition cJSON_False :: nat where "cJSON_False = 1"
definition cJSON_True :: nat where "cJSON_True = 2"
definition cJSON_NULL :: nat where "cJSON_NULL = 4"
definition cJSON_Number :: nat where "cJSON_Number = 8"
definition cJSON_String :: nat where "cJSON_String = 16"
definition cJSON_Array :: nat where "cJSON_Array = 32"
definition cJSON_Object :: nat where "cJSON_Object = 64"
definition cJSON_Raw :: nat where "cJSON_Raw = 128"

lemmas kinds = cJSON_Invalid_def cJSON_False_def cJSON_True_def cJSON_NULL_def cJSON_Number_def
  cJSON_String_def cJSON_Array_def cJSON_Object_def cJSON_Raw_def

definition cell :: "ptr \<Rightarrow> jheap \<Rightarrow> node option" where
  "cell p h = do { a \<leftarrow> p; h a }"

definition assign :: "ptr \<Rightarrow> (node \<Rightarrow> node) \<Rightarrow> jheap \<Rightarrow> jheap option" where
  "assign p f h = do { a \<leftarrow> p; n \<leftarrow> h a; Some (h(a \<mapsto> f n)) }"

lemma cell_Some [simp]: "cell (Some a) h = h a" and cell_None [simp]: "cell None h = None"
  by (simp_all add: cell_def)

lemma assign_Some [simp]: "assign (Some a) f h = (case h a of None \<Rightarrow> None | Some n \<Rightarrow> Some (h(a \<mapsto> f n)))"
  by (simp add: assign_def split: option.split)

subsection \<open>Making and freeing items\<close>

definition zero_node :: node where
  "zero_node = \<lparr>n_next = None, n_prev = None, n_child = None, n_kind = cJSON_Invalid, n_reference = False,
     n_const = False, n_valuestring = None, n_valueint = 0, n_valuedouble = 0, n_string = None\<rparr>"

text \<open>\<open>mem\<close> is the answer of the allocator, an address that is not in use or \<open>None\<close>.\<close>

definition cJSON_New_Item :: "ptr \<Rightarrow> jheap \<Rightarrow> ptr \<times> jheap" where
  "cJSON_New_Item mem h = (case mem of None \<Rightarrow> (None, h) | Some a \<Rightarrow> (Some a, h(a \<mapsto> zero_node)))"

partial_function (option) cJSON_Delete :: "ptr \<Rightarrow> jheap \<Rightarrow> jheap option" where
  "cJSON_Delete item h =
     (case item of
        None \<Rightarrow> Some h
      | Some a \<Rightarrow>
          do { n \<leftarrow> h a;
               h1 \<leftarrow> (if \<not> n_reference n \<and> n_child n \<noteq> None then cJSON_Delete (n_child n) h else Some h);
               m \<leftarrow> h1 a;
               cJSON_Delete (n_next n) (h1(a := None)) })"

definition create_item :: "ptr \<Rightarrow> (node \<Rightarrow> node) \<Rightarrow> jheap \<Rightarrow> ptr \<times> jheap" where
  "create_item mem fill h =
     (case cJSON_New_Item mem h of
        (None, h1) \<Rightarrow> (None, h1)
      | (Some a, h1) \<Rightarrow> (Some a, h1(a \<mapsto> fill zero_node)))"

definition cJSON_CreateNull :: "ptr \<Rightarrow> jheap \<Rightarrow> ptr \<times> jheap" where
  "cJSON_CreateNull mem = create_item mem (\<lambda>n. n\<lparr>n_kind := cJSON_NULL\<rparr>)"

definition cJSON_CreateTrue :: "ptr \<Rightarrow> jheap \<Rightarrow> ptr \<times> jheap" where
  "cJSON_CreateTrue mem = create_item mem (\<lambda>n. n\<lparr>n_kind := cJSON_True\<rparr>)"

definition cJSON_CreateFalse :: "ptr \<Rightarrow> jheap \<Rightarrow> ptr \<times> jheap" where
  "cJSON_CreateFalse mem = create_item mem (\<lambda>n. n\<lparr>n_kind := cJSON_False\<rparr>)"

definition cJSON_CreateBool :: "ptr \<Rightarrow> bool \<Rightarrow> jheap \<Rightarrow> ptr \<times> jheap" where
  "cJSON_CreateBool mem b = create_item mem (\<lambda>n. n\<lparr>n_kind := (if b then cJSON_True else cJSON_False)\<rparr>)"

definition cJSON_CreateNumber :: "ptr \<Rightarrow> rat \<Rightarrow> jheap \<Rightarrow> ptr \<times> jheap" where
  "cJSON_CreateNumber mem num =
     create_item mem (\<lambda>n. n\<lparr>n_kind := cJSON_Number, n_valuedouble := num, n_valueint := json_valueint num\<rparr>)"

definition cJSON_CreateArray :: "ptr \<Rightarrow> jheap \<Rightarrow> ptr \<times> jheap" where
  "cJSON_CreateArray mem = create_item mem (\<lambda>n. n\<lparr>n_kind := cJSON_Array\<rparr>)"

definition cJSON_CreateObject :: "ptr \<Rightarrow> jheap \<Rightarrow> ptr \<times> jheap" where
  "cJSON_CreateObject mem = create_item mem (\<lambda>n. n\<lparr>n_kind := cJSON_Object\<rparr>)"

text \<open>The copy of the text needs memory of its own, \<open>dup\<close>; a null text has no copy.\<close>

definition cJSON_strdup :: "bool \<Rightarrow> string option \<Rightarrow> string option" where
  "cJSON_strdup dup s = (if dup then s else None)"

definition create_text :: "nat \<Rightarrow> ptr \<Rightarrow> bool \<Rightarrow> string option \<Rightarrow> jheap \<Rightarrow> (ptr \<times> jheap) option" where
  "create_text kind mem dup s h =
     (case create_item mem (\<lambda>n. n\<lparr>n_kind := kind, n_valuestring := cJSON_strdup dup s\<rparr>) h of
        (None, h1) \<Rightarrow> Some (None, h1)
      | (Some a, h1) \<Rightarrow>
          if cJSON_strdup dup s = None then do { h2 \<leftarrow> cJSON_Delete (Some a) h1; Some (None, h2) }
          else Some (Some a, h1))"

definition cJSON_CreateString :: "ptr \<Rightarrow> bool \<Rightarrow> string option \<Rightarrow> jheap \<Rightarrow> (ptr \<times> jheap) option" where
  "cJSON_CreateString = create_text cJSON_String"

definition cJSON_CreateRaw :: "ptr \<Rightarrow> bool \<Rightarrow> string option \<Rightarrow> jheap \<Rightarrow> (ptr \<times> jheap) option" where
  "cJSON_CreateRaw = create_text cJSON_Raw"

subsection \<open>Looking items up\<close>

partial_function (option) count_items :: "jheap \<Rightarrow> ptr \<Rightarrow> nat \<Rightarrow> nat option" where
  "count_items h child k =
     (case child of None \<Rightarrow> Some k | Some a \<Rightarrow> do { n \<leftarrow> h a; count_items h (n_next n) (k + 1) })"

definition cJSON_GetArraySize_ptr :: "ptr \<Rightarrow> jheap \<Rightarrow> nat option" where
  "cJSON_GetArraySize_ptr arr h =
     (if arr = None then Some 0 else do { n \<leftarrow> cell arr h; count_items h (n_child n) 0 })"

fun walk_items :: "jheap \<Rightarrow> nat \<Rightarrow> ptr \<Rightarrow> ptr option" where
  "walk_items h 0 p = Some p"
| "walk_items h (Suc i) None = Some None"
| "walk_items h (Suc i) (Some a) = do { n \<leftarrow> h a; walk_items h i (n_next n) }"

definition get_array_item :: "ptr \<Rightarrow> nat \<Rightarrow> jheap \<Rightarrow> ptr option" where
  "get_array_item arr index h =
     (if arr = None then Some None else do { n \<leftarrow> cell arr h; walk_items h index (n_child n) })"

definition cJSON_GetArrayItem :: "ptr \<Rightarrow> int \<Rightarrow> jheap \<Rightarrow> ptr option" where
  "cJSON_GetArrayItem arr index h = (if index < 0 then Some None else get_array_item arr (nat index) h)"

text \<open>Where the search goes on: a member without a name ends only the search that heeds case.\<close>

definition passes :: "bool \<Rightarrow> string \<Rightarrow> node \<Rightarrow> bool" where
  "passes case_sensitive name n =
     (case n_string n of
        None \<Rightarrow> \<not> case_sensitive
      | Some s \<Rightarrow> if case_sensitive then name \<noteq> s else \<not> case_insensitive_eq name s)"

partial_function (option) find_member :: "jheap \<Rightarrow> (node \<Rightarrow> bool) \<Rightarrow> ptr \<Rightarrow> ptr option" where
  "find_member h pass p =
     (case p of
        None \<Rightarrow> Some None
      | Some a \<Rightarrow>
          do { n \<leftarrow> h a;
               if pass n then find_member h pass (n_next n)
               else if n_string n = None then Some None else Some (Some a) })"

definition get_object_item :: "ptr \<Rightarrow> string option \<Rightarrow> bool \<Rightarrow> jheap \<Rightarrow> ptr option" where
  "get_object_item object name case_sensitive h =
     (case name of
        None \<Rightarrow> Some None
      | Some s \<Rightarrow>
          if object = None then Some None
          else do { n \<leftarrow> cell object h; find_member h (passes case_sensitive s) (n_child n) })"

definition cJSON_GetObjectItem_ptr :: "ptr \<Rightarrow> string option \<Rightarrow> jheap \<Rightarrow> ptr option" where
  "cJSON_GetObjectItem_ptr object name = get_object_item object name False"

definition cJSON_GetObjectItemCaseSensitive :: "ptr \<Rightarrow> string option \<Rightarrow> jheap \<Rightarrow> ptr option" where
  "cJSON_GetObjectItemCaseSensitive object name = get_object_item object name True"

subsection \<open>Adding items\<close>

definition suffix_object :: "ptr \<Rightarrow> ptr \<Rightarrow> jheap \<Rightarrow> jheap option" where
  "suffix_object prev item h =
     do { h1 \<leftarrow> assign prev (\<lambda>n. n\<lparr>n_next := item\<rparr>) h; assign item (\<lambda>n. n\<lparr>n_prev := prev\<rparr>) h1 }"

definition add_item_to_array :: "ptr \<Rightarrow> ptr \<Rightarrow> jheap \<Rightarrow> (bool \<times> jheap) option" where
  "add_item_to_array arr item h =
     (if item = None \<or> arr = None \<or> arr = item then Some (False, h)
      else
        do { n \<leftarrow> cell arr h;
             if n_child n = None then
               do { h1 \<leftarrow> assign arr (\<lambda>n. n\<lparr>n_child := item\<rparr>) h;
                    h2 \<leftarrow> assign item (\<lambda>n. n\<lparr>n_prev := item, n_next := None\<rparr>) h1;
                    Some (True, h2) }
             else
               do { c \<leftarrow> cell (n_child n) h;
                    if n_prev c = None then Some (True, h)
                    else
                      do { h1 \<leftarrow> suffix_object (n_prev c) item h;
                           n1 \<leftarrow> cell arr h1;
                           h2 \<leftarrow> assign (n_child n1) (\<lambda>n. n\<lparr>n_prev := item\<rparr>) h1;
                           Some (True, h2) } } })"

definition add_item_to_object ::
  "ptr \<Rightarrow> string option \<Rightarrow> ptr \<Rightarrow> bool \<Rightarrow> bool \<Rightarrow> jheap \<Rightarrow> (bool \<times> jheap) option" where
  "add_item_to_object object name item dup constant_key h =
     (if object = None \<or> name = None \<or> item = None \<or> object = item then Some (False, h)
      else
        let new_key = (if constant_key then name else cJSON_strdup dup name)
        in if new_key = None then Some (False, h)
           else
             do { h1 \<leftarrow> assign item (\<lambda>n. n\<lparr>n_string := new_key, n_const := constant_key\<rparr>) h;
                  add_item_to_array object item h1 })"

definition cJSON_AddItemToArray :: "ptr \<Rightarrow> ptr \<Rightarrow> jheap \<Rightarrow> (bool \<times> jheap) option" where
  "cJSON_AddItemToArray = add_item_to_array"

definition cJSON_AddItemToObject_ptr :: "ptr \<Rightarrow> string option \<Rightarrow> ptr \<Rightarrow> bool \<Rightarrow> jheap \<Rightarrow> (bool \<times> jheap) option" where
  "cJSON_AddItemToObject_ptr object name item dup = add_item_to_object object name item dup False"

definition cJSON_AddItemToObjectCS :: "ptr \<Rightarrow> string option \<Rightarrow> ptr \<Rightarrow> bool \<Rightarrow> jheap \<Rightarrow> (bool \<times> jheap) option" where
  "cJSON_AddItemToObjectCS object name item dup = add_item_to_object object name item dup True"

text \<open>A reference shares the child and the text of another item and is never followed by \<open>cJSON_Delete\<close>.\<close>

definition create_reference :: "ptr \<Rightarrow> ptr \<Rightarrow> jheap \<Rightarrow> (ptr \<times> jheap) option" where
  "create_reference mem item h =
     (if item = None then Some (None, h)
      else
        (case cJSON_New_Item mem h of
           (None, h1) \<Rightarrow> Some (None, h1)
         | (Some r, h1) \<Rightarrow>
             do { n \<leftarrow> cell item h1;
                  Some (Some r, h1(r \<mapsto> n\<lparr>n_string := None, n_reference := True, n_next := None, n_prev := None\<rparr>)) }))"

definition cJSON_AddItemReferenceToArray :: "ptr \<Rightarrow> ptr \<Rightarrow> ptr \<Rightarrow> jheap \<Rightarrow> (bool \<times> jheap) option" where
  "cJSON_AddItemReferenceToArray mem arr item h =
     (if arr = None then Some (False, h)
      else do { (r, h1) \<leftarrow> create_reference mem item h; add_item_to_array arr r h1 })"

text \<open>The shape of \<open>cJSON_AddNullToObject\<close> and its siblings: an item that cannot be added is freed.\<close>

definition add_new :: "(ptr \<times> jheap) option \<Rightarrow> ptr \<Rightarrow> string option \<Rightarrow> bool \<Rightarrow> (ptr \<times> jheap) option" where
  "add_new created object name dup =
     do { (item, h1) \<leftarrow> created;
          (ok, h2) \<leftarrow> add_item_to_object object name item dup False h1;
          if ok then Some (item, h2) else do { h3 \<leftarrow> cJSON_Delete item h2; Some (None, h3) } }"

definition cJSON_AddBoolToObject :: "ptr \<Rightarrow> bool \<Rightarrow> ptr \<Rightarrow> string option \<Rightarrow> bool \<Rightarrow> jheap \<Rightarrow> (ptr \<times> jheap) option" where
  "cJSON_AddBoolToObject mem dup object name b h = add_new (Some (cJSON_CreateBool mem b h)) object name dup"

definition cJSON_AddStringToObject ::
  "ptr \<Rightarrow> bool \<Rightarrow> bool \<Rightarrow> ptr \<Rightarrow> string option \<Rightarrow> string option \<Rightarrow> jheap \<Rightarrow> (ptr \<times> jheap) option" where
  "cJSON_AddStringToObject mem dup_text dup object name s h =
     add_new (cJSON_CreateString mem dup_text s h) object name dup"

definition cJSON_AddObjectToObject :: "ptr \<Rightarrow> bool \<Rightarrow> ptr \<Rightarrow> string option \<Rightarrow> jheap \<Rightarrow> (ptr \<times> jheap) option" where
  "cJSON_AddObjectToObject mem dup object name h = add_new (Some (cJSON_CreateObject mem h)) object name dup"

definition cJSON_AddArrayToObject :: "ptr \<Rightarrow> bool \<Rightarrow> ptr \<Rightarrow> string option \<Rightarrow> jheap \<Rightarrow> (ptr \<times> jheap) option" where
  "cJSON_AddArrayToObject mem dup object name h = add_new (Some (cJSON_CreateArray mem h)) object name dup"

definition cJSON_AddNullToObject :: "ptr \<Rightarrow> bool \<Rightarrow> ptr \<Rightarrow> string option \<Rightarrow> jheap \<Rightarrow> (ptr \<times> jheap) option" where
  "cJSON_AddNullToObject mem dup object name h = add_new (Some (cJSON_CreateNull mem h)) object name dup"

definition cJSON_AddNumberToObject ::
  "ptr \<Rightarrow> bool \<Rightarrow> ptr \<Rightarrow> string option \<Rightarrow> rat \<Rightarrow> jheap \<Rightarrow> (ptr \<times> jheap) option" where
  "cJSON_AddNumberToObject mem dup object name num h =
     add_new (Some (cJSON_CreateNumber mem num h)) object name dup"

subsection \<open>Taking items out\<close>

definition cJSON_DetachItemViaPointer :: "ptr \<Rightarrow> ptr \<Rightarrow> jheap \<Rightarrow> (ptr \<times> jheap) option" where
  "cJSON_DetachItemViaPointer parent item h =
     (if parent = None \<or> item = None then Some (None, h)
      else
        do { p \<leftarrow> cell parent h;
             i \<leftarrow> cell item h;
             h1 \<leftarrow> (if item \<noteq> n_child p then assign (n_prev i) (\<lambda>n. n\<lparr>n_next := n_next i\<rparr>) h else Some h);
             i1 \<leftarrow> cell item h1;
             h2 \<leftarrow> (if n_next i1 \<noteq> None then assign (n_next i1) (\<lambda>n. n\<lparr>n_prev := n_prev i1\<rparr>) h1 else Some h1);
             p2 \<leftarrow> cell parent h2;
             i2 \<leftarrow> cell item h2;
             h3 \<leftarrow> (if item = n_child p2 then assign parent (\<lambda>n. n\<lparr>n_child := n_next i2\<rparr>) h2
                   else if n_next i2 = None then assign (n_child p2) (\<lambda>n. n\<lparr>n_prev := n_prev i2\<rparr>) h2
                   else Some h2);
             h4 \<leftarrow> assign item (\<lambda>n. n\<lparr>n_prev := None, n_next := None\<rparr>) h3;
             Some (item, h4) })"

definition cJSON_DetachItemFromArray :: "ptr \<Rightarrow> int \<Rightarrow> jheap \<Rightarrow> (ptr \<times> jheap) option" where
  "cJSON_DetachItemFromArray arr which h =
     (if which < 0 then Some (None, h)
      else do { item \<leftarrow> get_array_item arr (nat which) h; cJSON_DetachItemViaPointer arr item h })"

definition cJSON_DeleteItemFromArray_ptr :: "ptr \<Rightarrow> int \<Rightarrow> jheap \<Rightarrow> jheap option" where
  "cJSON_DeleteItemFromArray_ptr arr which h =
     do { (item, h1) \<leftarrow> cJSON_DetachItemFromArray arr which h; cJSON_Delete item h1 }"

definition cJSON_DetachItemFromObject :: "ptr \<Rightarrow> string option \<Rightarrow> jheap \<Rightarrow> (ptr \<times> jheap) option" where
  "cJSON_DetachItemFromObject object name h =
     do { item \<leftarrow> cJSON_GetObjectItem_ptr object name h; cJSON_DetachItemViaPointer object item h }"

definition cJSON_DeleteItemFromObject_ptr :: "ptr \<Rightarrow> string option \<Rightarrow> jheap \<Rightarrow> jheap option" where
  "cJSON_DeleteItemFromObject_ptr object name h =
     do { (item, h1) \<leftarrow> cJSON_DetachItemFromObject object name h; cJSON_Delete item h1 }"

definition cJSON_DetachItemFromObjectCaseSensitive :: "ptr \<Rightarrow> string option \<Rightarrow> jheap \<Rightarrow> (ptr \<times> jheap) option" where
  "cJSON_DetachItemFromObjectCaseSensitive object name h =
     do { item \<leftarrow> cJSON_GetObjectItemCaseSensitive object name h; cJSON_DetachItemViaPointer object item h }"

definition cJSON_DeleteItemFromObjectCaseSensitive :: "ptr \<Rightarrow> string option \<Rightarrow> jheap \<Rightarrow> jheap option" where
  "cJSON_DeleteItemFromObjectCaseSensitive object name h =
     do { (item, h1) \<leftarrow> cJSON_DetachItemFromObjectCaseSensitive object name h; cJSON_Delete item h1 }"

subsection \<open>Inserting and replacing items\<close>

definition cJSON_InsertItemInArray :: "ptr \<Rightarrow> int \<Rightarrow> ptr \<Rightarrow> jheap \<Rightarrow> (bool \<times> jheap) option" where
  "cJSON_InsertItemInArray arr which newitem h =
     (if which < 0 \<or> newitem = None then Some (False, h)
      else
        do { after \<leftarrow> get_array_item arr (nat which) h;
             if after = None then add_item_to_array arr newitem h
             else
               do { p \<leftarrow> cell arr h;
                    x \<leftarrow> cell after h;
                    if after \<noteq> n_child p \<and> n_prev x = None then Some (False, h)
                    else
                      do { h1 \<leftarrow> assign newitem (\<lambda>n. n\<lparr>n_next := after, n_prev := n_prev x\<rparr>) h;
                           h2 \<leftarrow> assign after (\<lambda>n. n\<lparr>n_prev := newitem\<rparr>) h1;
                           p2 \<leftarrow> cell arr h2;
                           i2 \<leftarrow> cell newitem h2;
                           h3 \<leftarrow> (if after = n_child p2 then assign arr (\<lambda>n. n\<lparr>n_child := newitem\<rparr>) h2
                                 else assign (n_prev i2) (\<lambda>n. n\<lparr>n_next := newitem\<rparr>) h2);
                           Some (True, h3) } } })"

definition cJSON_ReplaceItemViaPointer :: "ptr \<Rightarrow> ptr \<Rightarrow> ptr \<Rightarrow> jheap \<Rightarrow> (bool \<times> jheap) option" where
  "cJSON_ReplaceItemViaPointer parent item replacement h =
     (if parent = None then Some (False, h)
      else
        do { p \<leftarrow> cell parent h;
             if n_child p = None \<or> replacement = None \<or> item = None then Some (False, h)
             else if replacement = item then Some (True, h)
             else
               do { i \<leftarrow> cell item h;
                    h1 \<leftarrow> assign replacement (\<lambda>n. n\<lparr>n_next := n_next i, n_prev := n_prev i\<rparr>) h;
                    r1 \<leftarrow> cell replacement h1;
                    h2 \<leftarrow> (if n_next r1 \<noteq> None then assign (n_next r1) (\<lambda>n. n\<lparr>n_prev := replacement\<rparr>) h1 else Some h1);
                    p2 \<leftarrow> cell parent h2;
                    h3 \<leftarrow> (if n_child p2 = item then
                            do { c \<leftarrow> cell (n_child p2) h2;
                                 g \<leftarrow> (if n_prev c = n_child p2
                                      then assign replacement (\<lambda>n. n\<lparr>n_prev := replacement\<rparr>) h2 else Some h2);
                                 assign parent (\<lambda>n. n\<lparr>n_child := replacement\<rparr>) g }
                          else
                            do { r2 \<leftarrow> cell replacement h2;
                                 g \<leftarrow> (if n_prev r2 \<noteq> None
                                      then assign (n_prev r2) (\<lambda>n. n\<lparr>n_next := replacement\<rparr>) h2 else Some h2);
                                 r3 \<leftarrow> cell replacement g;
                                 if n_next r3 = None
                                 then do { p3 \<leftarrow> cell parent g; assign (n_child p3) (\<lambda>n. n\<lparr>n_prev := replacement\<rparr>) g }
                                 else Some g });
                    h4 \<leftarrow> assign item (\<lambda>n. n\<lparr>n_next := None, n_prev := None\<rparr>) h3;
                    h5 \<leftarrow> cJSON_Delete item h4;
                    Some (True, h5) } })"

definition cJSON_ReplaceItemInArray :: "ptr \<Rightarrow> int \<Rightarrow> ptr \<Rightarrow> jheap \<Rightarrow> (bool \<times> jheap) option" where
  "cJSON_ReplaceItemInArray arr which newitem h =
     (if which < 0 then Some (False, h)
      else do { item \<leftarrow> get_array_item arr (nat which) h; cJSON_ReplaceItemViaPointer arr item newitem h })"

text \<open>The old name is freed before the new one is copied.\<close>

definition replace_item_in_object :: "ptr \<Rightarrow> string option \<Rightarrow> ptr \<Rightarrow> bool \<Rightarrow> bool \<Rightarrow> jheap \<Rightarrow> (bool \<times> jheap) option" where
  "replace_item_in_object object name replacement case_sensitive dup h =
     (if replacement = None \<or> name = None then Some (False, h)
      else
        do { h1 \<leftarrow> assign replacement (\<lambda>n. n\<lparr>n_string := cJSON_strdup dup name\<rparr>) h;
             if cJSON_strdup dup name = None then Some (False, h1)
             else
               do { h2 \<leftarrow> assign replacement (\<lambda>n. n\<lparr>n_const := False\<rparr>) h1;
                    item \<leftarrow> get_object_item object name case_sensitive h2;
                    cJSON_ReplaceItemViaPointer object item replacement h2 } })"

definition cJSON_ReplaceItemInObject :: "ptr \<Rightarrow> string option \<Rightarrow> ptr \<Rightarrow> bool \<Rightarrow> jheap \<Rightarrow> (bool \<times> jheap) option" where
  "cJSON_ReplaceItemInObject object name newitem = replace_item_in_object object name newitem False"

definition cJSON_ReplaceItemInObjectCaseSensitive ::
  "ptr \<Rightarrow> string option \<Rightarrow> ptr \<Rightarrow> bool \<Rightarrow> jheap \<Rightarrow> (bool \<times> jheap) option" where
  "cJSON_ReplaceItemInObjectCaseSensitive object name newitem = replace_item_in_object object name newitem True"

end
