(* ===== verification/Cjson_Chains.thy ===== *)
theory Cjson_Chains
  imports Cjson_Heap
begin

text \<open>
  The list of the items of an array in memory: each points to the next, and backwards, where the first points to
  the last. The operations of \<open>Cjson_Heap\<close> on it are list operations on the addresses.
\<close>

fun first :: "nat list \<Rightarrow> ptr \<Rightarrow> ptr" where
  "first [] q = q"
| "first (a # as) q = Some a"

lemma first_append [simp]: "first (as @ bs) q = first as (first bs q)"
  by (cases as) auto

text \<open>A part of the list between the item \<open>p\<close> before it and the pointer \<open>q\<close> behind it.\<close>

fun seg :: "jheap \<Rightarrow> nat \<Rightarrow> nat list \<Rightarrow> ptr \<Rightarrow> bool" where
  "seg h p [] q \<longleftrightarrow> True"
| "seg h p (a # as) q \<longleftrightarrow>
     (\<exists>n. h a = Some n \<and> n_prev n = Some p \<and> n_next n = first as q) \<and> seg h a as q"

definition chain :: "jheap \<Rightarrow> nat list \<Rightarrow> bool" where
  "chain h as \<longleftrightarrow> seg h (last as) as None"

lemma chain_Nil [simp]: "chain h []"
  by (simp add: chain_def)

lemma seg_append: "seg h p (as @ bs) q \<longleftrightarrow> seg h p as (first bs q) \<and> seg h (last (p # as)) bs q"
  by (induction as arbitrary: p) auto

lemma chain_append:
  "xs \<noteq> [] \<Longrightarrow> zs \<noteq> [] \<Longrightarrow> chain h (xs @ zs) \<longleftrightarrow> seg h (last zs) xs (first zs None) \<and> seg h (last xs) zs None"
  by (cases zs) (auto simp: chain_def seg_append)

lemma seg_other [simp]: "a \<notin> set as \<Longrightarrow> seg (h(a := x)) p as q = seg h p as q"
  by (induction as arbitrary: p) auto

lemma seg_cong: "(\<And>a. a \<in> set as \<Longrightarrow> h' a = h a) \<Longrightarrow> seg h' p as q = seg h p as q"
  by (induction as arbitrary: p) auto

lemma seg_cell: "seg h p as q \<Longrightarrow> a \<in> set as \<Longrightarrow> \<exists>n. h a = Some n"
  by (induction as arbitrary: p) auto

lemma seg_head:
  "seg h p (a # as) q \<Longrightarrow> a \<notin> set as \<Longrightarrow> h a = Some n \<Longrightarrow> seg (h(a \<mapsto> n\<lparr>n_prev := Some p'\<rparr>)) p' (a # as) q"
  by auto

lemma seg_last:
  "seg h p (as @ [a]) q \<Longrightarrow> a \<notin> set as \<Longrightarrow> h a = Some n \<Longrightarrow> seg (h(a \<mapsto> n\<lparr>n_next := q'\<rparr>)) p (as @ [a]) q'"
  by (auto simp: seg_append)

subsection \<open>What an operation leaves alone\<close>

definition unlinked :: "node \<Rightarrow> node" where
  "unlinked n = n\<lparr>n_next := None, n_prev := None\<rparr>"

lemma unlinked_simps [simp]:
  "unlinked (n\<lparr>n_next := p\<rparr>) = unlinked n" "unlinked (n\<lparr>n_prev := p\<rparr>) = unlinked n"
  by (simp_all add: unlinked_def)

text \<open>Apart from the container \<open>a\<close>, only the links of the items in \<open>S\<close> differ.\<close>

definition relink :: "nat \<Rightarrow> nat set \<Rightarrow> jheap \<Rightarrow> jheap \<Rightarrow> bool" where
  "relink a S h h' \<longleftrightarrow> (\<forall>b. b \<notin> insert a S \<longrightarrow> h' b = h b) \<and>
     (\<forall>b. b \<noteq> a \<longrightarrow> map_option unlinked (h' b) = map_option unlinked (h b))"

lemma relink_refl: "relink a S h h"
  by (simp add: relink_def)

lemma relink_item:
  "relink a S h h' \<Longrightarrow> h' b = Some n \<Longrightarrow> b \<in> S \<Longrightarrow> unlinked n' = unlinked n \<Longrightarrow> relink a S h (h'(b \<mapsto> n'))"
  unfolding relink_def by (metis fun_upd_apply insertCI option.map(2))

lemma relink_container: "relink a S h h' \<Longrightarrow> relink a S h (h'(a := x))"
  by (simp add: relink_def)

lemma relink_trans: "relink a S h h' \<Longrightarrow> relink a T h' h'' \<Longrightarrow> relink a (S \<union> T) h h''"
  by (simp add: relink_def)

lemma relink_dom: "relink a S h h' \<Longrightarrow> b \<noteq> a \<Longrightarrow> h' b = None \<longleftrightarrow> h b = None"
  unfolding relink_def by (metis option.map_disc_iff)

lemmas relinks = relink_refl relink_item relink_container

lemma same_child [simp]: "n\<lparr>n_child := n_child n\<rparr> = n"
  by (cases n) simp

subsection \<open>The operations\<close>

lemma add_chain:
  assumes a: "h a = Some n" "n_child n = first as None" and c: "chain h as"
    and x: "h x = Some m" "n_next m = None" and d: "distinct (a # x # as)"
  shows "\<exists>h'. add_item_to_array (Some a) (Some x) h = Some (True, h') \<and>
    h' a = Some (n\<lparr>n_child := first (as @ [x]) None\<rparr>) \<and> chain h' (as @ [x]) \<and> relink a (insert x (set as)) h h'"
proof (cases as rule: rev_cases)
  case Nil
  have "relink a {x} h (h(a \<mapsto> n\<lparr>n_child := Some x\<rparr>, x \<mapsto> m\<lparr>n_prev := Some x, n_next := None\<rparr>))"
    using x d by (intro relink_item [where n = m] relinks) auto
  then show ?thesis using a x d Nil by (auto simp: add_item_to_array_def chain_def)
next
  case (snoc bs l)
  obtain f fs where f: "as = f # fs" using snoc by (metis list.exhaust append_is_Nil_conv not_Cons_self2)
  have s: "seg h l as None" using c by (simp add: chain_def snoc)
  have ne: "a \<noteq> l" "x \<noteq> l" using d by (auto simp: snoc)
  obtain nl where nl: "h l = Some nl" using seg_cell [OF s, of l] by (auto simp: snoc)
  obtain nf where nf: "h f = Some nf" "n_prev nf = Some l" using s by (auto simp: f)
  define h1 where "h1 = h(l \<mapsto> nl\<lparr>n_next := Some x\<rparr>)"
  define h2 where "h2 = h1(x \<mapsto> m\<lparr>n_prev := Some l\<rparr>)"
  have "seg h1 l as (Some x)" using seg_last [OF s [unfolded snoc] _ nl] d by (simp add: snoc h1_def)
  then have s2: "seg h2 l (as @ [x]) None" using x d by (auto simp: seg_append snoc h2_def)
  obtain nf2 where nf2: "h2 f = Some nf2" using seg_cell [OF s2, of f] by (auto simp: f)
  define h3 where "h3 = h2(f \<mapsto> nf2\<lparr>n_prev := Some x\<rparr>)"
  have "seg h3 x (f # fs @ [x]) None" unfolding h3_def by (rule seg_head [where n = nf2]) (use s2 d nf2 in \<open>auto simp: f\<close>)
  then have "chain h3 (as @ [x])" by (simp add: chain_def f)
  moreover have "relink a (insert x (set as)) h h1" unfolding h1_def by (rule relink_item [where n = nl]) (use nl in \<open>auto simp: snoc relink_refl\<close>)
  then have "relink a (insert x (set as)) h h2" unfolding h2_def
    by (rule relink_item [where n = m]) (use x d in \<open>auto simp: h1_def snoc\<close>)
  then have "relink a (insert x (set as)) h h3" unfolding h3_def by (rule relink_item [where n = nf2]) (use nf2 in \<open>auto simp: f\<close>)
  moreover have "add_item_to_array (Some a) (Some x) h = Some (True, h3)"
  proof -
    have "l \<in> set as" by (simp add: snoc)
    moreover have "first as None = Some f" "f \<in> set as" by (simp_all add: f)
    ultimately show ?thesis using a nf nl x d nf2
      by (auto simp: add_item_to_array_def suffix_object_def h1_def h2_def h3_def)
  qed
  moreover have "h3 a = Some (n\<lparr>n_child := first (as @ [x]) None\<rparr>)" using a d ne by (auto simp: f h1_def h2_def h3_def)
  ultimately show ?thesis by blast
qed

lemma detach_chain:
  assumes a: "h a = Some n" "n_child n = first as None" and c: "chain h as"
    and as: "as = xs @ x # ys" and d: "distinct (a # as)"
  shows "\<exists>h' m. cJSON_DetachItemViaPointer (Some a) (Some x) h = Some (Some x, h') \<and> h x = Some m \<and>
    h' x = Some (m\<lparr>n_prev := None, n_next := None\<rparr>) \<and> h' a = Some (n\<lparr>n_child := first (xs @ ys) None\<rparr>) \<and>
    chain h' (xs @ ys) \<and> relink a (set as) h h'"
proof (cases xs rule: rev_cases)
  case Nil
  then obtain m where m: "h x = Some m" "n_prev m = Some (last (x # ys))" "n_next m = first ys None"
    and s: "seg h x ys None" using c by (auto simp: chain_def as)
  show ?thesis
  proof (cases ys)
    case Nil': Nil
    show ?thesis using a m d Nil Nil'
      by (auto simp: cJSON_DetachItemViaPointer_def as relink_def)
  next
    case (Cons y zs)
    then obtain k where k: "h y = Some k" using s by auto
    define h1 where "h1 = h(y \<mapsto> k\<lparr>n_prev := Some (last ys)\<rparr>)"
    define h2 where "h2 = h1(a \<mapsto> n\<lparr>n_child := Some y\<rparr>, x \<mapsto> m\<lparr>n_prev := None, n_next := None\<rparr>)"
    have "seg h1 (last ys) ys None" unfolding h1_def Cons
      by (rule seg_head [where n = k]) (use s d k in \<open>auto simp: as Cons\<close>)
    then have "chain h2 ys" using d by (auto simp: chain_def h2_def as)
    moreover have "relink a (set as) h h1" unfolding h1_def by (rule relink_item [where n = k]) (use k in \<open>auto simp: as Cons relink_refl\<close>)
    then have "relink a (set as) h h2" unfolding h2_def
      by (intro relink_item [where n = m] relink_container) (use m d in \<open>auto simp: h1_def as Cons\<close>)
    moreover have "cJSON_DetachItemViaPointer (Some a) (Some x) h = Some (Some x, h2)"
      using a m k d Nil Cons by (auto simp: cJSON_DetachItemViaPointer_def as h1_def h2_def)
    ultimately show ?thesis using m a d by (auto simp: h2_def as Nil Cons)
  qed
next
  case (snoc us u)
  from c have s: "seg h (last as) xs (Some x)" and m': "seg h u (x # ys) None"
    by (auto simp: chain_def as seg_append snoc)
  then obtain m where m: "h x = Some m" "n_prev m = Some u" "n_next m = first ys None" and sy: "seg h x ys None" by auto
  obtain ku where ku: "h u = Some ku" using seg_cell [OF s, of u] by (auto simp: snoc)
  define h1 where "h1 = h(u \<mapsto> ku\<lparr>n_next := first ys None\<rparr>)"
  have s1: "seg h1 (last as) xs (first ys None)" using seg_last [OF s [unfolded snoc] _ ku] d by (simp add: snoc as h1_def)
  have r1: "relink a (set as) h h1" unfolding h1_def by (rule relink_item [where n = ku]) (use ku in \<open>auto simp: as snoc relink_refl\<close>)
  have ne: "u \<noteq> x" "u \<noteq> a" "u \<notin> set ys" using d by (auto simp: as snoc)
  obtain f fs where f: "xs = f # fs" using snoc by (metis list.exhaust append_is_Nil_conv not_Cons_self2)
  show ?thesis
  proof (cases ys)
    case Nil
    obtain kf where kf: "h1 f = Some kf" using s1 by (auto simp: f)
    define h2 where "h2 = h1(f \<mapsto> kf\<lparr>n_prev := Some u\<rparr>)"
    define h3 where "h3 = h2(x \<mapsto> m\<lparr>n_prev := None, n_next := None\<rparr>)"
    have "seg h2 u (f # fs) None" unfolding h2_def
      by (rule seg_head [where n = kf]) (use s1 d kf in \<open>auto simp: f as Nil\<close>)
    then have "seg h3 u xs None" using d unfolding h3_def f by (subst seg_other) (auto simp: as f)
    then have "chain h3 xs" by (simp add: chain_def snoc)
    moreover have "relink a (set as) h h2" unfolding h2_def by (rule relink_item [where n = kf]) (use kf r1 in \<open>auto simp: as f\<close>)
    then have "relink a (set as) h h3" unfolding h3_def
      by (rule relink_item [where n = m]) (use m d ne in \<open>auto simp: h1_def h2_def as f snoc\<close>)
    moreover have "cJSON_DetachItemViaPointer (Some a) (Some x) h = Some (Some x, h3)"
      using a m ku kf d ne by (auto simp: cJSON_DetachItemViaPointer_def as h1_def h2_def h3_def f Nil)
    moreover have "h3 a = Some (n\<lparr>n_child := first xs None\<rparr>)" using a d ne by (auto simp: h1_def h2_def h3_def as f snoc)
    ultimately show ?thesis using m by (auto simp: h3_def as Nil)
  next
    case (Cons y zs)
    have "y \<noteq> u" using ne by (auto simp: Cons)
    then obtain k where k: "h1 y = Some k" using sy by (auto simp: Cons h1_def)
    define h2 where "h2 = h1(y \<mapsto> k\<lparr>n_prev := Some u\<rparr>)"
    define h3 where "h3 = h2(x \<mapsto> m\<lparr>n_prev := None, n_next := None\<rparr>)"
    have "seg h1 x ys None" using sy d by (auto simp: h1_def as snoc)
    then have "seg h2 u ys None" unfolding h2_def Cons by (intro seg_head [where n = k]) (use d k in \<open>auto simp: as Cons\<close>)
    moreover have "seg h2 (last ys) xs (first ys None)" using s1 d by (auto simp: h2_def as Cons)
    ultimately have "seg h3 (last ys) (xs @ ys) None" using d by (auto simp: seg_append snoc h3_def as)
    then have "chain h3 (xs @ ys)" by (simp add: chain_def Cons)
    moreover have "relink a (set as) h h2" unfolding h2_def by (rule relink_item [where n = k]) (use k r1 in \<open>auto simp: as Cons\<close>)
    then have "relink a (set as) h h3" unfolding h3_def
      by (rule relink_item [where n = m]) (use m d ne in \<open>auto simp: h1_def h2_def as snoc Cons\<close>)
    moreover have "cJSON_DetachItemViaPointer (Some a) (Some x) h = Some (Some x, h3)"
      using a m ku k d ne by (auto simp: cJSON_DetachItemViaPointer_def as h1_def h2_def h3_def f snoc Cons)
    moreover have "h3 a = Some (n\<lparr>n_child := first (xs @ ys) None\<rparr>)" using a d ne by (auto simp: h1_def h2_def h3_def as snoc Cons)
    ultimately show ?thesis using m by (auto simp: h3_def)
  qed
qed

lemma insert_chain:
  assumes a: "h a = Some n" "n_child n = first as None" and c: "chain h as" and as: "as = xs @ y # ys"
    and i: "get_array_item (Some a) i h = Some (Some y)" and x: "h x = Some m" and d: "distinct (a # x # as)"
  shows "\<exists>h'. cJSON_InsertItemInArray (Some a) (int i) (Some x) h = Some (True, h') \<and>
    h' a = Some (n\<lparr>n_child := first (xs @ x # y # ys) None\<rparr>) \<and> chain h' (xs @ x # y # ys) \<and>
    relink a (insert x (set as)) h h'"
proof -
  define p where "p = (if xs = [] then last as else last xs)"
  have s: "seg h (last as) xs (Some y)" "seg h y ys None"
    and y': "\<exists>k. h y = Some k \<and> n_prev k = Some p \<and> n_next k = first ys None"
    using c by (auto simp: chain_def as seg_append p_def)
  then obtain k where k: "h y = Some k" "n_prev k = Some p" "n_next k = first ys None" by blast
  have ne: "x \<noteq> y" "a \<noteq> y" "a \<noteq> x" "x \<notin> set xs" "x \<notin> set ys" "y \<notin> set xs" "y \<notin> set ys" "a \<notin> set xs" "a \<notin> set ys"
    "set xs \<inter> set ys = {}" "distinct xs" using d by (auto simp: as)
  define h1 where "h1 = h(x \<mapsto> m\<lparr>n_next := Some y, n_prev := Some p\<rparr>)"
  define h2 where "h2 = h1(y \<mapsto> k\<lparr>n_prev := Some x\<rparr>)"
  have tail: "seg h2 p (x # y # ys) None" using s(2) k ne by (auto simp: h2_def h1_def)
  have "relink a (insert x (set as)) h h1" unfolding h1_def
    by (rule relink_item [where n = m]) (use x in \<open>auto simp: relink_refl unlinked_def\<close>)
  then have r2: "relink a (insert x (set as)) h h2" unfolding h2_def
    by (rule relink_item [where n = k]) (use k ne in \<open>auto simp: h1_def as\<close>)
  show ?thesis
  proof (cases xs rule: rev_cases)
    case Nil
    define h3 where "h3 = h2(a \<mapsto> n\<lparr>n_child := Some x\<rparr>)"
    have "chain h3 (x # y # ys)" using tail ne by (simp add: chain_def h3_def p_def Nil as)
    moreover have "cJSON_InsertItemInArray (Some a) (int i) (Some x) h = Some (True, h3)"
      using a k x i ne by (auto simp: cJSON_InsertItemInArray_def h3_def h2_def h1_def as Nil)
    ultimately show ?thesis using relink_container [OF r2] by (auto simp: h3_def Nil)
  next
    case (snoc us u)
    have u: "u \<noteq> x" "u \<noteq> y" "u \<noteq> a" "u \<notin> set us" "u \<notin> set ys" "p = u" "u \<in> set as"
      using ne by (auto simp: snoc p_def as)
    obtain ku where ku: "h u = Some ku" using seg_cell [OF s(1), of u] by (auto simp: snoc)
    define h3 where "h3 = h2(u \<mapsto> ku\<lparr>n_next := Some x\<rparr>)"
    have "seg h2 (last as) xs (Some y)" using s(1) ne by (simp add: h2_def h1_def)
    moreover have ku2: "h2 u = Some ku" using ku u by (simp add: h2_def h1_def)
    ultimately have "seg h3 (last as) xs (Some x)"
      unfolding h3_def snoc by (intro seg_last) (use u in auto)
    moreover have "seg h3 u (x # y # ys) None" using tail u unfolding h3_def by (subst seg_other) auto
    ultimately have "chain h3 (xs @ x # y # ys)"
      using chain_append [of xs "x # y # ys" h3] by (simp add: as snoc del: seg.simps)
    moreover have "relink a (insert x (set as)) h h3" unfolding h3_def
      by (rule relink_item [where n = ku]) (use r2 ku2 u in auto)
    moreover have "first xs None \<noteq> Some y" "first xs None = first as None"
      using ne by (cases xs; auto simp: snoc as)+
    then have "cJSON_InsertItemInArray (Some a) (int i) (Some x) h = Some (True, h3)"
      using a k x i ne u ku2 by (auto simp: cJSON_InsertItemInArray_def h3_def h2_def h1_def)
    moreover have "first (xs @ x # y # ys) None = n_child n" using a(2) by (simp add: snoc as)
    then have "h3 a = Some (n\<lparr>n_child := first (xs @ x # y # ys) None\<rparr>)"
      using a(1) ne u by (simp add: h3_def h2_def h1_def)
    ultimately show ?thesis by blast
  qed
qed

text \<open>The old item \<open>x\<close> is out of the list and unlinked before it is deleted.\<close>

lemma replace_chain:
  assumes a: "h a = Some n" "n_child n = first as None" and c: "chain h as" and as: "as = xs @ x # ys"
    and r: "h r = Some k" and d: "distinct (a # r # as)"
  shows "\<exists>h' m. h x = Some m \<and> h' x = Some (m\<lparr>n_next := None, n_prev := None\<rparr>) \<and>
    cJSON_ReplaceItemViaPointer (Some a) (Some x) (Some r) h =
      Option.bind (cJSON_Delete (Some x) h') (\<lambda>h5. Some (True, h5)) \<and>
    h' a = Some (n\<lparr>n_child := first (xs @ r # ys) None\<rparr>) \<and> chain h' (xs @ r # ys) \<and>
    relink a (insert r (set as)) h h'"
proof -
  define p where "p = (if xs = [] then last as else last xs)"
  have s: "seg h (last as) xs (Some x)" "seg h x ys None"
    and "\<exists>m. h x = Some m \<and> n_prev m = Some p \<and> n_next m = first ys None"
    using c by (auto simp: chain_def as seg_append p_def)
  then obtain m where m: "h x = Some m" "n_prev m = Some p" "n_next m = first ys None" by blast
  have ne: "r \<noteq> x" "a \<noteq> x" "a \<noteq> r" "r \<notin> set xs" "r \<notin> set ys" "x \<notin> set xs" "x \<notin> set ys" "a \<notin> set xs" "a \<notin> set ys"
    "set xs \<inter> set ys = {}" "distinct xs" "distinct ys" using d by (auto simp: as)
  define h1 where "h1 = h(r \<mapsto> k\<lparr>n_next := first ys None, n_prev := Some p\<rparr>)"
  have r1: "relink a (insert r (set as)) h h1" unfolding h1_def
    by (rule relink_item [where n = k]) (use r in \<open>auto simp: relink_refl unlinked_def\<close>)
  have s1: "seg h1 (last as) xs (Some x)" "seg h1 x ys None" "h1 x = Some m" "h1 a = Some n" "h1 r = Some (k\<lparr>n_next := first ys None, n_prev := Some p\<rparr>)"
    using s ne m a by (auto simp: h1_def)
  obtain h2 where h2: "(if first ys None \<noteq> None then assign (first ys None) (\<lambda>n. n\<lparr>n_prev := Some r\<rparr>) h1 else Some h1) = Some h2"
    and t2: "seg h2 r ys None" and o2: "\<And>b. b \<notin> set ys \<Longrightarrow> h2 b = h1 b" and r2: "relink a (insert r (set as)) h h2"
  proof (cases ys)
    case Nil
    then show ?thesis using that [of h1] r1 by simp
  next
    case (Cons y zs)
    obtain ky where ky: "h1 y = Some ky" using s1(2) by (auto simp: Cons)
    have "seg (h1(y \<mapsto> ky\<lparr>n_prev := Some r\<rparr>)) r ys None"
      unfolding Cons by (rule seg_head) (use s1(2) ky ne in \<open>auto simp: Cons\<close>)
    moreover have "relink a (insert r (set as)) h (h1(y \<mapsto> ky\<lparr>n_prev := Some r\<rparr>))"
      by (rule relink_item [where n = ky]) (use r1 ky in \<open>auto simp: as Cons\<close>)
    ultimately show ?thesis using that [of "h1(y \<mapsto> ky\<lparr>n_prev := Some r\<rparr>)"] ky by (simp add: Cons)
  qed
  have k2: "h2 r = Some (k\<lparr>n_next := first ys None, n_prev := Some p\<rparr>)" "h2 x = Some m" "h2 a = Some n"
    "seg h2 (last as) xs (Some x)" using o2 ne s1 seg_cong [of xs h2 h1 "last as" "Some x"] by auto
  define step where "step =
     (if n_child n = Some x then
        do { c \<leftarrow> cell (n_child n) h2;
             g \<leftarrow> (if n_prev c = n_child n then assign (Some r) (\<lambda>n. n\<lparr>n_prev := Some r\<rparr>) h2 else Some h2);
             assign (Some a) (\<lambda>n. n\<lparr>n_child := Some r\<rparr>) g }
      else
        do { r2 \<leftarrow> cell (Some r) h2;
             g \<leftarrow> (if n_prev r2 \<noteq> None then assign (n_prev r2) (\<lambda>n. n\<lparr>n_next := Some r\<rparr>) h2 else Some h2);
             r3 \<leftarrow> cell (Some r) g;
             if n_next r3 = None
             then do { p3 \<leftarrow> cell (Some a) g; assign (n_child p3) (\<lambda>n. n\<lparr>n_prev := Some r\<rparr>) g }
             else Some g })"
  have "\<exists>g. step = Some g \<and> g x = Some m \<and> g a = Some (n\<lparr>n_child := first (xs @ r # ys) None\<rparr>) \<and> chain g (xs @ r # ys) \<and>
      relink a (insert r (set as)) h g"
  proof (cases xs rule: rev_cases)
    case Nil
    have p: "p = (if ys = [] then x else last ys)" by (simp add: p_def Nil as)
    show ?thesis
    proof (cases ys)
      case ys: Nil
      define g where "g = h2(r \<mapsto> k\<lparr>n_next := None, n_prev := Some r\<rparr>)"
      have "relink a (insert r (set as)) h g" unfolding g_def
        by (rule relink_item [OF r2 k2(1)]) (simp_all add: unlinked_def)
      then show ?thesis
        using k2 a m ne p by (auto simp: step_def Nil ys as g_def chain_def intro!: relink_container)
    next
      case (Cons y zs)
      have "p \<noteq> x" using p ne by (auto simp: Cons)
      moreover have "seg h2 (last ys) (r # ys) None" using k2(1) t2 p by (simp add: Cons)
      then have "chain h2 (r # ys)" by (simp add: chain_def Cons)
      moreover have "chain (h2(a := z)) (r # ys) = chain h2 (r # ys)" for z
        unfolding chain_def by (rule seg_other) (use ne in auto)
      ultimately show ?thesis
        using k2 a m ne r2 by (auto simp: step_def Nil as intro!: relink_container)
    qed
  next
    case (snoc us u)
    have u: "u \<noteq> r" "u \<noteq> x" "u \<noteq> a" "u \<notin> set us" "u \<notin> set ys" "p = u" "u \<in> set as"
      using ne by (auto simp: snoc p_def as)
    have f: "first (xs @ r # ys) None = n_child n" "n_child n \<noteq> Some x"
      using a(2) ne by (simp add: snoc as) (use a(2) ne in \<open>cases us; auto simp: snoc as\<close>)
    obtain ku where ku: "h2 u = Some ku" using seg_cell [OF k2(4), of u] by (auto simp: snoc)
    define g where "g = h2(u \<mapsto> ku\<lparr>n_next := Some r\<rparr>)"
    have sg: "seg g (last as) xs (Some r)" unfolding g_def snoc by (rule seg_last) (use k2(4) u ku in \<open>auto simp: snoc\<close>)
    have tg: "seg g u (r # ys) None" using t2 k2(1) u by (simp add: g_def)
    have rg: "relink a (insert r (set as)) h g" unfolding g_def
      by (rule relink_item [OF r2 ku]) (use u in auto)
    show ?thesis
    proof (cases ys)
      case Nil
      obtain w ws where w: "xs = w # ws" using snoc by (metis list.exhaust append_is_Nil_conv not_Cons_self2)
      obtain kw where kw: "g w = Some kw" using sg by (auto simp: w)
      define g2 where "g2 = g(w \<mapsto> kw\<lparr>n_prev := Some r\<rparr>)"
      have "seg g2 r xs (Some r)" unfolding g2_def w by (rule seg_head) (use sg kw ne in \<open>auto simp: w\<close>)
      moreover have "last xs = u" by (simp add: snoc)
      moreover have "seg g2 u [r] None" using tg ne by (simp add: Nil g2_def w)
      ultimately have "chain g2 (xs @ [r])" using chain_append [of xs "[r]" g2] by (simp add: w)
      moreover have "relink a (insert r (set as)) h g2" unfolding g2_def
        by (rule relink_item [OF rg kw]) (auto simp: as w)
      moreover have "n_child n = Some w" using a(2) by (simp add: as w)
      ultimately show ?thesis
        using k2 a m ne u ku kw f by (auto simp: step_def Nil as g_def g2_def w)
    next
      case (Cons y zs)
      have "last (r # ys) = last as" "last xs = u" by (simp_all add: as Cons snoc)
      then have "chain g (xs @ r # ys)" using chain_append [of xs "r # ys" g] sg tg by (simp add: snoc)
      then show ?thesis
        using k2 a m ne u ku f rg by (auto simp: step_def Cons as g_def)
    qed
  qed
  then obtain g where g: "step = Some g" "g x = Some m" "g a = Some (n\<lparr>n_child := first (xs @ r # ys) None\<rparr>)"
    "chain g (xs @ r # ys)" "relink a (insert r (set as)) h g" by blast
  define h' where "h' = g(x \<mapsto> m\<lparr>n_next := None, n_prev := None\<rparr>)"
  have "chain h' (xs @ r # ys)" using g(4) ne unfolding chain_def h'_def by (subst seg_other) auto
  moreover have "relink a (insert r (set as)) h h'" unfolding h'_def
    by (rule relink_item [OF g(5,2)]) (simp_all add: as unlinked_def)
  moreover have "h' a = Some (n\<lparr>n_child := first (xs @ r # ys) None\<rparr>)" using g(3) ne by (simp add: h'_def)
  moreover have "cJSON_ReplaceItemViaPointer (Some a) (Some x) (Some r) h =
      Option.bind step (\<lambda>h3. Option.bind (assign (Some x) (\<lambda>n. n\<lparr>n_next := None, n_prev := None\<rparr>) h3)
        (\<lambda>h4. Option.bind (cJSON_Delete (Some x) h4) (\<lambda>h5. Some (True, h5))))"
  proof -
    have c: "(n_child n = None) = False" "(Some a = None) = False" "(Some r = None) = False" "(Some x = None) = False"
      "(Some r = Some x) = False" using a(2) ne by (cases xs; auto simp: as)+
    have l: "assign (Some r) (\<lambda>n. n\<lparr>n_next := n_next m, n_prev := n_prev m\<rparr>) h = Some h1"
      using r m by (simp add: h1_def)
    have nx: "n_next (k\<lparr>n_next := first ys None, n_prev := Some p\<rparr>) = first ys None" by simp
    show ?thesis
      unfolding cJSON_ReplaceItemViaPointer_def step_def
      by (simp only: cell_Some a(1) bind.bind_lunit c simp_thms if_False m(1) l s1(5) nx h2 k2(3))
  qed
  then have "cJSON_ReplaceItemViaPointer (Some a) (Some x) (Some r) h =
      Option.bind (cJSON_Delete (Some x) h') (\<lambda>h5. Some (True, h5))"
    by (simp add: g(1,2) h'_def)
  moreover have "h' x = Some (m\<lparr>n_next := None, n_prev := None\<rparr>)" by (simp add: h'_def)
  ultimately show ?thesis using m(1) by blast
qed

end
