(* ===== verification/Cjson_Trees.thy ===== *)
theory Cjson_Trees
  imports Cjson_Chains
begin

text \<open>
  Documents in memory. A shape says at which addresses the items of a document lie; \<open>laid\<close> holds when
  the links of the heap agree with it, and \<open>json_at\<close> reads the value of \<open>Cjson\<close> off the cells. The operations of
  \<open>Cjson_Heap\<close> act on shapes, and what they take out they free completely.
\<close>

datatype shape = At (place: nat) (kids: "shape list")

fun places :: "shape \<Rightarrow> nat list" where
  "places (At a ts) = a # concat (map places ts)"

text \<open>Members of an object have names.\<close>

fun laid :: "jheap \<Rightarrow> shape \<Rightarrow> bool" where
  "laid h (At a ts) \<longleftrightarrow>
     (\<exists>n. h a = Some n \<and> \<not> n_reference n \<and> n_child n = first (map place ts) None \<and>
        (n_kind n = cJSON_Object \<longrightarrow> (\<forall>t \<in> set ts. \<exists>m. h (place t) = Some m \<and> n_string m \<noteq> None))) \<and>
     chain h (map place ts) \<and> (\<forall>t \<in> set ts. laid h t)"

definition tree :: "jheap \<Rightarrow> shape \<Rightarrow> bool" where
  "tree h t \<longleftrightarrow> laid h t \<and> distinct (places t)"

definition or_empty :: "string option \<Rightarrow> string" where
  "or_empty s = (case s of None \<Rightarrow> [] | Some t \<Rightarrow> t)"

definition key_at :: "jheap \<Rightarrow> shape \<Rightarrow> string" where
  "key_at h t = (case h (place t) of None \<Rightarrow> [] | Some n \<Rightarrow> or_empty (n_string n))"

definition scalar :: "node \<Rightarrow> cjson" where
  "scalar n =
     (if n_kind n = cJSON_False then CFalse
      else if n_kind n = cJSON_True then CTrue
      else if n_kind n = cJSON_Number then CNumber (n_valuedouble n)
      else if n_kind n = cJSON_String then CString (or_empty (n_valuestring n))
      else CNull)"

fun json_at :: "jheap \<Rightarrow> shape \<Rightarrow> cjson" where
  "json_at h (At a ts) =
     (case h a of
        None \<Rightarrow> CNull
      | Some n \<Rightarrow>
          if n_kind n = cJSON_Array then CArray (map (json_at h) ts)
          else if n_kind n = cJSON_Object then CObject (map (\<lambda>t. (key_at h t, json_at h t)) ts)
          else scalar n)"

lemma place_in [simp]: "place t \<in> set (places t)"
  by (cases t) simp

lemma place_below [simp]: "t \<in> set ts \<Longrightarrow> place t \<in> set (concat (map places ts))"
  by (auto intro!: bexI [of _ t])

lemma kids_in: "t \<in> set ts \<Longrightarrow> set (places t) \<subseteq> set (places (At a ts))"
  by auto

lemma distinct_kid: "distinct (places (At a ts)) \<Longrightarrow> t \<in> set ts \<Longrightarrow> distinct (places t) \<and> a \<notin> set (places t)"
  by (induction ts) auto

lemma distinct_tops: "distinct (concat (map places ts)) \<Longrightarrow> distinct (map place ts)"
proof (induction ts)
  case (Cons t ts)
  have "place t \<notin> place ` set ts" using Cons.prems by auto (metis IntI UN_I empty_iff place_in)
  then show ?case using Cons by auto
qed simp

lemma laid_cong: "(\<And>b. b \<in> set (places t) \<Longrightarrow> h' b = h b) \<Longrightarrow> laid h' t = laid h t"
proof (induction t)
  case (At a ts)
  have "laid h' t = laid h t" if "t \<in> set ts" for t by (rule At.IH [OF that]) (use At.prems that in auto)
  moreover have "h' (place t) = h (place t)" if "t \<in> set ts" for t by (rule At.prems) (use that place_below [OF that] in simp)
  moreover have "chain h' (map place ts) = chain h (map place ts)"
    unfolding chain_def by (rule seg_cong) (use calculation in auto)
  ultimately show ?case using At.prems [of a] by auto
qed

lemma laid_dom: "laid h t \<Longrightarrow> set (places t) \<subseteq> dom h"
  by (induction t) auto

lemma key_cong: "h' (place t) = h (place t) \<Longrightarrow> key_at h' t = key_at h t"
  by (simp add: key_at_def)

lemma json_cong: "(\<And>b. b \<in> set (places t) \<Longrightarrow> h' b = h b) \<Longrightarrow> json_at h' t = json_at h t"
proof (induction t)
  case (At a ts)
  have "json_at h' t = json_at h t" if "t \<in> set ts" for t by (rule At.IH [OF that]) (use At.prems that in auto)
  moreover have "key_at h' t = key_at h t" if "t \<in> set ts" for t
    by (rule key_cong, rule At.prems) (use that place_below [OF that] in simp)
  ultimately have m: "map (json_at h') ts = map (json_at h) ts"
    "map (\<lambda>t. (key_at h' t, json_at h' t)) ts = map (\<lambda>t. (key_at h t, json_at h t)) ts" by auto
  have a: "h' a = h a" by (rule At.prems) simp
  show ?case unfolding json_at.simps m a by (rule refl)
qed

lemma unlinked_same:
  assumes "unlinked n = unlinked m"
  shows "n_child n = n_child m" "n_kind n = n_kind m" "n_reference n = n_reference m" "n_string n = n_string m"
    "scalar n = scalar m"
  using assms by (cases n; cases m; simp add: unlinked_def scalar_def)+

lemma relink_cell: "relink a S h h' \<Longrightarrow> b \<noteq> a \<Longrightarrow> h b = Some n \<Longrightarrow> \<exists>n'. h' b = Some n' \<and> unlinked n' = unlinked n"
  unfolding relink_def by (metis option.map(2) map_option_eq_Some)

lemma relink_key: "relink a S h h' \<Longrightarrow> place t \<noteq> a \<Longrightarrow> key_at h' t = key_at h t"
  using relink_dom [of a S h h' "place t"] relink_cell [of a S h h' "place t"]
  by (cases "h (place t)") (auto simp: key_at_def dest: unlinked_same)

lemma json_relink: "relink a S h h' \<Longrightarrow> a \<notin> set (places t) \<Longrightarrow> json_at h' t = json_at h t"
proof (induction t)
  case (At r ts)
  have "json_at h' t = json_at h t" "key_at h' t = key_at h t" if "t \<in> set ts" for t
    using At.IH [OF that At.prems(1)] relink_key [OF At.prems(1), of t] At.prems(2) that place_below [OF that]
    by auto
  then have m: "map (json_at h') ts = map (json_at h) ts"
    "map (\<lambda>t. (key_at h' t, json_at h' t)) ts = map (\<lambda>t. (key_at h t, json_at h t)) ts" by auto
  have r: "r \<noteq> a" using At.prems(2) by auto
  show ?case
  proof (cases "h r")
    case None
    then show ?thesis using relink_dom [OF At.prems(1) r] by simp
  next
    case (Some n)
    from relink_cell [OF At.prems(1) r Some] obtain n' where "h' r = Some n'" "unlinked n' = unlinked n" by blast
    then show ?thesis using Some m unlinked_same [of n' n] by simp
  qed
qed

text \<open>The links of an item and of its siblings do not matter for what lies below it.\<close>

lemma laid_relink:
  assumes r: "relink a S h h'" and l: "laid h t" and a: "a \<notin> set (places t)"
    and s: "S \<inter> set (concat (map places (kids t))) = {}"
  shows "laid h' t"
proof (cases t)
  case (At x ts)
  have same: "h' b = h b" if "b \<in> set (concat (map places ts))" for b
  proof -
    have "b \<noteq> a" "b \<notin> S" using s a that by (auto simp: At)
    then show ?thesis using r by (simp add: relink_def)
  qed
  from l obtain n where n: "h x = Some n" "\<not> n_reference n" "n_child n = first (map place ts) None"
    "n_kind n = cJSON_Object \<Longrightarrow> \<forall>t \<in> set ts. \<exists>m. h (place t) = Some m \<and> n_string m \<noteq> None"
    "chain h (map place ts)" "\<forall>t \<in> set ts. laid h t" by (auto simp: At)
  obtain n' where n': "h' x = Some n'" "unlinked n' = unlinked n" using relink_cell [OF r _ n(1)] a by (auto simp: At)
  have tops: "h' (place t) = h (place t)" if "t \<in> set ts" for t by (rule same [OF place_below [OF that]])
  have "chain h' (map place ts) = chain h (map place ts)"
    unfolding chain_def by (rule seg_cong) (use tops in auto)
  moreover have "laid h' t" if "t \<in> set ts" for t
  proof -
    have "laid h' t = laid h t" by (rule laid_cong, rule same) (use that in auto)
    then show ?thesis using n(6) that by blast
  qed
  ultimately show ?thesis using n n' unlinked_same [OF n'(2)] tops by (auto simp: At)
qed

subsection \<open>Freeing\<close>

fun row :: "jheap \<Rightarrow> nat list \<Rightarrow> bool" where
  "row h [] \<longleftrightarrow> True"
| "row h (a # as) \<longleftrightarrow> (\<exists>n. h a = Some n \<and> n_next n = first as None) \<and> row h as"

lemma seg_row: "seg h p as None \<Longrightarrow> row h as"
  by (induction as arbitrary: p) auto

lemma row_cong: "(\<And>a. a \<in> set as \<Longrightarrow> h' a = h a) \<Longrightarrow> row h' as = row h as"
  by (induction as) auto

text \<open>Deleting an item frees the cells of its document and of those behind it, each once.\<close>

lemma delete_forest:
  assumes "row h (map place ts)" and "\<forall>t \<in> set ts. laid h t" and "distinct (concat (map places ts))"
  shows "cJSON_Delete (first (map place ts) None) h = Some (h |` (- set (concat (map places ts))))"
  using assms
proof (induction "length (concat (map places ts))" arbitrary: h ts rule: less_induct)
  case less
  show ?case
  proof (cases ts)
    case Nil
    then show ?thesis by (simp add: cJSON_Delete.simps restrict_map_def)
  next
    case (Cons t us)
    obtain a ks where t: "t = At a ks" by (cases t)
    define K where "K = set (concat (map places ks))"
    define U where "U = set (concat (map places us))"
    define h1 where "h1 = h |` (- K)"
    define h2 where "h2 = h1(a := None)"
    from less.prems obtain n where n: "h a = Some n" "n_next n = first (map place us) None"
      "\<not> n_reference n" "n_child n = first (map place ks) None" and c: "row h (map place ks)" "\<forall>k \<in> set ks. laid h k"
      and s: "row h (map place us)" by (auto simp: Cons t chain_def dest: seg_row)
    have d: "distinct (concat (map places ks))" "distinct (concat (map places us))" "a \<notin> K" "a \<notin> U" "K \<inter> U = {}"
      using less.prems(3) by (auto simp: Cons t K_def U_def)
    have "cJSON_Delete (first (map place ks) None) h = Some h1"
      unfolding h1_def K_def by (rule less.hyps [OF _ c d(1)]) (simp add: Cons t)
    moreover have "h1 = h" if "n_child n = None" using that n(4) by (cases ks) (auto simp: h1_def K_def restrict_map_def)
    ultimately have below: "(if \<not> n_reference n \<and> n_child n \<noteq> None then cJSON_Delete (n_child n) h else Some h) = Some h1"
      using n(3,4) by auto
    have out: "h2 b = h b" if "b \<in> U" for b
      using that d(3-5) by (auto simp: h2_def h1_def restrict_map_def)
    have "row h2 (map place us) = row h (map place us)"
      by (rule row_cong, rule out) (use place_below in \<open>fastforce simp: U_def\<close>)
    moreover have "laid h2 u" if "u \<in> set us" for u
    proof -
      have "laid h2 u = laid h u" by (rule laid_cong, rule out) (use that in \<open>auto simp: U_def\<close>)
      then show ?thesis using less.prems(2) that by (simp add: Cons)
    qed
    ultimately have rest: "cJSON_Delete (first (map place us) None) h2 = Some (h2 |` (- U))"
      unfolding U_def by (intro less.hyps) (use s d in \<open>auto simp: Cons t\<close>)
    have "h2 |` (- U) = h |` (- set (concat (map places ts)))"
      by (rule ext) (auto simp: Cons t restrict_map_def h2_def h1_def K_def U_def)
    moreover have "h1 a = Some n" using n(1) d(3) by (simp add: h1_def)
    moreover have "first (map place ts) None = Some a" by (simp add: Cons t)
    ultimately show ?thesis
      using rest by (simp only: cJSON_Delete.simps [of "Some a" h] option.case n(1,2) below bind.bind_lunit h2_def)
  qed
qed

lemma delete_tree:
  assumes "tree h t" and "h (place t) = Some n" and "n_next n = None"
  shows "cJSON_Delete (Some (place t)) h = Some (h |` (- set (places t)))"
  using delete_forest [of h "[t]"] assms by (simp add: tree_def)

subsection \<open>Adding and taking out\<close>

lemma tops_above:
  assumes "distinct (concat (map places ts))" and "t \<in> set ts"
  shows "place ` set ts \<inter> set (concat (map places (kids t))) = {}"
  using assms
proof (induction ts)
  case (Cons x xs)
  define T where "T = set (concat (map places xs))"
  define B where "B = set (concat (map places (kids t)))"
  have tops: "place ` set xs \<subseteq> T" unfolding T_def using place_below by blast
  obtain a ks where x: "x = At a ks" by (cases x)
  have d: "a \<notin> T" "a \<notin> set (concat (map places ks))" "set (concat (map places ks)) \<inter> T = {}"
    using Cons.prems(1) by (auto simp: x T_def)
  show ?case
  proof (cases "t = x")
    case True
    then show ?thesis using tops d by (auto simp: x)
  next
    case False
    then have t: "t \<in> set xs" using Cons.prems(2) by simp
    have "B \<subseteq> set (places t)" unfolding B_def by (cases t) auto
    also have "\<dots> \<subseteq> T" unfolding T_def using t by auto
    finally have "a \<notin> B" using d(1) by blast
    moreover have "place ` set xs \<inter> B = {}" unfolding B_def using Cons.IH Cons.prems(1) t by simp
    ultimately show ?thesis by (simp add: x B_def)
  qed
qed simp

text \<open>A list of items after an operation is laid out when its chain is right.\<close>

lemma relaid:
  assumes r: "relink a (place ` set ts) h h'" and d: "distinct (places (At a ts))"
    and l: "\<forall>t \<in> set us. laid h t" and us: "set us \<subseteq> set ts" and du: "distinct (places (At a us))"
    and a: "h' a = Some n" "n_child n = first (map place us) None" "\<not> n_reference n"
    and names: "n_kind n = cJSON_Object \<Longrightarrow> \<forall>t \<in> set us. \<exists>m. h (place t) = Some m \<and> n_string m \<noteq> None"
    and c: "chain h' (map place us)"
  shows "tree h' (At a us)" and "\<And>t. t \<in> set us \<Longrightarrow> json_at h' t = json_at h t \<and> key_at h' t = key_at h t"
proof -
  have out: "a \<notin> set (places t)" "place t \<noteq> a" if "t \<in> set us" for t
    using distinct_kid [OF du that] place_in [of t] by auto
  show "json_at h' t = json_at h t \<and> key_at h' t = key_at h t" if "t \<in> set us" for t
    using json_relink [OF r out(1) [OF that]] relink_key [OF r out(2) [OF that]] by blast
  have "laid h' t" if "t \<in> set us" for t
    by (rule laid_relink [OF r _ out(1) [OF that] tops_above]) (use l us d that in auto)
  moreover have "\<exists>m. h' (place t) = Some m \<and> n_string m \<noteq> None" if "n_kind n = cJSON_Object" "t \<in> set us" for t
    using names [OF that(1)] that(2) relink_cell [OF r out(2) [OF that(2)]] unlinked_same(4) by metis
  ultimately show "tree h' (At a us)" using a c du by (auto simp: tree_def)
qed

lemma treeD:
  assumes "tree h (At a ts)" "h a = Some n"
  shows "n_child n = first (map place ts) None" "\<not> n_reference n" "chain h (map place ts)" "\<forall>t \<in> set ts. laid h t"
    "distinct (a # map place ts)" "n_kind n = cJSON_Object \<Longrightarrow> \<forall>t \<in> set ts. \<exists>m. h (place t) = Some m \<and> n_string m \<noteq> None"
  using assms distinct_tops [of ts] by (auto simp: tree_def dest: place_below)

lemma add_tree:
  assumes t: "tree h (At a ts)" "h a = Some n" and u: "tree h u" "h (place u) = Some m" "n_next m = None"
    and d: "set (places u) \<inter> set (places (At a ts)) = {}" and named: "n_kind n = cJSON_Object \<Longrightarrow> n_string m \<noteq> None"
  obtains h' where "add_item_to_array (Some a) (Some (place u)) h = Some (True, h')" "tree h' (At a (ts @ [u]))"
    "relink a (place ` set (ts @ [u])) h h'" "h' a = Some (n\<lparr>n_child := first (map place (ts @ [u])) None\<rparr>)"
    "\<And>t. t \<in> set (ts @ [u]) \<Longrightarrow> json_at h' t = json_at h t \<and> key_at h' t = key_at h t"
proof -
  note tD = treeD [OF t]
  have du: "distinct (places (At a (ts @ [u])))" using t u d by (auto simp: tree_def)
  have "distinct (a # place u # map place ts)"
    using distinct_tops [of "ts @ [u]"] du place_in [of u] tD(5) by auto
  from add_chain [OF t(2) tD(1,3) u(2,3) this] obtain h' where
    h': "add_item_to_array (Some a) (Some (place u)) h = Some (True, h')"
    "h' a = Some (n\<lparr>n_child := first (map place ts @ [place u]) None\<rparr>)" "chain h' (map place ts @ [place u])"
    "relink a (insert (place u) (set (map place ts))) h h'" by blast
  have r: "relink a (place ` set (ts @ [u])) h h'" using h'(4) by simp
  note laid = relaid [OF r du _ subset_refl du h'(2)]
  have l: "\<forall>t \<in> set (ts @ [u]). laid h t" using tD(4) u(1) by (auto simp: tree_def)
  have n: "\<forall>t \<in> set (ts @ [u]). \<exists>m. h (place t) = Some m \<and> n_string m \<noteq> None" if "n_kind n = cJSON_Object"
    using tD(6) [OF that] named [OF that] u(2) by auto
  show thesis
    by (rule that [OF h'(1) _ r]) (use laid l n tD(2) h'(2,3) in \<open>simp_all add: Ball_def\<close>)
qed

lemma detach_tree:
  assumes t: "tree h (At a (xs @ u # ys))" "h a = Some n"
  obtains h' m where "cJSON_DetachItemViaPointer (Some a) (Some (place u)) h = Some (Some (place u), h')"
    "tree h' (At a (xs @ ys))" "tree h' u" "h' (place u) = Some m" "n_next m = None"
    "relink a (place ` set (xs @ u # ys)) h h'" "h' a = Some (n\<lparr>n_child := first (map place (xs @ ys)) None\<rparr>)"
    "\<And>t. t \<in> set (xs @ ys) \<Longrightarrow> json_at h' t = json_at h t \<and> key_at h' t = key_at h t"
proof -
  note tD = treeD [OF t]
  have d: "distinct (places (At a (xs @ u # ys)))" using t(1) by (simp add: tree_def)
  from detach_chain [OF t(2) tD(1,3), of "map place xs" "place u" "map place ys"] tD(5)
  obtain h' m where h': "cJSON_DetachItemViaPointer (Some a) (Some (place u)) h = Some (Some (place u), h')"
    "h' (place u) = Some (m\<lparr>n_prev := None, n_next := None\<rparr>)"
    "h' a = Some (n\<lparr>n_child := first (map place (xs @ ys)) None\<rparr>)" "chain h' (map place (xs @ ys))"
    "relink a (set (map place (xs @ u # ys))) h h'" by auto
  have r: "relink a (place ` set (xs @ u # ys)) h h'" using h'(5) by (simp only: set_map)
  have du: "distinct (places (At a (xs @ ys)))" using d by auto
  have s: "set (xs @ ys) \<subseteq> set (xs @ u # ys)" by auto
  have l: "\<forall>t \<in> set (xs @ ys). laid h t" using tD(4) by auto
  have n: "\<forall>t \<in> set (xs @ ys). \<exists>m. h (place t) = Some m \<and> n_string m \<noteq> None" if "n_kind n = cJSON_Object"
    using tD(6) [OF that] by auto
  note laid = relaid [OF r d l s du h'(3)]
  have "laid h' u"
    by (rule laid_relink [OF r _ _ tops_above]) (use tD(4) distinct_kid [OF d, of u] d in auto)
  then have "tree h' u" using distinct_kid [OF d, of u] by (simp add: tree_def)
  then show thesis
    by (intro that [OF h'(1) _ _ h'(2) _ r h'(3)]) (use laid n tD(2) h'(4) in simp_all)
qed

end
