(* ===== verification/Cjson_Edits.thy ===== *)
theory Cjson_Edits
  imports Cjson_Trees
begin

text \<open>
  The edits of a document in memory implement the edits of \<open>Cjson\<close>: what \<open>Rguard_Config\<close> does to a policy
  as a value is what the calls of \<open>src/common/cJSON.c\<close> do to its cells.
\<close>

subsection \<open>Look-ups\<close>

lemma walk_row:
  "row h (map place ts) \<Longrightarrow>
   walk_items h i (first (map place ts) None) = Some (if i < length ts then Some (place (ts ! i)) else None)"
proof (induction i arbitrary: ts)
  case 0
  show ?case by (cases ts) auto
next
  case (Suc i)
  show ?case
  proof (cases ts)
    case (Cons t us)
    then show ?thesis using Suc by auto
  qed simp
qed

lemma count_row: "row h as \<Longrightarrow> count_items h (first as None) k = Some (k + length as)"
  by (induction as arbitrary: k) (auto simp: count_items.simps [of _ None] count_items.simps [of _ "Some _"])

lemma tree_row: "tree h (At a ts) \<Longrightarrow> row h (map place ts)"
  by (auto simp: tree_def chain_def intro: seg_row)

lemma item_at:
  assumes "tree h (At a ts)"
  shows "get_array_item (Some a) i h = Some (if i < length ts then Some (place (ts ! i)) else None)"
  using assms walk_row [OF tree_row [OF assms]] by (auto simp: get_array_item_def tree_def)

theorem array_size_at:
  assumes "tree h (At a ts)" and "h a = Some n" and "n_kind n = cJSON_Array \<or> n_kind n = cJSON_Object"
  shows "map_option int (cJSON_GetArraySize_ptr (Some a) h) = Some (cJSON_GetArraySize (json_at h (At a ts)))"
  using assms treeD(1) [OF assms(1,2)] count_row [OF tree_row [OF assms(1)], of 0]
  by (auto simp: cJSON_GetArraySize_ptr_def cJSON_GetArraySize_def kinds)

lemma find_row:
  assumes "row h (map place ts)" and "\<forall>t \<in> set ts. \<exists>m. h (place t) = Some m \<and> n_string m \<noteq> None"
  shows "find_member h (passes False name) (first (map place ts) None) =
    Some (map_option place (find (\<lambda>t. case_insensitive_eq name (key_at h t)) ts))"
  using assms
proof (induction ts)
  case Nil
  show ?case by (simp add: find_member.simps)
next
  case (Cons t ts)
  then obtain m k where "h (place t) = Some m" "n_next m = first (map place ts) None" "n_string m = Some k" by auto
  then show ?case using Cons
    by (simp add: find_member.simps [of _ _ "Some _"] passes_def key_at_def or_empty_def)
qed

lemma find_item_find:
  "find_item name (map (\<lambda>t. (key t, val t)) ts) = map_option val (find (\<lambda>t. case_insensitive_eq name (key t)) ts)"
  by (induction ts) auto

lemma find_splits:
  "find P ts = Some u \<Longrightarrow> \<exists>xs ys. ts = xs @ u # ys \<and> P u \<and> (\<forall>x \<in> set xs. \<not> P x)"
proof (induction ts)
  case (Cons t ts)
  show ?case
  proof (cases "P t")
    case True
    then show ?thesis using Cons.prems by (intro exI [of _ "[]"] exI [of _ ts]) auto
  next
    case False
    then obtain xs ys where "ts = xs @ u # ys" "P u" "\<forall>x \<in> set xs. \<not> P x" using Cons by auto
    then show ?thesis using False by (intro exI [of _ "t # xs"] exI [of _ ys]) auto
  qed
qed simp

lemma delete_item_find:
  "find (\<lambda>t. case_insensitive_eq name (key t)) ts = None \<Longrightarrow>
     delete_item name (map (\<lambda>t. (key t, val t)) ts) = map (\<lambda>t. (key t, val t)) ts"
  "\<forall>x \<in> set xs. \<not> case_insensitive_eq name (key x) \<Longrightarrow> case_insensitive_eq name (key u) \<Longrightarrow>
     delete_item name (map (\<lambda>t. (key t, val t)) (xs @ u # ys)) = map (\<lambda>t. (key t, val t)) (xs @ ys)"
  by (induction ts) (auto split: if_splits, induction xs, auto)

text \<open>The item a look-up finds holds the value the look-up in the document finds.\<close>

theorem object_item_at:
  assumes t: "tree h (At a ts)" "h a = Some n" and k: "n_kind n = cJSON_Object"
  obtains u where "cJSON_GetObjectItem_ptr (Some a) (Some name) h = Some None"
      "cJSON_GetObjectItem (json_at h (At a ts)) name = None"
  | u where "u \<in> set ts" "cJSON_GetObjectItem_ptr (Some a) (Some name) h = Some (Some (place u))"
      "cJSON_GetObjectItem (json_at h (At a ts)) name = Some (json_at h u)"
proof -
  let ?f = "find (\<lambda>t. case_insensitive_eq name (key_at h t)) ts"
  have l: "cJSON_GetObjectItem_ptr (Some a) (Some name) h = Some (map_option place ?f)"
    using t(2) treeD(1,6) [OF t] k find_row [OF tree_row [OF t(1)]]
    by (simp add: cJSON_GetObjectItem_ptr_def get_object_item_def)
  have v: "cJSON_GetObjectItem (json_at h (At a ts)) name = map_option (json_at h) ?f"
    using t(2) k by (simp add: find_item_find kinds)
  show thesis
  proof (cases ?f)
    case None
    then show ?thesis using that(1) l v by simp
  next
    case (Some u)
    then have "u \<in> set ts" using find_splits [OF Some] by auto
    then show ?thesis using that(2) [of u] l v Some by simp
  qed
qed

subsection \<open>Runs of edits\<close>

text \<open>The edits of a document at one of its arrays or objects, with the items that are added.\<close>

datatype edit = Add_item shape | Add_member string shape | Remove_at int | Remove_named string

definition apply_edit :: "nat \<Rightarrow> edit \<Rightarrow> jheap \<Rightarrow> jheap option" where
  "apply_edit a e h =
     (case e of
        Add_item u \<Rightarrow> do { (ok, h1) \<leftarrow> cJSON_AddItemToArray (Some a) (Some (place u)) h; Some h1 }
      | Add_member k u \<Rightarrow> do { (ok, h1) \<leftarrow> cJSON_AddItemToObject_ptr (Some a) (Some k) (Some (place u)) True h; Some h1 }
      | Remove_at i \<Rightarrow> cJSON_DeleteItemFromArray_ptr (Some a) i h
      | Remove_named k \<Rightarrow> cJSON_DeleteItemFromObject_ptr (Some a) (Some k) h)"

definition remove_at :: "int \<Rightarrow> cjson list \<Rightarrow> cjson list" where
  "remove_at i xs = (if 0 \<le> i \<and> nat i < length xs then cJSON_DeleteItemFromArray xs (nat i) else xs)"

text \<open>The same edits of the value, the items read off the heap \<open>h\<close>.\<close>

fun edit_value :: "jheap \<Rightarrow> edit \<Rightarrow> cjson \<Rightarrow> cjson" where
  "edit_value h (Add_item u) (CArray xs) = CArray (xs @ [json_at h u])"
| "edit_value h (Add_member k u) j = cJSON_AddItemToObject j k (json_at h u)"
| "edit_value h (Remove_at i) (CArray xs) = CArray (remove_at i xs)"
| "edit_value h (Remove_named k) j = cJSON_DeleteItemFromObject j k"
| "edit_value h e j = j"

fun added :: "edit \<Rightarrow> shape list" where
  "added (Add_item u) = [u]"
| "added (Add_member k u) = [u]"
| "added e = []"

fun fits :: "nat \<Rightarrow> edit \<Rightarrow> bool" where
  "fits kind (Add_item u) \<longleftrightarrow> kind = cJSON_Array"
| "fits kind (Remove_at i) \<longleftrightarrow> kind = cJSON_Array"
| "fits kind (Add_member k u) \<longleftrightarrow> kind = cJSON_Object"
| "fits kind (Remove_named k) \<longleftrightarrow> kind = cJSON_Object"

fun run_edits :: "nat \<Rightarrow> edit list \<Rightarrow> jheap \<Rightarrow> jheap option" where
  "run_edits a [] h = Some h"
| "run_edits a (e # es) h = do { h1 \<leftarrow> apply_edit a e h; run_edits a es h1 }"

definition loose :: "jheap \<Rightarrow> shape \<Rightarrow> bool" where
  "loose h u \<longleftrightarrow> tree h u \<and> (\<exists>m. h (place u) = Some m \<and> n_next m = None)"

text \<open>
  After an edit: the shape the container has, the value it holds, and a heap with these cells and those
  that neither the container nor the new items had.
\<close>

definition edited :: "nat \<Rightarrow> nat \<Rightarrow> nat set \<Rightarrow> cjson \<Rightarrow> jheap \<Rightarrow> jheap \<Rightarrow> shape list \<Rightarrow> bool" where
  "edited a kind P v h h' ts \<longleftrightarrow>
     tree h' (At a ts) \<and> json_at h' (At a ts) = v \<and> (\<exists>n. h' a = Some n \<and> n_kind n = kind) \<and>
     set (places (At a ts)) \<subseteq> P \<and> (\<forall>b. b \<notin> P \<longrightarrow> h' b = h b) \<and>
     (\<forall>b \<in> P. h' b \<noteq> None \<longrightarrow> b \<in> set (places (At a ts)))"

lemma tops_outside:
  assumes "relink a (place ` set ts) h h'" and "b \<notin> set (places (At a ts))"
  shows "h' b = h b"
proof -
  have "b \<notin> insert a (place ` set ts)" using assms(2) place_below [of _ ts] by auto
  then show ?thesis using assms(1) by (simp add: relink_def)
qed

lemma added_edit:
  assumes t: "tree h (At a ts)" "h a = Some n" and u: "tree h u" "h (place u) = Some m" "n_next m = None"
    and d: "set (places u) \<inter> set (places (At a ts)) = {}"
    and k: "n_kind n = cJSON_Array \<and> v = CArray (map (json_at h) (ts @ [u])) \<or>
      n_kind n = cJSON_Object \<and> n_string m \<noteq> None \<and> v = CObject (map (\<lambda>t. (key_at h t, json_at h t)) (ts @ [u]))"
  shows "\<exists>h'. add_item_to_array (Some a) (Some (place u)) h = Some (True, h') \<and>
    edited a (n_kind n) (set (places (At a (ts @ [u])))) v h h' (ts @ [u])"
proof -
  from k have named: "n_kind n = cJSON_Object \<Longrightarrow> n_string m \<noteq> None" by (auto simp: kinds)
  from add_tree [OF t u d named] obtain h' where h':
    "add_item_to_array (Some a) (Some (place u)) h = Some (True, h')" "tree h' (At a (ts @ [u]))"
    "relink a (place ` set (ts @ [u])) h h'" "h' a = Some (n\<lparr>n_child := first (map place (ts @ [u])) None\<rparr>)"
    "\<And>t. t \<in> set (ts @ [u]) \<Longrightarrow> json_at h' t = json_at h t \<and> key_at h' t = key_at h t" by blast
  have "json_at h' (At a (ts @ [u])) = v" using k h'(4,5) by (auto simp: kinds)
  then show ?thesis using h' tops_outside [OF h'(3)] by (simp add: edited_def del: places.simps json_at.simps)
qed

text \<open>Deleting an item that has been taken out.\<close>

lemma freed_edit:
  assumes t: "tree h' (At a us)" "h' a = Some n'" "json_at h' (At a us) = v"
    and x: "tree h' x" "h' (place x) = Some m" "n_next m = None"
    and d: "set (places x) \<inter> set (places (At a us)) = {}" and P: "P = set (places (At a us)) \<union> set (places x)"
    and out: "\<And>b. b \<notin> P \<Longrightarrow> h' b = h b"
  shows "\<exists>h''. cJSON_Delete (Some (place x)) h' = Some h'' \<and> edited a (n_kind n') P v h h'' us"
proof -
  define h'' where "h'' = h' |` (- set (places x))"
  have keep: "h'' b = h' b" if "b \<in> set (places (At a us))" for b
    using d that by (auto simp: h''_def restrict_map_def)
  have "laid h'' (At a us) = laid h' (At a us)" by (rule laid_cong [OF keep])
  then have "tree h'' (At a us)" using t(1) by (simp add: tree_def del: laid.simps)
  moreover have "json_at h'' (At a us) = v" unfolding t(3) [symmetric] by (rule json_cong [OF keep])
  moreover have "h'' a = Some n'" using keep [of a] t(2) by simp
  moreover have "h'' b = h b" if "b \<notin> P" for b using out [OF that] that by (simp add: P h''_def)
  moreover have "b \<in> set (places (At a us))" if "b \<in> P" "h'' b \<noteq> None" for b
    using that by (auto simp: P h''_def restrict_map_def split: if_splits)
  ultimately have "edited a (n_kind n') P v h h'' us" unfolding edited_def P by blast
  then show ?thesis using delete_tree [OF x] unfolding h''_def by blast
qed

lemma removed_edit:
  assumes t: "tree h (At a (xs @ u # ys))" "h a = Some n"
    and k: "n_kind n = cJSON_Array \<and> v = CArray (map (json_at h) (xs @ ys)) \<or>
      n_kind n = cJSON_Object \<and> v = CObject (map (\<lambda>t. (key_at h t, json_at h t)) (xs @ ys))"
  shows "\<exists>h' h''. cJSON_DetachItemViaPointer (Some a) (Some (place u)) h = Some (Some (place u), h') \<and>
    cJSON_Delete (Some (place u)) h' = Some h'' \<and>
    edited a (n_kind n) (set (places (At a (xs @ u # ys)))) v h h'' (xs @ ys)"
proof -
  from detach_tree [OF t] obtain h' m where h':
    "cJSON_DetachItemViaPointer (Some a) (Some (place u)) h = Some (Some (place u), h')"
    "tree h' (At a (xs @ ys))" "tree h' u" "h' (place u) = Some m" "n_next m = None"
    "relink a (place ` set (xs @ u # ys)) h h'" "h' a = Some (n\<lparr>n_child := first (map place (xs @ ys)) None\<rparr>)"
    "\<And>t. t \<in> set (xs @ ys) \<Longrightarrow> json_at h' t = json_at h t \<and> key_at h' t = key_at h t" by blast
  have v: "json_at h' (At a (xs @ ys)) = v" using k h'(7,8) by (auto simp: kinds)
  have d: "set (places u) \<inter> set (places (At a (xs @ ys))) = {}" using t(1) by (auto simp: tree_def)
  have P: "set (places (At a (xs @ u # ys))) = set (places (At a (xs @ ys))) \<union> set (places u)" by auto
  from freed_edit [OF h'(2,7) v h'(3-5) d P tops_outside [OF h'(6)]] show ?thesis using h'(1) by auto
qed

lemma edited_refl:
  assumes t: "tree h (At a ts)" "h a = Some n" and v: "json_at h (At a ts) = v"
  shows "edited a (n_kind n) (set (places (At a ts))) v h h ts"
  using assms by (simp add: edited_def)

lemma edited_trans:
  assumes "edited a k P v h h1 ts1" and "edited a k (set (places (At a ts1)) \<union> Q) v' h1 h' ts'"
  shows "edited a k (P \<union> Q) v' h h' ts'"
proof -
  from assms have "set (places (At a ts1)) \<subseteq> P" "\<And>b. b \<notin> P \<Longrightarrow> h1 b = h b"
    "\<And>b. b \<in> P \<Longrightarrow> h1 b \<noteq> None \<Longrightarrow> b \<in> set (places (At a ts1))"
    "\<And>b. b \<notin> set (places (At a ts1)) \<union> Q \<Longrightarrow> h' b = h1 b"
    "\<And>b. b \<in> set (places (At a ts1)) \<union> Q \<Longrightarrow> h' b \<noteq> None \<Longrightarrow> b \<in> set (places (At a ts'))"
    "set (places (At a ts')) \<subseteq> set (places (At a ts1)) \<union> Q"
    unfolding edited_def by blast+
  then have "set (places (At a ts')) \<subseteq> P \<union> Q" "\<And>b. b \<notin> P \<union> Q \<Longrightarrow> h' b = h b"
    "\<And>b. b \<in> P \<union> Q \<Longrightarrow> h' b \<noteq> None \<Longrightarrow> b \<in> set (places (At a ts'))"
    by (blast, metis Un_iff subsetD, metis Un_iff)
  then show ?thesis using assms(2) unfolding edited_def by blast
qed

text \<open>Naming an item changes neither the document below it nor any other.\<close>

lemma named_item:
  fixes k :: string and c :: bool
  assumes u: "tree h u" "h (place u) = Some m"
  defines "h1 \<equiv> h(place u \<mapsto> m\<lparr>n_string := Some k, n_const := c\<rparr>)"
  shows "tree h1 u" "json_at h1 u = json_at h u" "key_at h1 u = k"
    "place u \<notin> set (places t) \<Longrightarrow> laid h1 t = laid h t \<and> json_at h1 t = json_at h t \<and> key_at h1 t = key_at h t"
proof -
  obtain x ks where x: "u = At x ks" by (cases u)
  have same: "h1 b = h b" if "b \<noteq> place u" for b using that by (simp add: h1_def)
  show other: "laid h1 t = laid h t \<and> json_at h1 t = json_at h t \<and> key_at h1 t = key_at h t"
    if "place u \<notin> set (places t)" for t
    using that by (intro conjI laid_cong json_cong key_cong same) (metis place_in)+
  have "place u \<notin> set (places t)" if "t \<in> set ks" for t
    using u(1) that distinct_kid [of x ks t] by (simp add: tree_def x)
  note below = other [OF this]
  have "map (json_at h1) ks = map (json_at h) ks"
    "map (\<lambda>t. (key_at h1 t, json_at h1 t)) ks = map (\<lambda>t. (key_at h t, json_at h t)) ks" using below by auto
  moreover have "h1 x = Some (m\<lparr>n_string := Some k, n_const := c\<rparr>)" by (simp add: h1_def x)
  ultimately show "json_at h1 u = json_at h u"
    using u(2) by (simp add: x scalar_def del: map_eq_conv)
  show "key_at h1 u = k" by (simp add: key_at_def h1_def or_empty_def)
  have tops: "h1 (place t) = h (place t)" if "t \<in> set ks" for t
    using same [of "place t"] u(1) that place_below [OF that] by (auto simp: tree_def x)
  have "chain h1 (map place ks) = chain h (map place ks)"
    unfolding chain_def by (rule seg_cong) (use tops in auto)
  then show "tree h1 u"
    using u below tops \<open>h1 x = _\<close> by (auto simp: tree_def x)
qed

lemma member_edit:
  assumes t: "tree h (At a ts)" "h a = Some n" and m: "tree h u" "h (place u) = Some m" "n_next m = None"
    and d: "set (places u) \<inter> set (places (At a ts)) = {}" and k: "n_kind n = cJSON_Object"
  shows "\<exists>h'. cJSON_AddItemToObject_ptr (Some a) (Some key) (Some (place u)) True h = Some (True, h') \<and>
    edited a (n_kind n) (set (places (At a ts)) \<union> set (places u))
      (cJSON_AddItemToObject (json_at h (At a ts)) key (json_at h u)) h h' (ts @ [u])"
proof -
  let ?v = "cJSON_AddItemToObject (json_at h (At a ts)) key (json_at h u)"
  define h1 where "h1 = h(place u \<mapsto> m\<lparr>n_string := Some key, n_const := False\<rparr>)"
  note named = named_item [OF m(1,2), where k = key and c = False, folded h1_def]
  have out: "place u \<notin> set (places (At a ts))" using d place_in [of u] by blast
  have outs: "place u \<notin> set (places t)" if "t \<in> set ts" for t using out that by auto
  have t1: "tree h1 (At a ts)" "h1 a = Some n"
    using t named(4) [OF out] out by (simp_all add: tree_def h1_def)
  have v: "?v = CObject (map (\<lambda>t. (key_at h1 t, json_at h1 t)) (ts @ [u]))"
    using k t(2) named(2,3) named(4) [OF outs] by (auto simp: kinds)
  have "h1 (place u) = Some (m\<lparr>n_string := Some key, n_const := False\<rparr>)" by (simp add: h1_def)
  from added_edit [OF t1 named(1) this _ d] m(3) k v obtain h' where h':
    "add_item_to_array (Some a) (Some (place u)) h1 = Some (True, h')"
    "edited a (n_kind n) (set (places (At a (ts @ [u])))) ?v h1 h' (ts @ [u])" by auto
  have P: "set (places (At a (ts @ [u]))) = set (places (At a ts)) \<union> set (places u)" by auto
  have "h1 b = h b" if "b \<notin> set (places (At a ts)) \<union> set (places u)" for b
    using that place_in [of u] by (auto simp: h1_def)
  then have "edited a (n_kind n) (set (places (At a ts)) \<union> set (places u)) ?v h h' (ts @ [u])"
    using h'(2) unfolding edited_def P by simp
  moreover have "place u \<noteq> a" using out by auto
  then have "cJSON_AddItemToObject_ptr (Some a) (Some key) (Some (place u)) True h = Some (True, h')"
    using h'(1) m(2) by (simp add: cJSON_AddItemToObject_ptr_def add_item_to_object_def cJSON_strdup_def h1_def Let_def)
  ultimately show ?thesis by blast
qed

lemma apply_edit_edited:
  assumes t: "tree h (At a ts)" "h a = Some n" and k: "fits (n_kind n) e"
    and u: "\<forall>u \<in> set (added e). loose h u \<and> set (places u) \<inter> set (places (At a ts)) = {}"
  shows "\<exists>h' ts'. apply_edit a e h = Some h' \<and>
    edited a (n_kind n) (set (places (At a ts)) \<union> set (concat (map places (added e))))
      (edit_value h e (json_at h (At a ts))) h h' ts'"
proof (cases e)
  case (Add_item u)
  then obtain m where m: "tree h u" "h (place u) = Some m" "n_next m = None" "set (places u) \<inter> set (places (At a ts)) = {}"
    using assms(4) by (auto simp: loose_def)
  have v: "n_kind n = cJSON_Array" "edit_value h e (json_at h (At a ts)) = CArray (map (json_at h) (ts @ [u]))"
    using k t(2) by (auto simp: Add_item)
  have "set (places (At a (ts @ [u]))) = set (places (At a ts)) \<union> set (concat (map places (added e)))"
    by (auto simp: Add_item)
  moreover obtain h' where "add_item_to_array (Some a) (Some (place u)) h = Some (True, h')"
    "edited a (n_kind n) (set (places (At a (ts @ [u])))) (edit_value h e (json_at h (At a ts))) h h' (ts @ [u])"
    using added_edit [OF t m] v by blast
  ultimately show ?thesis by (intro exI [of _ h'] exI [of _ "ts @ [u]"]) (simp add: apply_edit_def cJSON_AddItemToArray_def Add_item)
next
  case (Add_member key u)
  then obtain m where m: "tree h u" "h (place u) = Some m" "n_next m = None" "set (places u) \<inter> set (places (At a ts)) = {}"
    using assms(4) by (auto simp: loose_def)
  have "n_kind n = cJSON_Object" using k by (simp add: Add_member)
  from member_edit [OF t m this, of key] obtain h' where h':
    "cJSON_AddItemToObject_ptr (Some a) (Some key) (Some (place u)) True h = Some (True, h')"
    "edited a (n_kind n) (set (places (At a ts)) \<union> set (places u)) (edit_value h e (json_at h (At a ts))) h h' (ts @ [u])"
    by (auto simp: Add_member)
  then show ?thesis by (intro exI [of _ h'] exI [of _ "ts @ [u]"]) (simp add: apply_edit_def Add_member)
next
  case (Remove_at i)
  have k': "n_kind n = cJSON_Array" and j: "json_at h (At a ts) = CArray (map (json_at h) ts)"
    using k t(2) by (auto simp: Remove_at)
  show ?thesis
  proof (cases "0 \<le> i \<and> nat i < length ts")
    case True
    let ?xs = "take (nat i) ts" let ?ys = "drop (Suc (nat i)) ts" let ?u = "ts ! nat i"
    have s: "ts = ?xs @ ?u # ?ys" using True by (simp add: id_take_nth_drop)
    have "edit_value h e (json_at h (At a ts)) = CArray (map (json_at h) (?xs @ ?ys))"
      using True by (simp add: Remove_at j remove_at_def cJSON_DeleteItemFromArray_def take_map drop_map del: json_at.simps)
    then show ?thesis
      using removed_edit [of h a ?xs ?u ?ys n "edit_value h e (json_at h (At a ts))"] t k' True item_at [OF t(1), of "nat i"]
      by (auto simp: s [symmetric] apply_edit_def cJSON_DeleteItemFromArray_ptr_def cJSON_DetachItemFromArray_def Remove_at)
  next
    case False
    then have "edit_value h e (json_at h (At a ts)) = json_at h (At a ts)"
      by (auto simp: Remove_at j remove_at_def simp del: json_at.simps)
    moreover have "apply_edit a e h = Some h"
      using False item_at [OF t(1), of "nat i"]
      by (auto simp: apply_edit_def cJSON_DeleteItemFromArray_ptr_def cJSON_DetachItemFromArray_def Remove_at
          cJSON_DetachItemViaPointer_def cJSON_Delete.simps)
    ultimately show ?thesis using edited_refl [OF t refl] by (auto simp: Remove_at)
  qed
next
  case (Remove_named key)
  let ?f = "find (\<lambda>t. case_insensitive_eq key (key_at h t)) ts" let ?m = "map (\<lambda>t. (key_at h t, json_at h t))"
  have k': "n_kind n = cJSON_Object" and j: "json_at h (At a ts) = CObject (?m ts)"
    using k t(2) by (auto simp: Remove_named kinds)
  have l: "cJSON_GetObjectItem_ptr (Some a) (Some key) h = Some (map_option place ?f)"
    using t(2) treeD(1,6) [OF t] k' find_row [OF tree_row [OF t(1)]]
    by (simp add: cJSON_GetObjectItem_ptr_def get_object_item_def)
  show ?thesis
  proof (cases ?f)
    case None
    then have "edit_value h e (json_at h (At a ts)) = json_at h (At a ts)"
      by (simp add: Remove_named j delete_item_find(1) [OF None] del: json_at.simps)
    moreover have "apply_edit a e h = Some h"
      using l None by (simp add: apply_edit_def cJSON_DeleteItemFromObject_ptr_def cJSON_DetachItemFromObject_def Remove_named
          cJSON_DetachItemViaPointer_def cJSON_Delete.simps)
    ultimately show ?thesis using edited_refl [OF t refl] by (auto simp: Remove_named)
  next
    case (Some u)
    from find_splits [OF Some] obtain xs ys where s: "ts = xs @ u # ys" "case_insensitive_eq key (key_at h u)"
      "\<forall>x \<in> set xs. \<not> case_insensitive_eq key (key_at h x)" by blast
    have "edit_value h e (json_at h (At a ts)) = CObject (delete_item key (?m (xs @ u # ys)))"
      unfolding j by (simp add: Remove_named s(1))
    then have "edit_value h e (json_at h (At a ts)) = CObject (?m (xs @ ys))"
      unfolding delete_item_find(2) [OF s(3,2)] .
    then obtain h' h'' where h': "cJSON_DetachItemViaPointer (Some a) (Some (place u)) h = Some (Some (place u), h')"
      "cJSON_Delete (Some (place u)) h' = Some h''"
      "edited a (n_kind n) (set (places (At a ts))) (edit_value h e (json_at h (At a ts))) h h'' (xs @ ys)"
      using removed_edit [OF t(1) [unfolded s(1)] t(2)] k' unfolding s(1) by blast
    have "apply_edit a e h = Some h''"
      by (simp add: apply_edit_def cJSON_DeleteItemFromObject_ptr_def cJSON_DetachItemFromObject_def Remove_named l Some h'(1,2))
    then show ?thesis using h'(3) by (intro exI [of _ h''] exI [of _ "xs @ ys"]) (simp add: Remove_named)
  qed
qed

lemma edit_value_cong:
  "(\<And>u. u \<in> set (added e) \<Longrightarrow> json_at h' u = json_at h u) \<Longrightarrow> edit_value h' e j = edit_value h e j"
  by (cases e; cases j) simp_all

lemma loose_kept:
  assumes "\<And>b. b \<in> set (places u) \<Longrightarrow> h' b = h b" and "loose h u"
  shows "loose h' u"
  using assms(1) [OF place_in] assms(2) laid_cong [OF assms(1)] by (auto simp: loose_def tree_def)

lemma cells_outcome:
  fixes h h' :: "'a \<Rightarrow> 'b option"
  assumes "T \<subseteq> dom h'" and "T \<subseteq> P" and "\<forall>b. b \<notin> P \<longrightarrow> h' b = h b" and "\<forall>b \<in> P. h' b \<noteq> None \<longrightarrow> b \<in> T"
  shows "dom h' = T \<union> (dom h - P)"
proof (rule set_eqI)
  fix b
  show "b \<in> dom h' \<longleftrightarrow> b \<in> T \<union> (dom h - P)"
    using assms by (cases "b \<in> P") (auto simp: domIff)
qed

lemma edited_outcome:
  assumes "edited a k P v h h' ts"
  shows "tree h' (At a ts)" "json_at h' (At a ts) = v" "set (places (At a ts)) \<subseteq> P" "\<forall>b. b \<notin> P \<longrightarrow> h' b = h b"
    "dom h' = set (places (At a ts)) \<union> (dom h - P)"
proof -
  note e = assms [unfolded edited_def]
  show t: "tree h' (At a ts)" and "json_at h' (At a ts) = v" and p: "set (places (At a ts)) \<subseteq> P"
    and b: "\<forall>b. b \<notin> P \<longrightarrow> h' b = h b" using e by blast+
  have "set (places (At a ts)) \<subseteq> dom h'" by (rule laid_dom) (use t in \<open>simp add: tree_def\<close>)
  from cells_outcome [OF this p b] e show "dom h' = set (places (At a ts)) \<union> (dom h - P)" by blast
qed

text \<open>
  C31: Any run of edits of an array or an object in memory does to its value what the edits of documents
  do, whatever else is in memory: no call follows a null pointer or touches a cell that is freed, every call
  returns, the links stay those of a list whose first item knows the last, the cells of what is removed
  are freed, each once, no other cell is freed or lost, and no cell outside the container and the added items changes.
\<close>

theorem edits_refine_documents:
  assumes "tree h (At a ts)" and "h a = Some n" and "\<forall>e \<in> set es. fits (n_kind n) e"
    and "\<forall>u \<in> set (concat (map added es)). loose h u"
    and "distinct (places (At a ts) @ concat (map places (concat (map added es))))"
  shows "\<exists>h' ts'. run_edits a es h = Some h' \<and> tree h' (At a ts') \<and>
    json_at h' (At a ts') = fold (edit_value h) es (json_at h (At a ts)) \<and>
    (let P = set (places (At a ts)) \<union> set (concat (map places (concat (map added es))))
     in set (places (At a ts')) \<subseteq> P \<and> dom h' = set (places (At a ts')) \<union> (dom h - P) \<and> (\<forall>b. b \<notin> P \<longrightarrow> h' b = h b))"
proof -
  let ?Q = "\<lambda>es. set (concat (map places (concat (map added es))))"
  have "\<exists>h' ts'. run_edits a es h = Some h' \<and>
      edited a (n_kind n) (set (places (At a ts)) \<union> ?Q es) (fold (edit_value h) es (json_at h (At a ts))) h h' ts'"
    using assms
  proof (induction es arbitrary: h ts n)
    case Nil
    show ?case using edited_refl [OF Nil.prems(1,2) refl] by (intro exI [of _ h] exI [of _ ts]) simp
  next
    case (Cons e es)
    have "\<forall>u \<in> set (added e). loose h u \<and> set (places u) \<inter> set (places (At a ts)) = {}"
      using Cons.prems(4,5) by auto
    moreover have "fits (n_kind n) e" using Cons.prems(3) by simp
    ultimately obtain h1 ts1 where h1: "apply_edit a e h = Some h1"
      "edited a (n_kind n) (set (places (At a ts)) \<union> set (concat (map places (added e))))
        (edit_value h e (json_at h (At a ts))) h h1 ts1"
      using apply_edit_edited [OF Cons.prems(1,2)] by blast
    let ?P = "set (places (At a ts)) \<union> set (concat (map places (added e)))"
    from h1(2) obtain n1 where n1: "tree h1 (At a ts1)" "h1 a = Some n1" "n_kind n1 = n_kind n"
      "json_at h1 (At a ts1) = edit_value h e (json_at h (At a ts))" "set (places (At a ts1)) \<subseteq> ?P"
      "\<And>b. b \<notin> ?P \<Longrightarrow> h1 b = h b" unfolding edited_def by blast
    have "distinct (concat (map places (added e)) @ concat (map places (concat (map added es))))"
      "set (places (At a ts)) \<inter> ?Q es = {}" using Cons.prems(5) by auto
    then have rest: "?P \<inter> ?Q es = {}" unfolding distinct_append by blast
    have same: "h1 b = h b" if "u \<in> set (concat (map added es))" "b \<in> set (places u)" for u b
    proof (rule n1(6))
      have "b \<in> ?Q es" using that by auto
      then show "b \<notin> ?P" using rest by blast
    qed
    have "\<forall>u \<in> set (concat (map added es)). loose h1 u"
      using Cons.prems(4) loose_kept [OF same] by simp
    moreover have "distinct (places (At a ts1) @ concat (map places (concat (map added es))))"
    proof -
      have "distinct (places (At a ts1))" "distinct (concat (map places (concat (map added es))))"
        using n1(1) Cons.prems(5) by (simp_all add: tree_def)
      then show ?thesis unfolding distinct_append using n1(5) rest by blast
    qed
    ultimately obtain h' ts' where h': "run_edits a es h1 = Some h'"
      "edited a (n_kind n) (set (places (At a ts1)) \<union> ?Q es) (fold (edit_value h1) es (json_at h1 (At a ts1))) h1 h' ts'"
      using Cons.IH [OF n1(1,2)] Cons.prems(3) unfolding n1(3) by auto
    have "fold (edit_value h1) es j = fold (edit_value h) es j" for j
      by (rule fold_cong [OF refl refl], rule ext, rule edit_value_cong, rule json_cong, rule same) auto
    then have "fold (edit_value h1) es (json_at h1 (At a ts1)) = fold (edit_value h) (e # es) (json_at h (At a ts))"
      unfolding n1(4) by simp
    moreover have "set (places (At a ts)) \<union> ?Q (e # es) = ?P \<union> ?Q es" by auto
    ultimately show ?case using edited_trans [OF h1(2) h'(2)] h1(1) h'(1) by auto
  qed
  then obtain h' ts' where "run_edits a es h = Some h'"
    and e: "edited a (n_kind n) (set (places (At a ts)) \<union> ?Q es) (fold (edit_value h) es (json_at h (At a ts))) h h' ts'"
    by blast
  then show ?thesis unfolding Let_def using edited_outcome [OF e] by blast
qed

subsection \<open>New members\<close>

text \<open>
  \<open>cJSON_AddBoolToObject\<close>, \<open>cJSON_AddObjectToObject\<close> and their siblings: with memory the member is there, without it
  the heap is what it was.
\<close>

theorem new_member_outcome:
  assumes t: "tree h (At a ts)" "h a = Some n" and k: "n_kind n = cJSON_Object"
    and mem: "\<And>b. mem = Some b \<Longrightarrow> h b = None"
    and fill: "n_next (fill zero_node) = None" "n_child (fill zero_node) = None" "\<not> n_reference (fill zero_node)"
  shows "case mem of
      None \<Rightarrow> add_new (Some (create_item mem fill h)) (Some a) (Some key) dup = Some (None, h)
    | Some b \<Rightarrow>
        if dup then \<exists>h'. add_new (Some (create_item mem fill h)) (Some a) (Some key) dup = Some (Some b, h') \<and>
          edited a cJSON_Object (insert b (set (places (At a ts))))
            (cJSON_AddItemToObject (json_at h (At a ts)) key (json_at (h(b \<mapsto> fill zero_node)) (At b []))) h h' (ts @ [At b []])
        else add_new (Some (create_item mem fill h)) (Some a) (Some key) dup = Some (None, h)"
proof (cases mem)
  case None
  then show ?thesis
    by (simp add: create_item_def cJSON_New_Item_def add_new_def add_item_to_object_def cJSON_Delete.simps)
next
  case (Some b)
  define h1 where "h1 = h(b \<mapsto> fill zero_node)"
  have made: "create_item mem fill h = (Some b, h1)"
    by (simp add: Some create_item_def cJSON_New_Item_def h1_def)
  have b: "b \<notin> set (places (At a ts))" using mem [OF Some] t(1) laid_dom [of h "At a ts"] by (auto simp: tree_def)
  then have "b \<noteq> a" by auto
  have same: "h1 c = h c" if "c \<in> set (places (At a ts))" for c using b that by (auto simp: h1_def)
  have "laid h1 (At a ts) = laid h (At a ts)" by (rule laid_cong [OF same])
  then have t1: "tree h1 (At a ts)" "h1 a = Some n"
    using t \<open>b \<noteq> a\<close> by (simp_all add: tree_def h1_def del: laid.simps)
  have v: "json_at h1 (At a ts) = json_at h (At a ts)" by (rule json_cong [OF same])
  have u: "tree h1 (At b [])" "h1 (place (At b [])) = Some (fill zero_node)"
    using fill by (auto simp: tree_def h1_def)
  have d: "set (places (At b [])) \<inter> set (places (At a ts)) = {}" using b by simp
  show ?thesis
  proof (cases dup)
    case True
    from member_edit [OF t1(1,2) u fill(1) d k, of key] obtain h' where h':
      "cJSON_AddItemToObject_ptr (Some a) (Some key) (Some b) True h1 = Some (True, h')"
      "edited a (n_kind n) (set (places (At a ts)) \<union> {b})
        (cJSON_AddItemToObject (json_at h (At a ts)) key (json_at h1 (At b []))) h1 h' (ts @ [At b []])"
      unfolding v by (auto simp del: json_at.simps)
    have P: "set (places (At a ts)) \<union> {b} = insert b (set (places (At a ts)))" by auto
    have "edited a cJSON_Object (insert b (set (places (At a ts))))
        (cJSON_AddItemToObject (json_at h (At a ts)) key (json_at h1 (At b []))) h h' (ts @ [At b []])"
      using h'(2) unfolding edited_def P k by (simp add: h1_def)
    then show ?thesis
      using h'(1) made True by (auto simp: Some add_new_def cJSON_AddItemToObject_ptr_def h1_def)
  next
    case False
    have "cJSON_Delete (Some b) h1 = Some h"
      using fill mem [OF Some] by (auto simp: cJSON_Delete.simps [of "Some b"] cJSON_Delete.simps [of None] h1_def)
    then show ?thesis
      using made False \<open>b \<noteq> a\<close> by (auto simp: Some add_new_def add_item_to_object_def cJSON_strdup_def)
  qed
qed

subsection \<open>Inserting and replacing\<close>

theorem insert_item_at:
  assumes t: "tree h (At a (xs @ y # ys))" "h a = Some n" and k: "n_kind n = cJSON_Array"
    and u: "tree h u" and d: "set (places u) \<inter> set (places (At a (xs @ y # ys))) = {}"
  shows "\<exists>h'. cJSON_InsertItemInArray (Some a) (int (length xs)) (Some (place u)) h = Some (True, h') \<and>
    edited a cJSON_Array (set (places (At a (xs @ u # y # ys)))) (CArray (map (json_at h) (xs @ u # y # ys)))
      h h' (xs @ u # y # ys)"
proof -
  let ?us = "xs @ u # y # ys"
  note tD = treeD [OF t]
  obtain m where m: "h (place u) = Some m" using u by (cases u) (auto simp: tree_def)
  have du: "distinct (places (At a ?us))" using t u d by (auto simp: tree_def)
  have "distinct (map place ?us)" by (rule distinct_tops) (use du in simp)
  moreover have "a \<noteq> place u" using d place_in [of u] by auto
  ultimately have "distinct (a # place u # map place (xs @ y # ys))" using tD(5) by auto
  from insert_chain [OF t(2) tD(1,3) _ _ m this, of "map place xs" "place y" "map place ys" "length xs"] item_at [OF t(1)]
  obtain h' where h': "cJSON_InsertItemInArray (Some a) (int (length xs)) (Some (place u)) h = Some (True, h')"
    "h' a = Some (n\<lparr>n_child := first (map place ?us) None\<rparr>)" "chain h' (map place ?us)"
    "relink a (insert (place u) (set (map place (xs @ y # ys)))) h h'" by auto
  have "insert (place u) (set (map place (xs @ y # ys))) = place ` set ?us" by auto
  with h'(4) have r: "relink a (place ` set ?us) h h'" by simp
  have l: "\<forall>t \<in> set ?us. laid h t" using tD(4) u by (auto simp: tree_def)
  note laid = relaid [OF r du l subset_refl du h'(2)]
  have "tree h' (At a ?us)" by (rule laid(1)) (use tD(2) k h'(3) in \<open>simp_all add: kinds\<close>)
  moreover have "json_at h' t = json_at h t" if "t \<in> set ?us" for t
    by (rule laid(2) [THEN conjunct1]) (use tD(2) k h'(3) that in \<open>simp_all add: kinds\<close>)
  then have "json_at h' (At a ?us) = CArray (map (json_at h) ?us)" using h'(2) k by simp
  ultimately show ?thesis
    using h'(1,2) k tops_outside [OF r] by (auto simp: edited_def simp del: json_at.simps places.simps)
qed

theorem replace_item_at:
  assumes t: "tree h (At a (xs @ x # ys))" "h a = Some n" and k: "n_kind n = cJSON_Array"
    and u: "tree h u" and d: "set (places u) \<inter> set (places (At a (xs @ x # ys))) = {}"
  shows "\<exists>h'. cJSON_ReplaceItemInArray (Some a) (int (length xs)) (Some (place u)) h = Some (True, h') \<and>
    edited a cJSON_Array (set (places (At a (xs @ u # x # ys)))) (CArray (map (json_at h) (xs @ u # ys))) h h' (xs @ u # ys)"
proof -
  let ?ts = "xs @ u # x # ys" let ?us = "xs @ u # ys"
  note tD = treeD [OF t]
  obtain k where k': "h (place u) = Some k" using u by (cases u) (auto simp: tree_def)
  have dt: "distinct (places (At a ?ts))" using t u d by (auto simp: tree_def)
  have "distinct (map place ?ts)" by (rule distinct_tops) (use dt in simp)
  moreover have "a \<noteq> place u" using d place_in [of u] by auto
  ultimately have "distinct (a # place u # map place (xs @ x # ys))" using tD(5) by auto
  from replace_chain [OF t(2) tD(1,3) _ k' this, of "map place xs" "place x" "map place ys"]
  obtain h' m where h': "h (place x) = Some m" "h' (place x) = Some (m\<lparr>n_next := None, n_prev := None\<rparr>)"
    "cJSON_ReplaceItemViaPointer (Some a) (Some (place x)) (Some (place u)) h =
      Option.bind (cJSON_Delete (Some (place x)) h') (\<lambda>h5. Some (True, h5))"
    "h' a = Some (n\<lparr>n_child := first (map place ?us) None\<rparr>)" "chain h' (map place ?us)"
    "relink a (insert (place u) (set (map place (xs @ x # ys)))) h h'" by auto
  have "insert (place u) (set (map place (xs @ x # ys))) = place ` set ?ts" by auto
  with h'(6) have r: "relink a (place ` set ?ts) h h'" by simp
  have l: "\<forall>t \<in> set ?us. laid h t" using tD(4) u by (auto simp: tree_def)
  have du: "distinct (places (At a ?us))" using dt by auto
  have s: "set ?us \<subseteq> set ?ts" by auto
  note laid = relaid [OF r dt l s du h'(4)]
  have tr: "tree h' (At a ?us)" by (rule laid(1)) (use tD(2) k h'(5) in \<open>simp_all add: kinds\<close>)
  have "json_at h' t = json_at h t" if "t \<in> set ?us" for t
    by (rule laid(2) [THEN conjunct1]) (use tD(2) k h'(5) that in \<open>simp_all add: kinds\<close>)
  then have v: "json_at h' (At a ?us) = CArray (map (json_at h) ?us)" using h'(4) k by simp
  have "laid h' x" by (rule laid_relink [OF r _ _ tops_above]) (use tD(4) distinct_kid [OF dt, of x] dt in auto)
  then have x: "tree h' x" using distinct_kid [OF dt, of x] by (simp add: tree_def)
  have dx: "set (places x) \<inter> set (places (At a ?us)) = {}" using dt by auto
  have P: "set (places (At a ?ts)) = set (places (At a ?us)) \<union> set (places x)" by auto
  from freed_edit [OF tr h'(4) v x h'(2) _ dx P tops_outside [OF r]] obtain h'' where h'':
    "cJSON_Delete (Some (place x)) h' = Some h''"
    "edited a (n_kind n) (set (places (At a ?ts))) (CArray (map (json_at h) ?us)) h h'' ?us" by auto
  then show ?thesis
    using h'(3) item_at [OF t(1), of "length xs"] k by (auto simp: cJSON_ReplaceItemInArray_def)
qed

text \<open>An object with the member \<open>a\<close>, and an item beside it.\<close>

definition small_heap :: jheap where
  "small_heap = [10 \<mapsto> zero_node\<lparr>n_kind := cJSON_Object, n_child := Some 20\<rparr>,
     20 \<mapsto> zero_node\<lparr>n_kind := cJSON_NULL, n_prev := Some 20, n_string := Some ''a''\<rparr>,
     30 \<mapsto> zero_node\<lparr>n_kind := cJSON_True\<rparr>]"

definition small_edits :: "edit list" where
  "small_edits = [Add_member ''b'' (At 30 []), Remove_named ''A'']"

theorem edits_refine_documents_witness:
  "\<exists>h' ts'. run_edits 10 small_edits small_heap = Some h' \<and> json_at h' (At 10 ts') = CObject [(''b'', CTrue)]"
proof -
  have t: "tree small_heap (At 10 [At 20 []])"
    by (auto simp: tree_def small_heap_def zero_node_def chain_def)
  have n: "small_heap 10 = Some (zero_node\<lparr>n_kind := cJSON_Object, n_child := Some 20\<rparr>)" by (simp add: small_heap_def)
  have f: "\<forall>e \<in> set small_edits. fits (n_kind (zero_node\<lparr>n_kind := cJSON_Object, n_child := Some 20\<rparr>)) e"
    by (simp add: small_edits_def)
  have l: "\<forall>u \<in> set (concat (map added small_edits)). loose small_heap u"
    by (auto simp: small_edits_def loose_def tree_def small_heap_def zero_node_def kinds)
  have d: "distinct (places (At 10 [At 20 []]) @ concat (map places (concat (map added small_edits))))"
    by (simp add: small_edits_def)
  have v: "json_at small_heap (At 10 [At 20 []]) = CObject [(''a'', CNull)]" "json_at small_heap (At 30 []) = CTrue"
    by (simp_all add: small_heap_def zero_node_def key_at_def or_empty_def scalar_def kinds)
  have "case_insensitive_eq ''A'' ''a''" by code_simp
  then have "fold (edit_value small_heap) small_edits (json_at small_heap (At 10 [At 20 []])) = CObject [(''b'', CTrue)]"
    unfolding v(1) small_edits_def by (simp add: v(2) del: json_at.simps)
  with edits_refine_documents [OF t n f l d] show ?thesis unfolding Let_def by metis
qed

end
