(* ===== verification/Kill_Props.thy ===== *)
theory Kill_Props
  imports Fan_Claims
begin

text \<open>
  Whom the channels kill. A signal ends a process of the machine the daemon guards: it is meant for the
  process of the event and, for a synchronisation task, for the processes it has started. What stands
  between the number of a process and another process that has got the same number is its start time,
  where one was found.
\<close>

subsection \<open>The process tree\<close>

text \<open>The main thread of \<open>p\<close> shows \<open>c\<close> in its list of children (\<open>/proc/p/task/p/children\<close>).\<close>

definition child_of :: "(int \<Rightarrow> string option) \<Rightarrow> int \<Rightarrow> int \<Rightarrow> bool" where
  "child_of children p c \<longleftrightarrow>
     (\<exists>text line. children p = Some text \<and> fgets_line 4096 text = Some line \<and>
        c \<in> atoi ` set (strtok_all {CHR '' '', CHR 0x09, newline} line) \<and> c > 1)"

definition descendant :: "(int \<Rightarrow> string option) \<Rightarrow> int \<Rightarrow> int \<Rightarrow> bool" where
  "descendant children = (child_of children)\<^sup>+\<^sup>+"

text \<open>What a call makes of the list \<open>ps\<close>: it adds descendants up to the cap, and all of them unless it says so.\<close>

definition collects :: "(int \<Rightarrow> string option) \<Rightarrow> nat \<Rightarrow> int \<Rightarrow> int list \<Rightarrow> (bool \<times> int list) option \<Rightarrow> bool" where
  "collects children cap orig ps r \<longleftrightarrow>
     (\<exists>over new. r = Some (over, ps @ new) \<and> length (ps @ new) \<le> cap \<and> (\<forall>p \<in> set new. descendant children orig p) \<and>
        (\<not> over \<longrightarrow> (\<forall>p. descendant children orig p \<longrightarrow> p \<in> set (ps @ new))))"

text \<open>One token of the list.\<close>

definition visit ::
  "nat \<Rightarrow> (int \<Rightarrow> string option) \<Rightarrow> nat \<Rightarrow> string \<Rightarrow> (bool \<times> int list) option \<Rightarrow> (bool \<times> int list) option" where
  "visit k children cap tok acc =
     (case acc of
        None \<Rightarrow> None
      | Some (over, ps) \<Rightarrow>
          if length ps \<ge> cap then Some (True, ps)
          else
            let child = atoi tok in
            if child > 1 then
              map_option (\<lambda>(o2, ps2). (over \<or> o2, ps2)) (collect_children k children cap child (ps @ [child]))
            else Some (over, ps))"

lemma collect_visits:
  "collect_children (Suc k) children cap orig pids =
     (if length pids \<ge> cap then Some (True, pids)
      else case (case children orig of None \<Rightarrow> None | Some text \<Rightarrow> fgets_line 4096 text) of
        None \<Rightarrow> Some (False, pids)
      | Some line \<Rightarrow> fold (visit k children cap) (strtok_all {CHR '' '', CHR 0x09, newline} line) (Some (False, pids)))"
  by (subst collect_children.simps) (simp only: visit_def [abs_def])

lemma descendant_child: "child_of children p c \<Longrightarrow> descendant children p c"
  by (simp add: descendant_def)

lemma descendant_below: "child_of children p c \<Longrightarrow> descendant children c q \<Longrightarrow> descendant children p q"
  unfolding descendant_def by (rule tranclp_into_tranclp2)

lemma descendant_cases:
  assumes "descendant children p q"
  obtains "child_of children p q" | c where "child_of children p c" "descendant children c q"
  using assms unfolding descendant_def by (metis rtranclpD tranclpD)

lemma visits_collect:
  assumes step: "\<And>child ps. length ps \<le> cap \<Longrightarrow> cap + 1 \<le> length ps + k \<Longrightarrow>
      collects children cap child ps (collect_children k children cap child ps)"
    and toks: "\<forall>t \<in> set toks. atoi t > 1 \<longrightarrow> child_of children orig (atoi t)"
    and fuel: "length ps \<le> cap" "cap \<le> length ps + k"
  shows "\<exists>over' new. fold (visit k children cap) toks (Some (over, ps)) = Some (over', ps @ new) \<and>
    length (ps @ new) \<le> cap \<and> (\<forall>p \<in> set new. descendant children orig p) \<and>
    (\<not> over' \<longrightarrow> \<not> over \<and> (\<forall>t \<in> set toks. atoi t > 1 \<longrightarrow>
       atoi t \<in> set (ps @ new) \<and> (\<forall>p. descendant children (atoi t) p \<longrightarrow> p \<in> set (ps @ new))))"
  using toks fuel
proof (induction toks arbitrary: over ps)
  case (Cons t toks)
  have rest: "\<forall>t \<in> set toks. atoi t > 1 \<longrightarrow> child_of children orig (atoi t)" using Cons.prems(1) by simp
  consider (full) "length ps \<ge> cap" | (skip) "length ps < cap" "\<not> atoi t > 1" | (child) "length ps < cap" "atoi t > 1"
    by linarith
  then show ?case
  proof cases
    case full
    then have v: "visit k children cap t (Some (over, ps)) = Some (True, ps)" by (simp add: visit_def)
    from Cons.IH [OF rest Cons.prems(2,3), of True] show ?thesis by (auto simp: v)
  next
    case skip
    then have v: "visit k children cap t (Some (over, ps)) = Some (over, ps)" by (simp add: visit_def)
    from Cons.IH [OF rest Cons.prems(2,3), of over] skip(2) show ?thesis by (auto simp: v)
  next
    case child
    let ?c = "atoi t" let ?ps = "ps @ [?c]"
    have l: "length ?ps \<le> cap" "cap + 1 \<le> length ?ps + k" using child(1) Cons.prems(3) by simp_all
    from step [OF l, of ?c] obtain o2 new where c: "collect_children k children cap ?c ?ps = Some (o2, ?ps @ new)"
      "length (?ps @ new) \<le> cap" "\<forall>p \<in> set new. descendant children ?c p"
      "\<not> o2 \<longrightarrow> (\<forall>p. descendant children ?c p \<longrightarrow> p \<in> set (?ps @ new))"
      unfolding collects_def by blast
    have v: "visit k children cap t (Some (over, ps)) = Some (over \<or> o2, ?ps @ new)"
      using child c(1) by (simp add: visit_def)
    have "cap \<le> length (?ps @ new) + k" using Cons.prems(3) by simp
    from Cons.IH [OF rest c(2) this, of "over \<or> o2"] obtain over' more where m:
      "fold (visit k children cap) toks (Some (over \<or> o2, ?ps @ new)) = Some (over', (?ps @ new) @ more)"
      "length ((?ps @ new) @ more) \<le> cap" "\<forall>p \<in> set more. descendant children orig p"
      "\<not> over' \<longrightarrow> \<not> (over \<or> o2) \<and> (\<forall>t \<in> set toks. atoi t > 1 \<longrightarrow>
         atoi t \<in> set ((?ps @ new) @ more) \<and> (\<forall>p. descendant children (atoi t) p \<longrightarrow> p \<in> set ((?ps @ new) @ more)))"
      by blast
    have "child_of children orig ?c" using Cons.prems(1) child(2) by simp
    then have "\<forall>p \<in> set (?c # new @ more). descendant children orig p"
      using c(3) m(3) descendant_child descendant_below by auto
    then show ?thesis using m c(4) by (intro exI [of _ over'] exI [of _ "?c # new @ more"]) (auto simp: v)
  qed
qed auto

lemma collect_children_collects:
  "length ps \<le> cap \<Longrightarrow> cap + 1 \<le> length ps + k \<Longrightarrow> collects children cap orig ps (collect_children k children cap orig ps)"
proof (induction k arbitrary: orig ps)
  case (Suc k)
  let ?file = "case children orig of None \<Rightarrow> None | Some text \<Rightarrow> fgets_line 4096 text"
  show ?case
  proof (cases "length ps \<ge> cap")
    case True
    then have "collect_children (Suc k) children cap orig ps = Some (True, ps @ [])" by simp
    then show ?thesis using Suc.prems(1) unfolding collects_def by (intro exI [of _ True] exI [of _ "[]"]) simp
  next
    case False
    show ?thesis
    proof (cases ?file)
      case None
      then have "\<not> child_of children orig c" for c by (auto simp: child_of_def)
      then have "\<not> descendant children orig p" for p by (auto elim: descendant_cases)
      moreover have "collect_children (Suc k) children cap orig ps = Some (False, ps @ [])"
        using False None by (simp add: collect_visits del: collect_children.simps)
      ultimately show ?thesis
        using Suc.prems(1) unfolding collects_def by (intro exI [of _ False] exI [of _ "[]"]) simp
    next
      case (Some line)
      let ?toks = "strtok_all {CHR '' '', CHR 0x09, newline} line"
      have kids: "child_of children orig c \<longleftrightarrow> c \<in> atoi ` set ?toks \<and> c > 1" for c
        using Some by (auto simp: child_of_def split: option.splits)
      have e: "collect_children (Suc k) children cap orig ps = fold (visit k children cap) ?toks (Some (False, ps))"
        using False Some by (simp add: collect_visits del: collect_children.simps)
      have "cap \<le> length ps + k" using Suc.prems(2) by simp
      from visits_collect [OF Suc.IH _ Suc.prems(1) this, of ?toks orig False] kids
      obtain over new where r: "fold (visit k children cap) ?toks (Some (False, ps)) = Some (over, ps @ new)"
        "length (ps @ new) \<le> cap" "\<forall>p \<in> set new. descendant children orig p"
        "\<not> over \<longrightarrow> (\<forall>t \<in> set ?toks. atoi t > 1 \<longrightarrow>
           atoi t \<in> set (ps @ new) \<and> (\<forall>p. descendant children (atoi t) p \<longrightarrow> p \<in> set (ps @ new)))" by auto
      have "p \<in> set (ps @ new)" if "\<not> over" "descendant children orig p" for p
        using that(2)
      proof (cases rule: descendant_cases)
        case 1
        then show ?thesis using r(4) that(1) kids by auto
      next
        case (2 c)
        then obtain t where "t \<in> set ?toks" "c = atoi t" "atoi t > 1" using kids by auto
        then show ?thesis using r(4) that(1) 2(2) by blast
      qed
      then show ?thesis using r(1-3) unfolding e collects_def by blast
    qed
  qed
qed simp

subsection \<open>The signals\<close>

lemma kills_simps [simp]:
  "fa_kills (send_kill p sig f) = fa_kills f @ [(p, sig)]" "fa_kills (next_answer f) = fa_kills f"
  "fa_kills (tree_log p n f) = fa_kills f"
  by (simp_all add: send_kill_def next_answer_def tree_log_def fan_log_def on_dm_def)

lemma kill_all_kills [simp]: "fa_kills (kill_all alive sig pids f) = fa_kills f @ map (\<lambda>p. (p, sig)) (filter alive pids)"
  unfolding kill_all_def by (induction pids arbitrary: f) simp_all

lemma proc_stat_kills: "fan_proc_stat env p n f = (r, g) \<Longrightarrow> fa_kills g = fa_kills f"
  by (auto simp: fan_proc_stat_def)

lemma reaper_kills:
  "fa_kills (reaper cl n pids pid f) = fa_kills f @ map (\<lambda>p. (p, SIGKILL)) (filter (proc_alive cl n) (rev pids)) @
     (if proc_alive cl (n + 1) pid
      then (pid, SIGTERM) # (if proc_alive cl (n + 2) pid then [(pid, SIGKILL)] else []) else [])"
  by (simp add: reaper_def Let_def)

text \<open>The tree was larger than the list.\<close>

definition tree_truncated :: "cloud_env \<Rightarrow> nat \<Rightarrow> int \<Rightarrow> bool" where
  "tree_truncated cl n pid \<longleftrightarrow>
     (\<exists>ps. collect_children (TREE_CAP + 1) (cl_children cl n) TREE_CAP pid [] = Some (True, ps))"

lemma tree_kills:
  fixes cl :: cloud_env and f :: fan
  defines "desc \<equiv> descendant (cl_children cl (fa_n f))"
  shows "\<exists>new. fa_kills (cloud_kill_process_tree env cl pid f) = fa_kills f @ new \<and>
    (\<not> proc_alive cl (fa_n f) pid \<longrightarrow> new = []) \<and>
    (\<forall>(p, s) \<in> set new. p > 1 \<and> (p = pid \<or> desc pid p)) \<and>
    (proc_alive cl (fa_n f) pid \<longrightarrow>
       (\<forall>p. \<not> tree_truncated cl (fa_n f) pid \<and> desc pid p \<and> proc_alive cl (fa_n f + 1) p \<longrightarrow> (p, SIGTERM) \<in> set new) \<and>
       (\<not> fe_fork env (fa_n f) \<or> proc_alive cl (fa_n f + 3) pid \<and> proc_alive cl (fa_n f + 4) pid \<longrightarrow>
          (pid, SIGKILL) \<in> set new))"
proof (cases "proc_alive cl (fa_n f) pid")
  case True
  let ?n = "fa_n f" let ?children = "cl_children cl ?n"
  have "collects ?children TREE_CAP pid [] (collect_children (TREE_CAP + 1) ?children TREE_CAP pid [])"
    by (rule collect_children_collects) (simp_all add: TREE_CAP_def)
  then obtain over pids where c: "collect_children (TREE_CAP + 1) ?children TREE_CAP pid [] = Some (over, pids)"
    "\<forall>p \<in> set pids. desc pid p" "\<not> over \<longrightarrow> (\<forall>p. desc pid p \<longrightarrow> p \<in> set pids)"
    unfolding collects_def desc_def by auto
  have pid: "pid > 1" using True by (simp add: proc_alive_def)
  have alive: "proc_alive cl m p \<Longrightarrow> p > 1" for m p by (simp add: proc_alive_def)
  have trunc: "tree_truncated cl ?n pid \<longleftrightarrow> over" using c(1) by (auto simp: tree_truncated_def)
  let ?mild = "map (\<lambda>p. (p, SIGTERM)) (filter (proc_alive cl (?n + 1)) (rev pids))"
  let ?kill = "map (\<lambda>p. (p, SIGKILL)) (filter (proc_alive cl (?n + 2)) (rev pids))"
  let ?tail = "if \<not> fe_fork env ?n then [(pid, SIGTERM), (pid, SIGKILL)]
    else ?kill @ (if proc_alive cl (?n + 3) pid
      then (pid, SIGTERM) # (if proc_alive cl (?n + 4) pid then [(pid, SIGKILL)] else []) else [])"
  have "fa_kills (cloud_kill_process_tree env cl pid f) = fa_kills f @ ?mild @ ?tail"
  proof -
    have later: "?n + 2 + 1 = ?n + 3" "?n + 2 + 2 = ?n + 4" by simp_all
    show ?thesis
      unfolding cloud_kill_process_tree_def Let_def
      by (simp add: True c(1) [unfolded Suc_eq_plus1 [symmetric]] reaper_kills [of cl "?n + 2", unfolded later]
          del: collect_children.simps add_2_eq_Suc' add_2_eq_Suc)
  qed
  moreover have "fst x > 1 \<and> (fst x = pid \<or> desc pid (fst x))" if "x \<in> set (?mild @ ?tail)" for x
  proof -
    have "fst x = pid \<or> fst x \<in> set pids \<and> fst x > 1" using that alive by (auto split: if_splits)
    then show ?thesis using c(2) pid by blast
  qed
  moreover have "(p, SIGTERM) \<in> set (?mild @ ?tail)"
    if "\<not> tree_truncated cl ?n pid" "desc pid p" "proc_alive cl (?n + 1) p" for p
    using that c(3) unfolding trunc by simp
  moreover have "(pid, SIGKILL) \<in> set (?mild @ ?tail)"
    if "\<not> fe_fork env ?n \<or> proc_alive cl (?n + 3) pid \<and> proc_alive cl (?n + 4) pid"
    using that by auto
  ultimately show ?thesis
    by (intro exI [of _ "?mild @ ?tail"]) (simp only: case_prod_beta simp_thms Ball_def True, blast)
next
  case False
  then show ?thesis by (intro exI [of _ "[]"]) (simp add: cloud_kill_process_tree_def Let_def)
qed

lemma dm_kills [simp]: "fa_kills (on_dm g f) = fa_kills f" "fa_kills (fan_log lv e k d f) = fa_kills f"
  "fa_kills (save_task i t x c s f) = fa_kills f"
  by (simp_all add: on_dm_def fan_log_def save_task_def)

lemma dm_answers [simp]: "fa_n (on_dm g f) = fa_n f" "fa_n (fan_log lv e k d f) = fa_n f"
  "fa_n (save_task i t x c s f) = fa_n f" "fa_n (next_answer f) = Suc (fa_n f)"
  by (simp_all add: on_dm_def fan_log_def save_task_def next_answer_def)

text \<open>The block of a task waits for ever or ends with its process tree.\<close>

lemma block_task_tree:
  obtains (stuck) "fa_stuck (cloud_block_task env cl task pid eid f)" "fa_kills (cloud_block_task env cl task pid eid f) = fa_kills f"
  | (tree) g where "cloud_block_task env cl task pid eid f = cloud_kill_process_tree env cl pid g" "fa_kills g = fa_kills f"
      "fa_n g = Suc (fa_n f)"
proof (cases "neo_croner_query (cl_croner cl (fa_n f)) task 256 4096")
  case None
  then show thesis by (intro stuck) (simp_all add: cloud_block_task_def case_prod_beta Let_def)
next
  case (Some q)
  obtain rc x c where q: "q = (rc, x, c)" by (cases q)
  show thesis
  proof (cases "neo_croner_delete (cl_croner cl (fa_n f)) task")
    case None
    then show thesis using Some q
      by (intro stuck) (simp_all add: cloud_block_task_def cloud_finish_def case_prod_beta Let_def)
  next
    case (Some drc)
    let ?f1 = "(next_answer f)\<lparr>fa_dm := snd (stamp (fa_dm (next_answer f)))\<rparr>"
    let ?saved = "fan_log LOG_WARN ''CLOUD_BLOCK_EXECUTED'' (Some task) (block_detail task x c (rc = 0) eid (fa_ctx ?f1))
        (save_task eid task x c (fst (stamp (fa_dm (next_answer f)))) ?f1)"
    let ?g = "if drc = 0 then fan_log LOG_INFO ''CLOUD_TASK_DELETED'' (Some task) ''{}'' ?saved
      else fan_log LOG_WARN ''CLOUD_TASK_DELETE_FAILED'' (Some task)
        ''{\"reason\":\"neo-croner unavailable or delete failed\"}'' ?saved"
    have "cloud_block_task env cl task pid eid f = cloud_kill_process_tree env cl pid ?g"
      using Some \<open>neo_croner_query (cl_croner cl (fa_n f)) task 256 4096 = Some q\<close> q
      by (simp add: cloud_block_task_def cloud_finish_def case_prod_beta Let_def)
    then show thesis by (rule tree) simp_all
  qed
qed

lemma cloud_block_tree:
  obtains (stuck) "fa_stuck (cloud_block env cl ev ctx f)" "fa_kills (cloud_block env cl ev ctx f) = fa_kills f"
  | (tree) g where "cloud_block env cl ev ctx f = cloud_kill_process_tree env cl (ev_pid ev) g" "fa_kills g = fa_kills f"
      "fa_n g = Suc (fa_n f)"
proof -
  obtain eid d where "cloud_block env cl ev ctx f = cloud_block_task env cl (cx_share_name ctx) (ev_pid ev) eid (f\<lparr>fa_dm := d\<rparr>)"
    by (cases "fa_ctx f") (auto simp: cloud_block_def case_prod_beta Let_def intro: that [of _ "fa_dm f"])
  then show thesis
    using stuck tree by (cases rule: block_task_tree [of env cl "cx_share_name ctx" "ev_pid ev" eid "f\<lparr>fa_dm := d\<rparr>"]) auto
qed

subsection \<open>The instance that was rated\<close>

text \<open>What \<open>/proc\<close> says of a process at the \<open>n\<close>-th question: its name and its start time.\<close>

definition stat_seen :: "fan_env \<Rightarrow> nat \<Rightarrow> int \<Rightarrow> nat \<Rightarrow> (string \<times> u64) option" where
  "stat_seen env n pid clen =
     (case fe_stat_line env n pid of
        None \<Rightarrow> None
      | Some content \<Rightarrow> (case fgets_line 1024 content of None \<Rightarrow> None | Some line \<Rightarrow> parse_proc_stat clen line))"

lemma fan_proc_stat_seen: "fan_proc_stat env pid clen f = (stat_seen env (fa_n f) pid clen, next_answer f)"
  unfolding fan_proc_stat_def stat_seen_def by (rule refl)

lemma stat_seen_start [simp]: "stat_seen env n pid clen \<noteq> Some (comm, 0)"
  by (auto simp: stat_seen_def parse_proc_stat_def Let_def split: option.splits if_splits)

text \<open>The start time recorded when the process was identified; \<open>None\<close> when none was found.\<close>

definition local_rated :: "fan_env \<Rightarrow> fanotify_event \<Rightarrow> fan \<Rightarrow> u64 option" where
  "local_rated env ev f =
     (if ev_pid ev \<le> 0 then None else map_option snd (stat_seen env (fa_n f) (ev_pid ev) 64))"

definition ftp_rated :: "fan_env \<Rightarrow> fanotify_event \<Rightarrow> fan \<Rightarrow> u64 option" where
  "ftp_rated env ev g = map_option snd (stat_seen env (fa_n g - 1) (ev_pid ev) 0)"

text \<open>An instance is spared when it is known to be another one.\<close>

definition may_be_rated :: "u64 option \<Rightarrow> u64 option \<Rightarrow> bool" where
  "may_be_rated start_then now_seen \<longleftrightarrow> (case start_then of None \<Rightarrow> True | Some start \<Rightarrow> now_seen = Some start)"

lemma local_start:
  assumes "local_resolve env ev ctx_zero f = (Some ctx, g)"
  shows "cx_proc_start ctx = (case local_rated env ev f of None \<Rightarrow> 0 | Some start \<Rightarrow> start)"
  using assms
  by (auto simp: local_resolve_def local_rated_def fan_proc_stat_seen local_ctx_def ctx_zero_def
      split: if_splits option.splits)

lemma ftp_start:
  assumes "ftp_resolve env ft ev ctx_zero f = (Some ctx, g)"
  shows "cx_proc_start ctx = (case ftp_rated env ev g of None \<Rightarrow> 0 | Some start \<Rightarrow> start)"
  using assms
  by (auto simp: ftp_resolve_def ftp_rated_def fan_proc_stat_seen Let_def ctx_zero_def
      split: prod.splits option.splits)

lemma local_signals:
  assumes "local_resolve env ev ctx_zero f0 = (Some ctx, g0)"
  shows "fa_kills (local_kill env ev ctx f) = fa_kills f @
    (if may_be_rated (local_rated env ev f0) (map_option snd (stat_seen env (fa_n f) (ev_pid ev) 0))
     then [(ev_pid ev, SIGKILL)] else [])"
proof -
  have "start \<noteq> 0" if "local_rated env ev f0 = Some start" for start
    using that by (auto simp: local_rated_def split: if_splits)
  then show ?thesis
    using local_start [OF assms]
    by (auto simp: local_kill_def may_be_rated_def fan_proc_stat_seen split: option.split prod.split)
qed

lemma ftp_signals:
  assumes "ftp_resolve env ft ev ctx_zero f0 = (Some ctx, g0)"
  shows "fa_kills (ftp_block env alive ev ctx f) = fa_kills f @
    (case stat_seen env (fa_n f) (ev_pid ev) 64 of
       None \<Rightarrow> []
     | Some (comm, now_start) \<Rightarrow>
         if strncmp_eq comm ''vsftpd'' 6 \<and> may_be_rated (ftp_rated env ev g0) (Some now_start)
         then (ev_pid ev, SIGTERM) #
           (if \<not> fe_fork env (Suc (fa_n f)) \<or> alive (Suc (fa_n f)) (ev_pid ev) then [(ev_pid ev, SIGKILL)] else [])
         else [])"
proof -
  have "start \<noteq> 0" if "ftp_rated env ev g0 = Some start" for start
    using that by (auto simp: ftp_rated_def)
  then show ?thesis
    using ftp_start [OF assms]
    by (auto simp: ftp_block_def ftp_block_execute_def Let_def may_be_rated_def fan_proc_stat_seen
        split: option.split prod.split)
qed

lemma cloud_signals:
  fixes cl :: cloud_env and f :: fan
  defines "desc \<equiv> descendant (cl_children cl (Suc (fa_n f)))" and "n \<equiv> Suc (fa_n f)"
  shows "\<exists>new. fa_kills (cloud_block env cl ev ctx f) = fa_kills f @ new \<and>
    (\<not> proc_alive cl n (ev_pid ev) \<longrightarrow> new = []) \<and>
    (\<forall>(p, s) \<in> set new. p > 1 \<and> (p = ev_pid ev \<or> desc (ev_pid ev) p)) \<and>
    (\<not> fa_stuck (cloud_block env cl ev ctx f) \<and> proc_alive cl n (ev_pid ev) \<longrightarrow>
       (\<forall>p. \<not> tree_truncated cl n (ev_pid ev) \<and> desc (ev_pid ev) p \<and> proc_alive cl (n + 1) p \<longrightarrow> (p, SIGTERM) \<in> set new) \<and>
       (\<not> fe_fork env n \<or> proc_alive cl (n + 3) (ev_pid ev) \<and> proc_alive cl (n + 4) (ev_pid ev) \<longrightarrow>
          (ev_pid ev, SIGKILL) \<in> set new))"
proof (cases rule: cloud_block_tree [of env cl ev ctx f])
  case stuck
  then show ?thesis by (intro exI [of _ "[]"]) simp
next
  case (tree g)
  show ?thesis
    using tree_kills [of env cl "ev_pid ev" g] unfolding tree(1) [symmetric] tree(2,3) desc_def n_def by blast
qed

text \<open>
  C9: Whom a block signals. A local process gets one SIGKILL exactly when the start time recorded
  when it was identified is still that of its number, and also, whatever the number is, when none was
  recorded: an event of process 0 then kills the daemon's own process group. An FTP process gets a
  SIGTERM, and a SIGKILL when it lives on, exactly when its number is a server process now and its
  start time is the recorded one or none was recorded. For a task the signals go to its process and
  the processes below it, found from the children of each main thread, and never to the numbers 0
  and 1; none is sent to a process that is gone, every process of a tree of at most 256 that is alive
  gets a SIGTERM, and the task's own process a SIGKILL when it lives on or no child could be forked.
\<close>

theorem block_signals:
  assumes "local_resolve env ev ctx_zero f0 = (Some lctx, g0)" and "ftp_resolve env ft ev ctx_zero h0 = (Some fctx, k0)"
    and "n = Suc (fa_n f)" and "below = descendant (cl_children cl n) (ev_pid ev)"
  shows "fa_kills (local_kill env ev lctx f) = fa_kills f @
      (if may_be_rated (local_rated env ev f0) (map_option snd (stat_seen env (fa_n f) (ev_pid ev) 0))
       then [(ev_pid ev, SIGKILL)] else []) \<and>
    fa_kills (ftp_block env alive ev fctx f) = fa_kills f @
      (case stat_seen env (fa_n f) (ev_pid ev) 64 of
         None \<Rightarrow> []
       | Some (comm, now_start) \<Rightarrow>
           if strncmp_eq comm ''vsftpd'' 6 \<and> may_be_rated (ftp_rated env ev k0) (Some now_start)
           then (ev_pid ev, SIGTERM) # (if \<not> fe_fork env n \<or> alive n (ev_pid ev) then [(ev_pid ev, SIGKILL)] else [])
           else []) \<and>
    (\<exists>new. fa_kills (cloud_block env cl ev cctx f) = fa_kills f @ new \<and>
      (\<not> proc_alive cl n (ev_pid ev) \<longrightarrow> new = []) \<and>
      (\<forall>(p, s) \<in> set new. p > 1 \<and> (p = ev_pid ev \<or> below p)) \<and>
      (\<not> fa_stuck (cloud_block env cl ev cctx f) \<and> proc_alive cl n (ev_pid ev) \<longrightarrow>
         (\<forall>p. \<not> tree_truncated cl n (ev_pid ev) \<and> below p \<and> proc_alive cl (n + 1) p \<longrightarrow> (p, SIGTERM) \<in> set new) \<and>
         (\<not> fe_fork env n \<or> proc_alive cl (n + 3) (ev_pid ev) \<and> proc_alive cl (n + 4) (ev_pid ev) \<longrightarrow>
            (ev_pid ev, SIGKILL) \<in> set new)))"
  unfolding assms(3,4)
  by (intro conjI local_signals [OF assms(1)] ftp_signals [OF assms(2)] cloud_signals)

lemma stuck_simps [simp]:
  "fa_stuck (send_kill p sig f) = fa_stuck f" "fa_stuck (next_answer f) = fa_stuck f" "fa_stuck (on_dm g f) = fa_stuck f"
  "fa_stuck (fan_log lv e k d f) = fa_stuck f" "fa_stuck (save_task i t x c s f) = fa_stuck f"
  "fa_stuck (tree_log q n f) = fa_stuck f"
  by (simp_all add: send_kill_def next_answer_def on_dm_def fan_log_def save_task_def tree_log_def)

lemma kill_all_stuck [simp]: "fa_stuck (kill_all alive sig pids f) = fa_stuck f"
  unfolding kill_all_def by (induction pids arbitrary: f) simp_all

lemma tree_stuck: "fa_stuck (cloud_kill_process_tree env cl pid f) = fa_stuck f"
  by (simp add: cloud_kill_process_tree_def reaper_def Let_def split: option.split del: collect_children.simps)

definition tree_cloud :: cloud_env where
  "tree_cloud = \<lparr>cl_children = (\<lambda>_ p. if p = 40 then Some ''41 '' else None), cl_alive = (\<lambda>_ _. True),
     cl_croner = (\<lambda>_. \<lparr>cr_pipe = False, cr_fork = False, cr_poll = (\<lambda>_. Poll_eof), cr_ends = True,
       cr_delete_fork = False, cr_delete_wait = (\<lambda>_. Reaped), cr_delete_ok = False\<rparr>)\<rparr>"

definition task_event :: fanotify_event where
  "task_event = \<lparr>ev_mask = 0, ev_fd = -1, ev_file = no_file, ev_pid = 40, ev_path = ''/srv/a'', ev_new_path = [], ev_new_name = []\<rparr>"

lemma tree_tokens: "fgets_line 4096 ''41 '' = Some ''41 ''" "strtok_all {CHR '' '', CHR 0x09, newline} ''41 '' = [''41'']"
  "atoi ''41'' = 41"
proof -
  show "fgets_line 4096 ''41 '' = Some ''41 ''" by (simp add: fgets_line_def newline_def cstr_of_def nul_def)
  have "strtok_all s [] = []" for s by (simp add: strtok_all.simps)
  then show "strtok_all {CHR '' '', CHR 0x09, newline} ''41 '' = [''41'']"
    by (subst strtok_all.simps) (simp add: newline_def strtok_all.simps [of _ "'' ''"])
  show "atoi ''41'' = 41" by code_simp
qed

definition group_event :: fanotify_event where
  "group_event = task_event\<lparr>ev_pid := 0\<rparr>"

text \<open>A task with one child; and an event of process 0, whose block signals the daemon's own group.\<close>

theorem block_signals_witness:
  "(41, SIGTERM) \<in> set (fa_kills (cloud_block sample_fan_env tree_cloud task_event ctx_zero sample_fan)) \<and>
   fa_kills (local_kill sample_fan_env group_event (local_ctx ''local'' ''unknown'' 0 ctx_zero) sample_fan) = [(0, SIGKILL)]"
proof
  have ftp: "\<exists>c k. ftp_resolve sample_fan_env (fo_ftp sample_os) ev ctx_zero sample_fan = (Some c, k)" for ev
    by (simp add: ftp_resolve_def Let_def case_prod_beta)
  have loc: "local_resolve sample_fan_env ev ctx_zero sample_fan = (Some (local_ctx ''local'' ''unknown'' 0 ctx_zero),
      if ev_pid ev \<le> 0 then sample_fan else next_answer sample_fan)" for ev
    using sample_identity [of ev sample_fan] by (simp add: channel_ops_def local_ops_def sample_os_def)
  obtain c k where ck: "ftp_resolve sample_fan_env (fo_ftp sample_os) task_event ctx_zero sample_fan = (Some c, k)"
    using ftp by blast
  have kid: "child_of (cl_children tree_cloud n) 40 41" for n
    by (auto simp: child_of_def tree_cloud_def tree_tokens)
  have levels: "TREE_CAP + 1 = Suc (Suc 255)" "length ([] :: int list) < TREE_CAP" "length [41 :: int] < TREE_CAP"
    by (simp_all add: TREE_CAP_def)
  have found: "collect_children (Suc (Suc k)) (cl_children tree_cloud n) TREE_CAP 40 [] = Some (False, [41])" for k n
    using levels(2,3) by (simp add: collect_visits tree_cloud_def tree_tokens visit_def del: collect_children.simps)
  have "\<not> tree_truncated tree_cloud n 40" for n
    unfolding tree_truncated_def levels(1) found by simp
  moreover have "\<not> fa_stuck (cloud_block sample_fan_env tree_cloud task_event ctx_zero sample_fan)"
    by (simp add: cloud_block_def cloud_block_task_def neo_croner_query_def neo_croner_delete_def valid_task_name_def
        cloud_finish_def case_prod_beta Let_def ctx_zero_def tree_stuck) (simp add: sample_fan_def)
  moreover have "proc_alive tree_cloud n p \<longleftrightarrow> p > 1" "ev_pid task_event = 40" for n p
    by (auto simp: proc_alive_def tree_cloud_def task_event_def)
  moreover have "descendant (cl_children tree_cloud n) 40 41" for n using kid by (rule descendant_child)
  ultimately show "(41, SIGTERM) \<in> set (fa_kills (cloud_block sample_fan_env tree_cloud task_event ctx_zero sample_fan))"
    using block_signals [OF loc ck refl refl, where f = sample_fan and cl = tree_cloud and cctx = ctx_zero,
        THEN conjunct2, THEN conjunct2] by fastforce
  obtain c' k' where "ftp_resolve sample_fan_env (fo_ftp sample_os) group_event ctx_zero sample_fan = (Some c', k')"
    using ftp by blast
  then show "fa_kills (local_kill sample_fan_env group_event (local_ctx ''local'' ''unknown'' 0 ctx_zero) sample_fan) = [(0, SIGKILL)]"
    using block_signals [OF loc _ refl refl, where ev = group_event and ft = "fo_ftp sample_os" and ?h0.0 = sample_fan and fctx = c'
        and ?k0.0 = k' and f = sample_fan]
    by (simp add: group_event_def local_rated_def may_be_rated_def sample_fan_def)
qed

end
