(* ===== verification/Read_Loops.thy ===== *)
theory Read_Loops
  imports Fan_Claims
begin

text \<open>
  Two loops that read until the end of a file: a file of \<open>/proc\<close> (\<open>read_proc_file\<close> of
  \<open>src/daemon/gfrguardd_ftp.c\<close>), whose buffer doubles, and the output of the helper program
  (\<open>croner_read\<close> in \<open>Fan_Cloud\<close>). Only interruptions without end keep them from returning.
\<close>

subsection \<open>A file of /proc\<close>

datatype proc_read = Read_intr | Read_error | Read_bytes string

definition PROC_FILE_CAP :: nat where "PROC_FILE_CAP = 4 * 1024 * 1024"

text \<open>
  \<open>grow k\<close>: whether the \<open>k\<close>-th doubling finds memory. A read gives at most what is asked for, an empty one
  is the end. The result is \<open>None\<close> for an error, without a \<open>Some\<close> around it for a loop that never ends.
\<close>

partial_function (option) read_proc_loop ::
  "(nat \<Rightarrow> bool) \<Rightarrow> (nat \<Rightarrow> proc_read) \<Rightarrow> nat \<Rightarrow> nat \<Rightarrow> nat \<Rightarrow> string \<Rightarrow> string option option" where
  "read_proc_loop grow ans n k cap buf =
     (let full = length buf + 4096 + 1 > cap in
      if full \<and> cap \<ge> PROC_FILE_CAP then Some (Some buf)
      else if full \<and> \<not> grow k then Some (Some buf)
      else
        let cap' = (if full then cap * 2 else cap); k' = (if full then k + 1 else k) in
        (case ans n of
           Read_intr \<Rightarrow> read_proc_loop grow ans (n + 1) k' cap' buf
         | Read_error \<Rightarrow> Some None
         | Read_bytes d \<Rightarrow>
             (let got = take (cap' - 1 - length buf) d in
              if got = [] then Some (Some buf) else read_proc_loop grow ans (n + 1) k' cap' (buf @ got))))"

text \<open>The file as a C string; opening it or the first buffer may fail.\<close>

definition read_proc_file ::
  "bool \<Rightarrow> bool \<Rightarrow> (nat \<Rightarrow> bool) \<Rightarrow> (nat \<Rightarrow> proc_read) \<Rightarrow> string option option" where
  "read_proc_file opened buffer grow ans =
     (if \<not> opened then Some None
      else if \<not> buffer then Some None
      else map_option (map_option cstr_of) (read_proc_loop grow ans 0 0 8192 []))"

lemmas read_proc_step = read_proc_loop.simps [unfolded Let_def]

text \<open>Every byte and the NUL behind them lie in the buffer, and what is returned begins the file.\<close>

fun read_text :: "proc_read \<Rightarrow> string" where
  "read_text (Read_bytes d) = d"
| "read_text _ = []"

definition doubled :: "nat \<Rightarrow> bool" where
  "doubled cap \<longleftrightarrow> (\<exists>j. cap = 8192 * 2 ^ j \<and> j \<le> 9)"

lemma doubled_cap: "doubled cap \<Longrightarrow> cap \<le> PROC_FILE_CAP \<and> cap \<ge> 8192"
proof -
  assume "doubled cap"
  then obtain j where j: "cap = 8192 * 2 ^ j" "j \<le> 9" by (auto simp: doubled_def)
  have "(2 :: nat) ^ j \<le> 2 ^ 9" by (rule power_increasing [OF j(2)]) simp
  then show ?thesis using j(1) by (simp add: PROC_FILE_CAP_def)
qed

lemma doubled_next: "doubled cap \<Longrightarrow> cap < PROC_FILE_CAP \<Longrightarrow> doubled (cap * 2)"
proof -
  assume "doubled cap" "cap < PROC_FILE_CAP"
  then obtain j where j: "cap = 8192 * 2 ^ j" "j \<le> 9" "8192 * 2 ^ j < (4194304 :: nat)"
    by (auto simp: doubled_def PROC_FILE_CAP_def)
  then have "j \<noteq> 9" by auto
  then show ?thesis using j by (auto simp: doubled_def intro!: exI [of _ "Suc j"])
qed

lemma read_proc_bounds:
  assumes "read_proc_loop grow ans n k cap buf = Some y"
  shows "\<forall>s. y = Some s \<and> doubled cap \<and> length buf < cap \<longrightarrow> length s < PROC_FILE_CAP \<and> (\<exists>t. s = buf @ t)"
proof (rule read_proc_loop.raw_induct [OF _ assms, where P = "\<lambda>grow ans n k cap buf y.
    \<forall>s. y = Some s \<and> doubled cap \<and> length buf < cap \<longrightarrow> length s < PROC_FILE_CAP \<and> (\<exists>t. s = buf @ t)"])
  fix loop :: "(nat \<Rightarrow> bool) \<Rightarrow> (nat \<Rightarrow> proc_read) \<Rightarrow> nat \<Rightarrow> nat \<Rightarrow> nat \<Rightarrow> string \<Rightarrow> string option option"
    and grow :: "nat \<Rightarrow> bool" and ans :: "nat \<Rightarrow> proc_read" and n k cap :: nat and buf :: string and y
  let ?full = "length buf + 4096 + 1 > cap" let ?cap = "if ?full then cap * 2 else cap"
  assume ih: "\<And>grow ans n k cap buf y. loop grow ans n k cap buf = Some y \<Longrightarrow>
      \<forall>s. y = Some s \<and> doubled cap \<and> length buf < cap \<longrightarrow> length s < PROC_FILE_CAP \<and> (\<exists>t. s = buf @ t)"
    and body: "(let full = length buf + 4096 + 1 > cap in
      if full \<and> cap \<ge> PROC_FILE_CAP then Some (Some buf)
      else if full \<and> \<not> grow k then Some (Some buf)
      else
        let cap' = (if full then cap * 2 else cap); k' = (if full then k + 1 else k) in
        (case ans n of
           Read_intr \<Rightarrow> loop grow ans (n + 1) k' cap' buf
         | Read_error \<Rightarrow> Some None
         | Read_bytes d \<Rightarrow>
             (let got = take (cap' - 1 - length buf) d in
              if got = [] then Some (Some buf) else loop grow ans (n + 1) k' cap' (buf @ got)))) = Some y"
  show "\<forall>s. y = Some s \<and> doubled cap \<and> length buf < cap \<longrightarrow> length s < PROC_FILE_CAP \<and> (\<exists>t. s = buf @ t)"
  proof (intro allI impI, elim conjE)
    fix s assume y: "y = Some s" and cap: "doubled cap" "length buf < cap"
    note lim = doubled_cap [OF cap(1)]
    show "length s < PROC_FILE_CAP \<and> (\<exists>t. s = buf @ t)"
    proof (cases "?full \<and> (cap \<ge> PROC_FILE_CAP \<or> \<not> grow k) \<or> s = buf")
      case True
      then have "s = buf" using body y by (auto simp: Let_def split: if_splits)
      then show ?thesis using cap lim by simp
    next
      case False
      then have grown: "doubled ?cap" "length buf < ?cap" using cap doubled_next [OF cap(1)] by auto
      from body y False consider (intr) k' where "loop grow ans (n + 1) k' ?cap buf = Some (Some s)"
        | (more) d k' where "loop grow ans (n + 1) k' ?cap (buf @ take (?cap - 1 - length buf) d) = Some (Some s)"
        by (cases "ans n") (auto simp: Let_def split: if_splits)
      then show ?thesis
      proof cases
        case intr
        from ih [OF this] grown show ?thesis by blast
      next
        case more
        have "length (buf @ take (?cap - 1 - length buf) d) < ?cap" using grown(2) by auto
        with ih [OF more] grown(1) show ?thesis by auto
      qed
    qed
  qed
qed

text \<open>Every answer but an interruption ends the loop or adds a byte, and there is room for finitely many.\<close>

lemma read_proc_returns:
  assumes live: "\<And>m. \<exists>i\<ge>m. ans i \<noteq> Read_intr" and "doubled cap" and "length buf < cap"
  shows "\<exists>y. read_proc_loop grow ans n k cap buf = Some y"
  using assms(2,3)
proof (induction "PROC_FILE_CAP - length buf" arbitrary: n k cap buf rule: less_induct)
  case less
  have more: "\<exists>y. read_proc_loop grow ans n' k' cap' (buf @ got) = Some y"
    if "got \<noteq> []" "doubled cap'" "length (buf @ got) < cap'" for n' k' cap' and got :: string
    using less.hyps [of "buf @ got" cap' n' k'] that doubled_cap [OF that(2)] by (cases got) auto
  from live [of n] obtain j where "ans (n + j) \<noteq> Read_intr" by (auto simp: le_iff_add)
  then show ?case using less.prems
  proof (induction j arbitrary: n k cap)
    case 0
    then show ?case using doubled_next [OF 0(2)]
      by (subst read_proc_step) (auto split: proc_read.splits intro!: more)
  next
    case (Suc j)
    then show ?case using doubled_next [OF Suc.prems(2)]
      by (subst read_proc_step) (auto split: proc_read.splits intro!: more Suc.IH)
  qed
qed

subsection \<open>The output of the helper program\<close>

text \<open>A silent time slice costs 100 of the 5000 milliseconds, which data gives back.\<close>

lemma croner_returns:
  assumes live: "\<And>m. \<exists>i\<ge>m. ans i \<noteq> Poll_intr" and "0 \<le> idle" and "idle \<le> 10000"
  shows "\<exists>y. croner_read ans n buf idle = Some y"
  using assms(2,3)
proof (induction "(8191 - length buf) * 20000 + nat (10000 - idle)" arbitrary: n buf idle rule: less_induct)
  case less
  have data: "\<exists>y. croner_read ans n' (buf @ take (8191 - length buf) d) 100 = Some y"
    if "take (8191 - length buf) d \<noteq> []" for n' d
  proof -
    from that have "length buf < 8191" "length (take (8191 - length buf) d) > 0" by auto
    then have "8191 - length (buf @ take (8191 - length buf) d) < 8191 - length buf"
      unfolding length_append by linarith
    then have "(8191 - length (buf @ take (8191 - length buf) d)) * 20000 + nat (10000 - 100)
        < (8191 - length buf) * 20000 + nat (10000 - idle)" by linarith
    from less.hyps [OF this] show ?thesis by simp
  qed
  have idle: "\<exists>y. croner_read ans n' buf (idle + 100) = Some y" if "idle + 100 < NEO_CRONER_TIMEOUT_MS" for n'
    using less.hyps [of buf "idle + 100" n'] that less.prems by (simp add: NEO_CRONER_TIMEOUT_MS_def)
  have step: "\<exists>y. croner_read ans n buf idle = Some y"
    if "ans n = Poll_intr \<Longrightarrow> \<exists>y. croner_read ans (n + 1) buf idle = Some y" for n
  proof (cases "ans n")
    case (Poll_data d)
    with data [of d "n + 1"] show ?thesis
      by (cases "take (8191 - length buf) d = []") (auto simp: croner_read.simps [of ans n buf idle] Let_def)
  qed (use that idle [of "n + 1"] in \<open>auto simp: croner_read.simps [of ans n buf idle] not_le\<close>)
  from live [of n] obtain j where "ans (n + j) \<noteq> Poll_intr" by (auto simp: le_iff_add)
  then show ?case
  proof (induction j arbitrary: n)
    case 0
    show ?case by (rule step) (use 0 in simp)
  next
    case (Suc j)
    show ?case by (rule step, rule Suc.IH) (use Suc.prems in simp)
  qed
qed

lemma croner_bounds:
  assumes "croner_read ans n buf idle = Some y"
  shows "length buf \<le> 8191 \<longrightarrow> length (snd y) \<le> 8191 \<and> (\<exists>t. snd y = buf @ t)"
proof (rule croner_read.raw_induct [OF _ assms, where P = "\<lambda>ans n buf idle y.
    length buf \<le> 8191 \<longrightarrow> length (snd y) \<le> 8191 \<and> (\<exists>t. snd y = buf @ t)"])
  fix loop :: "(nat \<Rightarrow> poll_step) \<Rightarrow> nat \<Rightarrow> string \<Rightarrow> int \<Rightarrow> (bool \<times> string) option"
    and ans :: "nat \<Rightarrow> poll_step" and n :: nat and buf :: string and idle :: int and y
  assume ih: "\<And>ans n buf idle y. loop ans n buf idle = Some y \<Longrightarrow>
      length buf \<le> 8191 \<longrightarrow> length (snd y) \<le> 8191 \<and> (\<exists>t. snd y = buf @ t)"
    and body: "(case ans n of
        Poll_intr \<Rightarrow> loop ans (n + 1) buf idle
      | Poll_error \<Rightarrow> Some (False, buf)
      | Poll_read_error \<Rightarrow> Some (False, buf)
      | Poll_eof \<Rightarrow> Some (True, buf)
      | Poll_data d \<Rightarrow>
          (let buf' = buf @ take (8191 - length buf) d in
           if take (8191 - length buf) d = [] then Some (True, buf)
           else if length buf' \<ge> 8191 then Some (True, buf')
           else loop ans (n + 1) buf' 100)
      | _ \<Rightarrow>
          if idle + 100 \<ge> NEO_CRONER_TIMEOUT_MS then Some (False, buf)
          else loop ans (n + 1) buf (idle + 100)) = Some y"
  show "length buf \<le> 8191 \<longrightarrow> length (snd y) \<le> 8191 \<and> (\<exists>t. snd y = buf @ t)"
  proof (intro impI, cases "ans n")
    case (Poll_data d)
    assume room: "length buf \<le> 8191"
    let ?buf = "buf @ take (8191 - length buf) d"
    have "length ?buf \<le> 8191" using room by simp
    moreover from body Poll_data have "y = (True, buf) \<or> y = (True, ?buf) \<or> loop ans (n + 1) ?buf 100 = Some y"
      by (simp add: Let_def split: if_splits)
    ultimately show "length (snd y) \<le> 8191 \<and> (\<exists>t. snd y = buf @ t)" using room ih [of ans "n + 1" ?buf 100 y] by auto
  qed (use body ih [of ans "n + 1" buf "idle + 100" y] ih [of ans "n + 1" buf idle y] in \<open>auto split: if_splits\<close>)
qed

subsection \<open>Both readers return\<close>

lemma croner_line_bounds:
  assumes "length (fst out) < elen" and "length (snd out) < clen"
  shows "length (fst (croner_line elen clen line out)) < elen \<and> length (snd (croner_line elen clen line out)) < clen"
  using assms by (cases out) (auto simp: croner_line_def snprintf_s_def)

lemma croner_lines_bounds:
  "0 < elen \<Longrightarrow> 0 < clen \<Longrightarrow>
   length (fst (fold (croner_line elen clen) ls ([], []))) < elen \<and> length (snd (fold (croner_line elen clen) ls ([], []))) < clen"
proof (rule fold_invariant [where Q = "\<lambda>_. True" and P = "\<lambda>out. length (fst out) < elen \<and> length (snd out) < clen"])
  fix line and out :: "string \<times> string"
  assume "length (fst out) < elen \<and> length (snd out) < clen"
  then show "length (fst (croner_line elen clen line out)) < elen \<and> length (snd (croner_line elen clen line out)) < clen"
    by (intro croner_line_bounds) simp_all
qed simp_all

text \<open>
  Only endless interruptions, or a helper that closes its output and does not end, keep the daemon waiting;
  the text fits the buffers, and what is read of a file of \<open>/proc\<close> begins it.
\<close>

theorem external_reads_return:
  assumes "\<And>m. \<exists>i\<ge>m. ans i \<noteq> Read_intr" and "\<And>m. \<exists>i\<ge>m. cr_poll cr i \<noteq> Poll_intr" and "cr_ends cr"
    and "0 < elen" and "0 < clen"
  shows "(\<exists>r. read_proc_file opened buffer grow ans = Some r \<and> (\<forall>s. r = Some s \<longrightarrow> length s < PROC_FILE_CAP)) \<and>
    (\<exists>rc expression command. neo_croner_query cr task elen clen = Some (rc, expression, command) \<and>
       length expression < elen \<and> length command < clen)"
proof
  have cap: "doubled 8192" by (auto simp: doubled_def intro: exI [of _ 0])
  from read_proc_returns [OF assms(1) cap, where buf = "[]" and grow = grow and n = 0 and k = 0]
  obtain y where y: "read_proc_loop grow ans 0 0 8192 [] = Some y" by auto
  have "\<forall>s. y = Some s \<longrightarrow> length s < PROC_FILE_CAP" using read_proc_bounds [OF y] cap by auto
  then show "\<exists>r. read_proc_file opened buffer grow ans = Some r \<and> (\<forall>s. r = Some s \<longrightarrow> length s < PROC_FILE_CAP)"
    using y by (auto simp: read_proc_file_def cstr_of_def intro: le_less_trans [OF length_takeWhile_le])
next
  from croner_returns [OF assms(2), where buf = "[]" and idle = 0 and n = 0]
  obtain ok buf where "croner_read (cr_poll cr) 0 [] 0 = Some (ok, buf)" by auto
  then show "\<exists>rc expression command. neo_croner_query cr task elen clen = Some (rc, expression, command) \<and>
      length expression < elen \<and> length command < clen"
    using croner_lines_bounds [OF assms(4,5), of "strtok_all {newline} (cstr_of buf)"] assms(3-5)
    by (cases "fold (croner_line elen clen) (strtok_all {newline} (cstr_of buf)) ([], [])")
      (auto simp: neo_croner_query_def)
qed

end
