(* ===== verification/Spec2Isabelle.thy ===== *)
theory Spec2Isabelle
  imports Fangate Rguard_Backup Daemon_Events Vfs_Claims Critical_Run Backup_Chain Fan_Reports Daemon_Process Persist_Chain
    Cjson_Buffer Cjson_Edits Kill_Props Read_Loops
begin

text \<open>
  gfrguard: a guard against ransomware for a file server. The library models the program under
  \<open>src/src/\<close>: a module inside Samba, a daemon with a monitor of its own, and a recovery tool, with the
  code they share. Every definition is written from the C source and can be evaluated.

  \<^bold>\<open>The program.\<close> The Samba module (\<open>vfs/vfs_gfrguard.c\<close>) sees every file operation of a client. Before
  an operation that destroys data it copies the file into the store, reports the operation to
  the daemon in a datagram of fixed layout, and refuses the operation when the client is listed in the
  blocked file. The daemon (\<open>daemon/\<close>) keeps a session per user and address, counts what the session does
  in sliding windows, scores it, and blocks a critical session: it writes the address into the blocked
  file, closes the share, adds the client to its automatic blacklist and records the event in a
  database. Its fanotify monitor watches directories that FTP, cloud synchronisation and local
  programs change: a permission thread answers every open and sends a report through a queue to the main
  thread, which also receives notifications of changes. The recovery tool (\<open>recover/\<close>) reads the
  database and puts the backups of an event back.

  \<^bold>\<open>Theories, in the order of the code.\<close>
  \<^item> \<open>Prelude\<close>, \<open>Cstring\<close>: words, saturating counters, lists, the C strings (\<open>snprintf\<close> into a bounded
    buffer is \<open>snprintf_s\<close>; a C string has no NUL, \<open>cstr\<close>).
  \<^item> \<open>Rguard_Errors\<close>, \<open>Rguard_Hash\<close>, \<open>Rguard_Protocol\<close>, \<open>Rguard_Log\<close>, \<open>Rguard_Config\<close>, \<open>Rguard_Db\<close>,
    \<open>Rguard_Proc\<close>, \<open>Rguard_Backup\<close>: the files of \<open>common/\<close> of the same names. \<open>Cjson\<close> holds the JSON
    values, \<open>Cjson_Text\<close> the parser and the printer of \<open>common/cJSON.c\<close> over texts, \<open>Cjson_Buffer\<close> the same printer
    with the buffer it grows and writes byte for byte. \<open>Cjson_Heap\<close> has the items as linked cells with the
    edits of \<open>cJSON.c\<close> on pointers; \<open>Cjson_Chains\<close>, \<open>Cjson_Trees\<close> and \<open>Cjson_Edits\<close> show what these do to the
    list of an array, to the document, and to its value in \<open>Cjson\<close>.
  \<^item> \<open>Session_Table\<close>, \<open>Scorer\<close>, \<open>Inet\<close>, \<open>Blocker\<close>, \<open>Fangate\<close>, \<open>Entropy\<close>, \<open>Upkeep\<close> (space and
    automatic restore), \<open>Yara\<close>: the parts of the daemon.
  \<^item> \<open>World\<close>: what the parts act on together, the files, the database, the log, the clock, and the
    answers of the system to the calls that can fail, numbered in the order of the calls.
  \<^item> \<open>Daemon_Main\<close>: one message through \<open>process_msg\<close> of \<open>gfrguardd_main.c\<close>; \<open>Daemon_Loop\<close>: start, reload and
    the event loop of that file; \<open>Daemon_Process\<close>: its options, signals, log and database before the first turn.
  \<^item> \<open>Fanotify\<close>, \<open>Fan_Channel\<close>, \<open>Fan_Local\<close>, \<open>Fan_Cloud\<close>, \<open>Fan_Ftp\<close>, \<open>Fan_Threads\<close>: the monitor, the handler
    all channels share, the three channels, and the two threads as a step relation. \<open>Read_Loops\<close>: the growing read of a file
    of \<open>/proc\<close>, and when the readers of the channels return.
  \<^item> \<open>Vfs\<close>: the operations of the Samba module over a file system of nodes; \<open>Recover\<close>: the tool, which resolves
    every path from the root, with dots, dot-dots and links as the kernel does.
  \<^item> Beside a component \<open>X\<close>, the theories \<open>X_Props\<close>, \<open>X_Claims\<close>, \<open>X_Outcomes\<close>, \<open>X_Counts\<close> and \<open>X_Events\<close> hold its
    lemmas and properties; \<open>Fan_Contract\<close>, \<open>Fan_Sound\<close> and \<open>Fan_Reports\<close> those of the channels, \<open>Kill_Props\<close> that of the processes
    a block signals, \<open>Daemon_Runs\<close> and
    \<open>Daemon_Steps\<close> those of the event loop. \<open>Persist_Chain\<close> follows a verdict into the policy file and back,
    \<open>Backup_Chain\<close> a backup from the module through the record of the daemon to the tool, \<open>Critical_Run\<close> a
    run of messages up to the block.

  \<^bold>\<open>State and errors.\<close> A \<open>struct\<close> is a record, an enumeration a datatype, a machine integer a word
  where it can wrap and an \<open>int\<close> where the code stays in range. An operation takes the state and
  returns it changed; an error code or a NULL is a value of the result. What the system answers
  (\<open>stat\<close>, \<open>fork\<close>, reads of \<open>/proc\<close>, records of the kernel, a clock) is an argument, or a
  stream of answers that a counter in the state reads, so that two calls may answer differently; no
  statement assumes that a call succeeds unless it says so.

  \<^bold>\<open>Interfaces.\<close> \<open>Session_Table\<close> states the table as a map with eviction and proves the probing loops to
  implement it. \<open>Fan_Contract\<close> has the locale of a channel's callbacks (what they leave alone, how long the
  identity is) and proves the common handler once inside it; it is interpreted for the three
  channels and for the dispatch over them. \<open>Fan_Sound\<close> extends the contract by what a callback may do to the
  daemon behind it.

  \<^bold>\<open>What is shown.\<close> For one component: hashes, searches and sorting agree with membership; the policy that loading
  accepts is sound; a JSON document that is printed is parsed back, and the
  buffer of the printer is never left; the edits of a policy in memory are those of its value, free
  what they remove and nothing else; the session table never loses a blocked session; the score, the gates
  and the lists do what the policy says; the blocked file's history and what a successful blocking does not
  promise; copies that count as complete are, from any descriptor positions and clones of shrunk files apart;
  a restore reaches nothing that no accepted record names. Across components: a client the daemon found critical is refused by the module
  (this theory); what the module sends is what the daemon handles, and whatever
  anyone else sends to its socket is read inside the fields of the header (\<open>Daemon_Main\<close>); a destroyed or opened
  file has its backup first, and the report of an open says what became of it; the recorded path is where the backup is, and where it is not
  (\<open>Backup_Chain\<close>); a verdict written to the policy file is in force after the next start (\<open>Persist_Chain\<close>); every open request is answered once, by the lists; what the queue admits is
  processed once and in order; from the start on no interleaving of threads, timer, children and reloads breaks the
  daemon's invariant or lifts a block (\<open>Daemon_Steps\<close>), and the start establishes that invariant or ends with an
  exit code (\<open>Daemon_Process\<close>); a block signals the numbers of the attack's processes, and spares another process with that
  number exactly when a start time had been recorded (\<open>Kill_Props\<close>). Where the code does not do what its comments
  promise the property states what it does.

  \<^bold>\<open>Bounds and fuel.\<close> Loops over a table run by structural recursion or with a measure. The loops that may not
  end (probing a full table, waiting for a child, reading through endless interruptions) are partial functions into \<open>option\<close>, with totality proved
  where it holds. \<open>collect_children\<close> and the walk of the rules directories carry fuel one above the limit the
  code has itself, so that they are total; the parser's nesting is bounded by the code's own limit.

  \<^bold>\<open>Not modelled.\<close> The text of the messages for a terminal, how \<open>getopt\<close> splits a command line (the daemon's
  options are modelled as it returns them), the creation of sockets, timers and descriptors and the
  installing of signal handlers (only whether they succeed), SQLite itself (the statements, the schema and
  the opening are modelled on tables), libyara, the kernel's side of fanotify, the helper programs.
  Allocations do not fail, except in \<open>Cjson_Buffer\<close>, \<open>Cjson_Heap\<close> and \<open>Read_Loops\<close>. Of cJSON: the functions that no file of
  the program calls, the conversion between decimal text and a double (\<open>strtod\<close> and \<open>sprintf\<close> are
  arguments). The tests, the web
  pages and the packaging are not part of the model. The memory model of threads is not: the shared structures
  are behind locks or used by one thread, and a step is one event.
\<close>

section \<open>Properties that span components\<close>

subsection \<open>From the daemon's verdict to the denial\<close>

text \<open>The module looks at the daemon's blocked file, and at its current contents.\<close>

definition watches :: "vfs \<Rightarrow> vfs_answers \<Rightarrow> daemon \<Rightarrow> bool" where
  "watches v a d \<longleftrightarrow>
     (\<exists>cfg n. v_cfg v = Some cfg \<and> gc_protect cfg \<and> gc_blocked_path cfg = BLOCKED_PATH \<and>
        v_files v BLOCKED_PATH = Some n \<and> w_files (dm_world d) BLOCKED_PATH = Some (n_data n) \<and>
        sees_file a cfg n)"

text \<open>
  C1: The verdict reaches the file server: when an assessed message makes its session critical
  and blocks it, and the client has a real address, then every operation of that client that
  asks the blocked list is denied by the Samba module of each share that sees the file the
  daemon has written: it fails with EACCES, the next module is not called and no file changes.
\<close>

theorem critical_client_denied:
  assumes "daemon_inv d" and "length (m_client_ip msg) < RGUARD_IP_LEN"
    and "\<forall>n. good_io (w_answers (dm_world d) n)"
    and "m_msg_type msg \<noteq> RGUARD_MSG_VFS_BLOCKED" and "\<not> exempt (dm_policy d) msg"
    and "\<not> scorer_is_blacklisted (dm_policy d) (Some (m_username msg)) (Some (m_client_ip msg))"
    and "session_lookup (dm_table (process_msg env msg d)) (msg_key msg) = Some s"
    and "s_risk_level s = RISK_CRITICAL" and "\<not> was_blocked d (msg_key msg)" and "is_real_ip (m_client_ip msg)"
    and "watches v a (process_msg env msg d)" and "session_ip (v_conn v) = m_client_ip msg" and "guarded v op"
  shows "fst (run_op nx a op v) = (-1, EACCES) \<and> v_files (snd (run_op nx a op v)) = v_files v \<and>
    v_next (snd (run_op nx a op v)) = v_next v"
proof -
  from assms(11) obtain cfg n where w: "v_cfg v = Some cfg" "gc_protect cfg"
    "v_files v (gc_blocked_path cfg) = Some n" "sees_file a cfg n"
    and bl: "w_files (dm_world (process_msg env msg d)) BLOCKED_PATH = Some (n_data n)"
    by (auto simp: watches_def)
  have "m_client_ip msg \<in> set (blocked_lines BLOCKED_PATH (dm_world (process_msg env msg d)))"
    using critical_session_effect [OF assms(1-7)] assms(8,9,10) by blast
  then have "session_ip (v_conn v) \<in> set (lines_of (n_data n))"
    by (simp add: blocked_lines_def bl assms(12))
  moreover have "session_ip (v_conn v) \<noteq> []" using assms(10,12) by auto
  ultimately show ?thesis
    using listed_denied [OF w _ _ assms(13), of nx] by blast
qed

text \<open>The module on a client's connection, looking at the daemon's file after a run.\<close>

definition module_beside :: "daemon \<Rightarrow> string \<Rightarrow> string \<Rightarrow> vfs" where
  "module_beside d ip bytes = (sample_vfs bytes)\<lparr>v_conn := (v_conn (sample_vfs bytes))\<lparr>sc_remote_host := Some ip\<rparr>\<rparr>"

lemma module_beside_watches:
  assumes "w_files (dm_world d) BLOCKED_PATH = Some bytes"
  shows "watches (module_beside d ip bytes)
      (sample_vfs_answers\<lparr>va_blocked_read := Io_bytes (length bytes)\<rparr>) d"
    and "session_ip (v_conn (module_beside d ip bytes)) = ip"
  using assms
  by (auto simp: watches_def module_beside_def sample_vfs_def sample_config_def sample_node_def sees_file_def
      sample_vfs_answers_def BLOCKED_PATH_DEFAULT_def BLOCKED_PATH_def session_ip_def)

theorem critical_client_denied_witness:
  "\<exists>d bytes. w_files (dm_world (process_msg sample_env plain_open d)) BLOCKED_PATH = Some bytes \<and>
     fst (run_op sample_next (sample_vfs_answers\<lparr>va_blocked_read := Io_bytes (length bytes)\<rparr>)
       (Unlinkat (Some ''a.txt'') 0)
       (module_beside (process_msg sample_env plain_open d) (m_client_ip plain_open) bytes)) = (-1, EACCES)"
proof -
  obtain d s where d: "daemon_inv d" "\<forall>n. good_io (w_answers (dm_world d) n)" "dm_policy d = apply_defaults"
    "\<not> was_blocked d (msg_key plain_open)"
    and s: "session_lookup (dm_table (process_msg sample_env plain_open d)) (msg_key plain_open) = Some s"
    "s_risk_level s = RISK_CRITICAL"
    by (rule critical_run)
  let ?d = "process_msg sample_env plain_open d"
  have ip: "m_client_ip plain_open = ''10.0.0.7''" by (simp add: plain_open_def sample_msg_def)
  have len: "length (m_client_ip plain_open) < RGUARD_IP_LEN" by (simp add: ip RGUARD_IP_LEN_def)
  have real: "is_real_ip (m_client_ip plain_open)"
    by (simp add: ip is_real_ip_def inet_pton4_def digit_val_def)
  have ty: "m_msg_type plain_open \<noteq> RGUARD_MSG_VFS_BLOCKED"
    by (simp add: plain_open_def sample_msg_def RGUARD_MSG_VFS_BLOCKED_def RGUARD_MSG_FILE_EVENT_def)
  have ex: "\<not> exempt (dm_policy d) plain_open"
    using sample_policy_facts(1) by (simp add: d(3) exempt_def plain_open_def)
  have bl: "\<not> scorer_is_blacklisted (dm_policy d) (Some (m_username plain_open)) (Some (m_client_ip plain_open))"
    using sample_policy_facts(2) by (simp add: d(3))
  have "m_client_ip plain_open \<in> set (blocked_lines BLOCKED_PATH (dm_world ?d))"
    using critical_session_effect [OF d(1) len d(2) ty ex bl s(1)] s(2) d(4) real by blast
  then obtain bytes where b: "w_files (dm_world ?d) BLOCKED_PATH = Some bytes"
    by (cases "w_files (dm_world ?d) BLOCKED_PATH") (auto simp: blocked_lines_def)
  note w = module_beside_watches [OF b, of "m_client_ip plain_open"]
  have "guarded (module_beside ?d (m_client_ip plain_open) bytes) (Unlinkat (Some ''a.txt'') 0)" by simp
  from critical_client_denied [OF d(1) len d(2) ty ex bl s d(4) real w this, of sample_next] b
  show ?thesis by blast
qed

subsection \<open>From the module's events to the daemon\<close>

lemma msg_zero_fits: "msg_fits msg_zero"
  by (simp add: msg_fits_def msg_zero_def cstr_def)

text \<open>The strings of a connection are C strings.\<close>

definition conn_ok :: "smb_conn \<Rightarrow> bool" where
  "conn_ok c \<longleftrightarrow> cstr (session_user c) \<and> cstr (session_ip c) \<and> cstr (share_name_of c) \<and> cstr (sc_connectpath c)"

lemma msg_from_fits: "conn_ok c \<Longrightarrow> msg_fits (msg_from a c ty)"
  using length_snprintf_s [of 64 "session_user c"] length_snprintf_s [of 48 "session_ip c"]
    length_snprintf_s [of 64 "share_name_of c"]
  by (simp add: msg_from_def msg_fits_def msg_zero_def conn_ok_def)

lemma event_of_fits:
  assumes "conn_ok c" and "\<forall>p. rel = Some p \<longrightarrow> cstr p" and "\<forall>p. nn = Some p \<longrightarrow> cstr p"
  shows "msg_fits (event_of a c op fl rel nn st)"
proof -
  have "cstr (sc_connectpath c @ ''/'' @ p)" if "cstr p" for p
    using that assms(1) by (simp add: conn_ok_def cstr_def nul_def)
  then show ?thesis
    using assms msg_from_fits [OF assms(1), of a RGUARD_MSG_FILE_EVENT] length_snprintf_s [of 4096]
      length_snprintf_s [of 256]
    by (auto simp: event_of_def Let_def msg_fits_def split: option.split)
qed

lemma receive_encoded:
  assumes "msg_fits m" and "m_proto_version m = RGUARD_PROTO_VERSION"
  shows "receive_datagram env (msg_encode m) (logged, d) = (logged, process_msg env m d)"
  using receive_fields [OF length_msg_encode [OF assms(1)] encode_fields [OF assms(1)]] assms(2) by simp

lemma sent_versions [simp]:
  "m_proto_version (event_of a c op fl rel nn st) = RGUARD_PROTO_VERSION"
  "m_proto_version (msg_from a c ty) = RGUARD_PROTO_VERSION"
  "m_msg_type (msg_from a c ty) = ty"
  by (simp_all add: event_of_def msg_from_def Let_def split: option.split)

text \<open>
  C15: The two programs agree on the wire: whatever event the Samba module sends, the datagram has
  the size the daemon demands and the daemon processes exactly the fields the module filled in,
  no path cut and no version refused; and a denial it reports is handled as a denial.
\<close>

theorem module_events_processed:
  assumes "conn_ok c" and "\<forall>p. rel = Some p \<longrightarrow> cstr p" and "\<forall>p. nn = Some p \<longrightarrow> cstr p"
  shows "receive_datagram env (msg_encode (event_of a c op fl rel nn st)) (logged, d) =
      (logged, process_msg env (event_of a c op fl rel nn st) d) \<and>
    receive_datagram env (msg_encode (msg_from a c RGUARD_MSG_VFS_BLOCKED)) (logged, d) =
      (logged, vfs_blocked (msg_from a c RGUARD_MSG_VFS_BLOCKED) (msg_key (msg_from a c RGUARD_MSG_VFS_BLOCKED)) d)"
  using receive_encoded [OF event_of_fits [OF assms]] receive_encoded [OF msg_from_fits [OF assms(1)]]
  by (simp add: process_msg_def msg_key_def Let_def)

theorem module_events_processed_witness:
  "receive_datagram sample_env
      (msg_encode (event_of sample_vfs_answers (v_conn (sample_vfs [])) RGUARD_OP_DELETE 0 (Some ''a.txt'') None None))
      (False, sample_daemon) =
    (False, process_msg sample_env
      (event_of sample_vfs_answers (v_conn (sample_vfs [])) RGUARD_OP_DELETE 0 (Some ''a.txt'') None None) sample_daemon)"
proof -
  have "conn_ok (v_conn (sample_vfs []))"
    by (simp add: conn_ok_def cstr_def nul_def sample_vfs_def session_user_def session_ip_def share_name_of_def)
  from module_events_processed [OF this, of "Some ''a.txt''" None, THEN conjunct1] show ?thesis
    by (simp add: cstr_def nul_def)
qed

end
